(* ===== verification/Prelude.thy ===== *)
theory Prelude
  imports Main "HOL-Library.Char_ord" "HOL-Library.List_Lexorder"
    "HOL-Library.Code_Target_Numeral"
begin

text \<open>Shared vocabulary of the development: collections of simplification facts, the result
  type of fallible Rust functions, ordered key/value tables (the shape of a database table that
  is iterated in key order), and three interfaces that several components use: a key/value
  table, a transition system with an invariant, and a delay that doubles up to a cap.

  A Rust string is a list of bytes (its UTF-8 encoding); the order on strings is the
  lexicographic order on those bytes, which is the order of Rust's str.\<close>

named_theorems store_simps \<open>equations of the result store operations\<close>
named_theorems step_preserves \<open>invariant preservation facts, one per operation\<close>
named_theorems timing \<open>facts about delays and deadlines\<close>

type_synonym ('e, 'a) result = "'e + 'a"

abbreviation Ok :: "'a \<Rightarrow> ('e, 'a) result" where "Ok \<equiv> Inr"
abbreviation Err :: "'e \<Rightarrow> ('e, 'a) result" where "Err \<equiv> Inl"

definition is_ok :: "('e, 'a) result \<Rightarrow> bool" where
  "is_ok r = (case r of Inl _ \<Rightarrow> False | Inr _ \<Rightarrow> True)"

lemma is_ok_simps [simp]: "is_ok (Ok x)" "\<not> is_ok (Err e)"
  by (simp_all add: is_ok_def)

lemma is_ok_iff: "is_ok r \<longleftrightarrow> (\<exists>x. r = Ok x)"
  by (cases r) simp_all


definition unwrap_or :: "'a option \<Rightarrow> 'a \<Rightarrow> 'a" where
  "unwrap_or x d = (case x of None \<Rightarrow> d | Some v \<Rightarrow> v)"

lemma unwrap_or_simps [simp]: "unwrap_or None d = d" "unwrap_or (Some v) d = v"
  by (simp_all add: unwrap_or_def)

text \<open>Strings: prefixes, ASCII white space, the first character with a property.\<close>

definition starts_with :: "string \<Rightarrow> string \<Rightarrow> bool" where
  "starts_with s pre = (take (length pre) s = pre)"

definition is_whitespace :: "char \<Rightarrow> bool" where
  "is_whitespace c = (let n = of_char c :: nat in n = 32 \<or> 9 \<le> n \<and> n \<le> 13)"

definition trim_start :: "string \<Rightarrow> string" where "trim_start = dropWhile is_whitespace"

definition find_char :: "(char \<Rightarrow> bool) \<Rightarrow> string \<Rightarrow> nat option" where
  "find_char P s = (if \<exists>c \<in> set s. P c then Some (length (takeWhile (\<lambda>c. \<not> P c) s)) else None)"

definition split_once :: "char \<Rightarrow> string \<Rightarrow> (string \<times> string) option" where
  "split_once c s = map_option (\<lambda>i. (take i s, drop (i + 1) s)) (find_char (\<lambda>d. d = c) s)"

definition trim :: "string \<Rightarrow> string" where "trim s = rev (trim_start (rev (trim_start s)))"

fun split_on :: "char \<Rightarrow> string \<Rightarrow> string list" where
  "split_on c [] = [[]]"
| "split_on c (x # xs) = (if x = c then [] # split_on c xs else case split_on c xs of p # ps \<Rightarrow> (x # p) # ps | [] \<Rightarrow> [[x]])"

fun join_with :: "char \<Rightarrow> string list \<Rightarrow> string" where
  "join_with c [] = []"
| "join_with c [w] = w"
| "join_with c (w # v # ws) = w @ c # join_with c (v # ws)"

lemma split_on_ne [simp]: "split_on c s \<noteq> []"
  by (induction s) (auto split: list.split)

lemma split_on_none: "c \<notin> set s \<Longrightarrow> split_on c s = [s]"
  by (induction s) auto

lemma split_on_field: "c \<notin> set f \<Longrightarrow> split_on c (f @ c # s) = f # split_on c s"
  by (induction f) auto

lemma split_on_append: "split_on c (s @ c # t) = split_on c s @ split_on c t"
  by (induction s) (auto split: list.split)

lemma join_split: "join_with c (split_on c s) = s"
proof (induction s)
  case (Cons d s)
  obtain p ps where "split_on c s = p # ps" by (cases "split_on c s") auto
  then show ?case using Cons by (cases ps) auto
qed simp

lemma split_on_parts: "p \<in> set (split_on c s) \<Longrightarrow> c \<notin> set p"
proof (induction s arbitrary: p)
  case (Cons d s)
  obtain q qs where "split_on c s = q # qs" by (cases "split_on c s") auto
  then show ?case using Cons by (cases "d = c") auto
qed simp

text \<open>Sequencing fallible steps on a state: the first error ends the sequence with the state it left.\<close>

definition and_do ::
  "('e, 'a) result \<times> 's \<Rightarrow> ('a \<Rightarrow> 's \<Rightarrow> ('e, 'b) result \<times> 's) \<Rightarrow> ('e, 'b) result \<times> 's" where
  "and_do r f = (case r of (Inl e, s) \<Rightarrow> (Err e, s) | (Inr x, s) \<Rightarrow> f x s)"

definition map_err :: "('e \<Rightarrow> 'f) \<Rightarrow> ('e, 'a) result \<times> 's \<Rightarrow> ('f, 'a) result \<times> 's" where
  "map_err g r = (case r of (Inl e, s) \<Rightarrow> (Err (g e), s) | (Inr x, s) \<Rightarrow> (Ok x, s))"

lemma and_do_simps [simp]:
  "and_do (Err e, s) f = (Err e, s)" "and_do (Ok x, s) f = f x s"
  by (simp_all add: and_do_def)

lemma map_err_simps [simp]:
  "map_err g (Err e, s) = (Err (g e), s)" "map_err g (Ok x, s) = (Ok x, s)"
  "snd (map_err g r) = snd r"
  by (auto simp: map_err_def split: prod.split sum.split)

lemma and_do_keeps:
  "Q (snd r) \<Longrightarrow> (\<And>x s. r = (Ok x, s) \<Longrightarrow> Q s \<Longrightarrow> Q (snd (f x s))) \<Longrightarrow> Q (snd (and_do r f))"
  by (cases r; cases "fst r") (auto simp: and_do_def)

lemma and_do_Ok:
  "and_do r f = (Ok y, s') \<Longrightarrow> \<exists>x s. r = (Ok x, s) \<and> f x s = (Ok y, s')"
  by (auto simp: and_do_def split: prod.splits sum.splits)

lemma map_err_Ok: "map_err g r = (Ok x, s) \<longleftrightarrow> r = (Ok x, s)"
  by (auto simp: map_err_def split: prod.splits sum.splits)


section \<open>The interface of a key/value table\<close>

locale kv_table =
  fixes get :: "'t \<Rightarrow> 'k \<Rightarrow> 'v option"
    and put :: "'k \<Rightarrow> 'v \<Rightarrow> 't \<Rightarrow> 't"
    and del :: "'k \<Rightarrow> 't \<Rightarrow> 't"
    and ok :: "'t \<Rightarrow> bool"
  assumes get_put: "ok t \<Longrightarrow> get (put k v t) = (get t)(k \<mapsto> v)"
    and get_del: "ok t \<Longrightarrow> get (del k t) = (get t)(k := None)"
    and ok_put: "ok t \<Longrightarrow> ok (put k v t)"
    and ok_del: "ok t \<Longrightarrow> ok (del k t)"
begin

lemma ok_put_all: "ok t \<Longrightarrow> ok (fold (\<lambda>(k, v). put k v) kvs t)"
  by (induction kvs arbitrary: t) (auto simp: ok_put)

lemma ok_del_all: "ok t \<Longrightarrow> ok (fold del ks t)"
  by (induction ks arbitrary: t) (auto simp: ok_del)

lemma get_put_same: "ok t \<Longrightarrow> get (put k v t) k = Some v"
  by (simp add: get_put)

lemma get_put_other: "ok t \<Longrightarrow> k' \<noteq> k \<Longrightarrow> get (put k v t) k' = get t k'"
  by (simp add: get_put)

lemma put_overrides: "ok t \<Longrightarrow> get (put k v' (put k v t)) = get (put k v' t)"
  by (simp add: get_put ok_put)

lemma put_after_del: "ok t \<Longrightarrow> get (put k v (del k t)) = get (put k v t)"
  by (simp add: get_put get_del ok_del)

lemma del_after_put: "ok t \<Longrightarrow> get t k = None \<Longrightarrow> get (del k (put k v t)) = get t"
  by (auto simp: get_put get_del ok_put)

lemma dom_put: "ok t \<Longrightarrow> dom (get (put k v t)) = insert k (dom (get t))"
  by (simp add: get_put)

lemma dom_del: "ok t \<Longrightarrow> dom (get (del k t)) = dom (get t) - {k}"
  by (simp add: get_del)

lemma dom_put_all:
  "ok t \<Longrightarrow> dom (get (fold (\<lambda>(k, v). put k v) kvs t)) = fst ` set kvs \<union> dom (get t)"
proof (induction kvs arbitrary: t)
  case (Cons kv kvs)
  then show ?case by (cases kv) (auto simp: ok_put dom_put)
qed simp

lemma dom_del_all: "ok t \<Longrightarrow> dom (get (fold del ks t)) = dom (get t) - set ks"
  by (induction ks arbitrary: t) (auto simp: ok_del dom_del)

lemma get_del_all: "ok t \<Longrightarrow> get (fold del ks t) k = (if k \<in> set ks then None else get t k)"
  by (induction ks arbitrary: t) (auto simp: ok_del get_del)

end


section \<open>The interface of a transition system with an invariant\<close>

locale inv_system =
  fixes init :: "'s \<Rightarrow> bool"
    and step :: "'s \<Rightarrow> 's \<Rightarrow> bool"
    and inv :: "'s \<Rightarrow> bool"
  assumes inv_init: "init s \<Longrightarrow> inv s"
    and inv_step: "inv s \<Longrightarrow> step s s' \<Longrightarrow> inv s'"
begin

lemma inv_steps: "step\<^sup>*\<^sup>* s s' \<Longrightarrow> inv s \<Longrightarrow> inv s'"
  by (induction rule: rtranclp_induct) (auto intro: inv_step)

lemma inv_reachable: "init s \<Longrightarrow> step\<^sup>*\<^sup>* s s' \<Longrightarrow> inv s'"
  by (blast intro: inv_steps inv_init)

end


section \<open>The interface of a doubling delay with a cap\<close>

locale capped_backoff =
  fixes next_delay :: "nat \<Rightarrow> nat"
    and start cap :: nat
  assumes next_def: "next_delay d = min (2 * d) cap"
    and start_le: "start \<le> cap"
    and start_pos: "0 < start"
begin

definition delay_at :: "nat \<Rightarrow> nat" where
  "delay_at n = (next_delay ^^ n) start"

lemma delay_at_0: "delay_at 0 = start"
  by (simp add: delay_at_def)

lemma delay_at_Suc: "delay_at (Suc n) = min (2 * delay_at n) cap"
proof -
  have "delay_at (Suc n) = next_delay (delay_at n)"
    by (simp add: delay_at_def)
  then show ?thesis by (simp only: next_def)
qed

lemma delay_at_closed: "delay_at n = min (2 ^ n * start) cap"
proof (induction n)
  case 0
  then show ?case using start_le by (simp add: delay_at_def)
next
  case (Suc n)
  then show ?case by (simp add: delay_at_Suc min_def)
qed

lemma delay_le_cap: "delay_at n \<le> cap"
  by (simp add: delay_at_closed)

lemma delay_ge_start: "start \<le> delay_at n"
proof -
  have "1 * start \<le> 2 ^ n * start"
    by (rule mult_le_mono1) simp
  then show ?thesis using start_le by (simp add: delay_at_closed)
qed

lemma delay_mono: "delay_at n \<le> delay_at (Suc n)"
  by (auto simp: delay_at_closed min_def)

lemma delay_saturates: "cap \<le> 2 ^ n * start \<Longrightarrow> delay_at n = cap"
  by (simp add: delay_at_closed)

end


section \<open>Ordered tables\<close>

text \<open>A table iterated in key order: an association list sorted strictly by key.\<close>

fun tab_insert :: "string \<Rightarrow> 'v \<Rightarrow> (string \<times> 'v) list \<Rightarrow> (string \<times> 'v) list" where
  "tab_insert k v [] = [(k, v)]"
| "tab_insert k v ((k', v') # t) =
     (if k < k' then (k, v) # (k', v') # t
      else if k = k' then (k, v) # t
      else (k', v') # tab_insert k v t)"

definition tab_remove :: "string \<Rightarrow> (string \<times> 'v) list \<Rightarrow> (string \<times> 'v) list" where
  "tab_remove k t = filter (\<lambda>(k', _). k' \<noteq> k) t"

definition tab_ok :: "(string \<times> 'v) list \<Rightarrow> bool" where
  "tab_ok t = sorted_wrt (<) (map fst t)"

lemma tab_ok_Nil [simp]: "tab_ok []"
  by (simp add: tab_ok_def)

lemma tab_insert_keys: "fst ` set (tab_insert k v t) = insert k (fst ` set t)"
  by (induction k v t rule: tab_insert.induct) auto

lemma tab_ok_distinct: "tab_ok t \<Longrightarrow> distinct (map fst t)"
  by (simp add: tab_ok_def strict_sorted_iff)

lemma tab_ok_insert: "tab_ok t \<Longrightarrow> tab_ok (tab_insert k v t)"
proof (induction k v t rule: tab_insert.induct)
  case (2 k v k' v' t)
  then show ?case
    using tab_insert_keys[of k v t] by (fastforce simp: tab_ok_def)
qed (simp add: tab_ok_def)

lemma tab_ok_remove: "tab_ok t \<Longrightarrow> tab_ok (tab_remove k t)"
  unfolding tab_ok_def tab_remove_def
  by (induction t) (auto split: prod.splits)

lemma tab_get_insert: "tab_ok t \<Longrightarrow> map_of (tab_insert k v t) = (map_of t)(k \<mapsto> v)"
proof (induction k v t rule: tab_insert.induct)
  case (2 k v k' v' t)
  then show ?case by (auto simp: tab_ok_def fun_eq_iff)
qed (auto simp: fun_eq_iff)

lemma tab_get_remove: "map_of (tab_remove k t) = (map_of t)(k := None)"
  by (induction t) (auto simp: tab_remove_def fun_eq_iff)

interpretation tab: kv_table "\<lambda>t k. map_of t k" tab_insert tab_remove tab_ok
  by unfold_locales
    (simp_all only: tab_get_insert tab_get_remove tab_ok_insert tab_ok_remove)

lemma tab_get_fold_insert_ok:
  "tab_ok t \<Longrightarrow> tab_ok (fold (\<lambda>(k, v). tab_insert k v) kvs t)"
  by (rule tab.ok_put_all)

lemma tab_length: "tab_ok t \<Longrightarrow> length t = card (dom (map_of t))"
  using distinct_card[OF tab_ok_distinct, of t] by (simp add: dom_map_of_conv_image_fst)

lemma tab_mem_iff: "tab_ok t \<Longrightarrow> (k, v) \<in> set t \<longleftrightarrow> map_of t k = Some v"
  using tab_ok_distinct map_of_eq_Some_iff by metis

lemmas tab_dom = tab.dom_put tab.dom_del tab.dom_put_all tab.dom_del_all
lemmas tab_oks = tab.ok_put tab.ok_del tab.ok_put_all tab.ok_del_all

end
