(* ===== verification/ExecModels.thy ===== *)
theory ExecModels
  imports Prelude "HOL-Library.Word"
begin

text \<open>The data of remote execution (models/execution.rs): shells, privilege levels, script
  specifications, the three messages the backend sends, the result sent back, and the request
  the executor runs. The trait ExecutionMessage is the record message_kind of its constants and
  methods, with one value of it per implementation. Deserialisation of a payload is serde's and
  is a parameter of the listener that calls it.\<close>

datatype script_shell = Powershell | Cmd | Bash | Python | Nushell | Shell

fun as_param :: "script_shell \<Rightarrow> string" where
  "as_param Powershell = ''powershell''"
| "as_param Cmd = ''cmd''"
| "as_param Bash = ''bash''"
| "as_param Shell = ''sh''"
| "as_param Python = ''python''"
| "as_param Nushell = ''nushell''"

datatype privilege_level = User | Admin

record script_env_var =
  ev_name :: string
  ev_value :: string
  ev_secret :: bool

record script_spec =
  sp_code :: string
  sp_shell :: script_shell
  sp_privilege_level :: "privilege_level option"
  sp_args :: "string list option"
  sp_timeout_seconds :: "64 word option"
  sp_env_vars :: "script_env_var list option"

record execution_request =
  rq_execution_id :: string
  rq_code :: string
  rq_shell :: script_shell
  rq_privilege :: privilege_level
  rq_args :: "string list"
  rq_timeout_secs :: "64 word"
  rq_env_vars :: "string list"
  rq_script_id :: "string option"
  rq_schedule_id :: "string option"

record rmm_result =
  rr_execution_id :: string
  rr_machine_id :: string
  rr_stdout :: string
  rr_stderr :: string
  rr_exit_code :: int
  rr_execution_time_ms :: nat
  rr_timed_out :: bool
  rr_error :: "string option"
  rr_script_id :: "string option"
  rr_schedule_id :: "string option"


definition default_timeout :: "64 word" where
  "default_timeout = 900"

definition to_request ::
  "script_spec \<Rightarrow> string \<Rightarrow> string option \<Rightarrow> string option \<Rightarrow> execution_request" where
  "to_request spec execution_id script_id schedule_id =
    \<lparr> rq_execution_id = execution_id,
      rq_code = sp_code spec,
      rq_shell = sp_shell spec,
      rq_privilege = unwrap_or (sp_privilege_level spec) Admin,
      rq_args = unwrap_or (sp_args spec) [],
      rq_timeout_secs = unwrap_or (sp_timeout_seconds spec) default_timeout,
      rq_env_vars = map (\<lambda>e. ev_name e @ ''='' @ ev_value e) (unwrap_or (sp_env_vars spec) []),
      rq_script_id = script_id,
      rq_schedule_id = schedule_id \<rparr>"

record script_message =
  sm_execution_id :: string
  sm_machine_id :: "string option"
  sm_schedule_id :: "string option"
  sm_script_id :: "string option"
  sm_spec :: script_spec

record script_schedule_execution_item =
  si_script_id :: string
  si_spec :: script_spec

record script_schedule_execution_message =
  ss_execution_id :: string
  ss_schedule_id :: "string option"
  ss_machine_id :: "string option"
  ss_initiated_by :: "string option"
  ss_scripts :: "script_schedule_execution_item list"

record command_message =
  cm_execution_id :: string
  cm_code :: string
  cm_shell :: script_shell
  cm_privilege_level :: "privilege_level option"
  cm_timeout :: "64 word"

text \<open>The trait: its associated constants and its methods on a message.\<close>

record 'm message_kind =
  mk_KIND :: string
  mk_RESULT_KIND :: string
  mk_DURABLE :: bool
  mk_execution_id :: "'m \<Rightarrow> string"
  mk_schedule_id :: "'m \<Rightarrow> string option"
  mk_to_requests :: "'m \<Rightarrow> execution_request list"

definition command_kind :: "command_message message_kind" where
  "command_kind =
    \<lparr> mk_KIND = ''command-execution'',
      mk_RESULT_KIND = ''command-execution'',
      mk_DURABLE = False,
      mk_execution_id = cm_execution_id,
      mk_schedule_id = (\<lambda>_. None),
      mk_to_requests = (\<lambda>m.
        [\<lparr> rq_execution_id = cm_execution_id m,
           rq_code = cm_code m,
           rq_shell = cm_shell m,
           rq_privilege = unwrap_or (cm_privilege_level m) Admin,
           rq_args = [],
           rq_timeout_secs = cm_timeout m,
           rq_env_vars = [],
           rq_script_id = None,
           rq_schedule_id = None \<rparr>]) \<rparr>"

definition script_kind :: "script_message message_kind" where
  "script_kind =
    \<lparr> mk_KIND = ''script-execution'',
      mk_RESULT_KIND = ''script-execution'',
      mk_DURABLE = False,
      mk_execution_id = sm_execution_id,
      mk_schedule_id = sm_schedule_id,
      mk_to_requests = (\<lambda>m.
        [to_request (sm_spec m) (sm_execution_id m) (sm_script_id m) (sm_schedule_id m)]) \<rparr>"

definition script_schedule_kind :: "script_schedule_execution_message message_kind" where
  "script_schedule_kind =
    \<lparr> mk_KIND = ''script-schedule-execution'',
      mk_RESULT_KIND = mk_KIND script_kind,
      mk_DURABLE = True,
      mk_execution_id = ss_execution_id,
      mk_schedule_id = ss_schedule_id,
      mk_to_requests = (\<lambda>m.
        map (\<lambda>item. to_request (si_spec item) (ss_execution_id m) (Some (si_script_id item))
                       (ss_schedule_id m)) (ss_scripts m)) \<rparr>"

text \<open>Every request of a message carries the message's execution id.\<close>

definition kind_wf :: "'m message_kind \<Rightarrow> bool" where
  "kind_wf K \<longleftrightarrow> (\<forall>m. \<forall>r \<in> set (mk_to_requests K m). rq_execution_id r = mk_execution_id K m)"

lemma kinds_wf: "kind_wf command_kind" "kind_wf script_kind" "kind_wf script_schedule_kind"
  by (auto simp: kind_wf_def command_kind_def script_kind_def script_schedule_kind_def
      to_request_def)

end
