(* ===== verification/ResultStore.thy ===== *)
theory ResultStore
  imports ExecModels
begin

text \<open>The durable result store (services/result_store.rs): three database tables, the journal
  of accepted scripts and the outbox (meta data and payload) of results to deliver. Every
  operation is one transaction; the environment decides for each transaction whether the
  database fails it (a failed transaction changes nothing), what the clock reads, and how serde
  encodes a result. A store that could not be opened has no database at all.\<close>

definition OUTBOX_MAX_ENTRIES :: nat where "OUTBOX_MAX_ENTRIES = 500"

definition OUTBOX_MAX_PAYLOAD_BYTES :: nat where
  "OUTBOX_MAX_PAYLOAD_BYTES = 1024 * 1024 - 64 * 1024"

definition TRUNCATION_MARKER :: string where
  "TRUNCATION_MARKER = ''output truncated: exceeded transport size limit''"
definition ERROR_NOT_STARTED :: string where
  "ERROR_NOT_STARTED = ''not executed: agent restarted earlier in batch''"
definition ERROR_INTERRUPTED :: string where
  "ERROR_INTERRUPTED = ''interrupted by agent restart; outcome unknown''"

record journal_record =
  jr_subject :: string
  jr_execution_id :: string
  jr_schedule_id :: "string option"
  jr_machine_id :: string
  jr_script_id :: "string option"
  jr_started :: bool
  jr_created_at_secs :: nat

record outbox_meta =
  om_subject :: string
  om_created_at_secs :: nat

definition entry_key :: "string \<Rightarrow> string option \<Rightarrow> string" where
  "entry_key execution_id script_id =
    (case script_id of Some i \<Rightarrow> execution_id @ '':'' @ i | None \<Rightarrow> execution_id)"

record database =
  JOURNAL :: "(string \<times> journal_record) list"
  OUTBOX_META :: "(string \<times> outbox_meta) list"
  OUTBOX_PAYLOAD :: "(string \<times> string) list"

definition empty_database :: database where
  "empty_database = \<lparr> JOURNAL = [], OUTBOX_META = [], OUTBOX_PAYLOAD = [] \<rparr>"

text \<open>The environment, indexed by the number of transactions begun so far.\<close>

record store_env =
  db_fails :: "nat \<Rightarrow> bool"
  clock :: "nat \<Rightarrow> nat"
  to_vec :: "rmm_result \<Rightarrow> string"

record store_state =
  st_db :: "database option"
  st_txn :: nat

datatype store_error = NotDurable | DbError

definition enabled :: "'a store_state_scheme \<Rightarrow> bool" where
  "enabled w = (st_db w \<noteq> None)"

text \<open>Opening: a database that does not open is moved aside and opened once more; if that
  fails too the store runs without durability. The file system is the parameter.\<close>

definition open_or_degrade ::
  "(string \<Rightarrow> 'f \<Rightarrow> database option \<times> 'f) \<Rightarrow> (string \<Rightarrow> string \<Rightarrow> 'f \<Rightarrow> 'f) \<Rightarrow>
   (string \<Rightarrow> string \<Rightarrow> string) \<Rightarrow> string \<Rightarrow> 'f \<Rightarrow> database option \<times> 'f" where
  "open_or_degrade open_db rename with_extension path fs =
    (case open_db path fs of
       (Some db, fs1) \<Rightarrow> (Some db, fs1)
     | (None, fs1) \<Rightarrow> open_db path (rename path (with_extension path ''redb.corrupt'') fs1))"


section \<open>Encoding a result under the transport limit\<close>

text \<open>String::is\_char\_boundary and the shrinking step.\<close>

definition is_continuation_byte :: "char \<Rightarrow> bool" where
  "is_continuation_byte c = (128 \<le> (of_char c :: nat) \<and> (of_char c :: nat) < 192)"

definition is_char_boundary :: "string \<Rightarrow> nat \<Rightarrow> bool" where
  "is_char_boundary s n =
    (n = 0 \<or> n = length s \<or> (n < length s \<and> \<not> is_continuation_byte (s ! n)))"

fun floor_boundary :: "string \<Rightarrow> nat \<Rightarrow> nat" where
  "floor_boundary s 0 = 0"
| "floor_boundary s (Suc n) =
     (if is_char_boundary s (Suc n) then Suc n else floor_boundary s n)"

definition shrink :: "string \<Rightarrow> string" where
  "shrink s = take (floor_boundary s (length s - (length s div 4 + 1))) s"

lemma floor_boundary_le: "floor_boundary s n \<le> n"
  by (induction s n rule: floor_boundary.induct) auto

lemma floor_boundary_boundary: "is_char_boundary s (floor_boundary s n)"
  by (induction s n rule: floor_boundary.induct) (auto simp: is_char_boundary_def)

lemma shrink_shorter: "s \<noteq> [] \<Longrightarrow> length (shrink s) < length s"
proof -
  assume "s \<noteq> []"
  then have "length s - (length s div 4 + 1) < length s"
    by (cases s) auto
  then show ?thesis
    unfolding shrink_def using floor_boundary_le[of s "length s - (length s div 4 + 1)"] by simp
qed

lemma shrink_take: "\<exists>n. shrink s = take n s \<and> is_char_boundary s n"
  unfolding shrink_def using floor_boundary_boundary by blast

function encode_loop :: "(rmm_result \<Rightarrow> string) \<Rightarrow> rmm_result \<Rightarrow> string" where
  "encode_loop enc capped =
    (let bytes = enc capped in
     if length bytes \<le> OUTBOX_MAX_PAYLOAD_BYTES then bytes
     else if rr_stdout capped \<noteq> [] then
       encode_loop enc (capped \<lparr> rr_stdout := shrink (rr_stdout capped) \<rparr>)
     else if rr_stderr capped \<noteq> [] then
       encode_loop enc (capped \<lparr> rr_stderr := shrink (rr_stderr capped) \<rparr>)
     else bytes)"
  by pat_completeness auto

termination
  by (relation "measure (\<lambda>(enc, r). length (rr_stdout r) + length (rr_stderr r))")
    (auto simp: shrink_shorter)

declare encode_loop.simps [simp del]

definition encode_result :: "(rmm_result \<Rightarrow> string) \<Rightarrow> rmm_result \<Rightarrow> string" where
  "encode_result enc r =
    (let full = enc r in
     if length full \<le> OUTBOX_MAX_PAYLOAD_BYTES then full
     else encode_loop enc (r \<lparr> rr_error := Some TRUNCATION_MARKER \<rparr>))"


section \<open>Transactions\<close>

definition with_db ::
  "'e store_env_scheme \<Rightarrow> (database \<Rightarrow> 'a \<times> database) \<Rightarrow> 'w store_state_scheme \<Rightarrow>
   (store_error, 'a) result \<times> 'w store_state_scheme" where
  "with_db E f w =
    (case st_db w of
       None \<Rightarrow> (Err NotDurable, w)
     | Some db \<Rightarrow>
         if db_fails E (st_txn w) then (Err DbError, w \<lparr> st_txn := Suc (st_txn w) \<rparr>)
         else let (a, db') = f db in
           (Ok a, w \<lparr> st_db := Some db', st_txn := Suc (st_txn w) \<rparr>))"

definition journal_contains_batch :: "(string \<times> journal_record) list \<Rightarrow> string \<Rightarrow> bool" where
  "journal_contains_batch journal execution_id =
    list_ex (\<lambda>(key, _). key = execution_id \<or> starts_with key (execution_id @ '':'')) journal"

definition journal_batch ::
  "'e store_env_scheme \<Rightarrow> string \<Rightarrow> (string \<times> journal_record) list \<Rightarrow> 'w store_state_scheme \<Rightarrow>
   (store_error, bool) result \<times> 'w store_state_scheme" where
  "journal_batch E execution_id records =
    with_db E (\<lambda>db.
      if journal_contains_batch (JOURNAL db) execution_id then (False, db)
      else (True, db \<lparr> JOURNAL := fold (\<lambda>(k, r). tab_insert k r) records (JOURNAL db) \<rparr>))"

definition has_batch ::
  "'e store_env_scheme \<Rightarrow> string \<Rightarrow> 'w store_state_scheme \<Rightarrow>
   (store_error, bool) result \<times> 'w store_state_scheme" where
  "has_batch E execution_id =
    with_db E (\<lambda>db. (journal_contains_batch (JOURNAL db) execution_id, db))"

definition journal_remove ::
  "'e store_env_scheme \<Rightarrow> string \<Rightarrow> 'w store_state_scheme \<Rightarrow>
   (store_error, unit) result \<times> 'w store_state_scheme" where
  "journal_remove E key = with_db E (\<lambda>db. ((), db \<lparr> JOURNAL := tab_remove key (JOURNAL db) \<rparr>))"

definition journal_mark_started ::
  "'e store_env_scheme \<Rightarrow> string \<Rightarrow> 'w store_state_scheme \<Rightarrow>
   (store_error, unit) result \<times> 'w store_state_scheme" where
  "journal_mark_started E key =
    with_db E (\<lambda>db.
      case map_of (JOURNAL db) key of
        None \<Rightarrow> ((), db)
      | Some record \<Rightarrow>
          ((), db \<lparr> JOURNAL := tab_insert key (record \<lparr> jr_started := True \<rparr>) (JOURNAL db) \<rparr>))"

text \<open>Pruning keeps the newest entries: the entries in key order are sorted by creation time
  (a stable sort) and the oldest are removed from both outbox tables.\<close>

definition prune_victims :: "nat \<Rightarrow> (string \<times> outbox_meta) list \<Rightarrow> string list" where
  "prune_victims keep_newest meta =
    map fst (take (length meta - keep_newest)
      (sort_key snd (map (\<lambda>(k, m). (k, om_created_at_secs m)) meta)))"

definition prune_oldest ::
  "'e store_env_scheme \<Rightarrow> nat \<Rightarrow> 'w store_state_scheme \<Rightarrow>
   (store_error, nat) result \<times> 'w store_state_scheme" where
  "prune_oldest E keep_newest =
    with_db E (\<lambda>db.
      if length (OUTBOX_META db) \<le> keep_newest then (0, db)
      else let victims = prune_victims keep_newest (OUTBOX_META db) in
        (length victims,
         db \<lparr> OUTBOX_META := fold tab_remove victims (OUTBOX_META db),
              OUTBOX_PAYLOAD := fold tab_remove victims (OUTBOX_PAYLOAD db) \<rparr>))"

definition prune_over_cap ::
  "'e store_env_scheme \<Rightarrow> 'w store_state_scheme \<Rightarrow> 'w store_state_scheme" where
  "prune_over_cap E w = snd (prune_oldest E OUTBOX_MAX_ENTRIES w)"

text \<open>The body of the completing transaction.\<close>

definition complete_db ::
  "string \<Rightarrow> outbox_meta \<Rightarrow> string \<Rightarrow> database \<Rightarrow> database" where
  "complete_db key m bytes db =
    db \<lparr> OUTBOX_META := tab_insert key m (OUTBOX_META db),
         OUTBOX_PAYLOAD := tab_insert key bytes (OUTBOX_PAYLOAD db),
         JOURNAL := tab_remove key (JOURNAL db) \<rparr>"

text \<open>Completing an entry moves it from the journal to the outbox in one transaction, then
  prunes; an error while pruning is only logged.\<close>

definition complete_entry ::
  "'e store_env_scheme \<Rightarrow> string \<Rightarrow> string \<Rightarrow> string \<Rightarrow> 'w store_state_scheme \<Rightarrow>
   (store_error, unit) result \<times> 'w store_state_scheme" where
  "complete_entry E key subject bytes w =
    (let m = \<lparr> om_subject = subject, om_created_at_secs = clock E (st_txn w) \<rparr> in
     case with_db E (\<lambda>db. ((), complete_db key m bytes db)) w of
       (Inl e, w1) \<Rightarrow> (Err e, w1)
     | (Inr _, w1) \<Rightarrow> (Ok (), prune_over_cap E w1))"

definition recovered_result :: "journal_record \<Rightarrow> rmm_result" where
  "recovered_result r =
    \<lparr> rr_execution_id = jr_execution_id r,
      rr_machine_id = jr_machine_id r,
      rr_stdout = [],
      rr_stderr = [],
      rr_exit_code = 85,
      rr_execution_time_ms = 0,
      rr_timed_out = False,
      rr_error = Some (if jr_started r then ERROR_INTERRUPTED else ERROR_NOT_STARTED),
      rr_script_id = jr_script_id r,
      rr_schedule_id = jr_schedule_id r \<rparr>"

fun recover_loop ::
  "'e store_env_scheme \<Rightarrow> (string \<times> journal_record) list \<Rightarrow> 'w store_state_scheme \<Rightarrow>
   (store_error, unit) result \<times> 'w store_state_scheme" where
  "recover_loop E [] w = (Ok (), w)"
| "recover_loop E ((key, r) # records) w =
     (case complete_entry E key (jr_subject r)
             (encode_result (to_vec E) (recovered_result r)) w of
        (Inl e, w1) \<Rightarrow> (Err e, w1)
      | (Inr _, w1) \<Rightarrow> recover_loop E records w1)"

definition recover ::
  "'e store_env_scheme \<Rightarrow> 'w store_state_scheme \<Rightarrow>
   (store_error, nat) result \<times> 'w store_state_scheme" where
  "recover E w =
    (if \<not> enabled w then (Ok 0, w)
     else case with_db E (\<lambda>db. (JOURNAL db, db)) w of
         (Inl e, w1) \<Rightarrow> (Err e, w1)
       | (Inr records, w1) \<Rightarrow>
           (case recover_loop E records w1 of
              (Inl e, w2) \<Rightarrow> (Err e, w2)
            | (Inr _, w2) \<Rightarrow> (Ok (length records), w2)))"

definition pending_keys ::
  "'e store_env_scheme \<Rightarrow> 'w store_state_scheme \<Rightarrow>
   (store_error, (string \<times> string) list) result \<times> 'w store_state_scheme" where
  "pending_keys E = with_db E (\<lambda>db. (map (\<lambda>(k, m). (k, om_subject m)) (OUTBOX_META db), db))"

definition load_payload ::
  "'e store_env_scheme \<Rightarrow> string \<Rightarrow> 'w store_state_scheme \<Rightarrow>
   (store_error, string option) result \<times> 'w store_state_scheme" where
  "load_payload E key = with_db E (\<lambda>db. (map_of (OUTBOX_PAYLOAD db) key, db))"

definition outbox_remove ::
  "'e store_env_scheme \<Rightarrow> string \<Rightarrow> 'w store_state_scheme \<Rightarrow>
   (store_error, unit) result \<times> 'w store_state_scheme" where
  "outbox_remove E key =
    with_db E (\<lambda>db. ((), db \<lparr> OUTBOX_META := tab_remove key (OUTBOX_META db),
                               OUTBOX_PAYLOAD := tab_remove key (OUTBOX_PAYLOAD db) \<rparr>))"

definition outbox_len ::
  "'e store_env_scheme \<Rightarrow> 'w store_state_scheme \<Rightarrow>
   (store_error, nat) result \<times> 'w store_state_scheme" where
  "outbox_len E = with_db E (\<lambda>db. (length (OUTBOX_META db), db))"


section \<open>The invariant of the store\<close>

text \<open>The tables are ordered and the two outbox tables have the same keys.\<close>

definition db_ok :: "database \<Rightarrow> bool" where
  "db_ok db \<longleftrightarrow> tab_ok (JOURNAL db) \<and> tab_ok (OUTBOX_META db) \<and> tab_ok (OUTBOX_PAYLOAD db) \<and>
     dom (map_of (OUTBOX_META db)) = dom (map_of (OUTBOX_PAYLOAD db))"

definition store_ok :: "'w store_state_scheme \<Rightarrow> bool" where
  "store_ok w \<longleftrightarrow> (\<forall>db. st_db w = Some db \<longrightarrow> db_ok db)"

definition journal_keys :: "'w store_state_scheme \<Rightarrow> string set" where
  "journal_keys w = (case st_db w of None \<Rightarrow> {} | Some db \<Rightarrow> dom (map_of (JOURNAL db)))"

definition outbox_keys :: "'w store_state_scheme \<Rightarrow> string set" where
  "outbox_keys w = (case st_db w of None \<Rightarrow> {} | Some db \<Rightarrow> dom (map_of (OUTBOX_META db)))"

lemmas keys_defs = journal_keys_def outbox_keys_def

lemma keys_code [code]:
  "journal_keys w = (case st_db w of None \<Rightarrow> {} | Some db \<Rightarrow> fst ` set (JOURNAL db))"
  "outbox_keys w = (case st_db w of None \<Rightarrow> {} | Some db \<Rightarrow> fst ` set (OUTBOX_META db))"
  by (simp_all add: keys_defs dom_map_of_conv_image_fst split: option.split)

lemma with_db_cases [consumes 1, case_names NotDurable DbError Done]:
  assumes "with_db E f w = (r, w')"
  obtains "st_db w = None" "r = Err NotDurable" "w' = w"
  | db where "st_db w = Some db" "db_fails E (st_txn w)" "r = Err DbError"
      "w' = w \<lparr> st_txn := Suc (st_txn w) \<rparr>"
  | db where "st_db w = Some db" "\<not> db_fails E (st_txn w)" "r = Ok (fst (f db))"
      "w' = w \<lparr> st_db := Some (snd (f db)), st_txn := Suc (st_txn w) \<rparr>"
  using assms by (auto simp: with_db_def Let_def split: option.splits if_splits prod.splits)

lemma with_db_done [store_simps]:
  "st_db w = Some db \<Longrightarrow> \<not> db_fails E (st_txn w) \<Longrightarrow>
   with_db E f w = (Ok (fst (f db)), w \<lparr> st_db := Some (snd (f db)), st_txn := Suc (st_txn w) \<rparr>)"
  by (simp add: with_db_def split: prod.splits)

lemma with_db_failed [store_simps]:
  "st_db w = Some db \<Longrightarrow> db_fails E (st_txn w) \<Longrightarrow>
   with_db E f w = (Err DbError, w \<lparr> st_txn := Suc (st_txn w) \<rparr>)"
  by (simp add: with_db_def)

lemma with_db_none [store_simps]: "st_db w = None \<Longrightarrow> with_db E f w = (Err NotDurable, w)"
  by (simp add: with_db_def)

text \<open>A transaction preserves the invariant when its body does.\<close>

lemma with_db_ok:
  assumes "with_db E f w = (r, w')" "store_ok w" "\<And>db. db_ok db \<Longrightarrow> db_ok (snd (f db))"
  shows "store_ok w'"
  using assms(1) by (cases rule: with_db_cases) (use assms(2,3) in \<open>auto simp: store_ok_def\<close>)

lemma with_db_durable:
  "with_db E f w = (r, w') \<Longrightarrow> st_db w' = None \<longleftrightarrow> st_db w = None"
  by (erule with_db_cases) auto

lemma db_ok_parts:
  assumes "db_ok db"
  shows "tab_ok (JOURNAL db)" "tab_ok (OUTBOX_META db)" "tab_ok (OUTBOX_PAYLOAD db)"
    "dom (map_of (OUTBOX_PAYLOAD db)) = dom (map_of (OUTBOX_META db))"
  using assms by (auto simp: db_ok_def)

lemma db_ok_empty [simp]: "db_ok empty_database"
  by (simp add: db_ok_def empty_database_def)

lemma db_ok_journal:
  "db_ok db \<Longrightarrow> tab_ok j \<Longrightarrow> db_ok (db \<lparr> JOURNAL := j \<rparr>)"
  by (simp add: db_ok_def)

lemma db_ok_outbox:
  "db_ok db \<Longrightarrow> tab_ok m \<Longrightarrow> tab_ok p \<Longrightarrow> dom (map_of m) = dom (map_of p) \<Longrightarrow>
   db_ok (db \<lparr> OUTBOX_META := m, OUTBOX_PAYLOAD := p \<rparr>)"
  by (simp add: db_ok_def)

lemma journal_batch_ok [step_preserves]:
  assumes "journal_batch E i rs w = (r, w')" "store_ok w"
  shows "store_ok w'"
  by (rule with_db_ok[OF assms(1)[unfolded journal_batch_def] assms(2)])
    (auto intro!: db_ok_journal tab_oks dest: db_ok_parts)

lemma journal_remove_ok [step_preserves]:
  assumes "journal_remove E k w = (r, w')" "store_ok w"
  shows "store_ok w'"
  by (rule with_db_ok[OF assms(1)[unfolded journal_remove_def] assms(2)])
    (auto intro!: db_ok_journal tab_oks dest: db_ok_parts)

lemma journal_mark_started_ok [step_preserves]:
  assumes "journal_mark_started E k w = (r, w')" "store_ok w"
  shows "store_ok w'"
  by (rule with_db_ok[OF assms(1)[unfolded journal_mark_started_def] assms(2)])
    (auto intro!: db_ok_journal tab_oks dest: db_ok_parts split: option.splits)

lemma outbox_remove_ok [step_preserves]:
  assumes "outbox_remove E k w = (r, w')" "store_ok w"
  shows "store_ok w'"
  by (rule with_db_ok[OF assms(1)[unfolded outbox_remove_def] assms(2)])
    (simp add: db_ok_outbox tab_oks db_ok_parts tab_dom)

lemma prune_oldest_ok [step_preserves]:
  assumes "prune_oldest E n w = (r, w')" "store_ok w"
  shows "store_ok w'"
  by (rule with_db_ok[OF assms(1)[unfolded prune_oldest_def] assms(2)])
    (simp add: db_ok_outbox tab_oks db_ok_parts tab_dom Let_def)

lemma prune_over_cap_ok [step_preserves]: "store_ok w \<Longrightarrow> store_ok (prune_over_cap E w)"
  unfolding prune_over_cap_def by (metis prod.collapse prune_oldest_ok)

lemma complete_db_ok: "db_ok db \<Longrightarrow> db_ok (complete_db key m bytes db)"
  by (simp add: db_ok_def complete_db_def tab_oks tab_dom)

lemma complete_entry_none [store_simps]:
  "st_db w = None \<Longrightarrow> complete_entry E key subject bytes w = (Err NotDurable, w)"
  by (simp add: complete_entry_def with_db_none)

lemma complete_entry_failed [store_simps]:
  "st_db w = Some db \<Longrightarrow> db_fails E (st_txn w) \<Longrightarrow>
   complete_entry E key subject bytes w = (Err DbError, w \<lparr> st_txn := Suc (st_txn w) \<rparr>)"
  by (simp add: complete_entry_def with_db_failed)

definition completed ::
  "'e store_env_scheme \<Rightarrow> string \<Rightarrow> string \<Rightarrow> string \<Rightarrow> database \<Rightarrow> 'w store_state_scheme \<Rightarrow>
   'w store_state_scheme" where
  "completed E key subject bytes db w =
    w \<lparr> st_db := Some (complete_db key
            \<lparr> om_subject = subject, om_created_at_secs = clock E (st_txn w) \<rparr> bytes db),
        st_txn := Suc (st_txn w) \<rparr>"

lemma complete_entry_done [store_simps]:
  "st_db w = Some db \<Longrightarrow> \<not> db_fails E (st_txn w) \<Longrightarrow>
   complete_entry E key subject bytes w =
     (Ok (), prune_over_cap E (completed E key subject bytes db w))"
  by (simp add: complete_entry_def with_db_done completed_def)

lemma complete_entry_cases [consumes 1, case_names NotDurable DbError Done]:
  assumes "complete_entry E key subject bytes w = (r, w')"
  obtains "st_db w = None" "r = Err NotDurable" "w' = w"
  | db where "st_db w = Some db" "db_fails E (st_txn w)" "r = Err DbError"
      "w' = w \<lparr> st_txn := Suc (st_txn w) \<rparr>"
  | db where "st_db w = Some db" "\<not> db_fails E (st_txn w)" "r = Ok ()"
      "w' = prune_over_cap E (completed E key subject bytes db w)"
proof (cases "st_db w")
  case None
  show ?thesis
    by (rule that(1)) (use assms None in \<open>simp_all add: complete_entry_none\<close>)
next
  case (Some db)
  show ?thesis
  proof (cases "db_fails E (st_txn w)")
    case True
    show ?thesis
      by (rule that(2)[OF Some True]) (use assms Some True in \<open>simp_all add: complete_entry_failed\<close>)
  next
    case False
    show ?thesis
      by (rule that(3)[OF Some False]) (use assms Some False in \<open>simp_all add: complete_entry_done\<close>)
  qed
qed

lemma completed_ok: "db_ok db \<Longrightarrow> store_ok (completed E key subject bytes db w)"
  by (simp add: store_ok_def completed_def complete_db_ok)

lemma complete_entry_ok [step_preserves]:
  assumes "complete_entry E key subject bytes w = (r, w')" "store_ok w"
  shows "store_ok w'"
  using assms(1)
proof (cases rule: complete_entry_cases)
  case (Done db)
  then have "db_ok db" using assms(2) by (simp add: store_ok_def)
  then show ?thesis using Done by (simp add: prune_over_cap_ok completed_ok)
qed (use assms(2) in \<open>auto simp: store_ok_def\<close>)

lemma recover_loop_ok [step_preserves]:
  "recover_loop E rs w = (r, w') \<Longrightarrow> store_ok w \<Longrightarrow> store_ok w'"
proof (induction E rs w rule: recover_loop.induct)
  case (2 E key j rs w)
  then show ?case by (auto split: prod.splits sum.splits dest: complete_entry_ok)
qed simp

lemma with_db_read_ok:
  "with_db E (\<lambda>db. (g db, db)) w = (r, w') \<Longrightarrow> store_ok w \<Longrightarrow> store_ok w'"
  by (erule with_db_ok) auto

lemma recover_ok [step_preserves]:
  "recover E w = (r, w') \<Longrightarrow> store_ok w \<Longrightarrow> store_ok w'"
  by (auto simp: recover_def split: if_splits prod.splits sum.splits
      dest: recover_loop_ok with_db_read_ok)


section \<open>The keys each operation keeps\<close>

lemma journal_batch_keys:
  assumes "journal_batch E i rs w = (r, w')" "store_ok w"
  shows "journal_keys w' = (if r = Ok True then fst ` set rs else {}) \<union> journal_keys w"
    "outbox_keys w' = outbox_keys w"
  using assms(1) unfolding journal_batch_def
  by (cases rule: with_db_cases;
      use assms(2) in \<open>auto simp: keys_defs store_ok_def tab_dom(3) db_ok_parts split: if_splits\<close>)+

lemma journal_remove_keys:
  assumes "journal_remove E k w = (r, w')" "store_ok w"
  shows "journal_keys w' = (if is_ok r then journal_keys w - {k} else journal_keys w)"
    "outbox_keys w' = outbox_keys w"
  using assms(1) unfolding journal_remove_def
  by (cases rule: with_db_cases;
      use assms(2) in \<open>auto simp: keys_defs store_ok_def tab_dom(2) db_ok_parts\<close>)+

lemma journal_mark_started_keys:
  assumes "journal_mark_started E k w = (r, w')" "store_ok w"
  shows "journal_keys w' = journal_keys w" "outbox_keys w' = outbox_keys w"
  using assms(1) unfolding journal_mark_started_def
  by (cases rule: with_db_cases;
      use assms(2) in \<open>auto simp: keys_defs store_ok_def tab_dom(1) db_ok_parts split: option.splits\<close>)+

lemma outbox_remove_keys:
  assumes "outbox_remove E k w = (r, w')" "store_ok w"
  shows "outbox_keys w' = (if is_ok r then outbox_keys w - {k} else outbox_keys w)"
    "journal_keys w' = journal_keys w"
  using assms(1) unfolding outbox_remove_def
  by (cases rule: with_db_cases;
      use assms(2) in \<open>auto simp: keys_defs store_ok_def tab_dom(2) db_ok_parts\<close>)+

lemma read_keys:
  assumes "with_db E (\<lambda>db. (g db, db)) w = (r, w')"
  shows "journal_keys w' = journal_keys w" "outbox_keys w' = outbox_keys w"
  using assms by (cases rule: with_db_cases; auto simp: keys_defs)+

lemma prune_oldest_keys:
  assumes "prune_oldest E n w = (r, w')" "store_ok w"
  shows "journal_keys w' = journal_keys w" "outbox_keys w' \<subseteq> outbox_keys w"
  using assms(1) unfolding prune_oldest_def
  by (cases rule: with_db_cases;
      use assms(2) in \<open>auto simp: keys_defs store_ok_def Let_def tab.get_del_all db_ok_parts
        split: if_splits\<close>)+

lemma prune_over_cap_keys:
  assumes "store_ok w"
  shows "journal_keys (prune_over_cap E w) = journal_keys w"
    "outbox_keys (prune_over_cap E w) \<subseteq> outbox_keys w"
  unfolding prune_over_cap_def
  using prune_oldest_keys[OF _ assms, of E OUTBOX_MAX_ENTRIES]
  by (cases "prune_oldest E OUTBOX_MAX_ENTRIES w"; simp)+

lemma completed_keys:
  assumes "st_db w = Some db" "db_ok db"
  shows "journal_keys (completed E key subject bytes db w) = journal_keys w - {key}"
    "outbox_keys (completed E key subject bytes db w) = insert key (outbox_keys w)"
  using assms
  by (simp_all add: keys_defs completed_def complete_db_def tab_dom(1,2) db_ok_parts)

lemma complete_entry_keys:
  assumes "complete_entry E key subject bytes w = (r, w')" "store_ok w"
  shows "journal_keys w' = (if is_ok r then journal_keys w - {key} else journal_keys w)"
    "outbox_keys w' \<subseteq> (if is_ok r then insert key (outbox_keys w) else outbox_keys w)"
proof -
  have "journal_keys w' = (if is_ok r then journal_keys w - {key} else journal_keys w) \<and>
    outbox_keys w' \<subseteq> (if is_ok r then insert key (outbox_keys w) else outbox_keys w)"
    using assms(1)
  proof (cases rule: complete_entry_cases)
    case (Done db)
    then have ok: "db_ok db" using assms(2) by (simp add: store_ok_def)
    show ?thesis
      using prune_over_cap_keys[OF completed_ok[OF ok], of E E key subject bytes w]
        completed_keys[OF Done(1) ok, of E key subject bytes] Done
      by auto
  qed (auto simp: keys_defs)
  then show "journal_keys w' = (if is_ok r then journal_keys w - {key} else journal_keys w)"
    "outbox_keys w' \<subseteq> (if is_ok r then insert key (outbox_keys w) else outbox_keys w)"
    by blast+
qed


section \<open>What pruning keeps\<close>

lemma prune_victims_length:
  "length (prune_victims n meta) = length meta - n"
  by (simp add: prune_victims_def)

lemma prune_victims_subset: "set (prune_victims n meta) \<subseteq> fst ` set meta"
proof
  fix k assume "k \<in> set (prune_victims n meta)"
  then obtain c where "(k, c) \<in> set (sort_key snd (map (\<lambda>(k, m). (k, om_created_at_secs m)) meta))"
    unfolding prune_victims_def by (auto dest: in_set_takeD)
  then show "k \<in> fst ` set meta" by force
qed

lemma prune_victims_distinct:
  assumes "tab_ok meta"
  shows "distinct (prune_victims n meta)"
proof -
  let ?es = "map (\<lambda>(k, m). (k, om_created_at_secs m)) meta"
  have "distinct (map fst ?es)"
    using tab_ok_distinct[OF assms] by (simp add: case_prod_beta comp_def)
  then have "distinct (map fst (sort_key snd ?es))"
    by (simp only: distinct_map distinct_sort set_sort)
  then have "distinct (take (length meta - n) (map fst (sort_key snd ?es)))"
    by (rule distinct_take)
  then show ?thesis
    unfolding prune_victims_def by (simp only: take_map)
qed

lemma sorted_take_drop_le:
  assumes "sorted (map f xs)" "x \<in> set (take n xs)" "y \<in> set (drop n xs)"
  shows "f x \<le> f y"
proof -
  have "sorted (map f (take n xs) @ map f (drop n xs))"
    using assms(1) by (metis append_take_drop_id map_append)
  then show ?thesis using assms(2,3) by (auto simp: sorted_append)
qed

text \<open>A dropped entry is no newer than a kept one.\<close>

lemma prune_victims_oldest:
  assumes ok: "tab_ok meta"
    and v: "k \<in> set (prune_victims n meta)" "map_of meta k = Some m"
    and kept: "k' \<notin> set (prune_victims n meta)" "map_of meta k' = Some m'"
  shows "om_created_at_secs m \<le> om_created_at_secs m'"
proof -
  let ?es = "sort_key snd (map (\<lambda>(k, m). (k, om_created_at_secs m)) meta)"
  let ?d = "length meta - n"
  have es: "(q, c) \<in> set ?es \<longleftrightarrow> (\<exists>m. map_of meta q = Some m \<and> c = om_created_at_secs m)" for q c
    using tab_mem_iff[OF ok] by force
  have split: "set ?es = set (take ?d ?es) \<union> set (drop ?d ?es)"
    by (metis append_take_drop_id set_append)
  obtain c where "(k, c) \<in> set (take ?d ?es)"
    using v(1) unfolding prune_victims_def by auto
  moreover have "c = om_created_at_secs m"
    using calculation es v(2) by (metis in_set_takeD option.inject)
  moreover have "(k', om_created_at_secs m') \<in> set (drop ?d ?es)"
  proof -
    have "(k', om_created_at_secs m') \<in> set ?es" using es kept(2) by blast
    moreover have "(k', om_created_at_secs m') \<notin> set (take ?d ?es)"
      using kept(1) unfolding prune_victims_def by force
    ultimately show ?thesis using split by blast
  qed
  ultimately show ?thesis
    using sorted_take_drop_le[of snd ?es "(k, c)" ?d "(k', om_created_at_secs m')"]
    by (simp add: sorted_sort_key)
qed

lemma prune_length:
  assumes ok: "tab_ok meta"
  shows "length (fold tab_remove (prune_victims n meta) meta) = length meta - (length meta - n)"
proof -
  let ?v = "prune_victims n meta"
  have "length (fold tab_remove ?v meta) = card (dom (map_of meta) - set ?v)"
    by (simp add: tab_length tab_oks(4)[OF ok] tab_dom(4)[OF ok])
  also have "\<dots> = card (dom (map_of meta)) - card (set ?v)"
    using prune_victims_subset[of n meta]
    by (intro card_Diff_subset) (auto simp: dom_map_of_conv_image_fst)
  also have "\<dots> = length meta - (length meta - n)"
    using distinct_card[OF prune_victims_distinct[OF ok, of n]]
    by (simp add: tab_length[OF ok, symmetric] prune_victims_length)
  finally show ?thesis .
qed

lemma prune_oldest_done:
  assumes "st_db w = Some db" "\<not> db_fails E (st_txn w)" "db_ok db"
  obtains db' where
    "prune_oldest E n w =
       (Ok (length (OUTBOX_META db) - n), w \<lparr> st_db := Some db', st_txn := Suc (st_txn w) \<rparr>)"
    "db_ok db'" "JOURNAL db' = JOURNAL db"
    "OUTBOX_META db' = fold tab_remove (prune_victims n (OUTBOX_META db)) (OUTBOX_META db)"
    "OUTBOX_PAYLOAD db' = fold tab_remove (prune_victims n (OUTBOX_META db)) (OUTBOX_PAYLOAD db)"
proof (rule that[of "db \<lparr> OUTBOX_META := fold tab_remove (prune_victims n (OUTBOX_META db)) (OUTBOX_META db),
    OUTBOX_PAYLOAD := fold tab_remove (prune_victims n (OUTBOX_META db)) (OUTBOX_PAYLOAD db) \<rparr>"])
  show "db_ok (db \<lparr> OUTBOX_META := fold tab_remove (prune_victims n (OUTBOX_META db)) (OUTBOX_META db),
    OUTBOX_PAYLOAD := fold tab_remove (prune_victims n (OUTBOX_META db)) (OUTBOX_PAYLOAD db) \<rparr>)"
    using assms(3) by (simp add: db_ok_outbox tab_oks tab_dom db_ok_parts)
next
  have "length (OUTBOX_META db) \<le> n \<Longrightarrow> prune_victims n (OUTBOX_META db) = []"
    by (simp add: prune_victims_def)
  then show "prune_oldest E n w = (Ok (length (OUTBOX_META db) - n), w \<lparr> st_db := Some
      (db \<lparr> OUTBOX_META := fold tab_remove (prune_victims n (OUTBOX_META db)) (OUTBOX_META db),
    OUTBOX_PAYLOAD := fold tab_remove (prune_victims n (OUTBOX_META db)) (OUTBOX_PAYLOAD db) \<rparr>),
      st_txn := Suc (st_txn w) \<rparr>)"
    using assms(1,2) by (simp add: prune_oldest_def store_simps prune_victims_length Let_def)
qed simp_all

lemma prune_over_cap_small:
  assumes "st_db w = Some db" "length (OUTBOX_META db) \<le> OUTBOX_MAX_ENTRIES"
  shows "st_db (prune_over_cap E w) = Some db"
  using assms by (cases "db_fails E (st_txn w)")
    (simp_all add: prune_over_cap_def prune_oldest_def store_simps)

lemma prune_over_cap_bound:
  assumes "st_db w = Some db" "db_ok db" "\<not> db_fails E (st_txn w)"
    "st_db (prune_over_cap E w) = Some db'"
  shows "length (OUTBOX_META db') \<le> OUTBOX_MAX_ENTRIES"
proof -
  obtain db2 where "prune_oldest E OUTBOX_MAX_ENTRIES w =
       (Ok (length (OUTBOX_META db) - OUTBOX_MAX_ENTRIES),
        w \<lparr> st_db := Some db2, st_txn := Suc (st_txn w) \<rparr>)"
    "OUTBOX_META db2 =
       fold tab_remove (prune_victims OUTBOX_MAX_ENTRIES (OUTBOX_META db)) (OUTBOX_META db)"
    using prune_oldest_done[OF assms(1,3,2)] by metis
  then show ?thesis
    using assms(4) prune_length[of "OUTBOX_META db" OUTBOX_MAX_ENTRIES] assms(2)
    by (auto simp: prune_over_cap_def db_ok_parts)
qed

lemma tab_insert_length: "length (tab_insert k v t) \<le> Suc (length t)"
  by (induction k v t rule: tab_insert.induct) auto

text \<open>Pruning drops exactly the excess over the bound, only from the outbox, drops meta data
  and payload together, and never drops an entry that is newer than one it keeps.\<close>

theorem prune_oldest_spec:
  assumes "st_db w = Some db" "db_ok db" "\<not> db_fails E (st_txn w)"
    and "prune_oldest E n w = (r, w')"
  shows "\<exists>db'. st_db w' = Some db' \<and> db_ok db' \<and> r = Ok (length (OUTBOX_META db) - n)
     \<and> JOURNAL db' = JOURNAL db
     \<and> length (OUTBOX_META db') = min n (length (OUTBOX_META db))
     \<and> map_of (OUTBOX_META db') \<subseteq>\<^sub>m map_of (OUTBOX_META db)
     \<and> map_of (OUTBOX_PAYLOAD db') \<subseteq>\<^sub>m map_of (OUTBOX_PAYLOAD db)
     \<and> (\<forall>k m k' m'. map_of (OUTBOX_META db) k = Some m \<longrightarrow> map_of (OUTBOX_META db') k = None \<longrightarrow>
          map_of (OUTBOX_META db') k' = Some m' \<longrightarrow> om_created_at_secs m \<le> om_created_at_secs m')"
proof -
  let ?v = "prune_victims n (OUTBOX_META db)"
  note oks = db_ok_parts[OF assms(2)]
  obtain db' where db': "prune_oldest E n w =
       (Ok (length (OUTBOX_META db) - n), w \<lparr> st_db := Some db', st_txn := Suc (st_txn w) \<rparr>)"
      "db_ok db'" "JOURNAL db' = JOURNAL db"
      "OUTBOX_META db' = fold tab_remove ?v (OUTBOX_META db)"
      "OUTBOX_PAYLOAD db' = fold tab_remove ?v (OUTBOX_PAYLOAD db)"
    by (rule prune_oldest_done[OF assms(1,3,2)])
  have w': "r = Ok (length (OUTBOX_META db) - n)" "st_db w' = Some db'"
    using assms(4) db'(1) by auto
  have get: "map_of (OUTBOX_META db') k =
      (if k \<in> set ?v then None else map_of (OUTBOX_META db) k)"
    "map_of (OUTBOX_PAYLOAD db') k =
      (if k \<in> set ?v then None else map_of (OUTBOX_PAYLOAD db) k)" for k
    using db'(4,5) oks by (simp_all add: tab.get_del_all)
  show ?thesis
  proof (intro exI[of _ db'] conjI allI impI)
    show "length (OUTBOX_META db') = min n (length (OUTBOX_META db))"
      using prune_length[OF oks(2), of n] db'(4) by simp
  next
    fix k m k' m'
    assume a: "map_of (OUTBOX_META db) k = Some m" "map_of (OUTBOX_META db') k = None"
      "map_of (OUTBOX_META db') k' = Some m'"
    show "om_created_at_secs m \<le> om_created_at_secs m'"
      by (rule prune_victims_oldest[OF oks(2), of k n m k' m'])
        (use a get in \<open>auto split: if_splits\<close>)
  qed (use db' w' get in \<open>auto simp: map_le_def split: if_splits\<close>)
qed

definition sample_env :: "store_env" where
  "sample_env = \<lparr> db_fails = (\<lambda>_. False), clock = (\<lambda>n. n), to_vec = (\<lambda>r. rr_stdout r) \<rparr>"

lemma sample_env_never_fails [simp]: "\<not> db_fails sample_env n"
  by (simp add: sample_env_def)

definition sample_db :: database where
  "sample_db = \<lparr> JOURNAL = [],
     OUTBOX_META = [(''a'', \<lparr> om_subject = ''s'', om_created_at_secs = 9 \<rparr>),
                    (''b'', \<lparr> om_subject = ''s'', om_created_at_secs = 4 \<rparr>)],
     OUTBOX_PAYLOAD = [(''a'', ''x''), (''b'', ''y'')] \<rparr>"

lemma sample_db_ok: "db_ok sample_db"
  unfolding db_ok_def tab_ok_def sample_db_def by (auto; code_simp)

lemma prune_oldest_spec_witness:
  "fst (prune_oldest sample_env 1 \<lparr> st_db = Some sample_db, st_txn = 0 \<rparr>) = Ok 1"
proof -
  have len: "length (OUTBOX_META sample_db) = 2" by (simp add: sample_db_def)
  show ?thesis
    using prune_oldest_spec[OF _ sample_db_ok _ prod.collapse[symmetric],
        of "\<lparr> st_db = Some sample_db, st_txn = 0 \<rparr>" sample_env 1]
    by (auto simp: len)
qed


section \<open>Accepting a batch\<close>

lemma starts_with_append [simp]: "starts_with (p @ s) p"
  by (simp add: starts_with_def)

lemma contains_batch_iff:
  "journal_contains_batch j i \<longleftrightarrow>
     (\<exists>k \<in> fst ` set j. k = i \<or> starts_with k (i @ '':''))"
  by (force simp: journal_contains_batch_def list_ex_iff)

lemma entry_key_in_batch: "entry_key i s = i \<or> starts_with (entry_key i s) (i @ '':'')"
proof (cases s)
  case (Some a)
  then have "entry_key i s = (i @ '':'') @ a" by (simp add: entry_key_def)
  then show ?thesis by (metis starts_with_append)
qed (simp add: entry_key_def)

lemma map_of_keys: "fst ` set t = dom (map_of t)"
  by (simp add: dom_map_of_conv_image_fst)

text \<open>A batch is accepted once: accepting writes all its records in one transaction, and while
  one of them is in the journal the same execution id is refused and nothing changes.\<close>

theorem journal_batch_once:
  assumes "st_db w = Some db" "db_ok db" "\<not> db_fails E (st_txn w)"
    "\<not> db_fails E (Suc (st_txn w))"
    and "\<forall>kr \<in> set records. \<exists>s. fst kr = entry_key i s" "records \<noteq> []"
    and "distinct (map fst records)"
    and first: "journal_batch E i records w = (Ok True, w1)"
    and second: "journal_batch E i records2 w1 = (r2, w2)"
  shows "(\<exists>db1. st_db w1 = Some db1 \<and> (\<forall>(k, r) \<in> set records. map_of (JOURNAL db1) k = Some r))
     \<and> r2 = Ok False \<and> st_db w2 = st_db w1"
proof -
  define j where "j = fold (\<lambda>(k, r). tab_insert k r) records (JOURNAL db)"
  have w1: "w1 = w \<lparr> st_db := Some (db \<lparr> JOURNAL := j \<rparr>), st_txn := Suc (st_txn w) \<rparr>"
    using first assms(1,3) by (auto simp: journal_batch_def store_simps j_def split: if_splits)
  have keys: "fst ` set j = fst ` set records \<union> dom (map_of (JOURNAL db))"
    unfolding j_def map_of_keys by (simp add: tab_dom(3) db_ok_parts[OF assms(2)] map_of_keys)
  obtain kr where kr: "kr \<in> set records" using assms(6) by (cases records) auto
  then have "fst kr = i \<or> starts_with (fst kr) (i @ '':'')"
    using assms(5) entry_key_in_batch by metis
  then have "journal_contains_batch j i"
    unfolding contains_batch_iff using kr keys by blast
  then have "r2 = Ok False \<and> st_db w2 = st_db w1"
    using second assms(4) by (auto simp: journal_batch_def w1 store_simps)
  moreover have "map_of j k = Some r" if "(k, r) \<in> set records" for k r
    using that assms(7) db_ok_parts(1)[OF assms(2)] unfolding j_def
  proof (induction records arbitrary: db)
    case (Cons x xs)
    have upd: "map_of (fold (\<lambda>(k, r). tab_insert k r) xs t) k = map_of t k"
      if "tab_ok t" "k \<notin> fst ` set xs" for t
      using that by (induction xs arbitrary: t) (auto simp: tab.ok_put tab.get_put)
    show ?case
    proof (cases "(k, r) = x")
      case True
      then show ?thesis using Cons.prems upd by (auto simp: tab.ok_put tab.get_put)
    next
      case False
      then show ?thesis
        using Cons.prems Cons.IH[of "db \<lparr> JOURNAL := tab_insert (fst x) (snd x) (JOURNAL db) \<rparr>"]
        by (auto simp: tab.ok_put case_prod_beta)
    qed
  qed simp
  ultimately show ?thesis using w1 by auto
qed

definition sample_record :: journal_record where
  "sample_record = \<lparr> jr_subject = ''machine.m.script-execution.result'', jr_execution_id = ''e1'',
     jr_schedule_id = None, jr_machine_id = ''m'', jr_script_id = Some ''s1'', jr_started = False,
     jr_created_at_secs = 7 \<rparr>"

lemma sample_batch:
  "journal_batch sample_env ''e1'' [(''e1:s1'', sample_record)]
     \<lparr> st_db = Some sample_db, st_txn = 0 \<rparr> =
   (Ok True, \<lparr> st_db = Some (sample_db \<lparr> JOURNAL := [(''e1:s1'', sample_record)] \<rparr>), st_txn = 1 \<rparr>)"
  by (simp add: journal_batch_def with_db_def sample_db_def journal_contains_batch_def)

lemma journal_batch_once_witness:
  "fst (journal_batch sample_env ''e1'' []
     \<lparr> st_db = Some (sample_db \<lparr> JOURNAL := [(''e1:s1'', sample_record)] \<rparr>), st_txn = 1 \<rparr>) = Ok False"
proof -
  have key: "entry_key ''e1'' (Some ''s1'') = ''e1:s1''" by (simp add: entry_key_def)
  show ?thesis
    by (rule journal_batch_once[OF _ sample_db_ok _ _ _ _ _ sample_batch prod.collapse[symmetric],
          THEN conjunct2, THEN conjunct1])
      (use key in \<open>auto intro: exI[of _ "Some ''s1''"]\<close>)
qed


section \<open>The encoded size\<close>

definition cut_of :: "string \<Rightarrow> string \<Rightarrow> bool" where
  "cut_of t s \<longleftrightarrow> (\<exists>n. t = take n s \<and> is_char_boundary s n)"

lemma cut_refl: "cut_of s s"
  unfolding cut_of_def by (rule exI[of _ "length s"]) (simp add: is_char_boundary_def)

lemma cut_shrink: "cut_of (shrink s) s"
  using shrink_take by (auto simp: cut_of_def)

lemma cut_trans:
  assumes "cut_of a b" "cut_of b c"
  shows "cut_of a c"
proof -
  obtain m n where m: "a = take m b" "is_char_boundary b m" and n: "b = take n c" "is_char_boundary c n"
    using assms by (auto simp: cut_of_def)
  show ?thesis
  proof (cases "m < length b")
    case True
    then have "is_char_boundary c m"
      using m n by (auto simp: is_char_boundary_def)
    moreover have "m < n" using n(1) True by simp
    then have "a = take m c" using m(1) n(1) by (simp add: min_def)
    ultimately show ?thesis unfolding cut_of_def by blast
  next
    case False
    then show ?thesis using m(1) assms(2) by simp
  qed
qed

lemma encode_loop_spec:
  "\<exists>out err. encode_loop enc c = enc (c \<lparr> rr_stdout := out, rr_stderr := err \<rparr>)
     \<and> cut_of out (rr_stdout c) \<and> cut_of err (rr_stderr c)
     \<and> (err \<noteq> rr_stderr c \<longrightarrow> out = [])
     \<and> (length (encode_loop enc c) \<le> OUTBOX_MAX_PAYLOAD_BYTES \<or> out = [] \<and> err = [])"
proof (induction enc c rule: encode_loop.induct)
  case (1 enc c)
  consider (fits) "length (enc c) \<le> OUTBOX_MAX_PAYLOAD_BYTES"
    | (stdout) "\<not> length (enc c) \<le> OUTBOX_MAX_PAYLOAD_BYTES" "rr_stdout c \<noteq> []"
    | (stderr) "\<not> length (enc c) \<le> OUTBOX_MAX_PAYLOAD_BYTES" "rr_stdout c = []" "rr_stderr c \<noteq> []"
    | (none) "\<not> length (enc c) \<le> OUTBOX_MAX_PAYLOAD_BYTES" "rr_stdout c = []" "rr_stderr c = []"
    by blast
  then show ?case
  proof cases
    case fits
    then have e: "encode_loop enc c = enc c" by (subst encode_loop.simps) (simp add: Let_def)
    show ?thesis
      by (rule exI[of _ "rr_stdout c"], rule exI[of _ "rr_stderr c"]) (simp add: e fits cut_refl)
  next
    case stdout
    then have e: "encode_loop enc c = encode_loop enc (c \<lparr> rr_stdout := shrink (rr_stdout c) \<rparr>)"
      by (subst encode_loop.simps) (simp add: Let_def)
    let ?c = "c \<lparr> rr_stdout := shrink (rr_stdout c) \<rparr>"
    obtain out err where oe: "encode_loop enc c = enc (?c \<lparr> rr_stdout := out, rr_stderr := err \<rparr>)"
       "cut_of out (rr_stdout ?c)" "cut_of err (rr_stderr ?c)"
       "err \<noteq> rr_stderr ?c \<longrightarrow> out = []"
       "length (encode_loop enc c) \<le> OUTBOX_MAX_PAYLOAD_BYTES \<or> out = [] \<and> err = []"
      using 1(1)[OF refl stdout, folded e] by blast
    have "cut_of out (rr_stdout c)"
      by (rule cut_trans[OF _ cut_shrink]) (use oe(2) in simp)
    then show ?thesis
      using oe by (intro exI[of _ out] exI[of _ err]) simp
  next
    case stderr
    then have e: "encode_loop enc c = encode_loop enc (c \<lparr> rr_stderr := shrink (rr_stderr c) \<rparr>)"
      by (subst encode_loop.simps) (simp add: Let_def)
    let ?c = "c \<lparr> rr_stderr := shrink (rr_stderr c) \<rparr>"
    obtain out err where oe: "encode_loop enc c = enc (?c \<lparr> rr_stdout := out, rr_stderr := err \<rparr>)"
       "cut_of out (rr_stdout ?c)" "cut_of err (rr_stderr ?c)"
       "length (encode_loop enc c) \<le> OUTBOX_MAX_PAYLOAD_BYTES \<or> out = [] \<and> err = []"
      using 1(2)[OF refl stderr(1) _ stderr(3), folded e] stderr(2) by blast
    have "out = []" using oe(2) stderr(2) by (simp add: cut_of_def)
    moreover have "cut_of err (rr_stderr c)"
      by (rule cut_trans[OF _ cut_shrink]) (use oe(3) in simp)
    ultimately show ?thesis
      using oe(1,4) stderr(2) by (intro exI[of _ out] exI[of _ err]) (simp add: cut_refl)
  next
    case none
    then have e: "encode_loop enc c = enc c" by (subst encode_loop.simps) (simp add: Let_def)
    have id: "c \<lparr> rr_stdout := [], rr_stderr := [] \<rparr> = c"
      using none(2,3) by (cases c) simp
    have "encode_loop enc c = enc (c \<lparr> rr_stdout := [], rr_stderr := [] \<rparr>)"
      by (simp only: e id)
    then show ?thesis using none(2,3) cut_refl by metis
  qed
qed

text \<open>C11. Encoding always returns, and what it returns is under the transport limit as soon as the
  result without its two outputs fits. A result that fits is encoded unchanged; otherwise only the
  error becomes the truncation marker and the outputs are cut at a character boundary, the
  standard error not before the standard output is empty.\<close>

theorem encode_result_bounded:
  fixes enc :: "rmm_result \<Rightarrow> string"
  assumes "length (enc (r \<lparr> rr_error := Some TRUNCATION_MARKER, rr_stdout := [], rr_stderr := [] \<rparr>))
             \<le> OUTBOX_MAX_PAYLOAD_BYTES"
  shows "length (encode_result enc r) \<le> OUTBOX_MAX_PAYLOAD_BYTES
    \<and> (length (enc r) \<le> OUTBOX_MAX_PAYLOAD_BYTES \<longrightarrow> encode_result enc r = enc r)
    \<and> (\<not> length (enc r) \<le> OUTBOX_MAX_PAYLOAD_BYTES \<longrightarrow>
        (\<exists>out err. encode_result enc r =
            enc (r \<lparr> rr_error := Some TRUNCATION_MARKER, rr_stdout := out, rr_stderr := err \<rparr>)
          \<and> cut_of out (rr_stdout r) \<and> cut_of err (rr_stderr r)
          \<and> (err \<noteq> rr_stderr r \<longrightarrow> out = [])))"
proof (cases "length (enc r) \<le> OUTBOX_MAX_PAYLOAD_BYTES")
  case True
  then show ?thesis by (simp add: encode_result_def)
next
  case False
  let ?c = "r \<lparr> rr_error := Some TRUNCATION_MARKER \<rparr>"
  have e: "encode_result enc r = encode_loop enc ?c"
    using False by (simp add: encode_result_def)
  obtain out err where oe: "encode_loop enc ?c = enc (?c \<lparr> rr_stdout := out, rr_stderr := err \<rparr>)"
     "cut_of out (rr_stdout ?c)" "cut_of err (rr_stderr ?c)" "err \<noteq> rr_stderr ?c \<longrightarrow> out = []"
     "length (encode_loop enc ?c) \<le> OUTBOX_MAX_PAYLOAD_BYTES \<or> out = [] \<and> err = []"
    using encode_loop_spec[of enc ?c] by blast
  have "length (encode_loop enc ?c) \<le> OUTBOX_MAX_PAYLOAD_BYTES"
    using oe(1,5) assms by auto
  moreover have "\<exists>out err. encode_loop enc ?c =
        enc (r \<lparr> rr_error := Some TRUNCATION_MARKER, rr_stdout := out, rr_stderr := err \<rparr>)
      \<and> cut_of out (rr_stdout r) \<and> cut_of err (rr_stderr r) \<and> (err \<noteq> rr_stderr r \<longrightarrow> out = [])"
    using oe(1,2,3,4) by (intro exI[of _ out] exI[of _ err]) simp
  ultimately show ?thesis using False e by simp
qed

definition sample_result :: rmm_result where
  "sample_result = recovered_result sample_record \<lparr> rr_stdout := replicate 2000000 CHR ''x'' \<rparr>"

lemma encode_result_bounded_witness:
  "length (encode_result (\<lambda>r. rr_stdout r) sample_result) \<le> OUTBOX_MAX_PAYLOAD_BYTES
   \<and> \<not> length (rr_stdout sample_result) \<le> OUTBOX_MAX_PAYLOAD_BYTES"
proof -
  have "length (rr_stdout sample_result) = 2000000"
    by (simp add: sample_result_def)
  then have "\<not> length (rr_stdout sample_result) \<le> OUTBOX_MAX_PAYLOAD_BYTES"
    by (simp add: OUTBOX_MAX_PAYLOAD_BYTES_def)
  then show ?thesis
    using encode_result_bounded[of "\<lambda>r. rr_stdout r" sample_result] by simp
qed


section \<open>Completing an entry\<close>

lemma complete_entry_maps:
  assumes "st_db w = Some db" "db_ok db"
    and "complete_entry E key subject bytes w = (r, w')"
  shows "\<exists>db'. st_db w' = Some db' \<and> db_ok db' \<and>
    (if is_ok r then
       map_of (JOURNAL db') = (map_of (JOURNAL db))(key := None)
       \<and> map_of (OUTBOX_PAYLOAD db') \<subseteq>\<^sub>m (map_of (OUTBOX_PAYLOAD db))(key \<mapsto> bytes)
       \<and> (length (OUTBOX_META db) < OUTBOX_MAX_ENTRIES \<longrightarrow>
            map_of (OUTBOX_PAYLOAD db') = (map_of (OUTBOX_PAYLOAD db))(key \<mapsto> bytes)
            \<and> map_option om_subject (map_of (OUTBOX_META db') key) = Some subject)
       \<and> (\<not> db_fails E (Suc (st_txn w)) \<longrightarrow> length (OUTBOX_META db') \<le> OUTBOX_MAX_ENTRIES)
     else db' = db)"
proof -
  let ?m = "\<lparr> om_subject = subject, om_created_at_secs = clock E (st_txn w) \<rparr>"
  let ?db1 = "complete_db key ?m bytes db"
  let ?w1 = "completed E key subject bytes db w"
  note oks = db_ok_parts[OF assms(2)]
  show ?thesis
  proof (cases "db_fails E (st_txn w)")
    case True
    then show ?thesis using assms by (auto simp: complete_entry_failed)
  next
    case False
    have w1: "st_db ?w1 = Some ?db1" "st_txn ?w1 = Suc (st_txn w)" by (simp_all add: completed_def)
    have ok1: "db_ok ?db1" by (rule complete_db_ok[OF assms(2)])
    have eq: "r = Ok ()" "w' = prune_over_cap E ?w1"
      using assms(1,3) False by (simp_all add: complete_entry_done)
    have maps: "map_of (JOURNAL ?db1) = (map_of (JOURNAL db))(key := None)"
      "map_of (OUTBOX_META ?db1) = (map_of (OUTBOX_META db))(key \<mapsto> ?m)"
      "map_of (OUTBOX_PAYLOAD ?db1) = (map_of (OUTBOX_PAYLOAD db))(key \<mapsto> bytes)"
      using oks by (simp_all add: complete_db_def tab_get_insert tab_get_remove)
    have small: "length (OUTBOX_META ?db1) \<le> OUTBOX_MAX_ENTRIES"
      if "length (OUTBOX_META db) < OUTBOX_MAX_ENTRIES"
      using tab_insert_length[of key ?m "OUTBOX_META db"] that by (simp add: complete_db_def)
    show ?thesis
    proof (cases "db_fails E (Suc (st_txn w))")
      case True
      then have "st_db w' = Some ?db1"
        using eq(2) w1 by (simp add: prune_over_cap_def prune_oldest_def store_simps)
      then show ?thesis using eq ok1 maps True by auto
    next
      case F: False
      have nf: "\<not> db_fails E (st_txn ?w1)" using F w1(2) by simp
      obtain db' where dn: "prune_oldest E OUTBOX_MAX_ENTRIES ?w1 =
          (Ok (length (OUTBOX_META ?db1) - OUTBOX_MAX_ENTRIES),
           ?w1 \<lparr> st_db := Some db', st_txn := Suc (st_txn ?w1) \<rparr>)"
        and db': "db_ok db'" "JOURNAL db' = JOURNAL ?db1"
        "OUTBOX_PAYLOAD db' = fold tab_remove (prune_victims OUTBOX_MAX_ENTRIES (OUTBOX_META ?db1))
           (OUTBOX_PAYLOAD ?db1)"
        by (rule prune_oldest_done[OF w1(1) nf ok1, of OUTBOX_MAX_ENTRIES])
      have st: "st_db w' = Some db'" using dn eq(2) by (simp add: prune_over_cap_def)
      have bound: "length (OUTBOX_META db') \<le> OUTBOX_MAX_ENTRIES"
        using prune_over_cap_bound[OF w1(1) ok1 nf] st eq(2) by simp
      have le: "map_of (OUTBOX_PAYLOAD db') \<subseteq>\<^sub>m map_of (OUTBOX_PAYLOAD ?db1)"
        unfolding db'(3) map_le_def tab.get_del_all[OF db_ok_parts(3)[OF ok1]]
        by (simp add: dom_def)
      have "db' = ?db1" if "length (OUTBOX_META db) < OUTBOX_MAX_ENTRIES"
        using prune_over_cap_small[OF w1(1) small[OF that], of E] st eq(2) by simp
      then show ?thesis using st db'(1,2) le bound eq maps by auto
    qed
  qed
qed

text \<open>Completing an entry is atomic: on an error the database is as it was; on success the entry
  has left the journal, its payload and subject are in the outbox (unless the outbox was over its
  cap and this is one of the oldest entries), every other journal entry stays, and the
  outbox is within its cap when the pruning transaction did not fail.\<close>

theorem complete_entry_atomic:
  assumes "st_db w = Some db" "db_ok db"
    and "complete_entry E key subject bytes w = (r, w')"
  shows "\<exists>db'. st_db w' = Some db' \<and> db_ok db' \<and>
    (if is_ok r then
       map_of (JOURNAL db') = (map_of (JOURNAL db))(key := None)
       \<and> map_of (OUTBOX_PAYLOAD db') \<subseteq>\<^sub>m (map_of (OUTBOX_PAYLOAD db))(key \<mapsto> bytes)
       \<and> (length (OUTBOX_META db) < OUTBOX_MAX_ENTRIES \<longrightarrow>
            map_of (OUTBOX_PAYLOAD db') = (map_of (OUTBOX_PAYLOAD db))(key \<mapsto> bytes)
            \<and> map_option om_subject (map_of (OUTBOX_META db') key) = Some subject)
       \<and> (\<not> db_fails E (Suc (st_txn w)) \<longrightarrow> length (OUTBOX_META db') \<le> OUTBOX_MAX_ENTRIES)
     else db' = db)"
  by (rule complete_entry_maps[OF assms])

lemma complete_entry_atomic_witness:
  "\<exists>db'. st_db (snd (complete_entry sample_env ''e1:s1'' ''s'' ''out''
      \<lparr> st_db = Some (sample_db \<lparr> JOURNAL := [(''e1:s1'', sample_record)] \<rparr>), st_txn = 0 \<rparr>)) = Some db'
     \<and> JOURNAL db' = [] \<and> map_of (OUTBOX_PAYLOAD db') ''e1:s1'' = Some ''out''"
proof -
  let ?db = "sample_db \<lparr> JOURNAL := [(''e1:s1'', sample_record)] \<rparr>"
  let ?w = "\<lparr> st_db = Some ?db, st_txn = 0 \<rparr>"
  have ok: "db_ok ?db" using sample_db_ok by (simp add: db_ok_def tab_ok_def)
  have small: "length (OUTBOX_META sample_db) < OUTBOX_MAX_ENTRIES"
    by (simp add: sample_db_def OUTBOX_MAX_ENTRIES_def)
  have r: "is_ok (fst (complete_entry sample_env ''e1:s1'' ''s'' ''out'' ?w))"
    by (simp add: complete_entry_done)
  have "(map_of [(''e1:s1'', sample_record)])(''e1:s1'' := None) = Map.empty" by auto
  then show ?thesis
    using complete_entry_atomic[OF _ ok prod.collapse[symmetric], of ?w sample_env
        "''e1:s1''" "''s''" "''out''"] r small
    by (auto simp: map_of_eq_empty_iff)
qed


section \<open>Recovery after a restart\<close>

lemma complete_entry_journal:
  assumes "st_db w = Some db" "db_ok db" "\<not> db_fails E (st_txn w)"
    and "complete_entry E key subject bytes w = (r, w')"
  obtains db' where "r = Ok ()" "st_db w' = Some db'" "db_ok db'"
    "map_of (JOURNAL db') = (map_of (JOURNAL db))(key := None)"
    "length (OUTBOX_META db) < OUTBOX_MAX_ENTRIES \<Longrightarrow>
       map_of (OUTBOX_PAYLOAD db') = (map_of (OUTBOX_PAYLOAD db))(key \<mapsto> bytes)"
    "length (OUTBOX_META db) < OUTBOX_MAX_ENTRIES \<Longrightarrow>
       length (OUTBOX_META db') \<le> Suc (length (OUTBOX_META db))"
proof -
  let ?m = "\<lparr> om_subject = subject, om_created_at_secs = clock E (st_txn w) \<rparr>"
  let ?db1 = "complete_db key ?m bytes db"
  have r: "r = Ok ()" and w': "w' = prune_over_cap E (completed E key subject bytes db w)"
    using assms by (simp_all add: complete_entry_done)
  have len: "length (OUTBOX_META ?db1) \<le> Suc (length (OUTBOX_META db))"
    using tab_insert_length by (simp add: complete_db_def)
  have st1: "st_db (completed E key subject bytes db w) = Some ?db1" by (simp add: completed_def)
  have small: "st_db w' = Some ?db1" if "length (OUTBOX_META db) < OUTBOX_MAX_ENTRIES"
    using prune_over_cap_small[OF st1, of E] len that w' by simp
  show thesis
    using complete_entry_maps[OF assms(1,2,4)] r small len
    by (auto intro!: that)
qed

lemma recover_loop_complete:
  assumes "\<forall>n. \<not> db_fails E n" "st_db w = Some db" "db_ok db"
    and "recover_loop E rs w = (r, w')"
  obtains db' where "r = Ok ()" "st_db w' = Some db'" "db_ok db'"
    "dom (map_of (JOURNAL db')) = dom (map_of (JOURNAL db)) - fst ` set rs"
    "distinct (map fst rs) \<Longrightarrow> length (OUTBOX_META db) + length rs \<le> OUTBOX_MAX_ENTRIES \<Longrightarrow>
       map_of (OUTBOX_PAYLOAD db') = map_of (OUTBOX_PAYLOAD db) ++
         map_of (map (\<lambda>(k, j). (k, encode_result (to_vec E) (recovered_result j))) rs)"
proof -
  have "\<exists>db'. r = Ok () \<and> st_db w' = Some db' \<and> db_ok db'
    \<and> dom (map_of (JOURNAL db')) = dom (map_of (JOURNAL db)) - fst ` set rs
    \<and> (distinct (map fst rs) \<longrightarrow> length (OUTBOX_META db) + length rs \<le> OUTBOX_MAX_ENTRIES \<longrightarrow>
       map_of (OUTBOX_PAYLOAD db') = map_of (OUTBOX_PAYLOAD db) ++
         map_of (map (\<lambda>(k, j). (k, encode_result (to_vec E) (recovered_result j))) rs))"
    using assms(2-4)
  proof (induction rs arbitrary: w db)
    case (Cons kj rs)
    obtain k j where kj: "kj = (k, j)" by (cases kj)
    let ?b = "encode_result (to_vec E) (recovered_result j)"
    obtain r1 w1 where c: "complete_entry E k (jr_subject j) ?b w = (r1, w1)"
      by (cases "complete_entry E k (jr_subject j) ?b w")
    obtain db1 where db1: "r1 = Ok ()" "st_db w1 = Some db1" "db_ok db1"
      "map_of (JOURNAL db1) = (map_of (JOURNAL db))(k := None)"
      "length (OUTBOX_META db) < OUTBOX_MAX_ENTRIES \<Longrightarrow>
         map_of (OUTBOX_PAYLOAD db1) = (map_of (OUTBOX_PAYLOAD db))(k \<mapsto> ?b)"
      "length (OUTBOX_META db) < OUTBOX_MAX_ENTRIES \<Longrightarrow>
         length (OUTBOX_META db1) \<le> Suc (length (OUTBOX_META db))"
      using complete_entry_journal[OF Cons.prems(1,2) _ c] assms(1) by metis
    have rest: "recover_loop E rs w1 = (r, w')" using Cons.prems(3) c db1(1) by (simp add: kj)
    obtain db' where db': "r = Ok ()" "st_db w' = Some db'" "db_ok db'"
      "dom (map_of (JOURNAL db')) = dom (map_of (JOURNAL db1)) - fst ` set rs"
      and pay: "distinct (map fst rs) \<Longrightarrow>
         length (OUTBOX_META db1) + length rs \<le> OUTBOX_MAX_ENTRIES \<Longrightarrow>
         map_of (OUTBOX_PAYLOAD db') = map_of (OUTBOX_PAYLOAD db1) ++
           map_of (map (\<lambda>(k, j). (k, encode_result (to_vec E) (recovered_result j))) rs)"
      using Cons.IH[OF db1(2,3) rest] by blast
    have pay': "map_of (OUTBOX_PAYLOAD db') = map_of (OUTBOX_PAYLOAD db) ++
         map_of (map (\<lambda>(k, j). (k, encode_result (to_vec E) (recovered_result j))) (kj # rs))"
      if "distinct (map fst (kj # rs))"
        "length (OUTBOX_META db) + length (kj # rs) \<le> OUTBOX_MAX_ENTRIES"
    proof -
      have new: "k \<notin> dom (map_of (map (\<lambda>(k, j). (k, encode_result (to_vec E) (recovered_result j))) rs))"
        using that(1) by (auto simp: kj dom_map_of_conv_image_fst image_iff)
      show ?thesis
        using pay db1(5,6) that new by (simp add: kj map_add_upd_left)
    qed
    have "dom (map_of (JOURNAL db')) = dom (map_of (JOURNAL db)) - fst ` set (kj # rs)"
      using db'(4) db1(4) by (auto simp: kj)
    then show ?case using db'(1-3) pay' by blast
  qed simp
  then show thesis using that by blast
qed

text \<open>C6. After a restart, recovery turns every journal entry into a result: with a working database
  it reports the number of entries, leaves the journal empty (so a second recovery finds nothing),
  and, when the outbox has room, the outbox payloads are the earlier ones plus, for each entry, the
  encoded result with exit code 85 and the error that says whether the script had started.\<close>

theorem recover_spec:
  assumes "\<forall>n. \<not> db_fails E n" "st_db w = Some db" "db_ok db"
    and "recover E w = (r, w')"
  shows "r = Ok (length (JOURNAL db)) \<and>
    (\<exists>db'. st_db w' = Some db' \<and> db_ok db' \<and> JOURNAL db' = []
       \<and> fst (recover E w') = Ok 0
       \<and> (length (OUTBOX_META db) + length (JOURNAL db) \<le> OUTBOX_MAX_ENTRIES \<longrightarrow>
           (\<forall>k. map_of (OUTBOX_PAYLOAD db') k =
              (case map_of (JOURNAL db) k of
                 None \<Rightarrow> map_of (OUTBOX_PAYLOAD db) k
               | Some j \<Rightarrow> Some (encode_result (to_vec E)
                   \<lparr> rr_execution_id = jr_execution_id j, rr_machine_id = jr_machine_id j,
                     rr_stdout = [], rr_stderr = [], rr_exit_code = 85,
                     rr_execution_time_ms = 0, rr_timed_out = False,
                     rr_error = Some (if jr_started j then ''interrupted by agent restart; outcome unknown''
                                      else ''not executed: agent restarted earlier in batch''),
                     rr_script_id = jr_script_id j, rr_schedule_id = jr_schedule_id j \<rparr>)))))"
proof -
  let ?f = "\<lambda>(k, j). (k, encode_result (to_vec E) (recovered_result j))"
  define w1 where "w1 = w \<lparr> st_db := Some db, st_txn := Suc (st_txn w) \<rparr>"
  have w1: "with_db E (\<lambda>db. (JOURNAL db, db)) w = (Ok (JOURNAL db), w1)" "st_db w1 = Some db"
    using assms(1,2) by (simp_all add: store_simps w1_def)
  obtain r2 w2 where loop: "recover_loop E (JOURNAL db) w1 = (r2, w2)"
    by (cases "recover_loop E (JOURNAL db) w1")
  obtain db' where db': "r2 = Ok ()" "st_db w2 = Some db'" "db_ok db'"
    "dom (map_of (JOURNAL db')) = dom (map_of (JOURNAL db)) - fst ` set (JOURNAL db)"
    and pay: "distinct (map fst (JOURNAL db)) \<Longrightarrow>
       length (OUTBOX_META db) + length (JOURNAL db) \<le> OUTBOX_MAX_ENTRIES \<Longrightarrow>
       map_of (OUTBOX_PAYLOAD db') =
         map_of (OUTBOX_PAYLOAD db) ++ map_of (map ?f (JOURNAL db))"
    using recover_loop_complete[OF assms(1) w1(2) assms(3) loop] by blast
  have e: "JOURNAL db' = []" using db'(4) by (simp add: map_of_keys[symmetric])
  have rw: "r = Ok (length (JOURNAL db))" "w' = w2"
    using assms(2,4) w1(1) loop db'(1) by (simp_all add: recover_def enabled_def)
  have again: "fst (recover E w2) = Ok 0"
    using assms(1) db'(2) e by (simp add: recover_def enabled_def store_simps)
  have val: "map_of (map ?f t) k =
      map_option (\<lambda>j. encode_result (to_vec E) (recovered_result j)) (map_of t k)" for t k
    by (induction t) auto
  have "map_of (OUTBOX_PAYLOAD db') k =
     (case map_of (JOURNAL db) k of
        None \<Rightarrow> map_of (OUTBOX_PAYLOAD db) k
      | Some j \<Rightarrow> Some (encode_result (to_vec E) (recovered_result j)))"
    if "length (OUTBOX_META db) + length (JOURNAL db) \<le> OUTBOX_MAX_ENTRIES" for k
    using pay[OF tab_ok_distinct[OF db_ok_parts(1)[OF assms(3)]] that]
    by (simp add: map_add_def val split: option.splits)
  then show ?thesis using rw db'(2,3) e again
    unfolding recovered_result_def ERROR_INTERRUPTED_def ERROR_NOT_STARTED_def by blast
qed

lemma recover_spec_witness:
  "fst (recover sample_env
      \<lparr> st_db = Some (sample_db \<lparr> JOURNAL := [(''e1:s1'', sample_record)] \<rparr>), st_txn = 0 \<rparr>) = Ok 1"
proof -
  have "db_ok (sample_db \<lparr> JOURNAL := [(''e1:s1'', sample_record)] \<rparr>)"
    using sample_db_ok by (simp add: db_ok_def tab_ok_def)
  then show ?thesis
    using recover_spec[OF _ _ _ prod.collapse[symmetric], of sample_env
        "\<lparr> st_db = Some (sample_db \<lparr> JOURNAL := [(''e1:s1'', sample_record)] \<rparr>), st_txn = 0 \<rparr>"
        "sample_db \<lparr> JOURNAL := [(''e1:s1'', sample_record)] \<rparr>"]
    by simp
qed

end
