(* ===== verification/Outbox.thy ===== *)
theory Outbox
  imports ResultStore
begin

text \<open>The outbox flusher (services/result\_outbox\_run\_manager.rs): on every tick it walks the
  pending keys in key order, publishes each payload and removes the entry once the publish is
  acknowledged. It stops at the first read error, publish error or timeout and tries again on
  the next tick; an entry too large for the transport is stepped over.

  The publish is NATS: its outcome is chosen by the environment. The state records what was
  acknowledged, in order. The abstract outbox is the map from keys to subject and payload.\<close>

datatype publish_outcome = Published | PublishFailed | PublishTimeout

record net_env = store_env +
  publish_raw :: "nat \<Rightarrow> string \<Rightarrow> string \<Rightarrow> publish_outcome"

record net_state = store_state +
  attempts :: nat
  delivered :: "(string \<times> string) list"

definition publish ::
  "'e net_env_scheme \<Rightarrow> string \<Rightarrow> string \<Rightarrow> 'w net_state_scheme \<Rightarrow>
   publish_outcome \<times> 'w net_state_scheme" where
  "publish E subject bytes w =
    (let o' = publish_raw E (attempts w) subject bytes in
     (o', w \<lparr> attempts := Suc (attempts w),
             delivered := (if o' = Published then delivered w @ [(subject, bytes)]
                           else delivered w) \<rparr>))"

text \<open>One entry of the pass: the boolean says whether the pass goes on.\<close>

definition flush_one ::
  "'e net_env_scheme \<Rightarrow> string \<times> string \<Rightarrow> 'w net_state_scheme \<Rightarrow> bool \<times> 'w net_state_scheme" where
  "flush_one E ks w =
    (case ks of (key, subject) \<Rightarrow>
      (case load_payload E key w of
         (Inl e, w1) \<Rightarrow> (False, w1)
       | (Inr None, w1) \<Rightarrow> (True, snd (outbox_remove E key w1))
       | (Inr (Some bytes), w1) \<Rightarrow>
           if OUTBOX_MAX_PAYLOAD_BYTES < length bytes then (True, w1)
           else (case publish E subject bytes w1 of
               (Published, w2) \<Rightarrow> (True, snd (outbox_remove E key w2))
             | (PublishFailed, w2) \<Rightarrow> (False, w2)
             | (PublishTimeout, w2) \<Rightarrow> (False, w2))))"

fun flush_loop ::
  "'e net_env_scheme \<Rightarrow> (string \<times> string) list \<Rightarrow> 'w net_state_scheme \<Rightarrow> 'w net_state_scheme" where
  "flush_loop E [] w = w"
| "flush_loop E (ks # keys) w =
     (case flush_one E ks w of (go_on, w1) \<Rightarrow> if go_on then flush_loop E keys w1 else w1)"

definition flush_tick ::
  "'e net_env_scheme \<Rightarrow> 'w net_state_scheme \<Rightarrow> 'w net_state_scheme" where
  "flush_tick E w =
    (case pending_keys E w of (Inl e, w1) \<Rightarrow> w1 | (Inr keys, w1) \<Rightarrow> flush_loop E keys w1)"

text \<open>The run manager starts its loop only over a durable store.\<close>

definition start_flusher ::
  "'e net_env_scheme \<Rightarrow> nat \<Rightarrow> 'w net_state_scheme \<Rightarrow> 'w net_state_scheme" where
  "start_flusher E ticks w = (if \<not> enabled w then w else (flush_tick E ^^ ticks) w)"


section \<open>The abstract outbox\<close>

definition outbox_view :: "'w store_state_scheme \<Rightarrow> string \<Rightarrow> (string \<times> string) option" where
  "outbox_view w k =
    (case st_db w of
       None \<Rightarrow> None
     | Some db \<Rightarrow>
         (case (map_of (OUTBOX_META db) k, map_of (OUTBOX_PAYLOAD db) k) of
            (Some m, Some p) \<Rightarrow> Some (om_subject m, p)
          | _ \<Rightarrow> None))"

lemma view_extensional:
  "st_db w' = st_db w \<Longrightarrow> outbox_view w' = outbox_view w"
  by (simp add: outbox_view_def fun_eq_iff)

lemma outbox_remove_view:
  assumes "outbox_remove E k w = (r, w')"
  shows "outbox_view w' = (if is_ok r then (outbox_view w)(k := None) else outbox_view w)"
  using assms unfolding outbox_remove_def
  by (cases rule: with_db_cases) (auto simp: outbox_view_def tab_get_remove fun_eq_iff)

lemma load_payload_result:
  assumes "load_payload E k w = (r, w')" "outbox_view w k = Some (s, p)"
  shows "outbox_view w' = outbox_view w" "r = Ok (Some p) \<or> (\<exists>e. r = Err e)"
  using assms(1) unfolding load_payload_def
  by (cases rule: with_db_cases;
      use assms(2) in \<open>auto simp: outbox_view_def fun_eq_iff split: option.splits\<close>)+

lemma publish_frame [simp]:
  "st_db (snd (publish E s p w)) = st_db w" "st_txn (snd (publish E s p w)) = st_txn w"
  "fst (publish E s p w) = publish_raw E (attempts w) s p"
  by (simp_all add: publish_def Let_def)

lemma publish_delivered:
  "delivered (snd (publish E s p w)) =
     (if publish_raw E (attempts w) s p = Published then delivered w @ [(s, p)] else delivered w)"
  by (simp add: publish_def Let_def)

lemma with_db_delivered:
  "with_db E f w = (r, w') \<Longrightarrow> delivered w' = delivered w \<and> attempts w' = attempts w"
  by (erule with_db_cases) auto



text \<open>One entry is either left alone or acknowledged and removed, and its acknowledged bytes are
  exactly the ones stored under its key.\<close>

lemma flush_one_view:
  assumes "flush_one E (k, s) w = (c, w')" "outbox_view w k = Some (s, p)"
  shows "outbox_view w' = outbox_view w \<and> (delivered w' = delivered w \<or> delivered w' = delivered w @ [(s, p)])
    \<or> outbox_view w' = (outbox_view w)(k := None) \<and> delivered w' = delivered w @ [(s, p)]
       \<and> length p \<le> OUTBOX_MAX_PAYLOAD_BYTES"
proof -
  obtain r1 w1 where l: "load_payload E k w = (r1, w1)" by (cases "load_payload E k w")
  have d1: "delivered w1 = delivered w" "outbox_view w1 = outbox_view w"
    "r1 = Ok (Some p) \<or> (\<exists>e. r1 = Err e)"
    using with_db_delivered[OF l[unfolded load_payload_def]] load_payload_result[OF l assms(2)]
    by simp_all
  then show ?thesis
  proof (cases "\<exists>e. r1 = Err e")
    case True
    then show ?thesis using assms(1) l d1 by (auto simp: flush_one_def)
  next
    case False
    then have r1: "r1 = Ok (Some p)" using d1(3) by blast
    show ?thesis
    proof (cases "OUTBOX_MAX_PAYLOAD_BYTES < length p")
      case True
      then show ?thesis using assms(1) l d1 r1 by (simp add: flush_one_def)
    next
      case False
      obtain o2 w2 where pub: "publish E s p w1 = (o2, w2)" by (cases "publish E s p w1")
      have w2: "outbox_view w2 = outbox_view w1"
        "delivered w2 = (if o2 = Published then delivered w @ [(s, p)] else delivered w)"
        using publish_frame(1,3)[of E s p w1] publish_delivered[of E s p w1] d1(1)
        by (auto simp: pub intro: view_extensional)
      obtain r3 w3 where rem: "outbox_remove E k w2 = (r3, w3)" by (cases "outbox_remove E k w2")
      have w3: "delivered w3 = delivered w2"
        "outbox_view w3 = (if is_ok r3 then (outbox_view w2)(k := None) else outbox_view w2)"
        using with_db_delivered[OF rem[unfolded outbox_remove_def]] outbox_remove_view[OF rem]
        by simp_all
      show ?thesis
        using assms(1) False l r1 pub rem d1 w2 w3
        by (cases o2) (auto simp: flush_one_def)
    qed
  qed
qed


lemma with_db_journal:
  assumes "with_db E f w = (r, w')" "\<And>db. JOURNAL (snd (f db)) = JOURNAL db"
  shows "map_option JOURNAL (st_db w') = map_option JOURNAL (st_db w)"
  using assms(1) by (cases rule: with_db_cases) (use assms(2) in auto)

lemma outbox_ops_journal:
  "load_payload E k w = (r, w') \<Longrightarrow> map_option JOURNAL (st_db w') = map_option JOURNAL (st_db w)"
  "outbox_remove E k w = (r1, w') \<Longrightarrow> map_option JOURNAL (st_db w') = map_option JOURNAL (st_db w)"
  "pending_keys E w = (r2, w') \<Longrightarrow> map_option JOURNAL (st_db w') = map_option JOURNAL (st_db w)"
  by (auto simp: load_payload_def outbox_remove_def pending_keys_def intro: with_db_journal)

lemma outbox_remove_journal [simp]:
  "map_option JOURNAL (st_db (snd (outbox_remove E k w))) = map_option JOURNAL (st_db w)"
  by (rule outbox_ops_journal(2)[OF prod.collapse[symmetric]])

lemma flush_one_journal:
  "map_option JOURNAL (st_db (snd (flush_one E ks w))) = map_option JOURNAL (st_db w)"
proof -
  obtain k s where ks: "ks = (k, s)" by (cases ks)
  obtain r1 w1 where l: "load_payload E k w = (r1, w1)" by (cases "load_payload E k w")
  have pub: "publish E s p w1 = (o2, w2) \<Longrightarrow> st_db w2 = st_db w1" for o2 w2 p
    using publish_frame(1)[of E s p w1] by simp
  show ?thesis
    using outbox_ops_journal(1)[OF l] pub
    by (auto simp: flush_one_def ks l split: sum.split option.split prod.split publish_outcome.split)
qed

lemma flush_loop_journal:
  "map_option JOURNAL (st_db (flush_loop E ks w)) = map_option JOURNAL (st_db w)"
proof (induction E ks w rule: flush_loop.induct)
  case (2 E ks keys w)
  obtain c w1 where one: "flush_one E ks w = (c, w1)" by (cases "flush_one E ks w")
  then show ?case
    using flush_one_journal[of E ks w] 2[OF one[symmetric]] by (cases c) simp_all
qed simp

lemma flush_loop_view:
  assumes "distinct (map fst ks)" "\<forall>(k, s) \<in> set ks. \<exists>p. outbox_view w k = Some (s, p)"
  shows "\<exists>D. delivered (flush_loop E ks w) = delivered w @ D
    \<and> outbox_view (flush_loop E ks w) \<subseteq>\<^sub>m outbox_view w
    \<and> (\<forall>k s p. outbox_view w k = Some (s, p) \<longrightarrow> outbox_view (flush_loop E ks w) k = None \<longrightarrow>
         (s, p) \<in> set D \<and> length p \<le> OUTBOX_MAX_PAYLOAD_BYTES)"
  using assms
proof (induction ks arbitrary: w)
  case (Cons x ks)
  obtain k s where x: "x = (k, s)" by (cases x)
  obtain c w1 where one: "flush_one E (k, s) w = (c, w1)" by (cases "flush_one E (k, s) w")
  obtain p where p: "outbox_view w k = Some (s, p)" using Cons.prems(2) x by auto
  from flush_one_view[OF one p] obtain D1 where D1: "delivered w1 = delivered w @ D1"
    "outbox_view w1 = outbox_view w \<or> outbox_view w1 = (outbox_view w)(k := None) \<and> (s, p) \<in> set D1
       \<and> length p \<le> OUTBOX_MAX_PAYLOAD_BYTES"
    by auto
  then have le: "outbox_view w1 \<subseteq>\<^sub>m outbox_view w" by (auto simp: map_le_def split: if_splits)
  show ?case
  proof (cases c)
    case True
    have "\<forall>(k, s) \<in> set ks. \<exists>p. outbox_view w1 k = Some (s, p)"
      using Cons.prems D1(2) x by force
    then obtain D where D: "delivered (flush_loop E ks w1) = delivered w1 @ D"
      "outbox_view (flush_loop E ks w1) \<subseteq>\<^sub>m outbox_view w1"
      "\<forall>k s p. outbox_view w1 k = Some (s, p) \<longrightarrow> outbox_view (flush_loop E ks w1) k = None \<longrightarrow>
         (s, p) \<in> set D \<and> length p \<le> OUTBOX_MAX_PAYLOAD_BYTES"
      using Cons.IH[of w1] Cons.prems(1) by auto
    have "(s', p') \<in> set (D1 @ D) \<and> length p' \<le> OUTBOX_MAX_PAYLOAD_BYTES"
      if "outbox_view w k' = Some (s', p')" "outbox_view (flush_loop E ks w1) k' = None" for k' s' p'
    proof -
      have "outbox_view w1 k' = Some (s', p') \<or>
        k' = k \<and> (s, p) \<in> set D1 \<and> length p \<le> OUTBOX_MAX_PAYLOAD_BYTES"
        using D1(2) that(1) by (auto split: if_splits)
      then show ?thesis
      proof
        assume "outbox_view w1 k' = Some (s', p')"
        then show ?thesis using D(3) that(2) by auto
      next
        assume "k' = k \<and> (s, p) \<in> set D1 \<and> length p \<le> OUTBOX_MAX_PAYLOAD_BYTES"
        then show ?thesis using that(1) p by simp
      qed
    qed
    then show ?thesis
      using D(1,2) D1(1) le True by (auto simp: x one intro: map_le_trans)
  next
    case False
    have "(s', p') \<in> set D1 \<and> length p' \<le> OUTBOX_MAX_PAYLOAD_BYTES"
      if "outbox_view w k' = Some (s', p')" "outbox_view w1 k' = None" for k' s' p'
      using that D1(2) p by (auto split: if_splits)
    then show ?thesis using D1(1) le False by (simp add: x one)
  qed
qed simp

lemma pending_keys_done:
  assumes "st_db w = Some db" "\<not> db_fails E (st_txn w)"
  shows "pending_keys E w = (Ok (map (\<lambda>(k, m). (k, om_subject m)) (OUTBOX_META db)),
    w \<lparr> st_db := Some db, st_txn := Suc (st_txn w) \<rparr>)"
  using assms by (simp add: pending_keys_def store_simps)

lemma pending_view:
  assumes "st_db w = Some db" "db_ok db"
    "(k, s) \<in> set (map (\<lambda>(k, m). (k, om_subject m)) (OUTBOX_META db))"
  shows "\<exists>p. outbox_view w k = Some (s, p)"
proof -
  obtain m where m: "map_of (OUTBOX_META db) k = Some m" "s = om_subject m"
    using assms(3) tab_mem_iff[OF db_ok_parts(2)[OF assms(2)]] by auto
  moreover obtain p where "map_of (OUTBOX_PAYLOAD db) k = Some p"
    using m(1) db_ok_parts(4)[OF assms(2)] by (metis domD domI)
  ultimately show ?thesis using assms(1) by (simp add: outbox_view_def)
qed

lemma pending_distinct:
  assumes "db_ok db"
  shows "distinct (map fst (map (\<lambda>(k, m). (k, om_subject m)) (OUTBOX_META db)))"
  using tab_ok_distinct[OF db_ok_parts(2)[OF assms]] by (simp add: case_prod_beta comp_def)

text \<open>C3. Whatever fails, a pass of the flusher loses no result: an entry that is gone from the
  outbox after the pass had exactly its stored bytes acknowledged on its stored subject during the
  pass; the entries that stay are unchanged, none appears, and the journal is untouched.\<close>

theorem flush_tick_no_loss:
  assumes "st_db w = Some db" "db_ok db"
  shows "\<exists>D. delivered (flush_tick E w) = delivered w @ D
    \<and> outbox_view (flush_tick E w) \<subseteq>\<^sub>m outbox_view w
    \<and> map_option JOURNAL (st_db (flush_tick E w)) = Some (JOURNAL db)
    \<and> (\<forall>k s p. outbox_view w k = Some (s, p) \<longrightarrow> outbox_view (flush_tick E w) k = None \<longrightarrow>
         (s, p) \<in> set D \<and> length p \<le> OUTBOX_MAX_PAYLOAD_BYTES)"
proof (cases "db_fails E (st_txn w)")
  case True
  then have "flush_tick E w = w \<lparr> st_txn := Suc (st_txn w) \<rparr>"
    using assms(1) by (simp add: flush_tick_def pending_keys_def store_simps)
  moreover have "outbox_view (w \<lparr> st_txn := Suc (st_txn w) \<rparr>) = outbox_view w"
    by (rule view_extensional) simp
  ultimately show ?thesis using assms(1) by simp
next
  case False
  define w1 where "w1 = w \<lparr> st_db := Some db, st_txn := Suc (st_txn w) \<rparr>"
  let ?ks = "map (\<lambda>(k, m). (k, om_subject m)) (OUTBOX_META db)"
  have t: "flush_tick E w = flush_loop E ?ks w1"
    using pending_keys_done[OF assms(1) False] by (simp add: flush_tick_def w1_def)
  have w1: "st_db w1 = Some db" "delivered w1 = delivered w" "outbox_view w1 = outbox_view w"
    using assms(1) by (auto simp: w1_def intro: view_extensional)
  show ?thesis
    using flush_loop_view[OF pending_distinct[OF assms(2)], of w1 E]
      pending_view[OF w1(1) assms(2)] flush_loop_journal[of E ?ks w1] w1
    unfolding t by fastforce
qed

definition sample_net_env :: "(nat \<Rightarrow> publish_outcome) \<Rightarrow> net_env" where
  "sample_net_env f = \<lparr> db_fails = (\<lambda>_. False), clock = (\<lambda>n. n), to_vec = (\<lambda>r. rr_stdout r),
     publish_raw = (\<lambda>n _ _. f n) \<rparr>"

definition sample_net :: "database option \<Rightarrow> net_state" where
  "sample_net db = \<lparr> st_db = db, st_txn = 0, attempts = 0, delivered = [] \<rparr>"

text \<open>A pass whose second publish fails: the first entry is delivered, the second one stays.\<close>

lemma flush_tick_no_loss_witness:
  "let E = sample_net_env (\<lambda>n. if n = 0 then Published else PublishFailed);
       w' = flush_tick E (sample_net (Some sample_db))
   in delivered w' = [(''s'', ''x'')] \<and> outbox_view w' ''a'' = None
      \<and> outbox_view w' ''b'' = Some (''s'', ''y'')
      \<and> outbox_view w' \<subseteq>\<^sub>m outbox_view (sample_net (Some sample_db))"
proof -
  let ?E = "sample_net_env (\<lambda>n. if n = 0 then Published else PublishFailed)"
  let ?w = "sample_net (Some sample_db)"
  have "outbox_view (flush_tick ?E ?w) \<subseteq>\<^sub>m outbox_view ?w"
    using flush_tick_no_loss[of ?w sample_db ?E] sample_db_ok by (auto simp: sample_net_def)
  moreover have "delivered (flush_tick ?E ?w) = [(''s'', ''x'')]
      \<and> outbox_view (flush_tick ?E ?w) ''a'' = None
      \<and> outbox_view (flush_tick ?E ?w) ''b'' = Some (''s'', ''y'')"
    by code_simp
  ultimately show ?thesis by (simp add: Let_def)
qed


section \<open>A pass with no failures\<close>

definition deliverable :: "(string \<times> string) option \<Rightarrow> (string \<times> string) list" where
  "deliverable e =
    (case e of Some (s, p) \<Rightarrow> if length p \<le> OUTBOX_MAX_PAYLOAD_BYTES then [(s, p)] else []
             | None \<Rightarrow> [])"

lemma flush_one_healthy:
  assumes "\<forall>n. \<not> db_fails E n" "\<forall>n s p. publish_raw E n s p = Published"
    and "st_db w = Some db" "outbox_view w k = Some (s, p)"
  shows "\<exists>w'. flush_one E (k, s) w = (True, w') \<and> st_db w' \<noteq> None
    \<and> delivered w' = delivered w @ deliverable (outbox_view w k)
    \<and> outbox_view w' = (if length p \<le> OUTBOX_MAX_PAYLOAD_BYTES then (outbox_view w)(k := None)
                         else outbox_view w)"
proof -
  define w1 where "w1 = w \<lparr> st_db := Some db, st_txn := Suc (st_txn w) \<rparr>"
  have pay: "map_of (OUTBOX_PAYLOAD db) k = Some p"
    using assms(3,4) by (auto simp: outbox_view_def split: option.splits)
  have l: "load_payload E k w = (Ok (Some p), w1)"
    using assms(1,3) pay by (simp add: load_payload_def store_simps w1_def)
  have w1: "st_db w1 = Some db" "delivered w1 = delivered w" "outbox_view w1 = outbox_view w"
    using assms(3) by (auto simp: w1_def intro: view_extensional)
  define w2 where "w2 = snd (publish E s p w1)"
  have pub: "publish E s p w1 = (Published, w2)"
    using assms(2) publish_frame(3)[of E s p w1] by (simp add: w2_def prod_eq_iff)
  have w2: "st_db w2 = Some db" "delivered w2 = delivered w @ [(s, p)]"
    using assms(2) publish_delivered[of E s p w1] w1 by (simp_all add: w2_def)
  obtain r3 w3 where rem: "outbox_remove E k w2 = (r3, w3)" by (cases "outbox_remove E k w2")
  have w3: "r3 = Ok ()" "st_db w3 \<noteq> None" "delivered w3 = delivered w2"
    using rem assms(1) w2(1) by (auto simp: outbox_remove_def store_simps)
  have v3: "outbox_view w3 = (outbox_view w)(k := None)"
    using outbox_remove_view[OF rem] w3(1) w2(1) w1(1,3) view_extensional[of w2 w1] by simp
  show ?thesis
  proof (cases "length p \<le> OUTBOX_MAX_PAYLOAD_BYTES")
    case True
    then show ?thesis using l pub rem w3 v3 w2(2) assms(4)
      by (simp add: flush_one_def deliverable_def)
  next
    case False
    then show ?thesis using l w1 assms(4) by (simp add: flush_one_def deliverable_def)
  qed
qed

lemma flush_loop_healthy:
  assumes "\<forall>n. \<not> db_fails E n" "\<forall>n s p. publish_raw E n s p = Published"
    and "st_db w \<noteq> None" "distinct (map fst ks)"
    and "\<forall>(k, s) \<in> set ks. \<exists>p. outbox_view w k = Some (s, p)"
  shows "delivered (flush_loop E ks w) =
      delivered w @ concat (map (\<lambda>(k, s). deliverable (outbox_view w k)) ks)
    \<and> (\<forall>k. outbox_view (flush_loop E ks w) k =
        (if k \<in> fst ` set ks \<and> deliverable (outbox_view w k) \<noteq> [] then None else outbox_view w k))"
  using assms(3-5)
proof (induction ks arbitrary: w)
  case (Cons x ks)
  obtain k s where x: "x = (k, s)" by (cases x)
  obtain p where p: "outbox_view w k = Some (s, p)" using Cons.prems(3) x by auto
  obtain db where db: "st_db w = Some db" using Cons.prems(1) by blast
  obtain w1 where w1: "flush_one E (k, s) w = (True, w1)" "st_db w1 \<noteq> None"
    "delivered w1 = delivered w @ deliverable (outbox_view w k)"
    "outbox_view w1 = (if length p \<le> OUTBOX_MAX_PAYLOAD_BYTES then (outbox_view w)(k := None)
                         else outbox_view w)"
    using flush_one_healthy[OF assms(1,2) db p] by blast
  have same: "outbox_view w1 k' = outbox_view w k'" if "k' \<noteq> k" for k'
    using that w1(4) by (simp split: if_splits)
  have notin: "k \<notin> fst ` set ks" using Cons.prems(2) x by simp
  have pre: "\<forall>(k, s) \<in> set ks. \<exists>p. outbox_view w1 k = Some (s, p)"
  proof (intro ballI, clarify)
    fix k' s' assume "(k', s') \<in> set ks"
    moreover from this have "k' \<noteq> k" using notin by force
    ultimately show "\<exists>p. outbox_view w1 k' = Some (s', p)"
      using Cons.prems(3) same[of k'] by (auto simp: x)
  qed
  have del: "map (\<lambda>(k, s). deliverable (outbox_view w1 k)) ks =
      map (\<lambda>(k, s). deliverable (outbox_view w k)) ks"
    using same notin by (auto intro!: map_cong simp: image_iff)
  have head: "outbox_view w1 k = (if deliverable (outbox_view w k) \<noteq> [] then None else outbox_view w k)"
    using w1(4) p by (simp add: deliverable_def)
  have IH: "delivered (flush_loop E ks w1) =
      delivered w1 @ concat (map (\<lambda>(k, s). deliverable (outbox_view w1 k)) ks)"
    "outbox_view (flush_loop E ks w1) k' =
       (if k' \<in> fst ` set ks \<and> deliverable (outbox_view w1 k') \<noteq> [] then None else outbox_view w1 k')"
    for k'
    using Cons.IH[OF w1(2) _ pre] Cons.prems(2) by auto
  have "outbox_view (flush_loop E ks w1) k' =
      (if k' \<in> fst ` set (x # ks) \<and> deliverable (outbox_view w k') \<noteq> [] then None
       else outbox_view w k')" for k'
  proof (cases "k' = k")
    case True
    then show ?thesis using IH(2)[of k] head notin by (simp add: x)
  next
    case False
    then show ?thesis using IH(2)[of k'] same[OF False] by (simp add: x)
  qed
  then show ?case
    using IH(1) w1(1,3) del by (simp add: x)
qed simp

text \<open>C10. When the database works and every publish is acknowledged, one pass delivers every entry
  that fits the transport, in key order and exactly once, and removes exactly those entries: only
  oversized entries remain, and they did not block the ones after them.\<close>

theorem flush_tick_delivers:
  assumes "\<forall>n. \<not> db_fails E n" "\<forall>n s p. publish_raw E n s p = Published"
    and "st_db w = Some db" "db_ok db"
  shows "delivered (flush_tick E w) =
      delivered w @ concat (map (\<lambda>(k, m). deliverable (outbox_view w k)) (OUTBOX_META db))
    \<and> (\<forall>k. outbox_view (flush_tick E w) k =
        (if deliverable (outbox_view w k) \<noteq> [] then None else outbox_view w k))"
proof -
  define w1 where "w1 = w \<lparr> st_db := Some db, st_txn := Suc (st_txn w) \<rparr>"
  let ?ks = "map (\<lambda>(k, m). (k, om_subject m)) (OUTBOX_META db)"
  have t: "flush_tick E w = flush_loop E ?ks w1"
    using pending_keys_done[OF assms(3), of E] assms(1) by (simp add: flush_tick_def w1_def)
  have w1: "st_db w1 = Some db" "delivered w1 = delivered w" "outbox_view w1 = outbox_view w"
    using assms(3) by (auto simp: w1_def intro: view_extensional)
  have keys: "fst ` set ?ks = dom (map_of (OUTBOX_META db))"
    by (force simp: map_of_keys[symmetric])
  have out: "deliverable (outbox_view w k) = []" if "k \<notin> dom (map_of (OUTBOX_META db))" for k
    using that assms(3) by (auto simp: outbox_view_def deliverable_def split: option.splits)
  have cc: "concat (map (\<lambda>(k, s). deliverable (outbox_view w k)) ?ks) =
      concat (map (\<lambda>(k, m). deliverable (outbox_view w k)) (OUTBOX_META db))"
    by (rule arg_cong[where f = concat]) auto
  have pv: "\<forall>(k, s) \<in> set ?ks. \<exists>p. outbox_view w1 k = Some (s, p)"
    using pending_view[OF w1(1) assms(4)] by fast
  have loop: "delivered (flush_loop E ?ks w1) =
      delivered w @ concat (map (\<lambda>(k, s). deliverable (outbox_view w k)) ?ks)"
    "outbox_view (flush_loop E ?ks w1) k =
      (if k \<in> fst ` set ?ks \<and> deliverable (outbox_view w k) \<noteq> [] then None else outbox_view w k)"
    for k
    using flush_loop_healthy[OF assms(1,2) _ pending_distinct[OF assms(4)] pv] w1
    by (simp_all del: map_map set_map)
  have "delivered (flush_loop E ?ks w1) =
        delivered w @ concat (map (\<lambda>(k, m). deliverable (outbox_view w k)) (OUTBOX_META db))"
    "outbox_view (flush_loop E ?ks w1) k =
       (if deliverable (outbox_view w k) \<noteq> [] then None else outbox_view w k)" for k
    unfolding loop cc using out[of k] keys by auto
  then show ?thesis unfolding t by simp
qed

lemma flush_tick_delivers_witness:
  "delivered (flush_tick (sample_net_env (\<lambda>_. Published)) (sample_net (Some sample_db))) =
     [(''s'', ''x''), (''s'', ''y'')]"
proof -
  have "concat (map (\<lambda>(k, m). deliverable (outbox_view (sample_net (Some sample_db)) k))
      (OUTBOX_META sample_db)) = [(''s'', ''x''), (''s'', ''y'')]"
    by code_simp
  then show ?thesis
    using flush_tick_delivers[of "sample_net_env (\<lambda>_. Published)" "sample_net (Some sample_db)" sample_db]
      sample_db_ok
    by (simp add: sample_net_env_def sample_net_def)
qed

end
