(* ===== verification/Execution.thy ===== *)
theory Execution
  imports Outbox
begin

text \<open>Running scripts and commands for the backend: the execution service
  (services/execution\_service.rs) that maps a request to executor parameters and the executor's
  answer to a result, and the execution listener (listener/execution\_listener.rs) that accepts
  a message, runs its requests in order and publishes or stores the results. The executor's
  answer and the elapsed time are chosen by the environment, as are the parse of a payload and
  the outcome of a publish. Each run of a script, each direct publish and each wake-up of the
  flusher is recorded as an event.\<close>

datatype privilege = Agent | UserSession

record script_params =
  pa_code :: string
  pa_shell :: string
  pa_args :: "string list"
  pa_timeout_secs :: "32 word"
  pa_privilege :: privilege
  pa_env_vars :: "string list"

record exec_result =
  er_stdout :: string
  er_stderr :: string
  er_retcode :: int
  er_timed_out :: bool

datatype exec_event =
    Ran string script_params
  | SentDirectly string rmm_result bool
  | FlushNotified

record exec_env = net_env +
  execute_script :: "nat \<Rightarrow> script_params \<Rightarrow> exec_result"
  elapsed_ms :: "nat \<Rightarrow> nat"

record exec_state = net_state +
  events :: "exec_event list"

definition record_event :: "exec_event \<Rightarrow> 'w exec_state_scheme \<Rightarrow> 'w exec_state_scheme" where
  "record_event e w = w \<lparr> events := events w @ [e] \<rparr>"

definition effective_timeout :: "64 word \<Rightarrow> 32 word" where
  "effective_timeout t = (if t = 0 then 900 else ucast (min t (ucast (- 1 :: 32 word))))"

definition script_params_of :: "execution_request \<Rightarrow> script_params" where
  "script_params_of req =
    \<lparr> pa_code = rq_code req,
      pa_shell = as_param (rq_shell req),
      pa_args = rq_args req,
      pa_timeout_secs = effective_timeout (rq_timeout_secs req),
      pa_privilege = (case rq_privilege req of Admin \<Rightarrow> Agent | User \<Rightarrow> UserSession),
      pa_env_vars = rq_env_vars req \<rparr>"

definition result_of :: "execution_request \<Rightarrow> string \<Rightarrow> exec_result \<Rightarrow> nat \<Rightarrow> rmm_result" where
  "result_of req machine_id res ms =
    \<lparr> rr_execution_id = rq_execution_id req,
      rr_machine_id = machine_id,
      rr_stdout = er_stdout res,
      rr_stderr = er_stderr res,
      rr_exit_code = er_retcode res,
      rr_execution_time_ms = ms,
      rr_timed_out = er_timed_out res,
      rr_error = (if er_retcode res = 85 then Some (er_stderr res) else None),
      rr_script_id = rq_script_id req,
      rr_schedule_id = rq_schedule_id req \<rparr>"

definition request_key :: "execution_request \<Rightarrow> string" where
  "request_key req = entry_key (rq_execution_id req) (rq_script_id req)"

definition execute ::
  "'e exec_env_scheme \<Rightarrow> execution_request \<Rightarrow> string \<Rightarrow> 'w exec_state_scheme \<Rightarrow>
   rmm_result \<times> 'w exec_state_scheme" where
  "execute E req machine_id w =
    (let now = length (events w); params = script_params_of req in
     (result_of req machine_id (execute_script E now params) (elapsed_ms E now),
      record_event (Ran (request_key req) params) w))"

text \<open>The publisher serialises the result and publishes it; its failure is only logged.\<close>

definition publish_result ::
  "'e exec_env_scheme \<Rightarrow> string \<Rightarrow> rmm_result \<Rightarrow> 'w exec_state_scheme \<Rightarrow>
   bool \<times> 'w exec_state_scheme" where
  "publish_result E subject result w =
    (case publish E subject (to_vec E result) w of
       (o', w1) \<Rightarrow> (o' = Published,
                   record_event (SentDirectly subject result (o' = Published)) w1))"

fun publish_directly ::
  "'e exec_env_scheme \<Rightarrow> execution_request list \<Rightarrow> string \<Rightarrow> string \<Rightarrow> 'w exec_state_scheme \<Rightarrow>
   'w exec_state_scheme" where
  "publish_directly E [] machine_id subject w = w"
| "publish_directly E (req # reqs) machine_id subject w =
     (case execute E req machine_id w of
        (result, w1) \<Rightarrow>
          publish_directly E reqs machine_id subject (snd (publish_result E subject result w1)))"

definition batch_records ::
  "execution_request list \<Rightarrow> string \<Rightarrow> string \<Rightarrow> nat \<Rightarrow> (string \<times> journal_record) list" where
  "batch_records reqs machine_id subject now =
    map (\<lambda>req. (request_key req,
      \<lparr> jr_subject = subject,
        jr_execution_id = rq_execution_id req,
        jr_schedule_id = rq_schedule_id req,
        jr_machine_id = machine_id,
        jr_script_id = rq_script_id req,
        jr_started = False,
        jr_created_at_secs = now \<rparr>)) reqs"

text \<open>One accepted script: mark it started (a failure is only logged), run it, move its result
  to the outbox; when that fails, publish it directly and clear its journal entry.\<close>

definition run_durable ::
  "'e exec_env_scheme \<Rightarrow> execution_request \<Rightarrow> string \<Rightarrow> string \<Rightarrow> 'w exec_state_scheme \<Rightarrow>
   'w exec_state_scheme" where
  "run_durable E req machine_id subject w =
    (let key = request_key req;
         w1 = snd (journal_mark_started E key w) in
     case execute E req machine_id w1 of
       (result, w2) \<Rightarrow>
         (case complete_entry E key subject (encode_result (to_vec E) result) w2 of
            (Inl e, w3) \<Rightarrow>
              (case publish_result E subject result w3 of
                 (sent, w4) \<Rightarrow> if sent then snd (journal_remove E key w4) else w4)
          | (Inr _, w3) \<Rightarrow> record_event FlushNotified w3))"

fun durable_loop ::
  "'e exec_env_scheme \<Rightarrow> execution_request list \<Rightarrow> string \<Rightarrow> string \<Rightarrow> 'w exec_state_scheme \<Rightarrow>
   'w exec_state_scheme" where
  "durable_loop E [] machine_id subject w = w"
| "durable_loop E (req # reqs) machine_id subject w =
     durable_loop E reqs machine_id subject (run_durable E req machine_id subject w)"

definition handle_durable ::
  "'e exec_env_scheme \<Rightarrow> execution_request list \<Rightarrow> string \<Rightarrow> string \<Rightarrow> string \<Rightarrow>
   'w exec_state_scheme \<Rightarrow> 'w exec_state_scheme" where
  "handle_durable E reqs machine_id subject execution_id w =
    (case journal_batch E execution_id
            (batch_records reqs machine_id subject (clock E (st_txn w))) w of
       (Inr True, w1) \<Rightarrow> durable_loop E reqs machine_id subject (record_event FlushNotified w1)
     | (Inr False, w1) \<Rightarrow> w1
     | (Inl e, w1) \<Rightarrow> publish_directly E reqs machine_id subject w1)"

definition result_subject :: "'m message_kind \<Rightarrow> string \<Rightarrow> string" where
  "result_subject K machine_id = ''machine.'' @ machine_id @ ''.'' @ mk_RESULT_KIND K @ ''.result''"

definition handle_message ::
  "'m message_kind \<Rightarrow> (string \<Rightarrow> 'm option) \<Rightarrow> 'e exec_env_scheme \<Rightarrow> string \<Rightarrow> string \<Rightarrow>
   'w exec_state_scheme \<Rightarrow> 'w exec_state_scheme" where
  "handle_message K from_payload E machine_id payload w =
    (case from_payload payload of
       None \<Rightarrow> w
     | Some m \<Rightarrow>
         let requests = mk_to_requests K m; subject = result_subject K machine_id in
         if mk_DURABLE K \<and> enabled w
         then handle_durable E requests machine_id subject (mk_execution_id K m) w
         else publish_directly E requests machine_id subject w)"


section \<open>The service\<close>

lemma effective_timeout_unat:
  "unat (effective_timeout t) = (if t = 0 then 900 else min (unat t) (2 ^ 32 - 1))"
proof (cases "t = 0")
  case False
  have m: "unat (ucast (- 1 :: 32 word) :: 64 word) = 2 ^ 32 - 1"
    by code_simp
  have "unat (min t (ucast (- 1 :: 32 word))) = min (unat t) (2 ^ 32 - 1)"
    using m by (simp add: min_def word_le_nat_alt)
  then show ?thesis
    using False by (simp add: effective_timeout_def unsigned_ucast_eq take_bit_nat_eq_self_iff
        min_def)
qed (simp add: effective_timeout_def)

lemma effective_timeout_pos: "0 < unat (effective_timeout t)"
proof -
  have "t \<noteq> 0 \<Longrightarrow> 0 < unat t" by (metis unat_0 unat_eq_0 not_gr_zero)
  then show ?thesis by (auto simp: effective_timeout_unat)
qed

text \<open>What one execution does, on every request: the executor sees the script with a timeout
  between one second and the 32-bit maximum (zero means the default of 900), it runs exactly once,
  and the result carries the request's identifiers; the error is the standard error exactly when
  the exit code is 85.\<close>

theorem execute_spec:
  "let (result, w') = execute E req machine_id w in
     events w' = events w @ [Ran (request_key req) (script_params_of req)]
     \<and> st_db w' = st_db w
     \<and> 0 < unat (pa_timeout_secs (script_params_of req))
     \<and> unat (pa_timeout_secs (script_params_of req)) =
         (if rq_timeout_secs req = 0 then 900 else min (unat (rq_timeout_secs req)) (2 ^ 32 - 1))
     \<and> (rr_error result = Some (rr_stderr result) \<longleftrightarrow> rr_exit_code result = 85)
     \<and> (rr_error result = None \<longleftrightarrow> rr_exit_code result \<noteq> 85)
     \<and> entry_key (rr_execution_id result) (rr_script_id result) = request_key req"
proof -
  have t: "pa_timeout_secs (script_params_of req) = effective_timeout (rq_timeout_secs req)"
    by (simp add: script_params_of_def)
  have r: "rr_error (result_of req machine_id res ms) = Some (rr_stderr (result_of req machine_id res ms))
      \<longleftrightarrow> rr_exit_code (result_of req machine_id res ms) = 85"
    "rr_error (result_of req machine_id res ms) = None \<longleftrightarrow>
       rr_exit_code (result_of req machine_id res ms) \<noteq> 85" for res ms
    by (simp_all add: result_of_def)
  show ?thesis
    unfolding execute_def Let_def split t
    by (intro conjI effective_timeout_pos effective_timeout_unat r)
      (simp_all add: record_event_def request_key_def result_of_def)
qed


section \<open>Which scripts a delivery runs\<close>

fun runs_of :: "exec_event list \<Rightarrow> (string \<times> script_params) list" where
  "runs_of [] = []"
| "runs_of (Ran k p # es) = (k, p) # runs_of es"
| "runs_of (_ # es) = runs_of es"

lemma runs_of_append [simp]: "runs_of (es @ fs) = runs_of es @ runs_of fs"
  by (induction es rule: runs_of.induct) auto

text \<open>The store operations change only the store part of the state.\<close>

lemma with_db_more: "with_db E f w = (r, w') \<Longrightarrow> store_state.more w' = store_state.more w"
  by (erule with_db_cases) auto

lemma prune_over_cap_more [simp]: "store_state.more (prune_over_cap E w) = store_state.more w"
  unfolding prune_over_cap_def prune_oldest_def by (rule with_db_more[OF prod.collapse[symmetric]])

lemma complete_entry_more:
  assumes "complete_entry E k s b w = (r, w')"
  shows "store_state.more w' = store_state.more w"
  using assms by (cases rule: complete_entry_cases) (simp_all add: completed_def)

lemma more_fields:
  fixes w w' :: "'w exec_state_scheme"
  assumes "store_state.more w' = store_state.more w"
  shows "events w' = events w" "delivered w' = delivered w" "attempts w' = attempts w"
  using assms by (cases w; cases w'; simp)+

lemma store_events:
  fixes w :: "'w exec_state_scheme"
  shows "events (snd (journal_mark_started E k w)) = events w"
    "events (snd (journal_remove E k w)) = events w"
    "events (snd (journal_batch E i rs w)) = events w"
    "events (snd (complete_entry E k s b w)) = events w"
  unfolding journal_mark_started_def journal_remove_def journal_batch_def
  by (rule more_fields(1), rule with_db_more[OF prod.collapse[symmetric]])+
    (rule more_fields(1), rule complete_entry_more[OF prod.collapse[symmetric]])

lemma publish_events [simp]:
  fixes w :: "'w exec_state_scheme"
  shows "events (snd (publish E s b w)) = events w"
  by (simp add: publish_def Let_def)

lemma publish_result_runs:
  "runs_of (events (snd (publish_result E s r w))) = runs_of (events w)"
  using publish_events[of E s "to_vec E r" w]
  by (cases "publish E s (to_vec E r) w") (simp add: publish_result_def record_event_def)

lemma execute_runs:
  "runs_of (events (snd (execute E req m w))) =
     runs_of (events w) @ [(request_key req, script_params_of req)]"
  by (simp add: execute_def record_event_def Let_def)

lemma publish_directly_runs:
  "runs_of (events (publish_directly E reqs m s w)) =
     runs_of (events w) @ map (\<lambda>r. (request_key r, script_params_of r)) reqs"
proof (induction E reqs m s w rule: publish_directly.induct)
  case (2 E req reqs m s w)
  obtain result w1 where e: "execute E req m w = (result, w1)" by (cases "execute E req m w")
  show ?case
    using 2[OF e[symmetric]] execute_runs[of E req m w] e
    by (simp add: publish_result_runs)
qed simp

lemma run_durable_runs:
  "runs_of (events (run_durable E req m s w)) =
     runs_of (events w) @ [(request_key req, script_params_of req)]"
proof -
  obtain w1 where w1: "snd (journal_mark_started E (request_key req) w) = w1" by blast
  obtain result w2 where e: "execute E req m w1 = (result, w2)" by (cases "execute E req m w1")
  obtain r3 w3 where c: "complete_entry E (request_key req) s (encode_result (to_vec E) result) w2 = (r3, w3)"
    by (cases "complete_entry E (request_key req) s (encode_result (to_vec E) result) w2")
  obtain sent w4 where p: "publish_result E s result w3 = (sent, w4)"
    by (cases "publish_result E s result w3")
  have "runs_of (events w3) = runs_of (events w) @ [(request_key req, script_params_of req)]"
    using execute_runs[of E req m w1] store_events(1)[of E "request_key req" w]
      store_events(4)[of E "request_key req" s "encode_result (to_vec E) result" w2]
    by (simp add: e c w1)
  then show ?thesis
    using publish_result_runs[of E s result w3] store_events(2)[of E "request_key req" w4]
    by (simp add: run_durable_def Let_def w1 e c p record_event_def
        split: sum.split)
qed

lemma durable_loop_runs:
  "runs_of (events (durable_loop E reqs m s w)) =
     runs_of (events w) @ map (\<lambda>r. (request_key r, script_params_of r)) reqs"
  by (induction E reqs m s w rule: durable_loop.induct) (simp_all add: run_durable_runs)

text \<open>Whatever the database and the network do, one delivery of a schedule message runs either
  nothing, exactly when the journal already holds a record of that execution, or every request of
  the message once, in order.\<close>

theorem handle_durable_runs:
  "runs_of (events (handle_durable E reqs m s i w)) = runs_of (events w) @
     (if \<exists>db. st_db w = Some db \<and> \<not> db_fails E (st_txn w) \<and> journal_contains_batch (JOURNAL db) i
      then [] else map (\<lambda>r. (request_key r, script_params_of r)) reqs)"
proof -
  let ?rs = "batch_records reqs m s (clock E (st_txn w))"
  obtain r w1 where j: "journal_batch E i ?rs w = (r, w1)" by (cases "journal_batch E i ?rs w")
  have ev: "events w1 = events w" using store_events(3)[of E i ?rs w] j by simp
  have refused: "r = Ok False \<longleftrightarrow> (\<exists>db. st_db w = Some db \<and> \<not> db_fails E (st_txn w)
      \<and> journal_contains_batch (JOURNAL db) i)"
    using j unfolding journal_batch_def by (cases rule: with_db_cases) auto
  show ?thesis
  proof (cases r)
    case (Inl e)
    then show ?thesis using refused j ev by (auto simp: handle_durable_def publish_directly_runs)
  next
    case (Inr b)
    then show ?thesis using refused j ev
      by (cases b) (auto simp: handle_durable_def durable_loop_runs record_event_def)
  qed
qed


section \<open>A durable batch on a working database\<close>

lemma journal_mark_started_done:
  assumes "st_db w = Some db" "db_ok db" "\<not> db_fails E (st_txn w)"
  obtains db' where "snd (journal_mark_started E key w) =
      w \<lparr> st_db := Some db', st_txn := Suc (st_txn w) \<rparr>" "db_ok db'"
    "OUTBOX_META db' = OUTBOX_META db" "OUTBOX_PAYLOAD db' = OUTBOX_PAYLOAD db"
    "map_of (JOURNAL db') = (case map_of (JOURNAL db) key of None \<Rightarrow> map_of (JOURNAL db)
       | Some r \<Rightarrow> (map_of (JOURNAL db))(key \<mapsto> r \<lparr> jr_started := True \<rparr>))"
proof (cases "map_of (JOURNAL db) key")
  case None
  show thesis
    by (rule that[of db]) (use assms None in \<open>simp_all add: journal_mark_started_def store_simps\<close>)
next
  case (Some r)
  show thesis
    by (rule that[of "db \<lparr> JOURNAL := tab_insert key (r \<lparr> jr_started := True \<rparr>) (JOURNAL db) \<rparr>"])
      (use assms Some db_ok_parts[OF assms(2)] in \<open>simp_all add: journal_mark_started_def
         store_simps db_ok_journal tab_ok_insert tab_get_insert\<close>)
qed

text \<open>The bytes a script run as the n-th event leaves in the outbox.\<close>

definition outcome_bytes :: "'e exec_env_scheme \<Rightarrow> string \<Rightarrow> nat \<Rightarrow> execution_request \<Rightarrow> string" where
  "outcome_bytes E machine_id n req =
    encode_result (to_vec E)
      (result_of req machine_id (execute_script E n (script_params_of req)) (elapsed_ms E n))"

lemma run_durable_done:
  assumes "\<forall>n. \<not> db_fails E n" "st_db w = Some db" "db_ok db"
  obtains db' where "st_db (run_durable E req m s w) = Some db'" "db_ok db'"
    "map_of (JOURNAL db') = (map_of (JOURNAL db))(request_key req := None)"
    "events (run_durable E req m s w) =
       events w @ [Ran (request_key req) (script_params_of req), FlushNotified]"
    "delivered (run_durable E req m s w) = delivered w"
    "length (OUTBOX_META db) < OUTBOX_MAX_ENTRIES \<Longrightarrow> map_of (OUTBOX_PAYLOAD db') =
       (map_of (OUTBOX_PAYLOAD db))(request_key req \<mapsto> outcome_bytes E m (length (events w)) req)
       \<and> length (OUTBOX_META db') \<le> Suc (length (OUTBOX_META db))"
proof -
  let ?k = "request_key req"
  let ?b = "outcome_bytes E m (length (events w)) req"
  obtain db1 where db1: "snd (journal_mark_started E ?k w) =
      w \<lparr> st_db := Some db1, st_txn := Suc (st_txn w) \<rparr>" "db_ok db1"
    "OUTBOX_META db1 = OUTBOX_META db" "OUTBOX_PAYLOAD db1 = OUTBOX_PAYLOAD db"
    "map_of (JOURNAL db1) = (case map_of (JOURNAL db) ?k of None \<Rightarrow> map_of (JOURNAL db)
       | Some r \<Rightarrow> (map_of (JOURNAL db))(?k \<mapsto> r \<lparr> jr_started := True \<rparr>))"
    using journal_mark_started_done[OF assms(2,3), of E ?k] assms(1) by metis
  define w2 where "w2 = record_event (Ran ?k (script_params_of req))
      (w \<lparr> st_db := Some db1, st_txn := Suc (st_txn w) \<rparr>)"
  obtain r3 w3 where c: "complete_entry E ?k s ?b w2 = (r3, w3)" by (cases "complete_entry E ?k s ?b w2")
  have w2: "st_db w2 = Some db1" by (simp add: w2_def record_event_def)
  obtain db3 where db3: "r3 = Ok ()" "st_db w3 = Some db3" "db_ok db3"
    "map_of (JOURNAL db3) = (map_of (JOURNAL db1))(?k := None)"
    "length (OUTBOX_META db1) < OUTBOX_MAX_ENTRIES \<Longrightarrow>
       map_of (OUTBOX_PAYLOAD db3) = (map_of (OUTBOX_PAYLOAD db1))(?k \<mapsto> ?b)"
    "length (OUTBOX_META db1) < OUTBOX_MAX_ENTRIES \<Longrightarrow>
       length (OUTBOX_META db3) \<le> Suc (length (OUTBOX_META db1))"
    using complete_entry_journal[OF w2 db1(2) _ c] assms(1) by metis
  have run: "run_durable E req m s w = record_event FlushNotified w3"
    using c db3(1) by (simp add: run_durable_def db1(1) execute_def Let_def w2_def
        outcome_bytes_def record_event_def)
  have same: "events w3 = events w2" "delivered w3 = delivered w2"
    using more_fields[OF complete_entry_more[OF c]] by simp_all
  have j: "map_of (JOURNAL db3) = (map_of (JOURNAL db))(?k := None)"
    using db3(4) db1(5) by (auto split: option.splits simp: fun_eq_iff)
  show thesis
    by (rule that[of db3])
      (use run same j db3 db1(3,4) in \<open>simp_all add: record_event_def w2_def\<close>)
qed

lemma durable_loop_done:
  assumes "\<forall>n. \<not> db_fails E n" "st_db w = Some db" "db_ok db"
  shows "\<exists>db'. st_db (durable_loop E reqs m s w) = Some db' \<and> db_ok db'
    \<and> map_of (JOURNAL db') = map_of (JOURNAL db) |` (- set (map request_key reqs))
    \<and> events (durable_loop E reqs m s w) = events w @
        concat (map (\<lambda>r. [Ran (request_key r) (script_params_of r), FlushNotified]) reqs)
    \<and> delivered (durable_loop E reqs m s w) = delivered w
    \<and> (length (OUTBOX_META db) + length reqs \<le> OUTBOX_MAX_ENTRIES \<longrightarrow> distinct (map request_key reqs) \<longrightarrow>
        (\<forall>i < length reqs. map_of (OUTBOX_PAYLOAD db') (request_key (reqs ! i)) =
           Some (outcome_bytes E m (length (events w) + 2 * i) (reqs ! i)))
        \<and> (\<forall>k. k \<notin> set (map request_key reqs) \<longrightarrow>
             map_of (OUTBOX_PAYLOAD db') k = map_of (OUTBOX_PAYLOAD db) k))"
  using assms(2,3)
proof (induction reqs arbitrary: w db)
  case Nil
  then show ?case by auto
next
  case (Cons req reqs)
  define w1 where "w1 = run_durable E req m s w"
  obtain db1 where db1: "st_db w1 = Some db1" "db_ok db1"
    "map_of (JOURNAL db1) = (map_of (JOURNAL db))(request_key req := None)"
    "events w1 = events w @ [Ran (request_key req) (script_params_of req), FlushNotified]"
    "delivered w1 = delivered w"
    "length (OUTBOX_META db) < OUTBOX_MAX_ENTRIES \<Longrightarrow> map_of (OUTBOX_PAYLOAD db1) =
       (map_of (OUTBOX_PAYLOAD db))(request_key req \<mapsto> outcome_bytes E m (length (events w)) req)
       \<and> length (OUTBOX_META db1) \<le> Suc (length (OUTBOX_META db))"
    unfolding w1_def by (rule run_durable_done[OF assms(1) Cons.prems]) blast
  obtain db' where IH: "st_db (durable_loop E reqs m s w1) = Some db'" "db_ok db'"
    "map_of (JOURNAL db') = map_of (JOURNAL db1) |` (- set (map request_key reqs))"
    "events (durable_loop E reqs m s w1) = events w1 @
       concat (map (\<lambda>r. [Ran (request_key r) (script_params_of r), FlushNotified]) reqs)"
    "delivered (durable_loop E reqs m s w1) = delivered w1"
    and pay: "length (OUTBOX_META db1) + length reqs \<le> OUTBOX_MAX_ENTRIES \<Longrightarrow>
      distinct (map request_key reqs) \<Longrightarrow>
        (\<forall>i < length reqs. map_of (OUTBOX_PAYLOAD db') (request_key (reqs ! i)) =
           Some (outcome_bytes E m (length (events w1) + 2 * i) (reqs ! i)))
        \<and> (\<forall>k. k \<notin> set (map request_key reqs) \<longrightarrow>
             map_of (OUTBOX_PAYLOAD db') k = map_of (OUTBOX_PAYLOAD db1) k)"
    using Cons.IH[OF db1(1,2)] by blast
  have "(\<forall>i < length (req # reqs). map_of (OUTBOX_PAYLOAD db') (request_key ((req # reqs) ! i)) =
           Some (outcome_bytes E m (length (events w) + 2 * i) ((req # reqs) ! i)))
        \<and> (\<forall>k. k \<notin> set (map request_key (req # reqs)) \<longrightarrow>
             map_of (OUTBOX_PAYLOAD db') k = map_of (OUTBOX_PAYLOAD db) k)"
    if small: "length (OUTBOX_META db) + length (req # reqs) \<le> OUTBOX_MAX_ENTRIES"
      and dist: "distinct (map request_key (req # reqs))"
  proof -
    have p1: "map_of (OUTBOX_PAYLOAD db1) =
       (map_of (OUTBOX_PAYLOAD db))(request_key req \<mapsto> outcome_bytes E m (length (events w)) req)"
      and l1: "length (OUTBOX_META db1) + length reqs \<le> OUTBOX_MAX_ENTRIES"
      using db1(6) small by auto
    have p2: "map_of (OUTBOX_PAYLOAD db') (request_key (reqs ! i)) =
           Some (outcome_bytes E m (length (events w) + 2 * Suc i) (reqs ! i))" if "i < length reqs" for i
      using pay[OF l1] dist that db1(4) by simp
    have p3: "map_of (OUTBOX_PAYLOAD db') k = map_of (OUTBOX_PAYLOAD db1) k"
      if "k \<notin> set (map request_key reqs)" for k
      using pay[OF l1] dist that by simp
    show ?thesis
    proof (intro conjI allI impI)
      fix i assume i: "i < length (req # reqs)"
      show "map_of (OUTBOX_PAYLOAD db') (request_key ((req # reqs) ! i)) =
           Some (outcome_bytes E m (length (events w) + 2 * i) ((req # reqs) ! i))"
        using i p1 p2 p3[of "request_key req"] dist by (cases i) auto
    next
      fix k assume "k \<notin> set (map request_key (req # reqs))"
      then show "map_of (OUTBOX_PAYLOAD db') k = map_of (OUTBOX_PAYLOAD db) k"
        using p1 p3[of k] by simp
    qed
  qed
  moreover have "map_of (JOURNAL db') = map_of (JOURNAL db) |` (- set (map request_key (req # reqs)))"
    using IH(3) db1(3) by (auto simp: restrict_map_def fun_eq_iff)
  ultimately show ?case
    using IH(1,2,4,5) db1(4,5) by (simp add: w1_def)
qed

lemma batch_records_keys: "fst ` set (batch_records reqs m s now) = set (map request_key reqs)"
  by (force simp: batch_records_def)

lemma batch_not_in_journal:
  assumes "\<not> journal_contains_batch j i" "\<forall>r \<in> set reqs. rq_execution_id r = i"
  shows "set (map request_key reqs) \<inter> dom (map_of j) = {}"
  using assms entry_key_in_batch[of i]
  by (auto simp: contains_batch_iff request_key_def map_of_keys[symmetric] image_iff) (metis fst_conv)+

lemma map_of_put_all_restrict:
  "tab_ok j \<Longrightarrow> k \<notin> fst ` set kvs \<Longrightarrow>
   map_of (fold (\<lambda>(k, r). tab_insert k r) kvs j) k = map_of j k"
  by (induction kvs arbitrary: j) (auto simp: tab.ok_put tab.get_put)

text \<open>C5. On a working database a new batch is carried through: every script runs once, in order,
  after which the flusher is woken; nothing is published directly; the journal is back to what it
  was; and, when the outbox has room and the scripts are distinct, the outbox gains exactly the
  encoded outcome of each script under its own key.\<close>

theorem handle_durable_complete:
  assumes "\<forall>n. \<not> db_fails E n" "st_db w = Some db" "db_ok db"
    and "\<not> journal_contains_batch (JOURNAL db) i" "\<forall>r \<in> set reqs. rq_execution_id r = i"
  shows "\<exists>db'. st_db (handle_durable E reqs m s i w) = Some db' \<and> db_ok db'
    \<and> map_of (JOURNAL db') = map_of (JOURNAL db)
    \<and> events (handle_durable E reqs m s i w) = events w @ FlushNotified #
        concat (map (\<lambda>r. [Ran (request_key r) (script_params_of r), FlushNotified]) reqs)
    \<and> delivered (handle_durable E reqs m s i w) = delivered w
    \<and> (length (OUTBOX_META db) + length reqs \<le> OUTBOX_MAX_ENTRIES \<longrightarrow> distinct (map request_key reqs) \<longrightarrow>
        (\<forall>n < length reqs. map_of (OUTBOX_PAYLOAD db') (request_key (reqs ! n)) =
           Some (outcome_bytes E m (Suc (length (events w)) + 2 * n) (reqs ! n)))
        \<and> (\<forall>k. k \<notin> set (map request_key reqs) \<longrightarrow>
             map_of (OUTBOX_PAYLOAD db') k = map_of (OUTBOX_PAYLOAD db) k))"
proof -
  let ?rs = "batch_records reqs m s (clock E (st_txn w))"
  define j where "j = fold (\<lambda>(k, r). tab_insert k r) ?rs (JOURNAL db)"
  define w1 where "w1 = record_event FlushNotified
     (w \<lparr> st_db := Some (db \<lparr> JOURNAL := j \<rparr>), st_txn := Suc (st_txn w) \<rparr>)"
  have h: "handle_durable E reqs m s i w = durable_loop E reqs m s w1"
    using assms(1,2,4) by (simp add: handle_durable_def journal_batch_def store_simps w1_def j_def)
  have ok: "db_ok (db \<lparr> JOURNAL := j \<rparr>)"
    using db_ok_parts(1)[OF assms(3)] unfolding j_def
    by (intro db_ok_journal tab_get_fold_insert_ok assms(3))
  have w1: "st_db w1 = Some (db \<lparr> JOURNAL := j \<rparr>)" "events w1 = events w @ [FlushNotified]"
    "delivered w1 = delivered w"
    by (simp_all add: w1_def record_event_def)
  have same_journal: "map_of j |` (- set (map request_key reqs)) = map_of (JOURNAL db)"
  proof
    fix k
    show "(map_of j |` (- set (map request_key reqs))) k = map_of (JOURNAL db) k"
    proof (cases "k \<in> set (map request_key reqs)")
      case True
      then have "k \<notin> dom (map_of (JOURNAL db))"
        using batch_not_in_journal[OF assms(4,5)] by blast
      then show ?thesis using True by (simp add: restrict_map_def domIff)
    next
      case False
      then show ?thesis
        using map_of_put_all_restrict[OF db_ok_parts(1)[OF assms(3)], of k ?rs]
        by (simp add: batch_records_keys j_def)
    qed
  qed
  show ?thesis
    using durable_loop_done[OF assms(1) w1(1) ok, of reqs m s] same_journal w1(2,3)
    unfolding h by simp
qed

definition sample_request :: "string \<Rightarrow> execution_request" where
  "sample_request sid =
    \<lparr> rq_execution_id = ''e1'', rq_code = ''echo hi'', rq_shell = Bash, rq_privilege = Admin,
      rq_args = [], rq_timeout_secs = 0, rq_env_vars = [], rq_script_id = Some sid,
      rq_schedule_id = Some ''sch'' \<rparr>"

definition sample_exec_env :: exec_env where
  "sample_exec_env =
    \<lparr> db_fails = (\<lambda>_. False), clock = (\<lambda>n. n), to_vec = (\<lambda>r. rr_stdout r),
      publish_raw = (\<lambda>_ _ _. Published),
      execute_script = (\<lambda>n p. \<lparr> er_stdout = ''hi'', er_stderr = [], er_retcode = 0, er_timed_out = False \<rparr>),
      elapsed_ms = (\<lambda>_. 3) \<rparr>"

definition sample_exec :: "database option \<Rightarrow> exec_state" where
  "sample_exec db = \<lparr> st_db = db, st_txn = 0, attempts = 0, delivered = [], events = [] \<rparr>"

lemma handle_durable_complete_witness:
  "\<exists>db'. st_db (handle_durable sample_exec_env [sample_request ''s1'', sample_request ''s2'']
        ''m'' ''subj'' ''e1'' (sample_exec (Some sample_db))) = Some db'
     \<and> map_of (JOURNAL db') = map_of (JOURNAL sample_db)
     \<and> map_of (OUTBOX_PAYLOAD db') ''e1:s2'' = Some ''hi''"
proof -
  let ?reqs = "[sample_request ''s1'', sample_request ''s2'']"
  have pre: "\<not> journal_contains_batch (JOURNAL sample_db) ''e1''"
    "length (OUTBOX_META sample_db) + length ?reqs \<le> OUTBOX_MAX_ENTRIES"
    by (simp_all add: sample_db_def journal_contains_batch_def OUTBOX_MAX_ENTRIES_def)
  have keys: "request_key (sample_request ''s1'') = ''e1:s1''" "request_key (sample_request ''s2'') = ''e1:s2''"
    by (simp_all add: request_key_def sample_request_def entry_key_def)
  have env: "\<forall>n. \<not> db_fails sample_exec_env n" by (simp add: sample_exec_env_def)
  have bytes: "outcome_bytes sample_exec_env ''m'' n (sample_request ''s2'') = ''hi''" for n
    by (simp add: outcome_bytes_def result_of_def sample_exec_env_def encode_result_def
        OUTBOX_MAX_PAYLOAD_BYTES_def)
  have ids: "\<forall>r \<in> set ?reqs. rq_execution_id r = ''e1''" by (simp add: sample_request_def)
  have st: "st_db (sample_exec (Some sample_db)) = Some sample_db" by (simp add: sample_exec_def)
  show ?thesis
    using handle_durable_complete[OF env st sample_db_ok pre(1) ids, of "''m''" "''subj''"] pre(2)
    by (auto simp: keys bytes less_Suc_eq)
qed

end
