(* ===== verification/Delivery.thy ===== *)
theory Delivery
  imports Execution "HOL-Library.Multiset"
begin

text \<open>The life of an accepted script across interleavings and crashes. Batches run concurrently,
  each one sequentially; the flusher runs beside them; a crash loses every task and the flusher's
  position but keeps the database; at boot the journal is recovered before any batch is accepted.
  The steps are the database transactions, the script run and the publishes of the listener, the
  flusher and the recovery; the environment decides the outcome of each. Sequences of the steps of
  one task, and of one flusher entry, are shown to be the operations of the components.\<close>

section \<open>One batch as steps\<close>

datatype phase = Starting | Started | Finished rmm_result | Unsaved rmm_result | Clearing

record task =
  tk_subject :: string
  tk_machine :: string
  tk_todo :: "execution_request list"
  tk_phase :: phase

definition next_request :: "task \<Rightarrow> task" where
  "next_request t = t \<lparr> tk_todo := tl (tk_todo t), tk_phase := Starting \<rparr>"

definition task_step ::
  "'e exec_env_scheme \<Rightarrow> task \<times> 'w exec_state_scheme \<Rightarrow> task \<times> 'w exec_state_scheme" where
  "task_step E tw =
    (case tw of (t, w) \<Rightarrow>
      (case tk_todo t of
         [] \<Rightarrow> (t, w)
       | req # rest \<Rightarrow>
         (case tk_phase t of
            Starting \<Rightarrow>
              (t \<lparr> tk_phase := Started \<rparr>, snd (journal_mark_started E (request_key req) w))
          | Started \<Rightarrow>
              (case execute E req (tk_machine t) w of
                 (result, w1) \<Rightarrow> (t \<lparr> tk_phase := Finished result \<rparr>, w1))
          | Finished result \<Rightarrow>
              (case complete_entry E (request_key req) (tk_subject t)
                      (encode_result (to_vec E) result) w of
                 (Inl e, w1) \<Rightarrow> (t \<lparr> tk_phase := Unsaved result \<rparr>, w1)
               | (Inr _, w1) \<Rightarrow> (next_request t, record_event FlushNotified w1))
          | Unsaved result \<Rightarrow>
              (case publish_result E (tk_subject t) result w of
                 (sent, w1) \<Rightarrow>
                   if sent then (t \<lparr> tk_phase := Clearing \<rparr>, w1) else (next_request t, w1))
          | Clearing \<Rightarrow>
              (next_request t, snd (journal_remove E (request_key req) w)))))"

lemma task_step_simps [simp]:
  "tk_todo t = [] \<Longrightarrow> task_step E (t, w) = (t, w)"
  "tk_todo t = req # rest \<Longrightarrow> tk_phase t = Starting \<Longrightarrow> task_step E (t, w) =
     (t \<lparr> tk_phase := Started \<rparr>, snd (journal_mark_started E (request_key req) w))"
  by (simp_all add: task_step_def)

text \<open>The sequential code of a batch is the composition of the steps: from the start of a batch
  at most five steps per request, taken without interleaving, reach the end of the batch in
  exactly the state the listener's loop computes.\<close>

theorem durable_loop_steps:
  "\<exists>n \<le> 5 * length reqs.
     (task_step E ^^ n) (\<lparr> tk_subject = s, tk_machine = m, tk_todo = reqs, tk_phase = Starting \<rparr>, w) =
       (\<lparr> tk_subject = s, tk_machine = m, tk_todo = [], tk_phase = Starting \<rparr>,
        durable_loop E reqs m s w)"
proof (induction reqs arbitrary: w)
  case Nil
  then show ?case by (intro exI[of _ 0]) simp
next
  case (Cons req reqs)
  let ?t = "\<lambda>ph. \<lparr> tk_subject = s, tk_machine = m, tk_todo = req # reqs, tk_phase = ph \<rparr>"
  let ?k = "request_key req"
  let ?fin = "(\<lparr> tk_subject = s, tk_machine = m, tk_todo = reqs, tk_phase = Starting \<rparr>,
    run_durable E req m s w)"
  obtain w1 where w1: "snd (journal_mark_started E ?k w) = w1" by blast
  obtain result w2 where e: "execute E req m w1 = (result, w2)" by (cases "execute E req m w1")
  let ?b = "encode_result (to_vec E) result"
  obtain r3 w3 where c: "complete_entry E ?k s ?b w2 = (r3, w3)" by (cases "complete_entry E ?k s ?b w2")
  obtain sent w4 where p: "publish_result E s result w3 = (sent, w4)"
    by (cases "publish_result E s result w3")
  have three: "(task_step E ^^ 3) (?t Starting, w) =
      task_step E (?t (Finished result), w2)"
    by (simp add: numeral_3_eq_3 task_step_def w1 e)
  have "\<exists>n \<le> 5. (task_step E ^^ n) (?t Starting, w) = ?fin"
  proof (cases r3)
    case (Inr u)
    have "(task_step E ^^ 3) (?t Starting, w) = ?fin"
      unfolding three using Inr
      by (simp add: task_step_def c run_durable_def Let_def w1 e next_request_def)
    then show ?thesis by (intro exI[of _ 3]) simp
  next
    case (Inl er)
    have three': "(task_step E ^^ 3) (?t Starting, w) = (?t (Unsaved result), w3)"
      unfolding three using Inl by (simp add: task_step_def c)
    have four: "(task_step E ^^ 4) (?t Starting, w) = task_step E (?t (Unsaved result), w3)"
      using three' by (simp add: eval_nat_numeral)
    show ?thesis
    proof (cases sent)
      case False
      have "(task_step E ^^ 4) (?t Starting, w) = ?fin"
        unfolding four using Inl False
        by (simp add: task_step_def c p run_durable_def Let_def w1 e next_request_def)
      then show ?thesis by (intro exI[of _ 4]) simp
    next
      case True
      have "(task_step E ^^ 5) (?t Starting, w) = task_step E (?t Clearing, w4)"
        using four True p by (simp add: eval_nat_numeral task_step_def)
      also have "\<dots> = ?fin"
        using Inl True by (simp add: task_step_def c p run_durable_def Let_def w1 e next_request_def)
      finally show ?thesis by (intro exI[of _ 5]) simp
    qed
  qed
  then obtain n1 where n1: "n1 \<le> 5" "(task_step E ^^ n1) (?t Starting, w) = ?fin" by blast
  obtain n2 where n2: "n2 \<le> 5 * length reqs" "(task_step E ^^ n2) ?fin =
     (\<lparr> tk_subject = s, tk_machine = m, tk_todo = [], tk_phase = Starting \<rparr>,
      durable_loop E reqs m s (run_durable E req m s w))"
    using Cons.IH by blast
  have "(task_step E ^^ (n2 + n1)) (?t Starting, w) =
     (\<lparr> tk_subject = s, tk_machine = m, tk_todo = [], tk_phase = Starting \<rparr>,
      durable_loop E (req # reqs) m s w)"
    using n1(2) n2(2) by (simp add: funpow_add)
  moreover have "n2 + n1 \<le> 5 * length (req # reqs)" using n1(1) n2(1) by simp
  ultimately show ?case by blast
qed


section \<open>One flusher entry as steps\<close>

datatype flush_decision = GoOn | Stop | RemoveIt

definition flush_send ::
  "'e net_env_scheme \<Rightarrow> string \<times> string \<Rightarrow> 'w net_state_scheme \<Rightarrow>
   flush_decision \<times> 'w net_state_scheme" where
  "flush_send E ks w =
    (case ks of (key, subject) \<Rightarrow>
      (case load_payload E key w of
         (Inl e, w1) \<Rightarrow> (Stop, w1)
       | (Inr None, w1) \<Rightarrow> (RemoveIt, w1)
       | (Inr (Some bytes), w1) \<Rightarrow>
           if OUTBOX_MAX_PAYLOAD_BYTES < length bytes then (GoOn, w1)
           else (case publish E subject bytes w1 of
               (Published, w2) \<Rightarrow> (RemoveIt, w2)
             | (_, w2) \<Rightarrow> (Stop, w2))))"

lemma flush_one_steps:
  "flush_one E ks w =
    (case flush_send E ks w of
       (GoOn, w1) \<Rightarrow> (True, w1)
     | (Stop, w1) \<Rightarrow> (False, w1)
     | (RemoveIt, w1) \<Rightarrow> (True, snd (outbox_remove E (fst ks) w1)))"
  by (auto simp: flush_one_def flush_send_def split: prod.split sum.split option.split
      publish_outcome.split)



section \<open>What pruning may drop\<close>

text \<open>Specified on the contents before a completion: pruning may drop an entry only when at least
  OUTBOX\_MAX\_ENTRIES of the entries, the new one included, come after it in the order of
  creation second, then key.\<close>

definition older :: "string \<times> nat \<Rightarrow> string \<times> nat \<Rightarrow> bool" where
  "older e e' = (snd e < snd e' \<or> snd e = snd e' \<and> fst e < fst e')"

definition dropped_over_cap :: "string \<Rightarrow> nat \<Rightarrow> 'w store_state_scheme \<Rightarrow> string set" where
  "dropped_over_cap key now w =
    (case st_db w of
       None \<Rightarrow> {}
     | Some db \<Rightarrow>
         let entries = (key, now) # [(k, om_created_at_secs m). (k, m) \<leftarrow> OUTBOX_META db, k \<noteq> key] in
         set [fst e. e \<leftarrow> entries, OUTBOX_MAX_ENTRIES \<le> length (filter (older e) entries)])"

lemma insort_older:
  "sorted_wrt older es \<Longrightarrow> \<forall>e \<in> set es. fst x < fst e \<Longrightarrow> sorted_wrt older (insort_key snd x es)"
  by (induction es) (auto simp: older_def set_insort_key)

lemma sort_key_older:
  "sorted_wrt (<) (map fst es) \<Longrightarrow> sorted_wrt older (sort_key snd (es :: (string \<times> nat) list))"
  by (induction es) (auto intro!: insort_older)

lemma taken_is_oldest:
  assumes "sorted_wrt older es" "e \<in> set (take (length es - n) es)"
  shows "n \<le> length (filter (older e) es)"
proof -
  obtain i where i: "i < length es - n" "e = es ! i"
    using assms(2) by (auto simp: in_set_conv_nth)
  have "\<forall>e' \<in> set (drop (Suc i) es). older e e'"
  proof
    fix e' assume "e' \<in> set (drop (Suc i) es)"
    then obtain j where "j < length es - Suc i" "e' = es ! (Suc i + j)"
      using i(1) by (auto simp: in_set_conv_nth)
    then show "older e e'"
      using sorted_wrt_nth_less[OF assms(1), of i "Suc i + j"] i(2) by simp
  qed
  then have "filter (older e) (drop (Suc i) es) = drop (Suc i) es" by simp
  then have "length es - Suc i \<le> length (filter (older e) es)"
    by (metis append_take_drop_id filter_append le_add2 length_append length_drop)
  then show ?thesis using i(1) by linarith
qed

lemma same_count: "mset es = mset es' \<Longrightarrow> length (filter P es) = length (filter P es')"
  by (metis mset_filter size_mset)

lemma prune_victims_older:
  assumes "tab_ok meta" "k \<in> set (prune_victims n meta)"
  shows "\<exists>m. map_of meta k = Some m \<and>
    n \<le> length (filter (older (k, om_created_at_secs m)) (map (\<lambda>(k, m). (k, om_created_at_secs m)) meta))"
proof -
  let ?es = "map (\<lambda>(k, m). (k, om_created_at_secs m)) meta"
  have "sorted_wrt older (sort_key snd ?es)"
    using assms(1) by (intro sort_key_older) (simp add: tab_ok_def comp_def case_prod_beta)
  moreover obtain c where c: "(k, c) \<in> set (take (length meta - n) (sort_key snd ?es))"
    using assms(2) by (auto simp: prune_victims_def)
  ultimately have "n \<le> length (filter (older (k, c)) (sort_key snd ?es))"
    using taken_is_oldest[of "sort_key snd ?es" "(k, c)" n] by simp
  then have n: "n \<le> length (filter (older (k, c)) ?es)"
    by (simp add: same_count[OF mset_sort])
  have "(k, c) \<in> set ?es" using in_set_takeD[OF c] by simp
  then show ?thesis using n tab_mem_iff[OF assms(1)] by force
qed

lemma tab_insert_mset:
  assumes "tab_ok t"
  shows "mset (tab_insert k v t) = mset ((k, v) # filter (\<lambda>(k', _). k' \<noteq> k) t)"
proof -
  have "distinct (tab_insert k v t)" "distinct t"
    using tab_ok_distinct[OF tab_ok_insert[OF assms]] tab_ok_distinct[OF assms]
    by (auto simp: distinct_map)
  moreover have "set (tab_insert k v t) = set ((k, v) # filter (\<lambda>(k', _). k' \<noteq> k) t)"
    using tab_mem_iff[OF tab_ok_insert[OF assms]] tab_mem_iff[OF assms]
    by (auto simp: tab_get_insert[OF assms] split: if_splits)
  ultimately show ?thesis
    by (subst set_eq_iff_mset_eq_distinct[symmetric]) auto
qed

lemma entries_filter:
  "map (\<lambda>(k, m). (k, om_created_at_secs m)) (filter (\<lambda>(k', _). k' \<noteq> k) t) =
   [(k', om_created_at_secs m). (k', m) \<leftarrow> t, k' \<noteq> k]"
  by (induction t) auto

lemma listed_memI: "e \<in> set es \<Longrightarrow> P e \<Longrightarrow> fst e \<in> set [fst e. e \<leftarrow> es, P e]"
  by auto

lemma dropped_memI:
  assumes "st_db w = Some db"
    and m: "mset ((k, now) # [(k', om_created_at_secs m). (k', m) \<leftarrow> OUTBOX_META db, k' \<noteq> k]) =
      mset (map (\<lambda>(k, m). (k, om_created_at_secs m)) t)"
    and x: "\<exists>m. map_of t x = Some m \<and> OUTBOX_MAX_ENTRIES \<le>
      length (filter (older (x, om_created_at_secs m)) (map (\<lambda>(k, m). (k, om_created_at_secs m)) t))"
  shows "x \<in> dropped_over_cap k now w"
proof -
  let ?es = "(k, now) # [(k', om_created_at_secs m). (k', m) \<leftarrow> OUTBOX_META db, k' \<noteq> k]"
  obtain m where mx: "map_of t x = Some m" "OUTBOX_MAX_ENTRIES \<le>
      length (filter (older (x, om_created_at_secs m)) (map (\<lambda>(k, m). (k, om_created_at_secs m)) t))"
    using x by (elim exE conjE)
  have "(x, om_created_at_secs m) \<in> set (map (\<lambda>(k, m). (k, om_created_at_secs m)) t)"
    using map_of_SomeD[OF mx(1)] by force
  then have e: "(x, om_created_at_secs m) \<in> set ?es"
    by (simp only: mset_eq_setD[OF m])
  have n: "OUTBOX_MAX_ENTRIES \<le> length (filter (older (x, om_created_at_secs m)) ?es)"
    using mx(2) by (simp only: same_count[OF m])
  have d: "dropped_over_cap k now w =
      set [fst e. e \<leftarrow> ?es, OUTBOX_MAX_ENTRIES \<le> length (filter (older e) ?es)]"
    by (simp only: dropped_over_cap_def assms(1) option.case Let_def)
  show ?thesis
    unfolding d using listed_memI[where es = ?es and e = "(x, om_created_at_secs m)"
        and P = "\<lambda>e. OUTBOX_MAX_ENTRIES \<le> length (filter (older e) ?es)", OF e n]
    by (simp only: fst_conv)
qed

lemma complete_entry_keeps:
  assumes c: "complete_entry E k su b w = (r, w')" "store_ok w" "is_ok r"
  shows "insert k (outbox_keys w) \<subseteq> outbox_keys w' \<union> dropped_over_cap k (clock E (st_txn w)) w"
  using c(1)
proof (cases rule: complete_entry_cases)
  case (Done db)
  have ok: "db_ok db" using Done(1) c(2) by (simp add: store_ok_def)
  let ?m = "\<lparr> om_subject = su, om_created_at_secs = clock E (st_txn w) \<rparr>"
  let ?db = "complete_db k ?m b db"
  let ?w1 = "completed E k su b db w"
  have ok1: "db_ok ?db" by (rule complete_db_ok[OF ok])
  have w1: "st_db ?w1 = Some ?db" by (simp add: completed_def)
  have keys1: "outbox_keys ?w1 = insert k (outbox_keys w)" by (rule completed_keys(2)[OF Done(1) ok])
  show ?thesis
  proof (cases "db_fails E (st_txn ?w1)")
    case True
    then have "outbox_keys w' = outbox_keys ?w1"
      using Done(4) w1 by (simp add: prune_over_cap_def prune_oldest_def with_db_failed outbox_keys_def)
    then show ?thesis using keys1 by blast
  next
    case False
    let ?v = "prune_victims OUTBOX_MAX_ENTRIES (OUTBOX_META ?db)"
    obtain db2 where db2: "prune_oldest E OUTBOX_MAX_ENTRIES ?w1 =
         (Ok (length (OUTBOX_META ?db) - OUTBOX_MAX_ENTRIES),
          ?w1 \<lparr> st_db := Some db2, st_txn := Suc (st_txn ?w1) \<rparr>)"
        "OUTBOX_META db2 = fold tab_remove ?v (OUTBOX_META ?db)"
      using prune_oldest_done[OF w1 False ok1] by metis
    have "outbox_keys w' = outbox_keys ?w1 - set ?v"
      using Done(4) db2 w1 ok1
      by (auto simp: prune_over_cap_def outbox_keys_def tab.get_del_all db_ok_parts split: if_splits)
    moreover have "set ?v \<subseteq> dropped_over_cap k (clock E (st_txn w)) w"
    proof
      fix x assume x: "x \<in> set ?v"
      let ?f = "\<lambda>(k, m). (k, om_created_at_secs m)"
      let ?es = "(k, clock E (st_txn w)) # [(k', om_created_at_secs m). (k', m) \<leftarrow> OUTBOX_META db, k' \<noteq> k]"
      have "mset (OUTBOX_META ?db) = mset ((k, ?m) # filter (\<lambda>(k', _). k' \<noteq> k) (OUTBOX_META db))"
        using tab_insert_mset[of "OUTBOX_META db" k ?m] ok by (simp add: complete_db_def db_ok_parts)
      then have "mset (map ?f (OUTBOX_META ?db)) =
          mset (map ?f ((k, ?m) # filter (\<lambda>(k', _). k' \<noteq> k) (OUTBOX_META db)))"
        by (simp only: mset_map)
      moreover have "map ?f ((k, ?m) # filter (\<lambda>(k', _). k' \<noteq> k) (OUTBOX_META db)) = ?es"
        by (simp add: entries_filter)
      ultimately have mset: "mset (map ?f (OUTBOX_META ?db)) = mset ?es" by (simp only:)
      show "x \<in> dropped_over_cap k (clock E (st_txn w)) w"
      proof (rule dropped_memI[OF Done(1) mset[symmetric]])
        show "\<exists>m. map_of (OUTBOX_META ?db) x = Some m \<and> OUTBOX_MAX_ENTRIES \<le>
            length (filter (older (x, om_created_at_secs m)) (map ?f (OUTBOX_META ?db)))"
          by (rule prune_victims_older[OF db_ok_parts(2)[OF ok1] x])
      qed
    qed
    ultimately show ?thesis using keys1 by auto
  qed
qed (use c(3) in auto)


section \<open>The agent's steps\<close>

text \<open>Besides the database and the volatile state, four sets of keys record the past: the keys of
  accepted batches, the keys whose result was acknowledged, the keys dropped by pruning, and the
  keys whose script ran since its batch was accepted.\<close>

record node =
  nd_world :: exec_state
  nd_tasks :: "task list"
  nd_pending :: "(string \<times> string) list"
  nd_removing :: "string option"
  nd_recovering :: "(string \<times> journal_record) list"
  nd_up :: bool
  g_accepted :: "string set"
  g_delivered :: "string set"
  g_dropped :: "string set"
  g_ran :: "string set"

text \<open>What one task step adds to the history.\<close>

definition task_history ::
  "exec_env \<Rightarrow> task \<Rightarrow> exec_state \<Rightarrow> task \<Rightarrow> node \<Rightarrow> node" where
  "task_history E t w t' s =
    (case tk_todo t of
       [] \<Rightarrow> s
     | req # _ \<Rightarrow>
         (case tk_phase t of
            Started \<Rightarrow> s \<lparr> g_ran := insert (request_key req) (g_ran s) \<rparr>
          | Finished _ \<Rightarrow>
              (case tk_phase t' of
                 Unsaved _ \<Rightarrow> s
               | _ \<Rightarrow> s \<lparr> g_dropped := g_dropped s \<union>
                   dropped_over_cap (request_key req) (clock E (st_txn w)) w \<rparr>)
          | Unsaved _ \<Rightarrow>
              (if tk_phase t' = Clearing
               then s \<lparr> g_delivered := insert (request_key req) (g_delivered s) \<rparr> else s)
          | _ \<Rightarrow> s))"

definition accept_batch ::
  "exec_env \<Rightarrow> string \<Rightarrow> string \<Rightarrow> string \<Rightarrow> execution_request list \<Rightarrow> node \<Rightarrow> node" where
  "accept_batch E m subj i reqs s =
    (let w = nd_world s in
     case journal_batch E i (batch_records reqs m subj (clock E (st_txn w))) w of
       (Inr True, w1) \<Rightarrow>
         s \<lparr> nd_world := record_event FlushNotified w1,
             nd_tasks := nd_tasks s @
               [\<lparr> tk_subject = subj, tk_machine = m, tk_todo = reqs, tk_phase = Starting \<rparr>],
             g_accepted := g_accepted s \<union> set (map request_key reqs),
             g_ran := g_ran s - set (map request_key reqs) \<rparr>
     | (Inr False, w1) \<Rightarrow> s \<lparr> nd_world := w1 \<rparr>
     | (Inl e, w1) \<Rightarrow> s \<lparr> nd_world := publish_directly E reqs m subj w1 \<rparr>)"

definition run_task :: "exec_env \<Rightarrow> nat \<Rightarrow> node \<Rightarrow> node" where
  "run_task E i s =
    (let t = nd_tasks s ! i; w = nd_world s in
     case task_step E (t, w) of
       (t', w') \<Rightarrow>
         task_history E t w t' (s \<lparr> nd_world := w', nd_tasks := (nd_tasks s)[i := t'] \<rparr>))"

definition flush_begin :: "exec_env \<Rightarrow> node \<Rightarrow> node" where
  "flush_begin E s =
    (case pending_keys E (nd_world s) of
       (Inl e, w1) \<Rightarrow> s \<lparr> nd_world := w1 \<rparr>
     | (Inr keys, w1) \<Rightarrow> s \<lparr> nd_world := w1, nd_pending := keys \<rparr>)"

definition flush_next :: "exec_env \<Rightarrow> node \<Rightarrow> node" where
  "flush_next E s =
    (case nd_pending s of
       [] \<Rightarrow> s
     | ks # rest \<Rightarrow>
         (case flush_send E ks (nd_world s) of
            (GoOn, w1) \<Rightarrow> s \<lparr> nd_world := w1, nd_pending := rest \<rparr>
          | (Stop, w1) \<Rightarrow> s \<lparr> nd_world := w1, nd_pending := [] \<rparr>
          | (RemoveIt, w1) \<Rightarrow>
              s \<lparr> nd_world := w1, nd_pending := rest, nd_removing := Some (fst ks),
                  g_delivered := (if delivered w1 = delivered (nd_world s) then g_delivered s
                                  else insert (fst ks) (g_delivered s)) \<rparr>))"

definition flush_remove :: "exec_env \<Rightarrow> node \<Rightarrow> node" where
  "flush_remove E s =
    (case nd_removing s of
       None \<Rightarrow> s
     | Some key \<Rightarrow>
         s \<lparr> nd_world := snd (outbox_remove E key (nd_world s)), nd_removing := None \<rparr>)"

definition crash_node :: "node \<Rightarrow> node" where
  "crash_node s = s \<lparr> nd_tasks := [], nd_pending := [], nd_removing := None, nd_recovering := [],
     nd_up := False \<rparr>"

text \<open>Boot reads the journal; recovery completes one record at a time and gives up at the first
  error (which is only logged); then the agent is up.\<close>

definition boot_read :: "exec_env \<Rightarrow> node \<Rightarrow> node" where
  "boot_read E s =
    (case with_db E (\<lambda>db. (JOURNAL db, db)) (nd_world s) of
       (Inl e, w1) \<Rightarrow> s \<lparr> nd_world := w1, nd_up := True \<rparr>
     | (Inr [], w1) \<Rightarrow> s \<lparr> nd_world := w1, nd_up := True \<rparr>
     | (Inr records, w1) \<Rightarrow> s \<lparr> nd_world := w1, nd_recovering := records \<rparr>)"

definition recover_one :: "exec_env \<Rightarrow> node \<Rightarrow> node" where
  "recover_one E s =
    (case nd_recovering s of
       [] \<Rightarrow> s
     | (key, r) # rest \<Rightarrow>
         (case complete_entry E key (jr_subject r)
                 (encode_result (to_vec E) (recovered_result r)) (nd_world s) of
            (Inl e, w1) \<Rightarrow> s \<lparr> nd_world := w1, nd_recovering := [], nd_up := True \<rparr>
          | (Inr _, w1) \<Rightarrow>
              s \<lparr> nd_world := w1, nd_recovering := rest, nd_up := (rest = []),
                  g_dropped := g_dropped s \<union> 
                    dropped_over_cap key (clock E (st_txn (nd_world s))) (nd_world s) \<rparr>))"

inductive node_step :: "exec_env \<Rightarrow> (execution_request list \<Rightarrow> bool) \<Rightarrow> node \<Rightarrow> node \<Rightarrow> bool"
  for E :: exec_env and ok_batch :: "execution_request list \<Rightarrow> bool" where
  accept: "nd_up s \<Longrightarrow> ok_batch reqs \<Longrightarrow> \<forall>r \<in> set reqs. rq_execution_id r = i \<Longrightarrow>
    node_step E ok_batch s (accept_batch E m subj i reqs s)"
| task: "nd_up s \<Longrightarrow> i < length (nd_tasks s) \<Longrightarrow> node_step E ok_batch s (run_task E i s)"
| flush_start: "nd_up s \<Longrightarrow> nd_pending s = [] \<Longrightarrow> nd_removing s = None \<Longrightarrow>
    node_step E ok_batch s (flush_begin E s)"
| flush_entry: "nd_up s \<Longrightarrow> nd_removing s = None \<Longrightarrow> node_step E ok_batch s (flush_next E s)"
| flush_done: "nd_up s \<Longrightarrow> node_step E ok_batch s (flush_remove E s)"
| crash: "node_step E ok_batch s (crash_node s)"
| boot: "\<not> nd_up s \<Longrightarrow> nd_recovering s = [] \<Longrightarrow> node_step E ok_batch s (boot_read E s)"
| recovery: "\<not> nd_up s \<Longrightarrow> node_step E ok_batch s (recover_one E s)"

definition node_init :: "node \<Rightarrow> bool" where
  "node_init s \<longleftrightarrow> store_ok (nd_world s) \<and> nd_tasks s = [] \<and> nd_pending s = [] \<and>
     nd_removing s = None \<and> nd_recovering s = [] \<and> \<not> nd_up s \<and> g_accepted s = {} \<and>
     g_delivered s = {} \<and> g_dropped s = {} \<and> g_ran s = {}"

inductive_cases node_stepE: "node_step E ok_batch s s'"


section \<open>No accepted script is lost\<close>

definition safe_keys :: "node \<Rightarrow> string set" where
  "safe_keys s = journal_keys (nd_world s) \<union> outbox_keys (nd_world s) \<union> g_delivered s \<union> g_dropped s"

definition delivery_inv :: "node \<Rightarrow> bool" where
  "delivery_inv s \<longleftrightarrow> store_ok (nd_world s) \<and> g_accepted s \<subseteq> safe_keys s
    \<and> (\<forall>k. nd_removing s = Some k \<longrightarrow> k \<in> g_delivered s \<union> g_dropped s)
    \<and> (\<forall>t \<in> set (nd_tasks s). tk_phase t = Clearing \<longrightarrow> tk_todo t \<noteq> [] \<longrightarrow>
         request_key (hd (tk_todo t)) \<in> g_delivered s)
    \<and> (\<forall>(k, s') \<in> set (nd_pending s). k \<in> outbox_keys (nd_world s) \<union> g_delivered s \<union> g_dropped s)"


lemma same_db:
  "st_db w' = st_db w \<Longrightarrow>
   store_ok w' = store_ok w \<and> journal_keys w' = journal_keys w \<and> outbox_keys w' = outbox_keys w"
  by (simp add: store_ok_def keys_defs)

lemma record_event_db [simp]: "st_db (record_event e w) = st_db w"
  by (simp add: record_event_def)

lemma publish_result_db [simp]: "st_db (snd (publish_result E s r w)) = st_db w"
  using publish_frame(1)[of E s "to_vec E r" w]
  by (cases "publish E s (to_vec E r) w") (simp add: publish_result_def)

lemma execute_db [simp]: "st_db (snd (execute E req m w)) = st_db w"
  by (simp add: execute_def Let_def)

lemma publish_directly_db [simp]: "st_db (publish_directly E reqs m s w) = st_db w"
proof (induction E reqs m s w rule: publish_directly.induct)
  case (2 E req reqs m s w)
  obtain result w1 where e: "execute E req m w = (result, w1)" by (cases "execute E req m w")
  show ?case using 2[OF e[symmetric]] execute_db[of E req m w] by (simp add: e)
qed simp

lemmas same_keys = same_db[OF record_event_db] same_db[OF publish_result_db]
  same_db[OF execute_db] same_db[OF publish_directly_db]

lemma accept_batch_inv [step_preserves]:
  assumes "delivery_inv s" shows "delivery_inv (accept_batch E m subj i reqs s)"
proof -
  let ?rs = "batch_records reqs m subj (clock E (st_txn (nd_world s)))"
  obtain r w1 where j: "journal_batch E i ?rs (nd_world s) = (r, w1)"
    by (cases "journal_batch E i ?rs (nd_world s)")
  have ok: "store_ok (nd_world s)" using assms by (simp add: delivery_inv_def)
  note k = journal_batch_keys[OF j ok] journal_batch_ok[OF j ok]
  show ?thesis
  proof (cases r)
    case (Inl e)
    then show ?thesis using assms k j
      by (simp add: accept_batch_def delivery_inv_def safe_keys_def same_keys)
  next
    case (Inr b)
    then show ?thesis
      using assms k j batch_records_keys[of reqs m subj "clock E (st_txn (nd_world s))"]
      by (cases b) (auto simp: accept_batch_def delivery_inv_def safe_keys_def same_keys)
  qed
qed

lemma pair_fst_snd: "f x = (a, b) \<Longrightarrow> a = fst (f x) \<and> b = snd (f x)"
  by simp

lemma flush_begin_inv [step_preserves]:
  assumes "delivery_inv s" shows "delivery_inv (flush_begin E s)"
proof -
  obtain r w1 where p: "pending_keys E (nd_world s) = (r, w1)" by (cases "pending_keys E (nd_world s)")
  have ok: "store_ok (nd_world s)" using assms by (simp add: delivery_inv_def)
  note k = read_keys[OF p[unfolded pending_keys_def]] with_db_read_ok[OF p[unfolded pending_keys_def] ok]
  have keys: "\<forall>(k, s') \<in> set ks. k \<in> outbox_keys (nd_world s)" if "r = Ok ks" for ks
    using p that unfolding pending_keys_def
    by (cases rule: with_db_cases) (force simp: outbox_keys_def map_of_keys[symmetric])+
  show ?thesis
    using assms k p keys
    by (cases r) (fastforce simp: flush_begin_def delivery_inv_def safe_keys_def)+
qed

lemma flush_send_frame:
  assumes "flush_send E (k, s) w = (d, w1)" "store_ok w"
  shows "store_ok w1 \<and> journal_keys w1 = journal_keys w \<and> outbox_keys w1 = outbox_keys w
    \<and> (d = RemoveIt \<longrightarrow> delivered w1 = delivered w \<longrightarrow> k \<notin> outbox_keys w)"
proof -
  obtain r w2 where l: "load_payload E k w = (r, w2)" by (cases "load_payload E k w")
  note lk = read_keys[OF l[unfolded load_payload_def]]
    with_db_read_ok[OF l[unfolded load_payload_def] assms(2)]
    with_db_delivered[OF l[unfolded load_payload_def]]
  have none: "k \<notin> outbox_keys w" if "r = Ok None"
    using l that assms(2) unfolding load_payload_def
    by (cases rule: with_db_cases) (auto simp: outbox_keys_def store_ok_def db_ok_def)
  have pub: "st_db w3 = st_db w2 \<and> delivered w3 =
      (if o2 = Published then delivered w2 @ [(s, b)] else delivered w2)"
    if "publish E s b w2 = (o2, w3)" for b o2 w3
    using that publish_frame(1,3)[of E s b w2] publish_delivered[of E s b w2] by simp
  show ?thesis
  proof (cases r)
    case (Inl e)
    then show ?thesis using assms l lk by (auto simp: flush_send_def)
  next
    case (Inr bo)
    show ?thesis
    proof (cases bo)
      case None
      then show ?thesis using assms l lk none Inr by (auto simp: flush_send_def)
    next
      case (Some b)
      obtain o2 w3 where p: "publish E s b w2 = (o2, w3)" by (cases "publish E s b w2")
      note pp = pub[OF p] and db = same_db[of w3 w2]
      show ?thesis
        using assms(1) l lk Inr Some p pp db
        by (cases o2) (auto simp: flush_send_def split: if_splits)
    qed
  qed
qed

lemma flush_next_inv [step_preserves]:
  assumes "delivery_inv s" shows "delivery_inv (flush_next E s)"
proof (cases "nd_pending s")
  case Nil
  then show ?thesis using assms by (simp add: flush_next_def)
next
  case (Cons ks rest)
  obtain k su where ks: "ks = (k, su)" by (cases ks)
  obtain d w1 where f: "flush_send E (k, su) (nd_world s) = (d, w1)"
    by (cases "flush_send E (k, su) (nd_world s)")
  have ok: "store_ok (nd_world s)" using assms by (simp add: delivery_inv_def)
  note fr = flush_send_frame[OF f ok]
  show ?thesis
    using assms fr f Cons ks
    by (cases d) (auto simp: flush_next_def delivery_inv_def safe_keys_def)
qed

lemma flush_remove_inv [step_preserves]:
  assumes "delivery_inv s" shows "delivery_inv (flush_remove E s)"
proof (cases "nd_removing s")
  case None
  then show ?thesis using assms by (simp add: flush_remove_def)
next
  case (Some k)
  obtain r w1 where o1: "outbox_remove E k (nd_world s) = (r, w1)" by (cases "outbox_remove E k (nd_world s)")
  have ok: "store_ok (nd_world s)" and k: "k \<in> g_delivered s \<union> g_dropped s"
    using assms Some by (simp_all add: delivery_inv_def)
  note fr = outbox_remove_keys[OF o1 ok] outbox_remove_ok[OF o1 ok]
  show ?thesis
    using assms fr k o1 Some
    by (fastforce simp: flush_remove_def delivery_inv_def safe_keys_def split: if_splits)
qed

lemma crash_inv [step_preserves]:
  assumes "delivery_inv s" shows "delivery_inv (crash_node s)"
  using assms by (auto simp: crash_node_def delivery_inv_def safe_keys_def)

lemma boot_read_inv [step_preserves]:
  assumes "delivery_inv s" shows "delivery_inv (boot_read E s)"
proof -
  obtain r w1 where p: "with_db E (\<lambda>db. (JOURNAL db, db)) (nd_world s) = (r, w1)"
    by (cases "with_db E (\<lambda>db. (JOURNAL db, db)) (nd_world s)")
  have ok: "store_ok (nd_world s)" using assms by (simp add: delivery_inv_def)
  note k = read_keys[OF p] with_db_read_ok[OF p ok]
  show ?thesis
    using assms k p
    by (auto simp: boot_read_def delivery_inv_def safe_keys_def split: sum.split list.split)
qed

lemma complete_safe:
  assumes "complete_entry E k su b w = (r, w')" "store_ok w" "is_ok r"
  defines "D \<equiv> dropped_over_cap k (clock E (st_txn w)) w"
  shows "journal_keys w \<union> outbox_keys w \<subseteq> journal_keys w' \<union> outbox_keys w' \<union> D"
    "outbox_keys w \<subseteq> outbox_keys w' \<union> D"
  using complete_entry_keys(1)[OF assms(1,2)] complete_entry_keeps[OF assms(1-3)] assms(3)
  by (auto simp: D_def)

lemma recover_one_inv [step_preserves]:
  assumes "delivery_inv s" shows "delivery_inv (recover_one E s)"
proof (cases "nd_recovering s")
  case Nil
  then show ?thesis using assms by (simp add: recover_one_def)
next
  case (Cons x rest)
  obtain k j where x: "x = (k, j)" by (cases x)
  obtain r w1 where c: "complete_entry E k (jr_subject j)
      (encode_result (to_vec E) (recovered_result j)) (nd_world s) = (r, w1)"
    by (cases "complete_entry E k (jr_subject j)
      (encode_result (to_vec E) (recovered_result j)) (nd_world s)")
  have ok: "store_ok (nd_world s)" using assms by (simp add: delivery_inv_def)
  note ks = complete_entry_keys[OF c ok] complete_entry_ok[OF c ok]
  show ?thesis
  proof (cases r)
    case (Inl e)
    have "w1 = (nd_world s) \<lparr> st_txn := st_txn w1 \<rparr>"
      using c Inl by (cases rule: complete_entry_cases) auto
    then have "st_db w1 = st_db (nd_world s)" by (metis store_state.select_convs(1)
        store_state.surjective store_state.update_convs(2))
    then show ?thesis using assms Inl c Cons x same_db[of w1 "nd_world s"]
      by (auto simp: recover_one_def delivery_inv_def safe_keys_def)
  next
    case (Inr u)
    have "is_ok r" using Inr by simp
    note safe = complete_safe[OF c ok this]
    show ?thesis using assms safe ks(3) Inr c Cons x
      by (fastforce simp: recover_one_def delivery_inv_def safe_keys_def)
  qed
qed

lemma complete_err_same_db:
  assumes "complete_entry E k su b w = (Err e, w')"
  shows "st_db w' = st_db w"
  using assms by (cases rule: complete_entry_cases) auto

lemma clearing_update:
  assumes "\<forall>t \<in> set ts. tk_phase t = Clearing \<longrightarrow> tk_todo t \<noteq> [] \<longrightarrow> request_key (hd (tk_todo t)) \<in> D"
    and "tk_phase t' = Clearing \<longrightarrow> tk_todo t' \<noteq> [] \<longrightarrow> request_key (hd (tk_todo t')) \<in> D'" "D \<subseteq> D'"
  shows "\<forall>t \<in> set (ts[i := t']). tk_phase t = Clearing \<longrightarrow> tk_todo t \<noteq> [] \<longrightarrow>
    request_key (hd (tk_todo t)) \<in> D'"
  using assms set_update_subset_insert[of ts i t'] by blast

lemma run_task_inv [step_preserves]:
  assumes inv: "delivery_inv s" and i: "i < length (nd_tasks s)"
  shows "delivery_inv (run_task E i s)"
proof -
  define t where "t = nd_tasks s ! i"
  define w where "w = nd_world s"
  have ok: "store_ok w" using inv by (simp add: delivery_inv_def w_def)
  have tin: "t \<in> set (nd_tasks s)" using i by (simp add: t_def)
  note cl = clearing_update[where ts = "nd_tasks s" and i = i]
  show ?thesis
  proof (cases "tk_todo t")
    case Nil
    then have "run_task E i s = s"
      using i by (simp add: run_task_def t_def[symmetric] w_def[symmetric] task_history_def)
        (simp add: t_def w_def)
    then show ?thesis using inv by simp
  next
    case (Cons req rest)
    let ?k = "request_key req"
    show ?thesis
    proof (cases "tk_phase t")
      case Starting
      obtain r w1 where m: "journal_mark_started E ?k w = (r, w1)" by (cases "journal_mark_started E ?k w")
      note fr = journal_mark_started_keys[OF m ok] journal_mark_started_ok[OF m ok]
      have e: "run_task E i s = s \<lparr> nd_world := w1, nd_tasks := (nd_tasks s)[i := t \<lparr> tk_phase := Started \<rparr>] \<rparr>"
        using Starting Cons m
        by (simp add: run_task_def t_def[symmetric] w_def[symmetric] task_history_def)
      show ?thesis unfolding e
        using inv fr cl[of "g_delivered s" "t \<lparr> tk_phase := Started \<rparr>"]
        by (simp add: delivery_inv_def safe_keys_def w_def)
    next
      case Started
      obtain result w1 where x: "execute E req (tk_machine t) w = (result, w1)"
        by (cases "execute E req (tk_machine t) w")
      have fr: "store_ok w1 = store_ok w" "journal_keys w1 = journal_keys w" "outbox_keys w1 = outbox_keys w"
        using same_keys(3)[of E req "tk_machine t" w] x by simp_all
      have e: "run_task E i s = s \<lparr> nd_world := w1,
          nd_tasks := (nd_tasks s)[i := t \<lparr> tk_phase := Finished result \<rparr>], g_ran := insert ?k (g_ran s) \<rparr>"
        using Started Cons x
        by (simp add: run_task_def t_def[symmetric] w_def[symmetric] task_history_def task_step_def)
      show ?thesis unfolding e
        using inv fr cl[of "g_delivered s" "t \<lparr> tk_phase := Finished result \<rparr>"]
        by (simp add: delivery_inv_def safe_keys_def w_def)
    next
      case (Finished result)
      let ?b = "encode_result (to_vec E) result"
      obtain r w1 where c: "complete_entry E ?k (tk_subject t) ?b w = (r, w1)"
        by (cases "complete_entry E ?k (tk_subject t) ?b w")
      show ?thesis
      proof (cases r)
        case (Inl er)
        have fr: "store_ok w1 = store_ok w" "journal_keys w1 = journal_keys w" "outbox_keys w1 = outbox_keys w"
          using same_db[OF complete_err_same_db[OF c[unfolded Inl]]] by simp_all
        have e: "run_task E i s = s \<lparr> nd_world := w1,
            nd_tasks := (nd_tasks s)[i := t \<lparr> tk_phase := Unsaved result \<rparr>] \<rparr>"
          using Finished Cons c Inl
          by (simp add: run_task_def t_def[symmetric] w_def[symmetric] task_history_def task_step_def)
        show ?thesis unfolding e
          using inv fr cl[of "g_delivered s" "t \<lparr> tk_phase := Unsaved result \<rparr>"]
          by (simp add: delivery_inv_def safe_keys_def w_def)
      next
        case (Inr u)
        then have "is_ok r" by simp
        note safe = complete_safe[OF c ok this]
        have e: "run_task E i s = s \<lparr> nd_world := record_event FlushNotified w1,
            nd_tasks := (nd_tasks s)[i := next_request t],
            g_dropped := g_dropped s \<union> dropped_over_cap ?k (clock E (st_txn w)) w \<rparr>"
          using Finished Cons c Inr
          by (simp add: run_task_def t_def[symmetric] w_def[symmetric] task_history_def task_step_def
              next_request_def)
        show ?thesis unfolding e
          using inv safe complete_entry_ok[OF c ok] cl[of "g_delivered s" "next_request t"]
          by (fastforce simp: delivery_inv_def safe_keys_def w_def same_keys next_request_def)
      qed
    next
      case (Unsaved result)
      obtain sent w1 where p: "publish_result E (tk_subject t) result w = (sent, w1)"
        by (cases "publish_result E (tk_subject t) result w")
      have fr: "store_ok w1 = store_ok w" "journal_keys w1 = journal_keys w" "outbox_keys w1 = outbox_keys w"
        using same_keys(2)[of E "tk_subject t" result w] p by simp_all
      show ?thesis
      proof (cases sent)
        case True
        have e: "run_task E i s = s \<lparr> nd_world := w1,
            nd_tasks := (nd_tasks s)[i := t \<lparr> tk_phase := Clearing \<rparr>],
            g_delivered := insert ?k (g_delivered s) \<rparr>"
          using Unsaved Cons p True
          by (simp add: run_task_def t_def[symmetric] w_def[symmetric] task_history_def task_step_def)
        show ?thesis unfolding e
          using inv fr cl[of "g_delivered s" "t \<lparr> tk_phase := Clearing \<rparr>" "insert ?k (g_delivered s)"] Cons
          by (fastforce simp: delivery_inv_def safe_keys_def w_def)
      next
        case False
        have e: "run_task E i s = s \<lparr> nd_world := w1, nd_tasks := (nd_tasks s)[i := next_request t] \<rparr>"
          using Unsaved Cons p False
          by (simp add: run_task_def t_def[symmetric] w_def[symmetric] task_history_def task_step_def
              next_request_def)
        show ?thesis unfolding e
          using inv fr cl[of "g_delivered s" "next_request t"]
          by (simp add: delivery_inv_def safe_keys_def w_def next_request_def)
      qed
    next
      case Clearing
      obtain r w1 where m: "journal_remove E ?k w = (r, w1)" by (cases "journal_remove E ?k w")
      note fr = journal_remove_keys[OF m ok] journal_remove_ok[OF m ok]
      have k: "?k \<in> g_delivered s"
        using inv tin Clearing Cons by (fastforce simp: delivery_inv_def)
      have e: "run_task E i s = s \<lparr> nd_world := w1, nd_tasks := (nd_tasks s)[i := next_request t] \<rparr>"
        using Clearing Cons m
        by (simp add: run_task_def t_def[symmetric] w_def[symmetric] task_history_def task_step_def)
      show ?thesis unfolding e
        using inv fr k cl[of "g_delivered s" "next_request t"]
        by (auto simp: delivery_inv_def safe_keys_def w_def next_request_def split: if_splits)
    qed
  qed
qed







definition sample_node :: node where
  "sample_node = \<lparr> nd_world = sample_exec (Some empty_database), nd_tasks = [], nd_pending = [],
     nd_removing = None, nd_recovering = [], nd_up = False, g_accepted = {}, g_delivered = {},
     g_dropped = {}, g_ran = {} \<rparr>"

definition sample_accepted :: node where
  "sample_accepted = accept_batch sample_exec_env ''m'' ''subj'' ''e1''
     [sample_request ''s1'', sample_request ''s2''] (boot_read sample_exec_env sample_node)"

lemma sample_node_init: "node_init sample_node"
  by (simp add: node_init_def sample_node_def sample_exec_def store_ok_def)

lemma sample_boot: "boot_read sample_exec_env sample_node =
    sample_node \<lparr> nd_world := sample_exec (Some empty_database) \<lparr> st_txn := 1 \<rparr>, nd_up := True \<rparr>"
  by (simp add: boot_read_def sample_node_def sample_exec_def with_db_def sample_exec_env_def
      empty_database_def)

lemma sample_reachable:
  assumes "ok_batch [sample_request ''s1'', sample_request ''s2'']"
  shows "(node_step sample_exec_env ok_batch)\<^sup>*\<^sup>* sample_node sample_accepted"
proof -
  have "node_step sample_exec_env ok_batch sample_node (boot_read sample_exec_env sample_node)"
    by (rule node_step.boot) (simp_all add: sample_node_def)
  moreover have "node_step sample_exec_env ok_batch (boot_read sample_exec_env sample_node) sample_accepted"
    unfolding sample_accepted_def
    by (rule node_step.accept) (use assms in \<open>simp_all add: sample_boot sample_request_def\<close>)
  ultimately show ?thesis by (meson rtranclp.rtrancl_into_rtrancl rtranclp.rtrancl_refl)
qed




section \<open>Recovery does not deny a script that ran\<close>

lemma flush_send_journal:
  assumes "flush_send E (k, s) w = (d, w1)"
  shows "map_option JOURNAL (st_db w1) = map_option JOURNAL (st_db w)"
proof -
  obtain r w2 where l: "load_payload E k w = (r, w2)" by (cases "load_payload E k w")
  have pub: "publish E s b w2 = (o2, w3) \<Longrightarrow> st_db w3 = st_db w2" for b o2 w3
    using publish_frame(1)[of E s b w2] by simp
  show ?thesis
    using assms l outbox_ops_journal(1)[OF l] pub
    by (auto simp: flush_send_def split: sum.splits option.splits prod.splits if_splits
        publish_outcome.splits)
qed

definition todo_keys :: "node \<Rightarrow> string list" where
  "todo_keys s = concat (map (\<lambda>t. map request_key (tk_todo t)) (nd_tasks s))"

definition journal_map :: "'w store_state_scheme \<Rightarrow> string \<Rightarrow> journal_record option" where
  "journal_map w = (case st_db w of None \<Rightarrow> Map.empty | Some db \<Rightarrow> map_of (JOURNAL db))"

definition record_started :: "'w store_state_scheme \<Rightarrow> string \<Rightarrow> bool" where
  "record_started w k = (\<forall>r. journal_map w k = Some r \<longrightarrow> jr_started r)"

definition task_started :: "'w store_state_scheme \<Rightarrow> task \<Rightarrow> bool" where
  "task_started w t = (tk_todo t \<noteq> [] \<longrightarrow>
     (case tk_phase t of Starting \<Rightarrow> True | Unsaved _ \<Rightarrow> False | Clearing \<Rightarrow> False
      | _ \<Rightarrow> record_started w (request_key (hd (tk_todo t)))))"

text \<open>The queues hold distinct keys that are all in the journal; a script past its start has a
  started record, and so has every script that ran and is still in the journal.\<close>

definition started_inv :: "node \<Rightarrow> bool" where
  "started_inv s \<longleftrightarrow> store_ok (nd_world s) \<and> distinct (todo_keys s)
    \<and> set (todo_keys s) \<subseteq> journal_keys (nd_world s)
    \<and> (\<not> nd_up s \<longrightarrow> nd_tasks s = [])
    \<and> (\<forall>t \<in> set (nd_tasks s). task_started (nd_world s) t)
    \<and> (\<forall>k \<in> g_ran s. record_started (nd_world s) k)"

lemma journal_keys_map: "journal_keys w = dom (journal_map w)"
  by (simp add: journal_keys_def journal_map_def split: option.split)

lemma journal_map_same:
  assumes "map_option JOURNAL (st_db w') = map_option JOURNAL (st_db w)"
  shows "journal_map w' = journal_map w" "journal_keys w' = journal_keys w"
proof -
  show "journal_map w' = journal_map w"
    using assms by (cases "st_db w'"; cases "st_db w") (auto simp: journal_map_def)
  then show "journal_keys w' = journal_keys w" by (simp add: journal_keys_map)
qed

lemma journal_map_mark:
  assumes "\<forall>n. \<not> db_fails E n" "store_ok w"
  shows "journal_map (snd (journal_mark_started E k w)) =
    (case journal_map w k of None \<Rightarrow> journal_map w
     | Some r \<Rightarrow> (journal_map w)(k \<mapsto> r \<lparr> jr_started := True \<rparr>))"
proof (cases "st_db w")
  case None
  then show ?thesis by (simp add: journal_mark_started_def store_simps journal_map_def)
next
  case (Some db)
  then have "db_ok db" using assms(2) by (simp add: store_ok_def)
  then obtain db' where "snd (journal_mark_started E k w) =
      w \<lparr> st_db := Some db', st_txn := Suc (st_txn w) \<rparr>"
    "map_of (JOURNAL db') = (case map_of (JOURNAL db) k of None \<Rightarrow> map_of (JOURNAL db)
       | Some r \<Rightarrow> (map_of (JOURNAL db))(k \<mapsto> r \<lparr> jr_started := True \<rparr>))"
    using journal_mark_started_done[OF Some, of E k] assms(1) by metis
  then show ?thesis using Some by (simp add: journal_map_def split: option.split)
qed

lemma journal_map_complete:
  assumes "complete_entry E k su b w = (r, w')" "store_ok w"
  shows "journal_map w' = (if is_ok r then (journal_map w)(k := None) else journal_map w)"
proof (cases "st_db w")
  case None
  then show ?thesis using assms(1) by (auto simp: complete_entry_none journal_map_def)
next
  case (Some db)
  then have ok: "db_ok db" using assms(2) by (simp add: store_ok_def)
  show ?thesis
    using complete_entry_maps[OF Some ok assms(1)] Some by (auto simp: journal_map_def)
qed

lemma started_cong:
  assumes "journal_map w' = journal_map w"
  shows "record_started w' k = record_started w k" "task_started w' t = task_started w t"
  using assms by (simp_all add: record_started_def task_started_def cong: phase.case_cong)

lemma started_removed:
  assumes "journal_map w' = (journal_map w)(k := None)"
  shows "record_started w k' \<Longrightarrow> record_started w' k'"
    "task_started w t \<Longrightarrow> task_started w' t"
  using assms by (auto simp: record_started_def task_started_def split: phase.split phase.split_asm)

text \<open>Only a task step, accepting and recovering touch the journal; everything else keeps the
  invariant because it keeps the journal map and the tasks.\<close>

lemma started_inv_frame:
  assumes "started_inv s" "journal_map (nd_world s') = journal_map (nd_world s)"
    "store_ok (nd_world s')" "nd_tasks s' = nd_tasks s" "g_ran s' = g_ran s"
    "nd_up s' \<or> nd_tasks s = []"
  shows "started_inv s'"
  using assms by (auto simp: started_inv_def started_cong[OF assms(2)] journal_keys_map todo_keys_def)

lemma started_inv_accept:
  assumes "started_inv s" "nd_up s" "distinct (map request_key reqs)"
    "\<forall>r \<in> set reqs. rq_execution_id r = i"
  shows "started_inv (accept_batch E m subj i reqs s)"
proof -
  let ?rs = "batch_records reqs m subj (clock E (st_txn (nd_world s)))"
  let ?w = "nd_world s"
  obtain r w1 where j: "journal_batch E i ?rs ?w = (r, w1)" by (cases "journal_batch E i ?rs ?w")
  have ok: "store_ok ?w" using assms(1) by (simp add: started_inv_def)
  note ok1 = journal_batch_ok[OF j ok]
  have refused: "journal_map w1 = journal_map ?w" if "r \<noteq> Ok True"
    using j that unfolding journal_batch_def
    by (cases rule: with_db_cases) (auto simp: journal_map_def split: if_splits)
  show ?thesis
  proof (cases "r = Ok True")
    case False
    have same: "journal_map (record_event FlushNotified w1) = journal_map w1"
      "journal_map (publish_directly E reqs m subj w1) = journal_map w1"
      by (rule journal_map_same; simp)+
    have okd: "store_ok (publish_directly E reqs m subj w1)"
      using same_db[OF publish_directly_db[of E reqs m subj w1]] ok1 by simp
    show ?thesis
      by (rule started_inv_frame[OF assms(1)])
        (use assms(2) False j refused ok1 same okd in
          \<open>auto simp: accept_batch_def split: sum.split bool.split\<close>)
  next
    case True
    obtain db where db: "?w \<in> UNIV" "st_db ?w = Some db" "\<not> journal_contains_batch (JOURNAL db) i"
      "st_db w1 = Some (db \<lparr> JOURNAL := fold (\<lambda>(k, r). tab_insert k r) ?rs (JOURNAL db) \<rparr>)"
      using j True unfolding journal_batch_def by (cases rule: with_db_cases) (auto split: if_splits)
    have jok: "tab_ok (JOURNAL db)" using ok db(2) by (simp add: store_ok_def db_ok_def)
    define s' where "s' = accept_batch E m subj i reqs s"
    define w' where "w' = record_event FlushNotified w1"
    have s': "nd_world s' = w'" "nd_tasks s' = nd_tasks s @
        [\<lparr> tk_subject = subj, tk_machine = m, tk_todo = reqs, tk_phase = Starting \<rparr>]"
      "g_ran s' = g_ran s - set (map request_key reqs)" "nd_up s'"
      using j True assms(2) by (simp_all add: s'_def w'_def accept_batch_def)
    have w': "journal_map w' = journal_map w1" "store_ok w'"
      using ok1 by (auto simp: w'_def same_keys intro: journal_map_same)
    have new: "set (map request_key reqs) \<inter> journal_keys ?w = {}"
      using batch_not_in_journal[OF db(3) assms(4)] db(2) by (simp add: journal_keys_def)
    have old: "journal_map w' k = journal_map ?w k" if "k \<notin> set (map request_key reqs)" for k
      using map_of_put_all_restrict[OF jok, of k ?rs] that db(2,4) w'(1)
      by (simp add: batch_records_keys journal_map_def)
    have keys: "journal_keys w' = set (map request_key reqs) \<union> journal_keys ?w"
      using journal_batch_keys(1)[OF j ok] True w'(1)
      by (simp add: journal_keys_map batch_records_keys)
    have todo: "todo_keys s' = todo_keys s @ map request_key reqs"
      by (simp add: todo_keys_def s'(2))
    have sub: "set (todo_keys s) \<subseteq> journal_keys ?w" using assms(1) by (simp add: started_inv_def)
    have "task_started w' t" if t: "t \<in> set (nd_tasks s)" for t
    proof -
      have "request_key (hd (tk_todo t)) \<in> set (todo_keys s)" if "tk_todo t \<noteq> []"
        using t that by (force simp: todo_keys_def)
      then have "request_key (hd (tk_todo t)) \<notin> set (map request_key reqs)" if "tk_todo t \<noteq> []"
        using that sub new by blast
      then show ?thesis
        using assms(1) t old
        by (auto simp: started_inv_def task_started_def record_started_def split: phase.split phase.split_asm)
    qed
    moreover have "record_started w' k" if "k \<in> g_ran s'" for k
      using that assms(1) old by (auto simp: s'(3) started_inv_def record_started_def)
    ultimately have "started_inv s'"
      using assms(1,3) new sub keys w'(2) s'
      by (auto simp: started_inv_def todo task_started_def)
    then show ?thesis by (simp add: s'_def)
  qed
qed

lemma concat_update_tail:
  assumes "i < length xs" "xs ! i = k # ys" "distinct (concat xs)"
  shows "distinct (concat (xs[i := ys])) \<and> set (concat (xs[i := ys])) = set (concat xs) - {k}"
proof -
  have xs: "xs = take i xs @ (k # ys) # drop (Suc i) xs"
    using id_take_nth_drop[OF assms(1)] assms(2) by simp
  have upd: "xs[i := ys] = take i xs @ ys # drop (Suc i) xs"
    by (rule upd_conv_take_nth_drop[OF assms(1)])
  have "concat xs = concat (take i xs) @ k # ys @ concat (drop (Suc i) xs)"
    by (subst xs) simp
  then show ?thesis using assms(3) unfolding upd by auto
qed

lemma todo_update:
  assumes "i < length ts"
  shows "map (\<lambda>t. map request_key (tk_todo t)) (ts[i := t']) =
    (map (\<lambda>t. map request_key (tk_todo t)) ts)[i := map request_key (tk_todo t')]"
  by (simp add: map_update)

lemma todo_same:
  assumes "i < length ts" "tk_todo t' = tk_todo (ts ! i)"
  shows "map (\<lambda>t. map request_key (tk_todo t)) (ts[i := t']) = map (\<lambda>t. map request_key (tk_todo t)) ts"
  unfolding todo_update[OF assms(1)] assms(2) using assms(1) by (simp add: list_update_same_conv)

lemma all_update:
  assumes "\<forall>t \<in> set ts. P t" "P t'"
  shows "\<forall>t \<in> set (ts[i := t']). P t"
  using assms set_update_subset_insert[of ts i t'] by blast

lemma started_mark:
  assumes "\<forall>n. \<not> db_fails E n" "store_ok w"
  shows "record_started (snd (journal_mark_started E k w)) k"
    "record_started w k' \<Longrightarrow> record_started (snd (journal_mark_started E k w)) k'"
    "journal_keys (snd (journal_mark_started E k w)) = journal_keys w"
  using journal_map_mark[OF assms, of k]
  by (cases "journal_map w k"; auto simp: record_started_def journal_keys_map)+

lemma task_started_mono:
  assumes "\<And>k. record_started w k \<Longrightarrow> record_started w' k" "task_started w t"
  shows "task_started w' t"
  using assms by (auto simp: task_started_def split: phase.splits)

lemma started_inv_task:
  assumes "\<forall>n. \<not> db_fails E n" and inv: "started_inv s" and up: "nd_up s"
    and i: "i < length (nd_tasks s)"
  shows "started_inv (run_task E i s)"
proof -
  define t where "t = nd_tasks s ! i"
  define w where "w = nd_world s"
  have ok: "store_ok w" using inv by (simp add: started_inv_def w_def)
  have tin: "t \<in> set (nd_tasks s)" using i by (simp add: t_def)
  have ts: "task_started w t" "\<forall>t \<in> set (nd_tasks s). task_started w t"
    "\<forall>k \<in> g_ran s. record_started w k"
    using inv tin by (simp_all add: started_inv_def w_def)
  have todo: "distinct (todo_keys s)" "set (todo_keys s) \<subseteq> journal_keys w"
    using inv by (simp_all add: started_inv_def w_def)
  show ?thesis
  proof (cases "tk_todo t")
    case Nil
    then have "run_task E i s = s"
      using i by (simp add: run_task_def t_def[symmetric] w_def[symmetric] task_history_def)
        (simp add: t_def w_def)
    then show ?thesis using inv by simp
  next
    case (Cons req rest)
    let ?k = "request_key req"
    have kj: "?k \<in> journal_keys w"
      using todo(2) tin Cons by (fastforce simp: todo_keys_def)
    consider (Starting) "tk_phase t = Starting" | (Started) "tk_phase t = Started"
      | (Finished) result where "tk_phase t = Finished result"
      using ts(1) Cons by (cases "tk_phase t") (auto simp: task_started_def)
    then show ?thesis
    proof cases
      case Starting
      define w1 where "w1 = snd (journal_mark_started E ?k w)"
      let ?t' = "t \<lparr> tk_phase := Started \<rparr>"
      have e: "run_task E i s = s \<lparr> nd_world := w1, nd_tasks := (nd_tasks s)[i := ?t'] \<rparr>"
        using Starting Cons
        by (simp add: run_task_def t_def[symmetric] w_def[symmetric] task_history_def w1_def)
      have ok1: "store_ok w1"
        unfolding w1_def by (rule journal_mark_started_ok[OF prod.collapse[symmetric] ok])
      note m = started_mark[OF assms(1) ok, where k = ?k, folded w1_def]
      have td: "todo_keys (run_task E i s) = todo_keys s"
        using todo_same[of i "nd_tasks s" ?t'] i by (simp add: todo_keys_def e t_def)
      have "task_started w1 ?t'" using m(1) Cons by (simp add: task_started_def)
      then have "\<forall>t \<in> set ((nd_tasks s)[i := ?t']). task_started w1 t"
        using ts(2) task_started_mono[OF m(2)] by (intro all_update) auto
      then show ?thesis
        using ok1 todo td ts(3) m(2,3) up by (simp add: started_inv_def e)
    next
      case Started
      obtain result w1 where x: "execute E req (tk_machine t) w = (result, w1)"
        by (cases "execute E req (tk_machine t) w")
      let ?t' = "t \<lparr> tk_phase := Finished result \<rparr>"
      have e: "run_task E i s = s \<lparr> nd_world := w1, nd_tasks := (nd_tasks s)[i := ?t'],
          g_ran := insert ?k (g_ran s) \<rparr>"
        using Started Cons x
        by (simp add: run_task_def t_def[symmetric] w_def[symmetric] task_history_def task_step_def)
      have db: "st_db w1 = st_db w" using execute_db[of E req "tk_machine t" w] x by simp
      have jm: "journal_map w1 = journal_map w" using db by (intro journal_map_same) simp
      have td: "todo_keys (run_task E i s) = todo_keys s"
        using todo_same[of i "nd_tasks s" ?t'] i by (simp add: todo_keys_def e t_def)
      have k: "record_started w ?k" using ts(1) Started Cons by (simp add: task_started_def)
      have "task_started w ?t'" using k Cons by (simp add: task_started_def)
      then have "\<forall>t \<in> set ((nd_tasks s)[i := ?t']). task_started w t"
        using ts(2) by (intro all_update) auto
      then show ?thesis
        using ok same_db[OF db] todo td ts(3) k up started_cong[OF jm] by (simp add: started_inv_def e)
    next
      case Finished
      let ?b = "encode_result (to_vec E) result"
      obtain r w1 where c: "complete_entry E ?k (tk_subject t) ?b w = (r, w1)"
        by (cases "complete_entry E ?k (tk_subject t) ?b w")
      obtain u where r: "r = Ok u"
        using c kj assms(1) by (cases rule: complete_entry_cases) (auto simp: journal_keys_def)
      let ?w' = "record_event FlushNotified w1"
      have e: "run_task E i s = s \<lparr> nd_world := ?w',
          nd_tasks := (nd_tasks s)[i := next_request t],
          g_dropped := g_dropped s \<union> dropped_over_cap ?k (clock E (st_txn w)) w \<rparr>"
        using Finished Cons c r
        by (simp add: run_task_def t_def[symmetric] w_def[symmetric] task_history_def task_step_def
            next_request_def)
      have jm: "journal_map ?w' = (journal_map w)(?k := None)"
        using journal_map_complete[OF c ok] r journal_map_same(1)[of ?w' w1] by simp
      have ok1: "store_ok ?w'" using complete_entry_ok[OF c ok] by (simp add: same_keys)
      have td: "distinct (todo_keys (run_task E i s))"
        "set (todo_keys (run_task E i s)) = set (todo_keys s) - {?k}"
        using concat_update_tail[of i "map (\<lambda>t. map request_key (tk_todo t)) (nd_tasks s)" ?k
            "map request_key rest"] i todo(1) Cons todo_update[OF i, of "next_request t"]
        by (simp_all add: todo_keys_def e t_def[symmetric] next_request_def)
      have "task_started ?w' (next_request t)" by (simp add: task_started_def next_request_def)
      then have "\<forall>t \<in> set ((nd_tasks s)[i := next_request t]). task_started ?w' t"
        using ts(2) started_removed(2)[OF jm] by (intro all_update) auto
      moreover have "\<forall>k \<in> g_ran s. record_started ?w' k"
        using ts(3) started_removed(1)[OF jm] by auto
      moreover have "set (todo_keys (run_task E i s)) \<subseteq> journal_keys ?w'"
        using td(2) todo(2) by (auto simp: journal_keys_map jm)
      ultimately show ?thesis
        using ok1 td(1) up by (simp add: started_inv_def e)
    qed
  qed
qed

lemma started_inv_flush:
  assumes "started_inv s" "nd_up s"
  shows "started_inv (flush_begin E s)" "started_inv (flush_next E s)" "started_inv (flush_remove E s)"
proof -
  have ok: "store_ok (nd_world s)" using assms(1) by (simp add: started_inv_def)
  obtain r w1 where p: "pending_keys E (nd_world s) = (r, w1)" by (cases "pending_keys E (nd_world s)")
  show "started_inv (flush_begin E s)"
    by (rule started_inv_frame[OF assms(1)])
      (use assms(2) p journal_map_same(1)[OF outbox_ops_journal(3)[OF p]]
         with_db_read_ok[OF p[unfolded pending_keys_def] ok]
       in \<open>auto simp: flush_begin_def split: sum.split\<close>)
  show "started_inv (flush_next E s)"
  proof (cases "nd_pending s")
    case (Cons ks rest)
    obtain k su where ks: "ks = (k, su)" by (cases ks)
    obtain d w2 where f: "flush_send E (k, su) (nd_world s) = (d, w2)"
      by (cases "flush_send E (k, su) (nd_world s)")
    have jm: "journal_map w2 = journal_map (nd_world s)"
      using flush_send_journal[OF f] by (rule journal_map_same)
    show ?thesis
      by (rule started_inv_frame[OF assms(1)])
        (use assms(2) f jm flush_send_frame[OF f ok] Cons ks in
          \<open>auto simp: flush_next_def split: flush_decision.split\<close>)
  qed (use assms in \<open>simp add: flush_next_def\<close>)
  show "started_inv (flush_remove E s)"
  proof (cases "nd_removing s")
    case (Some k)
    obtain r w3 where o: "outbox_remove E k (nd_world s) = (r, w3)"
      by (cases "outbox_remove E k (nd_world s)")
    show ?thesis
      by (rule started_inv_frame[OF assms(1)])
        (use assms(2) o journal_map_same(1)[OF outbox_ops_journal(2)[OF o]] outbox_remove_ok[OF o ok] Some
         in \<open>auto simp: flush_remove_def\<close>)
  qed (use assms in \<open>simp add: flush_remove_def\<close>)
qed

lemma started_inv_crash: "started_inv s \<Longrightarrow> started_inv (crash_node s)"
  by (simp add: started_inv_def crash_node_def todo_keys_def)

lemma started_inv_boot:
  assumes "started_inv s" "\<not> nd_up s" shows "started_inv (boot_read E s)"
proof -
  have ok: "store_ok (nd_world s)" "nd_tasks s = []" using assms by (simp_all add: started_inv_def)
  obtain r w1 where p: "with_db E (\<lambda>db. (JOURNAL db, db)) (nd_world s) = (r, w1)"
    by (cases "with_db E (\<lambda>db. (JOURNAL db, db)) (nd_world s)")
  have jm: "journal_map w1 = journal_map (nd_world s)"
    by (rule journal_map_same) (use with_db_journal[OF p] in simp)
  show ?thesis
    by (rule started_inv_frame[OF assms(1)])
      (use p jm ok with_db_read_ok[OF p ok(1)] in
        \<open>auto simp: boot_read_def split: sum.split list.split\<close>)
qed

lemma started_inv_recover:
  assumes "started_inv s" "\<not> nd_up s" shows "started_inv (recover_one E s)"
proof (cases "nd_recovering s")
  case (Cons x rest)
  obtain k j where x: "x = (k, j)" by (cases x)
  obtain r w1 where c: "complete_entry E k (jr_subject j)
      (encode_result (to_vec E) (recovered_result j)) (nd_world s) = (r, w1)"
    by (cases "complete_entry E k (jr_subject j)
      (encode_result (to_vec E) (recovered_result j)) (nd_world s)")
  have ok: "store_ok (nd_world s)" "nd_tasks s = []" using assms by (simp_all add: started_inv_def)
  have ran: "\<forall>k \<in> g_ran s. record_started (nd_world s) k" using assms by (simp add: started_inv_def)
  have "\<forall>k \<in> g_ran s. record_started w1 k"
    using journal_map_complete[OF c ok(1)] ran by (auto simp: record_started_def split: if_splits)
  then show ?thesis
    using complete_entry_ok[OF c ok(1)] ok(2) c Cons x
    by (auto simp: recover_one_def started_inv_def todo_keys_def split: sum.split)
qed (use assms in \<open>simp add: recover_one_def\<close>)

definition distinct_batch :: "execution_request list \<Rightarrow> bool" where
  "distinct_batch reqs = distinct (map request_key reqs)"

text \<open>A step of an agent whose database works and whose batches name each script once.\<close>

definition healthy_step :: "exec_env \<Rightarrow> node \<Rightarrow> node \<Rightarrow> bool" where
  "healthy_step E s s' \<longleftrightarrow> (\<forall>n. \<not> db_fails E n) \<and> node_step E distinct_batch s s'"

lemma started_inv_step:
  assumes "started_inv s" "healthy_step E s s'"
  shows "started_inv s'"
  using assms(2) unfolding healthy_step_def
  by (elim conjE node_stepE)
    (use assms(1) in \<open>auto simp: distinct_batch_def intro: started_inv_accept started_inv_task
       started_inv_flush started_inv_crash started_inv_boot started_inv_recover\<close>)

lemma started_inv_init: "node_init s \<Longrightarrow> started_inv s"
  by (simp add: node_init_def started_inv_def todo_keys_def)

interpretation healthy: inv_system node_init "healthy_step E" started_inv
  by unfold_locales (rule started_inv_init started_inv_step; assumption)+

text \<open>C2. Recovery is truthful: when the database works and each batch names a script at most once, a
  script that recovery would report as not executed (at any moment the agent can crash) has not run
  since its batch was accepted.\<close>

theorem not_executed_is_true:
  assumes "node_init s0" "(healthy_step E)\<^sup>*\<^sup>* s0 s"
    and "journal_map (nd_world s) k = Some r"
    and "rr_error (recovered_result r) = Some ERROR_NOT_STARTED"
  shows "k \<notin> g_ran s"
proof
  assume "k \<in> g_ran s"
  then have "jr_started r"
    using healthy.inv_reachable[OF assms(1,2)] assms(3)
    by (auto simp: started_inv_def record_started_def)
  then show False
    using assms(4) by (simp add: recovered_result_def ERROR_INTERRUPTED_def ERROR_NOT_STARTED_def)
qed


section \<open>Runs as scripts of actions\<close>

text \<open>An executable reading of the step relation: a list of actions, each with its guard.\<close>

datatype action =
    Accept string string string "execution_request list"
  | RunTask nat
  | FlushStart
  | FlushEntry
  | FlushDone
  | Crash
  | Boot
  | RecoverOne

fun do_action ::
  "exec_env \<Rightarrow> (execution_request list \<Rightarrow> bool) \<Rightarrow> action \<Rightarrow> node \<Rightarrow> node option" where
  "do_action E ok_batch (Accept m subj i reqs) s =
     (if nd_up s \<and> ok_batch reqs \<and> list_all (\<lambda>r. rq_execution_id r = i) reqs
      then Some (accept_batch E m subj i reqs s) else None)"
| "do_action E ok_batch (RunTask i) s =
     (if nd_up s \<and> i < length (nd_tasks s) then Some (run_task E i s) else None)"
| "do_action E ok_batch FlushStart s =
     (if nd_up s \<and> nd_pending s = [] \<and> nd_removing s = None then Some (flush_begin E s) else None)"
| "do_action E ok_batch FlushEntry s =
     (if nd_up s \<and> nd_removing s = None then Some (flush_next E s) else None)"
| "do_action E ok_batch FlushDone s = (if nd_up s then Some (flush_remove E s) else None)"
| "do_action E ok_batch Crash s = Some (crash_node s)"
| "do_action E ok_batch Boot s =
     (if \<not> nd_up s \<and> nd_recovering s = [] then Some (boot_read E s) else None)"
| "do_action E ok_batch RecoverOne s = (if \<not> nd_up s then Some (recover_one E s) else None)"

fun do_actions ::
  "exec_env \<Rightarrow> (execution_request list \<Rightarrow> bool) \<Rightarrow> action list \<Rightarrow> node \<Rightarrow> node option" where
  "do_actions E ok_batch [] s = Some s"
| "do_actions E ok_batch (a # as) s =
     (case do_action E ok_batch a s of None \<Rightarrow> None | Some s' \<Rightarrow> do_actions E ok_batch as s')"

lemma do_action_step: "do_action E ok_batch a s = Some s' \<Longrightarrow> node_step E ok_batch s s'"
  by (cases a) (auto simp: list_all_iff intro: node_step.intros split: if_splits)

lemma do_actions_steps: "do_actions E ok_batch as s = Some s' \<Longrightarrow> (node_step E ok_batch)\<^sup>*\<^sup>* s s'"
  by (induction as arbitrary: s)
    (auto split: option.splits intro: converse_rtranclp_into_rtranclp do_action_step)

lemma do_actions_healthy:
  assumes "do_actions E distinct_batch as s = Some s'" "\<forall>n. \<not> db_fails E n"
  shows "(healthy_step E)\<^sup>*\<^sup>* s s'"
proof -
  have "healthy_step E = node_step E distinct_batch"
    using assms(2) by (simp add: healthy_step_def fun_eq_iff)
  then show ?thesis using do_actions_steps[OF assms(1)] by simp
qed

lemma not_executed_is_true_witness:
  "''e1:s2'' \<notin> g_ran sample_accepted \<and> journal_map (nd_world sample_accepted) ''e1:s2'' \<noteq> None"
proof -
  have d: "distinct_batch [sample_request ''s1'', sample_request ''s2'']"
    by (simp add: distinct_batch_def request_key_def sample_request_def entry_key_def)
  have e: "\<forall>n. \<not> db_fails sample_exec_env n" by (simp add: sample_exec_env_def)
  have "healthy_step sample_exec_env = node_step sample_exec_env distinct_batch"
    using e by (simp add: healthy_step_def fun_eq_iff)
  then have reach: "(healthy_step sample_exec_env)\<^sup>*\<^sup>* sample_node sample_accepted"
    using sample_reachable[where ok_batch = distinct_batch] d by simp
  have "map_option jr_started (journal_map (nd_world sample_accepted) ''e1:s2'') = Some False"
    unfolding sample_accepted_def sample_boot by code_simp
  then obtain r where r: "journal_map (nd_world sample_accepted) ''e1:s2'' = Some r" "\<not> jr_started r"
    by auto
  show ?thesis
    using not_executed_is_true[OF sample_node_init reach r(1)] r by (simp add: recovered_result_def)
qed


section \<open>A redelivery during a publish\<close>

definition two_runs_env :: exec_env where
  "two_runs_env = sample_exec_env
     \<lparr> execute_script := (\<lambda>n p. \<lparr> er_stdout = (if n < 3 then ''first'' else ''second''),
                                  er_stderr = [], er_retcode = 0, er_timed_out = False \<rparr>) \<rparr>"

definition stale_remove_script :: "action list" where
  "stale_remove_script =
    (let batch = Accept ''m'' ''subj'' ''e1'' [sample_request ''s1''] in
     [Boot, batch, RunTask 0, RunTask 0, RunTask 0, FlushStart, FlushEntry,
      batch, RunTask 1, RunTask 1, RunTask 1, FlushDone])"

text \<open>The flusher removes an entry by its key, not by what it published. When a finished batch is
  delivered again while its first result is being published, the second run's result takes the
  entry's place and is then removed undelivered: the script ran twice, only the first output was
  acknowledged, and nothing is left in the journal or the outbox.\<close>

theorem stale_remove_loses_second_result:
  "\<exists>s. (healthy_step two_runs_env)\<^sup>*\<^sup>* sample_node s
     \<and> length (runs_of (events (nd_world s))) = 2
     \<and> delivered (nd_world s) = [(''subj'', ''first'')]
     \<and> journal_keys (nd_world s) = {} \<and> outbox_keys (nd_world s) = {}"
proof -
  have "map_option (\<lambda>s. (length (runs_of (events (nd_world s))), delivered (nd_world s),
        map_option (\<lambda>db. (JOURNAL db, OUTBOX_META db)) (st_db (nd_world s))))
      (do_actions two_runs_env distinct_batch stale_remove_script sample_node) =
    Some (2, [(''subj'', ''first'')], Some ([], []))"
    by code_simp
  then obtain s where s: "do_actions two_runs_env distinct_batch stale_remove_script sample_node = Some s"
    "length (runs_of (events (nd_world s))) = 2" "delivered (nd_world s) = [(''subj'', ''first'')]"
    "map_option (\<lambda>db. (JOURNAL db, OUTBOX_META db)) (st_db (nd_world s)) = Some ([], [])"
    by auto
  have "\<forall>n. \<not> db_fails two_runs_env n" by (simp add: two_runs_env_def sample_exec_env_def)
  then have "(healthy_step two_runs_env)\<^sup>*\<^sup>* sample_node s" by (rule do_actions_healthy[OF s(1)])
  then show ?thesis using s by (intro exI[of _ s]) (auto simp: keys_defs)
qed

end
