(* ===== verification/Deactivation.thy ===== *)
theory Deactivation
  imports Prelude "HOL-Library.Word"
begin

text \<open>Reacting to a deleted tenant (services/deactivation\_service.rs): consecutive 410 answers stop
  the tools and gate outbound calls; when the tenant stays gone past the deadline the client
  uninstalls itself. Times are nanoseconds: wall-clock times are integers (the clock may be set
  back), process times are natural numbers. The platform switch, the clocks, the marker file's
  write outcome and the outcome of spawning the uninstaller are the environment's.\<close>

definition NANOS :: nat where "NANOS = 1000000000"
definition STOP_TOOLS_AFTER_CONSECUTIVE_GONE :: "32 word" where
  "STOP_TOOLS_AFTER_CONSECUTIVE_GONE = 5"
definition PROBE_BACKOFF_INITIAL :: nat where "PROBE_BACKOFF_INITIAL = 60 * NANOS"
definition PROBE_BACKOFF_MAX :: nat where "PROBE_BACKOFF_MAX = 30 * 60 * NANOS"
definition UNINSTALL_AFTER :: nat where "UNINSTALL_AFTER = 2 * 60 * 60 * NANOS"
definition POST_RESTART_GRACE :: nat where "POST_RESTART_GRACE = 60 * 60 * NANOS"
definition UNINSTALL_SPAWN_ATTEMPTS :: nat where "UNINSTALL_SPAWN_ATTEMPTS = 3"

datatype deactivation_command = StopTools | RestartTools | Uninstall

datatype health_phase = Healthy | Suspended

record deactivation =
  da_suspended :: bool
  da_phase :: health_phase
  da_consecutive_gone :: "32 word"
  da_gone_since :: "int option"
  da_probe_backoff :: nat
  da_uninstall_triggered :: bool
  da_process_started :: nat
  da_commands :: "deactivation_command list"
  da_marker :: "int option"

record reading =
  rd_now :: int
  rd_mono :: nat
  rd_write_ok :: bool

definition saturating_add_one :: "32 word \<Rightarrow> 32 word" where
  "saturating_add_one n = (if n = - 1 then n else n + 1)"

text \<open>A new process: the marker is the file's parsed content.\<close>

definition new_deactivation :: "bool \<Rightarrow> int option \<Rightarrow> nat \<Rightarrow> deactivation" where
  "new_deactivation platform_enabled marker started =
    \<lparr> da_suspended = False, da_phase = Healthy, da_consecutive_gone = 0,
      da_gone_since = (if platform_enabled then marker else None),
      da_probe_backoff = PROBE_BACKOFF_INITIAL, da_uninstall_triggered = False,
      da_process_started = started, da_commands = [], da_marker = marker \<rparr>"

definition is_suspended :: "deactivation \<Rightarrow> bool" where
  "is_suspended s = da_suspended s"

definition send_command :: "deactivation_command \<Rightarrow> deactivation \<Rightarrow> deactivation" where
  "send_command c s = s \<lparr> da_commands := da_commands s @ [c] \<rparr>"

definition save_marker :: "bool \<Rightarrow> int \<Rightarrow> deactivation \<Rightarrow> deactivation" where
  "save_marker write_ok ts s = (if write_ok then s \<lparr> da_marker := Some ts \<rparr> else s)"

definition remove_marker :: "bool \<Rightarrow> deactivation \<Rightarrow> deactivation" where
  "remove_marker write_ok s = (if write_ok then s \<lparr> da_marker := None \<rparr> else s)"

definition uninstall_due :: "reading \<Rightarrow> deactivation \<Rightarrow> bool" where
  "uninstall_due rd s =
    (if da_phase s \<noteq> Suspended then False
     else case da_gone_since s of
         None \<Rightarrow> False
       | Some gone_since \<Rightarrow>
           if rd_now rd - gone_since < int UNINSTALL_AFTER then False
           else if rd_mono rd - da_process_started s < POST_RESTART_GRACE then False
           else True)"

definition request_uninstall :: "deactivation \<Rightarrow> deactivation" where
  "request_uninstall s =
    (if da_uninstall_triggered s then s
     else send_command Uninstall (s \<lparr> da_uninstall_triggered := True \<rparr>))"

text \<open>The part of record_gone under the lock, with its verdict.\<close>

definition record_gone_locked :: "reading \<Rightarrow> deactivation \<Rightarrow> bool \<times> deactivation" where
  "record_gone_locked rd s =
    (if da_uninstall_triggered s then (False, s)
     else
       let s1 = (if da_gone_since s = None
                 then save_marker (rd_write_ok rd) (rd_now rd) (s \<lparr> da_gone_since := Some (rd_now rd) \<rparr>)
                 else s);
           s2 = s1 \<lparr> da_consecutive_gone := saturating_add_one (da_consecutive_gone s1) \<rparr>;
           s3 = (if da_phase s2 = Healthy
                    \<and> STOP_TOOLS_AFTER_CONSECUTIVE_GONE \<le> da_consecutive_gone s2
                 then send_command StopTools
                        (s2 \<lparr> da_phase := Suspended, da_probe_backoff := PROBE_BACKOFF_INITIAL,
                              da_suspended := True \<rparr>)
                 else s2)
       in (uninstall_due rd s3, s3))"

definition record_gone :: "reading \<Rightarrow> deactivation \<Rightarrow> deactivation" where
  "record_gone rd s =
    (case record_gone_locked rd s of (due, s1) \<Rightarrow> if due then request_uninstall s1 else s1)"

definition record_healthy :: "reading \<Rightarrow> deactivation \<Rightarrow> deactivation" where
  "record_healthy rd s =
    (if da_uninstall_triggered s then s
     else
       let was_suspended = (da_phase s = Suspended);
           had_marker = (da_gone_since s \<noteq> None);
           s1 = s \<lparr> da_consecutive_gone := 0, da_gone_since := None,
                    da_probe_backoff := PROBE_BACKOFF_INITIAL \<rparr>;
           s2 = (if had_marker then remove_marker (rd_write_ok rd) s1 else s1)
       in if was_suspended
          then send_command RestartTools (s2 \<lparr> da_phase := Healthy, da_suspended := False \<rparr>)
          else s2)"

definition is_gone :: "nat \<Rightarrow> bool" where "is_gone status = (status = 410)"
definition is_success :: "nat \<Rightarrow> bool" where "is_success status = (200 \<le> status \<and> status < 300)"

definition on_gateway_status :: "bool \<Rightarrow> nat \<Rightarrow> reading \<Rightarrow> deactivation \<Rightarrow> deactivation" where
  "on_gateway_status platform_enabled status rd s =
    (if \<not> platform_enabled then s
     else if is_gone status then record_gone rd s
     else if is_success status then record_healthy rd s
     else s)"

definition next_probe_delay :: "deactivation \<Rightarrow> nat \<times> deactivation" where
  "next_probe_delay s =
    (da_probe_backoff s,
     s \<lparr> da_probe_backoff := min (da_probe_backoff s * 2) PROBE_BACKOFF_MAX \<rparr>)"

text \<open>The supervisor hands each command to the tool run manager or the uninstaller; the detached
  uninstaller is spawned at most three times.\<close>

fun launch_attempts :: "nat \<Rightarrow> (nat \<Rightarrow> bool) \<Rightarrow> nat \<Rightarrow> nat \<times> bool" where
  "launch_attempts 0 spawn_ok attempt = (0, False)"
| "launch_attempts (Suc n) spawn_ok attempt =
     (if spawn_ok attempt then (1, True)
      else case launch_attempts n spawn_ok (Suc attempt) of (tries, ok) \<Rightarrow> (Suc tries, ok))"

definition launch_self_uninstall :: "(nat \<Rightarrow> bool) \<Rightarrow> nat \<times> bool" where
  "launch_self_uninstall spawn_ok = launch_attempts UNINSTALL_SPAWN_ATTEMPTS spawn_ok 1"

definition supervise ::
  "('m \<Rightarrow> 'm) \<Rightarrow> ('m \<Rightarrow> 'm) \<Rightarrow> ('m \<Rightarrow> 'm) \<Rightarrow> deactivation_command list \<Rightarrow> 'm \<Rightarrow> 'm" where
  "supervise stop_all restart_all uninstall =
    fold (\<lambda>cmd. case cmd of StopTools \<Rightarrow> stop_all | RestartTools \<Rightarrow> restart_all | Uninstall \<Rightarrow> uninstall)"


section \<open>Runs\<close>

datatype gateway_event = Status nat reading | Probe

fun do_event :: "bool \<Rightarrow> gateway_event \<Rightarrow> deactivation \<Rightarrow> deactivation" where
  "do_event en (Status status rd) s = on_gateway_status en status rd s"
| "do_event en Probe s = snd (next_probe_delay s)"

definition run_events :: "gateway_event list \<Rightarrow> deactivation \<Rightarrow> deactivation" where
  "run_events evs s = fold (do_event True) evs s"

lemma run_events_simps [simp]:
  "run_events [] s = s"
  "run_events (evs @ [e]) s = do_event True e (run_events evs s)"
  by (simp_all add: run_events_def)

text \<open>What the history says: the 410 answers since the last success, their number, the time the
  tenant went away, and whether the last event is one at which the client must uninstall.\<close>

fun gone_event :: "gateway_event \<Rightarrow> bool" where
  "gone_event (Status status rd) = is_gone status"
| "gone_event Probe = False"

fun success_event :: "gateway_event \<Rightarrow> bool" where
  "success_event (Status status rd) = is_success status"
| "success_event Probe = False"

fun event_now :: "gateway_event \<Rightarrow> int" where
  "event_now (Status status rd) = rd_now rd"
| "event_now Probe = 0"

fun event_mono :: "gateway_event \<Rightarrow> nat" where
  "event_mono (Status status rd) = rd_mono rd"
| "event_mono Probe = 0"

definition episode :: "gateway_event list \<Rightarrow> gateway_event list" where
  "episode evs = rev (filter gone_event (takeWhile (\<lambda>e. \<not> success_event e) (rev evs)))"

definition gone_at :: "int option \<Rightarrow> gateway_event list \<Rightarrow> int option" where
  "gone_at marker evs =
    (if marker \<noteq> None \<and> (\<forall>e \<in> set evs. \<not> success_event e) then marker
     else case episode evs of [] \<Rightarrow> None | e # _ \<Rightarrow> Some (event_now e))"

definition must_uninstall :: "int option \<Rightarrow> nat \<Rightarrow> gateway_event list \<Rightarrow> bool" where
  "must_uninstall marker started evs =
    (evs \<noteq> [] \<and> gone_event (last evs) \<and> 5 \<le> length (episode evs)
     \<and> (case gone_at marker evs of None \<Rightarrow> False
        | Some g \<Rightarrow> int UNINSTALL_AFTER \<le> event_now (last evs) - g)
     \<and> POST_RESTART_GRACE \<le> event_mono (last evs) - started)"


lemma gone_not_success: "gone_event e \<Longrightarrow> \<not> success_event e"
  by (cases e) (auto simp: is_gone_def is_success_def)

lemma episode_snoc:
  "episode (evs @ [e]) = (if success_event e then [] else if gone_event e then episode evs @ [e]
    else episode evs)"
  by (simp add: episode_def)

lemma episode_Nil [simp]: "episode [] = []"
  by (simp add: episode_def)

lemma gone_at_snoc:
  "gone_at marker (evs @ [e]) =
    (if success_event e then None
     else if gone_event e then
       (case gone_at marker evs of None \<Rightarrow> Some (event_now e) | Some g \<Rightarrow> Some g)
     else gone_at marker evs)"
  using gone_not_success[of e]
  by (auto simp: gone_at_def episode_snoc split: list.split option.split)

definition must_have :: "int option \<Rightarrow> nat \<Rightarrow> gateway_event list \<Rightarrow> bool" where
  "must_have marker started evs = (\<exists>n \<le> length evs. must_uninstall marker started (take n evs))"

lemma must_have_snoc:
  "must_have marker started (evs @ [e]) \<longleftrightarrow>
     must_have marker started evs \<or> must_uninstall marker started (evs @ [e])"
  unfolding must_have_def by (auto simp: le_Suc_eq)

lemma must_have_Nil [simp]: "\<not> must_have marker started []"
  by (simp add: must_have_def must_uninstall_def)

definition commands_balanced :: "deactivation \<Rightarrow> bool" where
  "commands_balanced s \<longleftrightarrow>
     count_list (da_commands s) Uninstall = (if da_uninstall_triggered s then 1 else 0)
     \<and> count_list (da_commands s) StopTools =
         count_list (da_commands s) RestartTools + (if da_suspended s then 1 else 0)
     \<and> (da_suspended s \<longleftrightarrow> da_phase s = Suspended)"

text \<open>While no uninstall was triggered the state is a function of the history.\<close>

definition follows :: "int option \<Rightarrow> nat \<Rightarrow> gateway_event list \<Rightarrow> deactivation \<Rightarrow> bool" where
  "follows marker started evs s \<longleftrightarrow>
     unat (da_consecutive_gone s) = min (length (episode evs)) (2 ^ 32 - 1)
     \<and> da_gone_since s = gone_at marker evs
     \<and> (da_phase s = Suspended \<longleftrightarrow> 5 \<le> length (episode evs))
     \<and> da_process_started s = started"

lemma saturating_unat: "unat (saturating_add_one n) = min (Suc (unat n)) (2 ^ 32 - 1)"
proof (cases "n = - 1")
  case False
  then have "unat (n + 1) = Suc (unat n)"
    using unatSuc[of n] by (simp add: add_eq_0_iff add.commute)
  moreover have "unat (n + 1) < 2 ^ 32" using unsigned_less[of "n + 1"] by simp
  ultimately show ?thesis using False by (simp add: saturating_add_one_def)
next
  case True
  have "unat (- 1 :: 32 word) = 2 ^ 32 - 1" by code_simp
  then show ?thesis using True by (simp add: saturating_add_one_def)
qed

lemma phase_not [simp]: "p \<noteq> Healthy \<longleftrightarrow> p = Suspended" "p \<noteq> Suspended \<longleftrightarrow> p = Healthy"
  by (cases p; simp)+

lemma five_le: "STOP_TOOLS_AFTER_CONSECUTIVE_GONE \<le> n \<longleftrightarrow> 5 \<le> unat n"
  by (simp add: STOP_TOOLS_AFTER_CONSECUTIVE_GONE_def word_le_nat_alt)

lemma request_uninstall_simps:
  "da_uninstall_triggered s \<Longrightarrow> request_uninstall s = s"
  "da_uninstall_triggered (request_uninstall s)"
  by (simp_all add: request_uninstall_def send_command_def)

text \<open>One 410: the state follows the history and the verdict is the deadline of the history.\<close>

lemma record_gone_follows:
  assumes f: "follows marker started evs s" and g: "gone_event (Status status rd)"
    and nt: "\<not> da_uninstall_triggered s"
    and r: "record_gone_locked rd s = (due, s1)"
  shows "follows marker started (evs @ [Status status rd]) s1"
    "due \<longleftrightarrow> must_uninstall marker started (evs @ [Status status rd])"
    "\<not> da_uninstall_triggered s1"
proof -
  let ?evs = "evs @ [Status status rd]"
  define c where "c = saturating_add_one (da_consecutive_gone s)"
  have ep: "episode ?evs = episode evs @ [Status status rd]"
    using g gone_not_success[OF g] by (simp add: episode_snoc)
  have at: "gone_at marker ?evs =
      (case gone_at marker evs of None \<Rightarrow> Some (rd_now rd) | Some x \<Rightarrow> Some x)"
    using g gone_not_success[OF g] by (simp add: gone_at_snoc split: option.split)
  have c: "unat c = min (length (episode ?evs)) (2 ^ 32 - 1)"
    using f by (auto simp: c_def saturating_unat follows_def ep)
  have five: "STOP_TOOLS_AFTER_CONSECUTIVE_GONE \<le> c \<longleftrightarrow> 5 \<le> length (episode ?evs)"
    unfolding five_le c by simp
  have s1: "da_consecutive_gone s1 = c" "da_gone_since s1 = gone_at marker ?evs"
    "da_process_started s1 = started" "da_phase s1 = Suspended \<longleftrightarrow> 5 \<le> length (episode ?evs)"
    "\<not> da_uninstall_triggered s1" "due = uninstall_due rd s1"
    using r f nt five unfolding follows_def c_def[symmetric] at
    by (auto simp: record_gone_locked_def Let_def save_marker_def send_command_def c_def[symmetric]
        ep split: option.split if_splits health_phase.splits)
  show "follows marker started ?evs s1" using s1 c by (simp add: follows_def)
  show "\<not> da_uninstall_triggered s1" by (rule s1(5))
  show "due \<longleftrightarrow> must_uninstall marker started ?evs"
    using s1 g by (auto simp: uninstall_due_def must_uninstall_def split: option.split)
qed

lemma record_healthy_follows:
  assumes "follows marker started evs s" "success_event (Status status rd)"
    "\<not> da_uninstall_triggered s"
  shows "follows marker started (evs @ [Status status rd]) (record_healthy rd s)"
    "\<not> da_uninstall_triggered (record_healthy rd s)"
  using assms
  by (auto simp: follows_def record_healthy_def Let_def remove_marker_def send_command_def
      episode_snoc gone_at_snoc intro: health_phase.exhaust)

lemma do_event_follows:
  assumes "follows marker started evs s" "\<not> da_uninstall_triggered s"
  shows "da_uninstall_triggered (do_event True e s) \<longleftrightarrow> must_uninstall marker started (evs @ [e])"
    "\<not> da_uninstall_triggered (do_event True e s) \<Longrightarrow>
       follows marker started (evs @ [e]) (do_event True e s)"
proof -
  have "(da_uninstall_triggered (do_event True e s) \<longleftrightarrow> must_uninstall marker started (evs @ [e]))
    \<and> (\<not> da_uninstall_triggered (do_event True e s) \<longrightarrow>
         follows marker started (evs @ [e]) (do_event True e s))"
  proof (cases e)
    case Probe
    then show ?thesis using assms
      by (auto simp: next_probe_delay_def follows_def episode_snoc gone_at_snoc must_uninstall_def)
  next
    case (Status status rd)
    consider (gone) "is_gone status" | (success) "\<not> is_gone status" "is_success status"
      | (other) "\<not> is_gone status" "\<not> is_success status" by blast
    then show ?thesis
    proof cases
      case gone
      obtain due s1 where r: "record_gone_locked rd s = (due, s1)" by (cases "record_gone_locked rd s")
      note rg = record_gone_follows[OF assms(1) _ assms(2) r, of status]
      show ?thesis
        using rg gone r by (auto simp: Status on_gateway_status_def record_gone_def
            request_uninstall_simps)
    next
      case success
      then show ?thesis
        using record_healthy_follows[OF assms(1) _ assms(2), of status rd]
        by (simp add: Status on_gateway_status_def must_uninstall_def)
    next
      case other
      then show ?thesis using assms
        by (simp add: Status on_gateway_status_def follows_def episode_snoc gone_at_snoc must_uninstall_def)
    qed
  qed
  then show "da_uninstall_triggered (do_event True e s) \<longleftrightarrow> must_uninstall marker started (evs @ [e])"
    "\<not> da_uninstall_triggered (do_event True e s) \<Longrightarrow>
       follows marker started (evs @ [e]) (do_event True e s)" by blast+
qed

lemma do_event_triggered:
  assumes "da_uninstall_triggered s"
  shows "da_uninstall_triggered (do_event True e s)"
  using assms by (cases e) (auto simp: on_gateway_status_def record_gone_def record_gone_locked_def
      record_healthy_def next_probe_delay_def)

lemma do_event_balanced:
  assumes "commands_balanced s"
  shows "commands_balanced (do_event en e s)"
proof (cases e)
  case Probe
  then show ?thesis using assms by (simp add: next_probe_delay_def commands_balanced_def)
next
  case (Status status rd)
  have req: "commands_balanced t \<Longrightarrow> commands_balanced (request_uninstall t)" for t
    by (auto simp: commands_balanced_def request_uninstall_def send_command_def)
  have locked: "commands_balanced (snd (record_gone_locked rd s))"
    using assms
    by (auto simp: commands_balanced_def record_gone_locked_def Let_def save_marker_def
        send_command_def split: health_phase.splits)
  have healthy: "commands_balanced (record_healthy rd s)"
    using assms
    by (auto simp: commands_balanced_def record_healthy_def Let_def remove_marker_def send_command_def)
  obtain due s1 where r: "record_gone_locked rd s = (due, s1)" by (cases "record_gone_locked rd s")
  have gone: "commands_balanced (record_gone rd s)"
    using locked req[of s1] by (cases due) (simp_all add: record_gone_def r)
  show ?thesis
    using assms gone healthy by (simp add: Status on_gateway_status_def)
qed

lemma run_follows:
  fixes marker :: "int option" and started :: nat
  defines "s \<equiv> \<lambda>evs. run_events evs (new_deactivation True marker started)"
  shows "da_uninstall_triggered (s evs) \<longleftrightarrow> must_have marker started evs"
    "\<not> da_uninstall_triggered (s evs) \<Longrightarrow> follows marker started evs (s evs)"
    "commands_balanced (s evs)"
proof -
  have "(da_uninstall_triggered (s evs) \<longleftrightarrow> must_have marker started evs)
    \<and> (\<not> da_uninstall_triggered (s evs) \<longrightarrow> follows marker started evs (s evs))
    \<and> commands_balanced (s evs)"
  proof (induction evs rule: rev_induct)
    case Nil
    show ?case
      by (auto simp: s_def new_deactivation_def follows_def gone_at_def commands_balanced_def)
  next
    case (snoc e evs)
    have step: "s (evs @ [e]) = do_event True e (s evs)" by (simp add: s_def)
    show ?case
    proof (cases "da_uninstall_triggered (s evs)")
      case True
      then show ?thesis using snoc do_event_triggered[OF True] do_event_balanced
        by (simp add: step must_have_snoc)
    next
      case False
      then show ?thesis
        using snoc do_event_follows[of marker started evs "s evs" e] do_event_balanced
        by (simp add: step must_have_snoc)
    qed
  qed
  then show "da_uninstall_triggered (s evs) \<longleftrightarrow> must_have marker started evs"
    "\<not> da_uninstall_triggered (s evs) \<Longrightarrow> follows marker started evs (s evs)"
    "commands_balanced (s evs)" by blast+
qed

text \<open>The trigger is only set while the tools are stopped, and nothing changes the gate after it.\<close>

lemma do_event_gate:
  assumes "da_uninstall_triggered s \<longrightarrow> is_suspended s" "commands_balanced s"
  shows "da_uninstall_triggered (do_event True e s) \<longrightarrow> is_suspended (do_event True e s)"
  using assms
  by (cases e) (auto simp: on_gateway_status_def record_gone_def record_gone_locked_def Let_def
      record_healthy_def next_probe_delay_def request_uninstall_def send_command_def
      save_marker_def remove_marker_def uninstall_due_def is_suspended_def commands_balanced_def
      split: option.splits if_splits)

lemma run_events_gate:
  assumes "da_uninstall_triggered s" "is_suspended s"
  shows "is_suspended (run_events later s)"
proof -
  have "da_uninstall_triggered (run_events later s) \<and> is_suspended (run_events later s)"
  proof (induction later rule: rev_induct)
    case (snoc e later)
    then show ?case
      using do_event_triggered[of "run_events later s" e]
      by (cases e) (auto simp: on_gateway_status_def record_gone_def record_gone_locked_def
          record_healthy_def next_probe_delay_def is_suspended_def)
  qed (simp add: assms)
  then show ?thesis by simp
qed

lemma run_triggered:
  fixes marker :: "int option" and started :: nat
  defines "s \<equiv> \<lambda>evs. run_events evs (new_deactivation True marker started)"
  shows "da_uninstall_triggered (s evs) \<longrightarrow>
    is_suspended (s evs) \<and> (\<forall>later. is_suspended (run_events later (s evs)))"
proof -
  have "da_uninstall_triggered (s evs) \<longrightarrow> is_suspended (s evs)"
  proof (induction evs rule: rev_induct)
    case (snoc e evs)
    then show ?case using do_event_gate[of "s evs" e] run_follows(3)[of evs marker started]
      by (simp add: s_def)
  qed (simp add: s_def new_deactivation_def)
  then show ?thesis using run_events_gate by blast
qed

text \<open>C4. On a platform where deactivation is enabled the client uninstalls itself exactly when the
  history of gateway answers says so: after some
  answer that was a 410, at least the fifth since the last success of this process, with the tenant
  gone (since the persisted marker or the first of those 410 answers) for at least two hours of
  wall-clock time, and this process at least one hour old. The uninstall command is then sent once
  and never again.\<close>

theorem uninstall_exactly_when_due:
  "let s = run_events evs (new_deactivation True marker started) in
     (Uninstall \<in> set (da_commands s) \<longleftrightarrow>
        (\<exists>n \<le> length evs. must_uninstall marker started (take n evs)))
     \<and> count_list (da_commands s) Uninstall \<le> 1"
proof -
  let ?s = "run_events evs (new_deactivation True marker started)"
  have "count_list (da_commands ?s) Uninstall = (if da_uninstall_triggered ?s then 1 else 0)"
    using run_follows(3)[of evs marker started] by (simp add: commands_balanced_def)
  moreover have "Uninstall \<in> set (da_commands ?s) \<longleftrightarrow> count_list (da_commands ?s) Uninstall \<noteq> 0"
    by (simp add: count_list_0_iff)
  ultimately show ?thesis
    using run_follows(1)[of evs marker started] by (auto simp: must_have_def Let_def)
qed

text \<open>C12. Outbound calls are gated exactly while the tools are stopped: as long as no uninstall was
  triggered, the gate is closed if and only if at least five 410 answers came since the last
  success, whatever transient errors came in between; once it was triggered the gate is closed and,
  whatever answers follow, stays closed; and at every moment the tools were told to stop once more
  than they were told to restart exactly when the gate is closed.\<close>

theorem suspended_iff_five_gone:
  "let s = run_events evs (new_deactivation True marker started) in
     (\<not> da_uninstall_triggered s \<longrightarrow> (is_suspended s \<longleftrightarrow> 5 \<le> length (episode evs)))
     \<and> (da_uninstall_triggered s \<longrightarrow> is_suspended s \<and> (\<forall>later. is_suspended (run_events later s)))
     \<and> count_list (da_commands s) StopTools =
         count_list (da_commands s) RestartTools + (if is_suspended s then 1 else 0)"
  using run_follows(2,3)[of evs marker started] run_triggered[of evs marker started]
  by (simp add: Let_def commands_balanced_def follows_def is_suspended_def)

definition sample_gone :: "nat \<Rightarrow> gateway_event" where
  "sample_gone minutes = Status 410 \<lparr> rd_now = int (minutes * 60 * NANOS),
     rd_mono = minutes * 60 * NANOS, rd_write_ok = True \<rparr>"

lemma suspended_iff_five_gone_witness:
  "is_suspended (run_events (map sample_gone [0, 1, 2, 3, 4]) (new_deactivation True None 0))"
proof -
  let ?evs = "map sample_gone [0, 1, 2, 3, 4]"
  have "\<not> da_uninstall_triggered (run_events ?evs (new_deactivation True None 0))"
    "length (episode ?evs) = 5"
    by code_simp+
  then show ?thesis
    using suspended_iff_five_gone[of ?evs None 0] by (simp add: Let_def)
qed


section \<open>The probe delay\<close>

interpretation probe: capped_backoff
  "\<lambda>d. min (d * 2) PROBE_BACKOFF_MAX" PROBE_BACKOFF_INITIAL PROBE_BACKOFF_MAX
  by unfold_locales
    (simp_all add: PROBE_BACKOFF_INITIAL_def PROBE_BACKOFF_MAX_def NANOS_def mult.commute)

fun probe_delays :: "nat \<Rightarrow> deactivation \<Rightarrow> nat list" where
  "probe_delays 0 s = []"
| "probe_delays (Suc n) s = (case next_probe_delay s of (d, s1) \<Rightarrow> d # probe_delays n s1)"

lemma probe_delays_from:
  "da_probe_backoff s = probe.delay_at k \<Longrightarrow>
   probe_delays n s = map probe.delay_at [k ..< k + n]"
proof (induction n arbitrary: s k)
  case (Suc n)
  obtain d s1 where s1: "next_probe_delay s = (d, s1)" by (cases "next_probe_delay s")
  have "d = probe.delay_at k" "da_probe_backoff s1 = probe.delay_at (Suc k)"
    using s1 Suc.prems probe.delay_at_Suc[of k]
    by (auto simp: next_probe_delay_def mult.commute)
  then show ?case using Suc.IH[of s1 "Suc k"] s1
    by (simp add: upt_conv_Cons del: upt_Suc)
qed simp

text \<open>While suspended, the delay before the n-th probe since the suspension or recovery that reset
  it is 60 seconds doubled n times, capped at thirty minutes.\<close>

theorem probe_delay_schedule:
  assumes "da_probe_backoff s = PROBE_BACKOFF_INITIAL"
  shows "probe_delays n s = map (\<lambda>k. min (2 ^ k * (60 * NANOS)) (1800 * NANOS)) [0 ..< n]"
proof -
  have "da_probe_backoff s = probe.delay_at 0"
    by (simp only: assms probe.delay_at_0)
  then have "probe_delays n s = map probe.delay_at [0 ..< n]"
    using probe_delays_from[of s 0 n] by simp
  moreover have "probe.delay_at = (\<lambda>k. min (2 ^ k * PROBE_BACKOFF_INITIAL) PROBE_BACKOFF_MAX)"
    by (rule ext) (rule probe.delay_at_closed)
  ultimately show ?thesis by (simp add: PROBE_BACKOFF_INITIAL_def PROBE_BACKOFF_MAX_def)
qed

lemma probe_delay_schedule_witness:
  "probe_delays 6 (new_deactivation True None 0) =
     map (\<lambda>m. m * 60 * NANOS) [1, 2, 4, 8, 16, 30]"
proof -
  have i: "da_probe_backoff (new_deactivation True None 0) = PROBE_BACKOFF_INITIAL"
    by (simp add: new_deactivation_def)
  have "map (\<lambda>k. min (2 ^ k * (60 * NANOS)) (1800 * NANOS)) [0 ..< 6] =
     map (\<lambda>m. m * 60 * NANOS) [1, 2, 4, 8, 16, 30]"
    by code_simp
  then show ?thesis using probe_delay_schedule[OF i, of 6] by simp
qed


section \<open>The verdict and the command are not one step\<close>

text \<open>The verdict is taken under the lock but acted on after it is released: when the gateway
  answers healthy in between, the client is back to healthy, has told the tools to restart, and
  is told to uninstall itself all the same.\<close>

theorem uninstall_after_recovery_race:
  assumes "record_gone_locked rd s = (True, s1)"
  shows "let s2 = request_uninstall (record_healthy rd' s1) in
     da_phase s2 = Healthy \<and> da_gone_since s2 = None \<and> \<not> is_suspended s2
     \<and> da_commands s2 = da_commands s1 @ [RestartTools, Uninstall]"
proof -
  have due: "uninstall_due rd s1" and nt: "\<not> da_uninstall_triggered s1"
    using assms by (auto simp: record_gone_locked_def Let_def save_marker_def send_command_def
        split: if_splits)
  then have susp: "da_phase s1 = Suspended" by (simp add: uninstall_due_def split: if_splits)
  show ?thesis
    using nt susp
    by (simp add: record_healthy_def request_uninstall_def send_command_def remove_marker_def
        is_suspended_def Let_def butlast_append)
qed

lemma uninstall_after_recovery_race_witness:
  "\<exists>s :: deactivation. Uninstall \<in> set (da_commands s) \<and> da_phase s = Healthy \<and> da_gone_since s = None"
proof -
  let ?s = "run_events (map sample_gone [0, 1, 2, 3, 4]) (new_deactivation True None 0)"
  let ?rd = "\<lparr> rd_now = int (200 * 60 * NANOS), rd_mono = 200 * 60 * NANOS, rd_write_ok = True \<rparr>"
  obtain s1 where r: "record_gone_locked ?rd ?s = (True, s1)"
  proof -
    have "fst (record_gone_locked ?rd ?s)" by code_simp
    then show thesis using that by (cases "record_gone_locked ?rd ?s") simp
  qed
  show ?thesis
    by (rule exI[of _ "request_uninstall (record_healthy ?rd s1)"])
      (use uninstall_after_recovery_race[OF r, of ?rd] in \<open>auto simp: Let_def\<close>)
qed

end
