(* ===== verification/Registry.thy ===== *)
theory Registry
  imports Prelude
begin

text \<open>The JSON files the client keeps its records in: the installed tools
  (services/installed\_tools\_service.rs), the tool connections
  (services/tool\_connection\_service.rs) and the agent configuration
  (services/agent\_configuration\_service.rs), with the records of models/installed\_tool.rs,
  models/tool\_connection.rs and models/agent\_configuration.rs.

  A file is missing, holds a parsed value, or is corrupt. Reading and writing may fail, as the
  environment of each operation says. The installed tools and the agent configuration are
  written to a temporary file that is renamed into place; the tool connections are written in
  place, so a failed write leaves a file that no longer parses.\<close>

datatype installation =
    Standard "string option"
  | GuiApp string "string option"
  | Service string "string option"

definition default_installation :: installation where
  "default_installation = Standard None"

fun executable_path :: "installation \<Rightarrow> string option" where
  "executable_path (Standard p) = p"
| "executable_path (GuiApp p b) = Some p"
| "executable_path (Service n p) = p"

fun is_standard :: "installation \<Rightarrow> bool" where
  "is_standard (Standard p) = True"
| "is_standard i = False"

fun is_gui_app :: "installation \<Rightarrow> bool" where
  "is_gui_app (GuiApp p b) = True"
| "is_gui_app i = False"

fun is_service :: "installation \<Rightarrow> bool" where
  "is_service (Service n p) = True"
| "is_service i = False"

record installed_asset =
  as_id :: string
  as_version :: string
  as_executable :: bool

datatype tool_record_state = Installing | Installed

record installed_tool =
  it_tool_agent_id :: string
  it_tool_id :: string
  it_tool_type :: string
  it_version :: string
  it_run_command_args :: "string list"
  it_tool_agent_id_command_args :: "string list"
  it_uninstallation_command_args :: "string list option"
  it_installation :: installation
  it_assets :: "installed_asset list"
  it_state :: tool_record_state

definition default_tool :: installed_tool where
  "default_tool = \<lparr> it_tool_agent_id = [], it_tool_id = [], it_tool_type = [], it_version = [],
     it_run_command_args = [], it_tool_agent_id_command_args = [],
     it_uninstallation_command_args = None, it_installation = default_installation,
     it_assets = [], it_state = Installed \<rparr>"

record tool_connection =
  tc_tool_agent_id :: string
  tc_agent_tool_id :: string
  tc_published :: bool


section \<open>Files\<close>

datatype 'a disk_file = Missing | Content 'a | Corrupt

record io_env =
  read_fails :: bool
  write_fails :: bool

datatype io_error = ReadError | ParseError | WriteError

definition read_file :: "io_env \<Rightarrow> 'a \<Rightarrow> 'a disk_file \<Rightarrow> (io_error, 'a) result" where
  "read_file io missing f =
    (case f of
       Missing \<Rightarrow> Ok missing
     | Content x \<Rightarrow> if read_fails io then Err ReadError else Ok x
     | Corrupt \<Rightarrow> if read_fails io then Err ReadError else Err ParseError)"

text \<open>Writing to a temporary file and renaming it: all or nothing. Writing in place: a failure
  leaves a truncated file.\<close>

definition write_atomically :: "io_env \<Rightarrow> 'a \<Rightarrow> 'a disk_file \<Rightarrow> (io_error, unit) result \<times> 'a disk_file" where
  "write_atomically io x f = (if write_fails io then (Err WriteError, f) else (Ok (), Content x))"

definition write_in_place :: "io_env \<Rightarrow> 'a \<Rightarrow> 'a disk_file \<Rightarrow> (io_error, unit) result \<times> 'a disk_file" where
  "write_in_place io x f = (if write_fails io then (Err WriteError, Corrupt) else (Ok (), Content x))"


definition io_ok :: io_env where "io_ok = \<lparr> read_fails = False, write_fails = False \<rparr>"
definition io_bad_write :: io_env where "io_bad_write = \<lparr> read_fails = False, write_fails = True \<rparr>"

lemma io_samples [simp]:
  "\<not> read_fails io_ok" "\<not> write_fails io_ok" "\<not> read_fails io_bad_write" "write_fails io_bad_write"
  by (simp_all add: io_ok_def io_bad_write_def)


section \<open>Lists of records under a key\<close>

fun upsert :: "('a \<Rightarrow> 'k) \<Rightarrow> 'a \<Rightarrow> 'a list \<Rightarrow> 'a list" where
  "upsert key x [] = [x]"
| "upsert key x (y # ys) = (if key y = key x then x # ys else y # upsert key x ys)"

definition lookup :: "('a \<Rightarrow> 'k) \<Rightarrow> 'a list \<Rightarrow> 'k \<Rightarrow> 'a option" where
  "lookup key xs k = find (\<lambda>x. key x = k) xs"

definition remove_key :: "('a \<Rightarrow> 'k) \<Rightarrow> 'k \<Rightarrow> 'a list \<Rightarrow> 'a list" where
  "remove_key key k xs = filter (\<lambda>x. key x \<noteq> k) xs"

fun modify_first :: "('a \<Rightarrow> bool) \<Rightarrow> ('a \<Rightarrow> 'a) \<Rightarrow> 'a list \<Rightarrow> 'a list option" where
  "modify_first P f [] = None"
| "modify_first P f (x # xs) =
     (if P x then Some (f x # xs) else map_option ((#) x) (modify_first P f xs))"

text \<open>The interface of such a store.\<close>

locale keyed_store =
  fixes key :: "'v \<Rightarrow> 'k"
    and find_in :: "'t \<Rightarrow> 'k \<Rightarrow> 'v option"
    and save :: "'v \<Rightarrow> 't \<Rightarrow> 't"
    and remove :: "'k \<Rightarrow> 't \<Rightarrow> 't"
    and ok :: "'t \<Rightarrow> bool"
  assumes find_save: "find_in (save v t) = (find_in t)(key v \<mapsto> v)"
    and find_remove: "find_in (remove k t) = (find_in t)(k := None)"
    and ok_save: "ok t \<Longrightarrow> ok (save v t)"
    and ok_remove: "ok t \<Longrightarrow> ok (remove k t)"
    and find_key: "find_in t k = Some v \<Longrightarrow> key v = k"
begin

lemma save_twice: "find_in (save v' (save v t)) = find_in (save v' t)" if "key v' = key v"
  using that by (simp add: find_save)

lemma save_commutes:
  "key v \<noteq> key v' \<Longrightarrow> find_in (save v (save v' t)) = find_in (save v' (save v t))"
  by (simp add: find_save fun_upd_twist)

lemma remove_saved: "find_in (remove (key v) (save v t)) = find_in (remove (key v) t)"
  by (simp add: find_save find_remove)

lemma find_save_all:
  "find_in (fold save vs t) k =
     (case find (\<lambda>v. key v = k) (rev vs) of Some v \<Rightarrow> Some v | None \<Rightarrow> find_in t k)"
proof (induction vs rule: rev_induct)
  case (snoc v vs)
  then show ?case by (simp add: find_save)
qed simp

lemma ok_save_all: "ok t \<Longrightarrow> ok (fold save vs t)"
  by (induction vs arbitrary: t) (auto intro: ok_save)

end

lemma lookup_upsert: "lookup key (upsert key x xs) = (lookup key xs)(key x \<mapsto> x)"
  by (induction key x xs rule: upsert.induct) (auto simp: lookup_def fun_eq_iff)

lemma lookup_remove: "lookup key (remove_key key k xs) = (lookup key xs)(k := None)"
  by (induction xs) (auto simp: lookup_def remove_key_def fun_eq_iff)

lemma upsert_keys: "key ` set (upsert key x xs) = insert (key x) (key ` set xs)"
  by (induction key x xs rule: upsert.induct) auto

lemma upsert_key_order:
  "map key (upsert key x xs) = (if key x \<in> key ` set xs then map key xs else map key xs @ [key x])"
  by (induction key x xs rule: upsert.induct) auto

lemma distinct_upsert: "distinct (map key xs) \<Longrightarrow> distinct (map key (upsert key x xs))"
  by (simp add: upsert_key_order)

lemma distinct_remove: "distinct (map key xs) \<Longrightarrow> distinct (map key (remove_key key k xs))"
  by (simp add: remove_key_def distinct_map_filter)

lemma lookup_key: "lookup key xs k = Some v \<Longrightarrow> key v = k"
  by (auto simp: lookup_def find_Some_iff)

lemma remove_key_length:
  "length (remove_key key k xs) \<noteq> length xs \<longleftrightarrow> lookup key xs k \<noteq> None"
proof -
  have "length (filter P xs) = length xs \<longleftrightarrow> (\<forall>x \<in> set xs. P x)" for P
    by (metis filter_True length_filter_less less_irrefl)
  then show ?thesis by (auto simp: remove_key_def lookup_def find_None_iff)
qed

interpretation tools: keyed_store it_tool_agent_id "lookup it_tool_agent_id"
  "upsert it_tool_agent_id" "remove_key it_tool_agent_id" "\<lambda>t. distinct (map it_tool_agent_id t)"
  by unfold_locales
    (rule lookup_upsert lookup_remove distinct_upsert distinct_remove lookup_key; assumption)+

interpretation connections: keyed_store tc_tool_agent_id "lookup tc_tool_agent_id"
  "upsert tc_tool_agent_id" "remove_key tc_tool_agent_id" "\<lambda>t. distinct (map tc_tool_agent_id t)"
  by unfold_locales
    (rule lookup_upsert lookup_remove distinct_upsert distinct_remove lookup_key; assumption)+



section \<open>Installed tools\<close>

type_synonym tools_file = "installed_tool list disk_file"

definition tools_get_all :: "io_env \<Rightarrow> tools_file \<Rightarrow> (io_error, installed_tool list) result" where
  "tools_get_all io f = read_file io [] f"

definition tools_save ::
  "io_env \<Rightarrow> installed_tool \<Rightarrow> tools_file \<Rightarrow> (io_error, unit) result \<times> tools_file" where
  "tools_save io tool f =
    (case tools_get_all io f of
       Inl e \<Rightarrow> (Err e, f)
     | Inr tools \<Rightarrow> write_atomically io (upsert it_tool_agent_id tool tools) f)"

definition tools_set_state ::
  "io_env \<Rightarrow> string \<Rightarrow> tool_record_state \<Rightarrow> tools_file \<Rightarrow> (io_error, bool) result \<times> tools_file" where
  "tools_set_state io i st f =
    (case tools_get_all io f of
       Inl e \<Rightarrow> (Err e, f)
     | Inr tools \<Rightarrow>
         (case modify_first (\<lambda>t. it_tool_agent_id t = i) (\<lambda>t. t \<lparr> it_state := st \<rparr>) tools of
            None \<Rightarrow> (Ok False, f)
          | Some tools' \<Rightarrow>
              (case write_atomically io tools' f of
                 (Inl e, f1) \<Rightarrow> (Err e, f1)
               | (Inr _, f1) \<Rightarrow> (Ok True, f1))))"

definition tools_get_by_tool_agent_id ::
  "io_env \<Rightarrow> string \<Rightarrow> tools_file \<Rightarrow> (io_error, installed_tool option) result" where
  "tools_get_by_tool_agent_id io i f =
    (case tools_get_all io f of
       Inl e \<Rightarrow> Err e
     | Inr tools \<Rightarrow> Ok (lookup it_tool_agent_id tools i))"

definition tools_delete ::
  "io_env \<Rightarrow> string \<Rightarrow> tools_file \<Rightarrow> (io_error, bool) result \<times> tools_file" where
  "tools_delete io i f =
    (case tools_get_all io f of
       Inl e \<Rightarrow> (Err e, f)
     | Inr tools \<Rightarrow>
         let tools' = remove_key it_tool_agent_id i tools in
         if length tools' \<noteq> length tools
         then (case write_atomically io tools' f of
                 (Inl e, f1) \<Rightarrow> (Err e, f1)
               | (Inr _, f1) \<Rightarrow> (Ok True, f1))
         else (Ok False, f))"

text \<open>The abstract registry: the map from tool agent ids to records.\<close>

definition tools_of :: "tools_file \<Rightarrow> installed_tool list" where
  "tools_of f = (case f of Content xs \<Rightarrow> xs | _ \<Rightarrow> [])"

definition registry :: "tools_file \<Rightarrow> string \<Rightarrow> installed_tool option" where
  "registry f = lookup it_tool_agent_id (tools_of f)"

definition tools_wf :: "tools_file \<Rightarrow> bool" where
  "tools_wf f = distinct (map it_tool_agent_id (tools_of f))"

lemma tools_get_all_ok: "tools_get_all io f = Ok xs \<Longrightarrow> xs = tools_of f"
  by (auto simp: tools_get_all_def read_file_def tools_of_def split: disk_file.splits if_splits)

lemma modify_first_lookup:
  "modify_first (\<lambda>t. key t = i) g xs = Some ys \<Longrightarrow> (\<And>t. key (g t) = key t) \<Longrightarrow>
   lookup key ys = (lookup key xs)(i := map_option g (lookup key xs i)) \<and> map key ys = map key xs"
proof (induction xs arbitrary: ys)
  case (Cons x xs)
  then show ?case
    by (auto simp: lookup_def fun_eq_iff split: if_splits)
qed simp

lemma modify_first_None:
  "modify_first (\<lambda>t. key t = i) g xs = None \<longleftrightarrow> lookup key xs i = None"
  by (induction xs) (auto simp: lookup_def)

lemma tools_save_map:
  assumes "tools_save io tool f = (r, f')"
  shows "registry f' = (if is_ok r then (registry f)(it_tool_agent_id tool \<mapsto> tool) else registry f)"
    "\<not> is_ok r \<longrightarrow> f' = f" "tools_wf f \<longrightarrow> tools_wf f'"
  using assms tools_get_all_ok
  by (fastforce simp: tools_save_def write_atomically_def registry_def tools_of_def tools_wf_def
      lookup_upsert distinct_upsert split: sum.splits if_splits disk_file.splits)+

lemma tools_delete_map:
  assumes "tools_delete io i f = (r, f')"
  shows "registry f' = (if is_ok r then (registry f)(i := None) else registry f)"
    "\<not> is_ok r \<longrightarrow> f' = f" "r = Ok b \<longrightarrow> (b \<longleftrightarrow> registry f i \<noteq> None)" "tools_wf f \<longrightarrow> tools_wf f'"
proof -
  have none: "length (remove_key it_tool_agent_id i xs) = length xs \<Longrightarrow>
      lookup it_tool_agent_id xs i = None" for xs
    using remove_key_length[of it_tool_agent_id i xs] by blast
  show "registry f' = (if is_ok r then (registry f)(i := None) else registry f)"
    "\<not> is_ok r \<longrightarrow> f' = f" "r = Ok b \<longrightarrow> (b \<longleftrightarrow> registry f i \<noteq> None)" "tools_wf f \<longrightarrow> tools_wf f'"
    using assms tools_get_all_ok[of io f] remove_key_length[of it_tool_agent_id i "tools_of f"]
      none[of "tools_of f"]
    by (auto simp: tools_delete_def Let_def write_atomically_def registry_def tools_wf_def
        lookup_remove distinct_remove tools_of_def[of "Content _"] fun_upd_idem
        split: sum.splits if_splits)
qed

lemma tools_set_state_map:
  assumes "tools_set_state io i st f = (r, f')"
  shows "registry f' = (if is_ok r
      then (registry f)(i := map_option (\<lambda>t. t \<lparr> it_state := st \<rparr>) (registry f i)) else registry f)"
    "\<not> is_ok r \<longrightarrow> f' = f" "r = Ok b \<longrightarrow> (b \<longleftrightarrow> registry f i \<noteq> None)" "tools_wf f \<longrightarrow> tools_wf f'"
proof -
  let ?m = "modify_first (\<lambda>t. it_tool_agent_id t = i) (\<lambda>t. t \<lparr> it_state := st \<rparr>) (tools_of f)"
  have m: "?m = Some ys \<Longrightarrow> lookup it_tool_agent_id ys = (lookup it_tool_agent_id (tools_of f))
        (i := map_option (\<lambda>t. t \<lparr> it_state := st \<rparr>) (lookup it_tool_agent_id (tools_of f) i))
      \<and> map it_tool_agent_id ys = map it_tool_agent_id (tools_of f)" for ys
    by (rule modify_first_lookup) simp_all
  have n: "?m = None \<longleftrightarrow> lookup it_tool_agent_id (tools_of f) i = None"
    by (rule modify_first_None)
  show "registry f' = (if is_ok r
      then (registry f)(i := map_option (\<lambda>t. t \<lparr> it_state := st \<rparr>) (registry f i)) else registry f)"
    "\<not> is_ok r \<longrightarrow> f' = f" "r = Ok b \<longrightarrow> (b \<longleftrightarrow> registry f i \<noteq> None)" "tools_wf f \<longrightarrow> tools_wf f'"
    using assms tools_get_all_ok[of io f] m n
    by (auto simp: tools_set_state_def write_atomically_def registry_def tools_wf_def
        tools_of_def[of "Content _"] fun_upd_idem split: sum.splits if_splits option.splits)
qed

datatype tools_op =
    SaveTool installed_tool
  | DeleteTool string
  | SetToolState string tool_record_state

fun do_tools_op :: "io_env \<Rightarrow> tools_op \<Rightarrow> tools_file \<Rightarrow> bool \<times> tools_file" where
  "do_tools_op io (SaveTool t) f = (case tools_save io t f of (r, f1) \<Rightarrow> (is_ok r, f1))"
| "do_tools_op io (DeleteTool i) f = (case tools_delete io i f of (r, f1) \<Rightarrow> (is_ok r, f1))"
| "do_tools_op io (SetToolState i st) f =
     (case tools_set_state io i st f of (r, f1) \<Rightarrow> (is_ok r, f1))"

fun spec_tools_op ::
  "tools_op \<Rightarrow> (string \<rightharpoonup> installed_tool) \<Rightarrow> (string \<rightharpoonup> installed_tool)" where
  "spec_tools_op (SaveTool t) m = m(it_tool_agent_id t \<mapsto> t)"
| "spec_tools_op (DeleteTool i) m = m(i := None)"
| "spec_tools_op (SetToolState i st) m = m(i := map_option (\<lambda>t. t \<lparr> it_state := st \<rparr>) (m i))"

fun run_tools_ops ::
  "(io_env \<times> tools_op) list \<Rightarrow> tools_file \<Rightarrow> tools_op list \<times> tools_file" where
  "run_tools_ops [] f = ([], f)"
| "run_tools_ops ((io, op) # ops) f =
     (case do_tools_op io op f of
        (ok, f1) \<Rightarrow>
          (case run_tools_ops ops f1 of
             (applied, f2) \<Rightarrow> (if ok then op # applied else applied, f2)))"

lemma do_tools_op_refines:
  assumes "do_tools_op io op f = (ok, f')"
  shows "registry f' = (if ok then spec_tools_op op (registry f) else registry f)
    \<and> (\<not> ok \<longrightarrow> f' = f) \<and> (tools_wf f \<longrightarrow> tools_wf f')"
proof (cases op)
  case (SaveTool t)
  obtain r f1 where "tools_save io t f = (r, f1)" by (cases "tools_save io t f")
  then show ?thesis using assms tools_save_map[of io t f r f1] by (simp add: SaveTool)
next
  case (DeleteTool i)
  obtain r f1 where "tools_delete io i f = (r, f1)" by (cases "tools_delete io i f")
  then show ?thesis using assms tools_delete_map[of io i f r f1] by (simp add: DeleteTool)
next
  case (SetToolState i st)
  obtain r f1 where "tools_set_state io i st f = (r, f1)" by (cases "tools_set_state io i st f")
  then show ?thesis using assms tools_set_state_map[of io i st f r f1] by (simp add: SetToolState)
qed

text \<open>C9. The installed tools file implements a map from tool agent ids to records: after any
  sequence of saves, deletions and state changes, with reads and writes failing at any point, the
  file's map is the effect of exactly the operations that reported success, in order, and the
  ids in the file stay distinct.\<close>

theorem tools_file_refines_map:
  "case run_tools_ops ops f of (applied, f') \<Rightarrow>
     registry f' = fold spec_tools_op applied (registry f) \<and> (tools_wf f \<longrightarrow> tools_wf f')"
proof (induction ops f rule: run_tools_ops.induct)
  case (2 io op ops f)
  obtain ok f1 where d: "do_tools_op io op f = (ok, f1)" by (cases "do_tools_op io op f")
  obtain applied f2 where r: "run_tools_ops ops f1 = (applied, f2)" by (cases "run_tools_ops ops f1")
  show ?case
    using 2[OF d[symmetric]] do_tools_op_refines[OF d] d r by auto
qed simp

lemma tools_file_refines_map_witness:
  "tools_wf (snd (run_tools_ops [(io_ok, SaveTool default_tool), (io_bad_write, DeleteTool [])] Missing))"
proof -
  have "tools_wf Missing" by (simp add: tools_wf_def tools_of_def)
  then show ?thesis
    using tools_file_refines_map[where f = Missing and
        ops = "[(io_ok, SaveTool default_tool), (io_bad_write, DeleteTool [])]"]
    by (auto split: prod.splits)
qed


section \<open>Tool connections\<close>

type_synonym connections_file = "tool_connection list disk_file"

definition connections_get_all ::
  "io_env \<Rightarrow> connections_file \<Rightarrow> (io_error, tool_connection list) result" where
  "connections_get_all io f = read_file io [] f"

definition connections_save ::
  "io_env \<Rightarrow> tool_connection \<Rightarrow> connections_file \<Rightarrow> (io_error, unit) result \<times> connections_file" where
  "connections_save io c f =
    (case connections_get_all io f of
       Inl e \<Rightarrow> (Err e, f)
     | Inr list \<Rightarrow> write_in_place io (upsert tc_tool_agent_id c list) f)"

definition connections_delete ::
  "io_env \<Rightarrow> string \<Rightarrow> connections_file \<Rightarrow> (io_error, bool) result \<times> connections_file" where
  "connections_delete io i f =
    (case connections_get_all io f of
       Inl e \<Rightarrow> (Err e, f)
     | Inr list \<Rightarrow>
         let list' = remove_key tc_tool_agent_id i list in
         if length list' \<noteq> length list
         then (case write_in_place io list' f of
                 (Inl e, f1) \<Rightarrow> (Err e, f1)
               | (Inr _, f1) \<Rightarrow> (Ok True, f1))
         else (Ok False, f))"

text \<open>One failed write of the tool connections destroys them for good: after it every later read,
  save and deletion fails, whatever their own input and output does, and the file never parses
  again.\<close>

theorem connection_write_failure_is_permanent:
  assumes "connections_get_all io f = Ok list" "write_fails io"
    and "(r, f') = connections_save io c f"
  shows "r = Err WriteError \<and> \<not> is_ok (connections_get_all io' f')
    \<and> (\<not> is_ok (fst (connections_save io' c' f')) \<and> snd (connections_save io' c' f') = f')
    \<and> (\<not> is_ok (fst (connections_delete io' i f')) \<and> snd (connections_delete io' i f') = f')"
  using assms
  by (auto simp: connections_save_def connections_delete_def connections_get_all_def
      write_in_place_def read_file_def)

definition sample_connection :: tool_connection where
  "sample_connection = \<lparr> tc_tool_agent_id = ''a'', tc_agent_tool_id = ''x'', tc_published = True \<rparr>"

lemma connection_write_failure_is_permanent_witness:
  "\<not> is_ok (connections_get_all io_ok
      (snd (connections_save io_bad_write sample_connection (Content [sample_connection]))))"
proof -
  have "connections_get_all io_bad_write (Content [sample_connection]) = Ok [sample_connection]"
    by (simp add: connections_get_all_def read_file_def)
  then show ?thesis
    using connection_write_failure_is_permanent[OF _ _ prod.collapse, of io_bad_write
        "Content [sample_connection]" "[sample_connection]" sample_connection io_ok]
    by simp
qed


section \<open>Agent configuration\<close>

record agent_configuration =
  ac_machine_id :: string
  ac_client_id :: string
  ac_client_secret :: string
  ac_access_token :: string
  ac_refresh_token :: string

definition default_configuration :: agent_configuration where
  "default_configuration = \<lparr> ac_machine_id = [], ac_client_id = [], ac_client_secret = [],
     ac_access_token = [], ac_refresh_token = [] \<rparr>"

type_synonym config_file = "agent_configuration disk_file"

definition config_get :: "io_env \<Rightarrow> config_file \<Rightarrow> (io_error, agent_configuration) result" where
  "config_get io f = read_file io default_configuration f"

definition save_registration_data ::
  "io_env \<Rightarrow> string \<Rightarrow> string \<Rightarrow> string \<Rightarrow> config_file \<Rightarrow> (io_error, unit) result \<times> config_file" where
  "save_registration_data io machine_id client_id client_secret f =
    (case config_get io f of
       Inl e \<Rightarrow> (Err e, f)
     | Inr config \<Rightarrow>
         write_atomically io (config \<lparr> ac_machine_id := machine_id, ac_client_id := client_id,
           ac_client_secret := client_secret \<rparr>) f)"

definition update_tokens ::
  "io_env \<Rightarrow> string \<Rightarrow> string \<Rightarrow> config_file \<Rightarrow> (io_error, unit) result \<times> config_file" where
  "update_tokens io access_token refresh_token f =
    (case config_get io f of
       Inl e \<Rightarrow> (Err e, f)
     | Inr config \<Rightarrow>
         write_atomically io (config \<lparr> ac_access_token := access_token,
           ac_refresh_token := refresh_token \<rparr>) f)"

definition get_machine_id :: "io_env \<Rightarrow> config_file \<Rightarrow> (io_error, string) result" where
  "get_machine_id io f = map_sum id ac_machine_id (config_get io f)"

definition get_registration_credentials ::
  "io_env \<Rightarrow> config_file \<Rightarrow> (io_error, string \<times> string) result" where
  "get_registration_credentials io f =
    map_sum id (\<lambda>c. (ac_machine_id c, ac_client_secret c)) (config_get io f)"

definition get_client_credentials ::
  "io_env \<Rightarrow> config_file \<Rightarrow> (io_error, string \<times> string) result" where
  "get_client_credentials io f =
    map_sum id (\<lambda>c. (ac_client_id c, ac_client_secret c)) (config_get io f)"

definition get_access_token :: "io_env \<Rightarrow> config_file \<Rightarrow> (io_error, string) result" where
  "get_access_token io f = map_sum id ac_access_token (config_get io f)"

definition get_refresh_token :: "io_env \<Rightarrow> config_file \<Rightarrow> (io_error, string) result" where
  "get_refresh_token io f = map_sum id ac_refresh_token (config_get io f)"

datatype config_op = Register string string string | Tokens string string

fun do_config_op :: "io_env \<Rightarrow> config_op \<Rightarrow> config_file \<Rightarrow> (io_error, unit) result \<times> config_file" where
  "do_config_op io (Register m c s) f = save_registration_data io m c s f"
| "do_config_op io (Tokens a r) f = update_tokens io a r f"

text \<open>The two writers of the agent configuration never lose each other's fields: a successful
  registration sets the three registration values and keeps the tokens, a successful token update
  keeps the registration values, and a failed write leaves the file as it was.\<close>

theorem config_writers_independent:
  assumes "do_config_op io op f = (r, f')" "config_get io_ok f = Ok c"
  shows "(is_ok r \<longrightarrow>
      get_access_token io_ok f' = Ok (case op of Register _ _ _ \<Rightarrow> ac_access_token c | Tokens a _ \<Rightarrow> a)
    \<and> get_refresh_token io_ok f' = Ok (case op of Register _ _ _ \<Rightarrow> ac_refresh_token c | Tokens _ t \<Rightarrow> t)
    \<and> get_registration_credentials io_ok f' =
        Ok (case op of Register m _ s \<Rightarrow> (m, s) | Tokens _ _ \<Rightarrow> (ac_machine_id c, ac_client_secret c))
    \<and> get_client_credentials io_ok f' =
        Ok (case op of Register _ i s \<Rightarrow> (i, s) | Tokens _ _ \<Rightarrow> (ac_client_id c, ac_client_secret c)))
    \<and> (\<not> is_ok r \<longrightarrow> f' = f)"
  using assms
  by (cases op; cases f)
    (auto simp: save_registration_data_def update_tokens_def config_get_def read_file_def
      write_atomically_def get_access_token_def get_refresh_token_def
      get_registration_credentials_def get_client_credentials_def split: if_splits)

lemma config_writers_independent_witness:
  "get_refresh_token io_ok (snd (do_config_op io_ok (Register ''m'' ''c'' ''s'')
     (Content (default_configuration \<lparr> ac_refresh_token := ''r'' \<rparr>)))) = Ok ''r''"
proof -
  let ?f = "Content (default_configuration \<lparr> ac_refresh_token := ''r'' \<rparr>)"
  have c: "config_get io_ok ?f = Ok (default_configuration \<lparr> ac_refresh_token := ''r'' \<rparr>)"
    by (simp add: config_get_def read_file_def)
  have "is_ok (fst (do_config_op io_ok (Register ''m'' ''c'' ''s'') ?f))"
    by (simp add: save_registration_data_def c write_atomically_def)
  then show ?thesis
    using config_writers_independent[OF prod.collapse[symmetric] c, of io_ok "Register ''m'' ''c'' ''s''"]
    by simp
qed

end
