(* ===== verification/Supervision.thy ===== *)
theory Supervision
  imports Registry "HOL-Library.Multiset"
begin

text \<open>The tool run manager (services/tool\_run\_manager.rs): which tools are supervised, which are
  being operated on, the per-tool locks, the shutdown flag, the pending-client-update flag, and
  the supervisor loop of each tool. A supervisor is a state machine with one state per await point
  of its loop; the platform, the executor of processes and the registry file are the environment's.
  Logging (and its failure back-off) is left out of the loop.\<close>

datatype platform = Windows | MacOS | Linux

datatype sup_phase =
    LoopTop
  | CheckUpdating bool
  | CheckRunning
  | Prepare
  | Spawn
  | ChildRunning
  | Retry
  | Exited

record supervisor =
  sp_tool :: installed_tool
  sp_installation :: installation
  sp_new_tool :: bool
  sp_phase :: sup_phase

datatype rm_event =
    ToolStopped string
  | ServiceStarted string
  | Launched string

record run_manager =
  rm_running :: "string set"
  rm_updating :: "string \<rightharpoonup> nat"
  rm_tool_locks :: "string \<rightharpoonup> nat"
  rm_next_lock :: nat
  rm_shutting_down :: bool
  rm_pending_since :: "nat option"
  rm_supervisors :: "supervisor list"
  rm_tools :: tools_file
  rm_events :: "rm_event list"

record run_env =
  re_platform :: platform
  re_read :: io_env
  re_write :: io_env
  re_binary_present :: "string \<Rightarrow> bool"
  re_stop_ok :: "string \<Rightarrow> bool"
  re_start_service_ok :: "string \<Rightarrow> bool"

datatype run_error = ListToolsFailed | StopToolFailed string

definition CLIENT_UPDATE_PENDING_TTL_SECS :: nat where "CLIENT_UPDATE_PENDING_TTL_SECS = 300"

abbreviation tool_name :: "installed_tool \<Rightarrow> string" where "tool_name \<equiv> it_tool_agent_id"

definition record_rm :: "rm_event \<Rightarrow> run_manager \<Rightarrow> run_manager" where
  "record_rm e s = s \<lparr> rm_events := rm_events s @ [e] \<rparr>"


section \<open>Flags and locks\<close>

text \<open>The lock of a tool is created on first use and is the same one ever after.\<close>

definition tool_lock :: "string \<Rightarrow> run_manager \<Rightarrow> nat \<times> run_manager" where
  "tool_lock i s =
    (case rm_tool_locks s i of
       Some m \<Rightarrow> (m, s)
     | None \<Rightarrow> (rm_next_lock s,
         s \<lparr> rm_tool_locks := (rm_tool_locks s)(i \<mapsto> rm_next_lock s),
             rm_next_lock := Suc (rm_next_lock s) \<rparr>))"

definition signal_shutdown :: "run_manager \<Rightarrow> run_manager" where
  "signal_shutdown s = s \<lparr> rm_shutting_down := True \<rparr>"

definition mark_client_update_pending :: "nat \<Rightarrow> run_manager \<Rightarrow> run_manager" where
  "mark_client_update_pending now s = s \<lparr> rm_pending_since := Some now \<rparr>"

definition is_client_update_pending :: "nat \<Rightarrow> run_manager \<Rightarrow> bool" where
  "is_client_update_pending now s =
    (case rm_pending_since s of
       Some since \<Rightarrow> now - since < CLIENT_UPDATE_PENDING_TTL_SECS
     | None \<Rightarrow> False)"

definition clear_client_update_pending :: "run_manager \<Rightarrow> run_manager" where
  "clear_client_update_pending s = s \<lparr> rm_pending_since := None \<rparr>"

definition mark_updating :: "string \<Rightarrow> run_manager \<Rightarrow> run_manager" where
  "mark_updating i s =
    (let n = (case rm_updating s i of None \<Rightarrow> 0 | Some n \<Rightarrow> n) in
     s \<lparr> rm_updating := (rm_updating s)(i \<mapsto> n + 1) \<rparr>)"

definition clear_updating :: "string \<Rightarrow> run_manager \<Rightarrow> run_manager" where
  "clear_updating i s =
    (case rm_updating s i of
       None \<Rightarrow> s
     | Some n \<Rightarrow>
         s \<lparr> rm_updating := (if n - 1 = 0 then (rm_updating s)(i := None)
                              else (rm_updating s)(i \<mapsto> n - 1)) \<rparr>)"

definition is_updating :: "string \<Rightarrow> run_manager \<Rightarrow> bool" where
  "is_updating i s = (rm_updating s i \<noteq> None)"

definition any_tool_op_in_progress :: "run_manager \<Rightarrow> bool" where
  "any_tool_op_in_progress s = (rm_updating s \<noteq> Map.empty)"

definition try_mark_running :: "string \<Rightarrow> run_manager \<Rightarrow> bool \<times> run_manager" where
  "try_mark_running i s =
    (if i \<in> rm_running s then (False, s)
     else (True, s \<lparr> rm_running := insert i (rm_running s) \<rparr>))"

definition clear_running_tool :: "string \<Rightarrow> run_manager \<Rightarrow> run_manager" where
  "clear_running_tool i s = s \<lparr> rm_running := rm_running s - {i} \<rparr>"


section \<open>Starting and stopping supervision\<close>

definition new_supervisor :: "installed_tool \<Rightarrow> bool \<Rightarrow> supervisor" where
  "new_supervisor tool new_tool =
    \<lparr> sp_tool = tool, sp_installation = it_installation tool, sp_new_tool = new_tool,
      sp_phase = LoopTop \<rparr>"

text \<open>On Windows a GUI application is owned by the logon autorun and is never stopped first.\<close>

definition run_tool ::
  "run_env \<Rightarrow> installed_tool \<Rightarrow> bool \<Rightarrow> run_manager \<Rightarrow> (run_error, unit) result \<times> run_manager" where
  "run_tool E tool new_tool s =
    (if is_service (it_installation tool) then (Ok (), clear_running_tool (tool_name tool) s)
     else if re_platform E = Windows \<and> is_gui_app (it_installation tool) then
       (Ok (), s \<lparr> rm_supervisors := rm_supervisors s @ [new_supervisor tool new_tool] \<rparr>)
     else if \<not> re_stop_ok E (tool_name tool) then (Err (StopToolFailed (tool_name tool)), s)
     else
       (Ok (), (record_rm (ToolStopped (tool_name tool)) s)
          \<lparr> rm_supervisors := rm_supervisors s @ [new_supervisor tool new_tool] \<rparr>))"

definition run_new_tool ::
  "run_env \<Rightarrow> installed_tool \<Rightarrow> run_manager \<Rightarrow> (run_error, unit) result \<times> run_manager" where
  "run_new_tool E tool s =
    (case try_mark_running (tool_name tool) s of
       (False, s1) \<Rightarrow> (Ok (), s1)
     | (True, s1) \<Rightarrow> run_tool E tool True s1)"

fun recheck_installing :: "run_env \<Rightarrow> installed_tool list \<Rightarrow> run_manager \<Rightarrow> run_manager" where
  "recheck_installing E [] s = s"
| "recheck_installing E (tool # tools) s =
     (if it_state tool \<noteq> Installing then recheck_installing E tools s
      else if \<not> re_binary_present E (tool_name tool) then recheck_installing E tools s
      else if is_service (it_installation tool) then recheck_installing E tools s
      else recheck_installing E tools
        (s \<lparr> rm_tools := snd (tools_set_state (re_write E) (tool_name tool) Installed (rm_tools s)) \<rparr>))"

fun run_each ::
  "run_env \<Rightarrow> installed_tool list \<Rightarrow> run_manager \<Rightarrow> (run_error, unit) result \<times> run_manager" where
  "run_each E [] s = (Ok (), s)"
| "run_each E (tool # tools) s =
     (case try_mark_running (tool_name tool) s of
        (False, s1) \<Rightarrow> run_each E tools s1
      | (True, s1) \<Rightarrow>
          (case run_tool E tool False s1 of
             (Inl e, s2) \<Rightarrow> (Err e, s2)
           | (Inr _, s2) \<Rightarrow> run_each E tools s2))"

definition run_all ::
  "run_env \<Rightarrow> run_manager \<Rightarrow> (run_error, unit) result \<times> run_manager" where
  "run_all E s =
    (case tools_get_all (re_read E) (rm_tools s) of
       Inl e \<Rightarrow> (Err ListToolsFailed, s)
     | Inr tools \<Rightarrow>
         if tools = [] then (Ok (), s) else run_each E tools (recheck_installing E tools s))"

fun stop_each :: "run_env \<Rightarrow> installed_tool list \<Rightarrow> run_manager \<Rightarrow> run_manager" where
  "stop_each E [] s = s"
| "stop_each E (tool # tools) s =
     stop_each E tools
       (if re_stop_ok E (tool_name tool) then record_rm (ToolStopped (tool_name tool)) s else s)"

definition stop_all ::
  "run_env \<Rightarrow> run_manager \<Rightarrow> (run_error, unit) result \<times> run_manager" where
  "stop_all E s =
    (let s1 = (signal_shutdown s) \<lparr> rm_running := {} \<rparr> in
     case tools_get_all (re_read E) (rm_tools s1) of
       Inl e \<Rightarrow> (Err ListToolsFailed, s1)
     | Inr tools \<Rightarrow> (Ok (), stop_each E tools s1))"

fun start_services :: "run_env \<Rightarrow> installed_tool list \<Rightarrow> run_manager \<Rightarrow> run_manager" where
  "start_services E [] s = s"
| "start_services E (tool # tools) s =
     start_services E tools
       (case it_installation tool of
          Service name _ \<Rightarrow> if re_start_service_ok E name then record_rm (ServiceStarted name) s else s
        | _ \<Rightarrow> s)"

definition restart_all ::
  "run_env \<Rightarrow> run_manager \<Rightarrow> (run_error, unit) result \<times> run_manager" where
  "restart_all E s =
    (let s1 = s \<lparr> rm_shutting_down := False, rm_running := {} \<rparr>;
         s2 = (case tools_get_all (re_read E) (rm_tools s1) of
                 Inl e \<Rightarrow> s1
               | Inr tools \<Rightarrow> start_services E tools s1)
     in run_all E s2)"


section \<open>The supervisor loop\<close>

text \<open>What the loop sees of the outside at one step.\<close>

record loop_env =
  le_platform :: platform
  le_read :: io_env
  le_args_ok :: bool
  le_spawn_ok :: bool
  le_gui_running :: bool
  le_gui_launch_ok :: bool
  le_gui_verified :: bool

definition at_phase :: "sup_phase \<Rightarrow> supervisor \<Rightarrow> supervisor" where
  "at_phase p sp = sp \<lparr> sp_phase := p \<rparr>"

definition prepare_step :: "loop_env \<Rightarrow> supervisor \<Rightarrow> run_manager \<Rightarrow> supervisor \<times> run_manager" where
  "prepare_step E sp s =
    (let i = tool_name (sp_tool sp) in
     if \<not> le_args_ok E then (at_phase Retry sp, s)
     else case sp_installation sp of
         Standard _ \<Rightarrow> (at_phase Spawn sp, s)
       | Service _ _ \<Rightarrow> (at_phase Exited sp, clear_running_tool i s)
       | GuiApp _ _ \<Rightarrow>
           (case le_platform E of
              Linux \<Rightarrow> (at_phase Spawn sp, s)
            | Windows \<Rightarrow>
                if rm_shutting_down s then (at_phase Exited sp, s)
                else (at_phase Exited sp, clear_running_tool i
                        (if sp_new_tool sp \<and> le_gui_launch_ok E then record_rm (Launched i) s else s))
            | MacOS \<Rightarrow>
                if le_gui_running E then (at_phase Exited sp, clear_running_tool i s)
                else if \<not> le_gui_launch_ok E then (at_phase Retry sp, s)
                else if le_gui_verified E
                  then (at_phase Exited sp, clear_running_tool i (record_rm (Launched i) s))
                else (at_phase Retry sp, record_rm (Launched i) s)))"

text \<open>The head of the loop: the shutdown flag, the wait while the tool is operated on, the re-read
  of its installation after such a wait, and the check that it is still supervised.\<close>

definition check_step :: "loop_env \<Rightarrow> supervisor \<Rightarrow> run_manager \<Rightarrow> supervisor" where
  "check_step E sp s =
    (let i = tool_name (sp_tool sp) in
     case sp_phase sp of
       LoopTop \<Rightarrow> at_phase (if rm_shutting_down s then Exited else CheckUpdating False) sp
     | CheckUpdating was_updating \<Rightarrow>
         if is_updating i s then at_phase (CheckUpdating True) sp
         else if was_updating then
           (case tools_get_by_tool_agent_id (le_read E) i (rm_tools s) of
              Inr (Some fresh) \<Rightarrow>
                at_phase CheckRunning (sp \<lparr> sp_installation := it_installation fresh \<rparr>)
            | _ \<Rightarrow> at_phase CheckRunning sp)
         else at_phase CheckRunning sp
     | CheckRunning \<Rightarrow> at_phase (if i \<in> rm_running s then Prepare else Exited) sp
     | _ \<Rightarrow> sp)"

definition spawn_step :: "loop_env \<Rightarrow> supervisor \<Rightarrow> run_manager \<Rightarrow> supervisor \<times> run_manager" where
  "spawn_step E sp s =
    (if rm_shutting_down s then (at_phase Exited sp, s)
     else if le_spawn_ok E
       then (at_phase ChildRunning sp, record_rm (Launched (tool_name (sp_tool sp))) s)
     else (at_phase Retry sp, s))"

text \<open>The child exited (however), then the five seconds have passed.\<close>

definition wait_step :: "supervisor \<Rightarrow> supervisor" where
  "wait_step sp = at_phase (if sp_phase sp = ChildRunning then Retry else LoopTop) sp"

definition sup_step :: "loop_env \<Rightarrow> supervisor \<Rightarrow> run_manager \<Rightarrow> supervisor \<times> run_manager" where
  "sup_step E sp s =
    (case sp_phase sp of
       LoopTop \<Rightarrow> (check_step E sp s, s)
     | CheckUpdating _ \<Rightarrow> (check_step E sp s, s)
     | CheckRunning \<Rightarrow> (check_step E sp s, s)
     | Prepare \<Rightarrow> prepare_step E sp s
     | Spawn \<Rightarrow> spawn_step E sp s
     | ChildRunning \<Rightarrow> (wait_step sp, s)
     | Retry \<Rightarrow> (wait_step sp, s)
     | Exited \<Rightarrow> (sp, s))"

definition step_supervisor :: "loop_env \<Rightarrow> nat \<Rightarrow> run_manager \<Rightarrow> run_manager" where
  "step_supervisor E n s =
    (case sup_step E (rm_supervisors s ! n) s of
       (sp, s1) \<Rightarrow> s1 \<lparr> rm_supervisors := (rm_supervisors s1)[n := sp] \<rparr>)"

definition live :: "supervisor \<Rightarrow> bool" where "live sp = (sp_phase sp \<noteq> Exited)"

definition live_of :: "string \<Rightarrow> run_manager \<Rightarrow> supervisor list" where
  "live_of i s = filter (\<lambda>sp. live sp \<and> tool_name (sp_tool sp) = i) (rm_supervisors s)"



section \<open>Operations in flight\<close>

text \<open>Install, uninstall, restart and update mark a tool while they work on it and clear it exactly
  once when they end. The step relation begins and ends such operations in any interleaving.\<close>

inductive op_step :: "run_manager \<times> string multiset \<Rightarrow> run_manager \<times> string multiset \<Rightarrow> bool" where
  op_begin: "op_step (s, M) (mark_updating i s, add_mset i M)"
| op_end: "i \<in># M \<Longrightarrow> op_step (s, M) (clear_updating i s, M - {#i#})"

definition refcount :: "string multiset \<Rightarrow> string \<rightharpoonup> nat" where
  "refcount M i = (if i \<in># M then Some (count M i) else None)"

fun op_init :: "run_manager \<times> string multiset \<Rightarrow> bool" where
  "op_init (s, M) \<longleftrightarrow> rm_updating s = Map.empty \<and> M = {#}"

fun op_inv :: "run_manager \<times> string multiset \<Rightarrow> bool" where
  "op_inv (s, M) \<longleftrightarrow> rm_updating s = refcount M"

lemma refcount_add: "refcount (add_mset i M) = (refcount M)
    (i \<mapsto> (case refcount M i of None \<Rightarrow> 0 | Some n \<Rightarrow> n) + 1)"
  by (auto simp: refcount_def fun_eq_iff count_eq_zero_iff split: option.split)

lemma refcount_remove:
  assumes "i \<in># M"
  shows "refcount (M - {#i#}) =
    (if count M i - 1 = 0 then (refcount M)(i := None) else (refcount M)(i \<mapsto> count M i - 1))"
proof
  fix j
  have "j \<in># M - {#i#} \<longleftrightarrow> (if j = i then 1 < count M i else j \<in># M)"
    by (simp add: count_greater_zero_iff[symmetric] del: count_greater_zero_iff)
  then show "refcount (M - {#i#}) j =
    (if count M i - 1 = 0 then (refcount M)(i := None) else (refcount M)(i \<mapsto> count M i - 1)) j"
    by (auto simp: refcount_def)
qed

lemma op_inv_step: "op_inv sm \<Longrightarrow> op_step sm sm' \<Longrightarrow> op_inv sm'"
  by (erule op_step.cases)
    (auto simp: mark_updating_def clear_updating_def refcount_add refcount_remove Let_def
      refcount_def[of _ "_ :: string"])

lemma op_inv_init: "op_init sm \<Longrightarrow> op_inv sm"
  by (cases sm) (auto simp: refcount_def fun_eq_iff)

interpretation ops: inv_system op_init op_step op_inv
  by unfold_locales (rule op_inv_init op_inv_step; assumption)+

text \<open>C8. The in-flight mark is a reference count: in every reachable state a tool is reported as being
  updated exactly when at least one operation on it has begun and not ended, however the operations
  overlap, and some operation is reported in progress exactly when one is.\<close>

theorem updating_iff_in_flight:
  assumes "op_init (s0, {#})" "op_step\<^sup>*\<^sup>* (s0, {#}) (s, M)"
  shows "(is_updating i s \<longleftrightarrow> i \<in># M) \<and> (any_tool_op_in_progress s \<longleftrightarrow> M \<noteq> {#})"
proof -
  have inv: "rm_updating s = refcount M"
    using ops.inv_reachable[OF assms] by simp
  have "is_updating i s \<longleftrightarrow> i \<in># M"
    unfolding is_updating_def inv by (simp add: refcount_def)
  moreover have "rm_updating s = Map.empty \<longleftrightarrow> M = {#}"
  proof
    assume e: "rm_updating s = Map.empty"
    have "i \<notin># M" for i
      using fun_cong[OF e, of i] by (simp add: inv refcount_def split: if_splits)
    then show "M = {#}" by (metis multiset_nonemptyE)
  qed (auto simp: inv refcount_def fun_eq_iff)
  ultimately show ?thesis by (simp add: any_tool_op_in_progress_def)
qed

definition empty_manager :: "tools_file \<Rightarrow> run_manager" where
  "empty_manager f = \<lparr> rm_running = {}, rm_updating = Map.empty, rm_tool_locks = Map.empty,
     rm_next_lock = 0, rm_shutting_down = False, rm_pending_since = None, rm_supervisors = [],
     rm_tools = f, rm_events = [] \<rparr>"

lemma updating_iff_in_flight_witness:
  "is_updating ''a'' (clear_updating ''a'' (mark_updating ''a'' (mark_updating ''a'' (empty_manager Missing))))"
proof -
  let ?init = "empty_manager Missing"
  let ?fin = "clear_updating ''a'' (mark_updating ''a'' (mark_updating ''a'' ?init))"
  have init: "op_init (?init, {#})" by (simp add: empty_manager_def)
  have "op_step (?init, {#}) (mark_updating ''a'' ?init, {#''a''#})"
    using op_begin[of ?init "{#}" "''a''"] by simp
  moreover have "op_step (mark_updating ''a'' ?init, {#''a''#})
      (mark_updating ''a'' (mark_updating ''a'' ?init), {#''a'', ''a''#})"
    by (rule op_begin)
  moreover have "op_step (mark_updating ''a'' (mark_updating ''a'' ?init), {#''a'', ''a''#}) (?fin, {#''a''#})"
    using op_end[of "''a''" "{#''a'', ''a''#}"] by simp
  ultimately have "op_step\<^sup>*\<^sup>* (?init, {#}) (?fin, {#''a''#})" by (meson rtranclp.rtrancl_into_rtrancl rtranclp.rtrancl_refl)
  then show ?thesis using updating_iff_in_flight[OF init, of ?fin "{#''a''#}" "''a''"] by simp
qed


section \<open>At most one supervisor per tool\<close>













lemma phase_fields [simp]:
  "sp_tool (at_phase p sp) = sp_tool sp" "sp_phase (at_phase p sp) = p"
  "rm_supervisors (record_rm e s) = rm_supervisors s" "rm_running (record_rm e s) = rm_running s"
  "rm_supervisors (clear_running_tool i s) = rm_supervisors s"
  "rm_running (clear_running_tool i s) = rm_running s - {i}"
  by (simp_all add: at_phase_def record_rm_def clear_running_tool_def)








definition children_of :: "string \<Rightarrow> run_manager \<Rightarrow> nat" where
  "children_of i s = length (filter (\<lambda>sp. sp_phase sp = ChildRunning \<and> tool_name (sp_tool sp) = i)
     (rm_supervisors s))"



definition mac_env :: run_env where
  "mac_env = \<lparr> re_platform = MacOS, re_read = io_ok, re_write = io_ok,
     re_binary_present = (\<lambda>_. True), re_stop_ok = (\<lambda>_. True), re_start_service_ok = (\<lambda>_. True) \<rparr>"

definition mac_loop :: loop_env where
  "mac_loop = \<lparr> le_platform = MacOS, le_read = io_ok, le_args_ok = True, le_spawn_ok = True,
     le_gui_running = False, le_gui_launch_ok = True, le_gui_verified = True \<rparr>"

definition agent_tool :: installed_tool where
  "agent_tool = default_tool \<lparr> it_tool_agent_id := ''agent'' \<rparr>"

definition agent_manager :: run_manager where
  "agent_manager = empty_manager (Content [agent_tool])"

fun steps_of :: "nat \<Rightarrow> nat \<Rightarrow> run_manager \<Rightarrow> run_manager" where
  "steps_of n 0 s = s"
| "steps_of n (Suc k) s = steps_of n k (step_supervisor mac_loop n s)"



section \<open>Two supervisors\<close>

text \<open>Taking a tool out of supervision and putting it back before its old loop wakes up leaves two
  live supervisors: (1) after an uninstall and a reinstall while the old loop sleeps, whatever the
  rest of the state; (2) when the tools are stopped and restarted within the five seconds an
  exited process is waited for, after which both loops go on to run a process of the same tool.\<close>

theorem resupervision_duplicates:
  "(\<forall>s tool E. rm_supervisors s \<noteq> [] \<longrightarrow> live (last (rm_supervisors s))
       \<longrightarrow> sp_tool (last (rm_supervisors s)) = tool \<longrightarrow> is_standard (it_installation tool)
       \<longrightarrow> re_stop_ok E (tool_name tool)
       \<longrightarrow> 2 \<le> length (live_of (tool_name tool)
             (snd (run_new_tool E tool (clear_running_tool (tool_name tool) s)))))
   \<and> (let s1 = steps_of 0 5 (snd (run_all mac_env agent_manager));
          s2 = steps_of 0 1 (snd (stop_all mac_env s1));
          s3 = snd (restart_all mac_env s2)
      in children_of ''agent'' s1 = 1 \<and> children_of ''agent'' s2 = 0
         \<and> children_of ''agent'' (steps_of 1 5 (steps_of 0 6 s3)) = 2)"
proof (intro conjI allI impI)
  fix s :: run_manager and tool :: installed_tool and E :: run_env
  assume a: "rm_supervisors s \<noteq> []" "live (last (rm_supervisors s))"
    "sp_tool (last (rm_supervisors s)) = tool" "is_standard (it_installation tool)"
    "re_stop_ok E (tool_name tool)"
  obtain sps sp where sps: "rm_supervisors s = sps @ [sp]" using a(1) by (metis append_butlast_last_id)
  obtain p where p: "it_installation tool = Standard p"
    using a(4) by (cases "it_installation tool") auto
  show "2 \<le> length (live_of (tool_name tool)
      (snd (run_new_tool E tool (clear_running_tool (tool_name tool) s))))"
    using a(2,3,5) sps p
    by (simp add: run_new_tool_def try_mark_running_def run_tool_def live_of_def live_def
        new_supervisor_def clear_running_tool_def record_rm_def)
next
  show "let s1 = steps_of 0 5 (snd (run_all mac_env agent_manager));
          s2 = steps_of 0 1 (snd (stop_all mac_env s1));
          s3 = snd (restart_all mac_env s2)
      in children_of ''agent'' s1 = 1 \<and> children_of ''agent'' s2 = 0
         \<and> children_of ''agent'' (steps_of 1 5 (steps_of 0 6 s3)) = 2"
    unfolding Let_def
    by code_simp
qed

lemma resupervision_duplicates_witness:
  "2 \<le> length (live_of ''agent''
     (snd (run_new_tool mac_env agent_tool (clear_running_tool ''agent''
        (snd (run_all mac_env agent_manager))))))"
proof -
  let ?s = "snd (run_all mac_env agent_manager)"
  have "rm_supervisors ?s = [new_supervisor agent_tool False]" by code_simp
  then show ?thesis
    using resupervision_duplicates[THEN conjunct1, rule_format, of ?s agent_tool mac_env]
    by (simp add: live_def new_supervisor_def agent_tool_def default_tool_def
        default_installation_def mac_env_def)
qed


section \<open>A failed stop\<close>

text \<open>When the processes of a tool cannot be stopped first, starting it fails but the tool stays in
  the set of running tools without a supervisor: every later start of it, whatever the platform
  and the environment, reports success and starts nothing.\<close>

theorem failed_stop_blocks_tool:
  assumes "tool_name tool \<notin> rm_running s" "\<not> is_service (it_installation tool)"
    and "re_platform E \<noteq> Windows" "\<not> re_stop_ok E (tool_name tool)"
    and "run_new_tool E tool s = (r, s1)"
  shows "r = Err (StopToolFailed (tool_name tool)) \<and> tool_name tool \<in> rm_running s1
    \<and> rm_supervisors s1 = rm_supervisors s
    \<and> run_new_tool E' (tool \<lparr> it_installation := inst \<rparr>) s1 = (Ok (), s1)"
  using assms
  by (auto simp: run_new_tool_def try_mark_running_def run_tool_def)

lemma failed_stop_blocks_tool_witness:
  "run_new_tool mac_env agent_tool
     (snd (run_new_tool (mac_env \<lparr> re_stop_ok := (\<lambda>_. False) \<rparr>) agent_tool agent_manager)) =
   (Ok (), snd (run_new_tool (mac_env \<lparr> re_stop_ok := (\<lambda>_. False) \<rparr>) agent_tool agent_manager))"
proof -
  have "agent_tool \<lparr> it_installation := it_installation agent_tool \<rparr> = agent_tool" by simp
  then show ?thesis
    using failed_stop_blocks_tool[OF _ _ _ _ prod.collapse[symmetric], of agent_tool agent_manager
        "mac_env \<lparr> re_stop_ok := (\<lambda>_. False) \<rparr>" mac_env "it_installation agent_tool"]
    by (simp add: agent_manager_def empty_manager_def mac_env_def agent_tool_def default_tool_def
        default_installation_def)
qed

end
