(* ===== verification/ToolKill.thy ===== *)
theory ToolKill
  imports Registry
begin

text \<open>Stopping the processes of a tool (services/tool\_kill\_service.rs). The operating system is the
  environment: the process list seen at each refresh and whether a signal could be sent. The state
  counts the refreshes and records what was sent: the signals, and the stop requests made to the
  service manager, whose answer the code only logs. Unicode lower-casing is a parameter of the
  environment; the blocking scan is taken not to panic; the pauses are left out.\<close>

definition GRACEFUL_SHUTDOWN_TIMEOUT_SECS :: nat where "GRACEFUL_SHUTDOWN_TIMEOUT_SECS = 5"
definition FORCE_KILL_TIMEOUT_SECS :: nat where "FORCE_KILL_TIMEOUT_SECS = 3"
definition MAX_KILL_RETRIES :: nat where "MAX_KILL_RETRIES = 3"
definition PROCESS_CHECK_INTERVAL_MS :: nat where "PROCESS_CHECK_INTERVAL_MS = 500"

record os_process =
  op_pid :: nat
  op_cmd :: "string list"
  op_exe :: "string option"

record kill_env =
  ke_listing :: "nat \<Rightarrow> os_process list"
  ke_kill :: "nat \<Rightarrow> nat \<Rightarrow> bool"
  ke_kill_with :: "nat \<Rightarrow> nat \<Rightarrow> bool option"
  ke_lower :: "string \<Rightarrow> string"
  ke_windows :: bool

datatype signal = Graceful nat | Forced nat | StopService string bool

record kill_state =
  ks_refreshes :: nat
  ks_signals :: "signal list"

datatype kill_error = StillRunning nat

definition refresh :: "kill_env \<Rightarrow> kill_state \<Rightarrow> os_process list \<times> kill_state" where
  "refresh E s = (ke_listing E (ks_refreshes s), s \<lparr> ks_refreshes := Suc (ks_refreshes s) \<rparr>)"

definition listed :: "nat \<Rightarrow> os_process list \<Rightarrow> bool" where
  "listed pid ps = list_ex (\<lambda>p. op_pid p = pid) ps"

definition send :: "signal \<Rightarrow> kill_state \<Rightarrow> kill_state" where
  "send sig s = s \<lparr> ks_signals := ks_signals s @ [sig] \<rparr>"


section \<open>Matching\<close>

fun contains :: "string \<Rightarrow> string \<Rightarrow> bool" where
  "contains [] p = (p = [])"
| "contains (c # s) p = (take (length p) (c # s) = p \<or> contains s p)"

fun join_space :: "string list \<Rightarrow> string" where
  "join_space [] = []"
| "join_space [s] = s"
| "join_space (s # t # ss) = s @ '' '' @ join_space (t # ss)"

definition matches :: "kill_env \<Rightarrow> string list \<Rightarrow> os_process \<Rightarrow> bool" where
  "matches E patterns p =
    (let cmdline = ke_lower E (join_space (op_cmd p));
         exe_path = (case op_exe p of None \<Rightarrow> [] | Some e \<Rightarrow> ke_lower E e)
     in list_ex (\<lambda>pat. contains cmdline pat \<or> contains exe_path pat) patterns)"

definition collect_matching_processes ::
  "kill_env \<Rightarrow> string list \<Rightarrow> kill_state \<Rightarrow> nat list \<times> kill_state" where
  "collect_matching_processes E patterns s =
    (case refresh E s of (ps, s1) \<Rightarrow> (map op_pid (filter (matches E patterns) ps), s1))"

definition build_tool_cmd_pattern :: "kill_env \<Rightarrow> string \<Rightarrow> string" where
  "build_tool_cmd_pattern E tool_id =
    ke_lower E (tool_id @ (if ke_windows E then [CHR 0x5C] else ''/'') @ ''agent'')"

definition build_asset_cmd_pattern :: "kill_env \<Rightarrow> string \<Rightarrow> string \<Rightarrow> string" where
  "build_asset_cmd_pattern E asset_id tool_id =
    (let sep = (if ke_windows E then [CHR 0x5C] else ''/'') in
     ke_lower E (sep @ tool_id @ sep @ asset_id))"


section \<open>Stopping one process\<close>

fun wait_checks :: "kill_env \<Rightarrow> nat \<Rightarrow> nat \<Rightarrow> kill_state \<Rightarrow> bool \<times> kill_state" where
  "wait_checks E pid 0 s = (False, s)"
| "wait_checks E pid (Suc n) s =
     (case refresh E s of
        (ps, s1) \<Rightarrow> if \<not> listed pid ps then (True, s1) else wait_checks E pid n s1)"

definition wait_for_process_exit :: "kill_env \<Rightarrow> nat \<Rightarrow> nat \<Rightarrow> kill_state \<Rightarrow> bool \<times> kill_state" where
  "wait_for_process_exit E pid timeout_secs =
    wait_checks E pid (timeout_secs * 1000 div PROCESS_CHECK_INTERVAL_MS)"

definition try_graceful_stop :: "kill_env \<Rightarrow> nat \<Rightarrow> kill_state \<Rightarrow> bool \<times> kill_state" where
  "try_graceful_stop E pid s =
    (case refresh E s of
       (ps, s1) \<Rightarrow>
         if listed pid ps then
           (if \<not> ke_kill E (ks_refreshes s) pid then (False, s1)
            else wait_for_process_exit E pid GRACEFUL_SHUTDOWN_TIMEOUT_SECS (send (Graceful pid) s1))
         else (False, s1))"

definition try_force_kill :: "kill_env \<Rightarrow> nat \<Rightarrow> kill_state \<Rightarrow> bool \<times> kill_state" where
  "try_force_kill E pid s =
    (case refresh E s of
       (ps, s1) \<Rightarrow>
         if listed pid ps then
           (case ke_kill_with E (ks_refreshes s) pid of
              Some True \<Rightarrow> wait_for_process_exit E pid FORCE_KILL_TIMEOUT_SECS (send (Forced pid) s1)
            | Some False \<Rightarrow> (False, s1)
            | None \<Rightarrow> (False, s1))
         else (True, s1))"

fun force_attempts ::
  "kill_env \<Rightarrow> nat \<Rightarrow> nat \<Rightarrow> kill_state \<Rightarrow> (kill_error, unit) result \<times> kill_state" where
  "force_attempts E pid 0 s = (Err (StillRunning pid), s)"
| "force_attempts E pid (Suc n) s =
     (case try_force_kill E pid s of
        (True, s1) \<Rightarrow> (Ok (), s1)
      | (False, s1) \<Rightarrow> force_attempts E pid n s1)"

definition stop_process_with_retry ::
  "kill_env \<Rightarrow> nat \<Rightarrow> kill_state \<Rightarrow> (kill_error, unit) result \<times> kill_state" where
  "stop_process_with_retry E pid s =
    (case try_graceful_stop E pid s of
       (True, s1) \<Rightarrow> (Ok (), s1)
     | (False, s1) \<Rightarrow> force_attempts E pid MAX_KILL_RETRIES s1)"

fun stop_pids ::
  "kill_env \<Rightarrow> nat list \<Rightarrow> kill_state \<Rightarrow> (kill_error, unit) result \<times> kill_state" where
  "stop_pids E [] s = (Ok (), s)"
| "stop_pids E (pid # pids) s =
     (case stop_process_with_retry E pid s of
        (Inl e, s1) \<Rightarrow> (Err e, s1)
      | (Inr _, s1) \<Rightarrow> stop_pids E pids s1)"

definition stop_processes_by_pattern ::
  "kill_env \<Rightarrow> string \<Rightarrow> kill_state \<Rightarrow> (kill_error, unit) result \<times> kill_state" where
  "stop_processes_by_pattern E pattern s =
    (case collect_matching_processes E [pattern] s of
       (pids, s1) \<Rightarrow> if pids = [] then (Ok (), s1) else stop_pids E pids s1)"


section \<open>Stopping a tool\<close>

definition stop_tool ::
  "kill_env \<Rightarrow> string \<Rightarrow> kill_state \<Rightarrow> (kill_error, unit) result \<times> kill_state" where
  "stop_tool E tool_id = stop_processes_by_pattern E (build_tool_cmd_pattern E tool_id)"

definition stop_asset ::
  "kill_env \<Rightarrow> string \<Rightarrow> string \<Rightarrow> kill_state \<Rightarrow> (kill_error, unit) result \<times> kill_state" where
  "stop_asset E asset_id tool_id =
    stop_processes_by_pattern E (build_asset_cmd_pattern E asset_id tool_id)"

definition stop_tool_by_path ::
  "kill_env \<Rightarrow> string \<Rightarrow> kill_state \<Rightarrow> (kill_error, unit) result \<times> kill_state" where
  "stop_tool_by_path E path = stop_processes_by_pattern E (ke_lower E path)"

definition stop_for_installation ::
  "kill_env \<Rightarrow> string \<Rightarrow> installation \<Rightarrow> bool \<Rightarrow> kill_state \<Rightarrow>
   (kill_error, unit) result \<times> kill_state" where
  "stop_for_installation E tool_agent_id inst allow_delete s =
    (case inst of
       GuiApp path _ \<Rightarrow> stop_tool_by_path E path s
     | Standard None \<Rightarrow> stop_tool E tool_agent_id s
     | Standard (Some path) \<Rightarrow>
         (case stop_tool_by_path E path s of
            (Inl e, s1) \<Rightarrow> (Err e, s1)
          | (Inr _, s1) \<Rightarrow> stop_tool E tool_agent_id s1)
     | Service name path_opt \<Rightarrow>
         (let s1 = send (StopService name allow_delete) s in
          case path_opt of
            None \<Rightarrow> (Ok (), s1)
          | Some path \<Rightarrow> stop_tool_by_path E path s1))"

definition stop_installed_tool ::
  "kill_env \<Rightarrow> installed_tool \<Rightarrow> bool \<Rightarrow> kill_state \<Rightarrow>
   (kill_error, unit) result \<times> kill_state" where
  "stop_installed_tool E tool allow_delete =
    stop_for_installation E (it_tool_agent_id tool) (it_installation tool) allow_delete"

definition running_patterns :: "kill_env \<Rightarrow> installed_tool \<Rightarrow> string list" where
  "running_patterns E tool =
    (case it_installation tool of
       GuiApp path _ \<Rightarrow> [ke_lower E path]
     | Standard path \<Rightarrow>
         (case path of None \<Rightarrow> [] | Some p \<Rightarrow> [ke_lower E p]) @
         [build_tool_cmd_pattern E (it_tool_agent_id tool)]
     | Service _ (Some path) \<Rightarrow> [ke_lower E path]
     | Service _ None \<Rightarrow> [build_tool_cmd_pattern E (it_tool_agent_id tool)])"

definition is_installed_tool_running ::
  "kill_env \<Rightarrow> installed_tool \<Rightarrow> kill_state \<Rightarrow> bool \<times> kill_state" where
  "is_installed_tool_running E tool s =
    (case collect_matching_processes E (running_patterns E tool) s of
       (pids, s1) \<Rightarrow> (pids \<noteq> [], s1))"


section \<open>One process\<close>

text \<open>Every helper moves the refresh counter forward and looks at the process list a bounded number of
  times. What it reports is what its last look showed.\<close>

definition last_look :: "kill_env \<Rightarrow> kill_state \<Rightarrow> os_process list" where
  "last_look E s = ke_listing E (ks_refreshes s - 1)"

lemma wait_checks_spec:
  assumes "wait_checks E pid n s = (r, s')"
  shows "ks_refreshes s \<le> ks_refreshes s' \<and> ks_refreshes s' \<le> ks_refreshes s + n
    \<and> ks_signals s' = ks_signals s
    \<and> (0 < n \<longrightarrow> ks_refreshes s < ks_refreshes s' \<and> (r \<longleftrightarrow> \<not> listed pid (last_look E s')))"
  using assms
proof (induction n arbitrary: s)
  case (Suc n)
  show ?case
  proof (cases "listed pid (ke_listing E (ks_refreshes s))")
    case False
    then show ?thesis using Suc.prems by (auto simp: refresh_def last_look_def)
  next
    case True
    then have rest: "wait_checks E pid n (s \<lparr> ks_refreshes := Suc (ks_refreshes s) \<rparr>) = (r, s')"
      using Suc.prems by (simp add: refresh_def)
    note ih = Suc.IH [OF rest]
    show ?thesis
    proof (cases n)
      case 0
      then show ?thesis using rest True by (auto simp: last_look_def)
    next
      case (Suc m)
      then show ?thesis using ih by auto
    qed
  qed
qed simp

lemma wait_for_process_exit_spec:
  assumes "wait_for_process_exit E pid t s = (r, s')" and "0 < t"
  shows "ks_refreshes s < ks_refreshes s' \<and> ks_refreshes s' \<le> ks_refreshes s + 2 * t
    \<and> ks_signals s' = ks_signals s \<and> (r \<longleftrightarrow> \<not> listed pid (last_look E s'))"
  using wait_checks_spec [OF assms(1) [unfolded wait_for_process_exit_def]] assms(2)
  by (simp add: PROCESS_CHECK_INTERVAL_MS_def)

lemma try_graceful_stop_spec:
  assumes "try_graceful_stop E pid s = (r, s')"
  shows "ks_refreshes s < ks_refreshes s' \<and> ks_refreshes s' \<le> ks_refreshes s + 11
    \<and> length (ks_signals s') \<le> Suc (length (ks_signals s))
    \<and> (r \<longrightarrow> \<not> listed pid (last_look E s'))"
  using assms wait_for_process_exit_spec [of E pid GRACEFUL_SHUTDOWN_TIMEOUT_SECS
      "send (Graceful pid) (s \<lparr> ks_refreshes := Suc (ks_refreshes s) \<rparr>)" r s']
  by (auto simp: try_graceful_stop_def refresh_def GRACEFUL_SHUTDOWN_TIMEOUT_SECS_def send_def
      last_look_def split: if_splits)

lemma try_force_kill_spec:
  assumes "try_force_kill E pid s = (r, s')"
  shows "ks_refreshes s < ks_refreshes s' \<and> ks_refreshes s' \<le> ks_refreshes s + 7
    \<and> length (ks_signals s') \<le> Suc (length (ks_signals s))
    \<and> (r \<longleftrightarrow> \<not> listed pid (last_look E s'))"
  using assms wait_for_process_exit_spec [of E pid FORCE_KILL_TIMEOUT_SECS
      "send (Forced pid) (s \<lparr> ks_refreshes := Suc (ks_refreshes s) \<rparr>)" r s']
  by (auto simp: try_force_kill_def refresh_def FORCE_KILL_TIMEOUT_SECS_def send_def
      last_look_def split: if_splits option.splits bool.splits)

lemma force_attempts_spec:
  assumes "force_attempts E pid n s = (r, s')" and "0 < n"
  shows "ks_refreshes s < ks_refreshes s' \<and> ks_refreshes s' \<le> ks_refreshes s + 7 * n
    \<and> length (ks_signals s') \<le> n + length (ks_signals s)
    \<and> (is_ok r \<longleftrightarrow> \<not> listed pid (last_look E s')) \<and> (\<not> is_ok r \<longrightarrow> r = Err (StillRunning pid))"
  using assms
proof (induction n arbitrary: s)
  case (Suc n)
  obtain b s1 where first: "try_force_kill E pid s = (b, s1)" by (cases "try_force_kill E pid s")
  note spec = try_force_kill_spec [OF first]
  show ?case
  proof (cases "b \<or> n = 0")
    case True
    then show ?thesis using Suc.prems first spec by (cases b) auto
  next
    case False
    then have rest: "force_attempts E pid n s1 = (r, s')" and "0 < n"
      using Suc.prems first by simp_all
    from Suc.IH [OF this] spec show ?thesis by auto
  qed
qed simp

lemma stop_process_spec:
  "case stop_process_with_retry E pid s of (r, s') \<Rightarrow>
     ks_refreshes s < ks_refreshes s' \<and> ks_refreshes s' \<le> ks_refreshes s + 32
     \<and> length (ks_signals s') \<le> 4 + length (ks_signals s)
     \<and> (r = Ok () \<longleftrightarrow> \<not> listed pid (last_look E s'))
     \<and> (r = Err (StillRunning pid) \<longleftrightarrow> listed pid (last_look E s'))"
proof -
  obtain b s1 where first: "try_graceful_stop E pid s = (b, s1)"
    by (cases "try_graceful_stop E pid s")
  note spec = try_graceful_stop_spec [OF first]
  show ?thesis
  proof (cases b)
    case True
    then show ?thesis using first spec by (auto simp: stop_process_with_retry_def)
  next
    case False
    obtain r s' where rest: "force_attempts E pid MAX_KILL_RETRIES s1 = (r, s')"
      by (cases "force_attempts E pid MAX_KILL_RETRIES s1")
    have "0 < MAX_KILL_RETRIES" by (simp add: MAX_KILL_RETRIES_def)
    from force_attempts_spec [OF rest this] spec False first rest show ?thesis
      by (cases r) (auto simp: stop_process_with_retry_def MAX_KILL_RETRIES_def)
  qed
qed

text \<open>Stopping one process returns after at most 32 looks at the process list and 4 signals,
  whatever the operating system does, and its answer is what the last look showed: success exactly
  when the process was gone then, and otherwise the error that names it.\<close>

theorem stop_process_verified:
  "case stop_process_with_retry E pid s of (r, s') \<Rightarrow>
     ks_refreshes s < ks_refreshes s' \<and> ks_refreshes s' \<le> ks_refreshes s + 32
     \<and> length (ks_signals s') \<le> 4 + length (ks_signals s)
     \<and> (r = Ok () \<longleftrightarrow> \<not> listed pid (last_look E s'))
     \<and> (r = Err (StillRunning pid) \<longleftrightarrow> listed pid (last_look E s'))"
  by (rule stop_process_spec)


section \<open>All processes of a pattern\<close>

lemma stop_pids_spec:
  assumes "stop_pids E pids s = (r, s')"
  shows "ks_refreshes s \<le> ks_refreshes s'
    \<and> (r = Ok () \<longrightarrow> (\<forall>pid \<in> set pids. \<exists>n \<in> {ks_refreshes s..<ks_refreshes s'}.
          \<not> listed pid (ke_listing E n)))
    \<and> (\<forall>q. r = Err (StillRunning q) \<longrightarrow> listed q (last_look E s'))"
  using assms
proof (induction pids arbitrary: s)
  case (Cons p ps)
  obtain r1 s1 where first: "stop_process_with_retry E p s = (r1, s1)"
    by (cases "stop_process_with_retry E p s")
  note spec = stop_process_spec [where E = E and pid = p and s = s, unfolded first, simplified]
  show ?case
  proof (cases r1)
    case (Inl e)
    then have "r = Err e" "s' = s1" using Cons.prems first by auto
    then show ?thesis using spec Inl by (auto split: if_splits)
  next
    case (Inr u)
    then have rest: "stop_pids E ps s1 = (r, s')" using Cons.prems first by auto
    note ih = Cons.IH [OF rest]
    have here: "\<not> listed p (ke_listing E (ks_refreshes s1 - 1))"
      using spec Inr by (auto simp: last_look_def)
    have "ks_refreshes s1 - 1 \<in> {ks_refreshes s..<ks_refreshes s'}" using spec ih by auto
    then have "\<exists>n \<in> {ks_refreshes s..<ks_refreshes s'}. \<not> listed p (ke_listing E n)"
      using here by blast
    moreover have "\<exists>n \<in> {ks_refreshes s..<ks_refreshes s'}. \<not> listed pid (ke_listing E n)"
      if "r = Ok ()" "pid \<in> set ps" for pid
    proof -
      from ih that obtain n where "n \<in> {ks_refreshes s1..<ks_refreshes s'}"
        "\<not> listed pid (ke_listing E n)" by blast
      then show ?thesis using spec by (intro bexI [of _ n]) auto
    qed
    ultimately show ?thesis using ih spec by simp
  qed
qed auto

definition gone_after :: "kill_env \<Rightarrow> string \<Rightarrow> nat \<Rightarrow> nat \<Rightarrow> bool" where
  "gone_after E pattern m m' =
    (\<forall>p \<in> set (ke_listing E m). matches E [pattern] p \<longrightarrow>
       (\<exists>n \<in> {m<..<m'}. \<not> listed (op_pid p) (ke_listing E n)))"

lemma gone_after_mono: "gone_after E pattern m k \<Longrightarrow> k \<le> k' \<Longrightarrow> gone_after E pattern m k'"
  by (fastforce simp: gone_after_def)

lemma stop_pattern_spec:
  assumes "stop_processes_by_pattern E pattern s = (r, s')"
  shows "ks_refreshes s < ks_refreshes s'"
    and "r = Ok () \<Longrightarrow> gone_after E pattern (ks_refreshes s) (ks_refreshes s')"
    and "r = Err (StillRunning q) \<Longrightarrow> listed q (last_look E s')"
proof -
  let ?s1 = "s \<lparr> ks_refreshes := Suc (ks_refreshes s) \<rparr>"
  let ?pids = "map op_pid (filter (matches E [pattern]) (ke_listing E (ks_refreshes s)))"
  have run: "stop_pids E ?pids ?s1 = (r, s')"
    using assms by (auto simp: stop_processes_by_pattern_def collect_matching_processes_def
        refresh_def split: if_splits)
  show "ks_refreshes s < ks_refreshes s'"
    using stop_pids_spec [OF run] by simp
  show "listed q (last_look E s')" if "r = Err (StillRunning q)"
    using stop_pids_spec [OF run] that by simp
  show "gone_after E pattern (ks_refreshes s) (ks_refreshes s')" if ok: "r = Ok ()"
    unfolding gone_after_def
  proof (intro ballI impI)
    fix p assume "p \<in> set (ke_listing E (ks_refreshes s))" "matches E [pattern] p"
    then have "op_pid p \<in> set ?pids" by simp
    with stop_pids_spec [OF run] ok
    obtain n where "n \<in> {ks_refreshes ?s1..<ks_refreshes s'}" "\<not> listed (op_pid p) (ke_listing E n)"
      by blast
    then show "\<exists>n \<in> {ks_refreshes s<..<ks_refreshes s'}. \<not> listed (op_pid p) (ke_listing E n)"
      by (intro bexI [of _ n]) auto
  qed
qed

text \<open>What a stop aims at, by kind of installation.\<close>

definition stop_targets :: "kill_env \<Rightarrow> string \<Rightarrow> installation \<Rightarrow> string list" where
  "stop_targets E i inst =
    (case inst of
       GuiApp path _ \<Rightarrow> [ke_lower E path]
     | Standard None \<Rightarrow> [build_tool_cmd_pattern E i]
     | Standard (Some path) \<Rightarrow> [ke_lower E path, build_tool_cmd_pattern E i]
     | Service _ None \<Rightarrow> []
     | Service _ (Some path) \<Rightarrow> [ke_lower E path])"

lemma stop_two_patterns_spec:
  assumes "stop_tool_by_path E path s = (Ok (), s1)" and "stop_tool E i s1 = (r, s')"
  shows "r = Ok () \<Longrightarrow> pat \<in> {ke_lower E path, build_tool_cmd_pattern E i} \<Longrightarrow>
    \<exists>m \<ge> ks_refreshes s. gone_after E pat m (ks_refreshes s')"
  using stop_pattern_spec [OF assms(1) [unfolded stop_tool_by_path_def]]
    stop_pattern_spec [OF assms(2) [unfolded stop_tool_def]]
  by (auto intro: gone_after_mono less_imp_le)

lemma stop_targets_spec:
  assumes "stop_for_installation E i inst d s = (r, s')"
  shows "r = Ok () \<Longrightarrow> pat \<in> set (stop_targets E i inst) \<Longrightarrow>
      \<exists>m \<ge> ks_refreshes s. gone_after E pat m (ks_refreshes s')"
    and "r = Err (StillRunning q) \<Longrightarrow> listed q (last_look E s')"
proof -
  have one: "\<exists>m \<ge> ks_refreshes s. gone_after E pat m (ks_refreshes s')"
    if "stop_processes_by_pattern E pat s2 = (Ok (), s')" "ks_refreshes s2 = ks_refreshes s" for s2 pat
    using stop_pattern_spec(2) [OF that(1)] that(2) by auto
  show "\<exists>m \<ge> ks_refreshes s. gone_after E pat m (ks_refreshes s')"
    if "r = Ok ()" "pat \<in> set (stop_targets E i inst)"
    using assms that
    by (auto simp: stop_for_installation_def stop_targets_def Let_def send_def stop_tool_by_path_def
        stop_tool_def split: installation.splits option.splits prod.splits sum.splits
        intro: one dest: stop_two_patterns_spec [unfolded stop_tool_by_path_def stop_tool_def])
  show "listed q (last_look E s')" if "r = Err (StillRunning q)"
    using assms that
    by (auto simp: stop_for_installation_def Let_def stop_tool_by_path_def stop_tool_def
        split: installation.splits option.splits prod.splits sum.splits
        dest: stop_pattern_spec(3))
qed


section \<open>A whole tool\<close>

text \<open>Stopping a tool for an installation: success means that for each path or command pattern
  of its kind the process list was scanned and every process that matched was later seen to be
  gone; failure names a process that was still listed at the last look.\<close>

theorem stop_installation_verified:
  "case stop_for_installation E i inst d s of
     (Inr _, s') \<Rightarrow> list_all (\<lambda>pat. \<exists>m. ks_refreshes s \<le> m \<and> gone_after E pat m (ks_refreshes s'))
       (stop_targets E i inst)
   | (Inl (StillRunning pid), s') \<Rightarrow> listed pid (last_look E s')"
proof -
  obtain r s' where run: "stop_for_installation E i inst d s = (r, s')"
    by (cases "stop_for_installation E i inst d s")
  show ?thesis
    using stop_targets_spec [OF run]
    by (auto simp: run list_all_iff split: sum.split kill_error.split)
qed

text \<open>The running check looks for what a stop would kill: it answers yes exactly when some process
  of the list matches a stop target, except for a service without an executable path, where it falls
  back to the tool's command pattern although a stop of that tool kills no process at all.\<close>

theorem running_check_mirrors_stop:
  "fst (is_installed_tool_running E tool s) =
     list_ex (\<lambda>p. matches E
        (case it_installation tool of
           Service _ None \<Rightarrow> [build_tool_cmd_pattern E (it_tool_agent_id tool)]
         | _ \<Rightarrow> stop_targets E (it_tool_agent_id tool) (it_installation tool)) p)
       (ke_listing E (ks_refreshes s))
   \<and> stop_installed_tool E (tool \<lparr> it_installation := Service name None \<rparr>) d s =
     (Ok (), send (StopService name d) s)"
proof
  have "fst (is_installed_tool_running E tool s) =
      list_ex (matches E (running_patterns E tool)) (ke_listing E (ks_refreshes s))"
    by (auto simp: is_installed_tool_running_def collect_matching_processes_def refresh_def
        filter_empty_conv list_ex_iff)
  moreover have "running_patterns E tool =
      (case it_installation tool of
         Service _ None \<Rightarrow> [build_tool_cmd_pattern E (it_tool_agent_id tool)]
       | _ \<Rightarrow> stop_targets E (it_tool_agent_id tool) (it_installation tool))"
    by (auto simp: running_patterns_def stop_targets_def split: installation.split option.split)
  ultimately show "fst (is_installed_tool_running E tool s) =
     list_ex (\<lambda>p. matches E
        (case it_installation tool of
           Service _ None \<Rightarrow> [build_tool_cmd_pattern E (it_tool_agent_id tool)]
         | _ \<Rightarrow> stop_targets E (it_tool_agent_id tool) (it_installation tool)) p)
       (ke_listing E (ks_refreshes s))" by simp
next
  show "stop_installed_tool E (tool \<lparr> it_installation := Service name None \<rparr>) d s =
     (Ok (), send (StopService name d) s)"
    by (simp add: stop_installed_tool_def stop_for_installation_def Let_def)
qed

end
