(* ===== verification/ToolOps.thy ===== *)
theory ToolOps
  imports Supervision ToolKill
begin

text \<open>Restarting and uninstalling a tool (services/tool\_restart\_service.rs,
  services/tool\_uninstall\_service.rs). Both hold the lock of the tool and mark it as updating while
  they work. The state is the run manager's, the locks that are held, the kill service's, the guards
  that were dropped but whose clean-up task has not run yet, and a record of the effects outside.

  The environment says what the registry file, the service manager, the child process and the file
  system answer, and where the work is cut off: a time-out or a panic ends it at an await point.\<close>

definition UNINSTALL_COMMAND_TIMEOUT_SECS :: nat where "UNINSTALL_COMMAND_TIMEOUT_SECS = 90"
definition TOOL_RESTART_TIMEOUT_SECS :: nat where "TOOL_RESTART_TIMEOUT_SECS = 600"

datatype op_point =
    AtLookup
  | AtStop
  | AtStartService nat
  | AtRunningCheck
  | AtSupervise
  | InSupervise
  | AtStopAsset
  | AtCommand
  | AtCleanup
  | AtDelete

datatype cut = TimedOut | Panicked

datatype op_error =
    RegistryFailed io_error
  | StopFailed kill_error
  | StartServiceFailed
  | SuperviseFailed run_error
  | ArgsFailed
  | SpawnFailed
  | WaitFailed
  | CommandTimedOut
  | CommandFailed
  | RemoveDirFailed
  | Cut cut

datatype command_outcome =
    ExitSuccess
  | ExitFailure
  | WaitError
  | NoExitInTime
  | SpawnError

datatype op_event =
    ServiceStartTried string bool
  | CommandStarted string
  | ChildKilled string
  | BundleRemoved string
  | AutorunRemoved string
  | DirRemoved string
  | AckSent string

record op_env =
  oe_run :: run_env
  oe_kill :: kill_env
  oe_read :: io_env
  oe_write :: io_env
  oe_start_service :: "nat \<Rightarrow> bool"
  oe_cut :: "op_point \<Rightarrow> cut option"
  oe_runtime :: bool
  oe_lower :: "string \<Rightarrow> string"
  oe_args_ok :: bool
  oe_absolute :: "string \<Rightarrow> bool"
  oe_app_support :: string
  oe_exists :: "string \<Rightarrow> bool"
  oe_command :: command_outcome
  oe_dir_exists :: bool
  oe_remove_dir_ok :: bool

record op_state =
  os_rm :: run_manager
  os_locked :: "nat set"
  os_kill :: kill_state
  os_dropped :: "(string \<times> nat) list"
  os_events :: "op_event list"

definition record_op :: "op_event \<Rightarrow> op_state \<Rightarrow> op_state" where
  "record_op e s = s \<lparr> os_events := os_events s @ [e] \<rparr>"

definition on_rm :: "(run_manager \<Rightarrow> run_manager) \<Rightarrow> op_state \<Rightarrow> op_state" where
  "on_rm f s = s \<lparr> os_rm := f (os_rm s) \<rparr>"

definition lock :: "nat \<Rightarrow> op_state \<Rightarrow> op_state" where
  "lock m s = s \<lparr> os_locked := insert m (os_locked s) \<rparr>"

definition unlock :: "nat \<Rightarrow> op_state \<Rightarrow> op_state" where
  "unlock m s = s \<lparr> os_locked := os_locked s - {m} \<rparr>"

text \<open>Running a step of the kill service, and reaching an await point.\<close>

definition with_kill ::
  "(kill_state \<Rightarrow> (kill_error, unit) result \<times> kill_state) \<Rightarrow> op_state \<Rightarrow>
   (op_error, unit) result \<times> op_state" where
  "with_kill f s =
    (case f (os_kill s) of
       (Inl e, k) \<Rightarrow> (Err (StopFailed e), s \<lparr> os_kill := k \<rparr>)
     | (Inr _, k) \<Rightarrow> (Ok (), s \<lparr> os_kill := k \<rparr>))"

definition await ::
  "op_env \<Rightarrow> op_point \<Rightarrow> op_state \<Rightarrow> (op_error, 'a) result \<times> op_state \<Rightarrow>
   (op_error, 'a) result \<times> op_state" where
  "await E p s rest = (case oe_cut E p of Some c \<Rightarrow> (Err (Cut c), s) | None \<Rightarrow> rest)"

definition and_then ::
  "(op_error, 'a) result \<times> op_state \<Rightarrow> (op_state \<Rightarrow> (op_error, 'b) result \<times> op_state) \<Rightarrow>
   (op_error, 'b) result \<times> op_state" where
  "and_then r f = (case r of (Inl e, s) \<Rightarrow> (Err e, s) | (Inr _, s) \<Rightarrow> f s)"


section \<open>Restarting\<close>

datatype restart_outcome = Restarted | NotInstalled | Busy

text \<open>A failed start is forgiven when the tool runs anyway, and otherwise tried once more.\<close>

definition start_service :: "op_env \<Rightarrow> nat \<Rightarrow> string \<Rightarrow> op_state \<Rightarrow> bool \<times> op_state" where
  "start_service E n name s =
    (oe_start_service E n, record_op (ServiceStartTried name (oe_start_service E n)) s)"

definition start_service_back ::
  "op_env \<Rightarrow> installed_tool \<Rightarrow> string \<Rightarrow> op_state \<Rightarrow> (op_error, unit) result \<times> op_state" where
  "start_service_back E tool name s =
    await E (AtStartService 0) s
      (case start_service E 0 name s of
         (True, s1) \<Rightarrow> (Ok (), s1)
       | (False, s1) \<Rightarrow>
           await E AtRunningCheck s1
             (case is_installed_tool_running (oe_kill E) tool (os_kill s1) of
                (running, k) \<Rightarrow>
                  (let s2 = s1 \<lparr> os_kill := k \<rparr> in
                   if running then (Ok (), s2)
                   else await E (AtStartService 1) s2
                     (case start_service E 1 name s2 of
                        (True, s3) \<Rightarrow> (Ok (), s3)
                      | (False, s3) \<Rightarrow> (Err StartServiceFailed, s3)))))"

text \<open>Supervision is marked before the stop that precedes it, where the work may be cut off.\<close>

definition ensure_supervised ::
  "op_env \<Rightarrow> installed_tool \<Rightarrow> op_state \<Rightarrow> (op_error, unit) result \<times> op_state" where
  "ensure_supervised E tool s =
    await E AtSupervise s
      (case oe_cut E InSupervise of
         Some c \<Rightarrow> (Err (Cut c), on_rm (\<lambda>rm. snd (try_mark_running (tool_name tool) rm)) s)
       | None \<Rightarrow>
           (case run_new_tool (oe_run E) tool (os_rm s) of
              (Inl e, rm) \<Rightarrow> (Err (SuperviseFailed e), s \<lparr> os_rm := rm \<rparr>)
            | (Inr _, rm) \<Rightarrow> (Ok (), s \<lparr> os_rm := rm \<rparr>)))"

definition restart_tool ::
  "op_env \<Rightarrow> installed_tool \<Rightarrow> op_state \<Rightarrow> (op_error, unit) result \<times> op_state" where
  "restart_tool E tool s =
    await E AtStop s
      (and_then (with_kill (stop_installed_tool (oe_kill E) tool False) s) (\<lambda>s1.
         case it_installation tool of
           Service name _ \<Rightarrow> start_service_back E tool name s1
         | _ \<Rightarrow> ensure_supervised E tool s1))"

definition restart_by_tool_agent_id ::
  "op_env \<Rightarrow> string \<Rightarrow> op_state \<Rightarrow> (op_error, restart_outcome) result \<times> op_state" where
  "restart_by_tool_agent_id E i s =
    await E AtLookup s
      (case tools_get_by_tool_agent_id (oe_read E) i (rm_tools (os_rm s)) of
         Inl e \<Rightarrow> (Err (RegistryFailed e), s)
       | Inr None \<Rightarrow> (Ok NotInstalled, s)
       | Inr (Some tool) \<Rightarrow> and_then (restart_tool E tool s) (\<lambda>s1. (Ok Restarted, s1)))"

text \<open>Dropping the guard hands the flag and the lock to a task of the runtime, which clears the flag
  and then releases the lock; outside a runtime only the lock is released.\<close>

definition drop_guard :: "op_env \<Rightarrow> string \<Rightarrow> nat \<Rightarrow> op_state \<Rightarrow> op_state" where
  "drop_guard E i m s =
    (if oe_runtime E then s \<lparr> os_dropped := os_dropped s @ [(i, m)] \<rparr> else unlock m s)"

text \<open>The task waits for the map of marks, so other tasks run between its two steps: its model is the
  list of the states it goes through, the last of which is the one it leaves.\<close>

definition drop_clear :: "string \<Rightarrow> op_state \<Rightarrow> op_state" where
  "drop_clear i s = on_rm (clear_updating i) s"

definition drop_release :: "string \<times> nat \<Rightarrow> op_state \<Rightarrow> op_state" where
  "drop_release im s = (unlock (snd im) s) \<lparr> os_dropped := remove1 im (os_dropped s) \<rparr>"

definition run_drop_task :: "string \<times> nat \<Rightarrow> op_state \<Rightarrow> op_state list" where
  "run_drop_task im s =
    (let cleared = drop_clear (fst im) s;
         released = drop_release im cleared
     in [cleared, released])"

definition restart_guarded ::
  "op_env \<Rightarrow> string \<Rightarrow> op_state \<Rightarrow> (op_error, restart_outcome) result \<times> op_state" where
  "restart_guarded E i s =
    (case tool_lock i (os_rm s) of
       (m, rm) \<Rightarrow>
         (let s0 = s \<lparr> os_rm := rm \<rparr> in
          if m \<in> os_locked s0 then (Ok Busy, s0)
          else
            (case restart_by_tool_agent_id E i (on_rm (mark_updating i) (lock m s0)) of
               (r, s1) \<Rightarrow> (r, drop_guard E i m s1))))"


section \<open>Paths of a tool\<close>

text \<open>Joining takes the separator of the platform; a joined name is relative.\<close>

definition join_path :: "op_env \<Rightarrow> string \<Rightarrow> string \<Rightarrow> string" where
  "join_path E base name =
    base @ (if re_platform (oe_run E) = Windows then [CHR 0x5C] else ''/'') @ name"

definition get_tool_folder :: "op_env \<Rightarrow> string \<Rightarrow> string" where
  "get_tool_folder E i = join_path E (oe_app_support E) i"

definition get_tool_executable_path :: "op_env \<Rightarrow> string \<Rightarrow> string option \<Rightarrow> string" where
  "get_tool_executable_path E i path_opt =
    (case path_opt of
       Some path \<Rightarrow> if oe_absolute E path then path else join_path E (get_tool_folder E i) path
     | None \<Rightarrow> join_path E (get_tool_folder E i)
         (if re_platform (oe_run E) = Windows then ''agent.exe'' else ''agent''))"

abbreviation tool_executable :: "op_env \<Rightarrow> installed_tool \<Rightarrow> string" where
  "tool_executable E tool \<equiv>
    get_tool_executable_path E (tool_name tool) (executable_path (it_installation tool))"


section \<open>Uninstalling\<close>

datatype uninstall_outcome = Removed | WasNotInstalled

fun contains_fleet :: "op_env \<Rightarrow> string \<Rightarrow> bool" where
  "contains_fleet E i = contains (oe_lower E i) ''fleet''"

definition cleanup_gui_app_bundle :: "op_env \<Rightarrow> installed_tool \<Rightarrow> op_state \<Rightarrow> op_state" where
  "cleanup_gui_app_bundle E tool s =
    (case it_installation tool of
       GuiApp path _ \<Rightarrow> if re_platform (oe_run E) = MacOS then record_op (BundleRemoved path) s else s
     | _ \<Rightarrow> s)"

definition cleanup_gui_app_autorun :: "op_env \<Rightarrow> installed_tool \<Rightarrow> op_state \<Rightarrow> op_state" where
  "cleanup_gui_app_autorun E tool s =
    (case it_installation tool of
       GuiApp path _ \<Rightarrow>
         if re_platform (oe_run E) = Windows then record_op (AutorunRemoved (tool_name tool)) s else s
     | _ \<Rightarrow> s)"

definition cleanup_gui_app :: "op_env \<Rightarrow> installed_tool \<Rightarrow> op_state \<Rightarrow> op_state" where
  "cleanup_gui_app E tool s = cleanup_gui_app_autorun E tool (cleanup_gui_app_bundle E tool s)"

definition stop_tool_process ::
  "op_env \<Rightarrow> installed_tool \<Rightarrow> op_state \<Rightarrow> (op_error, unit) result \<times> op_state" where
  "stop_tool_process E tool = with_kill (stop_installed_tool (oe_kill E) tool True)"

text \<open>What the tool's process leaves behind is killed; a failure is only logged.\<close>

definition cleanup_tool_processes :: "op_env \<Rightarrow> installed_tool \<Rightarrow> op_state \<Rightarrow> op_state" where
  "cleanup_tool_processes E tool s =
    snd (with_kill (stop_tool_by_path (oe_kill E)
           (tool_executable E tool)) s)"

definition run_uninstall_command ::
  "op_env \<Rightarrow> installed_tool \<Rightarrow> op_state \<Rightarrow> (op_error, unit) result \<times> op_state" where
  "run_uninstall_command E tool s =
    (let i = tool_name tool; s1 = record_op (CommandStarted i) s in
     case oe_command E of
       SpawnError \<Rightarrow> (Err SpawnFailed, s)
     | WaitError \<Rightarrow> (Err WaitFailed, s1)
     | NoExitInTime \<Rightarrow> (Err CommandTimedOut, record_op (ChildKilled i) s1)
     | ExitFailure \<Rightarrow> (Err CommandFailed, s1)
     | ExitSuccess \<Rightarrow> (Ok (), s1))"

text \<open>A tool of the fleet family also has an osqueryd process to stop.\<close>

definition stop_osqueryd ::
  "op_env \<Rightarrow> string \<Rightarrow> op_state \<Rightarrow> (op_error, unit) result \<times> op_state" where
  "stop_osqueryd E i s =
    (if contains_fleet E i
     then await E AtStopAsset s (with_kill (stop_asset (oe_kill E) ''osqueryd'' i) s)
     else (Ok (), s))"

definition uninstall_stopped ::
  "op_env \<Rightarrow> installed_tool \<Rightarrow> op_state \<Rightarrow> (op_error, unit) result \<times> op_state" where
  "uninstall_stopped E tool s =
    (case it_uninstallation_command_args tool of
       None \<Rightarrow> (Ok (), cleanup_gui_app E tool s)
     | Some args \<Rightarrow>
         if args = [] then (Ok (), cleanup_gui_app E tool s)
         else if \<not> oe_args_ok E then (Err ArgsFailed, s)
         else if \<not> oe_exists E (tool_executable E tool) then (Ok (), cleanup_gui_app E tool s)
         else await E AtCommand s
           (and_then (run_uninstall_command E tool s) (\<lambda>s1.
              await E AtCleanup s1
                (Ok (), cleanup_gui_app E tool (cleanup_tool_processes E tool s1)))))"

definition uninstall_tool ::
  "op_env \<Rightarrow> installed_tool \<Rightarrow> op_state \<Rightarrow> (op_error, unit) result \<times> op_state" where
  "uninstall_tool E tool s =
    await E AtStop s
      (and_then (stop_tool_process E tool s) (\<lambda>s1.
       and_then (stop_osqueryd E (tool_name tool) s1) (\<lambda>s2.
       uninstall_stopped E tool s2)))"

definition uninstall_by_tool_agent_id ::
  "op_env \<Rightarrow> string \<Rightarrow> op_state \<Rightarrow> (op_error, uninstall_outcome) result \<times> op_state" where
  "uninstall_by_tool_agent_id E i s =
    await E AtLookup s
      (case tools_get_by_tool_agent_id (oe_read E) i (rm_tools (os_rm s)) of
         Inl e \<Rightarrow> (Err (RegistryFailed e), s)
       | Inr None \<Rightarrow> (Ok WasNotInstalled, s)
       | Inr (Some tool) \<Rightarrow>
           and_then (uninstall_tool E tool s) (\<lambda>s1.
             if oe_dir_exists E \<and> \<not> oe_remove_dir_ok E then (Err RemoveDirFailed, s1)
             else
               (let s2 = (if oe_dir_exists E then record_op (DirRemoved i) s1 else s1) in
                await E AtDelete s2
                  (case tools_delete (oe_write E) i (rm_tools (os_rm s2)) of
                     (Inl e, f) \<Rightarrow>
                       (Err (RegistryFailed e), on_rm (\<lambda>rm. rm \<lparr> rm_tools := f \<rparr>) s2)
                   | (Inr _, f) \<Rightarrow> (Ok Removed, on_rm (\<lambda>rm. rm \<lparr> rm_tools := f \<rparr>) s2)))))"

text \<open>Each tool of the list meets its own environment. A failure is logged and skipped; a panic is
  not caught here.\<close>

fun uninstall_each ::
  "(installed_tool \<Rightarrow> op_env) \<Rightarrow> installed_tool list \<Rightarrow> op_state \<Rightarrow>
   (op_error, unit) result \<times> op_state" where
  "uninstall_each Es [] s = (Ok (), s)"
| "uninstall_each Es (tool # tools) s =
     (case uninstall_tool (Es tool) tool s of
        (Inl (Cut c), s1) \<Rightarrow> (Err (Cut c), s1)
      | (_, s1) \<Rightarrow> uninstall_each Es tools s1)"

definition uninstall_all ::
  "op_env \<Rightarrow> (installed_tool \<Rightarrow> op_env) \<Rightarrow> op_state \<Rightarrow> (op_error, unit) result \<times> op_state" where
  "uninstall_all E Es s =
    (case tools_get_all (oe_read E) (rm_tools (os_rm s)) of
       Inl e \<Rightarrow> (Err (RegistryFailed e), s)
     | Inr tools \<Rightarrow> if tools = [] then (Ok (), s) else uninstall_each Es tools s)"

text \<open>The listener's work on one uninstall message. The acknowledgement is the last thing.\<close>

definition uninstall_dispatch :: "op_env \<Rightarrow> string \<Rightarrow> op_state \<Rightarrow> op_state" where
  "uninstall_dispatch E i s =
    (case tool_lock i (os_rm s) of
       (m, rm) \<Rightarrow>
         (let s0 = s \<lparr> os_rm := rm \<rparr> in
          if m \<in> os_locked s0 then s0
          else
            (case uninstall_by_tool_agent_id E i (on_rm (mark_updating i) (lock m s0)) of
               (r, s1) \<Rightarrow>
                 (let s2 = (if is_ok r then on_rm (clear_running_tool i) s1 else s1);
                      s3 = on_rm (clear_updating i) s2;
                      s4 = (if is_ok r then record_op (AckSent i) s3 else s3)
                  in unlock m s4))))"

definition restart_dispatch :: "op_env \<Rightarrow> string \<Rightarrow> op_state \<Rightarrow> op_state" where
  "restart_dispatch E i s =
    (case restart_guarded E i s of
       (Inl e, s1) \<Rightarrow> s1
     | (Inr Busy, s1) \<Rightarrow> s1
     | (Inr Restarted, s1) \<Rightarrow> record_op (AckSent i) s1
     | (Inr NotInstalled, s1) \<Rightarrow> record_op (AckSent i) s1)"


section \<open>What the work leaves alone\<close>

text \<open>Everything but the two dispatchers and the guard itself keeps the lock set, the updating marks
  and the table of locks; uninstalling a tool keeps the whole run manager.\<close>

definition same_guards :: "op_state \<Rightarrow> op_state \<Rightarrow> bool" where
  "same_guards s s' \<longleftrightarrow> os_locked s' = os_locked s \<and> os_dropped s' = os_dropped s \<and>
     rm_updating (os_rm s') = rm_updating (os_rm s) \<and> rm_tools (os_rm s') = rm_tools (os_rm s) \<and>
     rm_tool_locks (os_rm s') = rm_tool_locks (os_rm s)"

fun is_ack :: "op_event \<Rightarrow> bool" where
  "is_ack (AckSent i) = True"
| "is_ack e = False"

definition acks :: "op_state \<Rightarrow> op_event list" where "acks s = filter is_ack (os_events s)"

definition same_acks :: "op_state \<Rightarrow> op_state \<Rightarrow> bool" where
  "same_acks s s' \<longleftrightarrow> acks s' = acks s"

definition same_rm :: "op_state \<Rightarrow> op_state \<Rightarrow> bool" where
  "same_rm s s' \<longleftrightarrow> os_rm s' = os_rm s \<and> os_locked s' = os_locked s \<and> os_dropped s' = os_dropped s"

lemma same_guards_refl [simp]: "same_guards s s" by (simp add: same_guards_def)
lemma same_rm_refl [simp]: "same_rm s s" by (simp add: same_rm_def)

lemma same_guards_trans: "same_guards s t \<Longrightarrow> same_guards t u \<Longrightarrow> same_guards s u"
  by (simp add: same_guards_def)

lemma same_rm_trans: "same_rm s t \<Longrightarrow> same_rm t u \<Longrightarrow> same_rm s u"
  by (simp add: same_rm_def)

lemma same_rm_guards: "same_rm s t \<Longrightarrow> same_guards s t"
  by (simp add: same_rm_def same_guards_def)

lemma same_rm_basic [simp]:
  "same_rm s (record_op e t) = same_rm s t" "same_rm s (t \<lparr> os_kill := k \<rparr>) = same_rm s t"
  by (simp_all add: same_rm_def record_op_def)

text \<open>The three combinators keep any reflexive and transitive relation on states that their parts
  keep.\<close>

locale kept_by_work =
  fixes keeps :: "op_state \<Rightarrow> op_state \<Rightarrow> bool"
  assumes keeps_refl: "keeps s s"
    and keeps_trans: "keeps s t \<Longrightarrow> keeps t u \<Longrightarrow> keeps s u"
    and keeps_kill: "keeps s (s \<lparr> os_kill := k \<rparr>)"
    and keeps_record: "\<not> is_ack e \<Longrightarrow> keeps s (record_op e s)"
begin

lemma with_kill_keeps: "keeps s (snd (with_kill f s))"
  by (auto simp: with_kill_def keeps_kill split: prod.split sum.split)

lemma await_keeps: "keeps s (snd r) \<Longrightarrow> keeps s (snd (await E p s r))"
  by (auto simp: await_def keeps_refl split: option.split)

lemma await_keeps_from: "keeps s t \<Longrightarrow> keeps s (snd r) \<Longrightarrow> keeps s (snd (await E p t r))"
  by (auto simp: await_def split: option.split)

lemma and_then_keeps:
  "keeps s (snd r) \<Longrightarrow> (\<And>t. keeps s t \<Longrightarrow> keeps s (snd (f t))) \<Longrightarrow> keeps s (snd (and_then r f))"
  by (auto simp: and_then_def split: prod.split sum.split)

lemma record_keeps: "keeps s t \<Longrightarrow> \<not> is_ack e \<Longrightarrow> keeps s (record_op e t)"
  by (blast intro: keeps_trans keeps_record)

lemma start_service_keeps: "keeps s t \<Longrightarrow> keeps s (snd (start_service E n name t))"
  by (auto simp: start_service_def record_keeps)

lemma start_service_back_keeps: "keeps s (snd (start_service_back E tool name s))"
proof -
  have once: "keeps s (snd (case start_service E n name t of
      (True, s3) \<Rightarrow> (Ok (), s3) | (False, s3) \<Rightarrow> (Err StartServiceFailed, s3)))"
    if "keeps s t" for n t
    using that by (auto simp: start_service_def intro: record_keeps split: bool.split)
  have kill: "keeps s (t \<lparr> os_kill := k \<rparr>)" if "keeps s t" for t k
    using that keeps_kill keeps_trans by blast
  show ?thesis
    unfolding start_service_back_def start_service_def Let_def
    by (intro await_keeps)
      (auto intro!: await_keeps_from once [unfolded start_service_def] kill record_keeps keeps_refl
        split: bool.split prod.split)
qed

lemma cleanup_gui_app_keeps: "keeps s t \<Longrightarrow> keeps s (cleanup_gui_app E tool t)"
  by (auto simp: cleanup_gui_app_def cleanup_gui_app_autorun_def cleanup_gui_app_bundle_def
      intro: record_keeps split: installation.split)

lemma run_uninstall_command_keeps: "keeps s t \<Longrightarrow> keeps s (snd (run_uninstall_command E tool t))"
  by (auto simp: run_uninstall_command_def Let_def intro!: record_keeps split: command_outcome.split)

lemma with_kill_keeps_from: "keeps s t \<Longrightarrow> keeps s (snd (with_kill f t))"
  by (blast intro: keeps_trans with_kill_keeps)

lemma uninstall_tool_keeps: "keeps s (snd (uninstall_tool E tool s))"
  unfolding uninstall_tool_def stop_tool_process_def stop_osqueryd_def uninstall_stopped_def
    cleanup_tool_processes_def
  by (intro await_keeps and_then_keeps with_kill_keeps)
    (auto intro!: await_keeps_from and_then_keeps with_kill_keeps_from cleanup_gui_app_keeps
      run_uninstall_command_keeps split: option.split)

end

interpretation guards: kept_by_work same_guards
  by unfold_locales (auto simp: same_guards_def record_op_def)

interpretation manager: kept_by_work same_rm
  by unfold_locales (auto simp: same_rm_def record_op_def)

interpretation acks: kept_by_work same_acks
  by unfold_locales (auto simp: same_acks_def acks_def record_op_def)

lemma run_new_tool_frame:
  assumes "run_new_tool E tool rm = (r, rm')"
  shows "rm_updating rm' = rm_updating rm" "rm_tools rm' = rm_tools rm"
    "rm_tool_locks rm' = rm_tool_locks rm"
    "is_ok r \<Longrightarrow> \<not> is_service (it_installation tool) \<Longrightarrow> tool_name tool \<in> rm_running rm'"
  using assms
  by (auto simp: run_new_tool_def run_tool_def try_mark_running_def clear_running_tool_def
      record_rm_def split: if_splits)

lemma ensure_supervised_keeps: "same_guards s (snd (ensure_supervised E tool s)) \<and> same_acks s (snd (ensure_supervised E tool s))"
proof -
  obtain r rm where run: "run_new_tool (oe_run E) tool (os_rm s) = (r, rm)"
    by (cases "run_new_tool (oe_run E) tool (os_rm s)")
  note frame = run_new_tool_frame(1-3) [OF run]
  show ?thesis
    using frame
    by (auto simp: ensure_supervised_def await_def run same_guards_def same_acks_def acks_def on_rm_def
        try_mark_running_def split: option.split sum.split)
qed

lemma ensure_supervised_guards: "same_guards s (snd (ensure_supervised E tool s))"
  and ensure_supervised_acks: "same_acks s (snd (ensure_supervised E tool s))"
  using ensure_supervised_keeps by auto

context kept_by_work
begin

lemma restart_by_keeps:
  assumes "\<And>E tool s. keeps s (snd (ensure_supervised E tool s))"
  shows "keeps s (snd (restart_by_tool_agent_id E i s))"
proof -
  have tool: "keeps s (snd (restart_tool E tool s))" for tool
    unfolding restart_tool_def
    by (intro await_keeps and_then_keeps with_kill_keeps)
      (auto intro: keeps_trans assms start_service_back_keeps split: installation.split)
  show ?thesis
    unfolding restart_by_tool_agent_id_def
    by (intro await_keeps) (auto intro: and_then_keeps tool keeps_refl
        split: sum.split option.split)
qed

end

text \<open>What an uninstallation leaves: on success the registry lost the record and nothing else, and on
  failure the registry file is the one before.\<close>

definition uninstall_post ::
  "string \<Rightarrow> op_state \<Rightarrow> (op_error, uninstall_outcome) result \<Rightarrow> op_state \<Rightarrow> bool" where
  "uninstall_post i s r s' \<longleftrightarrow>
     os_locked s' = os_locked s \<and> os_dropped s' = os_dropped s \<and> acks s' = acks s \<and>
     (\<exists>f. os_rm s' = os_rm s \<lparr> rm_tools := f \<rparr> \<and>
       (if is_ok r then registry f = (registry (rm_tools (os_rm s)))(i := None)
        else f = rm_tools (os_rm s)))"

lemma uninstall_post_fail:
  "same_rm s t \<Longrightarrow> same_acks s t \<Longrightarrow> uninstall_post i s (Err e) t"
  by (auto simp: uninstall_post_def same_rm_def same_acks_def
      intro!: exI [of _ "rm_tools (os_rm s)"])

lemma uninstall_post_here: "uninstall_post i s (Err e) s"
  by (rule uninstall_post_fail) (simp_all add: same_acks_def)

lemma uninstall_post_absent:
  "tools_get_by_tool_agent_id io i (rm_tools (os_rm s)) = Ok None \<Longrightarrow>
   uninstall_post i s (Ok WasNotInstalled) s"
  by (auto simp: uninstall_post_def tools_get_by_tool_agent_id_def registry_def fun_upd_idem
      dest: tools_get_all_ok split: sum.splits intro!: exI [of _ "rm_tools (os_rm s)"])

lemma uninstall_post_delete:
  assumes "same_rm s t" and "same_acks s t"
    and "tools_delete io i (rm_tools (os_rm t)) = (q, f)"
  shows "uninstall_post i s (case q of Inl e \<Rightarrow> Err (RegistryFailed e) | Inr _ \<Rightarrow> Ok Removed)
    (on_rm (\<lambda>rm. rm \<lparr> rm_tools := f \<rparr>) t)"
  using assms tools_delete_map(1,2) [OF assms(3)]
  by (cases q) (auto simp: uninstall_post_def same_rm_def same_acks_def acks_def on_rm_def)

lemma uninstall_by_post:
  assumes "uninstall_by_tool_agent_id E i s = (r, s')"
  shows "uninstall_post i s r s'"
proof (cases "oe_cut E AtLookup")
  case (Some c)
  then show ?thesis using assms uninstall_post_here
    by (auto simp: uninstall_by_tool_agent_id_def await_def)
next
  case None
  note reached = this
  show ?thesis
  proof (cases "\<exists>tool. tools_get_by_tool_agent_id (oe_read E) i (rm_tools (os_rm s)) = Ok (Some tool)")
    case False
    then show ?thesis using assms reached uninstall_post_here uninstall_post_absent
      by (auto simp: uninstall_by_tool_agent_id_def await_def split: sum.splits option.splits)
  next
    case True
    then obtain tool where found:
      "tools_get_by_tool_agent_id (oe_read E) i (rm_tools (os_rm s)) = Ok (Some tool)" by blast
    obtain r1 s1 where work: "uninstall_tool E tool s = (r1, s1)"
      by (cases "uninstall_tool E tool s")
    have s1: "same_rm s s1" "same_acks s s1"
      using manager.uninstall_tool_keeps [of s E tool] acks.uninstall_tool_keeps [of s E tool] work
      by simp_all
    define s2 where "s2 = (if oe_dir_exists E then record_op (DirRemoved i) s1 else s1)"
    have s2: "same_rm s s2" "same_acks s s2"
      using s1 by (auto simp: s2_def same_acks_def acks_def record_op_def same_rm_def)
    obtain q f where del: "tools_delete (oe_write E) i (rm_tools (os_rm s2)) = (q, f)"
      by (cases "tools_delete (oe_write E) i (rm_tools (os_rm s2))")
    note final = uninstall_post_delete [OF s2 del]
    show ?thesis
      using assms reached found work uninstall_post_fail [OF s1] uninstall_post_fail [OF s2] final del
      by (auto simp: uninstall_by_tool_agent_id_def await_def and_then_def s2_def [symmetric] Let_def
          split: sum.splits if_splits option.splits)
  qed
qed

lemma clear_after_mark:
  assumes "rm_updating s i \<noteq> Some 0" and "rm_updating t = rm_updating (mark_updating i s)"
  shows "rm_updating (clear_updating i t) = rm_updating s"
  using assms
  by (auto simp: mark_updating_def clear_updating_def Let_def fun_eq_iff split: option.splits)

lemma marked_is_updating:
  "rm_updating t = rm_updating (mark_updating i s) \<Longrightarrow> is_updating i t"
  by (simp add: is_updating_def mark_updating_def Let_def)

lemma tool_lock_frame:
  assumes "tool_lock i rm = (m, rm')"
  shows "rm_updating rm' = rm_updating rm" "rm_tools rm' = rm_tools rm"
    "rm_running rm' = rm_running rm" "rm_tool_locks rm' i = Some m"
  using assms by (auto simp: tool_lock_def split: option.splits)

lemma mark_frame [simp]:
  "rm_tools (mark_updating i s) = rm_tools s" "rm_running (mark_updating i s) = rm_running s"
  "rm_tool_locks (mark_updating i s) = rm_tool_locks s"
  by (simp_all add: mark_updating_def Let_def)

lemma clear_frame [simp]:
  "rm_tools (clear_updating i s) = rm_tools s" "rm_running (clear_updating i s) = rm_running s"
  by (auto simp: clear_updating_def split: option.splits)

lemma clear_locks: "rm_tool_locks (clear_updating i s) = rm_tool_locks s"
  by (auto simp: clear_updating_def split: option.splits)

lemma restart_never_busy:
  "fst (restart_by_tool_agent_id E i s) \<noteq> Ok Busy"
  by (auto simp: restart_by_tool_agent_id_def await_def and_then_def
      split: option.splits sum.splits prod.splits)

section \<open>A sample environment\<close>

text \<open>A Mac with one running agent of two processes, which are gone from the second look on.\<close>

definition sample_process :: "nat \<Rightarrow> os_process" where
  "sample_process n = \<lparr> op_pid = n, op_cmd = [''/opt/agent/agent'', ''run''], op_exe = None \<rparr>"

definition sample_kill :: kill_env where
  "sample_kill = \<lparr> ke_listing = (\<lambda>n. if n < 2 then [sample_process 7] else []),
     ke_kill = (\<lambda>_ _. True), ke_kill_with = (\<lambda>_ _. Some True), ke_lower = id, ke_windows = False \<rparr>"

definition sample_op :: op_env where
  "sample_op = \<lparr> oe_run = mac_env, oe_kill = sample_kill, oe_read = io_ok, oe_write = io_ok,
     oe_start_service = (\<lambda>_. True), oe_cut = (\<lambda>_. None), oe_runtime = True, oe_lower = id,
     oe_args_ok = True, oe_absolute = (\<lambda>p. take 1 p = ''/''), oe_app_support = ''/opt'',
     oe_exists = (\<lambda>_. True), oe_command = ExitSuccess, oe_dir_exists = True,
     oe_remove_dir_ok = True \<rparr>"

definition sample_state :: op_state where
  "sample_state = \<lparr> os_rm = agent_manager, os_locked = {}, os_kill = \<lparr> ks_refreshes = 0, ks_signals = [] \<rparr>,
     os_dropped = [], os_events = [] \<rparr>"

lemma sample_marks: "rm_updating (os_rm sample_state) i \<noteq> Some 0"
  by (simp add: sample_state_def agent_manager_def empty_manager_def)

lemma sample_lock: "\<exists>rm. tool_lock ''agent'' (os_rm sample_state) = (0, rm)"
  by (simp add: sample_state_def agent_manager_def empty_manager_def tool_lock_def)

lemma sample_locked: "os_locked sample_state = {}"
  by (simp add: sample_state_def)


text \<open>C14. A guarded restart gives way to any other operation on the tool and changes nothing then.
  Otherwise, however it ends (an error, a panic, the time-out), the tool is still locked and marked
  when it returns, so that any other restart is told it is busy. The clean-up task then gives back
  exactly the mark the restart had set and the lock: in every state it goes through the tool is still
  locked or its mark is already given back, so no other operation can get the lock while this mark
  is set; until its last step any restart is told it is busy; and after it lock, marks and registry
  file are the ones before. The agent runs on a runtime, and no mark is stored with count zero.\<close>

theorem restart_guarded_releases:
  assumes "oe_runtime E" and "rm_updating (os_rm s) i \<noteq> Some 0"
  shows "case tool_lock i (os_rm s) of (m, rm) \<Rightarrow> case restart_guarded E i s of (r, s1) \<Rightarrow>
    if m \<in> os_locked s then r = Ok Busy \<and> s1 = s \<lparr> os_rm := rm \<rparr>
    else r \<noteq> Ok Busy \<and> os_dropped s1 = os_dropped s @ [(i, m)] \<and> is_updating i (os_rm s1)
      \<and> restart_guarded E' i s1 = (Ok Busy, s1)
      \<and> (\<forall>t \<in> set (run_drop_task (i, m) s1).
            m \<in> os_locked t \<or> rm_updating (os_rm t) = rm_updating (os_rm s))
      \<and> (\<forall>t \<in> set (butlast (run_drop_task (i, m) s1)). restart_guarded E' i t = (Ok Busy, t))
      \<and> (let s2 = last (run_drop_task (i, m) s1) in
           os_locked s2 = os_locked s \<and> rm_updating (os_rm s2) = rm_updating (os_rm s)
           \<and> rm_tools (os_rm s2) = rm_tools (os_rm s))"
proof -
  obtain m rm where m: "tool_lock i (os_rm s) = (m, rm)" by (cases "tool_lock i (os_rm s)")
  note frame = tool_lock_frame [OF m]
  show ?thesis
  proof (cases "m \<in> os_locked s")
    case True
    then show ?thesis by (simp add: m restart_guarded_def)
  next
    case False
    define s0 where "s0 = on_rm (mark_updating i) (lock m (s \<lparr> os_rm := rm \<rparr>))"
    obtain r s1 where run: "restart_by_tool_agent_id E i s0 = (r, s1)"
      by (cases "restart_by_tool_agent_id E i s0")
    have kept: "same_guards s0 s1"
      using guards.restart_by_keeps [where E = E and i = i and s = s0] ensure_supervised_guards run by simp
    have r: "r \<noteq> Ok Busy" using restart_never_busy [of E i s0] run by simp
    have result: "restart_guarded E i s = (r, s1 \<lparr> os_dropped := os_dropped s1 @ [(i, m)] \<rparr>)"
      using False m run assms(1) by (simp add: restart_guarded_def Let_def s0_def drop_guard_def)
    have locks: "rm_tool_locks (os_rm s1) i = Some m" "m \<in> os_locked s1"
      using kept frame(4) by (auto simp: same_guards_def s0_def on_rm_def lock_def)
    then have busy: "restart_guarded E' i (s1 \<lparr> os_dropped := os_dropped s1 @ [(i, m)] \<rparr>) =
        (Ok Busy, s1 \<lparr> os_dropped := os_dropped s1 @ [(i, m)] \<rparr>)"
      by (simp add: restart_guarded_def tool_lock_def)
    define t where "t = drop_clear i (s1 \<lparr> os_dropped := os_dropped s1 @ [(i, m)] \<rparr>)"
    define u where "u = drop_release (i, m) t"
    have task: "run_drop_task (i, m) (s1 \<lparr> os_dropped := os_dropped s1 @ [(i, m)] \<rparr>) =
        [t, u]"
      by (simp add: run_drop_task_def Let_def t_def u_def)
    have "rm_tool_locks (os_rm t) i = Some m" and lt: "m \<in> os_locked t"
      using locks by (simp_all add: t_def drop_clear_def on_rm_def clear_locks)
    then have busy_t: "restart_guarded E' i t = (Ok Busy, t)"
      by (simp add: restart_guarded_def tool_lock_def)
    have marks: "rm_updating (os_rm s1) = rm_updating (mark_updating i rm)"
      using kept by (simp add: same_guards_def s0_def on_rm_def lock_def)
    have t_marks: "rm_updating (os_rm t) = rm_updating (os_rm s)"
      using clear_after_mark [OF _ marks] assms(2) frame(1) by (simp add: t_def drop_clear_def on_rm_def)
    have t_frame: "os_locked t = os_locked s1" "rm_tools (os_rm t) = rm_tools (os_rm s1)"
      by (simp_all add: t_def drop_clear_def on_rm_def)
    have s1: "os_locked s1 = insert m (os_locked s)" "os_dropped s1 = os_dropped s"
      "rm_tools (os_rm s1) = rm_tools (os_rm s)"
      using kept frame by (simp_all add: same_guards_def s0_def on_rm_def lock_def)
    have u: "os_locked u = os_locked s" "rm_updating (os_rm u) = rm_updating (os_rm s)"
      "rm_tools (os_rm u) = rm_tools (os_rm s)"
      using t_marks t_frame s1 False by (simp_all add: u_def drop_release_def unlock_def)
    show ?thesis
      using False busy r marked_is_updating [OF marks] busy_t lt u s1(2)
      by (simp add: m result task[unfolded s1(2)])
  qed
qed

text \<open>The restart of the sample is panicking at the stop: the tool is still marked when it returns, and
  not any more when the clean-up task has run.\<close>

lemma restart_guarded_releases_witness:
  "let E = sample_op \<lparr> oe_cut := (\<lambda>p. if p = AtStop then Some Panicked else None) \<rparr>;
       s1 = snd (restart_guarded E ''agent'' sample_state) in
   is_updating ''agent'' (os_rm s1) \<and> os_locked (last (run_drop_task (''agent'', 0) s1)) = {}"
proof -
  define E where "E = sample_op \<lparr> oe_cut := (\<lambda>p. if p = AtStop then Some Panicked else None) \<rparr>"
  obtain r s1 where run: "restart_guarded E ''agent'' sample_state = (r, s1)"
    by (cases "restart_guarded E ''agent'' sample_state")
  have "oe_runtime E" by (simp add: E_def sample_op_def)
  from restart_guarded_releases [where i = "''agent''", OF this sample_marks]
  have "is_updating ''agent'' (os_rm s1) \<and> os_locked (last (run_drop_task (''agent'', 0) s1)) = {}"
    using sample_lock run by (auto simp: sample_locked Let_def)
  then show ?thesis by (simp add: Let_def run E_def [symmetric])
qed

text \<open>C13. An uninstall message whose tool is busy is left alone. Otherwise its lock and mark are given
  back, and it is acknowledged exactly when the registry no longer has the tool, every other record
  is kept and the tool is no longer supervised; without the acknowledgement the registry file and the
  supervision are the ones before.\<close>

theorem uninstall_dispatch_contract:
  assumes "rm_updating (os_rm s) i \<noteq> Some 0"
  shows "case tool_lock i (os_rm s) of (m, rm) \<Rightarrow> let s' = uninstall_dispatch E i s in
    if m \<in> os_locked s then s' = s \<lparr> os_rm := rm \<rparr>
    else os_locked s' = os_locked s \<and> rm_updating (os_rm s') = rm_updating (os_rm s)
      \<and> (acks s' = acks s @ [AckSent i]
           \<and> registry (rm_tools (os_rm s')) = (registry (rm_tools (os_rm s)))(i := None)
           \<and> rm_running (os_rm s') = rm_running (os_rm s) - {i}
         \<or> acks s' = acks s \<and> rm_tools (os_rm s') = rm_tools (os_rm s)
           \<and> rm_running (os_rm s') = rm_running (os_rm s))"
proof -
  obtain m rm where m: "tool_lock i (os_rm s) = (m, rm)" by (cases "tool_lock i (os_rm s)")
  note frame = tool_lock_frame [OF m]
  show ?thesis
  proof (cases "m \<in> os_locked s")
    case True
    then show ?thesis by (simp add: m uninstall_dispatch_def)
  next
    case False
    define s0 where "s0 = on_rm (mark_updating i) (lock m (s \<lparr> os_rm := rm \<rparr>))"
    obtain r s1 where run: "uninstall_by_tool_agent_id E i s0 = (r, s1)"
      by (cases "uninstall_by_tool_agent_id E i s0")
    from uninstall_by_post [OF run] obtain f where post:
      "os_locked s1 = os_locked s0" "acks s1 = acks s0" "os_rm s1 = os_rm s0 \<lparr> rm_tools := f \<rparr>"
      "if is_ok r then registry f = (registry (rm_tools (os_rm s0)))(i := None)
       else f = rm_tools (os_rm s0)"
      by (auto simp: uninstall_post_def)
    have restored: "rm_updating (clear_updating i t) = rm_updating (os_rm s)"
      if "rm_updating t = rm_updating (mark_updating i rm)" for t
      using clear_after_mark [OF _ that] assms frame(1) by simp
    have result: "uninstall_dispatch E i s =
        unlock m ((if is_ok r then record_op (AckSent i) else id)
          (on_rm (clear_updating i) ((if is_ok r then on_rm (clear_running_tool i) else id) s1)))"
      using False m run by (simp add: uninstall_dispatch_def Let_def s0_def)
    have outer: "os_locked (uninstall_dispatch E i s) = os_locked s"
      "rm_updating (os_rm (uninstall_dispatch E i s)) = rm_updating (os_rm s)"
      using False post(1,3) restored
      by (auto simp: result s0_def on_rm_def lock_def unlock_def record_op_def clear_running_tool_def)
    show ?thesis
    proof (cases "is_ok r")
      case True
      then show ?thesis using False outer post frame
        by (auto simp: m Let_def result s0_def on_rm_def lock_def unlock_def record_op_def acks_def
            clear_running_tool_def)
    next
      case not_ok: False
      then show ?thesis using False outer post frame
        by (auto simp: m Let_def result s0_def on_rm_def lock_def unlock_def acks_def)
    qed
  qed
qed

lemma uninstall_dispatch_contract_witness:
  "let s' = uninstall_dispatch sample_op ''agent'' sample_state in
   os_locked s' = {} \<and> acks s' = [AckSent ''agent''] \<and> registry (rm_tools (os_rm s')) ''agent'' = None"
proof -
  define s' where "s' = uninstall_dispatch sample_op ''agent'' sample_state"
  have acked: "acks s' = [AckSent ''agent'']" unfolding s'_def by code_simp
  have none: "acks sample_state = []" by (simp add: acks_def sample_state_def)
  from uninstall_dispatch_contract [where i = "''agent''" and E = sample_op, OF sample_marks]
  have "os_locked s' = {} \<and> registry (rm_tools (os_rm s')) ''agent'' = None"
    using sample_lock acked none
    by (auto simp: sample_locked Let_def s'_def [symmetric])
  then show ?thesis using acked by (simp add: Let_def s'_def [symmetric])
qed


section \<open>What success means\<close>

lemma await_Ok: "await E p s r = (Ok x, s') \<Longrightarrow> r = (Ok x, s')"
  by (auto simp: await_def split: option.splits)

lemma and_then_Ok:
  "and_then r f = (Ok x, s') \<Longrightarrow> \<exists>y t. r = (Ok y, t) \<and> f t = (Ok x, s')"
  by (auto simp: and_then_def split: prod.splits sum.splits)

lemma with_kill_Ok:
  "with_kill f s = (Ok u, s') \<Longrightarrow> \<exists>k. f (os_kill s) = (Ok (), k) \<and> s' = s \<lparr> os_kill := k \<rparr>"
  by (auto simp: with_kill_def split: prod.splits sum.splits)

text \<open>All processes of a tool were seen to be gone between two states of the kill service.\<close>

definition tool_stopped :: "kill_env \<Rightarrow> installed_tool \<Rightarrow> kill_state \<Rightarrow> kill_state \<Rightarrow> bool" where
  "tool_stopped K tool k k' =
    list_all (\<lambda>pat. \<exists>m \<ge> ks_refreshes k. gone_after K pat m (ks_refreshes k'))
      (stop_targets K (tool_name tool) (it_installation tool))"

lemma tool_stopped_mono:
  "tool_stopped K tool k k' \<Longrightarrow> ks_refreshes k' \<le> ks_refreshes k'' \<Longrightarrow> tool_stopped K tool k k''"
  unfolding tool_stopped_def list_all_iff by (meson gone_after_mono)

lemma stop_step_Ok:
  assumes "with_kill (stop_installed_tool (oe_kill E) tool d) s = (Ok u, s1)"
  shows "tool_stopped (oe_kill E) tool (os_kill s) (os_kill s1)" "os_rm s1 = os_rm s"
    "os_events s1 = os_events s"
  using with_kill_Ok [OF assms] stop_targets_spec(1)
  by (auto simp: tool_stopped_def list_all_iff stop_installed_tool_def)

definition back_up :: "op_env \<Rightarrow> installed_tool \<Rightarrow> op_state \<Rightarrow> bool" where
  "back_up E tool s =
    (case it_installation tool of
       Service name _ \<Rightarrow>
         (os_events s \<noteq> [] \<and> last (os_events s) = ServiceStartTried name True)
         \<or> list_ex (matches (oe_kill E) (running_patterns (oe_kill E) tool))
             (last_look (oe_kill E) (os_kill s))
     | _ \<Rightarrow> tool_name tool \<in> rm_running (os_rm s))"

lemma start_service_back_Ok:
  assumes "start_service_back E tool name s = (Ok u, s')" and "it_installation tool = Service name p"
  shows "back_up E tool s' \<and> ks_refreshes (os_kill s) \<le> ks_refreshes (os_kill s')"
proof -
  obtain b k where check: "is_installed_tool_running (oe_kill E) tool (os_kill s) = (b, k)"
    by (cases "is_installed_tool_running (oe_kill E) tool (os_kill s)")
  then have b: "b \<longleftrightarrow>
      list_ex (matches (oe_kill E) (running_patterns (oe_kill E) tool)) (last_look (oe_kill E) k)"
    and k: "ks_refreshes k = Suc (ks_refreshes (os_kill s))"
    by (auto simp: is_installed_tool_running_def collect_matching_processes_def refresh_def
        last_look_def filter_empty_conv list_ex_iff)
  note unfolded = await_Ok [OF assms(1) [unfolded start_service_back_def]]
  show ?thesis
  proof (cases "oe_start_service E 0")
    case True
    then show ?thesis using unfolded assms(2)
      by (auto simp: start_service_def record_op_def back_up_def)
  next
    case False
    then have second: "(if b then (Ok (), record_op (ServiceStartTried name False) s \<lparr> os_kill := k \<rparr>)
        else await E (AtStartService 1) (record_op (ServiceStartTried name False) s \<lparr> os_kill := k \<rparr>)
          (case start_service E 1 name (record_op (ServiceStartTried name False) s \<lparr> os_kill := k \<rparr>) of
             (True, s3) \<Rightarrow> (Ok (), s3) | (False, s3) \<Rightarrow> (Err StartServiceFailed, s3))) = (Ok u, s')"
      using await_Ok [where p = AtRunningCheck] unfolded check
      by (fastforce simp: start_service_def record_op_def Let_def)
    show ?thesis
    proof (cases b)
      case True
      then show ?thesis using second b k assms(2) by (auto simp: back_up_def record_op_def)
    next
      case False
      then have "(case start_service E 1 name (record_op (ServiceStartTried name False) s \<lparr> os_kill := k \<rparr>) of
             (True, s3) \<Rightarrow> (Ok (), s3) | (False, s3) \<Rightarrow> (Err StartServiceFailed, s3)) = (Ok u, s')"
        using second by (auto dest: await_Ok)
      then show ?thesis using k assms(2)
        by (cases "oe_start_service E 1") (auto simp: start_service_def record_op_def back_up_def)
    qed
  qed
qed

lemma ensure_supervised_Ok:
  assumes "ensure_supervised E tool s = (Ok u, s')" and "\<not> is_service (it_installation tool)"
  shows "tool_name tool \<in> rm_running (os_rm s') \<and> os_kill s' = os_kill s"
  using assms run_new_tool_frame(4)
  by (fastforce simp: ensure_supervised_def dest!: await_Ok split: option.splits prod.splits sum.splits)

lemma restart_tool_Ok:
  assumes "restart_tool E tool s = (Ok u, s')"
  shows "back_up E tool s' \<and> tool_stopped (oe_kill E) tool (os_kill s) (os_kill s')"
proof -
  from and_then_Ok [OF await_Ok [OF assms [unfolded restart_tool_def]]] obtain y s1 where
    stop: "with_kill (stop_installed_tool (oe_kill E) tool False) s = (Ok y, s1)" and
    start: "(case it_installation tool of
      Service name _ \<Rightarrow> start_service_back E tool name s1 | _ \<Rightarrow> ensure_supervised E tool s1) = (Ok u, s')"
    by blast
  show ?thesis
    using start stop_step_Ok(1) [OF stop]
    by (cases "it_installation tool")
      (auto simp: back_up_def dest!: start_service_back_Ok ensure_supervised_Ok intro: tool_stopped_mono)
qed

lemma found_tool:
  "tools_get_by_tool_agent_id io i f = Ok (Some tool) \<Longrightarrow>
   registry f i = Some tool \<and> tool_name tool = i"
  by (auto simp: tools_get_by_tool_agent_id_def registry_def dest: tools_get_all_ok lookup_key
      split: sum.splits)

text \<open>A restart that reports success found the tool in the registry, saw every process that
  matched one of its stop targets gone, and brought the tool back: a service start succeeded or the
  tool was seen running, and any other tool is supervised.\<close>

theorem restart_means_restarted:
  assumes "restart_guarded E i s = (Ok Restarted, s')"
  shows "case registry (rm_tools (os_rm s)) i of
      None \<Rightarrow> False
    | Some tool \<Rightarrow> tool_stopped (oe_kill E) tool (os_kill s) (os_kill s') \<and> back_up E tool s'"
proof -
  obtain m rm where m: "tool_lock i (os_rm s) = (m, rm)" by (cases "tool_lock i (os_rm s)")
  define s0 where "s0 = on_rm (mark_updating i) (lock m (s \<lparr> os_rm := rm \<rparr>))"
  have s0: "rm_tools (os_rm s0) = rm_tools (os_rm s)" "os_kill s0 = os_kill s"
    using tool_lock_frame(2) [OF m] by (simp_all add: s0_def on_rm_def lock_def)
  obtain s1 where run: "restart_by_tool_agent_id E i s0 = (Ok Restarted, s1)"
    and s': "s' = drop_guard E i m s1"
    using assms m by (auto simp: restart_guarded_def Let_def s0_def split: if_splits prod.splits)
  obtain tool where tool:
    "tools_get_by_tool_agent_id (oe_read E) i (rm_tools (os_rm s0)) = Ok (Some tool)"
    "restart_tool E tool s0 = (Ok (), s1)"
    using await_Ok [OF run [unfolded restart_by_tool_agent_id_def]]
    by (auto dest!: and_then_Ok split: sum.splits option.splits)
  have "back_up E tool s' = back_up E tool s1" "os_kill s' = os_kill s1"
    by (auto simp: s' drop_guard_def back_up_def unlock_def split: installation.split)
  then show ?thesis using found_tool [OF tool(1)] restart_tool_Ok [OF tool(2)] s0 by simp
qed

lemma restart_means_restarted_witness:
  "let s' = snd (restart_guarded sample_op ''agent'' sample_state) in
   registry (rm_tools (os_rm sample_state)) ''agent'' \<noteq> None \<and> ''agent'' \<in> rm_running (os_rm s')"
proof -
  define s' where "s' = snd (restart_guarded sample_op ''agent'' sample_state)"
  have "fst (restart_guarded sample_op ''agent'' sample_state) = Ok Restarted" by code_simp
  then have "restart_guarded sample_op ''agent'' sample_state = (Ok Restarted, s')"
    by (simp add: s'_def prod_eq_iff)
  note result = restart_means_restarted [OF this]
  moreover have "registry (rm_tools (os_rm sample_state)) ''agent'' = Some agent_tool" by code_simp
  ultimately have "back_up sample_op agent_tool s'" by simp
  then have "''agent'' \<in> rm_running (os_rm s')"
    by (simp add: back_up_def agent_tool_def default_tool_def default_installation_def)
  then show ?thesis
    using \<open>registry (rm_tools (os_rm sample_state)) ''agent'' = Some agent_tool\<close>
    by (simp add: Let_def s'_def)
qed

text \<open>The looks at the process list are counted up by every stop.\<close>

lemma stop_pattern_mono:
  "ks_refreshes k \<le> ks_refreshes (snd (stop_processes_by_pattern K pat k))"
proof -
  obtain r k' where "stop_processes_by_pattern K pat k = (r, k')"
    by (cases "stop_processes_by_pattern K pat k")
  then show ?thesis using stop_pattern_spec(1) less_imp_le by fastforce
qed

lemma cleanup_tool_processes_mono:
  "ks_refreshes (os_kill s) \<le> ks_refreshes (os_kill (cleanup_tool_processes E tool s))"
  using stop_pattern_mono [of "os_kill s" "oe_kill E" "ke_lower (oe_kill E) (tool_executable E tool)"]
  by (auto simp: cleanup_tool_processes_def with_kill_def stop_tool_by_path_def
      split: prod.split sum.split)

interpretation grows: kept_by_work "\<lambda>s t. set (os_events s) \<subseteq> set (os_events t)"
  by unfold_locales (auto simp: record_op_def)

lemma cleanup_gui_app_frame [simp]:
  "os_kill (cleanup_gui_app E tool s) = os_kill s"
  by (auto simp: cleanup_gui_app_def cleanup_gui_app_autorun_def cleanup_gui_app_bundle_def
      record_op_def split: installation.split)

definition command_ok :: "op_env \<Rightarrow> installed_tool \<Rightarrow> op_state \<Rightarrow> bool" where
  "command_ok E tool s \<longleftrightarrow>
     it_uninstallation_command_args tool \<in> {None, Some []} \<or> \<not> oe_exists E (tool_executable E tool)
     \<or> oe_args_ok E \<and> oe_command E = ExitSuccess \<and> CommandStarted (tool_name tool) \<in> set (os_events s)"

lemma run_uninstall_command_Ok:
  assumes "run_uninstall_command E tool s = (Ok u, t)"
  shows "oe_command E = ExitSuccess" "t = record_op (CommandStarted (tool_name tool)) s"
  using assms by (auto simp: run_uninstall_command_def Let_def split: command_outcome.splits)

lemma stop_osqueryd_mono:
  "stop_osqueryd E i s = (Ok u, s') \<Longrightarrow> ks_refreshes (os_kill s) \<le> ks_refreshes (os_kill s')"
  using stop_pattern_mono [of "os_kill s" "oe_kill E" "build_asset_cmd_pattern (oe_kill E) ''osqueryd'' i"]
  by (auto simp: stop_osqueryd_def stop_asset_def dest!: await_Ok with_kill_Ok split: if_splits)

lemma uninstall_stopped_Ok:
  assumes "uninstall_stopped E tool s = (Ok u, s')"
  shows "ks_refreshes (os_kill s) \<le> ks_refreshes (os_kill s') \<and> command_ok E tool s'"
proof (cases "it_uninstallation_command_args tool \<in> {None, Some []} \<or> \<not> oe_exists E (tool_executable E tool)")
  case True
  then have "s' = cleanup_gui_app E tool s"
    using assms by (auto simp: uninstall_stopped_def split: option.splits if_splits)
  then show ?thesis using True by (auto simp: command_ok_def)
next
  case False
  then obtain s1 where args: "oe_args_ok E" and
    command: "run_uninstall_command E tool s = (Ok (), s1)" and
    s': "s' = cleanup_gui_app E tool (cleanup_tool_processes E tool s1)"
    using assms by (auto simp: uninstall_stopped_def dest!: await_Ok and_then_Ok
        split: option.splits if_splits)
  note s1 = run_uninstall_command_Ok [OF command]
  have "ks_refreshes (os_kill s) \<le> ks_refreshes (os_kill s')"
    using cleanup_tool_processes_mono [of s1 E tool] by (simp add: s' s1 record_op_def)
  moreover have "CommandStarted (tool_name tool) \<in> set (os_events s1)"
    by (simp add: s1 record_op_def)
  then have "CommandStarted (tool_name tool) \<in> set (os_events s')"
    using grows.cleanup_gui_app_keeps [of s1 "cleanup_tool_processes E tool s1" E tool]
      grows.with_kill_keeps_from [of s1 s1] by (auto simp: s' cleanup_tool_processes_def)
  ultimately show ?thesis using args s1(1) by (auto simp: command_ok_def)
qed

lemma uninstall_tool_Ok:
  assumes "uninstall_tool E tool s = (Ok u, s')"
  shows "tool_stopped (oe_kill E) tool (os_kill s) (os_kill s') \<and> command_ok E tool s'"
proof -
  obtain y1 y2 s1 s2 where
    stop: "stop_tool_process E tool s = (Ok y1, s1)" and
    asset: "stop_osqueryd E (tool_name tool) s1 = (Ok y2, s2)" and
    rest: "uninstall_stopped E tool s2 = (Ok u, s')"
    using await_Ok [OF assms [unfolded uninstall_tool_def]] by (blast dest!: and_then_Ok)
  note stopped = stop_step_Ok(1) [OF stop [unfolded stop_tool_process_def]]
  show ?thesis
    using uninstall_stopped_Ok [OF rest] stop_osqueryd_mono [OF asset]
      tool_stopped_mono [OF stopped] by auto
qed

text \<open>An uninstallation that reports the tool as removed found it in the registry, saw all its
  processes gone, ran its uninstallation command to a successful exit where the tool has one and its
  executable exists, removed its directory where there is one, and removed its record and no other.\<close>

theorem uninstall_means_removed:
  assumes "uninstall_by_tool_agent_id E i s = (Ok Removed, s')"
  shows "case registry (rm_tools (os_rm s)) i of
      None \<Rightarrow> False
    | Some tool \<Rightarrow> tool_stopped (oe_kill E) tool (os_kill s) (os_kill s') \<and> command_ok E tool s'
        \<and> (\<not> oe_dir_exists E \<or> DirRemoved i \<in> set (os_events s'))
        \<and> registry (rm_tools (os_rm s')) = (registry (rm_tools (os_rm s)))(i := None)"
proof -
  note post = uninstall_by_post [OF assms]
  obtain tool s1 where
    found: "tools_get_by_tool_agent_id (oe_read E) i (rm_tools (os_rm s)) = Ok (Some tool)" and
    work: "uninstall_tool E tool s = (Ok (), s1)" and
    s': "os_kill s' = os_kill s1"
      "os_events s' = os_events s1 @ (if oe_dir_exists E then [DirRemoved i] else [])"
    using await_Ok [OF assms [unfolded uninstall_by_tool_agent_id_def]]
    by (auto simp: Let_def on_rm_def record_op_def dest!: and_then_Ok await_Ok
        split: sum.splits option.splits if_splits prod.splits)
  have "command_ok E tool s'" using uninstall_tool_Ok [OF work] by (auto simp: command_ok_def s')
  then show ?thesis
    using found_tool [OF found] uninstall_tool_Ok [OF work] post
    by (auto simp: s' uninstall_post_def)
qed

lemma uninstall_means_removed_witness:
  "let s' = snd (uninstall_by_tool_agent_id sample_op ''agent'' sample_state) in
   tool_stopped sample_kill agent_tool (os_kill sample_state) (os_kill s')
   \<and> DirRemoved ''agent'' \<in> set (os_events s') \<and> registry (rm_tools (os_rm s')) ''agent'' = None"
proof -
  define s' where "s' = snd (uninstall_by_tool_agent_id sample_op ''agent'' sample_state)"
  have "fst (uninstall_by_tool_agent_id sample_op ''agent'' sample_state) = Ok Removed" by code_simp
  then have "uninstall_by_tool_agent_id sample_op ''agent'' sample_state = (Ok Removed, s')"
    by (simp add: s'_def prod_eq_iff)
  note result = uninstall_means_removed [OF this]
  moreover have "registry (rm_tools (os_rm sample_state)) ''agent'' = Some agent_tool" by code_simp
  moreover have "oe_dir_exists sample_op" "oe_kill sample_op = sample_kill"
    by (simp_all add: sample_op_def)
  ultimately show ?thesis by (simp add: Let_def s'_def [symmetric])
qed


section \<open>The output of the uninstallation command\<close>

text \<open>The output is read in chunks of at most 1024 bytes and logged line by line, a carriage return or a
  line feed ending a line; decoding and trimming of a line is a parameter. The reader ends at the
  end of the stream or at an error, and then logs what it still holds.\<close>

definition emit_command_line :: "(string \<Rightarrow> string) \<Rightarrow> string \<Rightarrow> string list \<Rightarrow> string list" where
  "emit_command_line show_line line out =
    (if line = [] then out else if show_line line = [] then out else out @ [show_line line])"

fun read_byte :: "(string \<Rightarrow> string) \<Rightarrow> char \<Rightarrow> string \<times> string list \<Rightarrow> string \<times> string list" where
  "read_byte show_line byte (line, out) =
    (if byte = CHR 0x0A \<or> byte = CHR 0x0D then ([], emit_command_line show_line line out)
     else (line @ [byte], out))"

datatype pipe_read = Chunk string | EndOfStream | ReadFailed

fun stream_loop ::
  "(string \<Rightarrow> string) \<Rightarrow> pipe_read list \<Rightarrow> string \<times> string list \<Rightarrow> string \<times> string list" where
  "stream_loop show_line (Chunk bytes # rs) st =
     (if bytes = [] then st else stream_loop show_line rs (fold (read_byte show_line) bytes st))"
| "stream_loop show_line _ st = st"

definition stream_command_output :: "(string \<Rightarrow> string) \<Rightarrow> pipe_read list \<Rightarrow> string list" where
  "stream_command_output show_line rs =
    (case stream_loop show_line rs ([], []) of (line, out) \<Rightarrow> emit_command_line show_line line out)"

text \<open>The reference: the lines of the whole output.\<close>

fun split_lines :: "string \<Rightarrow> string \<Rightarrow> string list" where
  "split_lines line [] = [line]"
| "split_lines line (b # bs) =
     (if b = CHR 0x0A \<or> b = CHR 0x0D then line # split_lines [] bs else split_lines (line @ [b]) bs)"

definition logged_lines :: "(string \<Rightarrow> string) \<Rightarrow> string \<Rightarrow> string list" where
  "logged_lines show_line bytes =
    filter (\<lambda>l. l \<noteq> []) (map show_line (filter (\<lambda>l. l \<noteq> []) (split_lines [] bytes)))"

fun bytes_read :: "pipe_read list \<Rightarrow> string" where
  "bytes_read (Chunk bytes # rs) = (if bytes = [] then [] else bytes @ bytes_read rs)"
| "bytes_read _ = []"

lemma stream_loop_bytes:
  "stream_loop show_line rs st = fold (read_byte show_line) (bytes_read rs) st"
  by (induction show_line rs st rule: stream_loop.induct) auto

lemma read_bytes_lines:
  "(case fold (read_byte show_line) bs (line, out) of (l, o') \<Rightarrow> emit_command_line show_line l o') =
     out @ filter (\<lambda>l. l \<noteq> []) (map show_line (filter (\<lambda>l. l \<noteq> []) (split_lines line bs)))"
  by (induction bs arbitrary: line out) (auto simp: emit_command_line_def)

text \<open>The lines logged depend on the bytes the command wrote and not on how the pipe cut them into
  chunks: they are the non-empty lines of everything read before the end or the first error.\<close>

theorem stream_output_lines:
  "stream_command_output show_line rs = logged_lines show_line (bytes_read rs)"
  using read_bytes_lines [of show_line "bytes_read rs" "[]" "[]"]
  by (simp add: stream_command_output_def stream_loop_bytes logged_lines_def)

end
