(* ===== verification/GithubDownload.thy ===== *)
theory GithubDownload
  imports Supervision ToolKill "HOL-Library.Sublist"
begin

text \<open>Downloading and unpacking binaries (services/github\_download\_service.rs,
  models/download\_configuration.rs). The answers of the HTTP client, the contents the archive
  libraries read out of an archive, Unicode lower-casing, the DMG extractor and the success of each
  file operation are the environment's. The state records the requests made, the seconds slept and
  what was written.\<close>

definition MAX_DOWNLOAD_RETRIES :: nat where "MAX_DOWNLOAD_RETRIES = 3"
definition MIN_BINARY_SIZE_BYTES :: nat where "MIN_BINARY_SIZE_BYTES = 1024 * 100"

datatype installation_type = StandardType | GuiAppType | ServiceType

record download_configuration =
  dc_os :: string
  dc_file_name :: string
  dc_target_file_name :: string
  dc_link :: string
  dc_installation_type :: installation_type
  dc_bundle_id :: "string option"
  dc_service_name :: "string option"

datatype http_answer =
    SendFailed
  | NoAnswerInTime
  | Answered nat "string option"

record archive_entry =
  ae_path :: string
  ae_is_dir :: bool
  ae_content :: "string option"

record download_env =
  de_platform :: platform
  de_get :: "nat \<Rightarrow> string \<Rightarrow> http_answer"
  de_status_text :: "nat \<Rightarrow> string"
  de_lower :: "string \<Rightarrow> string"
  de_zip :: "string \<Rightarrow> archive_entry option list option"
  de_tar :: "string \<Rightarrow> archive_entry option list option"
  de_dmg_ok :: bool
  de_file_op_ok :: "string \<Rightarrow> bool"

datatype written = WroteDir string | WroteFile string string | MadeExecutable string

record download_state =
  ds_requests :: "string list"
  ds_slept :: nat
  ds_written :: "written list"

datatype download_error =
    SendError
  | StatusError nat string
  | BodyError
  | RequestTimeout
  | CdnFailed
  | CdnTimedOut
  | TooSmall nat
  | UnsupportedFormat
  | ArchiveUnreadable
  | EntryUnreadable
  | NotInArchive
  | NotOnThisPlatform
  | DmgFailed
  | FileFailed string
  | EmptyArchive
  | NoConfiguration


section \<open>Strings and paths\<close>

text \<open>The pattern is never empty where this is called.\<close>

function replace_all :: "string \<Rightarrow> string \<Rightarrow> string \<Rightarrow> string" where
  "replace_all pat new s =
    (if s = [] \<or> pat = [] then s
     else if take (length pat) s = pat then new @ replace_all pat new (drop (length pat) s)
     else hd s # replace_all pat new (tl s))"
  by pat_completeness auto
termination
  by (relation "measure (\<lambda>(pat, new, s). length s)") auto

declare replace_all.simps [simp del]

definition ends_with :: "string \<Rightarrow> string \<Rightarrow> bool" where
  "ends_with s suf = (suf = drop (length s - length suf) s)"

definition ascii_lower :: "string \<Rightarrow> string" where
  "ascii_lower s =
    map (\<lambda>c. if 65 \<le> (of_char c :: nat) \<and> (of_char c :: nat) \<le> 90 then char_of (of_char c + 32 :: nat) else c) s"

definition eq_ignore_ascii_case :: "string \<Rightarrow> string \<Rightarrow> bool" where
  "eq_ignore_ascii_case s t = (ascii_lower s = ascii_lower t)"

text \<open>The components of a Unix path: empty names and dots are skipped, except a leading dot.\<close>

fun split_slash :: "string \<Rightarrow> string \<Rightarrow> string list" where
  "split_slash acc [] = [acc]"
| "split_slash acc (c # cs) = (if c = CHR ''/'' then acc # split_slash [] cs else split_slash (acc @ [c]) cs)"

definition components :: "string \<Rightarrow> string list" where
  "components p =
    (let segments = split_slash [] p; named = filter (\<lambda>c. c \<noteq> [] \<and> c \<noteq> ''.'') segments in
     if hd segments = ''.'' then ''.'' # named else named)"

definition is_absolute :: "string \<Rightarrow> bool" where "is_absolute p = (take 1 p = ''/'')"

definition path_file_name :: "string \<Rightarrow> string" where
  "path_file_name p =
    (if components p = [] \<or> last (components p) \<in> {''..'', ''.''} then [] else last (components p))"

definition path_join :: "string \<Rightarrow> string \<Rightarrow> string" where
  "path_join base p = (if is_absolute p then p else base @ ''/'' @ p)"


section \<open>Configurations\<close>

definition os_name :: "platform \<Rightarrow> string" where
  "os_name p = (case p of Windows \<Rightarrow> ''windows'' | MacOS \<Rightarrow> ''macos'' | Linux \<Rightarrow> ''linux'')"

definition matches_current_os :: "download_env \<Rightarrow> download_configuration \<Rightarrow> bool" where
  "matches_current_os E c = eq_ignore_ascii_case (dc_os c) (os_name (de_platform E))"

definition find_config_for_current_os ::
  "download_env \<Rightarrow> download_configuration list \<Rightarrow> (download_error, download_configuration) result" where
  "find_config_for_current_os E configs =
    (case find (matches_current_os E) configs of None \<Rightarrow> Err NoConfiguration | Some c \<Rightarrow> Ok c)"

definition is_folder_extraction :: "download_configuration \<Rightarrow> bool" where
  "is_folder_extraction c =
    (1 < length (components (dc_target_file_name c)) + (if is_absolute (dc_target_file_name c) then 1 else 0))"

definition with_version_override ::
  "string \<Rightarrow> string \<Rightarrow> download_configuration \<Rightarrow> download_configuration" where
  "with_version_override original override c =
    (if original \<noteq> [] \<and> original \<noteq> override
     then c \<lparr> dc_link := replace_all original override (dc_link c) \<rparr> else c)"


section \<open>Downloading\<close>

definition github_to_cdn_url :: "string \<Rightarrow> string" where
  "github_to_cdn_url url =
    replace_all ''/releases/download/'' ''@'' (replace_all ''github.com/'' ''cdn.jsdelivr.net/gh/'' url)"

definition download ::
  "download_env \<Rightarrow> string \<Rightarrow> download_state \<Rightarrow> (download_error, string) result \<times> download_state" where
  "download E url s =
    (let s1 = s \<lparr> ds_requests := ds_requests s @ [url] \<rparr> in
     case de_get E (length (ds_requests s)) url of
       SendFailed \<Rightarrow> (Err SendError, s1)
     | NoAnswerInTime \<Rightarrow> (Err RequestTimeout, s1)
     | Answered status body \<Rightarrow>
         if \<not> (200 \<le> status \<and> status < 300) then (Err (StatusError status url), s1)
         else (case body of None \<Rightarrow> (Err BodyError, s1) | Some bytes \<Rightarrow> (Ok bytes, s1)))"

text \<open>The message of an error, which the retry loop searches.\<close>

fun error_text :: "download_env \<Rightarrow> download_error \<Rightarrow> string" where
  "error_text E SendError = ''Failed to send download request''"
| "error_text E (StatusError status url) =
     ''Download failed with status: '' @ de_status_text E status @ '' - URL: '' @ url"
| "error_text E BodyError = ''Failed to read response bytes''"
| "error_text E _ = []"

definition rate_limited :: "download_env \<Rightarrow> download_error \<Rightarrow> bool" where
  "rate_limited E e = contains (error_text E e) ''429''"

definition cdn_fallback ::
  "download_env \<Rightarrow> string \<Rightarrow> download_state \<Rightarrow> (download_error, string) result \<times> download_state" where
  "cdn_fallback E url s =
    (case download E (github_to_cdn_url url) s of
       (Inr bytes, s1) \<Rightarrow> (Ok bytes, s1)
     | (Inl RequestTimeout, s1) \<Rightarrow> (Err CdnTimedOut, s1)
     | (Inl e, s1) \<Rightarrow> (Err CdnFailed, s1))"

fun download_attempts ::
  "download_env \<Rightarrow> string \<Rightarrow> nat list \<Rightarrow> download_error \<Rightarrow> download_state \<Rightarrow>
   (download_error, string) result \<times> download_state" where
  "download_attempts E url [] last_error s = (Err last_error, s)"
| "download_attempts E url (attempt # rest) last_error s =
     (case download E url s of
        (Inr bytes, s1) \<Rightarrow> (Ok bytes, s1)
      | (Inl e, s1) \<Rightarrow>
          if e \<noteq> RequestTimeout \<and> rate_limited E e then cdn_fallback E url s1
          else download_attempts E url rest e
            (if attempt < MAX_DOWNLOAD_RETRIES then s1 \<lparr> ds_slept := ds_slept s1 + attempt * 2 \<rparr> else s1))"

definition download_with_retry ::
  "download_env \<Rightarrow> string \<Rightarrow> download_state \<Rightarrow> (download_error, string) result \<times> download_state" where
  "download_with_retry E url = download_attempts E url [1..<MAX_DOWNLOAD_RETRIES + 1] SendError"


section \<open>Unpacking one file\<close>

text \<open>An archive is a list of entries in order; the library may fail to read the archive or an entry.\<close>

fun find_entry ::
  "(string \<Rightarrow> bool) \<Rightarrow> archive_entry option list \<Rightarrow> (download_error, string) result" where
  "find_entry P [] = Err NotInArchive"
| "find_entry P (None # es) = Err EntryUnreadable"
| "find_entry P (Some e # es) =
     (if P (ae_path e) then (case ae_content e of None \<Rightarrow> Err EntryUnreadable | Some bytes \<Rightarrow> Ok bytes)
      else find_entry P es)"

definition extract_from_zip ::
  "download_env \<Rightarrow> string \<Rightarrow> string \<Rightarrow> (download_error, string) result" where
  "extract_from_zip E archive target =
    (if de_platform E \<noteq> Windows then Err NotOnThisPlatform
     else case de_zip E archive of
         None \<Rightarrow> Err ArchiveUnreadable
       | Some entries \<Rightarrow> find_entry (\<lambda>name. ends_with (de_lower E name) (de_lower E target)) entries)"

definition tar_match :: "string \<Rightarrow> string \<Rightarrow> bool" where
  "tar_match target path =
    (let basename = path_file_name path in
     eq_ignore_ascii_case basename target \<and> take 2 basename \<noteq> ''._'')"

definition extract_from_tar_gz ::
  "download_env \<Rightarrow> string \<Rightarrow> string \<Rightarrow> (download_error, string) result" where
  "extract_from_tar_gz E archive target =
    (if de_platform E = Windows then Err NotOnThisPlatform
     else case de_tar E archive of
         None \<Rightarrow> Err ArchiveUnreadable
       | Some entries \<Rightarrow> find_entry (tar_match target) entries)"

definition download_and_extract ::
  "download_env \<Rightarrow> download_configuration \<Rightarrow> download_state \<Rightarrow>
   (download_error, string) result \<times> download_state" where
  "download_and_extract E config s =
    (case download_with_retry E (dc_link config) s of
       (Inl e, s1) \<Rightarrow> (Err e, s1)
     | (Inr archive, s1) \<Rightarrow>
         if length archive < MIN_BINARY_SIZE_BYTES then (Err (TooSmall (length archive)), s1)
         else
           (let name = dc_file_name config;
                extracted =
                  (if ends_with name ''.zip'' then extract_from_zip E archive (dc_target_file_name config)
                   else if ends_with name ''.tar.gz'' \<or> ends_with name ''.tgz''
                   then extract_from_tar_gz E archive (dc_target_file_name config)
                   else Err UnsupportedFormat)
            in case extracted of
                 Inl e \<Rightarrow> (Err e, s1)
               | Inr bytes \<Rightarrow>
                   if length bytes < MIN_BINARY_SIZE_BYTES then (Err (TooSmall (length bytes)), s1)
                   else (Ok bytes, s1)))"


section \<open>Unpacking a whole archive\<close>

text \<open>Every entry is written where the target directory joined with its path leads.\<close>

definition file_op ::
  "download_env \<Rightarrow> string \<Rightarrow> written \<Rightarrow> download_state \<Rightarrow> (download_error, unit) result \<times> download_state" where
  "file_op E path w s =
    (if de_file_op_ok E path then (Ok (), s \<lparr> ds_written := ds_written s @ [w] \<rparr>)
     else (Err (FileFailed path), s))"

definition write_entry ::
  "download_env \<Rightarrow> string \<Rightarrow> archive_entry \<Rightarrow> download_state \<Rightarrow>
   (download_error, unit) result \<times> download_state" where
  "write_entry E target_dir e s =
    (let dest = path_join target_dir (ae_path e) in
     if ae_is_dir e then file_op E dest (WroteDir dest) s
     else (case ae_content e of
         None \<Rightarrow> (Err (FileFailed dest), snd (file_op E dest (WroteFile dest []) s))
       | Some bytes \<Rightarrow> file_op E dest (WroteFile dest bytes) s))"

fun extract_entries ::
  "download_env \<Rightarrow> string \<Rightarrow> archive_entry option list \<Rightarrow> nat \<Rightarrow> download_state \<Rightarrow>
   (download_error, nat) result \<times> download_state" where
  "extract_entries E target_dir [] n s = (Ok n, s)"
| "extract_entries E target_dir (None # es) n s = (Err EntryUnreadable, s)"
| "extract_entries E target_dir (Some e # es) n s =
     (case write_entry E target_dir e s of
        (Inl err, s1) \<Rightarrow> (Err err, s1)
      | (Inr _, s1) \<Rightarrow> extract_entries E target_dir es (n + 1) s1)"

definition extract_all_from_tar_gz ::
  "download_env \<Rightarrow> string \<Rightarrow> string \<Rightarrow> download_state \<Rightarrow>
   (download_error, unit) result \<times> download_state" where
  "extract_all_from_tar_gz E archive target_dir s =
    (case de_tar E archive of
       None \<Rightarrow> (Err ArchiveUnreadable, s)
     | Some entries \<Rightarrow>
         (case extract_entries E target_dir entries 0 s of
            (Inl e, s1) \<Rightarrow> (Err e, s1)
          | (Inr n, s1) \<Rightarrow> if n = 0 then (Err EmptyArchive, s1) else (Ok (), s1)))"

definition download_and_extract_all ::
  "download_env \<Rightarrow> download_configuration \<Rightarrow> string \<Rightarrow> download_state \<Rightarrow>
   (download_error, unit) result \<times> download_state" where
  "download_and_extract_all E config target_dir s =
    (if de_platform E \<noteq> MacOS then (Err NotOnThisPlatform, s)
     else case download_with_retry E (dc_link config) s of
         (Inl e, s1) \<Rightarrow> (Err e, s1)
       | (Inr archive, s1) \<Rightarrow>
           if length archive < MIN_BINARY_SIZE_BYTES then (Err (TooSmall (length archive)), s1)
           else
             (let name = dc_file_name config in
              if ends_with name ''.tar.gz'' \<or> ends_with name ''.tgz''
              then extract_all_from_tar_gz E archive target_dir s1
              else if ends_with name ''.dmg'' then
                (if de_dmg_ok E then (Ok (), s1) else (Err DmgFailed, s1))
              else (Err UnsupportedFormat, s1)))"

definition download_and_save ::
  "download_env \<Rightarrow> download_configuration \<Rightarrow> string \<Rightarrow> string \<Rightarrow> download_state \<Rightarrow>
   (download_error, string option) result \<times> download_state" where
  "download_and_save E config tool_folder default_agent s =
    (if is_folder_extraction config then
       (let file_path = path_join tool_folder (dc_target_file_name config) in
        case download_and_extract_all E config tool_folder s of
          (Inl e, s1) \<Rightarrow> (Err e, s1)
        | (Inr _, s1) \<Rightarrow>
            (case file_op E file_path (MadeExecutable file_path) s1 of
               (Inl e, s2) \<Rightarrow> (Err e, s2)
             | (Inr _, s2) \<Rightarrow> (Ok (Some (dc_target_file_name config)), s2)))
     else
       (case download_and_extract E config s of
          (Inl e, s1) \<Rightarrow> (Err e, s1)
        | (Inr bytes, s1) \<Rightarrow>
            (case file_op E default_agent (WroteFile default_agent bytes) s1 of
               (Inl e, s2) \<Rightarrow> (Err e, s2)
             | (Inr _, s2) \<Rightarrow> (Ok None, s2))))"


section \<open>The retry loop\<close>

lemma download_request: "ds_requests (snd (download E url s)) = ds_requests s @ [url]"
  "ds_slept (snd (download E url s)) = ds_slept s" "ds_written (snd (download E url s)) = ds_written s"
  by (auto simp: download_def Let_def split: http_answer.split option.split)

text \<open>The bytes of a successful download are the body of the last request made, which was answered
  with a success status.\<close>

definition body_of_last :: "download_env \<Rightarrow> download_state \<Rightarrow> string \<Rightarrow> bool" where
  "body_of_last E s bytes \<longleftrightarrow>
     ds_requests s \<noteq> [] \<and>
     (case de_get E (length (ds_requests s) - 1) (last (ds_requests s)) of
        Answered status (Some body) \<Rightarrow> 200 \<le> status \<and> status < 300 \<and> body = bytes
      | _ \<Rightarrow> False)"

lemma download_Ok: "download E url s = (Ok bytes, s') \<Longrightarrow> body_of_last E s' bytes"
  by (auto simp: download_def Let_def body_of_last_def split: http_answer.splits option.splits if_splits)

lemma cdn_fallback_spec:
  assumes "cdn_fallback E url s = (r, s')"
  shows "ds_requests s' = ds_requests s @ [github_to_cdn_url url]" "ds_slept s' = ds_slept s"
    "r = Ok bytes \<Longrightarrow> body_of_last E s' bytes"
proof -
  obtain q s1 where d: "download E (github_to_cdn_url url) s = (q, s1)"
    by (cases "download E (github_to_cdn_url url) s")
  then have s': "s' = s1" and ok: "r = Ok bytes \<Longrightarrow> q = Ok bytes" for bytes
    using assms by (auto simp: cdn_fallback_def split: sum.splits download_error.splits)
  show "ds_requests s' = ds_requests s @ [github_to_cdn_url url]" "ds_slept s' = ds_slept s"
    using download_request [of E "github_to_cdn_url url" s] by (simp_all add: d s')
  show "body_of_last E s' bytes" if "r = Ok bytes"
    using download_Ok d ok [OF that] s' by simp
qed

text \<open>The attempts of the loop are all of the link itself; a rate limit ends them with one request of the
  CDN's.\<close>

lemma download_attempts_spec:
  assumes "download_attempts E url as e0 s = (r, s')"
  shows "\<exists>n cdn. n \<le> length as \<and> ds_requests s' = ds_requests s @ replicate n url @ cdn
      \<and> (cdn = [] \<or> 0 < n \<and> cdn = [github_to_cdn_url url])
      \<and> ds_slept s \<le> ds_slept s' \<and> ds_slept s' \<le> ds_slept s + 2 * sum_list (filter (\<lambda>a. a < MAX_DOWNLOAD_RETRIES) as)
      \<and> (\<forall>bytes. r = Ok bytes \<longrightarrow> body_of_last E s' bytes)"
  using assms
proof (induction as arbitrary: e0 s)
  case (Cons a as)
  obtain q s1 where d: "download E url s = (q, s1)" by (cases "download E url s")
  note req = download_request [of E url s, unfolded d snd_conv]
  show ?case
  proof (cases q)
    case (Inr bytes)
    then have "r = Ok bytes" "s' = s1" using Cons.prems d by auto
    then show ?thesis using req download_Ok d Inr
      by (intro exI [of _ "1"] exI [of _ "[]"]) auto
  next
    case (Inl e)
    show ?thesis
    proof (cases "e \<noteq> RequestTimeout \<and> rate_limited E e")
      case True
      then have "cdn_fallback E url s1 = (r, s')" using Cons.prems d Inl by simp
      note cdn = cdn_fallback_spec [OF this]
      show ?thesis using req cdn
        by (intro exI [of _ "1"] exI [of _ "[github_to_cdn_url url]"]) auto
    next
      case False
      define s2 where "s2 = (if a < MAX_DOWNLOAD_RETRIES then s1 \<lparr> ds_slept := ds_slept s1 + a * 2 \<rparr> else s1)"
      have "download_attempts E url as e s2 = (r, s')"
        using Cons.prems d Inl False by (auto simp: s2_def)
      from Cons.IH [OF this] obtain n cdn where ih: "n \<le> length as"
        "ds_requests s' = ds_requests s2 @ replicate n url @ cdn"
        "cdn = [] \<or> 0 < n \<and> cdn = [github_to_cdn_url url]"
        "ds_slept s2 \<le> ds_slept s'"
        "ds_slept s' \<le> ds_slept s2 + 2 * sum_list (filter (\<lambda>a. a < MAX_DOWNLOAD_RETRIES) as)"
        "\<forall>bytes. r = Ok bytes \<longrightarrow> body_of_last E s' bytes" by blast
      then show ?thesis using req
        by (intro exI [of _ "Suc n"] exI [of _ cdn]) (auto simp: s2_def)
    qed
  qed
qed (auto intro: exI [of _ 0])

definition requests_of :: "string \<Rightarrow> nat \<Rightarrow> string list \<Rightarrow> string list \<Rightarrow> bool" where
  "requests_of url most before after \<longleftrightarrow>
     (\<exists>n cdn. n \<le> most \<and> after = before @ replicate n url @ cdn
        \<and> (cdn = [] \<or> 0 < n \<and> cdn = [github_to_cdn_url url]))"

lemma download_with_retry_spec:
  assumes "download_with_retry E url s = (r, s')"
  shows "requests_of url 3 (ds_requests s) (ds_requests s')"
    and "ds_slept s' \<le> ds_slept s + 6" and "r = Ok bytes \<Longrightarrow> body_of_last E s' bytes"
proof -
  have as: "[1..<MAX_DOWNLOAD_RETRIES + 1] = [1, 2, 3]"
    by (simp add: MAX_DOWNLOAD_RETRIES_def upt_rec)
  have sum: "length [1, 2, 3::nat] = 3"
    "2 * sum_list (filter (\<lambda>a. a < MAX_DOWNLOAD_RETRIES) [1, 2, 3]) = 6"
    by (simp_all add: MAX_DOWNLOAD_RETRIES_def)
  note spec = download_attempts_spec [OF assms [unfolded download_with_retry_def as], unfolded sum]
  show "requests_of url 3 (ds_requests s) (ds_requests s')"
    using spec unfolding requests_of_def by blast
  show "ds_slept s' \<le> ds_slept s + 6" "r = Ok bytes \<Longrightarrow> body_of_last E s' bytes"
    using spec by blast+
qed

lemma find_entry_Ok:
  "find_entry P es = Ok bytes \<Longrightarrow> \<exists>e. Some e \<in> set es \<and> P (ae_path e) \<and> ae_content e = Some bytes"
  by (induction P es rule: find_entry.induct) (auto split: if_splits option.splits)

text \<open>A binary comes out of an archive when an entry the platform's library read from it has the target
  name and these contents.\<close>

definition unpacks_to :: "download_env \<Rightarrow> string \<Rightarrow> string \<Rightarrow> string \<Rightarrow> bool" where
  "unpacks_to E archive target bytes \<longleftrightarrow>
     (\<exists>entries e. (if de_platform E = Windows then de_zip E archive else de_tar E archive) = Some entries
        \<and> Some e \<in> set entries \<and> ae_content e = Some bytes
        \<and> (if de_platform E = Windows then ends_with (de_lower E (ae_path e)) (de_lower E target)
            else tar_match target (ae_path e)))"

lemma extract_from_zip_Ok: "extract_from_zip E archive target = Ok bytes \<Longrightarrow> unpacks_to E archive target bytes"
  by (auto simp: extract_from_zip_def unpacks_to_def dest!: find_entry_Ok
      split: if_splits option.splits)

lemma extract_from_tar_gz_Ok: "extract_from_tar_gz E archive target = Ok bytes \<Longrightarrow> unpacks_to E archive target bytes"
  by (auto simp: extract_from_tar_gz_def unpacks_to_def dest!: find_entry_Ok
      split: if_splits option.splits)

text \<open>Downloading a binary makes at most three requests of its link and at most one of the mirror's,
  sleeps at most six seconds and writes nothing; the binary it returns is at least 100 KiB, and is the
  content of an entry with the target's name in the archive that the last request was answered with,
  itself at least 100 KiB.\<close>

theorem download_and_extract_spec:
  "case download_and_extract E config s of (r, s') \<Rightarrow>
     requests_of (dc_link config) 3 (ds_requests s) (ds_requests s')
     \<and> ds_slept s' \<le> ds_slept s + 6
     \<and> (case r of Inl _ \<Rightarrow> True | Inr bytes \<Rightarrow>
          102400 \<le> length bytes
          \<and> (\<exists>archive. body_of_last E s' archive \<and> 102400 \<le> length archive
                \<and> unpacks_to E archive (dc_target_file_name config) bytes))"
proof -
  obtain q s1 where d: "download_with_retry E (dc_link config) s = (q, s1)"
    by (cases "download_with_retry E (dc_link config) s")
  obtain r s' where run: "download_and_extract E config s = (r, s')"
    by (cases "download_and_extract E config s")
  have s': "s' = s1"
    using run d by (auto simp: download_and_extract_def Let_def split: sum.splits if_splits)
  have bytes: "102400 \<le> length bytes \<and> (\<exists>archive. body_of_last E s' archive \<and> 102400 \<le> length archive
      \<and> unpacks_to E archive (dc_target_file_name config) bytes)" if "r = Ok bytes" for bytes
    using run d that download_with_retry_spec(3) [OF d]
    by (auto simp: download_and_extract_def Let_def MIN_BINARY_SIZE_BYTES_def
        dest: extract_from_zip_Ok extract_from_tar_gz_Ok split: sum.splits if_splits)
  show ?thesis
    using download_with_retry_spec(1,2) [OF d] bytes by (auto simp: run s' split: sum.split)
qed


section \<open>Where an archive is unpacked to\<close>

text \<open>A path as the file system resolves it: a component goes down, two dots go up.\<close>

fun walk :: "string list \<Rightarrow> string list \<Rightarrow> string list" where
  "walk at [] = at"
| "walk at (c # cs) =
     walk (if c = ''.'' then at else if c = ''..'' then butlast at else at @ [c]) cs"

definition resolved :: "string \<Rightarrow> string list" where "resolved p = walk [] (components p)"

definition inside :: "string \<Rightarrow> string \<Rightarrow> bool" where
  "inside dir p = prefix (resolved dir) (resolved p)"

fun written_path :: "written \<Rightarrow> string" where
  "written_path (WroteDir p) = p"
| "written_path (WroteFile p b) = p"
| "written_path (MadeExecutable p) = p"

definition plain_path :: "string \<Rightarrow> bool" where
  "plain_path p \<longleftrightarrow> \<not> is_absolute p \<and> ''..'' \<notin> set (components p)"

lemma split_slash_append:
  "split_slash acc (xs @ CHR ''/'' # ys) = split_slash acc xs @ split_slash [] ys"
  by (induction acc xs rule: split_slash.induct) auto

lemma split_slash_nonempty: "split_slash acc xs \<noteq> []"
  by (induction acc xs rule: split_slash.induct) auto

lemma walk_append: "walk at (xs @ ys) = walk (walk at xs) ys"
  by (induction at xs rule: walk.induct) auto

lemma walk_down: "''..'' \<notin> set cs \<Longrightarrow> prefix at (walk at cs)"
proof (induction cs arbitrary: at)
  case (Cons c cs)
  then show ?case by (auto intro: prefix_order.trans [OF _ Cons.IH])
qed simp

lemma components_join:
  "\<exists>rest. components (base @ CHR ''/'' # p) = components base @ rest \<and> set rest \<subseteq> set (components p)"
  using split_slash_nonempty [of "[]" base]
  by (auto simp: components_def Let_def split_slash_append hd_append
      intro!: exI [of _ "filter (\<lambda>c. c \<noteq> [] \<and> c \<noteq> ''.'') (split_slash [] p)"])

lemma plain_inside: "plain_path p \<Longrightarrow> inside dir (path_join dir p)"
proof -
  assume plain: "plain_path p"
  obtain rest where "components (dir @ CHR ''/'' # p) = components dir @ rest" "set rest \<subseteq> set (components p)"
    using components_join by blast
  then show ?thesis using plain walk_down
    by (auto simp: inside_def path_join_def plain_path_def resolved_def walk_append)
qed

lemma write_entry_inside:
  assumes "write_entry E dir e s = (r, s')" and "plain_path (ae_path e)"
  shows "\<exists>ws. ds_written s' = ds_written s @ ws \<and> list_all (\<lambda>w. inside dir (written_path w)) ws"
  using assms plain_inside
  by (auto simp: write_entry_def Let_def file_op_def split: if_splits option.splits)

lemma extract_entries_inside:
  assumes "extract_entries E dir es n s = (r, s')"
    and "\<forall>e. Some e \<in> set es \<longrightarrow> plain_path (ae_path e)"
  shows "\<exists>ws. ds_written s' = ds_written s @ ws \<and> list_all (\<lambda>w. inside dir (written_path w)) ws"
  using assms
proof (induction E dir es n s rule: extract_entries.induct)
  case (3 E dir e es n s)
  obtain q s1 where first: "write_entry E dir e s = (q, s1)" by (cases "write_entry E dir e s")
  then obtain ws where ws: "ds_written s1 = ds_written s @ ws"
      "list_all (\<lambda>w. inside dir (written_path w)) ws"
    using write_entry_inside 3(3) by (meson list.set_intros(1))
  show ?case
  proof (cases q)
    case (Inl err)
    then show ?thesis using 3(2) first ws by auto
  next
    case (Inr u)
    then have "extract_entries E dir es (n + 1) s1 = (r, s')" using 3(2) first by simp
    from 3(1) [OF _ _ this] first Inr 3(3) ws show ?thesis by auto
  qed
qed auto

text \<open>An archive whose entries have relative paths without two dots is unpacked inside the target
  directory. Entry paths are joined unchecked, though: an archive with the entry ../x is
  unpacked successfully with a file written next to that directory.\<close>

theorem tar_entries_can_escape:
  assumes "de_tar E archive = Some entries" and "list_all (\<lambda>e. e \<noteq> None \<longrightarrow> plain_path (ae_path (the e))) entries"
    and "de_tar E bad = Some [Some \<lparr> ae_path = ''../x'', ae_is_dir = False, ae_content = Some bytes \<rparr>]"
    and "de_file_op_ok E ''/opt/tool/../x''"
  shows "list_all (\<lambda>w. inside dir (written_path w))
      (drop (length (ds_written s)) (ds_written (snd (extract_all_from_tar_gz E archive dir s))))
    \<and> extract_all_from_tar_gz E bad ''/opt/tool'' s =
      (Ok (), s \<lparr> ds_written := ds_written s @ [WroteFile ''/opt/tool/../x'' bytes] \<rparr>)
    \<and> \<not> inside ''/opt/tool'' ''/opt/tool/../x''"
proof (intro conjI)
  obtain r s' where run: "extract_entries E dir entries 0 s = (r, s')"
    by (cases "extract_entries E dir entries 0 s")
  have "\<forall>e. Some e \<in> set entries \<longrightarrow> plain_path (ae_path e)"
    using assms(2) by (auto simp: list_all_iff)
  from extract_entries_inside [OF run this] run assms(1)
  show "list_all (\<lambda>w. inside dir (written_path w))
      (drop (length (ds_written s)) (ds_written (snd (extract_all_from_tar_gz E archive dir s))))"
    by (auto simp: extract_all_from_tar_gz_def split: sum.split)
  show "extract_all_from_tar_gz E bad ''/opt/tool'' s =
      (Ok (), s \<lparr> ds_written := ds_written s @ [WroteFile ''/opt/tool/../x'' bytes] \<rparr>)"
    using assms(3,4)
    by (simp add: extract_all_from_tar_gz_def write_entry_def file_op_def path_join_def is_absolute_def)
  show "\<not> inside ''/opt/tool'' ''/opt/tool/../x''"
    by (simp add: inside_def resolved_def components_def)
qed

definition sample_download :: download_env where
  "sample_download = \<lparr> de_platform = MacOS, de_get = (\<lambda>_ _. SendFailed), de_status_text = (\<lambda>_. []),
     de_lower = id, de_zip = (\<lambda>_. None),
     de_tar = (\<lambda>a. Some [Some \<lparr> ae_path = (if a = [] then ''bin/x'' else ''../x''), ae_is_dir = False,
       ae_content = Some ''code'' \<rparr>]),
     de_dmg_ok = False, de_file_op_ok = (\<lambda>_. True) \<rparr>"

lemma tar_entries_can_escape_witness:
  "let s = \<lparr> ds_requests = [], ds_slept = 0, ds_written = [] \<rparr> in
   fst (extract_all_from_tar_gz sample_download ''bad'' ''/opt/tool'' s) = Ok ()
   \<and> \<not> inside ''/opt/tool'' ''/opt/tool/../x''"
proof -
  have "plain_path ''bin/x''" by (simp add: plain_path_def is_absolute_def components_def)
  then show ?thesis
    using tar_entries_can_escape [of sample_download "[]"
        "[Some \<lparr> ae_path = ''bin/x'', ae_is_dir = False, ae_content = Some ''code'' \<rparr>]" "''bad''" "''code''"
        "''/opt/tool''" "\<lparr> ds_requests = [], ds_slept = 0, ds_written = [] \<rparr>"]
    by (simp add: sample_download_def Let_def)
qed

end
