(* ===== verification/ClientUpdate.thy ===== *)
theory ClientUpdate
  imports GithubDownload
begin

text \<open>Updating the client itself: the files it keeps (services/update\_state\_service.rs,
  services/openframe\_client\_info\_service.rs, services/last\_known\_good\_service.rs), the handling
  of an update message (services/openframe\_client\_update\_service.rs), and what every start of the
  client does about an update in flight (services/update\_handler\_service.rs,
  services/update\_cleanup\_service.rs, the first steps of Client::start in lib.rs).

  Semantic versions are a parameter (the semver crate), as are trimming, the clock, the outcome of
  each file operation and the answers of the operating system. The updater script that is launched
  is outside; a start of the client may run any version.\<close>

definition CRASH_LOOP_MAX_BOOT_ATTEMPTS :: nat where "CRASH_LOOP_MAX_BOOT_ATTEMPTS = 3"
definition ALLOW_DOWNGRADE :: bool where "ALLOW_DOWNGRADE = False"
definition UPDATER_TRANSCRIPTS_KEPT :: nat where "UPDATER_TRANSCRIPTS_KEPT = 5"
definition TEMP_LEFTOVER_MIN_AGE_SECS :: nat where "TEMP_LEFTOVER_MIN_AGE_SECS = 3600"

datatype update_phase =
    Validating
  | Downloading
  | Extracting
  | PreparingUpdater
  | UpdaterLaunched
  | Completed
  | Verifying
  | RolledBack

record update_state =
  us_target_version :: string
  us_phase :: update_phase
  us_boot_attempts :: nat
  us_started_at :: "string option"

datatype client_update_status = Current | Updating | Updated | Failed

record client_info =
  ci_current_version :: string
  ci_target_version :: "string option"
  ci_status :: client_update_status
  ci_binary_path :: string
  ci_last_update_check :: "string option"
  ci_last_updated :: "string option"

definition default_client_info :: client_info where
  "default_client_info = \<lparr> ci_current_version = [], ci_target_version = None, ci_status = Current,
     ci_binary_path = [], ci_last_update_check = None, ci_last_updated = None \<rparr>"

record client_update_message =
  cm_version :: string
  cm_download_configurations :: "download_configuration list"

record temp_entry =
  te_name :: string
  te_age :: "nat option"

record 'v semver =
  sv_parse :: "string \<Rightarrow> 'v option"
  sv_show :: "'v \<Rightarrow> string"
  sv_less :: "'v \<Rightarrow> 'v \<Rightarrow> bool"

record 'v client_env =
  ce_semver :: "'v semver"
  ce_trim :: "string \<Rightarrow> string"
  ce_running :: string
  ce_download :: download_env
  ce_io :: "nat \<Rightarrow> io_env"
  ce_now :: "nat \<Rightarrow> nat"
  ce_clock :: "nat \<Rightarrow> string"
  ce_archive_ok :: bool
  ce_current_exe_ok :: bool
  ce_launch_ok :: bool
  ce_others :: "run_manager \<Rightarrow> run_manager"
  ce_copy_ok :: bool
  ce_machine_id_ok :: bool
  ce_publish_ok :: "nat \<Rightarrow> bool"
  ce_exe_name :: string
  ce_remove_ok :: "string \<Rightarrow> bool"

datatype client_event =
    LaunchedUpdater string
  | LaunchedRollback string
  | ArchiveMade
  | ArchiveRemoved
  | PublishTried string bool

record client_state =
  cs_state_file :: "update_state disk_file"
  cs_info_file :: "client_info disk_file"
  cs_anchor_file :: "string disk_file"
  cs_reserve :: "string option"
  cs_boot_marker :: "string option"
  cs_transcripts :: "(nat \<times> string) list"
  cs_exe_dir :: "string list"
  cs_temp_dir :: "temp_entry list"
  cs_rm :: run_manager
  cs_in_progress :: bool
  cs_download :: download_state
  cs_files :: nat
  cs_events :: "client_event list"

datatype client_error =
    ToolOpInProgress
  | UpdateInProgress
  | InvalidVersion
  | UnparsableVersion
  | InfoFailed io_error
  | StateFailed io_error
  | DownloadFailed download_error
  | ArchiveFailed
  | ExeFailed
  | LaunchFailed
  | AnchorFailed io_error
  | CopyFailed

text \<open>Every operation on a file takes the next entry of the environment's list of outcomes.\<close>

definition tick :: "client_state \<Rightarrow> client_state" where
  "tick s = s \<lparr> cs_files := Suc (cs_files s) \<rparr>"

definition record_client :: "client_event \<Rightarrow> client_state \<Rightarrow> client_state" where
  "record_client e s = s \<lparr> cs_events := cs_events s @ [e] \<rparr>"

definition on_client_rm :: "(run_manager \<Rightarrow> run_manager) \<Rightarrow> client_state \<Rightarrow> client_state" where
  "on_client_rm f s = s \<lparr> cs_rm := f (cs_rm s) \<rparr>"

definition load_optional :: "io_env \<Rightarrow> 'a disk_file \<Rightarrow> (io_error, 'a option) result" where
  "load_optional io f =
    (case f of
       Missing \<Rightarrow> Ok None
     | Content x \<Rightarrow> if read_fails io then Err ReadError else Ok (Some x)
     | Corrupt \<Rightarrow> if read_fails io then Err ReadError else Err ParseError)"


section \<open>The update state file\<close>

definition state_load ::
  "'v client_env \<Rightarrow> client_state \<Rightarrow> (client_error, update_state option) result \<times> client_state" where
  "state_load E s = map_err StateFailed (load_optional (ce_io E (cs_files s)) (cs_state_file s), tick s)"

definition state_save ::
  "'v client_env \<Rightarrow> update_state \<Rightarrow> client_state \<Rightarrow> (client_error, unit) result \<times> client_state" where
  "state_save E u s =
    (case write_atomically (ce_io E (cs_files s)) u (cs_state_file s) of
       (r, f) \<Rightarrow> map_err StateFailed (r, (tick s) \<lparr> cs_state_file := f \<rparr>))"

definition state_clear ::
  "'v client_env \<Rightarrow> client_state \<Rightarrow> (client_error, unit) result \<times> client_state" where
  "state_clear E s =
    (if cs_state_file s = Missing then (Ok (), tick s)
     else if write_fails (ce_io E (cs_files s)) then (Err (StateFailed WriteError), tick s)
     else (Ok (), (tick s) \<lparr> cs_state_file := Missing \<rparr>))"

definition has_incomplete_update ::
  "'v client_env \<Rightarrow> client_state \<Rightarrow> (client_error, bool) result \<times> client_state" where
  "has_incomplete_update E s = and_do (state_load E s) (\<lambda>u s1. (Ok (u \<noteq> None), s1))"

definition new_update_state :: "'v client_env \<Rightarrow> string \<Rightarrow> client_state \<Rightarrow> update_state" where
  "new_update_state E version s = \<lparr> us_target_version = version, us_phase = Validating,
     us_boot_attempts = 0, us_started_at = Some (ce_clock E (cs_files s)) \<rparr>"

definition set_phase :: "update_phase \<Rightarrow> update_state \<Rightarrow> update_state" where
  "set_phase p u = u \<lparr> us_phase := p \<rparr>"


section \<open>The client info file\<close>

text \<open>It is written in place.\<close>

definition info_get ::
  "'v client_env \<Rightarrow> client_state \<Rightarrow> (client_error, client_info) result \<times> client_state" where
  "info_get E s =
    map_err InfoFailed (read_file (ce_io E (cs_files s)) default_client_info (cs_info_file s), tick s)"

definition info_save ::
  "'v client_env \<Rightarrow> client_info \<Rightarrow> client_state \<Rightarrow> (client_error, unit) result \<times> client_state" where
  "info_save E i s =
    (case write_in_place (ce_io E (cs_files s)) i (cs_info_file s) of
       (r, f) \<Rightarrow> map_err InfoFailed (r, (tick s) \<lparr> cs_info_file := f \<rparr>))"

definition update_version ::
  "'v client_env \<Rightarrow> string \<Rightarrow> client_state \<Rightarrow> (client_error, unit) result \<times> client_state" where
  "update_version E version s =
    and_do (info_get E s) (\<lambda>i s1. info_save E (i \<lparr> ci_current_version := version,
      ci_last_updated := Some (ce_clock E (cs_files s1)) \<rparr>) s1)"

definition reconcile_version ::
  "'v client_env \<Rightarrow> string \<Rightarrow> client_state \<Rightarrow> (client_error, unit) result \<times> client_state" where
  "reconcile_version E running s =
    and_do (info_get E s) (\<lambda>i s1.
      if ci_current_version i \<noteq> running
      then info_save E (i \<lparr> ci_current_version := running,
             ci_last_updated := Some (ce_clock E (cs_files s1)) \<rparr>) s1
      else (Ok (), s1))"

definition set_update_status ::
  "'v client_env \<Rightarrow> client_update_status \<Rightarrow> string option \<Rightarrow> client_state \<Rightarrow>
   (client_error, unit) result \<times> client_state" where
  "set_update_status E status target s =
    and_do (info_get E s) (\<lambda>i s1. info_save E (i \<lparr> ci_status := status, ci_target_version := target,
      ci_last_update_check := Some (ce_clock E (cs_files s1)) \<rparr>) s1)"

definition set_binary_path ::
  "'v client_env \<Rightarrow> string \<Rightarrow> client_state \<Rightarrow> (client_error, unit) result \<times> client_state" where
  "set_binary_path E path s =
    and_do (info_get E s) (\<lambda>i s1. info_save E (i \<lparr> ci_binary_path := path \<rparr>) s1)"


section \<open>The last known good version\<close>

definition anchor_load ::
  "'v client_env \<Rightarrow> client_state \<Rightarrow> (client_error, string option) result \<times> client_state" where
  "anchor_load E s = map_err AnchorFailed (load_optional (ce_io E (cs_files s)) (cs_anchor_file s), tick s)"

text \<open>The reserve is a copy of the running binary; the model keeps its version.\<close>

definition copy_running_to_reserve ::
  "'v client_env \<Rightarrow> client_state \<Rightarrow> (client_error, unit) result \<times> client_state" where
  "copy_running_to_reserve E s =
    (if ce_copy_ok E then (Ok (), s \<lparr> cs_reserve := Some (ce_running E) \<rparr>) else (Err CopyFailed, s))"

definition promote ::
  "'v client_env \<Rightarrow> string \<Rightarrow> client_state \<Rightarrow> (client_error, unit) result \<times> client_state" where
  "promote E version s =
    and_do (copy_running_to_reserve E s) (\<lambda>_ s1.
      case write_atomically (ce_io E (cs_files s1)) version (cs_anchor_file s1) of
        (r, f) \<Rightarrow> map_err AnchorFailed (r, (tick s1) \<lparr> cs_anchor_file := f \<rparr>))"

definition seed_if_missing ::
  "'v client_env \<Rightarrow> client_state \<Rightarrow> (client_error, unit) result \<times> client_state" where
  "seed_if_missing E s =
    (case anchor_load E s of
       (r, s1) \<Rightarrow>
         (case (case r of Inl _ \<Rightarrow> None | Inr a \<Rightarrow> a) of
            None \<Rightarrow> promote E (ce_running E) s1
          | Some anchor \<Rightarrow>
              if cs_reserve s1 \<noteq> None then (Ok (), s1)
              else if anchor = ce_running E then promote E (ce_running E) s1
              else copy_running_to_reserve E s1))"

definition write_boot_marker ::
  "'v client_env \<Rightarrow> client_state \<Rightarrow> (client_error, unit) result \<times> client_state" where
  "write_boot_marker E s =
    (if write_fails (ce_io E (cs_files s)) then (Err (AnchorFailed WriteError), tick s)
     else (Ok (), (tick s) \<lparr> cs_boot_marker := Some (ce_running E) \<rparr>))"

definition old_transcripts :: "nat \<Rightarrow> (nat \<times> string) list \<Rightarrow> (nat \<times> string) list" where
  "old_transcripts keep ts = drop keep (sort_key (\<lambda>t. - int (fst t)) ts)"

definition prune_transcripts :: "'v client_env \<Rightarrow> nat \<Rightarrow> client_state \<Rightarrow> client_state" where
  "prune_transcripts E keep s =
    (if read_fails (ce_io E (cs_files s)) then tick s
     else (tick s) \<lparr> cs_transcripts := filter (\<lambda>t.
       \<not> (t \<in> set (old_transcripts keep (cs_transcripts s)) \<and> ce_remove_ok E (snd t))) (cs_transcripts s) \<rparr>)"


section \<open>Cleaning up\<close>

definition cleanup_all_old_backups :: "'v client_env \<Rightarrow> client_state \<Rightarrow> client_state" where
  "cleanup_all_old_backups E s = s \<lparr> cs_exe_dir := filter (\<lambda>name.
     \<not> (starts_with name (ce_exe_name E @ ''.backup.'') \<and> ce_remove_ok E name)) (cs_exe_dir s) \<rparr>"

definition is_update_artifact :: "string \<Rightarrow> bool" where
  "is_update_artifact name \<longleftrightarrow>
     starts_with name ''openframe-update-''
     \<or> starts_with name ''openframe-updater-'' \<and> (ends_with name ''.ps1'' \<or> ends_with name ''.sh'')"

definition too_fresh :: "temp_entry \<Rightarrow> bool" where
  "too_fresh t = (case te_age t of None \<Rightarrow> True | Some age \<Rightarrow> age < TEMP_LEFTOVER_MIN_AGE_SECS)"

definition cleanup_temp_update_leftovers :: "'v client_env \<Rightarrow> client_state \<Rightarrow> client_state" where
  "cleanup_temp_update_leftovers E s = s \<lparr> cs_temp_dir := filter (\<lambda>t.
     \<not> (is_update_artifact (te_name t) \<and> \<not> too_fresh t \<and> ce_remove_ok E (te_name t))) (cs_temp_dir s) \<rparr>"

definition cleanup_all :: "'v client_env \<Rightarrow> client_state \<Rightarrow> client_state" where
  "cleanup_all E s = cleanup_temp_update_leftovers E (cleanup_all_old_backups E s)"


section \<open>An update message\<close>

definition strip_v :: "string \<Rightarrow> string" where "strip_v = dropWhile (\<lambda>c. c = CHR ''v'')"

definition parse_version :: "'v client_env \<Rightarrow> string \<Rightarrow> 'v option" where
  "parse_version E version = sv_parse (ce_semver E) (strip_v (ce_trim E version))"

definition ascii_digit :: "char \<Rightarrow> bool" where
  "ascii_digit c \<longleftrightarrow> 48 \<le> (of_char c :: nat) \<and> (of_char c :: nat) \<le> 57"

definition ascii_alphanumeric :: "char \<Rightarrow> bool" where
  "ascii_alphanumeric c \<longleftrightarrow> ascii_digit c
     \<or> 65 \<le> (of_char c :: nat) \<and> (of_char c :: nat) \<le> 90
     \<or> 97 \<le> (of_char c :: nat) \<and> (of_char c :: nat) \<le> 122"

definition is_valid_version :: "string \<Rightarrow> bool" where
  "is_valid_version version \<longleftrightarrow>
     version \<noteq> [] \<and> (ascii_digit (hd version) \<or> hd version = CHR ''v'')
     \<and> list_all (\<lambda>c. ascii_alphanumeric c \<or> c \<in> {CHR ''.'', CHR ''-'', CHR ''+''}) (strip_v version)"

definition create_temp_archive ::
  "'v client_env \<Rightarrow> client_state \<Rightarrow> (client_error, unit) result \<times> client_state" where
  "create_temp_archive E s =
    (if ce_archive_ok E then (Ok (), record_client ArchiveMade s) else (Err ArchiveFailed, s))"

text \<open>Giving up with an error after the state file was cleared; a failure to clear it is the error then.\<close>

definition clear_and_fail ::
  "'v client_env \<Rightarrow> client_error \<Rightarrow> client_state \<Rightarrow> (client_error, unit) result \<times> client_state" where
  "clear_and_fail E e s = and_do (state_clear E s) (\<lambda>_ s1. (Err e, s1))"

definition mark_pending :: "'v client_env \<Rightarrow> client_state \<Rightarrow> client_state" where
  "mark_pending E s = on_client_rm (mark_client_update_pending (ce_now E (cs_files s))) s"

definition save_phase ::
  "'v client_env \<Rightarrow> update_phase \<Rightarrow> update_state \<Rightarrow> client_state \<Rightarrow>
   (client_error, unit) result \<times> client_state" where
  "save_phase E p u s = state_save E (set_phase p u) s"

definition launch_step ::
  "'v client_env \<Rightarrow> update_state \<Rightarrow> client_state \<Rightarrow> (client_error, unit) result \<times> client_state" where
  "launch_step E u s =
    (if \<not> ce_current_exe_ok E then (Err ExeFailed, s)
     else if any_tool_op_in_progress (cs_rm s)
       then clear_and_fail E ToolOpInProgress (record_client ArchiveRemoved s)
     else if \<not> ce_launch_ok E then clear_and_fail E LaunchFailed (record_client ArchiveRemoved s)
     else (Ok (), on_client_rm signal_shutdown (record_client (LaunchedUpdater (us_target_version u)) s)))"

text \<open>While the download runs, other tasks of the client use the run manager.\<close>

definition run_download ::
  "'v client_env \<Rightarrow> download_configuration \<Rightarrow> client_state \<Rightarrow>
   (download_error, string) result \<times> client_state" where
  "run_download E config s =
    (case download_and_extract (ce_download E) config (cs_download s) of
       (r, d) \<Rightarrow> (r, on_client_rm (ce_others E) (s \<lparr> cs_download := d \<rparr>)))"

definition execute_update ::
  "'v client_env \<Rightarrow> client_update_message \<Rightarrow> update_state \<Rightarrow> client_state \<Rightarrow>
   (client_error, unit) result \<times> client_state" where
  "execute_update E msg u s =
    (case find_config_for_current_os (ce_download E) (cm_download_configurations msg) of
       Inl e \<Rightarrow> (Err (DownloadFailed e), s)
     | Inr config \<Rightarrow>
         and_do (save_phase E Downloading u s) (\<lambda>_ s1.
           case run_download E config s1 of
             (Inl e, s2) \<Rightarrow> clear_and_fail E (DownloadFailed e) s2
           | (Inr bytes, s2) \<Rightarrow>
               and_do (save_phase E Extracting u (mark_pending E s2)) (\<lambda>_ s3.
               and_do (save_phase E PreparingUpdater u s3) (\<lambda>_ s4.
                 case create_temp_archive E s4 of
                   (Inl e, s5) \<Rightarrow> clear_and_fail E e s5
                 | (Inr _, s5) \<Rightarrow>
                     and_do (save_phase E UpdaterLaunched u s5) (\<lambda>_ s6.
                       launch_step E u s6)))))"

text \<open>The anchor a downgrade is measured against: nothing when it cannot be read.\<close>

definition downgrade_refused ::
  "'v client_env \<Rightarrow> 'v \<Rightarrow> (client_error, string option) result \<Rightarrow> bool" where
  "downgrade_refused E requested anchor =
    (case anchor of
       Inr (Some a) \<Rightarrow>
         (case parse_version E a of
            Some v \<Rightarrow> sv_less (ce_semver E) requested v
          | None \<Rightarrow> False)
     | _ \<Rightarrow> False)"

definition start_update ::
  "'v client_env \<Rightarrow> client_update_message \<Rightarrow> string \<Rightarrow> client_state \<Rightarrow>
   (client_error, unit) result \<times> client_state" where
  "start_update E msg canonical s =
    and_do (info_get E s) (\<lambda>_ s1.
      let u = new_update_state E canonical s1 in
      and_do (state_save E u s1) (\<lambda>_ s2.
      and_do (set_update_status E Updating (Some canonical) s2) (\<lambda>_ s3.
        case execute_update E msg u s3 of
          (Inl e, s4) \<Rightarrow> (Err e, snd (set_update_status E Failed (Some canonical) s4))
        | (Inr _, s4) \<Rightarrow> (Ok (), s4))))"

definition process_update_internal ::
  "'v client_env \<Rightarrow> client_update_message \<Rightarrow> client_state \<Rightarrow>
   (client_error, unit) result \<times> client_state" where
  "process_update_internal E msg s =
    (let requested_version = ce_trim E (cm_version msg) in
     if \<not> is_valid_version requested_version then (Err InvalidVersion, s)
     else case parse_version E requested_version of
         None \<Rightarrow> (Err UnparsableVersion, s)
       | Some requested \<Rightarrow>
           (let canonical = sv_show (ce_semver E) requested in
            if canonical = ce_running E then (Ok (), on_client_rm clear_client_update_pending s)
            else if \<not> ALLOW_DOWNGRADE then
              (case anchor_load E s of
                 (anchor, s1) \<Rightarrow>
                   if downgrade_refused E requested anchor
                   then (Ok (), on_client_rm clear_client_update_pending s1)
                   else start_update E msg canonical s1)
            else start_update E msg canonical s))"

definition process_update ::
  "'v client_env \<Rightarrow> client_update_message \<Rightarrow> client_state \<Rightarrow>
   (client_error, unit) result \<times> client_state" where
  "process_update E msg s =
    (let s1 = mark_pending E s in
     if any_tool_op_in_progress (cs_rm s1) then (Err ToolOpInProgress, s1)
     else if cs_in_progress s1 then (Err UpdateInProgress, s1)
     else
       (case process_update_internal E msg (s1 \<lparr> cs_in_progress := True \<rparr>) of
          (r, s2) \<Rightarrow> (r, s2 \<lparr> cs_in_progress := False \<rparr>)))"


section \<open>A start of the client\<close>

fun publish_attempts :: "'v client_env \<Rightarrow> string \<Rightarrow> nat \<Rightarrow> nat \<Rightarrow> client_state \<Rightarrow> client_state" where
  "publish_attempts E version attempt 0 s = s"
| "publish_attempts E version attempt (Suc n) s =
     (let s1 = record_client (PublishTried version (ce_publish_ok E attempt)) s in
      if ce_publish_ok E attempt then s1 else publish_attempts E version (attempt + 1) n s1)"

definition send_nats_notification :: "'v client_env \<Rightarrow> string \<Rightarrow> client_state \<Rightarrow> client_state" where
  "send_nats_notification E version s =
    (if ce_machine_id_ok E then publish_attempts E version 1 5 s else s)"

definition handle_success ::
  "'v client_env \<Rightarrow> update_state \<Rightarrow> client_state \<Rightarrow> (client_error, unit) result \<times> client_state" where
  "handle_success E u s =
    (let target = us_target_version u;
         s1 = snd (promote E target s);
         s2 = snd (update_version E target s1);
         s3 = snd (set_update_status E Updated (Some target) s2);
         s4 = send_nats_notification E target s3;
         s5 = prune_transcripts E UPDATER_TRANSCRIPTS_KEPT (cleanup_all E s4)
     in state_clear E s5)"

definition handle_failure ::
  "'v client_env \<Rightarrow> update_state \<Rightarrow> client_state \<Rightarrow> (client_error, unit) result \<times> client_state" where
  "handle_failure E u s =
    (let s1 = snd (set_update_status E Failed (Some (us_target_version u)) s);
         s2 = prune_transcripts E UPDATER_TRANSCRIPTS_KEPT (cleanup_all E s1)
     in state_clear E s2)"

definition launch_reserve_rollback :: "'v client_env \<Rightarrow> string \<Rightarrow> client_state \<Rightarrow> client_state" where
  "launch_reserve_rollback E target s =
    (if \<not> (de_platform (ce_download E) = Windows \<or> de_platform (ce_download E) = MacOS) then s
     else if \<not> ce_current_exe_ok E then s
     else if ce_launch_ok E then record_client (LaunchedRollback target) s else s)"

definition record_boot_attempt ::
  "'v client_env \<Rightarrow> client_state \<Rightarrow> (client_error, unit) result \<times> client_state" where
  "record_boot_attempt E s =
    and_do (state_load E s) (\<lambda>found s1.
      case found of
        None \<Rightarrow> (Ok (), s1)
      | Some u \<Rightarrow>
          if us_phase u \<notin> {UpdaterLaunched, Verifying} then (Ok (), s1)
          else if us_target_version u = ce_running E then (Ok (), s1)
          else if CRASH_LOOP_MAX_BOOT_ATTEMPTS \<le> us_boot_attempts u then
            and_do (handle_failure E u s1) (\<lambda>_ s2.
              (Ok (), launch_reserve_rollback E (us_target_version u) s2))
          else state_save E (u \<lparr> us_boot_attempts := us_boot_attempts u + 1 \<rparr>) s1)"

definition handle_pending_update ::
  "'v client_env \<Rightarrow> client_state \<Rightarrow> (client_error, unit) result \<times> client_state" where
  "handle_pending_update E s =
    and_do (state_load E s) (\<lambda>found s1.
      case found of
        None \<Rightarrow> (Ok (), s1)
      | Some u \<Rightarrow>
          if ce_running E = us_target_version u then handle_success E u s1
          else if us_phase u \<in> {UpdaterLaunched, Verifying} then (Ok (), s1)
          else handle_failure E u s1)"

text \<open>The part of a start before registration, whose errors are only logged, and the whole of it. A
  fresh process has a fresh run manager and no update under way.\<close>

definition early_boot :: "'v client_env \<Rightarrow> client_state \<Rightarrow> client_state" where
  "early_boot E s =
    (let s1 = snd (reconcile_version E (ce_running E) s);
         s2 = snd (write_boot_marker E s1);
         s3 = snd (seed_if_missing E s2)
     in snd (record_boot_attempt E s3))"

definition fresh_process :: "run_manager \<Rightarrow> client_state \<Rightarrow> client_state" where
  "fresh_process rm s = s \<lparr> cs_rm := rm, cs_in_progress := False \<rparr>"

definition boot :: "'v client_env \<Rightarrow> run_manager \<Rightarrow> client_state \<Rightarrow> client_state" where
  "boot E rm s = snd (handle_pending_update E (early_boot E (fresh_process rm s)))"


section \<open>What the operations touch\<close>

text \<open>Loading moves only the file counter. The writers of the client info touch that file, a promotion
  the reserve and the anchor, and tidying up the transcripts and the left-over files.\<close>

definition info_only :: "client_state \<Rightarrow> client_state \<Rightarrow> bool" where
  "info_only s s' \<longleftrightarrow> s' \<lparr> cs_info_file := cs_info_file s, cs_files := cs_files s \<rparr> = s"

lemma load_frame [simp]:
  "snd (state_load E s) = tick s" "snd (anchor_load E s) = tick s" "snd (info_get E s) = tick s"
  by (simp_all add: state_load_def anchor_load_def info_get_def)

lemma tick_fields [simp]:
  "cs_state_file (tick s) = cs_state_file s" "cs_info_file (tick s) = cs_info_file s"
  "cs_anchor_file (tick s) = cs_anchor_file s" "cs_reserve (tick s) = cs_reserve s"
  "cs_rm (tick s) = cs_rm s" "cs_in_progress (tick s) = cs_in_progress s"
  "cs_events (tick s) = cs_events s" "cs_download (tick s) = cs_download s"
  by (simp_all add: tick_def)

lemma info_only_refl [simp]: "info_only s s"
  by (simp add: info_only_def)

lemma info_only_trans: "info_only s t \<Longrightarrow> info_only t u \<Longrightarrow> info_only s u"
  by (cases s; cases t; cases u) (auto simp: info_only_def)

lemma info_only_tick: "info_only s (tick s)"
  by (simp add: info_only_def tick_def)

lemma info_save_frame: "info_only s (snd (info_save E i s))"
  by (auto simp: info_only_def info_save_def tick_def split: prod.split)

lemma info_write_frame:
  "(\<And>i t. info_only t (snd (f i t))) \<Longrightarrow> info_only s (snd (and_do (info_get E s) f))"
  using info_only_tick [of s] load_frame(3) [of E s]
  by (cases "info_get E s") (auto simp: and_do_def intro: info_only_trans split: sum.split)

lemma info_frames:
  "info_only s (snd (update_version E v s))" "info_only s (snd (reconcile_version E v s))"
  "info_only s (snd (set_update_status E st target s))" "info_only s (snd (set_binary_path E v s))"
  unfolding update_version_def reconcile_version_def set_update_status_def set_binary_path_def
  by (auto intro!: info_write_frame simp: info_save_frame)

lemma info_only_fields:
  assumes "info_only s s'"
  shows "cs_state_file s' = cs_state_file s" "cs_anchor_file s' = cs_anchor_file s"
    "cs_reserve s' = cs_reserve s" "cs_rm s' = cs_rm s" "cs_in_progress s' = cs_in_progress s"
    "cs_events s' = cs_events s"
  using assms by (cases s; cases s'; auto simp: info_only_def)+

lemmas info_keeps = info_frames [THEN info_only_fields(1)] info_frames [THEN info_only_fields(2)]
  info_frames [THEN info_only_fields(3)] info_frames [THEN info_only_fields(4)]
  info_frames [THEN info_only_fields(5)] info_frames [THEN info_only_fields(6)]

lemma promote_fields [simp]:
  "cs_state_file (snd (promote E v s)) = cs_state_file s"
  "cs_info_file (snd (promote E v s)) = cs_info_file s"
  "cs_events (snd (promote E v s)) = cs_events s"
  "cs_anchor_file (snd (promote E v s)) = cs_anchor_file s \<or>
   cs_anchor_file (snd (promote E v s)) = Content v"
  by (auto simp: promote_def copy_running_to_reserve_def and_do_def write_atomically_def tick_def)

fun is_launch :: "client_event \<Rightarrow> bool" where
  "is_launch (LaunchedUpdater v) = True"
| "is_launch e = False"

definition launches :: "client_state \<Rightarrow> client_event list" where
  "launches s = filter is_launch (cs_events s)"

definition rollbacks :: "client_state \<Rightarrow> client_event list" where
  "rollbacks s = filter (\<lambda>e. \<exists>v. e = LaunchedRollback v) (cs_events s)"

definition published_only :: "client_state \<Rightarrow> client_state \<Rightarrow> bool" where
  "published_only s s' \<longleftrightarrow> s' \<lparr> cs_events := cs_events s \<rparr> = s
     \<and> launches s' = launches s \<and> rollbacks s' = rollbacks s"

lemma published_only_trans: "published_only s t \<Longrightarrow> published_only t u \<Longrightarrow> published_only s u"
  by (cases s; cases t; cases u) (auto simp: published_only_def)

lemma publish_attempts_frame: "published_only s (publish_attempts E v a n s)"
proof (induction n arbitrary: a s)
  case (Suc n)
  have "published_only s (record_client (PublishTried v ok) s)" for ok
    by (simp add: published_only_def record_client_def launches_def rollbacks_def)
  then show ?case using Suc.IH by (auto simp: Let_def intro: published_only_trans)
qed (simp add: published_only_def)

lemma send_frame: "published_only s (send_nats_notification E v s)"
  using publish_attempts_frame [of s E v 1 5]
  by (simp add: send_nats_notification_def published_only_def)

lemma tidy_fields [simp]:
  "cs_state_file (prune_transcripts E n s) = cs_state_file s" "cs_state_file (cleanup_all E s) = cs_state_file s"
  "cs_info_file (prune_transcripts E n s) = cs_info_file s" "cs_info_file (cleanup_all E s) = cs_info_file s"
  "cs_anchor_file (prune_transcripts E n s) = cs_anchor_file s" "cs_anchor_file (cleanup_all E s) = cs_anchor_file s"
  "cs_events (prune_transcripts E n s) = cs_events s" "cs_events (cleanup_all E s) = cs_events s"
  by (simp_all add: prune_transcripts_def cleanup_all_def cleanup_all_old_backups_def
      cleanup_temp_update_leftovers_def)

lemma send_fields [simp]:
  "cs_state_file (send_nats_notification E v s) = cs_state_file s"
  "cs_info_file (send_nats_notification E v s) = cs_info_file s"
  "cs_anchor_file (send_nats_notification E v s) = cs_anchor_file s"
  "launches (send_nats_notification E v s) = launches s"
  "rollbacks (send_nats_notification E v s) = rollbacks s"
  using send_frame [of s E v]
  by (cases s; cases "send_nats_notification E v s"; auto simp: published_only_def)+

lemma clear_fields [simp]:
  "cs_info_file (snd (state_clear E s)) = cs_info_file s"
  "cs_anchor_file (snd (state_clear E s)) = cs_anchor_file s"
  "cs_events (snd (state_clear E s)) = cs_events s" "cs_rm (snd (state_clear E s)) = cs_rm s"
  "cs_in_progress (snd (state_clear E s)) = cs_in_progress s"
  "cs_state_file (snd (state_clear E s)) \<in> {cs_state_file s, Missing}"
  by (auto simp: state_clear_def)

lemma save_fields [simp]:
  "cs_info_file (snd (state_save E u s)) = cs_info_file s"
  "cs_anchor_file (snd (state_save E u s)) = cs_anchor_file s"
  "cs_events (snd (state_save E u s)) = cs_events s" "cs_rm (snd (state_save E u s)) = cs_rm s"
  "cs_in_progress (snd (state_save E u s)) = cs_in_progress s"
  "cs_state_file (snd (state_save E u s)) \<in> {cs_state_file s, Content u}"
  by (auto simp: state_save_def write_atomically_def)


section \<open>The anchor is a ratchet\<close>

text \<open>What the code relies on in the semver crate: printing a version and parsing it gives it back, also
  after trimming and stripping, and the order is a strict total one.\<close>

definition semver_ok :: "'v semver \<Rightarrow> (string \<Rightarrow> string) \<Rightarrow> bool" where
  "semver_ok sv tr \<longleftrightarrow>
     (\<forall>v. sv_parse sv (strip_v (tr (sv_show sv v))) = Some v)
     \<and> (\<forall>x. \<not> sv_less sv x x) \<and> (\<forall>x y z. sv_less sv x z \<longrightarrow> sv_less sv x y \<or> sv_less sv y z)"

definition at_least :: "'v semver \<Rightarrow> (string \<Rightarrow> string) \<Rightarrow> string \<Rightarrow> string \<Rightarrow> bool" where
  "at_least sv tr a b \<longleftrightarrow>
     (\<exists>va vb. sv_parse sv (strip_v (tr a)) = Some va \<and> sv_parse sv (strip_v (tr b)) = Some vb
        \<and> \<not> sv_less sv vb va)"

lemma at_least_trans:
  "semver_ok sv tr \<Longrightarrow> at_least sv tr a b \<Longrightarrow> at_least sv tr b c \<Longrightarrow> at_least sv tr a c"
  unfolding at_least_def semver_ok_def by (metis option.inject)

definition reads_ok :: "'v client_env \<Rightarrow> bool" where
  "reads_ok E = (\<forall>n. \<not> read_fails (ce_io E n))"

text \<open>Update messages and starts in any order, whatever version each start runs and whatever fails
  except for reading.\<close>

inductive life_step :: "'v semver \<Rightarrow> (string \<Rightarrow> string) \<Rightarrow> client_state \<Rightarrow> client_state \<Rightarrow> bool"
  for sv tr where
  life_update: "ce_semver E = sv \<Longrightarrow> ce_trim E = tr \<Longrightarrow> reads_ok E \<Longrightarrow>
     life_step sv tr s (snd (process_update E msg s))"
| life_start: "ce_semver E = sv \<Longrightarrow> ce_trim E = tr \<Longrightarrow> reads_ok E \<Longrightarrow>
     life_step sv tr s (boot E rm s)"

inductive_cases life_stepE: "life_step sv tr s s'"

definition target_above :: "'v semver \<Rightarrow> (string \<Rightarrow> string) \<Rightarrow> string \<Rightarrow> update_state disk_file \<Rightarrow> bool" where
  "target_above sv tr a f =
    (case f of Content u \<Rightarrow> at_least sv tr a (us_target_version u) | _ \<Rightarrow> True)"

definition ratchet_inv :: "'v semver \<Rightarrow> (string \<Rightarrow> string) \<Rightarrow> string \<Rightarrow> client_state \<Rightarrow> bool" where
  "ratchet_inv sv tr a0 s \<longleftrightarrow> semver_ok sv tr
     \<and> (\<exists>a. cs_anchor_file s = Content a \<and> at_least sv tr a0 a \<and> target_above sv tr a (cs_state_file s))"

definition ratchet_init :: "'v semver \<Rightarrow> (string \<Rightarrow> string) \<Rightarrow> string \<Rightarrow> client_state \<Rightarrow> bool" where
  "ratchet_init sv tr a0 s \<longleftrightarrow> semver_ok sv tr \<and> at_least sv tr a0 a0
     \<and> cs_anchor_file s = Content a0 \<and> cs_state_file s = Missing"

text \<open>An operation that keeps the anchor, and keeps, clears or retargets the state file above it, keeps
  the invariant.\<close>

lemma ratchet_frame:
  assumes "ratchet_inv sv tr a0 s" and "cs_anchor_file s' = cs_anchor_file s"
    and "cs_state_file s' \<in> {cs_state_file s, Missing}"
  shows "ratchet_inv sv tr a0 s'"
  using assms by (auto simp: ratchet_inv_def target_above_def)

lemma ratchet_save:
  assumes "ratchet_inv sv tr a0 s" and "cs_anchor_file s = Content a" and "at_least sv tr a (us_target_version u)"
  shows "ratchet_inv sv tr a0 (snd (state_save E u s))"
  using assms save_fields(6) [of E u s] by (auto simp: ratchet_inv_def target_above_def)

lemma clear_and_fail_fields [simp]:
  "cs_anchor_file (snd (clear_and_fail E e s)) = cs_anchor_file s"
  "cs_info_file (snd (clear_and_fail E e s)) = cs_info_file s"
  "launches (snd (clear_and_fail E e s)) = launches s"
  "cs_in_progress (snd (clear_and_fail E e s)) = cs_in_progress s"
  "cs_state_file (snd (clear_and_fail E e s)) \<in> {cs_state_file s, Missing}"
  "fst (clear_and_fail E e s) \<noteq> Ok ()"
  by (auto simp: clear_and_fail_def state_clear_def launches_def)

text \<open>A predicate that the file operations of an update keep is kept by the whole handling of it.\<close>

locale update_closed =
  fixes E :: "'v client_env" and Q :: "client_state \<Rightarrow> bool" and target :: string
  assumes Q_save: "Q s \<Longrightarrow> us_target_version u = target \<Longrightarrow> Q (snd (state_save E u s))"
    and Q_clear: "Q s \<Longrightarrow> Q (snd (state_clear E s))"
    and Q_info: "Q s \<Longrightarrow> info_only s t \<Longrightarrow> Q t"
    and Q_rm: "Q s \<Longrightarrow> Q (s \<lparr> cs_rm := rm \<rparr>)"
    and Q_download: "Q s \<Longrightarrow> Q (s \<lparr> cs_download := d \<rparr>)"
    and Q_events: "Q s \<Longrightarrow> Q (s \<lparr> cs_events := es \<rparr>)"
begin

lemma Q_and_do:
  "Q (snd r) \<Longrightarrow> (\<And>x s. r = (Ok x, s) \<Longrightarrow> Q s \<Longrightarrow> Q (snd (f x s))) \<Longrightarrow> Q (snd (and_do r f))"
  by (rule and_do_keeps)

lemma Q_case:
  "Q (snd r) \<Longrightarrow> (\<And>e s. Q s \<Longrightarrow> Q (snd (f e s))) \<Longrightarrow> (\<And>x s. Q s \<Longrightarrow> Q (snd (g x s))) \<Longrightarrow>
   Q (snd (case r of (Inl e, s) \<Rightarrow> f e s | (Inr x, s) \<Rightarrow> g x s))"
  by (cases r; cases "fst r") auto

lemma Q_record: "Q s \<Longrightarrow> Q (record_client e s)"
  by (simp add: record_client_def Q_events)

lemma Q_on_rm: "Q s \<Longrightarrow> Q (on_client_rm f s)"
  by (simp add: on_client_rm_def Q_rm)

lemma Q_phase: "Q s \<Longrightarrow> us_target_version u = target \<Longrightarrow> Q (snd (save_phase E p u s))"
  by (simp add: save_phase_def Q_save set_phase_def)

lemma Q_clear_and_fail: "Q s \<Longrightarrow> Q (snd (clear_and_fail E e s))"
  unfolding clear_and_fail_def by (rule and_do_keeps) (simp_all add: Q_clear)

lemma Q_download_step: "Q s \<Longrightarrow> Q (snd (run_download E config s))"
  by (auto simp: run_download_def Q_on_rm Q_download split: prod.split)

lemma Q_archive: "Q s \<Longrightarrow> Q (snd (create_temp_archive E s))"
  by (simp add: create_temp_archive_def Q_record)

lemma Q_launch: "Q s \<Longrightarrow> Q (snd (launch_step E u s))"
  by (simp add: launch_step_def Q_record Q_on_rm Q_clear_and_fail)

lemma Q_status: "Q s \<Longrightarrow> Q (snd (set_update_status E st v s))"
  by (rule Q_info [OF _ info_frames(3)])

lemma execute_keeps:
  assumes "Q s" and u: "us_target_version u = target"
  shows "Q (snd (execute_update E msg u s))"
proof (cases "find_config_for_current_os (ce_download E) (cm_download_configurations msg)")
  case (Inl e)
  then show ?thesis using assms(1) by (simp add: execute_update_def)
next
  case (Inr config)
  show ?thesis
    unfolding execute_update_def Inr sum.case
    by (rule Q_and_do [OF Q_phase [OF assms]], rule Q_case [OF Q_download_step], assumption,
        rule Q_clear_and_fail, assumption, rule Q_and_do [OF Q_phase [OF _ u]],
        simp add: mark_pending_def Q_on_rm, rule Q_and_do [OF Q_phase [OF _ u]], assumption,
        rule Q_case [OF Q_archive], assumption, rule Q_clear_and_fail, assumption,
        rule Q_and_do [OF Q_phase [OF _ u]], assumption, rule Q_launch, assumption)
qed

lemma start_keeps:
  assumes "Q s"
  shows "Q (snd (start_update E msg target s))"
proof -
  have read: "Q (snd (info_get E s))" using Q_info [OF assms info_only_tick] by simp
  have u: "us_target_version (new_update_state E target t) = target" for t
    by (simp add: new_update_state_def)
  show ?thesis
    unfolding start_update_def Let_def
    by (rule Q_and_do [OF read], rule Q_and_do [OF Q_save], assumption, rule u,
        rule Q_and_do [OF Q_status], assumption, rule Q_case [OF execute_keeps], assumption, rule u)
      (simp_all add: Q_status)
qed

end

interpretation above: update_closed E
  "\<lambda>s. ratchet_inv sv tr a0 s \<and> cs_anchor_file s = Content a \<and> at_least sv tr a target" target
  for E sv tr a0 a target
proof (unfold_locales, goal_cases)
  case (1 s u)
  then show ?case using ratchet_save [of sv tr a0 s a u E] by simp
next
  case (2 s)
  then have "ratchet_inv sv tr a0 (snd (state_clear E s))"
    by (intro ratchet_frame [OF _ clear_fields(2) clear_fields(6)]) simp
  then show ?case using 2 by simp
next
  case (3 s t)
  then show ?case using ratchet_frame [of sv tr a0 s t] by (simp add: info_only_fields)
qed (auto simp: ratchet_inv_def)

lemma ratchet_same:
  assumes "ratchet_inv sv tr a0 s" and "cs_anchor_file s' = cs_anchor_file s"
    and "cs_state_file s' = cs_state_file s"
  shows "ratchet_inv sv tr a0 s'"
  using assms by (intro ratchet_frame [OF assms(1,2)]) simp

lemma anchor_load_content:
  "reads_ok E \<Longrightarrow> cs_anchor_file s = Content a \<Longrightarrow> anchor_load E s = (Ok (Some a), tick s)"
  by (simp add: anchor_load_def load_optional_def reads_ok_def)

lemma process_internal_ratchet:
  assumes "ratchet_inv sv tr a0 s" and E: "ce_semver E = sv" "ce_trim E = tr" "reads_ok E"
  shows "ratchet_inv sv tr a0 (snd (process_update_internal E msg s))"
proof -
  obtain a where a: "cs_anchor_file s = Content a" "at_least sv tr a0 a"
    using assms(1) by (auto simp: ratchet_inv_def)
  note load = anchor_load_content [OF E(3) a(1)]
  have ticked: "ratchet_inv sv tr a0 (tick s)" by (rule ratchet_same [OF assms(1)]) simp_all
  have refused: "ratchet_inv sv tr a0 (on_client_rm f t)" if "ratchet_inv sv tr a0 t" for f t
    by (rule ratchet_same [OF that]) (simp_all add: on_client_rm_def)
  have start: "ratchet_inv sv tr a0 (snd (start_update E msg (sv_show (ce_semver E) v) (tick s)))"
    if "\<not> downgrade_refused E v (Ok (Some a))" for v
  proof -
    have "at_least sv tr a (sv_show (ce_semver E) v)"
      using that a(2) assms(1) E(1,2)
      by (auto simp: downgrade_refused_def at_least_def parse_version_def ratchet_inv_def semver_ok_def)
    then show ?thesis
      using above.start_keeps [where s = "tick s" and a = a and E = E and sv = sv and tr = tr
          and a0 = a0 and target = "sv_show (ce_semver E) v" and msg = msg] ticked a(1) by simp
  qed
  show ?thesis
    using assms(1) ticked refused start load
    by (auto simp: process_update_internal_def Let_def ALLOW_DOWNGRADE_def split: option.split)
qed

lemma process_update_ratchet:
  assumes "ratchet_inv sv tr a0 s" and "ce_semver E = sv" "ce_trim E = tr" "reads_ok E"
  shows "ratchet_inv sv tr a0 (snd (process_update E msg s))"
proof -
  define s1 where "s1 = mark_pending E s"
  have s1: "ratchet_inv sv tr a0 s1" "ratchet_inv sv tr a0 (s1 \<lparr> cs_in_progress := True \<rparr>)"
    using assms(1) by (auto intro: ratchet_same simp: s1_def mark_pending_def on_client_rm_def)
  note inner = process_internal_ratchet [OF s1(2) assms(2-4), of msg]
  show ?thesis
    using s1(1) ratchet_same [OF inner]
    by (auto simp: process_update_def Let_def s1_def [symmetric] split: prod.split)
qed

lemma seed_anchor:
  assumes "reads_ok E" and "cs_anchor_file s = Content a"
  shows "cs_anchor_file (snd (seed_if_missing E s)) = Content a"
    "cs_state_file (snd (seed_if_missing E s)) = cs_state_file s"
    "cs_events (snd (seed_if_missing E s)) = cs_events s"
    "cs_info_file (snd (seed_if_missing E s)) = cs_info_file s"
  using promote_fields(4) [of E a "tick s"] assms(2)
  by (auto simp: seed_if_missing_def anchor_load_content [OF assms] copy_running_to_reserve_def)

lemma handle_failure_fields:
  "cs_anchor_file (snd (handle_failure E u s)) = cs_anchor_file s"
  "cs_state_file (snd (handle_failure E u s)) \<in> {cs_state_file s, Missing}"
  "cs_events (snd (handle_failure E u s)) = cs_events s"
  using clear_fields(6) [of E "prune_transcripts E UPDATER_TRANSCRIPTS_KEPT
      (cleanup_all E (snd (set_update_status E Failed (Some (us_target_version u)) s)))"]
  by (simp_all add: handle_failure_def Let_def info_keeps)

lemma handle_success_fields:
  "cs_anchor_file (snd (handle_success E u s)) \<in> {cs_anchor_file s, Content (us_target_version u)}"
  "cs_state_file (snd (handle_success E u s)) \<in> {cs_state_file s, Missing}"
proof -
  define t where "t = prune_transcripts E UPDATER_TRANSCRIPTS_KEPT (cleanup_all E
    (send_nats_notification E (us_target_version u)
      (snd (set_update_status E Updated (Some (us_target_version u))
        (snd (update_version E (us_target_version u) (snd (promote E (us_target_version u) s))))))))"
  have success: "handle_success E u s = state_clear E t"
    by (simp add: handle_success_def Let_def t_def)
  have t: "cs_anchor_file t \<in> {cs_anchor_file s, Content (us_target_version u)}"
    "cs_state_file t = cs_state_file s"
    using promote_fields(4) [of E "us_target_version u" s] by (simp_all add: t_def info_keeps)
  show "cs_anchor_file (snd (handle_success E u s)) \<in> {cs_anchor_file s, Content (us_target_version u)}"
    "cs_state_file (snd (handle_success E u s)) \<in> {cs_state_file s, Missing}"
    using t clear_fields(6) [of E t] unfolding success by simp_all
qed

text \<open>The early part of a start keeps the anchor, and leaves the state file, removes it, or counts one
  more attempt in it.\<close>

lemma record_boot_cases:
  assumes "record_boot_attempt E s = (r, s')"
  shows "cs_anchor_file s' = cs_anchor_file s" and "launches s' = launches s"
    and "cs_state_file s' \<in> {cs_state_file s, Missing}
      \<or> (\<exists>u. cs_state_file s = Content u
            \<and> cs_state_file s' = Content (u \<lparr> us_boot_attempts := us_boot_attempts u + 1 \<rparr>))"
proof -
  have rollback: "cs_anchor_file (launch_reserve_rollback E v t) = cs_anchor_file t"
    "cs_state_file (launch_reserve_rollback E v t) = cs_state_file t"
    "launches (launch_reserve_rollback E v t) = launches t" for v t
    by (simp_all add: launch_reserve_rollback_def record_client_def launches_def)
  have failure: "cs_anchor_file t = cs_anchor_file s \<and> launches t = launches s
      \<and> cs_state_file t \<in> {cs_state_file s, Missing}"
    if "handle_failure E u (tick s) = (q, t)" for u q t
    using handle_failure_fields [of E u "tick s"] that by (simp add: launches_def)
  have save: "cs_anchor_file t = cs_anchor_file s \<and> launches t = launches s
      \<and> cs_state_file t \<in> {cs_state_file s, Content u}"
    if "state_save E u (tick s) = (q, t)" for u q t
    using save_fields [of E u "tick s"] that by (simp add: launches_def)
  have loaded: "cs_state_file s = Content u" if "state_load E s = (Ok (Some u), t)" for u t
    using that by (auto simp: state_load_def load_optional_def split: disk_file.splits if_splits)
  have "cs_anchor_file s' = cs_anchor_file s \<and> launches s' = launches s \<and>
      (cs_state_file s' \<in> {cs_state_file s, Missing}
      \<or> (\<exists>u. cs_state_file s = Content u
            \<and> cs_state_file s' = Content (u \<lparr> us_boot_attempts := us_boot_attempts u + 1 \<rparr>)))"
  proof (cases "state_load E s")
    case (Pair found t)
    have t: "t = tick s" using Pair load_frame(1) [of E s] by simp
    show ?thesis
    proof (cases "\<exists>u. found = Ok (Some u)")
      case False
      then have "s' = tick s" using assms Pair t
        by (cases found) (auto simp: record_boot_attempt_def split: option.splits)
      then show ?thesis by (simp add: launches_def)
    next
      case True
      then obtain u where u: "found = Ok (Some u)" by blast
      show ?thesis
        using assms loaded [OF Pair [unfolded u]] rollback
        by (cases "handle_failure E u (tick s)"; cases "fst (handle_failure E u (tick s))")
          (auto simp: record_boot_attempt_def Pair u t launches_def
            dest: failure save split: if_splits)
    qed
  qed
  then show "cs_anchor_file s' = cs_anchor_file s" "launches s' = launches s"
    "cs_state_file s' \<in> {cs_state_file s, Missing}
      \<or> (\<exists>u. cs_state_file s = Content u
            \<and> cs_state_file s' = Content (u \<lparr> us_boot_attempts := us_boot_attempts u + 1 \<rparr>))"
    by blast+
qed

lemma boot_marker_fields [simp]:
  "cs_anchor_file (snd (write_boot_marker E s)) = cs_anchor_file s"
  "cs_state_file (snd (write_boot_marker E s)) = cs_state_file s"
  "cs_info_file (snd (write_boot_marker E s)) = cs_info_file s"
  "cs_events (snd (write_boot_marker E s)) = cs_events s"
  by (simp_all add: write_boot_marker_def)

lemma early_boot_ratchet:
  assumes "ratchet_inv sv tr a0 s" and "reads_ok E"
  shows "ratchet_inv sv tr a0 (early_boot E s)"
proof -
  obtain a where a: "cs_anchor_file s = Content a" using assms(1) by (auto simp: ratchet_inv_def)
  define s2 where "s2 = snd (write_boot_marker E (snd (reconcile_version E (ce_running E) s)))"
  define s3 where "s3 = snd (seed_if_missing E s2)"
  have s2: "cs_anchor_file s2 = Content a" "cs_state_file s2 = cs_state_file s"
    using a by (simp_all add: s2_def info_keeps)
  have "cs_anchor_file s3 = cs_anchor_file s" "cs_state_file s3 = cs_state_file s"
    using seed_anchor(1,2) [OF assms(2) s2(1)] a s2(2) by (simp_all add: s3_def)
  note s3 = ratchet_same [OF assms(1) this]
  obtain r s4 where last: "record_boot_attempt E s3 = (r, s4)" by (cases "record_boot_attempt E s3")
  have "ratchet_inv sv tr a0 s4"
    using record_boot_cases(3) [OF last]
  proof
    assume "cs_state_file s4 \<in> {cs_state_file s3, Missing}"
    then show ?thesis by (rule ratchet_frame [OF s3 record_boot_cases(1) [OF last]])
  next
    assume "\<exists>u. cs_state_file s3 = Content u
      \<and> cs_state_file s4 = Content (u \<lparr> us_boot_attempts := us_boot_attempts u + 1 \<rparr>)"
    then show ?thesis using s3 record_boot_cases(1) [OF last]
      by (auto simp: ratchet_inv_def target_above_def)
  qed
  then show ?thesis by (simp add: early_boot_def Let_def last s3_def [symmetric] s2_def [symmetric])
qed

lemma handle_pending_ratchet:
  assumes "ratchet_inv sv tr a0 s"
  shows "ratchet_inv sv tr a0 (snd (handle_pending_update E s))"
proof -
  obtain a where a: "cs_anchor_file s = Content a" "at_least sv tr a0 a"
    and above: "target_above sv tr a (cs_state_file s)" and ok: "semver_ok sv tr"
    using assms by (auto simp: ratchet_inv_def)
  have ticked: "ratchet_inv sv tr a0 (tick s)" by (rule ratchet_same [OF assms]) simp_all
  have failure: "ratchet_inv sv tr a0 (snd (handle_failure E u (tick s)))" for u
    by (rule ratchet_frame [OF ticked handle_failure_fields(1,2)])
  have success: "ratchet_inv sv tr a0 (snd (handle_success E u (tick s)))"
    if u: "cs_state_file s = Content u" for u
  proof -
    have t: "at_least sv tr a (us_target_version u)" using above u by (simp add: target_above_def)
    then have "at_least sv tr a0 (us_target_version u)" using a(2) at_least_trans [OF ok] by blast
    moreover have "at_least sv tr (us_target_version u) (us_target_version u)"
      using t ok by (auto simp: at_least_def semver_ok_def)
    ultimately show ?thesis
      using handle_success_fields [of E u "tick s"] t a u ok
      by (auto simp: ratchet_inv_def target_above_def)
  qed
  show ?thesis
    using ticked failure success
    by (auto simp: handle_pending_update_def state_load_def load_optional_def
        split: disk_file.split)
qed

lemma life_step_ratchet: "ratchet_inv sv tr a0 s \<Longrightarrow> life_step sv tr s s' \<Longrightarrow> ratchet_inv sv tr a0 s'"
proof (erule life_stepE)
  fix E :: "'a client_env" and msg
  assume "ratchet_inv sv tr a0 s" "s' = snd (process_update E msg s)"
    "ce_semver E = sv" "ce_trim E = tr" "reads_ok E"
  then show "ratchet_inv sv tr a0 s'" using process_update_ratchet by blast
next
  fix E :: "'a client_env" and rm
  assume inv: "ratchet_inv sv tr a0 s" and s': "s' = boot E rm s" and "reads_ok E"
  moreover have "ratchet_inv sv tr a0 (fresh_process rm s)"
    by (rule ratchet_same [OF inv]) (simp_all add: fresh_process_def)
  ultimately show "ratchet_inv sv tr a0 s'"
    using handle_pending_ratchet early_boot_ratchet unfolding boot_def by blast
qed

interpretation life: inv_system "ratchet_init sv tr a0" "life_step sv tr" "ratchet_inv sv tr a0"
  for sv tr a0
proof (unfold_locales, goal_cases)
  case (1 s)
  then show ?case by (simp add: ratchet_init_def ratchet_inv_def target_above_def)
next
  case (2 s s')
  then show ?case by (rule life_step_ratchet)
qed

text \<open>C15. Starting with a stored anchor and no update state, and as long as every read of a file
  succeeds, no sequence of update messages and starts of any version lowers the last-known-good
  anchor, whichever writes, copies, downloads and launches fail on the way.\<close>

theorem anchor_never_lowered:
  assumes "semver_ok sv tr" and "at_least sv tr a0 a0"
    and "cs_anchor_file s = Content a0" and "cs_state_file s = Missing"
    and "(life_step sv tr)\<^sup>*\<^sup>* s s'"
  shows "\<exists>a. cs_anchor_file s' = Content a \<and> at_least sv tr a0 a"
proof -
  have "ratchet_init sv tr a0 s" using assms(1-4) by (simp add: ratchet_init_def)
  then have "ratchet_inv sv tr a0 s'" using assms(5) by (rule life.inv_reachable)
  then show ?thesis by (auto simp: ratchet_inv_def)
qed


text \<open>Reading is needed: an anchor that cannot be read is taken for a missing one, and the running
  version, however old, replaces it.\<close>

lemma unreadable_anchor_is_replaced:
  assumes "read_fails (ce_io E (cs_files s))" "cs_anchor_file s = Content a"
    and "ce_copy_ok E" "\<not> write_fails (ce_io E (Suc (cs_files s)))"
  shows "fst (seed_if_missing E s) = Ok ()"
    "cs_anchor_file (snd (seed_if_missing E s)) = Content (ce_running E)"
  using assms
  by (simp_all add: seed_if_missing_def anchor_load_def load_optional_def read_file_def map_err_def
      promote_def copy_running_to_reserve_def write_atomically_def tick_def and_do_def)


section \<open>What a message leads to\<close>

text \<open>Handling an update either ends with the updater launched, or launches nothing.\<close>

fun update_post ::
  "update_state \<Rightarrow> client_event list \<Rightarrow> (client_error, unit) result \<times> client_state \<Rightarrow> bool" where
  "update_post u L (Inr _, s') \<longleftrightarrow>
     launches s' = L @ [LaunchedUpdater (us_target_version u)]
     \<and> cs_state_file s' = Content (set_phase UpdaterLaunched u)
     \<and> rm_shutting_down (cs_rm s') \<and> \<not> any_tool_op_in_progress (cs_rm s')"
| "update_post u L (Inl _, s') \<longleftrightarrow> launches s' = L"

lemma update_post_fail: "fst r \<noteq> Ok () \<Longrightarrow> launches (snd r) = L \<Longrightarrow> update_post u L r"
  by (cases r; cases "fst r") auto

lemma update_post_and_do:
  "launches (snd r) = L \<Longrightarrow> (\<And>x s. r = (Ok x, s) \<Longrightarrow> launches s = L \<Longrightarrow> update_post u L (f x s)) \<Longrightarrow>
   update_post u L (and_do r f)"
  by (cases r; cases "fst r") (auto simp: and_do_def)

lemma update_post_case:
  "launches (snd r) = L \<Longrightarrow> (\<And>e s. launches s = L \<Longrightarrow> update_post u L (f e s)) \<Longrightarrow>
   (\<And>x s. launches s = L \<Longrightarrow> update_post u L (g x s)) \<Longrightarrow>
   update_post u L (case r of (Inl e, s) \<Rightarrow> f e s | (Inr x, s) \<Rightarrow> g x s)"
  by (cases r; cases "fst r") auto

lemma clear_and_fail_post: "launches s = L \<Longrightarrow> update_post u L (clear_and_fail E e s)"
  by (rule update_post_fail) simp_all

lemma save_phase_launches: "launches (snd (save_phase E p u s)) = launches s"
  by (simp add: save_phase_def launches_def)

lemma launch_step_post:
  assumes "launches s = L" and "cs_state_file s = Content (set_phase UpdaterLaunched u)"
  shows "update_post u L (launch_step E u s)"
proof -
  have "launches (record_client ArchiveRemoved s) = L"
    using assms(1) by (simp add: record_client_def launches_def)
  then show ?thesis
    using assms clear_and_fail_post [of "record_client ArchiveRemoved s"]
    by (auto simp: launch_step_def on_client_rm_def signal_shutdown_def record_client_def launches_def
        any_tool_op_in_progress_def)
qed

lemma save_phase_Ok: "save_phase E p u s = (Ok x, t) \<Longrightarrow> cs_state_file t = Content (set_phase p u)"
  by (auto simp: save_phase_def state_save_def write_atomically_def split: if_splits)

lemma execute_update_post: "update_post u (launches s) (execute_update E msg u s)"
proof (cases "find_config_for_current_os (ce_download E) (cm_download_configurations msg)")
  case (Inl e)
  then show ?thesis by (simp add: execute_update_def)
next
  case (Inr config)
  have download: "launches (snd (run_download E config t)) = launches t" for t
    by (auto simp: run_download_def on_client_rm_def launches_def split: prod.split)
  have marked: "launches (mark_pending E t) = launches t" for t
    by (simp add: mark_pending_def on_client_rm_def launches_def)
  have archive: "launches (snd (create_temp_archive E t)) = launches t" for t
    by (simp add: create_temp_archive_def record_client_def launches_def)
  show ?thesis
    unfolding execute_update_def Inr sum.case
    by (rule update_post_and_do, simp add: save_phase_launches, rule update_post_case,
        simp add: download, rule clear_and_fail_post, assumption, rule update_post_and_do,
        simp add: save_phase_launches marked, rule update_post_and_do,
        simp add: save_phase_launches, rule update_post_case, simp add: archive,
        rule clear_and_fail_post, assumption, rule update_post_and_do,
        simp add: save_phase_launches, rule launch_step_post, assumption,
        rule save_phase_Ok, assumption)
qed

lemma info_only_launches: "info_only s t \<Longrightarrow> launches t = launches s"
  by (simp add: launches_def info_only_fields)

lemma status_launches [simp]: "launches (snd (set_update_status E st v s)) = launches s"
  by (rule info_only_launches [OF info_frames(3)])

lemma start_update_post:
  "\<exists>t. update_post (new_update_state E version t) (launches s) (start_update E msg version s)"
proof (cases "info_get E s")
  case (Pair r t)
  have t: "launches t = launches s"
    using load_frame(3) [of E s] Pair by (simp add: launches_def)
  let ?u = "new_update_state E version t"
  have "update_post ?u (launches s) (and_do (state_save E ?u t) (\<lambda>_ s2.
      and_do (set_update_status E Updating (Some version) s2) (\<lambda>_ s3.
        case execute_update E msg ?u s3 of
          (Inl e, s4) \<Rightarrow> (Err e, snd (set_update_status E Failed (Some version) s4))
        | (Inr _, s4) \<Rightarrow> (Ok (), s4))))"
  proof (rule update_post_and_do)
    show "launches (snd (state_save E ?u t)) = launches s" using t by (simp add: launches_def)
    fix s2 assume s2: "launches s2 = launches s"
    show "update_post ?u (launches s) (and_do (set_update_status E Updating (Some version) s2) (\<lambda>_ s3.
        case execute_update E msg ?u s3 of
          (Inl e, s4) \<Rightarrow> (Err e, snd (set_update_status E Failed (Some version) s4))
        | (Inr _, s4) \<Rightarrow> (Ok (), s4)))"
    proof (rule update_post_and_do)
      show "launches (snd (set_update_status E Updating (Some version) s2)) = launches s"
        using s2 by simp
      fix s3 assume s3: "launches s3 = launches s"
      show "update_post ?u (launches s) (case execute_update E msg ?u s3 of
          (Inl e, s4) \<Rightarrow> (Err e, snd (set_update_status E Failed (Some version) s4))
        | (Inr _, s4) \<Rightarrow> (Ok (), s4))"
        using execute_update_post [of ?u s3 E msg, unfolded s3]
        by (cases "execute_update E msg ?u s3"; cases "fst (execute_update E msg ?u s3)") auto
    qed
  qed
  then show ?thesis
    using t by (cases r) (auto simp: start_update_def Pair Let_def)
qed

text \<open>C16. An update message leaves the update flag as it was. Either it launches the updater exactly once,
  for the parsed version printed back, which is not the running one, with the state file saying so,
  the tools' loops told to stop and no tool operation in progress; or it launches nothing, and is
  then only reported as handled with the pending mark cleared and the state file untouched.\<close>

theorem update_message_contract:
  "case process_update E msg s of (r, s') \<Rightarrow> cs_in_progress s' = cs_in_progress s \<and>
     ((\<exists>v u. parse_version E (ce_trim E (cm_version msg)) = Some v
         \<and> r = Ok () \<and> sv_show (ce_semver E) v \<noteq> ce_running E
         \<and> \<not> cs_in_progress s \<and> \<not> any_tool_op_in_progress (cs_rm s)
         \<and> launches s' = launches s @ [LaunchedUpdater (sv_show (ce_semver E) v)]
         \<and> cs_state_file s' = Content u \<and> us_target_version u = sv_show (ce_semver E) v
         \<and> us_phase u = UpdaterLaunched \<and> us_boot_attempts u = 0
         \<and> rm_shutting_down (cs_rm s') \<and> \<not> any_tool_op_in_progress (cs_rm s'))
      \<or> launches s' = launches s
         \<and> (r = Ok () \<longrightarrow> cs_state_file s' = cs_state_file s \<and> rm_pending_since (cs_rm s') = None))"
proof -
  define s1 where "s1 = mark_pending E s"
  have s1: "cs_in_progress s1 = cs_in_progress s" "launches s1 = launches s"
    "cs_state_file s1 = cs_state_file s"
    "any_tool_op_in_progress (cs_rm s1) = any_tool_op_in_progress (cs_rm s)"
    by (simp_all add: s1_def mark_pending_def on_client_rm_def launches_def
        any_tool_op_in_progress_def mark_client_update_pending_def)
  define s2 where "s2 = s1 \<lparr> cs_in_progress := True \<rparr>"
  have s2: "launches s2 = launches s" "cs_state_file s2 = cs_state_file s" "cs_in_progress s2"
    using s1(2) by (simp_all add: s2_def s1(3) launches_def)
  have start: "\<exists>t. update_post (new_update_state E (sv_show (ce_semver E) v) t) (launches s)
      (start_update E msg (sv_show (ce_semver E) v) (tick s2))" for v
    using start_update_post [of E "sv_show (ce_semver E) v" "tick s2" msg] s2(1)
    by (simp add: launches_def)
  obtain r s' where run: "process_update_internal E msg s2 = (r, s')"
    by (cases "process_update_internal E msg s2")
  have load: "\<exists>a. anchor_load E s2 = (a, tick s2)"
    using load_frame(2) [of E s2] by (cases "anchor_load E s2") simp
  have post: "(\<exists>v u. parse_version E (ce_trim E (cm_version msg)) = Some v
         \<and> r = Ok () \<and> sv_show (ce_semver E) v \<noteq> ce_running E
         \<and> launches s' = launches s @ [LaunchedUpdater (sv_show (ce_semver E) v)]
         \<and> cs_state_file s' = Content u \<and> us_target_version u = sv_show (ce_semver E) v
         \<and> us_phase u = UpdaterLaunched \<and> us_boot_attempts u = 0
         \<and> rm_shutting_down (cs_rm s') \<and> \<not> any_tool_op_in_progress (cs_rm s'))
      \<or> launches s' = launches s
         \<and> (r = Ok () \<longrightarrow> cs_state_file s' = cs_state_file s \<and> rm_pending_since (cs_rm s') = None)"
  proof (cases "\<exists>v. parse_version E (ce_trim E (cm_version msg)) = Some v
      \<and> (r, s') = start_update E msg (sv_show (ce_semver E) v) (tick s2)
      \<and> sv_show (ce_semver E) v \<noteq> ce_running E")
    case True
    then obtain v where v: "parse_version E (ce_trim E (cm_version msg)) = Some v"
      "start_update E msg (sv_show (ce_semver E) v) (tick s2) = (r, s')"
      "sv_show (ce_semver E) v \<noteq> ce_running E" by auto
    from start [of v, unfolded v(2)] v(1,3) show ?thesis
      by (cases r) (auto simp: new_update_state_def set_phase_def)
  next
    case False
    then show ?thesis using run s2 load
      by (auto simp: process_update_internal_def Let_def ALLOW_DOWNGRADE_def on_client_rm_def
          clear_client_update_pending_def launches_def split: if_splits option.splits)
  qed
  show ?thesis
    using post run s1 by (auto simp: process_update_def Let_def s1_def [symmetric] s2_def [symmetric] launches_def)
qed


section \<open>Crash loops\<close>

definition files_ok :: "'v client_env \<Rightarrow> bool" where
  "files_ok E = (\<forall>n. \<not> read_fails (ce_io E n) \<and> \<not> write_fails (ce_io E n))"

fun boots :: "'v client_env \<Rightarrow> run_manager \<Rightarrow> nat \<Rightarrow> client_state \<Rightarrow> client_state" where
  "boots E rm 0 s = s"
| "boots E rm (Suc n) s = boot E rm (boots E rm n s)"

definition rollback_events :: "'v client_env \<Rightarrow> string \<Rightarrow> client_event list" where
  "rollback_events E target =
    (if de_platform (ce_download E) \<in> {Windows, MacOS} \<and> ce_current_exe_ok E \<and> ce_launch_ok E
     then [LaunchedRollback target] else [])"

lemma seed_fields:
  "cs_state_file (snd (seed_if_missing E s)) = cs_state_file s"
  "cs_events (snd (seed_if_missing E s)) = cs_events s"
  by (auto simp: seed_if_missing_def anchor_load_def copy_running_to_reserve_def map_err_def
      split: sum.split option.split)

lemma early_boot_start:
  "\<exists>t. early_boot E s = snd (record_boot_attempt E t)
     \<and> cs_state_file t = cs_state_file s \<and> cs_events t = cs_events s"
  unfolding early_boot_def Let_def
  by (rule exI, rule conjI, rule refl) (simp add: seed_fields info_keeps)

lemma state_load_ok:
  "files_ok E \<Longrightarrow> state_load E s =
     (case cs_state_file s of Missing \<Rightarrow> (Ok None, tick s) | Content u \<Rightarrow> (Ok (Some u), tick s)
      | Corrupt \<Rightarrow> (Err (StateFailed ParseError), tick s))"
  by (auto simp: files_ok_def state_load_def load_optional_def split: disk_file.split)

lemma state_clear_ok:
  "files_ok E \<Longrightarrow> fst (state_clear E s) = Ok () \<and> cs_state_file (snd (state_clear E s)) = Missing"
  by (auto simp: files_ok_def state_clear_def)

lemma handle_failure_ok:
  assumes "files_ok E"
  shows "fst (handle_failure E u s) = Ok ()" "cs_state_file (snd (handle_failure E u s)) = Missing"
    "cs_events (snd (handle_failure E u s)) = cs_events s"
  using state_clear_ok [OF assms] handle_failure_fields(3) [of E u s]
  by (auto simp: handle_failure_def Let_def)

lemma boot_without_update:
  assumes "files_ok E" and "cs_state_file s = Missing"
  shows "cs_state_file (boot E rm s) = Missing \<and> cs_events (boot E rm s) = cs_events s"
proof -
  obtain t where t: "early_boot E (fresh_process rm s) = snd (record_boot_attempt E t)"
    "cs_state_file t = Missing" "cs_events t = cs_events s"
    using early_boot_start [of E "fresh_process rm s"] assms(2) by (auto simp: fresh_process_def)
  then have "early_boot E (fresh_process rm s) = tick t"
    by (simp add: record_boot_attempt_def state_load_ok [OF assms(1)])
  then show ?thesis
    using t by (simp add: boot_def handle_pending_update_def state_load_ok [OF assms(1)])
qed

lemma boot_counts:
  assumes "files_ok E" and "cs_state_file s = Content u" and "us_phase u \<in> {UpdaterLaunched, Verifying}"
    and "us_target_version u \<noteq> ce_running E"
  shows "cs_state_file (boot E rm s) =
      (if us_boot_attempts u < 3 then Content (u \<lparr> us_boot_attempts := us_boot_attempts u + 1 \<rparr>) else Missing)"
    and "cs_events (boot E rm s) =
      cs_events s @ (if us_boot_attempts u < 3 then [] else rollback_events E (us_target_version u))"
proof -
  obtain t where t: "early_boot E (fresh_process rm s) = snd (record_boot_attempt E t)"
    "cs_state_file t = Content u" "cs_events t = cs_events s"
    using early_boot_start [of E "fresh_process rm s"] assms(2) by (auto simp: fresh_process_def)
  define s4 where "s4 = snd (record_boot_attempt E t)"
  have "cs_state_file s4 = (if us_boot_attempts u < 3
      then Content (u \<lparr> us_boot_attempts := us_boot_attempts u + 1 \<rparr>) else Missing)
    \<and> cs_events s4 = cs_events s @ (if us_boot_attempts u < 3 then [] else rollback_events E (us_target_version u))"
  proof (cases "us_boot_attempts u < 3")
    case True
    then have "s4 = snd (state_save E (u \<lparr> us_boot_attempts := us_boot_attempts u + 1 \<rparr>) (tick t))"
      using assms(3,4) t(2)
      by (simp add: s4_def record_boot_attempt_def state_load_ok [OF assms(1)]
          CRASH_LOOP_MAX_BOOT_ATTEMPTS_def)
    then show ?thesis using True t(3) assms(1)
      by (simp add: state_save_def write_atomically_def files_ok_def)
  next
    case False
    obtain r f where f: "handle_failure E u (tick t) = (r, f)" by (cases "handle_failure E u (tick t)")
    note failed = handle_failure_ok [OF assms(1), of u "tick t", unfolded f fst_conv snd_conv]
    have "s4 = launch_reserve_rollback E (us_target_version u) f"
      using False assms(3,4) t(2) failed(1) f
      by (simp add: s4_def record_boot_attempt_def state_load_ok [OF assms(1)]
          CRASH_LOOP_MAX_BOOT_ATTEMPTS_def)
    then show ?thesis using False failed(2,3) t(3)
      by (auto simp: launch_reserve_rollback_def rollback_events_def record_client_def)
  qed
  moreover have "boot E rm s = snd (handle_pending_update E s4)"
    by (simp add: boot_def t(1) s4_def)
  ultimately show "cs_state_file (boot E rm s) =
      (if us_boot_attempts u < 3 then Content (u \<lparr> us_boot_attempts := us_boot_attempts u + 1 \<rparr>) else Missing)"
    "cs_events (boot E rm s) =
      cs_events s @ (if us_boot_attempts u < 3 then [] else rollback_events E (us_target_version u))"
    using assms(3,4)
    by (auto simp: handle_pending_update_def state_load_ok [OF assms(1)] split: if_splits)
qed

text \<open>A client that keeps starting a version other than the one the launched updater was to install
  counts its first three starts in the state file; the fourth gives the update up, removes the state
  file and launches the roll-back to the reserve once, where the platform has one; no later start
  does anything more.\<close>

theorem crash_loop_guard:
  assumes "files_ok E" and "cs_state_file s = Content u" and "us_phase u \<in> {UpdaterLaunched, Verifying}"
    and "us_target_version u \<noteq> ce_running E" and "us_boot_attempts u = 0"
  shows "cs_state_file (boots E rm n s) =
      (if n \<le> 3 then Content (u \<lparr> us_boot_attempts := n \<rparr>) else Missing)
    \<and> cs_events (boots E rm n s) =
      cs_events s @ (if n \<le> 3 then [] else rollback_events E (us_target_version u))"
proof (induction n)
  case 0
  then show ?case using assms(2,5) by simp
next
  case (Suc n)
  show ?case
  proof (cases "n \<le> 3")
    case True
    then have f: "cs_state_file (boots E rm n s) = Content (u \<lparr> us_boot_attempts := n \<rparr>)"
      using Suc by simp
    show ?thesis
      using boot_counts [OF assms(1) f, of rm] assms(3,4) Suc True by auto
  next
    case False
    then show ?thesis using boot_without_update [OF assms(1), of "boots E rm n s" rm] Suc by simp
  qed
qed


section \<open>A damaged info file\<close>

text \<open>Nothing repairs a client info file that does not parse.\<close>

lemma corrupt_get: "cs_info_file s = Corrupt \<Longrightarrow> \<exists>e. info_get E s = (Err (InfoFailed e), tick s)"
  by (simp add: info_get_def read_file_def)

lemma launches_frames [simp]:
  "launches (tick s) = launches s" "launches (snd (state_clear E s)) = launches s"
  "launches (prune_transcripts E n s) = launches s" "launches (cleanup_all E s) = launches s"
  "launches (snd (promote E v s)) = launches s" "launches (snd (update_version E v s)) = launches s"
  by (simp_all add: launches_def info_keeps)

lemma corrupt_and_do:
  assumes "cs_info_file s = Corrupt"
  shows "cs_info_file (snd (and_do (info_get E s) f)) = Corrupt"
    "launches (snd (and_do (info_get E s) f)) = launches s"
proof -
  obtain e where "info_get E s = (Err (InfoFailed e), tick s)" using corrupt_get [OF assms] by blast
  then show "cs_info_file (snd (and_do (info_get E s) f)) = Corrupt"
    "launches (snd (and_do (info_get E s) f)) = launches s"
    using assms by simp_all
qed

lemma corrupt_writers:
  assumes "cs_info_file s = Corrupt"
  shows "cs_info_file (snd (update_version E v s)) = Corrupt"
    "cs_info_file (snd (reconcile_version E v s)) = Corrupt"
    "cs_info_file (snd (set_update_status E st tg s)) = Corrupt"
  by (simp_all add: update_version_def reconcile_version_def set_update_status_def
      corrupt_and_do [OF assms])

lemma seed_info: "cs_info_file (snd (seed_if_missing E s)) = cs_info_file s"
  by (auto simp: seed_if_missing_def anchor_load_def copy_running_to_reserve_def map_err_def
      split: sum.split option.split)

lemma corrupt_failure:
  "cs_info_file s = Corrupt \<Longrightarrow> cs_info_file (snd (handle_failure E u s)) = Corrupt"
  by (simp add: handle_failure_def Let_def corrupt_writers)

lemma corrupt_success:
  "cs_info_file s = Corrupt \<Longrightarrow> cs_info_file (snd (handle_success E u s)) = Corrupt"
  by (simp add: handle_success_def Let_def corrupt_writers)

lemma corrupt_boot: "cs_info_file s = Corrupt \<Longrightarrow> cs_info_file (boot E rm s) = Corrupt"
proof -
  assume corrupt: "cs_info_file s = Corrupt"
  define t where "t = snd (seed_if_missing E (snd (write_boot_marker E
    (snd (reconcile_version E (ce_running E) (fresh_process rm s))))))"
  have t: "cs_info_file t = Corrupt"
    using corrupt_writers(2) [of "fresh_process rm s"] corrupt by (simp add: t_def seed_info fresh_process_def)
  have rollback: "cs_info_file (launch_reserve_rollback E v x) = cs_info_file x" for v x
    by (simp add: launch_reserve_rollback_def record_client_def)
  have attempt: "cs_info_file (snd (record_boot_attempt E t)) = Corrupt"
    unfolding record_boot_attempt_def
    by (rule and_do_keeps)
      (auto simp: t corrupt_failure rollback intro: and_do_keeps [where Q = "\<lambda>s. cs_info_file s = Corrupt"]
        split: option.split)
  have "cs_info_file (snd (handle_pending_update E (snd (record_boot_attempt E t)))) = Corrupt"
    unfolding handle_pending_update_def
    by (rule and_do_keeps) (auto simp: attempt corrupt_failure corrupt_success split: option.split)
  then show "cs_info_file (boot E rm s) = Corrupt"
    by (simp add: boot_def early_boot_def Let_def t_def)
qed

lemma corrupt_process:
  assumes "cs_info_file s = Corrupt"
  shows "cs_info_file (snd (process_update E msg s)) = Corrupt
    \<and> launches (snd (process_update E msg s)) = launches s"
proof -
  define P where "P t \<longleftrightarrow> cs_info_file t = Corrupt \<and> launches t = launches s" for t
  have start: "P (snd (start_update E msg v t))" if "P t" for v t
    using that by (simp add: start_update_def P_def corrupt_and_do)
  have rm: "P (on_client_rm f t) = P t" "P (tick t) = P t" "P (t \<lparr> cs_in_progress := b \<rparr>) = P t" for f t b
    by (simp_all add: P_def on_client_rm_def launches_def)
  have inner: "P (snd (process_update_internal E msg t))" if "P t" for t
  proof -
    obtain a where "anchor_load E t = (a, tick t)"
      using load_frame(2) [of E t] by (cases "anchor_load E t") simp
    then show ?thesis using that start
      by (simp add: process_update_internal_def Let_def rm ALLOW_DOWNGRADE_def split: option.split)
  qed
  have "P s" using assms by (simp add: P_def)
  then have "P (snd (process_update E msg s))"
    using inner [of "(mark_pending E s) \<lparr> cs_in_progress := True \<rparr>"]
    by (auto simp: process_update_def Let_def mark_pending_def rm split: prod.split)
  then show ?thesis by (simp add: P_def)
qed

lemma boot_launches: "launches (boot E rm s) = launches s"
proof -
  obtain t where t: "early_boot E (fresh_process rm s) = snd (record_boot_attempt E t)"
    "cs_events t = cs_events s"
    using early_boot_start [of E "fresh_process rm s"] by (auto simp: fresh_process_def)
  have attempt: "launches (snd (record_boot_attempt E t)) = launches s"
    using record_boot_cases(2) [of E t] t(2) by (cases "record_boot_attempt E t") (simp add: launches_def)
  have success: "launches (snd (handle_success E u x)) = launches x" for u x
    by (simp add: handle_success_def Let_def)
  have failure: "launches (snd (handle_failure E u x)) = launches x" for u x
    by (simp add: handle_failure_def Let_def)
  have "launches (snd (handle_pending_update E (snd (record_boot_attempt E t)))) = launches s"
    unfolding handle_pending_update_def
    by (rule and_do_keeps) (simp_all add: attempt success failure split: option.split)
  then show ?thesis by (simp add: boot_def t(1))
qed

text \<open>Any message and any start, in any environment.\<close>

inductive client_step :: "'v semver \<Rightarrow> client_state \<Rightarrow> client_state \<Rightarrow> bool" for sv where
  message_step: "ce_semver E = sv \<Longrightarrow> client_step sv s (snd (process_update E msg s))"
| start_step: "ce_semver E = sv \<Longrightarrow> client_step sv s (boot E rm s)"

lemma client_step_corrupt:
  assumes "client_step sv s s'" and "cs_info_file s = Corrupt"
  shows "cs_info_file s' = Corrupt \<and> launches s' = launches s"
  using assms by cases (auto simp: corrupt_process corrupt_boot boot_launches)

text \<open>The client info is written in place: a write that fails leaves a file that does not parse.
  From then on no start repairs it and no update message ever launches an update again, whatever
  the environment does.\<close>

theorem damaged_info_blocks_updates:
  assumes "write_fails (ce_io F (cs_files s))"
    and "(client_step sv)\<^sup>*\<^sup>* (snd (info_save F i s)) s'"
  shows "cs_info_file s' = Corrupt \<and> launches s' = launches s"
  using assms(2)
proof (induction rule: rtranclp_induct)
  case base
  then show ?case using assms(1) by (simp add: info_save_def write_in_place_def launches_def)
next
  case (step t u)
  then show ?case using client_step_corrupt by metis
qed


section \<open>A sample client\<close>

text \<open>Versions written in unary.\<close>

definition sample_semver :: "nat semver" where
  "sample_semver = \<lparr> sv_parse = (\<lambda>s. Some (length s)), sv_show = (\<lambda>n. replicate n (CHR ''1'')),
     sv_less = (<) \<rparr>"

definition sample_client :: "nat client_env" where
  "sample_client = \<lparr> ce_semver = sample_semver, ce_trim = id, ce_running = ''1'',
     ce_download = sample_download, ce_io = (\<lambda>_. io_ok), ce_now = (\<lambda>_. 0), ce_clock = (\<lambda>_. []),
     ce_archive_ok = True, ce_current_exe_ok = True, ce_launch_ok = True, ce_others = id,
     ce_copy_ok = True, ce_machine_id_ok = True, ce_publish_ok = (\<lambda>_. True), ce_exe_name = ''client'',
     ce_remove_ok = (\<lambda>_. True) \<rparr>"

definition sample_update_state :: update_state where
  "sample_update_state = \<lparr> us_target_version = ''11'', us_phase = UpdaterLaunched,
     us_boot_attempts = 0, us_started_at = None \<rparr>"

definition sample_files :: client_state where
  "sample_files = \<lparr> cs_state_file = Missing, cs_info_file = Missing, cs_anchor_file = Content ''1'',
     cs_reserve = None, cs_boot_marker = None, cs_transcripts = [], cs_exe_dir = [], cs_temp_dir = [],
     cs_rm = empty_manager Missing, cs_in_progress = False,
     cs_download = \<lparr> ds_requests = [], ds_slept = 0, ds_written = [] \<rparr>, cs_files = 0, cs_events = [] \<rparr>"

lemma sample_semver_ok: "semver_ok sample_semver id"
proof -
  have "strip_v (replicate n (CHR ''1'')) = replicate n (CHR ''1'')" for n
    by (cases n) (simp_all add: strip_v_def)
  then show ?thesis by (auto simp: semver_ok_def sample_semver_def)
qed

lemma anchor_never_lowered_witness:
  "\<exists>a. cs_anchor_file (boot sample_client (empty_manager Missing) sample_files) = Content a
     \<and> at_least sample_semver id ''1'' a"
proof (rule anchor_never_lowered [OF sample_semver_ok])
  show "at_least sample_semver id ''1'' ''1''"
    by (simp add: at_least_def sample_semver_def)
  show "cs_anchor_file sample_files = Content ''1''" "cs_state_file sample_files = Missing"
    by (simp_all add: sample_files_def)
  have "life_step sample_semver id sample_files (boot sample_client (empty_manager Missing) sample_files)"
    by (rule life_start) (simp_all add: sample_client_def reads_ok_def)
  then show "(life_step sample_semver id)\<^sup>*\<^sup>* sample_files
      (boot sample_client (empty_manager Missing) sample_files)" by blast
qed

lemma crash_loop_guard_witness:
  "cs_events (boots sample_client (empty_manager Missing) 4
     (sample_files \<lparr> cs_state_file := Content sample_update_state \<rparr>)) = [LaunchedRollback ''11'']"
proof -
  have "files_ok sample_client" by (simp add: files_ok_def sample_client_def)
  from crash_loop_guard [OF this, of "sample_files \<lparr> cs_state_file := Content sample_update_state \<rparr>"
      sample_update_state "empty_manager Missing" 4]
  show ?thesis
    by (simp add: sample_update_state_def sample_client_def sample_files_def rollback_events_def
        sample_download_def)
qed

lemma update_message_contract_witness:
  "launches (snd (process_update sample_client \<lparr> cm_version = ''1'', cm_download_configurations = [] \<rparr>
     sample_files)) = []"
proof -
  let ?msg = "\<lparr> cm_version = ''1'', cm_download_configurations = [] \<rparr>"
  obtain r s' where run: "process_update sample_client ?msg sample_files = (r, s')"
    by (cases "process_update sample_client ?msg sample_files")
  have parsed: "parse_version sample_client (ce_trim sample_client ''1'') = Some 1"
    by (simp add: parse_version_def sample_client_def sample_semver_def strip_v_def)
  have shown: "sv_show (ce_semver sample_client) 1 = ce_running sample_client"
    by (simp add: sample_client_def sample_semver_def)
  have none: "launches sample_files = []" by (simp add: launches_def sample_files_def)
  have "launches s' = []"
    using update_message_contract [where E = sample_client and s = sample_files and msg = ?msg]
      parsed shown none unfolding run by auto
  then show ?thesis by (simp add: run)
qed

lemma damaged_info_blocks_updates_witness:
  "cs_info_file (boot sample_client (empty_manager Missing)
     (snd (info_save (sample_client \<lparr> ce_io := \<lambda>_. io_bad_write \<rparr>) default_client_info sample_files))) = Corrupt"
proof -
  let ?F = "sample_client \<lparr> ce_io := \<lambda>_. io_bad_write \<rparr>"
  let ?s = "snd (info_save ?F default_client_info sample_files)"
  have "client_step sample_semver ?s (boot sample_client (empty_manager Missing) ?s)"
    by (rule start_step) (simp add: sample_client_def)
  then have "(client_step sample_semver)\<^sup>*\<^sup>* ?s (boot sample_client (empty_manager Missing) ?s)" by blast
  from damaged_info_blocks_updates [OF _ this] show ?thesis by simp
qed

end
