(* ===== verification/Listeners.thy ===== *)
theory Listeners
  imports ToolOps ClientUpdate
begin

text \<open>The JetStream listeners (listener/*.rs): how a consumer is created with retries, the
  configuration each listener asks for, the loop that feeds messages to a handler, the gate that
  parks tool messages while a client update is pending (listener/client\_update\_gate.rs), and the
  handlers of uninstall, restart and client update messages. What the server answers, what the
  messages parse to, the time of each check and what other tasks do meanwhile are the environment's.
  Two loops here may run forever; they are partial functions, whose value is None then.\<close>

definition CONSUMER_RETRY_ATTEMPTS_PER_CYCLE :: nat where "CONSUMER_RETRY_ATTEMPTS_PER_CYCLE = 5"
definition INITIAL_RETRY_DELAY_MS :: nat where "INITIAL_RETRY_DELAY_MS = 1000"
definition MAX_RETRY_DELAY_MS :: nat where "MAX_RETRY_DELAY_MS = 30000"
definition CONSUMER_CYCLE_PAUSE_MS :: nat where "CONSUMER_CYCLE_PAUSE_MS = 30000"
definition CONSUMER_ACK_WAIT_SECS :: nat where "CONSUMER_ACK_WAIT_SECS = 120"
definition CONSUMER_MAX_DELIVER :: nat where "CONSUMER_MAX_DELIVER = 10"
definition UNINSTALL_CONSUMER_MAX_DELIVER :: nat where "UNINSTALL_CONSUMER_MAX_DELIVER = 20"
definition RESTART_CONSUMER_MAX_DELIVER :: nat where "RESTART_CONSUMER_MAX_DELIVER = 20"
definition PROGRESS_ACK_INTERVAL_SECS :: nat where "PROGRESS_ACK_INTERVAL_SECS = 60"


section \<open>Consumers\<close>

datatype create_answer = Created | AlreadyInUse bool | CreateFailed

text \<open>A name already in use is fine when the existing consumer can be fetched.\<close>

fun gives_consumer :: "create_answer \<Rightarrow> bool" where
  "gives_consumer Created = True"
| "gives_consumer (AlreadyInUse fetched) = fetched"
| "gives_consumer CreateFailed = False"

text \<open>The attempts of one cycle: the milliseconds slept so far, on the right when there is a consumer.\<close>

fun cycle_attempts :: "(nat \<Rightarrow> create_answer) \<Rightarrow> nat list \<Rightarrow> nat \<Rightarrow> nat \<Rightarrow> nat + nat" where
  "cycle_attempts A [] delay_ms slept = Inl slept"
| "cycle_attempts A (attempt # rest) delay_ms slept =
     (if gives_consumer (A attempt) then Inr slept
      else if attempt < CONSUMER_RETRY_ATTEMPTS_PER_CYCLE
        then cycle_attempts A rest (min (delay_ms * 2) MAX_RETRY_DELAY_MS) (slept + delay_ms)
      else cycle_attempts A rest delay_ms slept)"

partial_function (option) create_cycles :: "(nat \<Rightarrow> nat \<Rightarrow> create_answer) \<Rightarrow> nat \<Rightarrow> nat \<Rightarrow> nat option" where
  "create_cycles A cycle slept =
    (case cycle_attempts (A cycle) [1..<CONSUMER_RETRY_ATTEMPTS_PER_CYCLE + 1] INITIAL_RETRY_DELAY_MS slept of
       Inr ms \<Rightarrow> Some ms
     | Inl ms \<Rightarrow> create_cycles A (cycle + 1) (ms + CONSUMER_CYCLE_PAUSE_MS))"

definition create_consumer :: "(nat \<Rightarrow> nat \<Rightarrow> create_answer) \<Rightarrow> nat option" where
  "create_consumer A = create_cycles A 1 0"

record push_config =
  pc_stream :: string
  pc_filter_subject :: string
  pc_deliver_subject :: string
  pc_durable_name :: string
  pc_ack_wait :: nat
  pc_only_new :: bool
  pc_max_deliver :: nat

definition client_update_consumer :: "string \<Rightarrow> push_config" where
  "client_update_consumer m = \<lparr> pc_stream = ''CLIENT_UPDATE'',
     pc_filter_subject = ''machine.all.client-update'',
     pc_deliver_subject = ''machine.'' @ m @ ''.client-update.inbox'',
     pc_durable_name = ''machine_'' @ m @ ''_client-update_consumer_v2'',
     pc_ack_wait = CONSUMER_ACK_WAIT_SECS, pc_only_new = True, pc_max_deliver = CONSUMER_MAX_DELIVER \<rparr>"

definition tool_update_consumer :: "string \<Rightarrow> push_config" where
  "tool_update_consumer m = \<lparr> pc_stream = ''TOOL_UPDATE'',
     pc_filter_subject = ''machine.all.tool.*.update'',
     pc_deliver_subject = ''machine.'' @ m @ ''.tool.update.inbox'',
     pc_durable_name = ''machine_'' @ m @ ''_tool_update_consumer'',
     pc_ack_wait = CONSUMER_ACK_WAIT_SECS, pc_only_new = True, pc_max_deliver = CONSUMER_MAX_DELIVER \<rparr>"

definition tool_installation_consumer :: "string \<Rightarrow> push_config" where
  "tool_installation_consumer m = \<lparr> pc_stream = ''TOOL_INSTALLATION'',
     pc_filter_subject = ''machine.'' @ m @ ''.tool-installation'',
     pc_deliver_subject = ''machine.'' @ m @ ''.tool-installation.inbox'',
     pc_durable_name = ''machine_'' @ m @ ''_tool-installation_consumer'',
     pc_ack_wait = CONSUMER_ACK_WAIT_SECS, pc_only_new = False, pc_max_deliver = CONSUMER_MAX_DELIVER \<rparr>"

definition tool_uninstall_consumer :: "string \<Rightarrow> push_config" where
  "tool_uninstall_consumer m = \<lparr> pc_stream = ''TOOL_INSTALLATION'',
     pc_filter_subject = ''machine.'' @ m @ ''.tool-uninstall'',
     pc_deliver_subject = ''machine.'' @ m @ ''.tool-uninstall.inbox'',
     pc_durable_name = ''machine_'' @ m @ ''_tool-uninstall_consumer'',
     pc_ack_wait = CONSUMER_ACK_WAIT_SECS, pc_only_new = False,
     pc_max_deliver = UNINSTALL_CONSUMER_MAX_DELIVER \<rparr>"

definition tool_restart_consumer :: "string \<Rightarrow> push_config" where
  "tool_restart_consumer m = \<lparr> pc_stream = ''TOOL_INSTALLATION'',
     pc_filter_subject = ''machine.'' @ m @ ''.tool-restart'',
     pc_deliver_subject = ''machine.'' @ m @ ''.tool-restart.inbox'',
     pc_durable_name = ''machine_'' @ m @ ''_tool-restart_consumer'',
     pc_ack_wait = CONSUMER_ACK_WAIT_SECS, pc_only_new = False,
     pc_max_deliver = RESTART_CONSUMER_MAX_DELIVER \<rparr>"


section \<open>The gate\<close>

record gate_env =
  ge_now :: "nat \<Rightarrow> nat"
  ge_ack_ok :: "nat \<Rightarrow> bool"
  ge_others :: "nat \<Rightarrow> op_state \<Rightarrow> op_state"

text \<open>A parked message is kept alive with a progress acknowledgement at every check; when one fails,
  the message is left to redelivery.\<close>

partial_function (option) park_loop ::
  "gate_env \<Rightarrow> (op_state \<Rightarrow> op_state) \<Rightarrow> nat \<Rightarrow> op_state \<Rightarrow> op_state option" where
  "park_loop G dispatch k s =
    (if is_client_update_pending (ge_now G k) (os_rm s)
     then if ge_ack_ok G k then park_loop G dispatch (k + 1) (ge_others G k s) else Some s
     else Some (dispatch s))"

definition park_or_dispatch ::
  "gate_env \<Rightarrow> (op_state \<Rightarrow> op_state) \<Rightarrow> op_state \<Rightarrow> op_state option" where
  "park_or_dispatch G dispatch s =
    (if \<not> is_client_update_pending (ge_now G 0) (os_rm s) then Some (dispatch s)
     else park_loop G dispatch 1 (ge_others G 0 s))"


section \<open>Handling a message\<close>

text \<open>A payload that does not parse is acknowledged so that it is not delivered again.\<close>

definition tool_uninstall_message ::
  "op_env \<Rightarrow> gate_env \<Rightarrow> (string \<Rightarrow> string option) \<Rightarrow> string \<Rightarrow> op_state \<Rightarrow> op_state option" where
  "tool_uninstall_message E G parse payload s =
    (case parse payload of
       None \<Rightarrow> Some (record_op (AckSent payload) s)
     | Some i \<Rightarrow> park_or_dispatch G (uninstall_dispatch E i) s)"

definition tool_restart_message ::
  "op_env \<Rightarrow> gate_env \<Rightarrow> (string \<Rightarrow> string option) \<Rightarrow> string \<Rightarrow> op_state \<Rightarrow> op_state option" where
  "tool_restart_message E G parse payload s =
    (case parse payload of
       None \<Rightarrow> Some (record_op (AckSent payload) s)
     | Some i \<Rightarrow> park_or_dispatch G (restart_dispatch E i) s)"

text \<open>A client update message is acknowledged when handling it succeeds; the flag says so.\<close>

definition client_update_message_step ::
  "'v client_env \<Rightarrow> (string \<Rightarrow> client_update_message option) \<Rightarrow> string \<Rightarrow> client_state \<Rightarrow>
   bool \<times> client_state" where
  "client_update_message_step E parse payload s =
    (case parse payload of
       None \<Rightarrow> (True, s)
     | Some msg \<Rightarrow>
         (case process_update E msg s of
            (Inl e, s1) \<Rightarrow> (False, s1)
          | (Inr _, s1) \<Rightarrow> (True, s1)))"

text \<open>The listening loop: a broken stream ends it with an error, and the caller starts it again after a
  pause; an ended stream is bound again; a reconnection only provisions the consumer again.\<close>

datatype stream_event = Delivered string | StreamFailed | StreamEnded | Reconnected

datatype listen_result = Listening | ListenFailed

fun listen_events ::
  "(string \<Rightarrow> 's \<Rightarrow> 's) \<Rightarrow> stream_event list \<Rightarrow> nat \<Rightarrow> 's \<Rightarrow> listen_result \<times> nat \<times> 's" where
  "listen_events handle [] consumers s = (Listening, consumers, s)"
| "listen_events handle (Delivered payload # es) consumers s =
     listen_events handle es consumers (handle payload s)"
| "listen_events handle (StreamFailed # es) consumers s = (ListenFailed, consumers, s)"
| "listen_events handle (StreamEnded # es) consumers s = listen_events handle es (consumers + 1) s"
| "listen_events handle (Reconnected # es) consumers s = listen_events handle es (consumers + 1) s"


section \<open>How long creating a consumer takes\<close>

lemma attempt_list: "[1..<CONSUMER_RETRY_ATTEMPTS_PER_CYCLE + 1] = [1, 2, 3, 4, 5]"
  by (simp add: CONSUMER_RETRY_ATTEMPTS_PER_CYCLE_def upt_rec)

text \<open>The milliseconds slept in a cycle before its attempt k: the doubling delays of the earlier ones.\<close>

definition slept_before :: "nat \<Rightarrow> nat" where
  "slept_before k = 1000 * (2 ^ (k - 1) - 1)"

lemma cycle_result:
  "cycle_attempts A [1, 2, 3, 4, 5] INITIAL_RETRY_DELAY_MS slept =
     (case find (\<lambda>k. gives_consumer (A k)) [1, 2, 3, 4, 5] of
        Some k \<Rightarrow> Inr (slept + slept_before k)
      | None \<Rightarrow> Inl (slept + 15000))"
  by (simp add: CONSUMER_RETRY_ATTEMPTS_PER_CYCLE_def INITIAL_RETRY_DELAY_MS_def MAX_RETRY_DELAY_MS_def
      slept_before_def)

definition cycle_fails :: "(nat \<Rightarrow> create_answer) \<Rightarrow> bool" where
  "cycle_fails A = (find (\<lambda>k. gives_consumer (A k)) [1, 2, 3, 4, 5] = None)"

lemma create_cycle_step:
  "create_cycles A cycle slept =
     (case find (\<lambda>k. gives_consumer (A cycle k)) [1, 2, 3, 4, 5] of
        Some k \<Rightarrow> Some (slept + slept_before k)
      | None \<Rightarrow> create_cycles A (cycle + 1) (slept + 45000))"
  unfolding create_cycles.simps [of A cycle slept] attempt_list cycle_result
  by (simp add: CONSUMER_CYCLE_PAUSE_MS_def add.commute add.left_commute split: option.split)

lemma create_after_failures:
  assumes "\<forall>i < n. cycle_fails (A (cycle + i))"
  shows "create_cycles A cycle slept = create_cycles A (cycle + n) (slept + 45000 * n)"
  using assms
proof (induction n)
  case (Suc n)
  then have "create_cycles A cycle slept = create_cycles A (cycle + n) (slept + 45000 * n)" by simp
  also have "\<dots> = create_cycles A (cycle + n + 1) (slept + 45000 * n + 45000)"
    using Suc.prems create_cycle_step [of A "cycle + n" "slept + 45000 * n"]
    by (simp add: cycle_fails_def)
  finally show ?case by (simp add: algebra_simps)
qed simp

lemma create_returns:
  "create_cycles A cycle slept = Some ms \<Longrightarrow> \<exists>n. \<not> cycle_fails (A (cycle + n))"
proof (induction rule: create_cycles.raw_induct [rotated, consumes 1])
  case (1 create A cycle slept ms)
  show ?case
  proof (cases "cycle_fails (A cycle)")
    case True
    then have "create A (cycle + 1) (slept + 15000 + CONSUMER_CYCLE_PAUSE_MS) = Some ms"
      using 1(2) unfolding attempt_list cycle_result by (simp add: cycle_fails_def)
    from 1(1) [OF this] obtain n where "\<not> cycle_fails (A (cycle + 1 + n))" by blast
    then show ?thesis by (intro exI [of _ "Suc n"]) simp
  next
    case False
    then show ?thesis by (intro exI [of _ 0]) simp
  qed
qed

text \<open>Creating a consumer never gives up: it runs forever exactly when no attempt of any cycle gives
  a consumer. When n whole cycles fail and attempt k of the next is its first to succeed, it has slept
  45 seconds for each failed cycle and then 0, 1, 3, 7 or 15 seconds.\<close>

theorem create_consumer_schedule:
  "(create_consumer A = None \<longleftrightarrow> (\<forall>cycle \<ge> 1. cycle_fails (A cycle)))
   \<and> ((\<forall>i < n. cycle_fails (A (1 + i)))
        \<and> find (\<lambda>k. gives_consumer (A (1 + n) k)) [1, 2, 3, 4, 5] = Some k
      \<longrightarrow> create_consumer A = Some (45000 * n + slept_before k))"
proof (intro conjI impI)
  have slept: "create_consumer A = Some (45000 * n + slept_before k)"
    if "\<forall>i < n. cycle_fails (A (1 + i))"
      "find (\<lambda>k. gives_consumer (A (1 + n) k)) [1, 2, 3, 4, 5] = Some k" for n k
    using create_after_failures [OF that(1), of 0] create_cycle_step [of A "1 + n" "45000 * n"] that(2)
    by (simp add: create_consumer_def)
  show "create_consumer A = None \<longleftrightarrow> (\<forall>cycle \<ge> 1. cycle_fails (A cycle))"
  proof
    assume none: "create_consumer A = None"
    show "\<forall>cycle \<ge> 1. cycle_fails (A cycle)"
    proof (rule ccontr)
      assume "\<not> (\<forall>cycle \<ge> 1. cycle_fails (A cycle))"
      then have "\<exists>m. \<not> cycle_fails (A (1 + m))" by (metis le_add_diff_inverse)
      then obtain m where m: "\<not> cycle_fails (A (1 + m))" "\<And>i. i < m \<Longrightarrow> cycle_fails (A (1 + i))"
        by (rule exists_least_iff [THEN iffD1, THEN exE]) blast
      obtain j where "find (\<lambda>k. gives_consumer (A (1 + m) k)) [1, 2, 3, 4, 5] = Some j"
        using m(1) unfolding cycle_fails_def by blast
      then have "create_consumer A = Some (45000 * m + slept_before j)"
        using slept [of m j] m(2) by blast
      then show False using none by simp
    qed
  next
    assume "\<forall>cycle \<ge> 1. cycle_fails (A cycle)"
    then show "create_consumer A = None"
      using create_returns [of A 1 0] by (cases "create_consumer A") (auto simp: create_consumer_def)
  qed
  assume first: "(\<forall>i < n. cycle_fails (A (1 + i)))
    \<and> find (\<lambda>k. gives_consumer (A (1 + n) k)) [1, 2, 3, 4, 5] = Some k"
  then show "create_consumer A = Some (45000 * n + slept_before k)" using slept by blast
qed

lemma create_consumer_schedule_witness:
  "create_consumer (\<lambda>cycle k. if cycle = 2 \<and> k = 3 then Created else CreateFailed) = Some 48000"
proof -
  let ?A = "\<lambda>(cycle::nat) (k::nat). if cycle = 2 \<and> k = 3 then Created else CreateFailed"
  have "(\<forall>i < 1. cycle_fails (?A (1 + i)))
      \<and> find (\<lambda>k. gives_consumer (?A (1 + 1) k)) [1, 2, 3, 4, 5] = Some 3"
    by (simp add: cycle_fails_def)
  then show ?thesis
    using create_consumer_schedule [of ?A 1 3] by (simp add: slept_before_def)
qed


section \<open>A parked message is dispatched\<close>

lemma pending_expires:
  "is_client_update_pending now rm \<longleftrightarrow>
     (\<exists>since. rm_pending_since rm = Some since \<and> now - since < 300)"
  by (auto simp: is_client_update_pending_def CLIENT_UPDATE_PENDING_TTL_SECS_def split: option.split)

text \<open>While a message is parked the other tasks do not announce another client update: the pending mark
  is the one there was, or cleared.\<close>

definition no_new_update :: "gate_env \<Rightarrow> bool" where
  "no_new_update G =
    (\<forall>k s. rm_pending_since (os_rm (ge_others G k s)) \<in> {rm_pending_since (os_rm s), None})"

lemma park_loop_ends:
  assumes "\<forall>k. ge_ack_ok G k" and "no_new_update G" and "\<forall>k \<ge> 1. ge_now G (Suc k) \<ge> ge_now G k + 60"
    and "1 \<le> k" and "rm_pending_since (os_rm s) \<in> {Some since, None}"
    and "ge_now G k + 60 * n \<ge> since + 300"
  shows "\<exists>t. park_loop G dispatch k s = Some (dispatch t)
    \<and> rm_pending_since (os_rm t) \<in> {Some since, None}"
  using assms(4-6)
proof (induction n arbitrary: k s)
  case 0
  then have "\<not> is_client_update_pending (ge_now G k) (os_rm s)"
    unfolding pending_expires by auto
  then show ?case using 0 park_loop.simps [of G dispatch k s] by auto
next
  case (Suc n)
  show ?case
  proof (cases "is_client_update_pending (ge_now G k) (os_rm s)")
    case False
    then show ?thesis using Suc.prems park_loop.simps [of G dispatch k s] by auto
  next
    case True
    have "rm_pending_since (os_rm (ge_others G k s)) \<in> {Some since, None}"
      using assms(2) [unfolded no_new_update_def, rule_format, of k s] Suc.prems(2) by auto
    moreover have "ge_now G (k + 1) + 60 * n \<ge> since + 300"
      using assms(3) [rule_format, of k] Suc.prems(1,3) by simp
    ultimately show ?thesis
      using Suc.IH [of "k + 1" "ge_others G k s"] True assms(1) park_loop.simps [of G dispatch k s] by simp
  qed
qed

text \<open>A tool message that arrives while a client update is pending is parked and not lost: as long as
  its progress acknowledgements get through and no further client update is announced, the parking
  loop, which checks every minute, ends, and the message is dispatched.\<close>

theorem parked_message_is_dispatched:
  assumes "\<forall>k. ge_ack_ok G k" and "no_new_update G" and "\<forall>k \<ge> 1. ge_now G (Suc k) \<ge> ge_now G k + 60"
  shows "\<exists>t. park_or_dispatch G dispatch s = Some (dispatch t)"
proof (cases "is_client_update_pending (ge_now G 0) (os_rm s)")
  case False
  then show ?thesis by (auto simp: park_or_dispatch_def)
next
  case True
  then obtain since where since: "rm_pending_since (os_rm s) = Some since"
    by (auto simp: pending_expires)
  have others: "rm_pending_since (os_rm (ge_others G 0 s)) \<in> {Some since, None}"
    using assms(2) [unfolded no_new_update_def, rule_format, of 0 s] since by simp
  have "ge_now G 1 + 60 * (since + 300) \<ge> since + 300" by simp
  from park_loop_ends [OF assms order.refl others this, of dispatch] True show ?thesis
    by (auto simp: park_or_dispatch_def)
qed

definition sample_gate :: gate_env where
  "sample_gate = \<lparr> ge_now = (\<lambda>k. 60 * k), ge_ack_ok = (\<lambda>_. True), ge_others = (\<lambda>_. id) \<rparr>"

lemma parked_message_is_dispatched_witness:
  "\<exists>t. park_or_dispatch sample_gate (uninstall_dispatch sample_op ''agent'')
     (on_rm (mark_client_update_pending 0) sample_state) = Some (uninstall_dispatch sample_op ''agent'' t)"
  by (rule parked_message_is_dispatched) (simp_all add: sample_gate_def no_new_update_def)

end
