(* ===== verification/LogStreaming.thy ===== *)
theory LogStreaming
  imports ClientUpdate ExecModels
begin

text \<open>Shipping the agent's logs: parsing and merging log lines (logging/log\_parser.rs), reading log
  files from an offset and sharing a batch between sources (logging/log\_source.rs), rotation
  (logging/log\_rotation.rs) and the streaming loop (logging/nats\_streaming.rs). A file is its bytes,
  an offset file its number; files change between reads as the environment says. The timestamp
  grammar, upper case and the validity of UTF-8 are parameters; white space is ASCII's.\<close>

section \<open>Parsing a line\<close>

record log_entry =
  lg_level :: string
  lg_ts :: string
  lg_msg :: string
  lg_count :: "nat option"

record line_env =
  li_timestamp :: "string \<Rightarrow> bool"
  li_upper :: "string \<Rightarrow> string"
  li_utf8 :: "string \<Rightarrow> bool"

fun find_sub :: "string \<Rightarrow> string \<Rightarrow> nat option" where
  "find_sub pat [] = (if pat = [] then Some 0 else None)"
| "find_sub pat (c # cs) =
     (if take (length pat) (c # cs) = pat then Some 0 else map_option Suc (find_sub pat cs))"

definition parse_tracing_format :: "line_env \<Rightarrow> string \<Rightarrow> log_entry option" where
  "parse_tracing_format E line =
    (case find_char (\<lambda>c. c = CHR ''Z'') line of
       None \<Rightarrow> None
     | Some ts_end \<Rightarrow>
         (let ts = take (ts_end + 1) line; rest = trim_start (drop (ts_end + 1) line) in
          if \<not> li_timestamp E ts then None
          else case find_char is_whitespace rest of
              None \<Rightarrow> None
            | Some level_end \<Rightarrow>
                Some \<lparr> lg_level = li_upper E (take level_end rest), lg_ts = ts,
                  lg_msg = trim_start (drop level_end rest), lg_count = None \<rparr>))"

definition strip_stdout :: "string \<Rightarrow> string" where
  "strip_stdout line = (if starts_with line ''stdout:'' then drop 7 line else line)"

definition parse_tool_format :: "line_env \<Rightarrow> string \<Rightarrow> log_entry option" where
  "parse_tool_format E line =
    (if \<not> starts_with line (''time='' @ [CHR 0x22]) then None
     else case find_char (\<lambda>c. c = CHR 0x22) (drop 6 line) of
         None \<Rightarrow> None
       | Some n \<Rightarrow>
           (case find_sub ''level='' line of
              None \<Rightarrow> None
            | Some l \<Rightarrow>
                (let from_level = drop (l + 6) line in
                 case find_char is_whitespace from_level of
                   None \<Rightarrow> None
                 | Some level_end \<Rightarrow>
                     (case find_sub (''msg='' @ [CHR 0x22]) line of
                        None \<Rightarrow> None
                      | Some m \<Rightarrow>
                          Some \<lparr> lg_level = li_upper E (take level_end from_level), lg_ts = take n (drop 6 line),
                            lg_msg = ''[tool] '' @ rev (dropWhile (\<lambda>c. c = CHR 0x22) (rev (drop (m + 5) line))),
                            lg_count = None \<rparr>))))"

definition parse_log_line :: "line_env \<Rightarrow> string \<Rightarrow> log_entry option" where
  "parse_log_line E line =
    (case parse_tracing_format E line of
       Some entry \<Rightarrow> Some entry
     | None \<Rightarrow> parse_tool_format E (trim_start (strip_stdout line)))"

section \<open>Merging repeated lines\<close>

definition is_client_log :: "log_entry \<Rightarrow> bool" where
  "is_client_log e =
    (lg_level e \<noteq> ''TOOL'' \<and> (starts_with (lg_msg e) ''openframe'' \<or> starts_with (lg_msg e) ''async_nats''))"

definition bump :: "nat \<Rightarrow> log_entry \<Rightarrow> log_entry" where
  "bump n e = (if n = 0 then e else e \<lparr> lg_count := Some (unwrap_or (lg_count e) 1 + n) \<rparr>)"

text \<open>The index of the first entry with a message is remembered.\<close>

fun dedup_loop :: "log_entry list \<Rightarrow> log_entry list \<Rightarrow> (string \<rightharpoonup> nat) \<Rightarrow> log_entry list" where
  "dedup_loop [] result tool_seen = result"
| "dedup_loop (e # es) result tool_seen =
     (if is_client_log e then dedup_loop es (result @ [e]) tool_seen
      else case tool_seen (lg_msg e) of
          Some idx \<Rightarrow>
            dedup_loop es (result[idx := (result ! idx) \<lparr> lg_count := Some (unwrap_or (lg_count (result ! idx)) 1 + 1) \<rparr>])
              tool_seen
        | None \<Rightarrow> dedup_loop es (result @ [e]) (tool_seen(lg_msg e \<mapsto> length result)))"

definition deduplicate :: "log_entry list \<Rightarrow> log_entry list" where
  "deduplicate es = dedup_loop es [] Map.empty"

section \<open>Reading a file through a buffer\<close>

definition BUFFER_CAPACITY :: nat where "BUFFER_CAPACITY = 8192"

text \<open>What is read from the file and not yet consumed, and where the file stands.\<close>

record buf_reader =
  br_buf :: string
  br_pos :: nat

definition fill_buf :: "string \<Rightarrow> buf_reader \<Rightarrow> buf_reader" where
  "fill_buf content r =
    (if br_buf r \<noteq> [] then r
     else let chunk = take BUFFER_CAPACITY (drop (br_pos r) content) in
       \<lparr> br_buf = chunk, br_pos = br_pos r + length chunk \<rparr>)"

text \<open>Bytes up to and including the next newline, or up to the end.\<close>

function read_until :: "string \<Rightarrow> string \<Rightarrow> buf_reader \<Rightarrow> string \<times> buf_reader" where
  "read_until content acc r =
    (let r1 = fill_buf content r; chunk = br_buf r1 in
     if chunk = [] then (acc, r1)
     else case find_char (\<lambda>c. c = CHR 0x0A) chunk of
         Some i \<Rightarrow> (acc @ take (i + 1) chunk, r1 \<lparr> br_buf := drop (i + 1) chunk \<rparr>)
       | None \<Rightarrow> read_until content (acc @ chunk) (r1 \<lparr> br_buf := [] \<rparr>))"
  by pat_completeness auto
termination
proof (relation "measure (\<lambda>(content, acc, r). length (br_buf r) + (length content - br_pos r))", goal_cases)
  case (2 content acc r r1 chunk)
  have "BUFFER_CAPACITY \<noteq> 0" by (simp add: BUFFER_CAPACITY_def)
  then show ?case using 2(1-3)
    by (auto simp: fill_buf_def Let_def split: if_splits)
qed simp

declare read_until.simps [simp del]

text \<open>The line without its end.\<close>

definition chomp :: "string \<Rightarrow> string" where
  "chomp raw =
    (if raw \<noteq> [] \<and> last raw = CHR 0x0A then
       (let line = butlast raw in if line \<noteq> [] \<and> last line = CHR 0x0D then butlast line else line)
     else raw)"

definition line_entry :: "line_env \<Rightarrow> string \<Rightarrow> log_entry option" where
  "line_entry E raw = (if li_utf8 E raw then parse_log_line E (chomp raw) else None)"

text \<open>The loop over the lines, with fuel for the bytes that are left.\<close>

fun read_entries ::
  "line_env \<Rightarrow> string \<Rightarrow> nat \<Rightarrow> nat \<Rightarrow> log_entry list \<Rightarrow> buf_reader \<Rightarrow> log_entry list \<times> buf_reader" where
  "read_entries E content max_count 0 logs r = (logs, r)"
| "read_entries E content max_count (Suc fuel) logs r =
     (case read_until content [] r of
        (raw, r1) \<Rightarrow>
          if raw = [] then (logs, r1)
          else case line_entry E raw of
              None \<Rightarrow> read_entries E content max_count fuel logs r1
            | Some entry \<Rightarrow>
                if max_count \<le> length logs + 1 then (logs @ [entry], r1)
                else read_entries E content max_count fuel (logs @ [entry]) r1)"

definition read_log_file :: "line_env \<Rightarrow> string \<Rightarrow> nat \<Rightarrow> nat \<Rightarrow> log_entry list \<times> nat" where
  "read_log_file E content position max_count =
    (let start = (if length content < position then 0 else position) in
     case read_entries E content max_count (Suc (length content)) [] \<lparr> br_buf = [], br_pos = start \<rparr> of
       (logs, r) \<Rightarrow> (logs, br_pos r))"


section \<open>Sources\<close>

datatype log_source_kind = OpenframeLog | MeshcentralLog

definition source_name :: "log_source_kind \<Rightarrow> string" where
  "source_name k = (case k of OpenframeLog \<Rightarrow> ''openframe'' | MeshcentralLog \<Rightarrow> ''meshcentral-agent'')"

record log_source =
  sr_name :: string
  sr_log_path :: string
  sr_offset_path :: string
  sr_committed :: nat
  sr_pending :: nat

record log_world =
  lw_files :: "string \<rightharpoonup> string"
  lw_offsets :: "string \<rightharpoonup> nat"
  lw_archive :: "string option"
  lw_clock :: nat

datatype save_outcome = OffsetSaved | OffsetKept | OffsetDamaged

record stream_env =
  se_line :: line_env
  se_grow :: "nat \<Rightarrow> string \<Rightarrow> string"
  se_save :: "nat \<Rightarrow> save_outcome"
  se_publish_ok :: "nat \<Rightarrow> bool"
  se_rotate_ok :: "nat \<Rightarrow> bool"
  se_main_log :: string
  se_main_offset :: string

text \<open>Looking at a file: whatever was appended meanwhile is there.\<close>

definition observe :: "stream_env \<Rightarrow> string \<Rightarrow> log_world \<Rightarrow> string option \<times> log_world" where
  "observe E path w =
    (let files = (\<lambda>p. map_option (\<lambda>c. c @ se_grow E (lw_clock w) p) (lw_files w p)) in
     (files path, w \<lparr> lw_files := files, lw_clock := Suc (lw_clock w) \<rparr>))"

definition load_offset :: "string \<Rightarrow> log_world \<Rightarrow> nat" where
  "load_offset path w = unwrap_or (lw_offsets w path) 0"

definition save_offset :: "stream_env \<Rightarrow> string \<Rightarrow> nat \<Rightarrow> log_world \<Rightarrow> log_world" where
  "save_offset E path offset w =
    (case se_save E (lw_clock w) of
       OffsetSaved \<Rightarrow> w \<lparr> lw_offsets := (lw_offsets w)(path \<mapsto> offset), lw_clock := Suc (lw_clock w) \<rparr>
     | OffsetKept \<Rightarrow> w \<lparr> lw_clock := Suc (lw_clock w) \<rparr>
     | OffsetDamaged \<Rightarrow> w \<lparr> lw_offsets := (lw_offsets w)(path := None), lw_clock := Suc (lw_clock w) \<rparr>)"

definition new_source :: "log_source_kind \<Rightarrow> string \<Rightarrow> string \<Rightarrow> log_world \<Rightarrow> log_source" where
  "new_source kind log_path offset_path w =
    (let offset = load_offset offset_path w in
     \<lparr> sr_name = source_name kind, sr_log_path = log_path, sr_offset_path = offset_path,
       sr_committed = offset, sr_pending = offset \<rparr>)"

definition source_read ::
  "stream_env \<Rightarrow> log_source \<Rightarrow> nat \<Rightarrow> log_world \<Rightarrow> (log_entry list \<times> log_source) option \<times> log_world" where
  "source_read E s max_count w =
    (case observe E (sr_log_path s) w of
       (None, w1) \<Rightarrow> (None, w1)
     | (Some content, w1) \<Rightarrow>
         (case read_log_file (se_line E) content (sr_committed s) max_count of
            (entries, new_offset) \<Rightarrow> (Some (entries, s \<lparr> sr_pending := new_offset \<rparr>), w1)))"

definition source_commit :: "stream_env \<Rightarrow> log_source \<Rightarrow> log_world \<Rightarrow> log_source \<times> log_world" where
  "source_commit E s w =
    (s \<lparr> sr_committed := sr_pending s \<rparr>, save_offset E (sr_offset_path s) (sr_pending s) w)"

definition source_rollback :: "log_source \<Rightarrow> log_source" where
  "source_rollback s = s \<lparr> sr_pending := sr_committed s \<rparr>"

section \<open>Sharing a batch between the sources\<close>

definition active_count :: "(log_source \<times> bool) list \<Rightarrow> nat" where
  "active_count xs = length (filter snd xs)"

text \<open>One pass over the sources; a source that gave less than it was asked for takes no further part.\<close>

fun read_round ::
  "stream_env \<Rightarrow> nat \<Rightarrow> (log_source \<times> bool) list \<Rightarrow> nat \<Rightarrow> log_entry list \<Rightarrow> log_world \<Rightarrow>
   (log_source \<times> bool) list \<times> nat \<times> log_entry list \<times> log_world" where
  "read_round E quota [] remaining logs w = ([], remaining, logs, w)"
| "read_round E quota ((s, a) # xs) remaining logs w =
     (if \<not> a \<or> remaining = 0 then
        (case read_round E quota xs remaining logs w of (ys, rest) \<Rightarrow> ((s, a) # ys, rest))
      else let to_read = min quota remaining in
        case source_read E s to_read w of
          (None, w1) \<Rightarrow>
            (case read_round E quota xs remaining logs w1 of (ys, rest) \<Rightarrow> ((s, False) # ys, rest))
        | (Some (entries, s1), w1) \<Rightarrow>
            (case read_round E quota xs (remaining - length entries) (logs @ entries) w1 of
               (ys, rest) \<Rightarrow> ((s1, to_read \<le> length entries \<and> entries \<noteq> []) # ys, rest)))"

lemma read_round_less:
  assumes "read_round E quota xs remaining logs w = (ys, remaining', logs', w')" "0 < quota"
  shows "remaining' + active_count ys \<le> remaining + active_count xs"
    "0 < remaining \<Longrightarrow> 0 < active_count xs \<Longrightarrow> remaining' + active_count ys < remaining + active_count xs"
proof -
  have "remaining' + active_count ys \<le> remaining + active_count xs \<and>
    (0 < remaining \<longrightarrow> 0 < active_count xs \<longrightarrow> remaining' + active_count ys < remaining + active_count xs)"
    using assms
  proof (induction xs arbitrary: remaining logs w ys)
    case Nil
    then show ?case by (simp add: active_count_def)
  next
    case (Cons x xs)
    obtain s a where x: "x = (s, a)" by fastforce
    show ?case
    proof (cases "\<not> a \<or> remaining = 0")
      case True
      then obtain ys1 where "read_round E quota xs remaining logs w = (ys1, remaining', logs', w')" "ys = (s, a) # ys1"
        using Cons.prems(1) x by (auto split: prod.splits)
      then show ?thesis using Cons.IH[OF _ Cons.prems(2)] x True by (fastforce simp: active_count_def)
    next
      case False
      obtain q w1 where q: "source_read E s (min quota remaining) w = (q, w1)" by fastforce
      show ?thesis
      proof (cases q)
        case None
        then obtain ys1 where "read_round E quota xs remaining logs w1 = (ys1, remaining', logs', w')"
          "ys = (s, False) # ys1"
          using Cons.prems(1) x False q by (auto split: prod.splits)
        then show ?thesis using Cons.IH[OF _ Cons.prems(2)] x False by (fastforce simp: active_count_def)
      next
        case (Some p)
        obtain es s1 where p: "p = (es, s1)" by fastforce
        obtain ys1 where "read_round E quota xs (remaining - length es) (logs @ es) w1 = (ys1, remaining', logs', w')"
          "ys = (s1, min quota remaining \<le> length es \<and> es \<noteq> []) # ys1"
          using Cons.prems(1) x False q Some p by (auto simp: Let_def split: prod.splits)
        then show ?thesis
          using Cons.IH[OF _ Cons.prems(2)] x False by (cases es) (fastforce simp: active_count_def)+
      qed
    qed
  qed
  then show "remaining' + active_count ys \<le> remaining + active_count xs"
    "0 < remaining \<Longrightarrow> 0 < active_count xs \<Longrightarrow> remaining' + active_count ys < remaining + active_count xs"
    by auto
qed

lemma read_round_decreases:
  "0 < remaining \<Longrightarrow> 0 < active_count xs \<Longrightarrow>
   (case read_round E (max (Suc 0) k) xs remaining logs w of
      (ys, remaining', logs', w') \<Rightarrow> remaining' + active_count ys) < remaining + active_count xs"
  by (cases "read_round E (max (Suc 0) k) xs remaining logs w") (auto dest: read_round_less(2))

function read_loop ::
  "stream_env \<Rightarrow> (log_source \<times> bool) list \<Rightarrow> nat \<Rightarrow> log_entry list \<Rightarrow> log_world \<Rightarrow>
   (log_source \<times> bool) list \<times> log_entry list \<times> log_world" where
  "read_loop E xs remaining logs w =
    (if remaining = 0 \<or> active_count xs = 0 then (xs, logs, w)
     else case read_round E (max 1 (remaining div active_count xs)) xs remaining logs w of
         (ys, remaining', logs', w') \<Rightarrow> read_loop E ys remaining' logs' w')"
  by pat_completeness auto
termination
  by (relation "measure (\<lambda>(E, xs, remaining, logs, w). remaining + active_count xs)")
    (auto dest: read_round_decreases)

declare read_loop.simps [simp del]

definition read_all :: "stream_env \<Rightarrow> nat \<Rightarrow> log_source list \<Rightarrow> log_world \<Rightarrow> log_entry list \<times> log_source list \<times> log_world" where
  "read_all E max_total sources w =
    (case read_loop E (map (\<lambda>s. (s, True)) sources) max_total [] w of
       (xs, logs, w1) \<Rightarrow> (deduplicate logs, map fst xs, w1))"

fun commit_all :: "stream_env \<Rightarrow> log_source list \<Rightarrow> log_world \<Rightarrow> log_source list \<times> log_world" where
  "commit_all E [] w = ([], w)"
| "commit_all E (s # ss) w =
     (case source_commit E s w of (s1, w1) \<Rightarrow>
        (case commit_all E ss w1 of (ss1, w2) \<Rightarrow> (s1 # ss1, w2)))"

definition rollback_all :: "log_source list \<Rightarrow> log_source list" where
  "rollback_all = map source_rollback"

section \<open>Rotation and the streaming loop\<close>

definition MAX_LOG_FILE_SIZE :: nat where "MAX_LOG_FILE_SIZE = 10 * 1024 * 1024"
definition MAX_LOGS_PER_BATCH :: nat where "MAX_LOGS_PER_BATCH = 50"

text \<open>The archive takes what is read; what is appended before the file is emptied goes nowhere.\<close>

definition rotate_log :: "stream_env \<Rightarrow> log_world \<Rightarrow> bool \<times> log_world" where
  "rotate_log E w =
    (case observe E (se_main_log E) (w \<lparr> lw_archive := None \<rparr>) of
       (None, w1) \<Rightarrow> (False, w1)
     | (Some contents, w1) \<Rightarrow>
         if \<not> se_rotate_ok E (lw_clock w1) then (False, w1)
         else
           (let w2 = snd (observe E (se_main_log E) (w1 \<lparr> lw_archive := Some contents \<rparr>)) in
            (True, w2 \<lparr> lw_files := (lw_files w2)(se_main_log E \<mapsto> []) \<rparr>)))"

definition rotate_if_ready :: "stream_env \<Rightarrow> nat \<Rightarrow> log_world \<Rightarrow> nat \<times> log_world" where
  "rotate_if_ready E current_offset w =
    (case observe E (se_main_log E) w of
       (None, w1) \<Rightarrow> (current_offset, w1)
     | (Some content, w1) \<Rightarrow>
         if length content \<le> current_offset \<and> MAX_LOG_FILE_SIZE \<le> length content then
           (case rotate_log E w1 of
              (True, w2) \<Rightarrow> (0, save_offset E (se_main_offset E) 0 w2)
            | (False, w2) \<Rightarrow> (current_offset, w2))
         else (current_offset, w1))"

record stream_state =
  st_sources :: "log_source list"
  st_world :: log_world
  st_file_position :: nat
  st_published :: "log_entry list list"

definition streaming_tick :: "stream_env \<Rightarrow> log_source list \<Rightarrow> stream_state \<Rightarrow> stream_state" where
  "streaming_tick E discovered s =
    (case read_all E MAX_LOGS_PER_BATCH (st_sources s @ discovered) (st_world s) of
       (logs, sources, w) \<Rightarrow>
         if logs = [] then
           (case rotate_if_ready E (st_file_position s) w of
              (p, w1) \<Rightarrow> s \<lparr> st_sources := sources, st_world := w1, st_file_position := p \<rparr>)
         else if \<not> se_publish_ok E (lw_clock w) then
           s \<lparr> st_sources := rollback_all sources, st_world := w \<rparr>
         else
           (case commit_all E sources w of
              (committed, w1) \<Rightarrow>
                (case observe E (se_main_log E) w1 of
                   (main, w2) \<Rightarrow>
                     (let s1 = s \<lparr> st_sources := committed, st_published := st_published s @ [logs] \<rparr> in
                      case main of
                        None \<Rightarrow> s1 \<lparr> st_world := w2 \<rparr>
                      | Some content \<Rightarrow>
                          s1 \<lparr> st_world := save_offset E (se_main_offset E) (length content) w2,
                               st_file_position := length content \<rparr>))))"

section \<open>Reading in one piece\<close>

text \<open>The buffered reader against splitting what is left of the file.\<close>

definition split_line :: "string \<Rightarrow> string \<times> string" where
  "split_line s =
    (case find_char (\<lambda>c. c = CHR 0x0A) s of
       Some i \<Rightarrow> (take (i + 1) s, drop (i + 1) s) | None \<Rightarrow> (s, []))"

definition unread :: "string \<Rightarrow> buf_reader \<Rightarrow> string" where
  "unread content r = br_buf r @ drop (br_pos r) content"

definition reader_ok :: "string \<Rightarrow> buf_reader \<Rightarrow> bool" where
  "reader_ok content r \<longleftrightarrow> br_pos r \<le> length content"

lemma find_char_append:
  "find_char P (xs @ ys) = (case find_char P xs of Some i \<Rightarrow> Some i
     | None \<Rightarrow> map_option ((+) (length xs)) (find_char P ys))"
  by (auto simp: find_char_def)

lemma find_char_bound: "find_char P s = Some i \<Longrightarrow> i < length s"
  by (induction s arbitrary: i) (auto simp: find_char_def split: if_splits)

lemma split_line_append:
  "find_char (\<lambda>c. c = CHR 0x0A) xs = Some i \<Longrightarrow> split_line (xs @ ys) = (take (i + 1) xs, drop (i + 1) xs @ ys)"
  "find_char (\<lambda>c. c = CHR 0x0A) xs = None \<Longrightarrow>
     split_line (xs @ ys) = (xs @ fst (split_line ys), snd (split_line ys))"
  using find_char_bound[of "\<lambda>c. c = CHR 0x0A" xs i]
  by (auto simp: split_line_def find_char_append split: option.splits)

lemma split_line_parts: "fst (split_line s) @ snd (split_line s) = s" "fst (split_line s) = [] \<longleftrightarrow> s = []"
  by (auto simp: split_line_def split: option.splits)

lemma fill_buf_unread: "unread content (fill_buf content r) = unread content r"
  "br_buf (fill_buf content r) = [] \<longleftrightarrow> unread content r = []"
  "reader_ok content r \<Longrightarrow> reader_ok content (fill_buf content r)"
  "br_pos r \<le> br_pos (fill_buf content r)"
proof -
  have "take k xs @ drop (length (take k xs)) xs = xs" for k and xs :: string
    by (cases "length xs \<le> k") simp_all
  from this[of BUFFER_CAPACITY "drop (br_pos r) content"]
  show "unread content (fill_buf content r) = unread content r"
    by (simp add: fill_buf_def unread_def Let_def add.commute del: length_take)
  show "br_buf (fill_buf content r) = [] \<longleftrightarrow> unread content r = []"
    by (auto simp: fill_buf_def unread_def Let_def BUFFER_CAPACITY_def)
  show "reader_ok content (fill_buf content r)" if "reader_ok content r"
    using that by (auto simp: fill_buf_def reader_ok_def Let_def)
  show "br_pos r \<le> br_pos (fill_buf content r)" by (simp add: fill_buf_def Let_def)
qed

lemma read_until_spec:
  assumes "reader_ok content r" "read_until content acc r = (raw, r')"
  shows "raw = acc @ fst (split_line (unread content r)) \<and> unread content r' = snd (split_line (unread content r)) \<and>
    reader_ok content r' \<and> br_pos r \<le> br_pos r'"
  using assms
proof (induction content acc r rule: read_until.induct)
  case (1 content acc r)
  define r1 where "r1 = fill_buf content r"
  have r1: "unread content r1 = unread content r" "br_buf r1 = [] \<longleftrightarrow> unread content r = []"
    "reader_ok content r1" "br_pos r \<le> br_pos r1"
    using fill_buf_unread[where content = content and r = r] 1(2) by (simp_all add: r1_def)
  note run = 1(3)[unfolded read_until.simps[of content acc r] Let_def, folded r1_def]
  show ?case
  proof (cases "br_buf r1 = []")
    case True
    then show ?thesis using run r1 by (auto simp: split_line_def find_char_def unread_def)
  next
    case False
    show ?thesis
    proof (cases "find_char (\<lambda>c. c = CHR 0x0A) (br_buf r1)")
      case None
      have rest: "read_until content (acc @ br_buf r1) (r1 \<lparr> br_buf := [] \<rparr>) = (raw, r')"
        using run False None by simp
      have "reader_ok content (r1 \<lparr> br_buf := [] \<rparr>)" using r1(3) by (simp add: reader_ok_def)
      from 1(1)[OF r1_def refl False None this rest]
      show ?thesis using r1(1,4) split_line_append(2)[OF None, of "drop (br_pos r1) content"]
        by (simp add: unread_def)
    next
      case (Some i)
      then show ?thesis
        using run False r1 split_line_append(1)[OF Some, of "drop (br_pos r1) content"]
        by (auto simp: unread_def reader_ok_def)
    qed
  qed
qed

function raw_lines :: "string \<Rightarrow> string list" where
  "raw_lines s = (if s = [] then [] else fst (split_line s) # raw_lines (snd (split_line s)))"
  by pat_completeness auto
termination
proof (relation "measure length", goal_cases)
  case (2 s)
  have "length (fst (split_line s)) + length (snd (split_line s)) = length s"
    by (metis split_line_parts(1) length_append)
  then show ?case using 2 split_line_parts(2)[of s] by (cases "fst (split_line s)") auto
qed simp

declare raw_lines.simps [simp del]

definition entries_of :: "line_env \<Rightarrow> string \<Rightarrow> log_entry list" where
  "entries_of E s = List.map_filter (line_entry E) (raw_lines s)"

lemma entries_of_step:
  "s \<noteq> [] \<Longrightarrow> entries_of E s =
     (case line_entry E (fst (split_line s)) of None \<Rightarrow> [] | Some e \<Rightarrow> [e]) @ entries_of E (snd (split_line s))"
  by (simp add: entries_of_def raw_lines.simps[of s] List.map_filter_simps split: option.split)

lemma entries_of_Nil [simp]: "entries_of E [] = []"
  by (simp add: entries_of_def raw_lines.simps List.map_filter_simps)

lemma read_entries_spec:
  assumes "read_entries E content n fuel logs r = (logs', r')"
    and "reader_ok content r" "length (unread content r) < fuel" "length logs < n"
  shows "logs' = logs @ take (n - length logs) (entries_of E (unread content r)) \<and>
    reader_ok content r' \<and> br_pos r \<le> br_pos r' \<and>
    (length logs' < n \<longrightarrow> unread content r' = [])"
  using assms
proof (induction fuel arbitrary: logs r)
  case (Suc fuel)
  obtain raw r1 where raw: "read_until content [] r = (raw, r1)" by fastforce
  let ?s = "unread content r"
  have spec: "raw = fst (split_line ?s)" "unread content r1 = snd (split_line ?s)"
    "reader_ok content r1" "br_pos r \<le> br_pos r1"
    using read_until_spec[OF Suc.prems(2) raw] by auto
  show ?case
  proof (cases "?s = []")
    case True
    then show ?thesis
      using Suc.prems raw spec split_line_parts(2)[of ?s] split_line_parts(1)[of ?s] by auto
  next
    case False
    have short: "length (unread content r1) < fuel"
    proof -
      have "length (fst (split_line ?s)) + length (snd (split_line ?s)) = length ?s"
        by (metis split_line_parts(1) length_append)
      then show ?thesis
        using False split_line_parts(2)[of ?s] spec(2) Suc.prems(3) by (cases "fst (split_line ?s)") auto
    qed
    have ne: "raw \<noteq> []" using False spec(1) split_line_parts(2)[of ?s] by simp
    show ?thesis
    proof (cases "line_entry E raw")
      case None
      then show ?thesis
        using Suc.IH[OF _ spec(3) short Suc.prems(4)] Suc.prems(1) raw ne entries_of_step[OF False, of E] spec
        by fastforce
    next
      case (Some e)
      show ?thesis
      proof (cases "n \<le> length logs + 1")
        case True
        then have "n - length logs = 1" using Suc.prems(4) by simp
        then show ?thesis
          using True Suc.prems(1,4) raw ne Some entries_of_step[OF False, of E] spec by auto
      next
        case False
        then have "read_entries E content n fuel (logs @ [e]) r1 = (logs', r')"
          using Suc.prems(1) raw ne Some by simp
        note rest = Suc.IH[OF this spec(3) short]
        have "n - length logs = Suc (n - Suc (length logs))" using False by simp
        then show ?thesis
          using rest False entries_of_step[OF \<open>?s \<noteq> []\<close>, of E] spec Some by simp
      qed
    qed
  qed
qed simp

lemma read_log_file_lines:
  assumes "read_log_file E content position n = (logs, q)" "0 < n"
  defines "start \<equiv> if length content < position then 0 else position"
  shows "logs = take n (entries_of E (drop start content)) \<and> start \<le> q \<and> q \<le> length content \<and>
    (length logs < n \<longrightarrow> q = length content)"
proof -
  let ?r = "\<lparr> br_buf = [], br_pos = start \<rparr>"
  obtain r' where run: "read_entries E content n (Suc (length content)) [] ?r = (logs, r')" and q: "q = br_pos r'"
    using assms(1) unfolding read_log_file_def start_def[symmetric] Let_def by (auto split: prod.splits)
  have ok: "reader_ok content ?r" by (simp add: reader_ok_def start_def)
  have u: "unread content ?r = drop start content" by (simp add: unread_def)
  have "length (unread content ?r) < Suc (length content)" "length [] < n" using assms(2) by (simp_all add: u)
  from read_entries_spec[OF run ok this, unfolded u]
  show ?thesis unfolding q by (auto simp: reader_ok_def unread_def)
qed

text \<open>C22. Reading a log file through its buffer returns exactly the first entries of what lies behind the
  offset, split into lines at once, however the lines fall over the buffer's chunks; a file that
  became shorter is read from its beginning. The offset it reports is never before what was read, and
  is the end of the file whenever fewer entries than wanted were found.\<close>

theorem buffered_read_exact:
  assumes "read_log_file E content position n = (logs, q)" "0 < n"
  defines "start \<equiv> if length content < position then 0 else position"
  shows "logs = take n (entries_of E (drop start content)) \<and> start \<le> q \<and> q \<le> length content \<and>
    (length logs < n \<longrightarrow> q = length content)"
  unfolding start_def by (rule read_log_file_lines[OF assms(1,2)])

text \<open>Once the file has been read to its end the position stays there.\<close>

lemma fill_to_end:
  "reader_ok content r \<Longrightarrow> length content \<le> br_pos r + BUFFER_CAPACITY \<Longrightarrow> br_buf r = [] \<Longrightarrow>
   br_pos (fill_buf content r) = length content"
  by (auto simp: fill_buf_def Let_def reader_ok_def)

lemma read_until_to_end:
  assumes "reader_ok content r" "read_until content acc r = (raw, r')"
    and "br_pos r = length content \<or> br_buf r = [] \<and> length content \<le> br_pos r + BUFFER_CAPACITY"
  shows "br_pos r' = length content"
proof -
  have "br_pos (fill_buf content r) = length content"
    using assms(1,3) fill_to_end[OF assms(1)] by (auto simp: fill_buf_def)
  then have "length content \<le> br_pos r'"
    using assms(1,2)
  proof (induction content acc r rule: read_until.induct)
    case (1 content acc r)
    define r1 where "r1 = fill_buf content r"
    have r1: "br_pos r1 = length content" "reader_ok content r1"
      using 1(2,3) fill_buf_unread(3) by (simp_all add: r1_def)
    note run = 1(4)[unfolded read_until.simps[of content acc r] Let_def, folded r1_def]
    show ?case
    proof (cases "br_buf r1 \<noteq> [] \<and> find_char (\<lambda>c. c = CHR 0x0A) (br_buf r1) = None")
      case True
      then have rest: "read_until content (acc @ br_buf r1) (r1 \<lparr> br_buf := [] \<rparr>) = (raw, r')"
        using run by simp
      have ok: "reader_ok content (r1 \<lparr> br_buf := [] \<rparr>)" using r1(2) by (simp add: reader_ok_def)
      have "br_pos (fill_buf content (r1 \<lparr> br_buf := [] \<rparr>)) = length content"
        using r1(1) by (simp add: fill_buf_def)
      then show ?thesis using 1(1)[OF r1_def refl _ _ _ ok rest] True by simp
    next
      case False
      then show ?thesis using run r1(1) by (auto split: if_splits option.splits)
    qed
  qed
  moreover have "reader_ok content r'" using read_until_spec[OF assms(1,2)] by simp
  ultimately show ?thesis by (simp add: reader_ok_def)
qed

lemma read_entries_to_end:
  assumes "read_entries E content n (Suc fuel) logs r = (logs', r')" "reader_ok content r"
    and "br_pos r = length content \<or> br_buf r = [] \<and> length content \<le> br_pos r + BUFFER_CAPACITY"
  shows "br_pos r' = length content"
  using assms
proof (induction fuel arbitrary: logs r)
  case 0
  obtain raw r1 where raw: "read_until content [] r = (raw, r1)" by fastforce
  show ?case
    using 0(1) raw read_until_to_end[OF 0(2) raw 0(3)] by (auto split: if_splits option.splits)
next
  case (Suc fuel)
  obtain raw r1 where raw: "read_until content [] r = (raw, r1)" by fastforce
  have r1: "br_pos r1 = length content" "reader_ok content r1"
    using read_until_to_end[OF Suc.prems(2) raw Suc.prems(3)] read_until_spec[OF Suc.prems(2) raw] by auto
  have step: "br_pos r' = length content" if "read_entries E content n (Suc fuel) logs1 r1 = (logs', r')" for logs1
    using Suc.IH[OF that r1(2)] r1(1) by blast
  show ?case
    using Suc.prems(1) raw r1(1) step
    by (subst (asm) read_entries.simps(2)) (auto split: if_splits option.splits)
qed

text \<open>The offset after a full batch is that of the buffer, not of the last line taken: when at most
  8 KiB lie behind the offset, every entry after the first n is skipped for good. The batch holds the
  first n, the reported offset is the end of the file, and reading on from there gives nothing.\<close>

theorem read_ahead_is_lost:
  assumes "read_log_file E content position n = (logs, q)" "0 < n"
    and "position \<le> length content" "length content \<le> position + BUFFER_CAPACITY"
  shows "logs = take n (entries_of E (drop position content)) \<and> q = length content \<and>
    read_log_file E content q n = ([], q)"
proof -
  have at_end: "snd (read_log_file E content p n) = length content"
    if "p \<le> length content" "length content \<le> p + BUFFER_CAPACITY" for p
  proof -
    obtain ls r' where run: "read_entries E content n (Suc (length content)) [] \<lparr> br_buf = [], br_pos = p \<rparr> = (ls, r')"
      by fastforce
    have "br_pos r' = length content"
      using read_entries_to_end[OF run] that by (simp add: reader_ok_def)
    then show ?thesis using run that by (simp add: read_log_file_def del: read_entries.simps)
  qed
  have q: "q = length content" using at_end[OF assms(3,4)] assms(1) by simp
  have "logs = take n (entries_of E (drop position content))"
    using read_log_file_lines[OF assms(1,2)] assms(3) by simp
  moreover have "read_log_file E content q n = ([], q)"
    using read_log_file_lines[OF prod.collapse[symmetric], of n E content q] at_end[of q] assms(2) q
    by (simp add: prod_eq_iff)
  ultimately show ?thesis using q by blast
qed

section \<open>Merging against counting\<close>

text \<open>What merging should give: client entries as they are, of the others the first with each message,
  carrying how many more there were.\<close>

definition same_tool :: "string \<Rightarrow> log_entry \<Rightarrow> bool" where
  "same_tool msg e \<longleftrightarrow> \<not> is_client_log e \<and> lg_msg e = msg"

definition repeats :: "string \<Rightarrow> log_entry list \<Rightarrow> nat" where
  "repeats msg es = length (filter (same_tool msg) es)"

function merged :: "log_entry list \<Rightarrow> log_entry list" where
  "merged [] = []"
| "merged (e # es) =
     (if is_client_log e then e # merged es
      else bump (repeats (lg_msg e) es) e # merged (filter (\<lambda>x. \<not> same_tool (lg_msg e) x) es))"
  by pat_completeness auto
termination
  by (relation "measure length") (auto simp: less_Suc_eq_le)

definition weight :: "log_entry \<Rightarrow> nat" where "weight e = unwrap_or (lg_count e) 1"

lemma bump_props [simp]:
  "is_client_log (bump n e) = is_client_log e" "lg_msg (bump n e) = lg_msg e" "bump 0 e = e"
  "weight (bump n e) = weight e + n" "bump n (bump m e) = bump (m + n) e"
  by (auto simp: bump_def is_client_log_def weight_def unwrap_or_def split: option.split)

definition with_repeats :: "log_entry list \<Rightarrow> log_entry \<Rightarrow> log_entry" where
  "with_repeats es e = (if is_client_log e then e else bump (repeats (lg_msg e) es) e)"

definition unseen :: "(string \<rightharpoonup> nat) \<Rightarrow> log_entry \<Rightarrow> bool" where
  "unseen seen e \<longleftrightarrow> is_client_log e \<or> seen (lg_msg e) = None"

text \<open>The table knows exactly the messages of the tool entries of the result, each at its place.\<close>

definition seen_ok :: "(string \<rightharpoonup> nat) \<Rightarrow> log_entry list \<Rightarrow> bool" where
  "seen_ok seen result \<longleftrightarrow>
     (\<forall>m i. seen m = Some i \<longleftrightarrow> i < length result \<and> same_tool m (result ! i))"

lemma repeats_unseen: "seen m = None \<Longrightarrow> repeats m (filter (unseen seen) es) = repeats m es"
  by (induction es) (auto simp: repeats_def unseen_def same_tool_def)

lemma filter_unseen_upd:
  "filter (unseen (seen(m \<mapsto> i))) es = filter (\<lambda>x. \<not> same_tool m x) (filter (unseen seen) es)"
  by (induction es) (auto simp: unseen_def same_tool_def)

lemma seen_okD:
  "seen_ok seen result \<Longrightarrow> seen m = Some i \<longleftrightarrow> i < length result \<and> same_tool m (result ! i)"
  by (simp add: seen_ok_def)

lemma seen_ok_client: "is_client_log e \<Longrightarrow> seen_ok seen result \<Longrightarrow> seen_ok seen (result @ [e])"
  unfolding seen_ok_def by (auto simp: nth_append less_Suc_eq same_tool_def)

lemma seen_ok_tool:
  assumes "\<not> is_client_log e" "seen_ok seen result" "seen (lg_msg e) = None"
  shows "seen_ok (seen(lg_msg e \<mapsto> length result)) (result @ [e])"
proof -
  have "\<not> same_tool (lg_msg e) (result ! i)" if "i < length result" for i
    using seen_okD[OF assms(2), of "lg_msg e" i] assms(3) that by simp
  then show ?thesis
    using assms unfolding seen_ok_def by (auto simp: nth_append less_Suc_eq same_tool_def)
qed

lemma seen_ok_bump:
  "seen_ok seen result \<Longrightarrow> i < length result \<Longrightarrow> seen_ok seen (result[i := bump n (result ! i)])"
  unfolding seen_ok_def by (auto simp: nth_list_update same_tool_def)

lemma dedup_loop_merged:
  "seen_ok seen result \<Longrightarrow>
   dedup_loop es result seen = map (with_repeats es) result @ merged (filter (unseen seen) es)"
proof (induction es arbitrary: result seen)
  case Nil
  have "with_repeats [] = id" by (auto simp: with_repeats_def repeats_def fun_eq_iff)
  then show ?case by simp
next
  case (Cons e es)
  show ?case
  proof (cases "is_client_log e")
    case True
    then have "seen_ok seen (result @ [e])" using Cons.prems by (rule seen_ok_client)
    moreover have "with_repeats (e # es) = with_repeats es"
      using True by (auto simp: with_repeats_def repeats_def same_tool_def fun_eq_iff)
    ultimately show ?thesis
      using True Cons.IH[of seen "result @ [e]"] by (simp add: unseen_def with_repeats_def)
  next
    case False
    show ?thesis
    proof (cases "seen (lg_msg e)")
      case None
      then have "seen_ok (seen(lg_msg e \<mapsto> length result)) (result @ [e])"
        using Cons.prems False by (intro seen_ok_tool)
      note ih = Cons.IH[OF this, unfolded filter_unseen_upd]
      have same: "map (with_repeats (e # es)) result = map (with_repeats es) result"
      proof (rule map_cong[OF refl])
        fix x assume "x \<in> set result"
        then have "is_client_log x \<or> lg_msg x \<noteq> lg_msg e"
          using None seen_okD[OF Cons.prems, of "lg_msg e"] by (auto simp: in_set_conv_nth same_tool_def)
        then show "with_repeats (e # es) x = with_repeats es x"
          by (auto simp: with_repeats_def repeats_def same_tool_def)
      qed
      have "with_repeats es e = bump (repeats (lg_msg e) (filter (unseen seen) es)) e"
        using False None by (simp add: with_repeats_def repeats_unseen)
      then show ?thesis
        using ih False None same by (simp add: unseen_def[of seen e] del: fun_upd_apply)
    next
      case (Some idx)
      let ?e = "result ! idx" and ?r = "result[idx := (result ! idx) \<lparr> lg_count := Some (unwrap_or (lg_count (result ! idx)) 1 + 1) \<rparr>]"
      have idx: "idx < length result" "\<not> is_client_log ?e" "lg_msg ?e = lg_msg e"
        using seen_okD[OF Cons.prems, of "lg_msg e" idx] Some by (auto simp: same_tool_def)
      have r: "?r = result[idx := bump 1 ?e]" by (simp add: bump_def)
      have "seen_ok seen ?r" unfolding r by (rule seen_ok_bump[OF Cons.prems idx(1)])
      note ih = Cons.IH[OF this]
      have "map (with_repeats es) ?r = map (with_repeats (e # es)) result"
      proof (rule nth_equalityI)
        fix i assume "i < length (map (with_repeats es) ?r)"
        then have i: "i < length result" by simp
        have other: "lg_msg (result ! i) \<noteq> lg_msg e" if "i \<noteq> idx" "\<not> is_client_log (result ! i)"
        proof -
          have "seen (lg_msg (result ! i)) = Some i"
            using seen_okD[OF Cons.prems, of "lg_msg (result ! i)" i] i that(2) by (simp add: same_tool_def)
          then show ?thesis using Some that(1) by auto
        qed
        show "map (with_repeats es) ?r ! i = map (with_repeats (e # es)) result ! i"
          using i idx False other unfolding r
          by (auto simp: with_repeats_def repeats_def same_tool_def nth_list_update)
      qed simp
      then show ?thesis using ih False Some by (simp add: unseen_def)
    qed
  qed
qed



section \<open>Batches\<close>

lemma observe_files:
  "observe E path w = (q, w1) \<Longrightarrow> lw_offsets w1 = lw_offsets w \<and> lw_files w1 path = q"
  by (auto simp: observe_def Let_def)

text \<open>Files that do not change.\<close>

definition still :: "stream_env \<Rightarrow> bool" where "still E \<longleftrightarrow> (\<forall>n p. se_grow E n p = [])"

lemma observe_still: "still E \<Longrightarrow> observe E path w = (lw_files w path, w \<lparr> lw_clock := Suc (lw_clock w) \<rparr>)"
  by (simp add: observe_def still_def Let_def option.map_ident)

lemma source_read_bound:
  assumes "source_read E s n w = (Some (es, s1), w1)" "0 < n"
  shows "length es \<le> n" "sr_committed s1 = sr_committed s" "lw_offsets w1 = lw_offsets w"
    "still E \<Longrightarrow> lw_files w1 = lw_files w"
proof -
  obtain content es1 q where "observe E (sr_log_path s) w = (Some content, w1)"
    and r: "read_log_file (se_line E) content (sr_committed s) n = (es, q)" "s1 = s \<lparr> sr_pending := q \<rparr>"
    using assms(1) by (auto simp: source_read_def split: prod.splits option.splits)
  then show "length es \<le> n" "sr_committed s1 = sr_committed s" "lw_offsets w1 = lw_offsets w"
    "still E \<Longrightarrow> lw_files w1 = lw_files w"
    using read_log_file_lines[OF r(1) assms(2)] observe_files by (auto simp: observe_still)
qed

text \<open>A source as the registry keeps it, without the offset of a read that is not yet committed.\<close>

definition settled :: "log_source \<Rightarrow> log_source" where "settled s = s \<lparr> sr_pending := 0 \<rparr>"

lemma read_round_bound:
  assumes "read_round E quota xs remaining logs w = (ys, remaining', logs', w')" "0 < quota"
  shows "length logs' + remaining' = length logs + remaining \<and> map (settled \<circ> fst) ys = map (settled \<circ> fst) xs \<and>
    lw_offsets w' = lw_offsets w \<and> (still E \<longrightarrow> lw_files w' = lw_files w)"
  using assms
proof (induction xs arbitrary: remaining logs w ys)
  case (Cons x xs)
  obtain s a where x: "x = (s, a)" by fastforce
  show ?case
  proof (cases "\<not> a \<or> remaining = 0")
    case True
    then show ?thesis using Cons x by (auto split: prod.splits)
  next
    case False
    let ?n = "min quota remaining"
    have n: "0 < ?n" using False Cons.prems(2) by simp
    obtain q w1 where q: "source_read E s ?n w = (q, w1)" by fastforce
    show ?thesis
    proof (cases q)
      case None
      then have "lw_offsets w1 = lw_offsets w" "still E \<longrightarrow> lw_files w1 = lw_files w"
        using q observe_files by (auto simp: source_read_def observe_still split: prod.splits option.splits)
      then show ?thesis using Cons x False q None by (auto split: prod.splits)
    next
      case (Some p)
      obtain es s1 where p: "p = (es, s1)" by fastforce
      note b = source_read_bound[OF q[unfolded Some p] n]
      obtain ys1 where rest: "read_round E quota xs (remaining - length es) (logs @ es) w1 = (ys1, remaining', logs', w')"
        "ys = (s1, ?n \<le> length es \<and> es \<noteq> []) # ys1"
        using Cons.prems(1) x False q Some p by (auto simp: Let_def split: prod.splits)
      have "settled s1 = settled s"
        using q[unfolded Some p] by (auto simp: source_read_def settled_def split: prod.splits option.splits)
      moreover have "length (logs @ es) + (remaining - length es) = length logs + remaining"
        using b(1) by simp
      ultimately show ?thesis
        using Cons.IH[OF rest(1) Cons.prems(2)] b(3,4) x rest(2) by simp
    qed
  qed
qed simp

lemma read_loop_bound:
  assumes "read_loop E xs remaining logs w = (ys, logs', w')"
  shows "length logs' \<le> length logs + remaining \<and> map (settled \<circ> fst) ys = map (settled \<circ> fst) xs \<and>
    lw_offsets w' = lw_offsets w \<and> (still E \<longrightarrow> lw_files w' = lw_files w)"
  using assms
proof (induction E xs remaining logs w rule: read_loop.induct)
  case (1 E xs remaining logs w)
  show ?case
  proof (cases "remaining = 0 \<or> active_count xs = 0")
    case True
    then show ?thesis using 1(2) by (simp add: read_loop.simps)
  next
    case False
    obtain zs r1 l1 w1 where r: "read_round E (max 1 (remaining div active_count xs)) xs remaining logs w = (zs, r1, l1, w1)"
      by (cases "read_round E (max 1 (remaining div active_count xs)) xs remaining logs w") auto
    then have "read_loop E zs r1 l1 w1 = (ys, logs', w')"
      using 1(2) False by (subst (asm) read_loop.simps) simp
    from 1(1)[OF False r[symmetric] refl refl this] read_round_bound[OF r]
    show ?thesis by (simp add: comp_def)
  qed
qed

lemma read_all_bound:
  assumes "read_all E n sources w = (logs, sources', w')"
  shows "length logs \<le> n" "map settled sources' = map settled sources" "lw_offsets w' = lw_offsets w"
    "still E \<Longrightarrow> lw_files w' = lw_files w"
proof -
  obtain xs ls where l: "read_loop E (map (\<lambda>s. (s, True)) sources) n [] w = (xs, ls, w')"
    and r: "logs = deduplicate ls" "sources' = map fst xs"
    using assms by (auto simp: read_all_def split: prod.splits)
  have "length (dedup_loop es result seen) \<le> length result + length es" for es result seen
    by (induction es result seen rule: dedup_loop.induct) (auto split: option.splits simp del: fun_upd_apply)
  from this[of ls "[]" Map.empty] have "length logs \<le> length ls" by (simp add: r deduplicate_def)
  with read_loop_bound[OF l] show "length logs \<le> n" "map settled sources' = map settled sources"
    "lw_offsets w' = lw_offsets w" "still E \<Longrightarrow> lw_files w' = lw_files w" by (auto simp: r comp_def)
qed

section \<open>What a batch depends on\<close>

text \<open>With files that do not change, only the committed offsets matter.\<close>

definition same_view :: "(log_source \<times> bool) list \<Rightarrow> (log_source \<times> bool) list \<Rightarrow> bool" where
  "same_view xs ys \<longleftrightarrow> map (\<lambda>(s, a). (settled s, a)) xs = map (\<lambda>(s, a). (settled s, a)) ys"

lemma settled_eq: "settled s = settled t \<Longrightarrow> sr_log_path s = sr_log_path t \<and> sr_committed s = sr_committed t"
  by (cases s; cases t) (simp add: settled_def)

lemma source_read_still:
  assumes "still E" "settled s = settled t" "lw_files w = lw_files v"
  shows "rel_option (\<lambda>(es, s1) (es', t1). es = es' \<and> settled s1 = settled t1)
      (fst (source_read E s n w)) (fst (source_read E t n v)) \<and>
    lw_files (snd (source_read E s n w)) = lw_files w"
proof -
  have "settled (s \<lparr> sr_pending := q \<rparr>) = settled (t \<lparr> sr_pending := q \<rparr>)" for q
    using assms(2) by (simp add: settled_def)
  then show ?thesis
    using settled_eq[OF assms(2)] assms(1,3)
    by (auto simp: source_read_def observe_still split: option.splits prod.splits)
qed

lemma read_round_still:
  assumes "still E" "same_view xs ys" "lw_files w = lw_files v"
    and "read_round E quota xs remaining logs w = (xs', r1, l1, w1)"
    and "read_round E quota ys remaining logs v = (ys', r2, l2, w2)"
  shows "same_view xs' ys' \<and> r1 = r2 \<and> l1 = l2 \<and> lw_files w1 = lw_files w2"
  using assms(2-)
proof (induction xs arbitrary: ys remaining logs w v xs' ys')
  case Nil
  then show ?case by (simp add: same_view_def)
next
  case (Cons x xs)
  obtain s a where x: "x = (s, a)" by fastforce
  obtain t zs where ys: "ys = (t, a) # zs" and st: "settled s = settled t" and view: "same_view xs zs"
    using Cons.prems(1) x by (cases ys) (auto simp: same_view_def)
  have close: "same_view ((s1, b) # us) ((t1, b) # vs) \<longleftrightarrow> same_view us vs" if "settled s1 = settled t1" for s1 t1 b us vs
    using that by (simp add: same_view_def)
  show ?case
  proof (cases "\<not> a \<or> remaining = 0")
    case True
    obtain us vs where "read_round E quota xs remaining logs w = (us, r1, l1, w1)" "xs' = (s, a) # us"
      "read_round E quota zs remaining logs v = (vs, r2, l2, w2)" "ys' = (t, a) # vs"
      using Cons.prems(3,4) x ys True by (auto split: prod.splits)
    then show ?thesis using Cons.IH[OF view Cons.prems(2)] close[OF st] by auto
  next
    case False
    let ?n = "min quota remaining"
    obtain p u where p: "source_read E s ?n w = (p, u)" by fastforce
    obtain q z where q: "source_read E t ?n v = (q, z)" by fastforce
    have rel: "rel_option (\<lambda>(es, s1) (es', t1). es = es' \<and> settled s1 = settled t1) p q"
      "lw_files u = lw_files z"
      using source_read_still[OF assms(1) st Cons.prems(2), of ?n]
        source_read_still[OF assms(1) st[symmetric] Cons.prems(2)[symmetric], of ?n] p q Cons.prems(2) by auto
    show ?thesis
    proof (cases p)
      case None
      then have "q = None" using rel(1) by simp
      then obtain us vs where "read_round E quota xs remaining logs u = (us, r1, l1, w1)" "xs' = (s, False) # us"
        "read_round E quota zs remaining logs z = (vs, r2, l2, w2)" "ys' = (t, False) # vs"
        using Cons.prems(3,4) x ys False p q None by (auto simp: Let_def split: prod.splits)
      then show ?thesis using Cons.IH[OF view rel(2)] close[OF st] by auto
    next
      case (Some ps)
      obtain es s1 where ps: "ps = (es, s1)" by fastforce
      obtain t1 where qs: "q = Some (es, t1)" and s1: "settled s1 = settled t1"
        using rel(1) Some ps by (auto simp: option_rel_Some1)
      obtain us vs where "read_round E quota xs (remaining - length es) (logs @ es) u = (us, r1, l1, w1)"
        "xs' = (s1, ?n \<le> length es \<and> es \<noteq> []) # us"
        "read_round E quota zs (remaining - length es) (logs @ es) z = (vs, r2, l2, w2)"
        "ys' = (t1, ?n \<le> length es \<and> es \<noteq> []) # vs"
        using Cons.prems(3,4) x ys False p q Some ps qs by (auto simp: Let_def split: prod.splits)
      then show ?thesis using Cons.IH[OF view rel(2)] close[OF s1] by auto
    qed
  qed
qed

lemma same_view_active: "same_view xs ys \<Longrightarrow> active_count xs = active_count ys"
proof (induction xs arbitrary: ys)
  case (Cons x xs)
  then show ?case by (cases ys) (auto simp: same_view_def active_count_def split: prod.splits)
qed (simp add: same_view_def)

lemma read_loop_still:
  assumes "still E" "same_view xs ys" "lw_files w = lw_files v"
    and "read_loop E xs remaining logs w = (xs', l1, w1)" "read_loop E ys remaining logs v = (ys', l2, w2)"
  shows "l1 = l2"
  using assms
proof (induction E xs remaining logs w arbitrary: ys v rule: read_loop.induct)
  case (1 E xs remaining logs w)
  note active = same_view_active[OF 1(3)]
  show ?case
  proof (cases "remaining = 0 \<or> active_count xs = 0")
    case True
    then show ?thesis using 1(5,6) active by (simp add: read_loop.simps)
  next
    case False
    let ?q = "max 1 (remaining div active_count xs)"
    obtain zs r ls u where r: "read_round E ?q xs remaining logs w = (zs, r, ls, u)"
      by (cases "read_round E ?q xs remaining logs w") auto
    obtain zs' r' ls' u' where r': "read_round E ?q ys remaining logs v = (zs', r', ls', u')"
      by (cases "read_round E ?q ys remaining logs v") auto
    have same: "same_view zs zs'" "r = r'" "ls = ls'" "lw_files u = lw_files u'"
      using read_round_still[OF 1(2-4) r r'] by auto
    have "read_loop E zs r ls u = (xs', l1, w1)"
      using 1(5) False r by (subst (asm) read_loop.simps) simp
    moreover have "read_loop E zs' r ls u' = (ys', l2, w2)"
      using 1(6) False r' active same by (subst (asm) read_loop.simps) simp
    ultimately show ?thesis
      using 1(1)[OF False r[symmetric] refl refl 1(2) same(1,4)] by blast
  qed
qed

lemma read_all_still:
  assumes "still E" "map settled ss = map settled ts" "lw_files w = lw_files v"
  shows "fst (read_all E n ss w) = fst (read_all E n ts v)"
proof -
  let ?on = "map (\<lambda>s. (s, True))"
  have view: "same_view (?on ss) (?on ts)"
    using assms(2) by (auto simp: same_view_def comp_def dest: arg_cong[where f = "map (\<lambda>s. (s, True))"])
  obtain xs l1 w1 where one: "read_loop E (?on ss) n [] w = (xs, l1, w1)" by (metis prod_cases3)
  obtain ys l2 w2 where two: "read_loop E (?on ts) n [] v = (ys, l2, w2)" by (metis prod_cases3)
  show ?thesis using read_loop_still[OF assms(1) view assms(3) one two] one two by (simp add: read_all_def)
qed

text \<open>A batch that cannot be published is not lost: nothing is recorded as sent, every source is back
  at its committed offset, no offset file changes, and when the files stay as they are the next
  attempt reads the very same batch. A batch never holds more than fifty entries.\<close>

theorem failed_publish_is_retried:
  assumes "read_all E MAX_LOGS_PER_BATCH (st_sources s @ discovered) (st_world s) = (logs, sources, w)"
    and "logs \<noteq> []" "\<not> se_publish_ok E (lw_clock w)"
  defines "s' \<equiv> streaming_tick E discovered s"
  shows "length logs \<le> 50 \<and> st_published s' = st_published s \<and>
    lw_offsets (st_world s') = lw_offsets (st_world s) \<and>
    map settled (st_sources s') = map settled (st_sources s @ discovered) \<and>
    (\<forall>x \<in> set (st_sources s'). sr_pending x = sr_committed x) \<and>
    (still E \<longrightarrow> fst (read_all E MAX_LOGS_PER_BATCH (st_sources s') (st_world s')) = logs)"
proof -
  note b = read_all_bound[OF assms(1)]
  have s': "s' = s \<lparr> st_sources := rollback_all sources, st_world := w \<rparr>"
    using assms(1-3) by (simp add: s'_def streaming_tick_def)
  have settled: "map settled (rollback_all sources) = map settled (st_sources s @ discovered)"
  proof -
    have "settled (source_rollback x) = settled x" for x by (simp add: source_rollback_def settled_def)
    then show ?thesis using b(2) by (simp add: rollback_all_def comp_def)
  qed
  have "fst (read_all E MAX_LOGS_PER_BATCH (rollback_all sources) w) = logs"
    if "still E"
    using read_all_still[OF that settled b(4)[OF that]] assms(1) by simp
  then show ?thesis
    using b settled by (auto simp: s' MAX_LOGS_PER_BATCH_def rollback_all_def source_rollback_def)
qed

lemma commit_all_offsets:
  "lw_files (snd (commit_all E ss w)) = lw_files w"
proof (induction ss arbitrary: w)
  case (Cons s ss)
  obtain s1 w1 where c: "source_commit E s w = (s1, w1)" by fastforce
  have "lw_files w1 = lw_files w"
    using c by (auto simp: source_commit_def save_offset_def split: save_outcome.splits)
  then show ?case using Cons[of w1] c by (auto split: prod.splits)
qed simp

text \<open>After every batch that was published the offset file of the agent's log takes the length of the
  whole file, however little of it was sent: an agent that restarts then starts reading at the end,
  and whatever was not yet in a batch is never shipped.\<close>

theorem restart_skips_unsent:
  assumes "read_all E MAX_LOGS_PER_BATCH (st_sources s @ discovered) (st_world s) = (logs, sources, w)"
    and "logs \<noteq> []" "se_publish_ok E (lw_clock w)"
    and "still E" "\<forall>n. se_save E n = OffsetSaved" "lw_files w (se_main_log E) = Some content"
  defines "s' \<equiv> streaming_tick E discovered s"
  defines "r \<equiv> new_source OpenframeLog (se_main_log E) (se_main_offset E) (st_world s')"
  shows "st_published s' = st_published s @ [logs] \<and> length logs \<le> 50 \<and>
    sr_committed r = length content \<and>
    (0 < n \<longrightarrow> fst (source_read E r n (st_world s')) = Some ([], r \<lparr> sr_pending := length content \<rparr>))"
proof -
  obtain committed w1 where c: "commit_all E sources w = (committed, w1)" by fastforce
  have f: "lw_files w1 (se_main_log E) = Some content"
    using commit_all_offsets[of E sources w] c assms(6) by simp
  let ?w2 = "save_offset E (se_main_offset E) (length content) (w1 \<lparr> lw_clock := Suc (lw_clock w1) \<rparr>)"
  have s': "s' = s \<lparr> st_sources := committed, st_published := st_published s @ [logs],
      st_world := ?w2, st_file_position := length content \<rparr>"
    using assms(1-3) c f by (simp add: s'_def streaming_tick_def observe_still[OF assms(4)] Let_def)
  have w2: "lw_files ?w2 (se_main_log E) = Some content" "lw_offsets ?w2 (se_main_offset E) = Some (length content)"
    using f assms(5) by (simp_all add: save_offset_def)
  have r: "sr_committed r = length content" "sr_log_path r = se_main_log E"
    using w2(2) by (simp_all add: r_def s' new_source_def load_offset_def unwrap_or_def Let_def)
  have "read_log_file (se_line E) content (length content) n = ([], length content)" if "0 < n"
    using read_log_file_lines[OF prod.collapse[symmetric] that, of "se_line E" content "length content"] that
    by (auto simp: prod_eq_iff)
  then show ?thesis
    using read_all_bound(1)[OF assms(1)] r w2(1)
    by (auto simp: s' source_read_def observe_still[OF assms(4)] MAX_LOGS_PER_BATCH_def)
qed

text \<open>When a second source has nothing to say, its share of the batch is asked of the first one again,
  from the same offset: the first half of the batch is sent twice and the other half not at all, as
  soon as the first source has twenty-five entries.\<close>

theorem shared_batch_repeats:
  assumes "still E" "lw_files w (sr_log_path a) = Some content" "lw_files w (sr_log_path b) = None"
    and "sr_committed a \<le> length content"
  defines "es \<equiv> entries_of (se_line E) (drop (sr_committed a) content)"
  assumes "25 \<le> length es"
  shows "fst (read_all E 50 [a, b] w) = deduplicate (take 25 es @ take 25 es) \<and>
    ((\<forall>e \<in> set es. is_client_log e) \<longrightarrow> fst (read_all E 50 [a, b] w) = take 25 es @ take 25 es)"
proof -
  have read: "\<exists>q. source_read E s 25 v = (Some (take 25 es, s \<lparr> sr_pending := q \<rparr>), v \<lparr> lw_clock := Suc (lw_clock v) \<rparr>)"
    if "sr_log_path s = sr_log_path a" "sr_committed s = sr_committed a" "lw_files v = lw_files w" for s v
    using read_log_file_lines[OF prod.collapse[symmetric], of 25 "se_line E" content "sr_committed a"] assms(2,4) that
    by (auto simp: source_read_def observe_still[OF assms(1)] es_def split: prod.split)
  have gone: "source_read E b n v = (None, v \<lparr> lw_clock := Suc (lw_clock v) \<rparr>)" if "lw_files v = lw_files w" for n v
    using assms(3) that by (simp add: source_read_def observe_still[OF assms(1)])
  have len: "length (take 25 es) = 25" "take 25 es \<noteq> []" using assms(6) by auto
  obtain q where q: "source_read E a 25 w = (Some (take 25 es, a \<lparr> sr_pending := q \<rparr>), w \<lparr> lw_clock := Suc (lw_clock w) \<rparr>)"
    using read[of a w] by auto
  let ?a = "a \<lparr> sr_pending := q \<rparr>"
  define w2 where "w2 = w \<lparr> lw_clock := Suc (Suc (lw_clock w)) \<rparr>"
  obtain q2 where q2: "source_read E ?a 25 w2 = (Some (take 25 es, ?a \<lparr> sr_pending := q2 \<rparr>), w2 \<lparr> lw_clock := Suc (lw_clock w2) \<rparr>)"
    using read[of ?a w2] by (auto simp: w2_def)
  have one: "read_round E 25 [(a, True), (b, True)] 50 [] w = ([(?a, True), (b, False)], 25, take 25 es, w2)"
    using q len gone[of "w \<lparr> lw_clock := Suc (lw_clock w) \<rparr>"] by (simp add: w2_def)
  have two: "read_round E 25 [(?a, True), (b, False)] 25 (take 25 es) w2 =
      ([(?a \<lparr> sr_pending := q2 \<rparr>, True), (b, False)], 0, take 25 es @ take 25 es, w2 \<lparr> lw_clock := Suc (lw_clock w2) \<rparr>)"
    using q2 len by simp
  have ac: "active_count [(a, True), (b, True)] = 2" "active_count [(?a, True), (b, False)] = 1"
    by (simp_all add: active_count_def)
  have "read_loop E [(a, True), (b, True)] 50 [] w = read_loop E [(?a, True), (b, False)] 25 (take 25 es) w2"
    using one by (subst read_loop.simps) (simp add: ac del: read_round.simps)
  also have "\<dots> = ([(?a \<lparr> sr_pending := q2 \<rparr>, True), (b, False)], take 25 es @ take 25 es,
      w2 \<lparr> lw_clock := Suc (lw_clock w2) \<rparr>)"
    using two by (subst read_loop.simps) (simp add: ac read_loop.simps[of E _ 0] del: read_round.simps)
  finally have all: "fst (read_all E 50 [a, b] w) = deduplicate (take 25 es @ take 25 es)"
    by (simp add: read_all_def)
  have "merged xs = xs" if "\<forall>e \<in> set xs. is_client_log e" for xs
    using that by (induction xs) auto
  from this[of "take 25 es @ take 25 es"] have "(\<forall>e \<in> set es. is_client_log e) \<Longrightarrow>
      deduplicate (take 25 es @ take 25 es) = take 25 es @ take 25 es"
    using dedup_loop_merged[of Map.empty "[]" "take 25 es @ take 25 es"]
    by (auto simp: deduplicate_def seen_ok_def unseen_def dest: in_set_takeD)
  then show ?thesis using all by simp
qed

section \<open>Concrete logs\<close>

definition sample_lines_env :: line_env where
  "sample_lines_env = \<lparr> li_timestamp = (\<lambda>_. True), li_upper = id, li_utf8 = (\<lambda>_. True) \<rparr>"

definition sample_stream :: "bool \<Rightarrow> stream_env" where
  "sample_stream up = \<lparr> se_line = sample_lines_env, se_grow = (\<lambda>_ _. []), se_save = (\<lambda>_. OffsetSaved),
     se_publish_ok = (\<lambda>_. up), se_rotate_ok = (\<lambda>_. True), se_main_log = ''m'', se_main_offset = ''o'' \<rparr>"

definition sample_line :: string where "sample_line = ''Z I openframe'' @ [CHR 0x0A]"

definition sample_entry :: log_entry where
  "sample_entry = \<lparr> lg_level = ''I'', lg_ts = ''Z'', lg_msg = ''openframe'', lg_count = None \<rparr>"

definition log_of :: "nat \<Rightarrow> string" where "log_of n = concat (replicate n sample_line)"

definition sample_world :: "nat \<Rightarrow> log_world" where
  "sample_world n = \<lparr> lw_files = [''m'' \<mapsto> log_of n], lw_offsets = Map.empty, lw_archive = None, lw_clock = 0 \<rparr>"

definition main_source :: log_source where
  "main_source = \<lparr> sr_name = ''openframe'', sr_log_path = ''m'', sr_offset_path = ''o'', sr_committed = 0, sr_pending = 0 \<rparr>"

lemma sample_line_entry: "line_entry sample_lines_env sample_line = Some sample_entry"
  "find_char (\<lambda>c. c = CHR 0x0A) sample_line = Some 13" "is_client_log sample_entry"
  by (code_simp, code_simp, code_simp)



lemma entries_of_log: "entries_of sample_lines_env (log_of n) = replicate n sample_entry"
proof (induction n)
  case (Suc n)
  have l: "log_of (Suc n) = sample_line @ log_of n" "length sample_line = 14" "sample_line \<noteq> []"
    by (simp_all add: log_of_def sample_line_def)
  then have "split_line (log_of (Suc n)) = (sample_line, log_of n)"
    using split_line_append(1)[OF sample_line_entry(2), of "log_of n"] by simp
  then show ?case using entries_of_step[of "log_of (Suc n)" sample_lines_env] l Suc sample_line_entry(1) by simp
qed (simp add: log_of_def)

lemma log_of_length: "length (log_of n) = 14 * n"
  by (induction n) (simp_all add: log_of_def sample_line_def)

lemma sample_stream_still: "still (sample_stream up)"
  by (simp add: still_def sample_stream_def)

lemma buffered_read_exact_witness:
  "\<exists>q. read_log_file sample_lines_env (log_of 3) 0 2 = ([sample_entry, sample_entry], q)"
proof -
  obtain logs q where r: "read_log_file sample_lines_env (log_of 3) 0 2 = (logs, q)" by fastforce
  then show ?thesis using buffered_read_exact[OF r] by (simp add: entries_of_log numeral_eq_Suc)
qed

lemma read_ahead_is_lost_witness:
  "let (logs, q) = read_log_file sample_lines_env (log_of 3) 0 1 in
   logs = [sample_entry] \<and> read_log_file sample_lines_env (log_of 3) q 1 = ([], q)"
proof -
  obtain logs q where r: "read_log_file sample_lines_env (log_of 3) 0 1 = (logs, q)" by fastforce
  have "logs = take 1 (entries_of sample_lines_env (drop 0 (log_of 3))) \<and> q = length (log_of 3) \<and>
      read_log_file sample_lines_env (log_of 3) q 1 = ([], q)"
    by (rule read_ahead_is_lost[OF r]) (simp_all add: log_of_length BUFFER_CAPACITY_def)
  then show ?thesis using r by (auto simp: entries_of_log Let_def)
qed

definition sample_state_of :: "nat \<Rightarrow> stream_state" where
  "sample_state_of n = \<lparr> st_sources = [main_source], st_world = sample_world n, st_file_position = 0, st_published = [] \<rparr>"

lemma sample_log_batch:
  "\<exists>sources w. read_all (sample_stream up) MAX_LOGS_PER_BATCH (st_sources (sample_state_of 2) @ []) (st_world (sample_state_of 2))
     = ([sample_entry, sample_entry], sources, w) \<and> lw_files w ''m'' = Some (log_of 2)"
proof -
  let ?E = "sample_stream up"
  obtain logs q where r: "read_log_file sample_lines_env (log_of 2) 0 50 = (logs, q)" by fastforce
  then have logs: "logs = [sample_entry, sample_entry]"
    using read_log_file_lines[OF r] by (simp add: entries_of_log numeral_eq_Suc)
  let ?w = "sample_world 2 \<lparr> lw_clock := 1 \<rparr>"
  have "source_read ?E main_source 50 (sample_world 2) = (Some (logs, main_source \<lparr> sr_pending := q \<rparr>), ?w)"
    using r by (simp add: source_read_def observe_still[OF sample_stream_still] sample_world_def main_source_def)
      (simp add: sample_stream_def)
  then have "read_round ?E 50 [(main_source, True)] 50 [] (sample_world 2) =
      ([(main_source \<lparr> sr_pending := q \<rparr>, False)], 48, logs, ?w)"
    by (simp add: logs)
  then have "read_loop ?E [(main_source, True)] 50 [] (sample_world 2) = ([(main_source \<lparr> sr_pending := q \<rparr>, False)], logs, ?w)"
    by (subst read_loop.simps) (simp add: active_count_def read_loop.simps del: read_round.simps)
  then show ?thesis
    using sample_line_entry(3)
    by (simp add: read_all_def sample_state_of_def MAX_LOGS_PER_BATCH_def logs deduplicate_def sample_world_def)
qed

lemma failed_publish_is_retried_witness:
  "st_published (streaming_tick (sample_stream False) [] (sample_state_of 2)) = []"
proof -
  obtain sources w where b: "read_all (sample_stream False) MAX_LOGS_PER_BATCH (st_sources (sample_state_of 2) @ [])
      (st_world (sample_state_of 2)) = ([sample_entry, sample_entry], sources, w)"
    using sample_log_batch by blast
  have "\<not> se_publish_ok (sample_stream False) (lw_clock w)" by (simp add: sample_stream_def)
  from failed_publish_is_retried[OF b _ this] show ?thesis by (simp add: sample_state_of_def)
qed

lemma restart_skips_unsent_witness:
  "let s = streaming_tick (sample_stream True) [] (sample_state_of 2) in
   length (st_published s) = 1 \<and> sr_committed (new_source OpenframeLog ''m'' ''o'' (st_world s)) = 28"
proof -
  obtain sources w where b: "read_all (sample_stream True) MAX_LOGS_PER_BATCH (st_sources (sample_state_of 2) @ [])
      (st_world (sample_state_of 2)) = ([sample_entry, sample_entry], sources, w)" "lw_files w ''m'' = Some (log_of 2)"
    using sample_log_batch by blast
  have "se_publish_ok (sample_stream True) (lw_clock w)" "\<forall>n. se_save (sample_stream True) n = OffsetSaved"
    "se_main_log (sample_stream True) = ''m''" "se_main_offset (sample_stream True) = ''o''"
    by (simp_all add: sample_stream_def)
  with restart_skips_unsent[OF b(1) _ this(1) sample_stream_still this(2), of "log_of 2"] b(2)
  show ?thesis by (simp add: sample_state_of_def log_of_length Let_def)
qed

lemma shared_batch_repeats_witness:
  "fst (read_all (sample_stream True) 50 [main_source, main_source \<lparr> sr_log_path := ''none'' \<rparr>] (sample_world 40)) =
     replicate 50 sample_entry"
proof -
  have "lw_files (sample_world 40) (sr_log_path main_source) = Some (log_of 40)"
    "lw_files (sample_world 40) (sr_log_path (main_source \<lparr> sr_log_path := ''none'' \<rparr>)) = None"
    "sr_committed main_source = 0" "se_line (sample_stream True) = sample_lines_env"
    by (simp_all add: sample_world_def main_source_def sample_stream_def)
  note facts = this
  have "sr_committed main_source \<le> length (log_of 40)"
    "25 \<le> length (entries_of (se_line (sample_stream True)) (drop (sr_committed main_source) (log_of 40)))"
    by (simp_all add: facts entries_of_log)
  from shared_batch_repeats[OF sample_stream_still facts(1,2) this, THEN conjunct2] sample_line_entry(3)
  have "fst (read_all (sample_stream True) 50 [main_source, main_source \<lparr> sr_log_path := ''none'' \<rparr>] (sample_world 40))
      = replicate 25 sample_entry @ replicate 25 sample_entry"
    by (simp add: facts entries_of_log)
  then show ?thesis by (simp flip: replicate_add)
qed

end
