(* ===== verification/Params.thy ===== *)
theory Params
  imports ToolOps GithubDownload
begin

text \<open>Resolving the placeholders of a tool's command line
  (services/tool\_command\_params\_resolver.rs, services/tool\_url\_params\_resolver.rs) and the path of
  an asset (platform/directories.rs). The configuration files are the environment's, as is the
  directory layout; the regular expression of asset placeholders is written out as the scan it
  stands for.\<close>

definition SERVER_URL_PLACEHOLDER :: string where "SERVER_URL_PLACEHOLDER = ''${client.serverUrl}''"
definition OPENFRAME_SECRET_PLACEHOLDER :: string where
  "OPENFRAME_SECRET_PLACEHOLDER = ''${client.openframeSecret}''"
definition OPENFRAME_TOKEN_PATH_PLACEHOLDER :: string where
  "OPENFRAME_TOKEN_PATH_PLACEHOLDER = ''${client.openframeTokenPath}''"
definition MACHINE_ID_PLACEHOLDER :: string where "MACHINE_ID_PLACEHOLDER = ''${client.machineId}''"
definition ASSET_PREFIX :: string where "ASSET_PREFIX = ''${client.assetPath.''"
definition OPENFRAME_SECRET :: string where
  "OPENFRAME_SECRET = ''12345678901234567890123456789012''"

lemmas placeholder_defs = SERVER_URL_PLACEHOLDER_def OPENFRAME_SECRET_PLACEHOLDER_def
  OPENFRAME_TOKEN_PATH_PLACEHOLDER_def MACHINE_ID_PLACEHOLDER_def ASSET_PREFIX_def

record param_env =
  pv_ops :: op_env
  pv_server_url :: "string option"
  pv_machine_id :: "string option"
  pv_secured_dir :: string

definition get_asset_path :: "op_env \<Rightarrow> string \<Rightarrow> string \<Rightarrow> bool \<Rightarrow> string" where
  "get_asset_path E tool_agent_id asset_filename executable =
    (let asset_name =
       (if re_platform (oe_run E) = Windows \<and> executable then asset_filename @ ''.exe''
        else asset_filename) in
     if oe_absolute E asset_name then asset_name
     else join_path E (get_tool_folder E tool_agent_id) asset_name)"

definition build_token_path :: "param_env \<Rightarrow> string" where
  "build_token_path P = join_path (pv_ops P) (pv_secured_dir P) ''shared_token.enc''"

text \<open>One pass from the left: a prefix followed by a non-empty name and a closing brace is replaced.\<close>

function process_assets_placeholders :: "op_env \<Rightarrow> string \<Rightarrow> string \<Rightarrow> string" where
  "process_assets_placeholders E tool_agent_id arg =
    (if arg = [] then []
     else if take (length ASSET_PREFIX) arg = ASSET_PREFIX then
       (let rest = drop (length ASSET_PREFIX) arg;
            asset_name = takeWhile (\<lambda>c. c \<noteq> CHR ''}'') rest;
            after = dropWhile (\<lambda>c. c \<noteq> CHR ''}'') rest in
        if asset_name \<noteq> [] \<and> after \<noteq> [] then
          get_asset_path E tool_agent_id asset_name True
            @ process_assets_placeholders E tool_agent_id (tl after)
        else hd arg # process_assets_placeholders E tool_agent_id (tl arg))
     else hd arg # process_assets_placeholders E tool_agent_id (tl arg))"
  by pat_completeness auto
termination
proof (relation "measure (\<lambda>(E, i, s). length s)")
  fix E :: op_env and i arg rest asset_name after :: string
  assume "arg \<noteq> []" "rest = drop (length ASSET_PREFIX) arg"
    "after = dropWhile (\<lambda>c. c \<noteq> CHR ''}'') rest"
  then have "length after \<le> length arg" "0 < length arg"
    using length_dropWhile_le[of "\<lambda>c. c \<noteq> CHR ''}''" rest] by auto
  then have "length (tl after) < length arg" by (cases after) auto
  then show "((E, i, tl after), E, i, arg) \<in> measure (\<lambda>(E, i, s). length s)" by simp
qed auto

declare process_assets_placeholders.simps [simp del]

definition process_arg :: "param_env \<Rightarrow> string \<Rightarrow> string \<Rightarrow> string \<Rightarrow> string \<Rightarrow> string" where
  "process_arg P server_url machine_id tool_agent_id arg =
    process_assets_placeholders (pv_ops P) tool_agent_id
     (replace_all MACHINE_ID_PLACEHOLDER machine_id
       (replace_all OPENFRAME_TOKEN_PATH_PLACEHOLDER (build_token_path P)
         (replace_all OPENFRAME_SECRET_PLACEHOLDER OPENFRAME_SECRET
           (replace_all SERVER_URL_PLACEHOLDER server_url arg))))"

definition process_params :: "param_env \<Rightarrow> string \<Rightarrow> string list \<Rightarrow> string list option" where
  "process_params P tool_agent_id command_args =
    (case pv_server_url P of
       None \<Rightarrow> None
     | Some host \<Rightarrow>
         (case pv_machine_id P of
            None \<Rightarrow> None
          | Some machine_id \<Rightarrow>
              Some (map (process_arg P (''https://'' @ host) machine_id tool_agent_id) command_args)))"

definition process_url :: "param_env \<Rightarrow> string \<Rightarrow> string option" where
  "process_url P url_path =
    map_option (\<lambda>host. replace_all SERVER_URL_PLACEHOLDER host url_path) (pv_server_url P)"


section \<open>What a command line written with placeholders resolves to\<close>

datatype piece = Literal string | ServerUrl | Secret | TokenPath | MachineId | Asset string

fun show_piece :: "piece \<Rightarrow> string" where
  "show_piece (Literal s) = s"
| "show_piece ServerUrl = SERVER_URL_PLACEHOLDER"
| "show_piece Secret = OPENFRAME_SECRET_PLACEHOLDER"
| "show_piece TokenPath = OPENFRAME_TOKEN_PATH_PLACEHOLDER"
| "show_piece MachineId = MACHINE_ID_PLACEHOLDER"
| "show_piece (Asset name) = ASSET_PREFIX @ name @ ''}''"

fun piece_ok :: "piece \<Rightarrow> bool" where
  "piece_ok (Literal s) = (CHR ''$'' \<notin> set s)"
| "piece_ok (Asset name) = (name \<noteq> [] \<and> CHR ''}'' \<notin> set name \<and> CHR ''$'' \<notin> set name)"
| "piece_ok p = True"

text \<open>A piece is inert for a placeholder when no occurrence of the placeholder starts in it.\<close>

definition inert :: "string \<Rightarrow> string \<Rightarrow> bool" where
  "inert pat s \<longleftrightarrow> CHR ''$'' \<notin> set s
     \<or> (\<exists>q. s = CHR ''$'' # q \<and> CHR ''$'' \<notin> set q \<and> (\<forall>rest. take (length pat) (s @ rest) \<noteq> pat))"

lemma replace_all_free:
  "CHR ''$'' \<notin> set s \<Longrightarrow>
   replace_all (CHR ''$'' # p) new (s @ rest) = s @ replace_all (CHR ''$'' # p) new rest"
proof (induction s)
  case (Cons c s)
  then show ?case by (subst replace_all.simps) auto
qed simp

lemma replace_all_hit:
  "pat \<noteq> [] \<Longrightarrow> replace_all pat new (pat @ rest) = new @ replace_all pat new rest"
  by (subst replace_all.simps) simp

lemma replace_all_inert:
  assumes "inert (CHR ''$'' # p) s"
  shows "replace_all (CHR ''$'' # p) new (s @ rest) = s @ replace_all (CHR ''$'' # p) new rest"
proof (cases "CHR ''$'' \<in> set s")
  case True
  then obtain q where "s = CHR ''$'' # q" "CHR ''$'' \<notin> set q"
    "take (Suc (length p)) (s @ rest) \<noteq> CHR ''$'' # p"
    using assms by (auto simp: inert_def)
  then show ?thesis
    by (subst replace_all.simps) (simp add: replace_all_free)
qed (simp add: replace_all_free)

lemma replace_all_pieces:
  assumes "\<And>x. x \<in> set xs \<Longrightarrow> f x = CHR ''$'' # p \<or> inert (CHR ''$'' # p) (f x)"
  shows "replace_all (CHR ''$'' # p) new (concat (map f xs)) =
    concat (map (\<lambda>x. if f x = CHR ''$'' # p then new else f x) xs)"
  using assms
proof (induction xs)
  case Nil
  then show ?case by (simp add: replace_all.simps)
next
  case (Cons x xs)
  then show ?case
    using replace_all_hit[of "CHR ''$'' # p" new "concat (map f xs)"]
      replace_all_inert[of p "f x" new "concat (map f xs)"] by auto
qed

lemma process_assets_free:
  "CHR ''$'' \<notin> set s \<Longrightarrow>
   process_assets_placeholders E i (s @ rest) = s @ process_assets_placeholders E i rest"
proof (induction s)
  case (Cons c s)
  then show ?case by (subst process_assets_placeholders.simps) (auto simp: ASSET_PREFIX_def)
qed simp

lemma process_assets_hit:
  assumes "name \<noteq> []" "CHR ''}'' \<notin> set name"
  shows "process_assets_placeholders E i ((ASSET_PREFIX @ name @ ''}'') @ rest) =
    get_asset_path E i name True @ process_assets_placeholders E i rest"
proof -
  have "takeWhile (\<lambda>c. c \<noteq> CHR ''}'') (name @ CHR ''}'' # rest) = name"
    "dropWhile (\<lambda>c. c \<noteq> CHR ''}'') (name @ CHR ''}'' # rest) = CHR ''}'' # rest"
    using assms(2) by (induction name) auto
  then show ?thesis
    using assms(1) by (subst process_assets_placeholders.simps) (simp add: Let_def ASSET_PREFIX_def)
qed

lemma process_assets_Nil [simp]: "process_assets_placeholders E i [] = []"
  by (simp add: process_assets_placeholders.simps)

fun piece_value :: "param_env \<Rightarrow> string \<Rightarrow> string \<Rightarrow> string \<Rightarrow> piece \<Rightarrow> string" where
  "piece_value P url machine i (Literal s) = s"
| "piece_value P url machine i ServerUrl = url"
| "piece_value P url machine i Secret = OPENFRAME_SECRET"
| "piece_value P url machine i TokenPath = build_token_path P"
| "piece_value P url machine i MachineId = machine"
| "piece_value P url machine i (Asset name) = get_asset_path (pv_ops P) i name True"

text \<open>After all placeholders but the assets are resolved.\<close>

fun no_assets :: "param_env \<Rightarrow> string \<Rightarrow> string \<Rightarrow> string \<Rightarrow> piece \<Rightarrow> string" where
  "no_assets P url machine i (Asset name) = show_piece (Asset name)"
| "no_assets P url machine i x = piece_value P url machine i x"

lemma process_assets_pieces:
  assumes "\<And>x. x \<in> set xs \<Longrightarrow> piece_ok x"
    and "CHR ''$'' \<notin> set url" "CHR ''$'' \<notin> set machine" "CHR ''$'' \<notin> set (build_token_path P)"
  shows "process_assets_placeholders (pv_ops P) i (concat (map (no_assets P url machine i) xs)) =
    concat (map (piece_value P url machine i) xs)"
  using assms(1)
proof (induction xs)
  case (Cons x xs)
  have free: "CHR ''$'' \<notin> set (piece_value P url machine i x)" if "\<And>n. x \<noteq> Asset n"
    using that assms(2-4) Cons.prems[of x] by (cases x) (auto simp: OPENFRAME_SECRET_def)
  show ?case
  proof (cases "\<exists>n. x = Asset n")
    case True
    then obtain n where n: "x = Asset n" by blast
    then show ?thesis
      using process_assets_hit[of n "pv_ops P" i "concat (map (no_assets P url machine i) xs)"]
        Cons.prems[of x] Cons.IH Cons.prems by simp
  next
    case False
    then have "no_assets P url machine i x = piece_value P url machine i x" by (cases x) auto
    then show ?thesis using process_assets_free[OF free] False Cons.IH Cons.prems by simp
  qed
qed simp

definition resolved :: "param_env \<Rightarrow> string \<Rightarrow> string \<Rightarrow> string \<Rightarrow> piece set \<Rightarrow> piece \<Rightarrow> string" where
  "resolved P url machine i S x = (if x \<in> S then piece_value P url machine i x else show_piece x)"

lemma show_piece_inert:
  assumes "piece_ok x" "k \<in> {ServerUrl, Secret, TokenPath, MachineId}" "x \<noteq> k"
  shows "inert (show_piece k) (show_piece x)"
  using assms by (cases x) (auto simp: inert_def placeholder_defs)

lemma replace_one_kind:
  assumes "\<And>x. x \<in> set xs \<Longrightarrow> piece_ok x"
    and "k \<in> {ServerUrl, Secret, TokenPath, MachineId}" "k \<notin> S"
    and "\<And>x. x \<in> set xs \<Longrightarrow> x \<in> S \<Longrightarrow> CHR ''$'' \<notin> set (piece_value P url machine i x)"
  shows "replace_all (show_piece k) (piece_value P url machine i k)
           (concat (map (resolved P url machine i S) xs)) =
         concat (map (resolved P url machine i (insert k S)) xs)"
proof -
  obtain p where p: "show_piece k = CHR ''$'' # p"
    using assms(2) by (auto simp: placeholder_defs)
  have hit: "resolved P url machine i S x = CHR ''$'' # p \<longleftrightarrow> x = k" if "x \<in> set xs" for x
    using assms(1)[OF that] assms(2,3) assms(4)[OF that] p[symmetric]
    by (cases x) (auto simp: resolved_def placeholder_defs OPENFRAME_SECRET_def)
  have quiet: "inert (CHR ''$'' # p) (resolved P url machine i S x)" if "x \<in> set xs" "x \<noteq> k" for x
    using show_piece_inert[OF assms(1)[OF that(1)] assms(2) that(2)] assms(4)[OF that(1)]
    by (auto simp: resolved_def p inert_def)
  have "replace_all (show_piece k) (piece_value P url machine i k)
           (concat (map (resolved P url machine i S) xs)) =
      concat (map (\<lambda>x. if resolved P url machine i S x = CHR ''$'' # p
                       then piece_value P url machine i k else resolved P url machine i S x) xs)"
    unfolding p using hit quiet by (intro replace_all_pieces) auto
  also have "\<dots> = concat (map (resolved P url machine i (insert k S)) xs)"
    using hit by (intro arg_cong[where f = concat] map_cong) (auto simp: resolved_def)
  finally show ?thesis .
qed

text \<open>C18. Resolving a command line gives back what its author meant: an argument written as literal text
  and placeholders, in any order and number, resolves to the text with every placeholder replaced by
  its value, provided neither the text nor the values contain a dollar sign.\<close>

theorem placeholders_resolve:
  assumes "\<And>x. x \<in> set (concat ps) \<Longrightarrow> piece_ok x"
    and "pv_server_url P = Some host" "CHR ''$'' \<notin> set host"
    and "pv_machine_id P = Some machine" "CHR ''$'' \<notin> set machine"
    and "CHR ''$'' \<notin> set (build_token_path P)"
  shows "process_params P i (map (\<lambda>xs. concat (map show_piece xs)) ps) =
    Some (map (\<lambda>xs. concat (map (piece_value P (''https://'' @ host) machine i) xs)) ps)"
proof -
  define url where "url = ''https://'' @ host"
  have u: "CHR ''$'' \<notin> set url" using assms(3) by (simp add: url_def)
  let ?v = "piece_value P url machine i"
  let ?c = "\<lambda>S xs. concat (map (resolved P url machine i S) xs)"
  have one: "process_arg P url machine i (concat (map show_piece xs)) = concat (map ?v xs)"
    if ok: "\<And>x. x \<in> set xs \<Longrightarrow> piece_ok x" for xs
  proof -
    have free: "CHR ''$'' \<notin> set (?v k)" if "k \<in> {ServerUrl, Secret, TokenPath, MachineId}" for k
      using that assms(5,6) u by (auto simp: OPENFRAME_SECRET_def)
    have s1: "replace_all SERVER_URL_PLACEHOLDER url (?c {} xs) = ?c {ServerUrl} xs"
      using replace_one_kind[OF ok, of xs ServerUrl "{}" P url machine i] by simp
    have s2: "replace_all OPENFRAME_SECRET_PLACEHOLDER OPENFRAME_SECRET (?c {ServerUrl} xs) =
        ?c {Secret, ServerUrl} xs"
      using replace_one_kind[OF ok, of xs Secret "{ServerUrl}" P url machine i] u by simp
    have s3: "replace_all OPENFRAME_TOKEN_PATH_PLACEHOLDER (build_token_path P)
        (?c {Secret, ServerUrl} xs) = ?c {TokenPath, Secret, ServerUrl} xs"
      using replace_one_kind[OF ok, of xs TokenPath "{Secret, ServerUrl}" P url machine i] free
      by auto
    have s4: "replace_all MACHINE_ID_PLACEHOLDER machine (?c {TokenPath, Secret, ServerUrl} xs) =
        ?c {MachineId, TokenPath, Secret, ServerUrl} xs"
      using replace_one_kind[OF ok, of xs MachineId "{TokenPath, Secret, ServerUrl}" P url machine i]
        free by auto
    have "resolved P url machine i {MachineId, TokenPath, Secret, ServerUrl} x =
        no_assets P url machine i x" for x
      by (cases x) (simp_all add: resolved_def)
    then have last: "process_assets_placeholders (pv_ops P) i
        (?c {MachineId, TokenPath, Secret, ServerUrl} xs) = concat (map ?v xs)"
      using process_assets_pieces[OF ok u assms(5,6)] by presburger
    have start: "concat (map show_piece xs) = ?c {} xs" by (simp add: resolved_def[abs_def])
    show ?thesis unfolding process_arg_def start s1 s2 s3 s4 last ..
  qed
  have "map (process_arg P url machine i) (map (\<lambda>xs. concat (map show_piece xs)) ps) =
      map (\<lambda>xs. concat (map ?v xs)) ps"
    using one assms(1) by auto
  then show ?thesis
    by (simp only: process_params_def assms(2,4) option.case url_def[symmetric])
qed

text \<open>An environment with plain directories.\<close>

definition sample_params :: param_env where
  "sample_params = \<lparr> pv_ops = sample_op, pv_server_url = Some ''acme.test'',
     pv_machine_id = Some ''m-1'', pv_secured_dir = ''/secure'' \<rparr>"

lemma placeholders_resolve_witness:
  "process_params sample_params ''osq''
     [concat (map show_piece [Literal ''--url='', ServerUrl, Literal ''/x'', MachineId]),
      concat (map show_piece [Asset ''osqueryd''])] =
   Some [''--url=https://acme.test/xm-1'', get_asset_path sample_op ''osq'' ''osqueryd'' True]"
proof -
  let ?ps = "[[Literal ''--url='', ServerUrl, Literal ''/x'', MachineId], [Asset ''osqueryd'']]"
  have ok: "piece_ok x" if "x \<in> set (concat ?ps)" for x using that by auto
  have token: "CHR ''$'' \<notin> set (build_token_path sample_params)"
    by (simp add: sample_params_def build_token_path_def join_path_def)
  have "process_params sample_params ''osq'' (map (\<lambda>xs. concat (map show_piece xs)) ?ps) =
    Some (map (\<lambda>xs. concat (map (piece_value sample_params (''https://'' @ ''acme.test'') ''m-1'' ''osq'') xs)) ?ps)"
    by (rule placeholders_resolve[OF ok _ _ _ _ token]) (simp_all add: sample_params_def)
  then show ?thesis by (simp add: sample_params_def)
qed

end
