(* ===== verification/ToolConnections.thy ===== *)
theory ToolConnections
  imports Params "HOL-Library.Word"
begin

text \<open>Telling the backend which agent of a tool runs here
  (services/tool\_connection\_processing\_manager.rs, services/tool\_connection\_message\_publisher.rs).
  One loop per tool resolves the agent's id by running a command of the tool, publishes it, saves
  it and sleeps an hour, or until it is woken by a reinstallation. A turn of the loop, up to its next
  sleep, is one step; the end of a loop is two more, because the wake-up handle and the mark are
  given up under different locks. What the command, the publish and the files answer in a turn is the
  environment's.\<close>

definition CONN_RETRY_DELAY_SECONDS :: nat where "CONN_RETRY_DELAY_SECONDS = 15"
definition AGENT_ID_MAX_FAST_RETRIES :: "32 word" where "AGENT_ID_MAX_FAST_RETRIES = 5"
definition AGENT_ID_DEGRADED_BACKOFF_SECONDS :: nat where "AGENT_ID_DEGRADED_BACKOFF_SECONDS = 300"
definition REPUBLISH_INTERVAL_SECONDS :: nat where "REPUBLISH_INTERVAL_SECONDS = 3600"

datatype id_command_outcome =
    IdCommandSpawnFailed
  | IdCommandTimedOut
  | IdCommandExited bool string

record conn_env =
  cn_params :: param_env
  cn_read :: io_env
  cn_list :: io_env
  cn_config :: "(io_error, string) result"
  cn_save :: io_env
  cn_command :: "string \<Rightarrow> string list \<Rightarrow> id_command_outcome"
  cn_trim :: "string \<Rightarrow> string"
  cn_publish_ok :: bool

datatype conn_phase = Resolving | DropWake | DropMark

record conn_loop =
  cl_tool :: installed_tool
  cl_wake :: nat
  cl_failures :: "32 word"
  cl_phase :: conn_phase
  cl_sleep :: nat

record conn_message =
  cm_subject :: string
  cm_agent_tool_id :: string
  cm_tool_type :: string

record conn_manager =
  cg_running :: "string set"
  cg_wake :: "string \<rightharpoonup> nat"
  cg_next_wake :: nat
  cg_permits :: "nat set"
  cg_loops :: "conn_loop list"
  cg_connections :: connections_file
  cg_published :: "conn_message list"


section \<open>Marks, wake-ups and starting a loop\<close>

definition conn_try_mark_running :: "string \<Rightarrow> conn_manager \<Rightarrow> nat option \<times> conn_manager" where
  "conn_try_mark_running tool_id s =
    (if tool_id \<in> cg_running s then (None, s)
     else (Some (cg_next_wake s),
       s \<lparr> cg_running := insert tool_id (cg_running s),
           cg_wake := (cg_wake s)(tool_id \<mapsto> cg_next_wake s),
           cg_next_wake := Suc (cg_next_wake s) \<rparr>))"

definition notify_one :: "nat \<Rightarrow> conn_manager \<Rightarrow> conn_manager" where
  "notify_one wake s = s \<lparr> cg_permits := insert wake (cg_permits s) \<rparr>"

definition process_tool :: "installed_tool \<Rightarrow> nat \<Rightarrow> conn_manager \<Rightarrow> conn_manager" where
  "process_tool tool wake s =
    s \<lparr> cg_loops := cg_loops s @ [\<lparr> cl_tool = tool, cl_wake = wake, cl_failures = 0,
                                     cl_phase = Resolving, cl_sleep = 0 \<rparr>] \<rparr>"

definition conn_run_new_tool :: "installed_tool \<Rightarrow> conn_manager \<Rightarrow> conn_manager" where
  "conn_run_new_tool tool s =
    (if it_tool_type tool = [] then s
     else case conn_try_mark_running (it_tool_id tool) s of
         (Some wake, s1) \<Rightarrow> process_tool tool wake s1
       | (None, s1) \<Rightarrow>
           (case cg_wake s1 (it_tool_id tool) of Some wake \<Rightarrow> notify_one wake s1 | None \<Rightarrow> s1))"

fun conn_run_each :: "installed_tool list \<Rightarrow> conn_manager \<Rightarrow> conn_manager" where
  "conn_run_each [] s = s"
| "conn_run_each (tool # tools) s =
     conn_run_each tools
       (if it_tool_type tool = [] then s
        else case conn_try_mark_running (it_tool_id tool) s of
            (Some wake, s1) \<Rightarrow> process_tool tool wake s1
          | (None, s1) \<Rightarrow> s1)"

definition conn_run ::
  "conn_env \<Rightarrow> tools_file \<Rightarrow> conn_manager \<Rightarrow> (io_error, unit) result \<times> conn_manager" where
  "conn_run E tools s =
    (case tools_get_all (cn_list E) tools of
       Inl e \<Rightarrow> (Err e, s)
     | Inr ts \<Rightarrow> (Ok (), conn_run_each ts s))"


section \<open>One turn of a loop\<close>

definition backoff_agent_id_failure :: "32 word \<Rightarrow> nat \<times> 32 word" where
  "backoff_agent_id_failure failures =
    (let f = failures + 1 in
     (if AGENT_ID_MAX_FAST_RETRIES < f then AGENT_ID_DEGRADED_BACKOFF_SECONDS
      else CONN_RETRY_DELAY_SECONDS, f))"

text \<open>The id is empty when the tool has no command for it, and otherwise the trimmed, non-empty output
  of the command; None stands for each of the failures that back off.\<close>

definition resolve_agent_tool_id :: "conn_env \<Rightarrow> installed_tool \<Rightarrow> string option" where
  "resolve_agent_tool_id E tool =
    (if it_tool_agent_id_command_args tool = [] then Some []
     else case process_params (cn_params E) (tool_name tool) (it_tool_agent_id_command_args tool) of
         None \<Rightarrow> None
       | Some args \<Rightarrow>
           (case cn_command E (tool_executable (pv_ops (cn_params E)) tool) args of
              IdCommandSpawnFailed \<Rightarrow> None
            | IdCommandTimedOut \<Rightarrow> None
            | IdCommandExited success stdout \<Rightarrow>
                (if success \<and> cn_trim E stdout \<noteq> [] then Some (cn_trim E stdout) else None)))"

definition connection_message :: "string \<Rightarrow> string \<Rightarrow> string \<Rightarrow> conn_message" where
  "connection_message machine_id agent_tool_id tool_type =
    \<lparr> cm_subject = ''machine.'' @ machine_id @ ''.tool-connection'',
      cm_agent_tool_id = agent_tool_id, cm_tool_type = tool_type \<rparr>"

text \<open>Publishing and saving: what is slept afterwards, and whether a wake-up cuts it short.\<close>

definition publish_connection ::
  "conn_env \<Rightarrow> installed_tool \<Rightarrow> string \<Rightarrow> conn_manager \<Rightarrow> nat \<times> conn_manager" where
  "publish_connection E tool agent_tool_id s =
    (case cn_config E of
       Inl e \<Rightarrow> (CONN_RETRY_DELAY_SECONDS, s)
     | Inr machine_id \<Rightarrow>
         if \<not> cn_publish_ok E then (CONN_RETRY_DELAY_SECONDS, s)
         else
           let s1 = s \<lparr> cg_published := cg_published s @
                          [connection_message machine_id agent_tool_id (it_tool_type tool)] \<rparr> in
           case connections_save (cn_save E)
                  \<lparr> tc_tool_agent_id = tool_name tool, tc_agent_tool_id = agent_tool_id,
                    tc_published = True \<rparr> (cg_connections s1) of
             (r, f) \<Rightarrow>
               (if is_ok r then REPUBLISH_INTERVAL_SECONDS else CONN_RETRY_DELAY_SECONDS,
                s1 \<lparr> cg_connections := f \<rparr>))"

definition adopt :: "installed_tool option \<Rightarrow> installed_tool \<Rightarrow> installed_tool" where
  "adopt fresh tool = (case fresh of Some t \<Rightarrow> if it_tool_type t \<noteq> [] then t else tool | None \<Rightarrow> tool)"

definition conn_turn ::
  "conn_env \<Rightarrow> run_manager \<Rightarrow> conn_loop \<Rightarrow> conn_manager \<Rightarrow> conn_loop \<times> conn_manager" where
  "conn_turn E rm l s =
    (case tools_get_by_tool_agent_id (cn_read E) (tool_name (cl_tool l)) (rm_tools rm) of
       Inl e \<Rightarrow> (l \<lparr> cl_sleep := CONN_RETRY_DELAY_SECONDS \<rparr>, s)
     | Inr None \<Rightarrow> (l \<lparr> cl_phase := DropWake \<rparr>, s)
     | Inr (Some fresh) \<Rightarrow>
         let tool = adopt (Some fresh) (cl_tool l); l1 = l \<lparr> cl_tool := tool \<rparr> in
         if is_updating (tool_name tool) rm then (l1 \<lparr> cl_sleep := CONN_RETRY_DELAY_SECONDS \<rparr>, s)
         else case resolve_agent_tool_id E tool of
             None \<Rightarrow>
               (case backoff_agent_id_failure (cl_failures l) of
                  (delay, f) \<Rightarrow> (l1 \<lparr> cl_failures := f, cl_sleep := delay \<rparr>, s))
           | Some agent_tool_id \<Rightarrow>
               let l2 = (if it_tool_agent_id_command_args tool = [] then l1
                         else l1 \<lparr> cl_failures := 0 \<rparr>) in
               (case publish_connection E tool agent_tool_id s of
                  (delay, s1) \<Rightarrow> (l2 \<lparr> cl_sleep := delay \<rparr>, s1)))"

text \<open>The sleep of an hour ends when its handle is notified, which uses the permit up; other sleeps
  run to their end.\<close>

definition conn_sleep_left :: "conn_loop \<Rightarrow> conn_manager \<Rightarrow> nat" where
  "conn_sleep_left l s =
    (if cl_sleep l = REPUBLISH_INTERVAL_SECONDS \<and> cl_wake l \<in> cg_permits s then 0 else cl_sleep l)"

definition conn_wake_up :: "conn_loop \<Rightarrow> conn_manager \<Rightarrow> conn_manager" where
  "conn_wake_up l s =
    (if cl_sleep l = REPUBLISH_INTERVAL_SECONDS then s \<lparr> cg_permits := cg_permits s - {cl_wake l} \<rparr>
     else s)"

text \<open>One step of the n-th loop.\<close>

definition conn_advance :: "conn_env \<Rightarrow> run_manager \<Rightarrow> nat \<Rightarrow> conn_manager \<Rightarrow> conn_manager" where
  "conn_advance E rm n s =
    (let l = cg_loops s ! n; i = it_tool_id (cl_tool l) in
     case cl_phase l of
       Resolving \<Rightarrow>
         (case conn_turn E rm l (conn_wake_up l s) of
            (l1, s1) \<Rightarrow> s1 \<lparr> cg_loops := (cg_loops s1)[n := l1] \<rparr>)
     | DropWake \<Rightarrow>
         s \<lparr> cg_wake := (cg_wake s)(i := None),
             cg_loops := (cg_loops s)[n := l \<lparr> cl_phase := DropMark \<rparr>] \<rparr>
     | DropMark \<Rightarrow>
         s \<lparr> cg_running := cg_running s - {i},
             cg_loops := take n (cg_loops s) @ drop (Suc n) (cg_loops s) \<rparr>)"

section \<open>Interleavings of the loops with everything else\<close>

text \<open>Other tasks change the run manager at will, as long as a tool keeps its id: ident gives the tool
  id that belongs to a tool agent id.\<close>

definition ids_stable :: "(string \<Rightarrow> string) \<Rightarrow> run_manager \<Rightarrow> bool" where
  "ids_stable ident rm \<longleftrightarrow>
     (\<forall>t \<in> set (tools_of (rm_tools rm)). ident (tool_name t) = it_tool_id t)"

inductive conn_step ::
  "(string \<Rightarrow> string) \<Rightarrow> run_manager \<times> conn_manager \<Rightarrow> run_manager \<times> conn_manager \<Rightarrow> bool"
  for ident where
  step_run: "conn_step ident (rm, s) (rm, snd (conn_run E (rm_tools rm) s))"
| step_new_tool: "ident (tool_name tool) = it_tool_id tool \<Longrightarrow>
    conn_step ident (rm, s) (rm, conn_run_new_tool tool s)"
| step_loop: "n < length (cg_loops s) \<Longrightarrow> conn_step ident (rm, s) (rm, conn_advance E rm n s)"
| step_other: "ids_stable ident rm' \<Longrightarrow> conn_step ident (rm, s) (rm', s)"

inductive_cases conn_stepE: "conn_step ident (rm, s) x"

abbreviation loop_id :: "conn_loop \<Rightarrow> string" where "loop_id l \<equiv> it_tool_id (cl_tool l)"

definition loops_ok :: "(string \<Rightarrow> string) \<Rightarrow> conn_manager \<Rightarrow> bool" where
  "loops_ok ident s \<longleftrightarrow>
     distinct (map loop_id (cg_loops s)) \<and> loop_id ` set (cg_loops s) = cg_running s \<and>
     (\<forall>l \<in> set (cg_loops s). ident (tool_name (cl_tool l)) = loop_id l \<and>
        cg_wake s (loop_id l) = (if cl_phase l = DropMark then None else Some (cl_wake l)))"

definition conn_inv :: "(string \<Rightarrow> string) \<Rightarrow> run_manager \<times> conn_manager \<Rightarrow> bool" where
  "conn_inv ident rs \<longleftrightarrow> ids_stable ident (fst rs) \<and> loops_ok ident (snd rs)"

definition conn_init :: "(string \<Rightarrow> string) \<Rightarrow> run_manager \<times> conn_manager \<Rightarrow> bool" where
  "conn_init ident rs \<longleftrightarrow> ids_stable ident (fst rs) \<and> cg_loops (snd rs) = [] \<and>
     cg_running (snd rs) = {} \<and> cg_wake (snd rs) = Map.empty"

definition start_loop :: "installed_tool \<Rightarrow> conn_manager \<Rightarrow> conn_manager" where
  "start_loop tool s =
    (case conn_try_mark_running (it_tool_id tool) s of
       (Some wake, s1) \<Rightarrow> process_tool tool wake s1 | (None, s1) \<Rightarrow> s1)"

lemma start_loop_ok:
  assumes "loops_ok ident s" "ident (tool_name tool) = it_tool_id tool"
  shows "loops_ok ident (start_loop tool s)"
proof (cases "it_tool_id tool \<in> cg_running s")
  case True
  then show ?thesis using assms(1) by (simp add: start_loop_def conn_try_mark_running_def)
next
  case False
  then have other: "loop_id l \<noteq> it_tool_id tool" if "l \<in> set (cg_loops s)" for l
  proof -
    have "loop_id l \<in> cg_running s" using that assms(1) imageI[OF that, of loop_id]
      unfolding loops_ok_def by blast
    then show ?thesis using False by metis
  qed
  show ?thesis
    using False assms other
    by (simp add: start_loop_def conn_try_mark_running_def process_tool_def loops_ok_def)
qed

lemma notify_one_ok [simp]: "loops_ok ident (notify_one w s) = loops_ok ident s"
  by (simp add: notify_one_def loops_ok_def)

lemma conn_run_each_ok:
  "loops_ok ident s \<Longrightarrow> \<forall>t \<in> set ts. ident (tool_name t) = it_tool_id t \<Longrightarrow>
   loops_ok ident (conn_run_each ts s)"
proof (induction ts arbitrary: s)
  case (Cons t ts)
  then show ?case
    using start_loop_ok[of ident s t] by (auto simp: start_loop_def)
qed simp

lemma conn_run_ok:
  assumes "conn_inv ident (rm, s)"
  shows "loops_ok ident (snd (conn_run E (rm_tools rm) s))"
  using assms conn_run_each_ok[of ident s] tools_get_all_ok[of "cn_list E" "rm_tools rm"]
  by (auto simp: conn_run_def conn_inv_def ids_stable_def split: sum.split)

lemma conn_run_new_tool_ok:
  assumes "loops_ok ident s" "ident (tool_name tool) = it_tool_id tool"
  shows "loops_ok ident (conn_run_new_tool tool s)"
  using assms start_loop_ok[OF assms]
  by (auto simp: conn_run_new_tool_def start_loop_def conn_try_mark_running_def
      split: option.split if_splits)

text \<open>A turn of a loop leaves the marks, the handles and the other loops alone.\<close>

definition same_marks :: "conn_manager \<Rightarrow> conn_manager \<Rightarrow> bool" where
  "same_marks s s' \<longleftrightarrow> cg_running s' = cg_running s \<and> cg_wake s' = cg_wake s \<and>
     cg_loops s' = cg_loops s \<and> cg_next_wake s' = cg_next_wake s"

lemma publish_connection_marks: "publish_connection E tool a s = (d, s1) \<Longrightarrow> same_marks s s1"
  by (auto simp: publish_connection_def same_marks_def Let_def split: sum.splits prod.splits if_splits)

lemma same_marks_refl [simp]: "same_marks s s" by (simp add: same_marks_def)

lemma conn_turn_marks:
  assumes "conn_turn E rm l s = (l1, s1)" "cl_phase l = Resolving" "ids_stable ident rm"
    and "ident (tool_name (cl_tool l)) = loop_id l"
  shows "same_marks s s1" "loop_id l1 = loop_id l" "tool_name (cl_tool l1) = tool_name (cl_tool l)"
    "cl_wake l1 = cl_wake l" "cl_phase l1 \<noteq> DropMark"
proof -
  have fresh: "it_tool_id t = loop_id l \<and> tool_name t = tool_name (cl_tool l)"
    if r: "tools_get_by_tool_agent_id (cn_read E) (tool_name (cl_tool l)) (rm_tools rm) = Ok (Some t)" for t
  proof -
    obtain ts where ts: "tools_get_all (cn_read E) (rm_tools rm) = Ok ts"
        "lookup it_tool_agent_id ts (tool_name (cl_tool l)) = Some t"
      using r by (auto simp: tools_get_by_tool_agent_id_def split: sum.splits)
    moreover have "t \<in> set ts" using ts(2) by (auto simp: lookup_def find_Some_iff)
    ultimately show ?thesis
      using tools_get_all_ok[OF ts(1)] lookup_key[OF ts(2)] assms(3,4) by (auto simp: ids_stable_def)
  qed
  have a: "adopt (Some t) (cl_tool l) = t \<or> adopt (Some t) (cl_tool l) = cl_tool l" for t
    by (simp add: adopt_def)
  obtain r where r: "tools_get_by_tool_agent_id (cn_read E) (tool_name (cl_tool l)) (rm_tools rm) = r"
    by blast
  have "same_marks s s1 \<and> loop_id l1 = loop_id l \<and> tool_name (cl_tool l1) = tool_name (cl_tool l) \<and>
    cl_wake l1 = cl_wake l \<and> cl_phase l1 \<noteq> DropMark"
  proof (cases "\<exists>t. r = Ok (Some t)")
    case True
    then obtain t where t: "r = Ok (Some t)" by blast
    then have "it_tool_id (adopt (Some t) (cl_tool l)) = loop_id l"
      "tool_name (adopt (Some t) (cl_tool l)) = tool_name (cl_tool l)"
      using fresh[of t] a[of t] r by auto
    then show ?thesis
      using assms(1,2) t r
      by (auto simp: conn_turn_def Let_def split: option.splits if_splits prod.splits
          dest: publish_connection_marks)
  next
    case False
    then show ?thesis using assms(1,2) r
      by (cases r) (auto simp: conn_turn_def split: sum.splits option.splits)
  qed
  then show "same_marks s s1" "loop_id l1 = loop_id l"
    "tool_name (cl_tool l1) = tool_name (cl_tool l)" "cl_wake l1 = cl_wake l" "cl_phase l1 \<noteq> DropMark"
    by blast+
qed

lemma others_differ:
  assumes "distinct (map f (xs @ x # ys))" "y \<in> set xs \<union> set ys"
  shows "f y \<noteq> f x"
proof -
  have "f x \<notin> f ` (set xs \<union> set ys)" using assms(1) by (simp add: image_Un)
  then show ?thesis using assms(2) by (metis imageI)
qed

lemma conn_advance_ok:
  assumes "conn_inv ident (rm, s)" "n < length (cg_loops s)"
  shows "loops_ok ident (conn_advance E rm n s)"
proof -
  let ?l = "cg_loops s ! n"
  have st: "ids_stable ident rm" and ok: "loops_ok ident s" using assms(1) by (simp_all add: conn_inv_def)
  have mem: "?l \<in> set (cg_loops s)" using assms(2) by simp
  have split: "cg_loops s = take n (cg_loops s) @ ?l # drop (Suc n) (cg_loops s)"
    using assms(2) by (rule id_take_nth_drop)
  have upd: "(cg_loops s)[n := x] = take n (cg_loops s) @ x # drop (Suc n) (cg_loops s)" for x
    using assms(2) by (rule upd_conv_take_nth_drop)
  obtain as bs where p: "cg_loops s = as @ ?l # bs" "take n (cg_loops s) = as"
      "drop (Suc n) (cg_loops s) = bs" using split by blast
  have parts: "distinct (map loop_id (as @ ?l # bs))" "loop_id ` set (as @ ?l # bs) = cg_running s"
      "\<forall>l \<in> set (as @ ?l # bs). ident (tool_name (cl_tool l)) = loop_id l \<and>
        cg_wake s (loop_id l) = (if cl_phase l = DropMark then None else Some (cl_wake l))"
    using ok unfolding loops_ok_def p(1)[symmetric] by blast+
  show ?thesis
  proof (cases "cl_phase ?l")
    case Resolving
    obtain l1 s1 where t: "conn_turn E rm ?l (conn_wake_up ?l s) = (l1, s1)" by fastforce
    have m: "same_marks (conn_wake_up ?l s) s1" "loop_id l1 = loop_id ?l"
      "tool_name (cl_tool l1) = tool_name (cl_tool ?l)" "cl_wake l1 = cl_wake ?l" "cl_phase l1 \<noteq> DropMark"
      using conn_turn_marks[OF t Resolving st] parts(3) by auto
    have "cg_loops s1 = cg_loops s" "cg_running s1 = cg_running s" "cg_wake s1 = cg_wake s"
      using m(1) by (simp_all add: same_marks_def conn_wake_up_def split: if_splits)
    then have "conn_advance E rm n s = s1 \<lparr> cg_loops := as @ l1 # bs \<rparr>"
      using Resolving t by (simp add: conn_advance_def upd p(2,3))
    then show ?thesis
      using parts m Resolving \<open>cg_running s1 = cg_running s\<close> \<open>cg_wake s1 = cg_wake s\<close>
      by (simp add: loops_ok_def)
  next
    case DropWake
    then have "conn_advance E rm n s = s \<lparr> cg_wake := (cg_wake s)(loop_id ?l := None),
        cg_loops := as @ ?l \<lparr> cl_phase := DropMark \<rparr> # bs \<rparr>"
      by (simp add: conn_advance_def Let_def upd p(2,3))
    moreover note others_differ[OF parts(1)]
    ultimately show ?thesis using parts by (simp add: loops_ok_def Ball_def)
  next
    case DropMark
    then have "conn_advance E rm n s =
        s \<lparr> cg_running := cg_running s - {loop_id ?l}, cg_loops := as @ bs \<rparr>"
      by (simp add: conn_advance_def p(2,3))
    moreover have "loop_id ` set (as @ bs) = cg_running s - {loop_id ?l}"
      using others_differ[OF parts(1)] unfolding parts(2)[symmetric] by auto
    ultimately show ?thesis using parts by (simp add: loops_ok_def)
  qed
qed

lemma conn_inv_step:
  assumes "conn_inv ident x" "conn_step ident x y"
  shows "conn_inv ident y"
  using assms(2)
proof cases
  case (step_run rm s E)
  then show ?thesis using assms(1) conn_run_ok[of ident rm s E] by (simp add: conn_inv_def)
next
  case (step_new_tool tool rm s)
  then show ?thesis using assms(1) conn_run_new_tool_ok[of ident s tool] by (simp add: conn_inv_def)
next
  case (step_loop n s rm E)
  then show ?thesis using assms(1) conn_advance_ok[of ident rm s n E] by (simp add: conn_inv_def)
next
  case (step_other rm' s rm)
  then show ?thesis using assms(1) by (simp add: conn_inv_def)
qed

interpretation conn: inv_system "conn_init ident" "conn_step ident" "conn_inv ident" for ident
proof unfold_locales
  show "conn_inv ident s" if "conn_init ident s" for s
    using that by (simp add: conn_init_def conn_inv_def loops_ok_def)
qed (rule conn_inv_step)

section \<open>Properties\<close>

text \<open>C17. As long as the registry never changes the tool id of a tool, at every moment and for any
  interleaving of starts, installations, loop turns and loop ends, each tool has at most one
  connection loop, a tool is marked exactly when it has one, and a running loop can be woken through
  the handle registered for its tool.\<close>

theorem one_connection_loop:
  assumes "conn_init ident x" "(conn_step ident)\<^sup>*\<^sup>* x (rm, s)"
  shows "distinct (map loop_id (cg_loops s)) \<and>
    (\<forall>i. i \<in> cg_running s \<longleftrightarrow> (\<exists>l \<in> set (cg_loops s). loop_id l = i)) \<and>
    (\<forall>l \<in> set (cg_loops s). cl_phase l \<noteq> DropMark \<longrightarrow> cg_wake s (loop_id l) = Some (cl_wake l))"
proof -
  have "loops_ok ident s" using conn.inv_reachable[OF assms] by (simp add: conn_inv_def)
  then have "distinct (map loop_id (cg_loops s))" "cg_running s = loop_id ` set (cg_loops s)"
    "\<forall>l \<in> set (cg_loops s). cg_wake s (loop_id l) = (if cl_phase l = DropMark then None else Some (cl_wake l))"
    unfolding loops_ok_def by blast+
  then show ?thesis by (auto simp: image_iff)
qed

text \<open>A tool reinstalled while its loop is coming to an end is forgotten: when the loop has found
  its record gone and has given up its wake-up handle but not yet its mark, the call made for the
  new installation does nothing at all, and once the loop is gone no loop of the tool is left,
  although the installation succeeded.\<close>

theorem reinstall_while_ending_is_lost:
  assumes "conn_init ident x" "(conn_step ident)\<^sup>*\<^sup>* x (rm, s)"
    and "n < length (cg_loops s)" "cl_phase (cg_loops s ! n) = DropMark"
    and "it_tool_id tool = loop_id (cg_loops s ! n)"
  shows "conn_run_new_tool tool s = s \<and>
    (\<forall>l \<in> set (cg_loops (conn_advance E rm n (conn_run_new_tool tool s))). loop_id l \<noteq> it_tool_id tool)"
proof -
  let ?l = "cg_loops s ! n"
  have ok: "loops_ok ident s" using conn.inv_reachable[OF assms(1,2)] by (simp add: conn_inv_def)
  have mem: "?l \<in> set (cg_loops s)" using assms(3) by simp
  have "loop_id ?l \<in> cg_running s" "cg_wake s (loop_id ?l) = None"
    using ok mem assms(4) imageI[OF mem, of loop_id] unfolding loops_ok_def by auto
  then have same: "conn_run_new_tool tool s = s"
    using assms(5) by (simp add: conn_run_new_tool_def conn_try_mark_running_def)
  have "distinct (map loop_id (take n (cg_loops s) @ ?l # drop (Suc n) (cg_loops s)))"
    using ok id_take_nth_drop[OF assms(3)] by (metis loops_ok_def)
  note others = others_differ[OF this]
  have "cg_loops (conn_advance E rm n s) = take n (cg_loops s) @ drop (Suc n) (cg_loops s)"
    using assms(4) by (simp add: conn_advance_def Let_def)
  then show ?thesis
    using same others assms(5) by simp
qed

definition connection_ready ::
  "conn_env \<Rightarrow> run_manager \<Rightarrow> conn_loop \<Rightarrow> installed_tool \<Rightarrow> string \<Rightarrow> string \<Rightarrow> bool" where
  "connection_ready E rm l tool a m \<longleftrightarrow>
     (\<exists>fresh. tools_get_by_tool_agent_id (cn_read E) (tool_name (cl_tool l)) (rm_tools rm) = Ok (Some fresh)
       \<and> tool = adopt (Some fresh) (cl_tool l)) \<and>
     \<not> is_updating (tool_name tool) rm \<and> resolve_agent_tool_id E tool = Some a \<and>
     cn_config E = Ok m \<and> cn_publish_ok E"

lemma connections_save_ok:
  assumes "connections_save io c f = (r, f')" "is_ok r"
  shows "\<exists>cs. f' = Content cs \<and> lookup tc_tool_agent_id cs (tc_tool_agent_id c) = Some c"
  using assms
  by (auto simp: connections_save_def write_in_place_def lookup_upsert split: sum.splits if_splits)

text \<open>One turn of a connection loop: a message is published exactly when the tool is in the
  registry, no operation on it is in flight, its id resolves (to the trimmed output of the command, or
  to the empty string without one), the machine id is known and the network takes it; the
  message names that id and the tool's type. The loop rests for an hour exactly when the same id was
  also saved, ends exactly when the registry has no record, and otherwise comes back within five
  minutes. Without a message the saved connections are untouched.\<close>

theorem conn_turn_contract:
  assumes "conn_turn E rm l s = (l', s')" "cl_phase l = Resolving"
  shows "(\<forall>tool a m. connection_ready E rm l tool a m \<longrightarrow>
      cg_published s' = cg_published s @ [connection_message m a (it_tool_type tool)] \<and>
      (cl_sleep l' = REPUBLISH_INTERVAL_SECONDS \<longrightarrow> (\<exists>cs. cg_connections s' = Content cs \<and>
         lookup tc_tool_agent_id cs (tool_name tool) =
           Some \<lparr> tc_tool_agent_id = tool_name tool, tc_agent_tool_id = a, tc_published = True \<rparr>)) \<and>
      (cl_sleep l' \<noteq> REPUBLISH_INTERVAL_SECONDS \<longrightarrow>
         read_fails (cn_save E) \<or> write_fails (cn_save E) \<or> cg_connections s = Corrupt)) \<and>
    ((\<nexists>tool a m. connection_ready E rm l tool a m) \<longrightarrow>
      cg_published s' = cg_published s \<and> cg_connections s' = cg_connections s) \<and>
    (cl_phase l' = DropWake \<longleftrightarrow>
      tools_get_by_tool_agent_id (cn_read E) (tool_name (cl_tool l)) (rm_tools rm) = Ok None) \<and>
    (cl_phase l' \<noteq> DropWake \<longrightarrow> cl_sleep l' \<in> {15, 300, 3600} \<and>
      (cl_sleep l' = 3600 \<longrightarrow> (\<exists>tool a m. connection_ready E rm l tool a m)))"
proof -
  note secs = CONN_RETRY_DELAY_SECONDS_def REPUBLISH_INTERVAL_SECONDS_def
    AGENT_ID_DEGRADED_BACKOFF_SECONDS_def backoff_agent_id_failure_def Let_def
  obtain r where r: "tools_get_by_tool_agent_id (cn_read E) (tool_name (cl_tool l)) (rm_tools rm) = r"
    by blast
  show ?thesis
  proof (cases "\<exists>t. r = Ok (Some t) \<and> (\<exists>a m. connection_ready E rm l (adopt (Some t) (cl_tool l)) a m)")
    case True
    then obtain t a m where t: "r = Ok (Some t)"
      and ready: "connection_ready E rm l (adopt (Some t) (cl_tool l)) a m" by blast
    let ?tool = "adopt (Some t) (cl_tool l)"
    let ?c = "\<lparr> tc_tool_agent_id = tool_name ?tool, tc_agent_tool_id = a, tc_published = True \<rparr>"
    obtain sr f where sv: "connections_save (cn_save E) ?c (cg_connections s) = (sr, f)" by fastforce
    have only: "tool = ?tool \<and> b = a \<and> k = m" if "connection_ready E rm l tool b k" for tool b k
      using that ready r t by (auto simp: connection_ready_def)
    have bad: "read_fails (cn_save E) \<or> write_fails (cn_save E) \<or> cg_connections s = Corrupt"
      if "\<not> is_ok sr"
      using that sv by (auto simp: connections_save_def connections_get_all_def read_file_def
          write_in_place_def split: if_splits disk_file.splits)
    have facts: "\<not> is_updating (tool_name ?tool) rm" "resolve_agent_tool_id E ?tool = Some a"
      "cn_config E = Ok m" "cn_publish_ok E"
      using ready by (simp_all add: connection_ready_def)
    let ?s = "s \<lparr> cg_published := cg_published s @ [connection_message m a (it_tool_type ?tool)],
        cg_connections := f \<rparr>"
    have pub: "publish_connection E ?tool a s = (if is_ok sr then 3600 else 15, ?s)"
      using facts(3,4) sv by (simp add: publish_connection_def secs)
    have "conn_turn E rm l s =
      ((if it_tool_agent_id_command_args ?tool = [] then l \<lparr> cl_tool := ?tool \<rparr>
        else l \<lparr> cl_tool := ?tool, cl_failures := 0 \<rparr>) \<lparr> cl_sleep := if is_ok sr then 3600 else 15 \<rparr>, ?s)"
      by (simp add: conn_turn_def Let_def r t facts(1,2) pub)
    then have "s' = ?s" "cl_sleep l' = (if is_ok sr then 3600 else 15)" "cl_phase l' = Resolving"
      unfolding assms(1) using assms(2) by simp_all
    moreover have "\<exists>cs. f = Content cs \<and> lookup tc_tool_agent_id cs (tool_name ?tool) = Some ?c" if "is_ok sr"
      using connections_save_ok[OF sv that] by simp
    moreover have "\<exists>tool a m. connection_ready E rm l tool a m" using ready by blast
    ultimately show ?thesis
      unfolding r t using only bad
      by (intro conjI allI impI) (auto simp: secs dest: only split: if_splits)
  next
    case False
    then have none: "\<nexists>tool a m. connection_ready E rm l tool a m"
      using r by (auto simp: connection_ready_def)
    show ?thesis
    proof (cases "\<exists>t. r = Ok (Some t)")
      case True
      then obtain t where t: "r = Ok (Some t)" by blast
      let ?tool = "adopt (Some t) (cl_tool l)"
      have "cn_config E \<noteq> Ok m \<or> \<not> cn_publish_ok E"
        if "\<not> is_updating (tool_name ?tool) rm" "resolve_agent_tool_id E ?tool = Some a" for a m
        using none that r t by (auto simp: connection_ready_def)
      then have "s' = s \<and> cl_phase l' = Resolving \<and> cl_sleep l' \<in> {15, 300}"
        using assms r t
        by (cases "cn_config E")
          (auto simp: conn_turn_def publish_connection_def secs split: option.splits if_splits)
      then show ?thesis using none r t by auto
    next
      case False
      then show ?thesis using none r assms
        by (cases r) (auto simp: conn_turn_def secs split: option.splits)
    qed
  qed
qed

fun conn_turns ::
  "conn_env list \<Rightarrow> run_manager \<Rightarrow> conn_loop \<Rightarrow> conn_manager \<Rightarrow> nat list \<times> conn_loop \<times> conn_manager" where
  "conn_turns [] rm l s = ([], l, s)"
| "conn_turns (E # Es) rm l s =
     (case conn_turn E rm l s of
        (l1, s1) \<Rightarrow> (case conn_turns Es rm l1 s1 of (ds, ls) \<Rightarrow> (cl_sleep l1 # ds, ls)))"

lemma failing_turn:
  assumes "tools_get_by_tool_agent_id (cn_read E) (tool_name (cl_tool l)) (rm_tools rm) = Ok (Some t)"
    and "it_tool_type t \<noteq> []" "\<not> is_updating (tool_name t) rm" "resolve_agent_tool_id E t = None"
  shows "conn_turn E rm l s =
    (l \<lparr> cl_tool := t, cl_failures := cl_failures l + 1,
        cl_sleep := if 5 < cl_failures l + 1 then 300 else 15 \<rparr>, s)"
  using assms
  by (simp add: conn_turn_def adopt_def backoff_agent_id_failure_def AGENT_ID_MAX_FAST_RETRIES_def
      AGENT_ID_DEGRADED_BACKOFF_SECONDS_def CONN_RETRY_DELAY_SECONDS_def Let_def)

lemma failing_turns:
  assumes "\<forall>E \<in> set Es. tools_get_by_tool_agent_id (cn_read E) (tool_name t) (rm_tools rm) = Ok (Some t) \<and>
      resolve_agent_tool_id E t = None"
    and "it_tool_type t \<noteq> []" "\<not> is_updating (tool_name t) rm" "tool_name (cl_tool l) = tool_name t"
    and "unat (cl_failures l) + length Es < 2 ^ 32"
  shows "fst (conn_turns Es rm l s) =
      map (\<lambda>k. if 5 < k then 300 else 15) [Suc (unat (cl_failures l))..<Suc (unat (cl_failures l) + length Es)]
    \<and> snd (snd (conn_turns Es rm l s)) = s"
  using assms
proof (induction Es arbitrary: l)
  case (Cons E Es)
  let ?l = "l \<lparr> cl_tool := t, cl_failures := cl_failures l + 1,
        cl_sleep := if 5 < cl_failures l + 1 then 300 else 15 \<rparr>"
  have up: "unat (cl_failures l + 1) = Suc (unat (cl_failures l))"
    using Cons.prems(5) by (simp add: unat_word_ariths)
  have "conn_turn E rm l s = (?l, s)" using Cons.prems by (intro failing_turn) auto
  moreover have "5 < cl_failures l + 1 \<longleftrightarrow> 5 < Suc (unat (cl_failures l))"
    by (simp add: word_less_nat_alt up)
  moreover have "fst (conn_turns Es rm ?l s) =
      map (\<lambda>k. if 5 < k then 300 else 15)
        [Suc (Suc (unat (cl_failures l)))..<Suc (Suc (unat (cl_failures l)) + length Es)]
      \<and> snd (snd (conn_turns Es rm ?l s)) = s"
    using Cons.IH[of ?l] Cons.prems up by (simp del: upt_Suc)
  moreover obtain ds l2 s2 where "conn_turns Es rm ?l s = (ds, l2, s2)" by (metis prod_cases3)
  ultimately show ?case
    by (simp add: upt_conv_Cons del: upt_Suc split del: if_split)
qed simp

text \<open>While the id of an installed tool cannot be resolved, the loop retries five times every 15
  seconds and then every five minutes, for as long as its 32-bit failure counter does not wrap, and
  neither publishes nor saves anything.\<close>

theorem degraded_backoff_schedule:
  assumes "\<forall>E \<in> set Es. tools_get_by_tool_agent_id (cn_read E) (tool_name t) (rm_tools rm) = Ok (Some t) \<and>
      resolve_agent_tool_id E t = None"
    and "it_tool_type t \<noteq> []" "\<not> is_updating (tool_name t) rm" "tool_name (cl_tool l) = tool_name t"
    and "cl_failures l = 0" "length Es < 2 ^ 32"
  shows "fst (conn_turns Es rm l s) = replicate (min 5 (length Es)) 15 @ replicate (length Es - 5) 300
    \<and> snd (snd (conn_turns Es rm l s)) = s"
proof -
  have "map (\<lambda>k. if 5 < k then 300 else 15) [Suc 0..<Suc n] =
      replicate (min 5 n) (15::nat) @ replicate (n - 5) 300" for n
    by (rule nth_equalityI) (auto simp: nth_append min_def)
  then show ?thesis using failing_turns[OF assms(1-4), of s] assms(5,6) by simp
qed

text \<open>A tool with an id command that fails, then answers.\<close>

definition mesh_tool :: installed_tool where
  "mesh_tool = default_tool \<lparr> it_tool_agent_id := ''mesh'', it_tool_id := ''mesh'', it_tool_type := ''RMM'',
     it_tool_agent_id_command_args := [''-nodeid''] \<rparr>"

definition sample_conn :: "id_command_outcome \<Rightarrow> conn_env" where
  "sample_conn out = \<lparr> cn_params = sample_params, cn_read = io_ok, cn_list = io_ok,
     cn_config = Ok ''m-1'', cn_save = io_ok, cn_command = (\<lambda>_ _. out), cn_trim = id,
     cn_publish_ok = True \<rparr>"

definition idle_connections :: conn_manager where
  "idle_connections = \<lparr> cg_running = {}, cg_wake = Map.empty, cg_next_wake = 0, cg_permits = {},
     cg_loops = [], cg_connections = Missing, cg_published = [] \<rparr>"

definition mesh_loop :: conn_loop where
  "mesh_loop = \<lparr> cl_tool = mesh_tool, cl_wake = 0, cl_failures = 0, cl_phase = Resolving, cl_sleep = 0 \<rparr>"

lemma mesh_registered:
  "tools_get_by_tool_agent_id (cn_read (sample_conn out)) ''mesh'' (rm_tools (empty_manager (Content [mesh_tool])))
     = Ok (Some mesh_tool)"
  by (simp add: tools_get_by_tool_agent_id_def tools_get_all_def read_file_def sample_conn_def
      empty_manager_def lookup_def mesh_tool_def)

lemma degraded_backoff_schedule_witness:
  "fst (conn_turns (replicate 7 (sample_conn IdCommandTimedOut)) (empty_manager (Content [mesh_tool]))
     mesh_loop idle_connections) = [15, 15, 15, 15, 15, 300, 300]"
proof -
  have "resolve_agent_tool_id (sample_conn IdCommandTimedOut) mesh_tool = None"
    by (simp add: resolve_agent_tool_id_def sample_conn_def mesh_tool_def split: option.split)
  then have "\<forall>E \<in> set (replicate 7 (sample_conn IdCommandTimedOut)).
      tools_get_by_tool_agent_id (cn_read E) (tool_name mesh_tool)
        (rm_tools (empty_manager (Content [mesh_tool]))) = Ok (Some mesh_tool) \<and>
      resolve_agent_tool_id E mesh_tool = None"
    using mesh_registered by (simp add: mesh_tool_def)
  then have "fst (conn_turns (replicate 7 (sample_conn IdCommandTimedOut))
      (empty_manager (Content [mesh_tool])) mesh_loop idle_connections) =
      replicate (min 5 7) 15 @ replicate (7 - 5) 300"
    using degraded_backoff_schedule[of "replicate 7 (sample_conn IdCommandTimedOut)" mesh_tool
        "empty_manager (Content [mesh_tool])" mesh_loop idle_connections]
    by (simp add: mesh_tool_def mesh_loop_def is_updating_def empty_manager_def)
  then show ?thesis by (simp add: numeral_eq_Suc)
qed

lemma conn_turn_contract_witness:
  "cg_published (snd (conn_turn (sample_conn (IdCommandExited True ''node-7''))
      (empty_manager (Content [mesh_tool])) mesh_loop idle_connections)) =
    [connection_message ''m-1'' ''node-7'' ''RMM'']"
proof -
  let ?E = "sample_conn (IdCommandExited True ''node-7'')"
  let ?rm = "empty_manager (Content [mesh_tool])"
  have p: "process_params sample_params i args \<noteq> None" for i args
    by (simp add: process_params_def sample_params_def)
  have ready: "connection_ready ?E ?rm mesh_loop mesh_tool ''node-7'' ''m-1''"
    using mesh_registered p
    by (auto simp: connection_ready_def adopt_def mesh_loop_def mesh_tool_def is_updating_def
        empty_manager_def resolve_agent_tool_id_def sample_conn_def split: option.splits)
  have resolving: "cl_phase mesh_loop = Resolving" by (simp add: mesh_loop_def)
  have "cg_published (snd (conn_turn ?E ?rm mesh_loop idle_connections)) =
      cg_published idle_connections @ [connection_message ''m-1'' ''node-7'' (it_tool_type mesh_tool)]"
    using conn_turn_contract[OF prod.collapse[symmetric] resolving, THEN conjunct1, rule_format, OF ready]
    by blast
  then show ?thesis by (simp add: mesh_tool_def idle_connections_def)
qed

text \<open>The tool is uninstalled, its loop notices, and the tool is installed again.\<close>

definition no_answer :: conn_env where "no_answer = sample_conn IdCommandSpawnFailed"

definition ending_loop :: conn_manager where
  "ending_loop = conn_advance no_answer (empty_manager Missing) 0
     (conn_advance no_answer (empty_manager Missing) 0 (conn_run_new_tool mesh_tool idle_connections))"

lemma ending_loop_phase:
  "length (cg_loops ending_loop) = 1" "cl_phase (cg_loops ending_loop ! 0) = DropMark"
  "loop_id (cg_loops ending_loop ! 0) = it_tool_id mesh_tool"
  "0 < length (cg_loops (conn_run_new_tool mesh_tool idle_connections))"
  "0 < length (cg_loops (conn_advance no_answer (empty_manager Missing) 0
     (conn_run_new_tool mesh_tool idle_connections)))"
  by (simp_all add: ending_loop_def conn_run_new_tool_def conn_try_mark_running_def process_tool_def
      idle_connections_def mesh_tool_def conn_advance_def conn_turn_def conn_wake_up_def no_answer_def
      sample_conn_def tools_get_by_tool_agent_id_def tools_get_all_def read_file_def empty_manager_def
      lookup_def REPUBLISH_INTERVAL_SECONDS_def)

lemma ending_loop_reachable:
  "conn_init id (empty_manager Missing, idle_connections)"
  "(conn_step id)\<^sup>*\<^sup>* (empty_manager Missing, idle_connections)
     (empty_manager (Content [mesh_tool]), ending_loop)"
proof -
  let ?rm = "empty_manager Missing"
  have ids: "ids_stable id ?rm" "ids_stable id (empty_manager (Content [mesh_tool]))"
    by (simp_all add: ids_stable_def empty_manager_def tools_of_def mesh_tool_def)
  then show "conn_init id (?rm, idle_connections)"
    by (simp add: conn_init_def idle_connections_def)
  have "conn_step id (?rm, idle_connections) (?rm, conn_run_new_tool mesh_tool idle_connections)"
    by (rule step_new_tool) (simp add: mesh_tool_def)
  moreover note step_loop[OF ending_loop_phase(4), of id ?rm no_answer]
  moreover have "conn_step id
      (?rm, conn_advance no_answer ?rm 0 (conn_run_new_tool mesh_tool idle_connections)) (?rm, ending_loop)"
    unfolding ending_loop_def by (rule step_loop[OF ending_loop_phase(5)])
  moreover have "conn_step id (?rm, ending_loop) (empty_manager (Content [mesh_tool]), ending_loop)"
    by (rule step_other[OF ids(2)])
  ultimately show "(conn_step id)\<^sup>*\<^sup>* (?rm, idle_connections) (empty_manager (Content [mesh_tool]), ending_loop)"
    by (meson converse_rtranclp_into_rtranclp rtranclp.rtrancl_refl)
qed

lemma reinstall_while_ending_is_lost_witness:
  "conn_run_new_tool mesh_tool ending_loop = ending_loop"
  using reinstall_while_ending_is_lost[OF ending_loop_reachable, of 0 mesh_tool] ending_loop_phase(1-3)
  by simp

lemma one_connection_loop_witness: "it_tool_id mesh_tool \<in> cg_running ending_loop"
proof -
  have "\<exists>l \<in> set (cg_loops ending_loop). loop_id l = it_tool_id mesh_tool"
    using ending_loop_phase(1,3) by (metis less_one nth_mem)
  then show ?thesis using one_connection_loop[OF ending_loop_reachable] by blast
qed

end
