(* ===== verification/ToolInstall.thy ===== *)
theory ToolInstall
  imports ToolConnections
begin

text \<open>Installing and reinstalling a tool (services/tool\_installation\_service.rs,
  models/tool\_installation\_message.rs, services/installed\_agent\_message\_publisher.rs). The work is
  done under the lock and the updating mark of the tool. The state is that of the restart and
  uninstallation services (run manager, locks, kill service), of the connection loops, of the
  downloads, the files written by this service and a record of its effects. The environment
  answers for the file system, the commands run, the service manager and the network; the pauses are
  left out. A version baked into the build overrides the one of a message; which ids have one is a
  parameter.\<close>

section \<open>Messages\<close>

datatype asset_source = Artifactory | ToolApi | Github

record local_filename_config =
  lf_filename :: string
  lf_os :: string

record asset =
  at_id :: string
  at_local_filename_configuration :: "local_filename_config list"
  at_source :: asset_source
  at_path :: "string option"
  at_executable :: bool
  at_download_configurations :: "download_configuration list option"
  at_version :: "string option"

record tool_installation_message =
  tm_tool_agent_id :: string
  tm_tool_id :: string
  tm_tool_type :: string
  tm_version :: string
  tm_reinstall :: bool
  tm_download_configurations :: "download_configuration list option"
  tm_installation_command_args :: "string list option"
  tm_uninstallation_command_args :: "string list option"
  tm_run_command_args :: "string list"
  tm_tool_agent_id_command_args :: "string list option"
  tm_assets :: "asset list option"
  tm_service_name :: "string option"

definition or_else :: "'a option \<Rightarrow> 'a option \<Rightarrow> 'a option" where
  "or_else x y = (case x of Some v \<Rightarrow> Some v | None \<Rightarrow> y)"

definition message_effective_version :: "(string \<Rightarrow> string option) \<Rightarrow> tool_installation_message \<Rightarrow> string" where
  "message_effective_version override m = unwrap_or (override (tm_tool_id m)) (tm_version m)"

definition asset_original_version :: "asset \<Rightarrow> string" where
  "asset_original_version a = unwrap_or (at_version a) []"

definition asset_effective_version :: "(string \<Rightarrow> string option) \<Rightarrow> asset \<Rightarrow> string" where
  "asset_effective_version override a = unwrap_or (override (at_id a)) (asset_original_version a)"

definition filename_matches_os :: "platform \<Rightarrow> local_filename_config \<Rightarrow> bool" where
  "filename_matches_os p c = eq_ignore_ascii_case (lf_os c) (os_name p)"


section \<open>State and environment\<close>

datatype install_point = RemoveReinstalled | RemoveOrbit | CreateToolDir | RemoveStale | RecreateToolDir

datatype install_error =
    LookupFailed io_error
  | DirFailed install_point
  | NoConfigForOs
  | ServiceNotClear
  | DownloadFailed download_error
  | ArtifactFailed
  | WriteFailed string
  | MissingExecutablePath
  | MissingServiceName
  | NoFilenameForOs
  | NoAssetPath
  | UrlFailed
  | ToolApiFailed
  | NoAssetConfigurations
  | MachineIdFailed io_error
  | AnnounceFailed
  | InstallArgsFailed
  | InstallCommandFailed command_outcome
  | ServiceNotRunning
  | SaveFailed io_error
  | RunFailed run_error

text \<open>What the installation and the update of tools do outside the files.\<close>

datatype install_event =
    UninstallCommandRun string
  | ToolDirRemoved string
  | OrbitRemoved
  | InstallCommandRun string "string list"
  | AssetSaved string string
  | Announced string string
  | AutorunRegistered string
  | InstallAcked string
  | AsideKept string
  | ServiceStartAttempt string bool
  | PreferencesSet string "(string \<times> string) list"
  | AppLaunched string "string list"
  | UpdateAcked string

text \<open>Writing a file creates it first; the write may be cut, and then making it executable may fail.\<close>

datatype file_outcome = Written | NotCreated | CutAfter nat | PermissionsFailed

record install_env =
  ie_ops :: op_env
  ie_params :: param_env
  ie_download :: download_env
  ie_state_io :: io_env
  ie_conn_io :: io_env
  ie_machine :: "(io_error, string) result"
  ie_override :: "string \<Rightarrow> string option"
  ie_uninstall_command :: command_outcome
  ie_install_command :: command_outcome
  ie_dir_ok :: "install_point \<Rightarrow> bool"
  ie_orbit_dir :: string
  ie_service_clear :: bool
  ie_service_up :: bool
  ie_artifact :: "string \<Rightarrow> string option"
  ie_tool_api :: "string \<Rightarrow> string \<Rightarrow> string option"
  ie_write :: "string \<Rightarrow> file_outcome"
  ie_announce_ok :: "string \<Rightarrow> bool"

record install_state =
  ns_ops :: op_state
  ns_conn :: conn_manager
  ns_download :: download_state
  ns_files :: "string \<rightharpoonup> string"
  ns_events :: "install_event list"

abbreviation install_platform :: "install_env \<Rightarrow> platform" where
  "install_platform E \<equiv> re_platform (oe_run (ie_ops E))"

abbreviation ns_rm :: "install_state \<Rightarrow> run_manager" where "ns_rm s \<equiv> os_rm (ns_ops s)"

definition on_ops :: "(op_state \<Rightarrow> op_state) \<Rightarrow> install_state \<Rightarrow> install_state" where
  "on_ops f s = s \<lparr> ns_ops := f (ns_ops s) \<rparr>"

definition record_ev :: "install_event \<Rightarrow> install_state \<Rightarrow> install_state" where
  "record_ev e s = s \<lparr> ns_events := ns_events s @ [e] \<rparr>"

text \<open>Stopping processes where a failure is only logged.\<close>

definition try_kill ::
  "(kill_state \<Rightarrow> (kill_error, unit) result \<times> kill_state) \<Rightarrow> install_state \<Rightarrow> install_state" where
  "try_kill f s = on_ops (\<lambda>o1. snd (with_kill f o1)) s"

definition try_set_installing :: "install_env \<Rightarrow> string \<Rightarrow> install_state \<Rightarrow> install_state" where
  "try_set_installing E i s =
    on_ops (on_rm (\<lambda>rm. rm \<lparr> rm_tools :=
      snd (tools_set_state (ie_state_io E) i Installing (rm_tools rm)) \<rparr>)) s"

definition dir_step ::
  "install_env \<Rightarrow> install_point \<Rightarrow> (install_state \<Rightarrow> install_state) \<Rightarrow> install_state \<Rightarrow>
   (install_error, unit) result \<times> install_state" where
  "dir_step E p f s = (if ie_dir_ok E p then (Ok (), f s) else (Err (DirFailed p), s))"

definition inside :: "install_env \<Rightarrow> string \<Rightarrow> string \<Rightarrow> bool" where
  "inside E dir p = (let d = join_path (ie_ops E) dir [] in take (length d) p = d)"

definition remove_dir :: "install_env \<Rightarrow> string \<Rightarrow> install_state \<Rightarrow> install_state" where
  "remove_dir E dir s =
    record_ev (ToolDirRemoved dir)
      (s \<lparr> ns_files := (\<lambda>p. if inside E dir p then None else ns_files s p) \<rparr>)"

definition write_file ::
  "install_env \<Rightarrow> bool \<Rightarrow> string \<Rightarrow> string \<Rightarrow> install_state \<Rightarrow>
   (install_error, unit) result \<times> install_state" where
  "write_file E executable path bytes s =
    (let put = (\<lambda>content. s \<lparr> ns_files := (ns_files s)(path \<mapsto> content) \<rparr>) in
     case ie_write E path of
       Written \<Rightarrow> (Ok (), put bytes)
     | NotCreated \<Rightarrow> (Err (WriteFailed path), s)
     | CutAfter n \<Rightarrow> (Err (WriteFailed path), put (take n bytes))
     | PermissionsFailed \<Rightarrow>
         (if executable \<and> install_platform E \<noteq> Windows then Err (WriteFailed path) else Ok (), put bytes))"

definition with_download ::
  "(download_state \<Rightarrow> (download_error, 'a) result \<times> download_state) \<Rightarrow> install_state \<Rightarrow>
   (install_error, 'a) result \<times> install_state" where
  "with_download f s =
    (case f (ns_download s) of (r, d) \<Rightarrow> map_err DownloadFailed (r, s \<lparr> ns_download := d \<rparr>))"

definition lift :: "(install_error, 'a) result \<Rightarrow> install_state \<Rightarrow> (install_error, 'a) result \<times> install_state" where
  "lift r s = (r, s)"


section \<open>Clearing what was there\<close>

definition uninstall_before_reinstall :: "install_env \<Rightarrow> installed_tool \<Rightarrow> install_state \<Rightarrow> install_state" where
  "uninstall_before_reinstall E tool s =
    (let args = unwrap_or (it_uninstallation_command_args tool) [];
         agent_path = tool_executable (ie_ops E) tool in
     if args = [] \<or> \<not> oe_exists (ie_ops E) agent_path
       \<or> process_params (ie_params E) (tool_name tool) args = None then s
     else try_kill (stop_tool_by_path (oe_kill (ie_ops E)) agent_path)
       (if ie_uninstall_command E = SpawnError then s
        else record_ev (UninstallCommandRun (tool_name tool)) s))"

definition reinstall_cleanup ::
  "install_env \<Rightarrow> installed_tool \<Rightarrow> install_state \<Rightarrow> (install_error, unit) result \<times> install_state" where
  "reinstall_cleanup E tool s =
    (let i = tool_name tool; folder = get_tool_folder (ie_ops E) i; K = oe_kill (ie_ops E);
         s1 = try_set_installing E i s;
         s2 = try_kill (stop_installed_tool K tool True) s1;
         s3 = uninstall_before_reinstall E tool s2;
         s4 = try_kill (stop_tool_by_path K folder) s3 in
     and_do (dir_step E RemoveReinstalled (remove_dir E folder) s4) (\<lambda>_ s5.
       (Ok (), s5 \<lparr> ns_conn := (ns_conn s5) \<lparr> cg_connections :=
          snd (connections_delete (ie_conn_io E) i (cg_connections (ns_conn s5))) \<rparr> \<rparr>)))"

text \<open>What to do about an existing record: None when the tool is there and nothing is to be done,
  otherwise whether its directory has been cleared.\<close>

definition check_existing ::
  "install_env \<Rightarrow> tool_installation_message \<Rightarrow> install_state \<Rightarrow>
   (install_error, bool option) result \<times> install_state" where
  "check_existing E m s =
    (let i = tm_tool_agent_id m in
     case tools_get_by_tool_agent_id (oe_read (ie_ops E)) i (rm_tools (ns_rm s)) of
       Inl e \<Rightarrow> (Err (LookupFailed e), s)
     | Inr None \<Rightarrow> (Ok (Some False), s)
     | Inr (Some tool) \<Rightarrow>
         if tm_reinstall m then
           and_do (reinstall_cleanup E tool s) (\<lambda>_ s1. (Ok (Some True), s1))
         else if re_binary_present (oe_run (ie_ops E)) (tool_executable (ie_ops E) tool)
         then (Ok None, s)
         else (Ok (Some False), try_set_installing E i s))"

definition fleet_cleanup :: "install_env \<Rightarrow> tool_installation_message \<Rightarrow> install_state \<Rightarrow> install_state" where
  "fleet_cleanup E m s =
    (let i = tm_tool_agent_id m; K = oe_kill (ie_ops E) in
     if tm_reinstall m \<and> contains_fleet (ie_ops E) i then
       (let s1 = try_kill (stop_asset K ''osqueryd'' i) s in
        if oe_exists (ie_ops E) (ie_orbit_dir E) then
          (let s2 = try_kill (stop_tool_by_path K (ie_orbit_dir E)) s1 in
           if ie_dir_ok E RemoveOrbit then record_ev OrbitRemoved s2 else s2)
        else s1)
     else s)"

definition resolve_config ::
  "install_env \<Rightarrow> tool_installation_message \<Rightarrow> (install_error, download_configuration option) result" where
  "resolve_config E m =
    (case tm_download_configurations m of
       None \<Rightarrow> Ok None
     | Some configs \<Rightarrow>
         (case find_config_for_current_os (ie_download E) configs of
            Inl e \<Rightarrow> Err NoConfigForOs
          | Inr c \<Rightarrow> Ok (Some (with_version_override (tm_version m)
                        (message_effective_version (ie_override E) m) c))))"

definition config_type :: "download_configuration option \<Rightarrow> installation_type" where
  "config_type c = (case c of None \<Rightarrow> StandardType | Some c \<Rightarrow> dc_installation_type c)"

definition agent_path :: "install_env \<Rightarrow> string \<Rightarrow> string" where
  "agent_path E i = get_tool_executable_path (ie_ops E) i None"

definition stop_installation ::
  "install_env \<Rightarrow> tool_installation_message \<Rightarrow> download_configuration option \<Rightarrow> installation option" where
  "stop_installation E m c =
    (let path = agent_path E (tm_tool_agent_id m) in
     case config_type c of
       ServiceType \<Rightarrow>
         map_option (\<lambda>name. Service name (Some path))
           (or_else (Option.bind c dc_service_name) (tm_service_name m))
     | GuiAppType \<Rightarrow> Some (GuiApp path (Option.bind c dc_bundle_id))
     | StandardType \<Rightarrow> Some (Standard (Some path)))"

definition stop_leftovers :: "install_env \<Rightarrow> string \<Rightarrow> installation option \<Rightarrow> install_state \<Rightarrow> install_state" where
  "stop_leftovers E i inst s =
    (let K = oe_kill (ie_ops E);
         s1 = (case inst of Some x \<Rightarrow> try_kill (stop_for_installation K i x True) s | None \<Rightarrow> s) in
     case inst of
       Some (Standard _) \<Rightarrow> s1
     | _ \<Rightarrow> try_kill (stop_tool K i) s1)"

definition service_clear_for_install :: "install_env \<Rightarrow> bool" where
  "service_clear_for_install E = (install_platform E = Windows \<longrightarrow> ie_service_clear E)"

definition check_service_clear ::
  "install_env \<Rightarrow> installation option \<Rightarrow> install_state \<Rightarrow> (install_error, unit) result \<times> install_state" where
  "check_service_clear E inst s =
    (case inst of
       Some (Service _ _) \<Rightarrow> if service_clear_for_install E then (Ok (), s) else (Err ServiceNotClear, s)
     | _ \<Rightarrow> (Ok (), s))"

definition clear_stale_dir ::
  "install_env \<Rightarrow> tool_installation_message \<Rightarrow> bool \<Rightarrow> install_state \<Rightarrow>
   (install_error, unit) result \<times> install_state" where
  "clear_stale_dir E m cleared s =
    (let folder = get_tool_folder (ie_ops E) (tm_tool_agent_id m) in
     if tm_reinstall m \<and> \<not> cleared \<and> oe_exists (ie_ops E) folder then
       and_do (dir_step E RemoveStale (remove_dir E folder) s) (\<lambda>_ s1. dir_step E RecreateToolDir id s1)
     else (Ok (), s))"

section \<open>Downloading the tool and its assets\<close>

definition install_gui_app ::
  "install_env \<Rightarrow> download_configuration \<Rightarrow> string \<Rightarrow> install_state \<Rightarrow>
   (install_error, string option) result \<times> install_state" where
  "install_gui_app E c i s =
    (let folder = get_tool_folder (ie_ops E) i; default_agent = agent_path E i in
     if install_platform E = MacOS then
       and_do (with_download (download_and_save (ie_download E) c ''/Applications'' ''/Applications/dummy'') s)
         (\<lambda>_ s1. (Ok (Some (path_join ''/Applications'' (dc_target_file_name c))), s1))
     else
       and_do (with_download (download_and_save (ie_download E) c folder default_agent) s)
         (\<lambda>rel s1. (Ok (Some (case rel of Some r \<Rightarrow> join_path (ie_ops E) folder r
                                        | None \<Rightarrow> default_agent)), s1)))"

definition install_from_download_config ::
  "install_env \<Rightarrow> download_configuration \<Rightarrow> string \<Rightarrow> install_state \<Rightarrow>
   (install_error, string option) result \<times> install_state" where
  "install_from_download_config E c i s =
    (case dc_installation_type c of
       GuiAppType \<Rightarrow> install_gui_app E c i s
     | _ \<Rightarrow> with_download (download_and_save (ie_download E) c (get_tool_folder (ie_ops E) i) (agent_path E i)) s)"

definition download_from_artifactory ::
  "install_env \<Rightarrow> string \<Rightarrow> install_state \<Rightarrow> (install_error, unit) result \<times> install_state" where
  "download_from_artifactory E i s =
    (if ns_files s (agent_path E i) \<noteq> None then (Ok (), s)
     else case ie_artifact E i of
         None \<Rightarrow> (Err ArtifactFailed, s)
       | Some bytes \<Rightarrow> write_file E True (agent_path E i) bytes s)"

definition resolve_executable_path :: "install_env \<Rightarrow> string \<Rightarrow> string option \<Rightarrow> installation_type \<Rightarrow> string" where
  "resolve_executable_path E i path ty =
    (case ty of
       GuiAppType \<Rightarrow> unwrap_or path []
     | _ \<Rightarrow> get_tool_executable_path (ie_ops E) i path)"

definition build_installation ::
  "installation_type \<Rightarrow> string option \<Rightarrow> string option \<Rightarrow> string option \<Rightarrow> (install_error, installation) result" where
  "build_installation ty path bundle_id service_name =
    (case ty of
       StandardType \<Rightarrow> Ok (Standard path)
     | GuiAppType \<Rightarrow>
         (case path of None \<Rightarrow> Err MissingExecutablePath | Some p \<Rightarrow> Ok (GuiApp p bundle_id))
     | ServiceType \<Rightarrow>
         (case service_name of None \<Rightarrow> Err MissingServiceName | Some n \<Rightarrow> Ok (Service n path)))"

definition install_binary ::
  "install_env \<Rightarrow> tool_installation_message \<Rightarrow> download_configuration option \<Rightarrow> install_state \<Rightarrow>
   (install_error, installation) result \<times> install_state" where
  "install_binary E m config s =
    (let i = tm_tool_agent_id m in
     and_do
       (case config of
          Some c \<Rightarrow> install_from_download_config E c i s
        | None \<Rightarrow> and_do (download_from_artifactory E i s) (\<lambda>_ s1. (Ok None, s1)))
       (\<lambda>path s1. lift (build_installation (config_type config)
            (Some (resolve_executable_path E i path (config_type config)))
            (Option.bind config dc_bundle_id)
            (or_else (Option.bind config dc_service_name) (tm_service_name m))) s1))"

definition asset_bytes ::
  "install_env \<Rightarrow> tool_installation_message \<Rightarrow> asset \<Rightarrow> install_state \<Rightarrow>
   (install_error, string) result \<times> install_state" where
  "asset_bytes E m a s =
    (case at_source a of
       Artifactory \<Rightarrow>
         (case ie_artifact E (at_id a) of None \<Rightarrow> (Err ArtifactFailed, s) | Some b \<Rightarrow> (Ok b, s))
     | ToolApi \<Rightarrow>
         (case at_path a of
            None \<Rightarrow> (Err NoAssetPath, s)
          | Some path \<Rightarrow>
              (case process_url (ie_params E) path of
                 None \<Rightarrow> (Err UrlFailed, s)
               | Some url \<Rightarrow>
                   (case ie_tool_api E (tm_tool_id m) url of
                      None \<Rightarrow> (Err ToolApiFailed, s) | Some b \<Rightarrow> (Ok b, s))))
     | Github \<Rightarrow>
         (case at_download_configurations a of
            None \<Rightarrow> (Err NoAssetConfigurations, s)
          | Some configs \<Rightarrow>
              (case find_config_for_current_os (ie_download E) configs of
                 Inl e \<Rightarrow> (Err NoConfigForOs, s)
               | Inr c \<Rightarrow> with_download (download_and_extract (ie_download E)
                   (with_version_override (asset_original_version a)
                      (asset_effective_version (ie_override E) a) c)) s)))"

text \<open>Telling the backend which version of an agent or asset is installed.\<close>

definition announce ::
  "install_env \<Rightarrow> string \<Rightarrow> string \<Rightarrow> install_state \<Rightarrow> (install_error, unit) result \<times> install_state" where
  "announce E i version s =
    (case ie_machine E of
       Inl e \<Rightarrow> (Err (MachineIdFailed e), s)
     | Inr machine_id \<Rightarrow>
         if ie_announce_ok E i then (Ok (), record_ev (Announced i version) s) else (Err AnnounceFailed, s))"

definition asset_file :: "install_env \<Rightarrow> tool_installation_message \<Rightarrow> asset \<Rightarrow> string option" where
  "asset_file E m a =
    map_option (\<lambda>c. get_asset_path (ie_ops E) (tm_tool_agent_id m) (lf_filename c) (at_executable a))
      (find (filename_matches_os (install_platform E)) (at_local_filename_configuration a))"

definition fetch_asset ::
  "install_env \<Rightarrow> tool_installation_message \<Rightarrow> asset \<Rightarrow> string \<Rightarrow> install_state \<Rightarrow>
   (install_error, unit) result \<times> install_state" where
  "fetch_asset E m a path s =
    (let s1 = (if at_executable a
               then try_kill (stop_asset (oe_kill (ie_ops E)) (at_id a) (tm_tool_agent_id m)) s else s) in
     and_do (asset_bytes E m a s1) (\<lambda>bytes s2.
     and_do (write_file E (at_executable a) path bytes s2) (\<lambda>_ s3.
       (Ok (), record_ev (AssetSaved (at_id a) path) s3))))"

definition install_asset ::
  "install_env \<Rightarrow> tool_installation_message \<Rightarrow> asset \<Rightarrow> install_state \<Rightarrow>
   (install_error, unit) result \<times> install_state" where
  "install_asset E m a s =
    (case asset_file E m a of
       None \<Rightarrow> (Err NoFilenameForOs, s)
     | Some path \<Rightarrow>
         and_do
           (if ns_files s path = None \<or> (tm_reinstall m \<and> at_source a = ToolApi)
            then fetch_asset E m a path s else (Ok (), s))
           (\<lambda>_ s1. if at_executable a then
                (case at_version a of
                   None \<Rightarrow> (Ok (), s1)
                 | Some version \<Rightarrow> announce E (at_id a) version s1)
              else (Ok (), s1)))"

fun install_assets ::
  "install_env \<Rightarrow> tool_installation_message \<Rightarrow> asset list \<Rightarrow> install_state \<Rightarrow>
   (install_error, unit) result \<times> install_state" where
  "install_assets E m [] s = (Ok (), s)"
| "install_assets E m (a # as) s = and_do (install_asset E m a s) (\<lambda>_. install_assets E m as)"


section \<open>The command, the record and the start\<close>

definition run_install_command ::
  "install_env \<Rightarrow> tool_installation_message \<Rightarrow> installation \<Rightarrow> install_state \<Rightarrow>
   (install_error, unit) result \<times> install_state" where
  "run_install_command E m inst s =
    (case tm_installation_command_args m of
       None \<Rightarrow> (Ok (), s)
     | Some args \<Rightarrow>
         (case process_params (ie_params E) (tm_tool_agent_id m) args of
            None \<Rightarrow> (Err InstallArgsFailed, s)
          | Some processed \<Rightarrow>
              (let s1 = try_kill (stop_tool (oe_kill (ie_ops E)) (tm_tool_agent_id m)) s;
                   s2 = (if ie_install_command E = SpawnError then s1
                         else record_ev (InstallCommandRun (unwrap_or (executable_path inst) []) processed) s1) in
               if ie_install_command E = ExitSuccess then (Ok (), s2)
               else (Err (InstallCommandFailed (ie_install_command E)), s2))))"

definition verify_service_running :: "install_env \<Rightarrow> bool" where
  "verify_service_running E = (install_platform E = Windows \<longrightarrow> ie_service_up E)"

definition check_service_running ::
  "install_env \<Rightarrow> installation \<Rightarrow> install_state \<Rightarrow> (install_error, unit) result \<times> install_state" where
  "check_service_running E inst s =
    (case inst of
       Service _ _ \<Rightarrow> if verify_service_running E then (Ok (), s) else (Err ServiceNotRunning, s)
     | _ \<Rightarrow> (Ok (), s))"

definition new_record :: "tool_installation_message \<Rightarrow> installation \<Rightarrow> installed_tool" where
  "new_record m inst =
    \<lparr> it_tool_agent_id = tm_tool_agent_id m, it_tool_id = tm_tool_id m, it_tool_type = tm_tool_type m,
      it_version = tm_version m, it_run_command_args = tm_run_command_args m,
      it_tool_agent_id_command_args = unwrap_or (tm_tool_agent_id_command_args m) [],
      it_uninstallation_command_args = tm_uninstallation_command_args m,
      it_installation = inst, it_assets = [], it_state = Installed \<rparr>"

definition save_record ::
  "install_env \<Rightarrow> installed_tool \<Rightarrow> install_state \<Rightarrow> (install_error, unit) result \<times> install_state" where
  "save_record E tool s =
    (case tools_save (oe_write (ie_ops E)) tool (rm_tools (ns_rm s)) of
       (Inl e, f) \<Rightarrow> (Err (SaveFailed e), s)
     | (Inr _, f) \<Rightarrow>
         (Ok (), let s1 = on_ops (on_rm (\<lambda>rm. rm \<lparr> rm_tools := f \<rparr>)) s in
            if install_platform E = Windows \<and> is_gui_app (it_installation tool)
            then record_ev (AutorunRegistered (tool_name tool)) s1 else s1))"

definition start_installed ::
  "install_env \<Rightarrow> installed_tool \<Rightarrow> install_state \<Rightarrow> (install_error, unit) result \<times> install_state" where
  "start_installed E tool s =
    (case run_new_tool (oe_run (ie_ops E)) tool (ns_rm s) of
       (Inl e, rm) \<Rightarrow> (Err (RunFailed e), on_ops (on_rm (\<lambda>_. rm)) s)
     | (Inr _, rm) \<Rightarrow>
         (let s1 = on_ops (on_rm (\<lambda>_. rm)) s;
              s2 = s1 \<lparr> ns_conn := conn_run_new_tool tool (ns_conn s1) \<rparr> in
          (Ok (), snd (announce E (tool_name tool) (it_version tool) s2))))"

definition install_onto ::
  "install_env \<Rightarrow> tool_installation_message \<Rightarrow> bool \<Rightarrow> download_configuration option \<Rightarrow> install_state \<Rightarrow>
   (install_error, unit) result \<times> install_state" where
  "install_onto E m cleared config s =
    (let inst = stop_installation E m config in
     and_do (check_service_clear E inst (stop_leftovers E (tm_tool_agent_id m) inst s)) (\<lambda>_ s1.
     and_do (clear_stale_dir E m cleared s1) (\<lambda>_ s2.
     and_do (install_binary E m config s2) (\<lambda>installation s3.
     and_do (install_assets E m (unwrap_or (tm_assets m) []) s3) (\<lambda>_ s4.
     and_do (run_install_command E m installation s4) (\<lambda>_ s5.
     and_do (check_service_running E installation s5) (\<lambda>_ s6.
     and_do (save_record E (new_record m installation) s6) (\<lambda>_ s7.
       start_installed E (new_record m installation) s7))))))))"

definition install_inner ::
  "install_env \<Rightarrow> tool_installation_message \<Rightarrow> install_state \<Rightarrow> (install_error, unit) result \<times> install_state" where
  "install_inner E m s =
    and_do (check_existing E m s) (\<lambda>todo s1.
      case todo of
        None \<Rightarrow> (Ok (), s1)
      | Some cleared \<Rightarrow>
          and_do (dir_step E CreateToolDir id (fleet_cleanup E m s1)) (\<lambda>_ s2.
          and_do (lift (resolve_config E m) s2) (\<lambda>config. install_onto E m cleared config)))"

definition install ::
  "install_env \<Rightarrow> tool_installation_message \<Rightarrow> install_state \<Rightarrow> (install_error, unit) result \<times> install_state" where
  "install E m s =
    (let i = tm_tool_agent_id m;
         (k, rm) = tool_lock i (ns_rm s);
         s1 = on_ops (\<lambda>o1. on_rm (mark_updating i) (lock k (on_rm (\<lambda>_. rm) o1))) s;
         (r, s2) = install_inner E m s1 in
     (r, on_ops (\<lambda>o1. unlock k (on_rm (clear_updating i) o1)) s2))"

definition install_dispatch :: "install_env \<Rightarrow> tool_installation_message \<Rightarrow> install_state \<Rightarrow> install_state" where
  "install_dispatch E m s =
    (case install E m s of
       (Inl e, s1) \<Rightarrow> s1
     | (Inr _, s1) \<Rightarrow> record_ev (InstallAcked (tm_tool_agent_id m)) s1)"

section \<open>What the steps keep\<close>

text \<open>A reflexive and transitive relation kept by the primitive effects is kept by the operations made of
  them; the larger interface also allows a directory to be removed.\<close>

locale kept_by_writing =
  fixes keeps :: "install_state \<Rightarrow> install_state \<Rightarrow> bool"
  assumes keeps_refl: "keeps s s"
    and keeps_trans: "keeps s t \<Longrightarrow> keeps t u \<Longrightarrow> keeps s u"
    and keeps_kill: "keeps s (try_kill f s)"
    and keeps_event: "keeps s (record_ev e s)"
    and keeps_download: "keeps s (s \<lparr> ns_download := d \<rparr>)"
    and keeps_put: "keeps s (s \<lparr> ns_files := (ns_files s)(p \<mapsto> b) \<rparr>)"
begin

lemma then_keeps:
  "keeps s (snd r) \<Longrightarrow> (\<And>x t. r = (Ok x, t) \<Longrightarrow> keeps t (snd (f x t))) \<Longrightarrow> keeps s (snd (and_do r f))"
  by (cases r; cases "fst r") (auto simp: and_do_def intro: keeps_trans)

lemma download_keeps: "keeps s (snd (with_download f s))"
  by (auto simp: with_download_def keeps_download split: prod.split)

lemma write_keeps: "keeps s (snd (write_file E x p b s))"
  by (auto simp: write_file_def keeps_put keeps_refl split: file_outcome.split)

lemma lift_keeps: "keeps s (snd (lift r s))"
  by (simp add: lift_def keeps_refl)

lemma event_after: "keeps s t \<Longrightarrow> keeps s (record_ev e t)"
  by (blast intro: keeps_trans keeps_event)

lemma install_binary_keeps: "keeps s (snd (install_binary E m c s))"
  unfolding install_binary_def install_from_download_config_def install_gui_app_def
    download_from_artifactory_def Let_def
  by (auto intro!: then_keeps download_keeps write_keeps lift_keeps keeps_refl
      split: option.split installation_type.split)

lemma announce_keeps: "keeps s (snd (announce E i v s))"
  by (auto simp: announce_def keeps_refl keeps_event split: sum.split)

lemma asset_bytes_keeps: "keeps s (snd (asset_bytes E m a s))"
  by (auto simp: asset_bytes_def keeps_refl download_keeps split: asset_source.split option.split sum.split)

lemma fetch_asset_keeps: "keeps s (snd (fetch_asset E m a p s))"
proof -
  have "keeps s (snd (and_do (asset_bytes E m a t) (\<lambda>bytes s2.
      and_do (write_file E (at_executable a) p bytes s2) (\<lambda>_ s3.
        (Ok (), record_ev (AssetSaved (at_id a) p) s3)))))" if "keeps s t" for t
    by (rule keeps_trans[OF that])
      (auto intro!: then_keeps asset_bytes_keeps write_keeps keeps_event)
  then show ?thesis by (simp add: fetch_asset_def Let_def keeps_refl keeps_kill)
qed

lemma install_asset_keeps: "keeps s (snd (install_asset E m a s))"
  by (auto simp: install_asset_def intro!: then_keeps fetch_asset_keeps announce_keeps keeps_refl
      split: option.split)

lemma install_assets_keeps: "keeps s (snd (install_assets E m as s))"
  by (induction as arbitrary: s) (auto intro!: then_keeps install_asset_keeps keeps_refl)

lemma run_install_command_keeps: "keeps s (snd (run_install_command E m inst s))"
proof -
  have "keeps s (record_ev e (try_kill f s))" for e f
    by (blast intro: keeps_trans keeps_kill keeps_event)
  then show ?thesis
    by (auto simp: run_install_command_def Let_def keeps_refl keeps_kill split: option.split)
qed

lemma check_service_running_keeps: "keeps s (snd (check_service_running E inst s))"
  by (auto simp: check_service_running_def keeps_refl split: installation.split)

end

locale kept_by_clearing = kept_by_writing +
  assumes keeps_remove_dir: "keeps s (remove_dir E dir s)"
begin

lemma fleet_cleanup_keeps: "keeps s (fleet_cleanup E m s)"
proof -
  have kill: "keeps s t \<Longrightarrow> keeps s (try_kill f t)" for t f by (blast intro: keeps_trans keeps_kill)
  show ?thesis by (auto simp: fleet_cleanup_def Let_def intro!: event_after kill keeps_refl)
qed

lemma stop_leftovers_keeps: "keeps s (stop_leftovers E i inst s)"
proof -
  have kill: "keeps s t \<Longrightarrow> keeps s (try_kill f t)" for t f by (blast intro: keeps_trans keeps_kill)
  show ?thesis
    by (auto simp: stop_leftovers_def Let_def intro!: kill keeps_refl split: option.split installation.split)
qed

lemma check_service_clear_keeps: "keeps s (snd (check_service_clear E inst s))"
  by (auto simp: check_service_clear_def keeps_refl split: option.split installation.split)

lemma clear_stale_dir_keeps: "keeps s (snd (clear_stale_dir E m c s))"
  by (auto simp: clear_stale_dir_def dir_step_def Let_def keeps_refl keeps_remove_dir)

lemma uninstall_before_reinstall_keeps: "keeps s (uninstall_before_reinstall E tool s)"
proof -
  have "keeps s (try_kill f (record_ev e s))" for e f by (blast intro: keeps_trans keeps_kill keeps_event)
  then show ?thesis by (simp add: uninstall_before_reinstall_def Let_def keeps_refl keeps_kill)
qed

end

text \<open>Everything up to saving the record leaves the registry, the marks, the locks and the connection
  loops alone; and writing never makes a file disappear.\<close>

definition same_books :: "install_state \<Rightarrow> install_state \<Rightarrow> bool" where
  "same_books s t \<longleftrightarrow> same_rm (ns_ops s) (ns_ops t) \<and> ns_conn t = ns_conn s"

definition files_kept :: "install_state \<Rightarrow> install_state \<Rightarrow> bool" where
  "files_kept s t \<longleftrightarrow> dom (ns_files s) \<subseteq> dom (ns_files t)"

lemma try_kill_fields [simp]:
  "ns_files (try_kill f s) = ns_files s" "ns_conn (try_kill f s) = ns_conn s"
  "ns_rm (try_kill f s) = ns_rm s" "ns_events (try_kill f s) = ns_events s"
  "ns_download (try_kill f s) = ns_download s"
  using manager.with_kill_keeps[of "ns_ops s" f]
  by (simp_all add: try_kill_def on_ops_def same_rm_def)

lemma record_ev_fields [simp]:
  "ns_files (record_ev e s) = ns_files s" "ns_conn (record_ev e s) = ns_conn s"
  "ns_ops (record_ev e s) = ns_ops s" "ns_download (record_ev e s) = ns_download s"
  by (simp_all add: record_ev_def)

interpretation books: kept_by_clearing same_books
  using manager.with_kill_keeps
  by unfold_locales (auto simp: same_books_def same_rm_def remove_dir_def try_kill_def on_ops_def)

interpretation files: kept_by_writing files_kept
  by unfold_locales (auto simp: files_kept_def)

section \<open>The outcome of an installation\<close>

lemma and_do_cases:
  assumes "and_do r f = (x, t)"
  obtains (stop) e where "r = (Err e, t)" "x = Err e"
    | (go) y u where "r = (Ok y, u)" "f y u = (x, t)"
  using assms by (cases r; cases "fst r") (auto simp: and_do_def)

definition asset_present :: "install_env \<Rightarrow> tool_installation_message \<Rightarrow> install_state \<Rightarrow> asset \<Rightarrow> bool" where
  "asset_present E m s a \<longleftrightarrow> (\<exists>p. asset_file E m a = Some p \<and> p \<in> dom (ns_files s))"

lemma write_file_present: "write_file E x p b s = (Ok (), t) \<Longrightarrow> p \<in> dom (ns_files t)"
  by (auto simp: write_file_def Let_def split: file_outcome.splits if_splits)

lemma fetch_asset_present: "fetch_asset E m a p s = (Ok (), t) \<Longrightarrow> p \<in> dom (ns_files t)"
  unfolding fetch_asset_def Let_def
  by (elim and_do_cases) (auto dest: write_file_present)

lemma install_asset_present:
  assumes "install_asset E m a s = (Ok (), t)"
  shows "asset_present E m t a"
proof -
  obtain p where p: "asset_file E m a = Some p"
    using assms by (auto simp: install_asset_def split: option.splits)
  let ?r = "if ns_files s p = None \<or> (tm_reinstall m \<and> at_source a = ToolApi)
            then fetch_asset E m a p s else (Ok (), s)"
  have "and_do ?r (\<lambda>_ s1. if at_executable a then
                (case at_version a of
                   None \<Rightarrow> (Ok (), s1)
                 | Some version \<Rightarrow> announce E (at_id a) version s1)
              else (Ok (), s1)) = (Ok (), t)"
    using assms p by (simp add: install_asset_def)
  then obtain u where u: "?r = (Ok (), u)"
      "(if at_executable a then
                (case at_version a of
                   None \<Rightarrow> (Ok (), u)
                 | Some version \<Rightarrow> announce E (at_id a) version u)
              else (Ok (), u)) = (Ok (), t)"
    by (elim and_do_cases) auto
  have "p \<in> dom (ns_files u)" using u(1) by (auto split: if_splits dest: fetch_asset_present)
  moreover have "files_kept u t"
  proof (cases "at_executable a \<and> at_version a \<noteq> None")
    case True
    then obtain v where "announce E (at_id a) v u = (Ok (), t)" using u(2) by auto
    then show ?thesis using files.announce_keeps[of u E "at_id a" v] by simp
  next
    case False
    then show ?thesis using u(2) files.keeps_refl by (auto split: if_splits)
  qed
  ultimately show ?thesis using p unfolding asset_present_def files_kept_def by blast
qed

lemma asset_present_kept: "files_kept s t \<Longrightarrow> asset_present E m s a \<Longrightarrow> asset_present E m t a"
  unfolding asset_present_def files_kept_def by blast

lemma install_assets_present:
  "install_assets E m as s = (Ok (), t) \<Longrightarrow> a \<in> set as \<Longrightarrow> asset_present E m t a"
proof (induction as arbitrary: s)
  case (Cons b as)
  from Cons.prems(1) obtain u where u: "install_asset E m b s = (Ok (), u)"
      "install_assets E m as u = (Ok (), t)"
    by (auto elim: and_do_cases)
  have "files_kept u t" using files.install_assets_keeps[of u E m as] u(2) by simp
  then show ?case
    using Cons.IH[OF u(2)] Cons.prems(2) install_asset_present[OF u(1)] asset_present_kept by auto
qed simp

text \<open>Saving and starting, after everything else has succeeded.\<close>

definition saved_as :: "tool_installation_message \<Rightarrow> installation \<Rightarrow> install_state \<Rightarrow> install_state \<Rightarrow> bool" where
  "saved_as m inst s t \<longleftrightarrow>
     registry (rm_tools (ns_rm t)) = (registry (rm_tools (ns_rm s)))(tm_tool_agent_id m \<mapsto> new_record m inst)"

definition locks_kept :: "install_state \<Rightarrow> install_state \<Rightarrow> bool" where
  "locks_kept s t \<longleftrightarrow> os_locked (ns_ops t) = os_locked (ns_ops s) \<and>
     os_dropped (ns_ops t) = os_dropped (ns_ops s) \<and>
     rm_updating (ns_rm t) = rm_updating (ns_rm s) \<and> rm_tool_locks (ns_rm t) = rm_tool_locks (ns_rm s)"

lemma books_locks: "same_books s t \<Longrightarrow> locks_kept s t"
  by (simp add: same_books_def same_rm_def locks_kept_def)

lemma locks_trans: "locks_kept s t \<Longrightarrow> locks_kept t u \<Longrightarrow> locks_kept s u"
  by (simp add: locks_kept_def)

lemma save_record_cases:
  assumes "save_record E (new_record m inst) s = (r, t)"
  shows "(\<exists>e. r = Err e \<and> t = s) \<or>
    (r = Ok () \<and> saved_as m inst s t \<and> locks_kept s t \<and> ns_files t = ns_files s \<and> ns_conn t = ns_conn s)"
proof -
  obtain q f where f: "tools_save (oe_write (ie_ops E)) (new_record m inst) (rm_tools (ns_rm s)) = (q, f)"
    by fastforce
  have k: "it_tool_agent_id (new_record m inst) = tm_tool_agent_id m" by (simp add: new_record_def)
  show ?thesis
  proof (cases q)
    case (Inl e)
    then show ?thesis using assms f by (auto simp: save_record_def)
  next
    case (Inr u)
    have ev: "ns_ops (if P then record_ev e v else v) = ns_ops v \<and>
        ns_files (if P then record_ev e v else v) = ns_files v \<and>
        ns_conn (if P then record_ev e v else v) = ns_conn v" for P e v
      by simp
    have "r = Ok () \<and> ns_ops t = (ns_ops s) \<lparr> os_rm := (ns_rm s) \<lparr> rm_tools := f \<rparr> \<rparr> \<and>
        ns_files t = ns_files s \<and> ns_conn t = ns_conn s"
      using assms f Inr ev by (auto simp: save_record_def on_ops_def on_rm_def Let_def)
    then show ?thesis
      using tools_save_map(1)[OF f] k Inr by (simp add: saved_as_def locks_kept_def)
  qed
qed

lemma start_installed_frame:
  assumes "start_installed E tool s = (r, t)"
  shows "r = Ok () \<or> (\<exists>e. r = Err (RunFailed e))" "rm_tools (ns_rm t) = rm_tools (ns_rm s)"
    "locks_kept s t" "ns_files t = ns_files s"
proof -
  obtain q rm where rm: "run_new_tool (oe_run (ie_ops E)) tool (ns_rm s) = (q, rm)" by fastforce
  note frame = run_new_tool_frame(1-3)[OF rm]
  have ann: "ns_ops (snd (announce E i v u)) = ns_ops u \<and> ns_files (snd (announce E i v u)) = ns_files u"
    for i v u by (simp add: announce_def split: sum.split)
  show "r = Ok () \<or> (\<exists>e. r = Err (RunFailed e))" "rm_tools (ns_rm t) = rm_tools (ns_rm s)"
    "locks_kept s t" "ns_files t = ns_files s"
    using assms rm frame ann
    by (cases q; auto simp: start_installed_def Let_def on_ops_def on_rm_def locks_kept_def)+
qed

text \<open>From the installation command to the end.\<close>

lemma install_tail_cases:
  assumes "and_do (run_install_command E m inst s4) (\<lambda>_ s5.
     and_do (check_service_running E inst s5) (\<lambda>_ s6.
     and_do (save_record E (new_record m inst) s6) (\<lambda>_ s7.
       start_installed E (new_record m inst) s7))) = (r, t)"
    and "same_books s s4" "\<forall>a \<in> set as. asset_present E m s4 a"
  shows "(\<exists>e. r = Err e \<and> same_books s t) \<or>
    (\<exists>inst. saved_as m inst s t \<and> locks_kept s t \<and> (\<forall>a \<in> set as. asset_present E m t a) \<and>
       (r = Ok () \<or> (\<exists>e. r = Err (RunFailed e))))"
  using assms(1)
proof (cases rule: and_do_cases)
  case (stop e)
  then show ?thesis
    using books.run_install_command_keeps[of s4 E m inst] assms(2) books.keeps_trans by (metis snd_conv)
next
  case (go y5 s5)
  have b5: "same_books s s5" "files_kept s4 s5"
    using books.run_install_command_keeps[of s4 E m inst] files.run_install_command_keeps[of s4 E m inst]
      go(1) assms(2) books.keeps_trans by (metis snd_conv)+
  from go(2) show ?thesis
  proof (cases rule: and_do_cases)
    case (stop e)
    then show ?thesis
      using books.check_service_running_keeps[of s5 E inst] b5(1) books.keeps_trans by (metis snd_conv)
  next
    case (go y6 s6)
    have b6: "same_books s s6" "files_kept s4 s6"
      using books.check_service_running_keeps[of s5 E inst] files.check_service_running_keeps[of s5 E inst]
        go(1) b5 books.keeps_trans files.keeps_trans by (metis snd_conv)+
    from go(2) show ?thesis
    proof (cases rule: and_do_cases)
      case (stop e)
      then show ?thesis using save_record_cases[of E m inst s6 "Err e" t] b6(1) by auto
    next
      case (go y7 s7)
      have saved: "saved_as m inst s6 s7" "locks_kept s6 s7" "ns_files s7 = ns_files s6"
        using save_record_cases[OF go(1)] by auto
      note frame = start_installed_frame[OF go(2)]
      have "registry (rm_tools (ns_rm s6)) = registry (rm_tools (ns_rm s))"
        using b6(1) by (simp add: same_books_def same_rm_def)
      then have "saved_as m inst s t" using saved(1) frame(2) by (simp add: saved_as_def)
      moreover have "locks_kept s t"
        using books_locks[OF b6(1)] saved(2) frame(3) locks_trans by blast
      moreover have "files_kept s4 t" using b6(2) saved(3) frame(4) by (simp add: files_kept_def)
      ultimately show ?thesis using assms(3) asset_present_kept frame(1) by blast
    qed
  qed
qed

lemma install_onto_cases:
  assumes "install_onto E m c cfg s = (r, t)"
  shows "(\<exists>e. r = Err e \<and> same_books s t) \<or>
    (\<exists>inst. saved_as m inst s t \<and> locks_kept s t \<and>
       (\<forall>a \<in> set (unwrap_or (tm_assets m) []). asset_present E m t a) \<and>
       (r = Ok () \<or> (\<exists>e. r = Err (RunFailed e))))"
proof -
  let ?i = "stop_installation E m cfg" and ?as = "unwrap_or (tm_assets m) []"
  let ?s0 = "stop_leftovers E (tm_tool_agent_id m) ?i s"
  have b0: "same_books s ?s0" by (rule books.stop_leftovers_keeps)
  have failed: ?thesis if "same_books s u" "r = Err e" "t = u" for u e using that by blast
  from assms[unfolded install_onto_def Let_def] show ?thesis
  proof (cases rule: and_do_cases)
    case (stop e)
    then show ?thesis
      using books.check_service_clear_keeps[of ?s0 E ?i] b0 books.keeps_trans failed by (metis snd_conv)
  next
    case (go y1 s1)
    have b1: "same_books s s1"
      using books.check_service_clear_keeps[of ?s0 E ?i] go(1) b0 books.keeps_trans by (metis snd_conv)
    from go(2) show ?thesis
    proof (cases rule: and_do_cases)
      case (stop e)
      then show ?thesis
        using books.clear_stale_dir_keeps[of s1 E m c] b1 books.keeps_trans failed by (metis snd_conv)
    next
      case (go y2 s2)
      have b2: "same_books s s2"
        using books.clear_stale_dir_keeps[of s1 E m c] go(1) b1 books.keeps_trans by (metis snd_conv)
      from go(2) show ?thesis
      proof (cases rule: and_do_cases)
        case (stop e)
        then show ?thesis
          using books.install_binary_keeps[of s2 E m cfg] b2 books.keeps_trans failed by (metis snd_conv)
      next
        case (go inst s3)
        have b3: "same_books s s3"
          using books.install_binary_keeps[of s2 E m cfg] go(1) b2 books.keeps_trans by (metis snd_conv)
        from go(2) show ?thesis
        proof (cases rule: and_do_cases)
          case (stop e)
          then show ?thesis
            using books.install_assets_keeps[of s3 E m ?as] b3 books.keeps_trans failed by (metis snd_conv)
        next
          case (go y4 s4)
          have b4: "same_books s s4"
            using books.install_assets_keeps[of s3 E m ?as] go(1) b3 books.keeps_trans by (metis snd_conv)
          have here: "\<forall>a \<in> set ?as. asset_present E m s4 a"
            using install_assets_present go(1) by fastforce
          from go(2) b4 here show ?thesis by (rule install_tail_cases)
        qed
      qed
    qed
  qed
qed

text \<open>What an existing record becomes before anything is downloaded.\<close>

definition installing :: "installed_tool option \<Rightarrow> installed_tool option" where
  "installing t = map_option (\<lambda>t. t \<lparr> it_state := Installing \<rparr>) t"

definition only_marked :: "string \<Rightarrow> install_state \<Rightarrow> install_state \<Rightarrow> bool" where
  "only_marked i s t \<longleftrightarrow> locks_kept s t \<and>
     (registry (rm_tools (ns_rm t)) = registry (rm_tools (ns_rm s)) \<or>
      registry (rm_tools (ns_rm t)) =
        (registry (rm_tools (ns_rm s)))(i := installing (registry (rm_tools (ns_rm s)) i)))"

lemma only_marked_books: "only_marked i s t \<Longrightarrow> same_books t u \<Longrightarrow> only_marked i s u"
  by (simp add: only_marked_def locks_kept_def same_books_def same_rm_def)

lemma try_set_installing_marks: "only_marked i s (try_set_installing E i s)"
proof -
  obtain r f where f: "tools_set_state (ie_state_io E) i Installing (rm_tools (ns_rm s)) = (r, f)"
    by fastforce
  have "registry f = registry (rm_tools (ns_rm s)) \<or>
      registry f = (registry (rm_tools (ns_rm s)))(i := installing (registry (rm_tools (ns_rm s)) i))"
    using tools_set_state_map(1)[OF f] by (auto simp: installing_def split: if_splits)
  then show ?thesis
    using f by (simp add: try_set_installing_def only_marked_def locks_kept_def on_ops_def on_rm_def)
qed

lemma reinstall_cleanup_marks:
  "only_marked (tool_name tool) s (snd (reinstall_cleanup E tool s))"
proof -
  let ?i = "tool_name tool" and ?K = "oe_kill (ie_ops E)"
  let ?s3 = "uninstall_before_reinstall E tool
      (try_kill (stop_installed_tool ?K tool True) (try_set_installing E ?i s))"
  have "same_books (try_set_installing E ?i s) (try_kill f ?s3)" for f
    by (blast intro: books.keeps_trans books.keeps_kill books.uninstall_before_reinstall_keeps)
  then have b: "only_marked ?i s (try_kill f ?s3)" for f
    using only_marked_books[OF try_set_installing_marks] by blast
  have d: "same_books u (remove_dir E dir u)" for u dir by (rule books.keeps_remove_dir)
  have c: "only_marked ?i s u \<Longrightarrow> only_marked ?i s (u \<lparr> ns_conn := x \<rparr>)" for u x
    by (simp add: only_marked_def locks_kept_def)
  show ?thesis
    using b only_marked_books[OF b d] c
    by (auto simp: reinstall_cleanup_def dir_step_def Let_def)
qed

lemma check_existing_cases:
  assumes "check_existing E m s = (r, t)"
  shows "(\<exists>e. r = Err e \<and> only_marked (tm_tool_agent_id m) s t) \<or>
    (r = Ok None \<and> t = s \<and> \<not> tm_reinstall m \<and>
       (\<exists>tool. registry (rm_tools (ns_rm s)) (tm_tool_agent_id m) = Some tool \<and>
          re_binary_present (oe_run (ie_ops E)) (tool_executable (ie_ops E) tool))) \<or>
    (\<exists>b. r = Ok (Some b) \<and> only_marked (tm_tool_agent_id m) s t)"
proof -
  let ?i = "tm_tool_agent_id m"
  have self: "only_marked ?i s s" by (simp add: only_marked_def locks_kept_def)
  have reg: "registry (rm_tools (ns_rm s)) ?i = q" "\<And>tool. q = Some tool \<Longrightarrow> tool_name tool = ?i"
    if "tools_get_by_tool_agent_id (oe_read (ie_ops E)) ?i (rm_tools (ns_rm s)) = Ok q" for q
    using that tools_get_all_ok
    by (auto simp: tools_get_by_tool_agent_id_def registry_def dest: lookup_key split: sum.splits)
  show ?thesis
  proof (cases "tools_get_by_tool_agent_id (oe_read (ie_ops E)) ?i (rm_tools (ns_rm s))")
    case (Inl e)
    then show ?thesis using assms self by (auto simp: check_existing_def Let_def)
  next
    case (Inr q)
    show ?thesis
    proof (cases q)
      case None
      then show ?thesis using assms Inr self by (auto simp: check_existing_def Let_def)
    next
      case (Some tool)
      show ?thesis
      proof (cases "tm_reinstall m")
        case True
        have "and_do (reinstall_cleanup E tool s) (\<lambda>_ s1. (Ok (Some True), s1)) = (r, t)"
          using assms Inr Some True by (simp add: check_existing_def Let_def)
        then have "((\<exists>e. r = Err e) \<or> r = Ok (Some True)) \<and> t = snd (reinstall_cleanup E tool s)"
          by (cases rule: and_do_cases) auto
        then show ?thesis
          using reinstall_cleanup_marks[of tool s E] reg(2)[OF Inr Some] by auto
      next
        case False
        then show ?thesis
          using assms Inr Some reg[OF Inr] try_set_installing_marks[of ?i s E]
          by (auto simp: check_existing_def Let_def split: if_splits)
      qed
    qed
  qed
qed

lemma install_inner_cases:
  assumes "install_inner E m s = (r, t)"
  defines "i \<equiv> tm_tool_agent_id m"
  shows "(\<exists>e. r = Err e \<and> only_marked i s t) \<or>
    (r = Ok () \<and> t = s \<and> \<not> tm_reinstall m \<and>
       (\<exists>tool. registry (rm_tools (ns_rm s)) i = Some tool \<and>
          re_binary_present (oe_run (ie_ops E)) (tool_executable (ie_ops E) tool))) \<or>
    (\<exists>inst. saved_as m inst s t \<and> locks_kept s t \<and>
       (\<forall>a \<in> set (unwrap_or (tm_assets m) []). asset_present E m t a) \<and>
       (r = Ok () \<or> (\<exists>e. r = Err (RunFailed e))))"
  using assms(1) unfolding install_inner_def
proof (cases rule: and_do_cases)
  case (stop e)
  then show ?thesis using check_existing_cases[of E m s "Err e" t] by (auto simp: i_def)
next
  case (go todo s1)
  show ?thesis
  proof (cases todo)
    case None
    then show ?thesis using go check_existing_cases[OF go(1)] by (auto simp: i_def)
  next
    case (Some b)
    have m1: "only_marked i s s1" using check_existing_cases[OF go(1)] Some by (auto simp: i_def)
    have b2: "same_books s1 (fleet_cleanup E m s1)" by (rule books.fleet_cleanup_keeps)
    from go(2)[unfolded Some option.case] show ?thesis
    proof (cases rule: and_do_cases)
      case (stop e)
      then have "t = fleet_cleanup E m s1" by (auto simp: dir_step_def split: if_splits)
      then show ?thesis using stop(2) only_marked_books[OF m1 b2] by blast
    next
      case (go y s2)
      then have s2: "s2 = fleet_cleanup E m s1" by (auto simp: dir_step_def split: if_splits)
      then have m2: "only_marked i s s2" using only_marked_books[OF m1 b2] by simp
      from go(2) show ?thesis
      proof (cases rule: and_do_cases)
        case (stop e)
        then show ?thesis using m2 by (auto simp: lift_def)
      next
        case (go cfg s3)
        then have "s3 = s2" by (simp add: lift_def)
        then show ?thesis
          using install_onto_cases[OF go(2)] m2 only_marked_books[OF m2]
          by (auto simp: saved_as_def only_marked_def i_def intro: locks_trans)
      qed
    qed
  qed
qed

text \<open>C19. The contract of an installation that returns: the tool's lock and its updating mark are
  given back, whether it succeeded or failed. When it reports success, either there was nothing to do (no reinstallation was asked
  for, the tool has a record and its binary is there) and the registry is as before, or the registry
  holds the new record, marked installed, no other record changed, and every asset of the message is
  on disk under its name. When it reports a failure, the registry is as before, or the tool's old
  record is marked as installing, or everything was done and saved, the new record marked installed,
  and only starting the tool failed.\<close>

theorem install_contract:
  assumes "install E m s = (r, t)"
    and "rm_updating (ns_rm s) (tm_tool_agent_id m) \<noteq> Some 0"
    and "fst (tool_lock (tm_tool_agent_id m) (ns_rm s)) \<notin> os_locked (ns_ops s)"
  defines "i \<equiv> tm_tool_agent_id m" and "R \<equiv> registry (rm_tools (ns_rm s))"
    and "R' \<equiv> registry (rm_tools (ns_rm t))"
  shows "os_locked (ns_ops t) = os_locked (ns_ops s) \<and> rm_updating (ns_rm t) = rm_updating (ns_rm s) \<and>
    (r = Ok () \<longrightarrow>
       (R' = R \<and> \<not> tm_reinstall m \<and> (\<exists>tool. R i = Some tool \<and>
          re_binary_present (oe_run (ie_ops E)) (tool_executable (ie_ops E) tool))) \<or>
       ((\<exists>inst. R' = R(i \<mapsto> new_record m inst)) \<and>
          (\<forall>a \<in> set (unwrap_or (tm_assets m) []). asset_present E m t a))) \<and>
    (\<forall>e. r = Err e \<longrightarrow>
       R' = R \<or> R' = R(i := installing (R i)) \<or>
       (\<exists>e' inst. e = RunFailed e' \<and> R' = R(i \<mapsto> new_record m inst)))"
proof -
  obtain k rm where k: "tool_lock i (ns_rm s) = (k, rm)" by fastforce
  have rm: "rm_updating rm = rm_updating (ns_rm s)" "rm_tools rm = rm_tools (ns_rm s)"
    using k by (auto simp: tool_lock_def split: option.splits)
  let ?s1 = "on_ops (\<lambda>o1. on_rm (mark_updating i) (lock k (on_rm (\<lambda>_. rm) o1))) s"
  obtain r2 s2 where w: "install_inner E m ?s1 = (r2, s2)" by fastforce
  have t: "r = r2" "t = on_ops (\<lambda>o1. unlock k (on_rm (clear_updating i) o1)) s2"
    using assms(1) k w by (simp_all add: install_def i_def)
  have s1: "os_locked (ns_ops ?s1) = insert k (os_locked (ns_ops s))"
    "rm_updating (ns_rm ?s1) = rm_updating (mark_updating i (ns_rm s))"
    "registry (rm_tools (ns_rm ?s1)) = R"
    using rm by (simp_all add: on_ops_def on_rm_def lock_def mark_updating_def R_def Let_def)
  have f: "R' = registry (rm_tools (ns_rm s2))" "ns_files t = ns_files s2"
    by (auto simp: t(2) R'_def on_ops_def on_rm_def unlock_def clear_updating_def split: option.split)
  note inner = install_inner_cases[OF w, folded i_def, unfolded s1(3)]
  have locks: "locks_kept ?s1 s2"
    using inner by (auto simp: only_marked_def locks_kept_def)
  have "os_locked (ns_ops t) = os_locked (ns_ops s)"
    using locks s1(1) k assms(3)
    by (simp add: t(2) locks_kept_def on_ops_def on_rm_def unlock_def i_def)
  moreover have "rm_updating (ns_rm t) = rm_updating (ns_rm s)"
  proof -
    have "rm_updating (ns_rm s2) = rm_updating (mark_updating i (ns_rm s))"
      using locks s1(2) by (simp add: locks_kept_def)
    then show ?thesis
      using assms(2) by (auto simp: t(2) on_ops_def on_rm_def unlock_def clear_updating_def
          mark_updating_def i_def Let_def fun_eq_iff split: option.splits)
  qed
  moreover have "asset_present E m s2 a \<Longrightarrow> asset_present E m t a" for a
    using f(2) by (simp add: asset_present_def)
  ultimately show ?thesis
    using inner s1(3) by (auto simp: f(1) t(1) only_marked_def saved_as_def i_def[symmetric])
qed

text \<open>An installation that panics does not return: there is no handler, so unwinding drops the guard of
  the lock and nothing clears the mark. Here u is the state in which the work panicked.\<close>

definition install_unwound :: "tool_installation_message \<Rightarrow> install_state \<Rightarrow> install_state \<Rightarrow> install_state" where
  "install_unwound m s u = on_ops (unlock (fst (tool_lock (tm_tool_agent_id m) (ns_rm s)))) u"

lemma panicked_install_leaks_mark:
  fixes m s
  defines "i \<equiv> tm_tool_agent_id m"
  assumes k: "tool_lock i (ns_rm s) = (k, rm)" "k \<notin> os_locked (ns_ops s)"
    and "locks_kept (on_ops (\<lambda>o1. on_rm (mark_updating i) (lock k (on_rm (\<lambda>_. rm) o1))) s) u"
  shows "os_locked (ns_ops (install_unwound m s u)) = os_locked (ns_ops s)"
    "is_updating i (ns_rm (install_unwound m s u))"
proof -
  show "os_locked (ns_ops (install_unwound m s u)) = os_locked (ns_ops s)"
    using assms by (simp add: install_unwound_def locks_kept_def on_ops_def on_rm_def lock_def unlock_def)
  have "rm_updating (ns_rm (install_unwound m s u)) = rm_updating (mark_updating i rm)"
    using assms by (simp add: install_unwound_def locks_kept_def on_ops_def on_rm_def lock_def unlock_def)
  then show "is_updating i (ns_rm (install_unwound m s u))" by (rule marked_is_updating)
qed

section \<open>Interrupted installations\<close>

text \<open>A write that is cut leaves a truncated asset that no retry replaces: the first attempt fails,
  the second finds the path taken, downloads nothing and succeeds, and the file stays cut. Only a
  reinstallation of an asset that comes from the tool's own server escapes.\<close>

theorem partial_asset_is_kept:
  assumes "asset_file E m a = Some p" "asset_file E' m a = Some p" "ns_files s p = None"
    and "\<not> at_executable a" "\<not> (tm_reinstall m \<and> at_source a = ToolApi)"
    and "asset_bytes E m a s = (Ok bytes, u)" "ie_write E p = CutAfter n" "n < length bytes"
  shows "\<exists>t. install_asset E m a s = (Err (WriteFailed p), t) \<and>
    install_asset E' m a t = (Ok (), t) \<and>
    ns_files t p = Some (take n bytes) \<and> take n bytes \<noteq> bytes"
proof -
  let ?t = "u \<lparr> ns_files := (ns_files u)(p \<mapsto> take n bytes) \<rparr>"
  have "install_asset E m a s = (Err (WriteFailed p), ?t)"
    using assms by (simp add: install_asset_def fetch_asset_def write_file_def)
  moreover have "install_asset E' m a ?t = (Ok (), ?t)"
    using assms(2,4,5) by (auto simp: install_asset_def)
  moreover have "length (take n bytes) < length bytes" using assms(8) by simp
  then have "take n bytes \<noteq> bytes" by (metis less_irrefl)
  ultimately show ?thesis by (intro exI[of _ ?t]) simp
qed

text \<open>A repair that is interrupted after the binary was downloaded is never finished: when the message
  is delivered again, the record says the tool is still being installed, but as the binary is there
  the installation is skipped, reports success and is acknowledged, with nothing downloaded and
  the record still marked as installing.\<close>

theorem interrupted_repair_is_skipped:
  assumes "tools_get_by_tool_agent_id (oe_read (ie_ops E)) (tm_tool_agent_id m) (rm_tools (ns_rm s)) = Ok (Some tool)"
    and "it_state tool = Installing" "\<not> tm_reinstall m"
    and "re_binary_present (oe_run (ie_ops E)) (tool_executable (ie_ops E) tool)"
  shows "InstallAcked (tm_tool_agent_id m) \<in> set (ns_events (install_dispatch E m s)) \<and>
    rm_tools (ns_rm (install_dispatch E m s)) = rm_tools (ns_rm s) \<and>
    ns_download (install_dispatch E m s) = ns_download s \<and>
    ns_files (install_dispatch E m s) = ns_files s"
proof -
  let ?i = "tm_tool_agent_id m"
  obtain k rm where k: "tool_lock ?i (ns_rm s) = (k, rm)" by fastforce
  have rm: "rm_tools rm = rm_tools (ns_rm s)" using k by (auto simp: tool_lock_def split: option.splits)
  let ?s1 = "on_ops (\<lambda>o1. on_rm (mark_updating ?i) (lock k (on_rm (\<lambda>_. rm) o1))) s"
  have tools: "rm_tools (ns_rm ?s1) = rm_tools (ns_rm s)"
    using rm by (simp add: on_ops_def on_rm_def lock_def mark_updating_def Let_def)
  then have "install_inner E m ?s1 = (Ok (), ?s1)"
    using assms by (simp add: install_inner_def check_existing_def Let_def)
  then have i: "install_dispatch E m s =
      record_ev (InstallAcked ?i) (on_ops (\<lambda>o1. unlock k (on_rm (clear_updating ?i) o1)) ?s1)"
    using k by (simp add: install_dispatch_def install_def Let_def)
  have "rm_tools (clear_updating ?i r) = rm_tools r" for r
    by (simp add: clear_updating_def split: option.split)
  then show ?thesis
    using tools by (simp add: i record_ev_def on_ops_def on_rm_def unlock_def lock_def)
qed


section \<open>A concrete installation\<close>

definition idle_kill :: kill_env where
  "idle_kill = \<lparr> ke_listing = (\<lambda>_. []), ke_kill = (\<lambda>_ _. True), ke_kill_with = (\<lambda>_ _. Some True),
     ke_lower = id, ke_windows = False \<rparr>"

definition offline_download :: download_env where
  "offline_download = \<lparr> de_platform = MacOS, de_get = (\<lambda>_ _. SendFailed), de_status_text = (\<lambda>_. []),
     de_lower = id, de_zip = (\<lambda>_. None), de_tar = (\<lambda>_. None), de_dmg_ok = True,
     de_file_op_ok = (\<lambda>_. True) \<rparr>"

definition sample_install :: "bool \<Rightarrow> bool \<Rightarrow> file_outcome \<Rightarrow> install_env" where
  "sample_install binary asset_there w =
    \<lparr> ie_ops = sample_op \<lparr> oe_kill := idle_kill,
        oe_run := mac_env \<lparr> re_binary_present := (\<lambda>_. binary) \<rparr> \<rparr>,
      ie_params = sample_params, ie_download = offline_download, ie_state_io = io_ok, ie_conn_io = io_ok,
      ie_machine = Ok ''m-1'', ie_override = (\<lambda>_. None), ie_uninstall_command = ExitSuccess,
      ie_install_command = ExitSuccess, ie_dir_ok = (\<lambda>_. True), ie_orbit_dir = ''/opt/orbit'',
      ie_service_clear = True, ie_service_up = True,
      ie_artifact = (\<lambda>i. if i = ''cfg'' \<and> \<not> asset_there then None else Some ''binary''),
      ie_tool_api = (\<lambda>_ _. None), ie_write = (\<lambda>p. if p = ''/opt/mesh/cfg.json'' then w else Written),
      ie_announce_ok = (\<lambda>_. True) \<rparr>"

definition sample_asset :: asset where
  "sample_asset = \<lparr> at_id = ''cfg'',
     at_local_filename_configuration = [\<lparr> lf_filename = ''cfg.json'', lf_os = ''macos'' \<rparr>],
     at_source = Artifactory, at_path = None, at_executable = False,
     at_download_configurations = None, at_version = None \<rparr>"

definition sample_message :: tool_installation_message where
  "sample_message = \<lparr> tm_tool_agent_id = ''mesh'', tm_tool_id = ''mesh'', tm_tool_type = ''RMM'',
     tm_version = ''1.0'', tm_reinstall = False, tm_download_configurations = None,
     tm_installation_command_args = None, tm_uninstallation_command_args = None,
     tm_run_command_args = [], tm_tool_agent_id_command_args = None, tm_assets = Some [sample_asset],
     tm_service_name = None \<rparr>"

definition sample_install_state :: "tools_file \<Rightarrow> install_state" where
  "sample_install_state f =
    \<lparr> ns_ops = sample_state \<lparr> os_rm := empty_manager f \<rparr>, ns_conn = idle_connections,
      ns_download = \<lparr> ds_requests = [], ds_slept = 0, ds_written = [] \<rparr>, ns_files = Map.empty,
      ns_events = [] \<rparr>"

lemma install_contract_witness:
  "fst (install (sample_install False True Written) sample_message (sample_install_state Missing)) = Ok ()
   \<and> (\<exists>inst. registry (rm_tools (ns_rm (snd (install (sample_install False True Written) sample_message
        (sample_install_state Missing))))) = [''mesh'' \<mapsto> new_record sample_message inst])"
proof -
  have z: "rm_updating (ns_rm (sample_install_state Missing)) (tm_tool_agent_id sample_message) \<noteq> Some 0"
    "fst (tool_lock (tm_tool_agent_id sample_message) (ns_rm (sample_install_state Missing)))
      \<notin> os_locked (ns_ops (sample_install_state Missing))"
    "registry (rm_tools (ns_rm (sample_install_state Missing))) = Map.empty"
    by (simp_all add: sample_install_state_def empty_manager_def sample_state_def registry_def
        tools_of_def lookup_def fun_eq_iff)
  have ok: "fst (install (sample_install False True Written) sample_message (sample_install_state Missing)) = Ok ()"
    by code_simp
  then show ?thesis
    using install_contract[OF prod.collapse[symmetric] z(1,2), of "sample_install False True Written"] z(3)
    by (auto simp: sample_message_def)
qed

lemma partial_asset_is_kept_witness:
  "\<exists>t. install_asset (sample_install False True (CutAfter 3)) sample_message sample_asset
         (sample_install_state Missing) = (Err (WriteFailed ''/opt/mesh/cfg.json''), t) \<and>
       install_asset (sample_install False True Written) sample_message sample_asset t = (Ok (), t) \<and>
       ns_files t ''/opt/mesh/cfg.json'' = Some ''bin''"
proof -
  have f: "asset_file (sample_install b c w) sample_message sample_asset = Some ''/opt/mesh/cfg.json''" for b c w
    by (simp add: asset_file_def filename_matches_os_def sample_asset_def sample_install_def mac_env_def
        sample_op_def os_name_def eq_ignore_ascii_case_def get_asset_path_def join_path_def
        get_tool_folder_def sample_message_def)
  have e: "ie_write (sample_install b c w) ''/opt/mesh/cfg.json'' = w" for b c w
    by (simp add: sample_install_def)
  have b: "asset_bytes (sample_install False True (CutAfter 3)) sample_message sample_asset
      (sample_install_state Missing) = (Ok ''binary'', sample_install_state Missing)"
    by (simp add: asset_bytes_def sample_asset_def sample_install_def)
  show ?thesis
    using partial_asset_is_kept[OF f f _ _ _ b e, of False True Written]
    by (simp add: sample_install_state_def sample_asset_def)
qed

text \<open>A tool whose binary is gone is repaired; the binary arrives, its asset does not.\<close>

definition broken_repair :: install_state where
  "broken_repair = snd (install (sample_install False False Written) sample_message
     (sample_install_state (Content [mesh_tool \<lparr> it_state := Installed \<rparr>])))"

lemma interrupted_repair_is_skipped_witness:
  "fst (install (sample_install False False Written) sample_message
     (sample_install_state (Content [mesh_tool \<lparr> it_state := Installed \<rparr>]))) = Err ArtifactFailed \<and>
   InstallAcked ''mesh'' \<in> set (ns_events (install_dispatch (sample_install True True Written) sample_message broken_repair))"
proof -
  let ?tool = "mesh_tool \<lparr> it_state := Installing \<rparr>"
  have "rm_tools (ns_rm broken_repair) = Content [?tool]"
    unfolding broken_repair_def by code_simp
  then have "tools_get_by_tool_agent_id (oe_read (ie_ops (sample_install True True Written)))
      (tm_tool_agent_id sample_message) (rm_tools (ns_rm broken_repair)) = Ok (Some ?tool)"
    by (simp add: tools_get_by_tool_agent_id_def tools_get_all_def read_file_def sample_install_def
        sample_op_def sample_message_def lookup_def mesh_tool_def)
  moreover have "fst (install (sample_install False False Written) sample_message
     (sample_install_state (Content [mesh_tool \<lparr> it_state := Installed \<rparr>]))) = Err ArtifactFailed"
    by code_simp
  ultimately show ?thesis
    using interrupted_repair_is_skipped[of "sample_install True True Written" sample_message broken_repair ?tool]
    by (simp add: sample_message_def sample_install_def)
qed

end
