(* ===== verification/ToolUpdate.thy ===== *)
theory ToolUpdate
  imports ToolInstall
begin

text \<open>Updating an installed tool (services/tool\_agent\_update\_service.rs,
  models/tool\_agent\_update\_message.rs), the updaters of standard tools, services and macOS
  applications and the migration of a standard tool to an application (platform/tool\_updater/*.rs),
  writing executables (platform/binary\_writer.rs) and detecting what is installed
  (platform/installation\_detector.rs). The state is that of the installation; the files now
  include binaries, their backups and the copies moved aside. A call that waits for a user to log in
  may never return; that is the error NeverReturned, after which nothing else happens.\<close>

record asset_update =
  au_asset_id :: string
  au_version :: "string option"
  au_executable :: bool
  au_download_configurations :: "download_configuration list option"

record tool_agent_update_message =
  um_tool_agent_id :: string
  um_version :: string
  um_download_configurations :: "download_configuration list"
  um_assets :: "asset_update list option"

datatype save_point = SaveDetected | SaveMigrated | SaveUpdated | SaveLegacy | SaveAsset string

datatype upd_error =
    UpdLookupFailed io_error
  | UpdStopFailed op_error
  | UpdNoConfig
  | UpdDownload install_error
  | UpdWrite install_error
  | BackupFailed
  | RestoreFailed
  | UpdStartServiceFailed
  | UpdSaveFailed io_error
  | UnsupportedMigration
  | NotAGuiApp
  | BundleNotRemoved
  | BundleMissing
  | LegacyNotStandard
  | NoAssetVersion
  | NoAssetConfig
  | NeverReturned

record upd_env =
  ue_install :: install_env
  ue_create_fails :: "string \<Rightarrow> bool"
  ue_rename_ok :: "string \<Rightarrow> bool"
  ue_remove_ok :: "string \<Rightarrow> bool"
  ue_clear_ok :: "nat \<Rightarrow> bool"
  ue_copy :: "string \<Rightarrow> nat option"
  ue_save :: "save_point \<Rightarrow> io_env"
  ue_start_service :: "nat \<Rightarrow> bool"
  ue_exists :: "string \<Rightarrow> bool"
  ue_bundle_removed :: bool
  ue_console_user :: bool
  ue_launch_ok :: bool
  ue_preferences_ok :: bool
  ue_running_at_end :: bool

abbreviation upd_ops :: "upd_env \<Rightarrow> op_env" where "upd_ops E \<equiv> ie_ops (ue_install E)"
abbreviation upd_platform :: "upd_env \<Rightarrow> platform" where "upd_platform E \<equiv> re_platform (oe_run (upd_ops E))"
abbreviation upd_kill :: "upd_env \<Rightarrow> kill_env" where "upd_kill E \<equiv> oe_kill (upd_ops E)"
abbreviation upd_agent_path :: "upd_env \<Rightarrow> string \<Rightarrow> string" where
  "upd_agent_path E \<equiv> agent_path (ue_install E)"

type_synonym 'a upd = "(upd_error, 'a) result \<times> install_state"

text \<open>Stopping processes where a failure ends the operation.\<close>

definition upd_stop ::
  "(kill_state \<Rightarrow> (kill_error, unit) result \<times> kill_state) \<Rightarrow> install_state \<Rightarrow> unit upd" where
  "upd_stop f s =
    (case with_kill f (ns_ops s) of
       (r, os) \<Rightarrow> map_err UpdStopFailed (r, s \<lparr> ns_ops := os \<rparr>))"

definition save_tool :: "upd_env \<Rightarrow> save_point \<Rightarrow> installed_tool \<Rightarrow> install_state \<Rightarrow> unit upd" where
  "save_tool E p tool s =
    (case tools_save (ue_save E p) tool (rm_tools (ns_rm s)) of
       (Inl e, f) \<Rightarrow> (Err (UpdSaveFailed e), s)
     | (Inr _, f) \<Rightarrow> (Ok (), on_ops (on_rm (\<lambda>rm. rm \<lparr> rm_tools := f \<rparr>)) s))"

definition publish_installed_agent_message ::
  "upd_env \<Rightarrow> string \<Rightarrow> string \<Rightarrow> install_state \<Rightarrow> install_state" where
  "publish_installed_agent_message E i version s = snd (announce (ue_install E) i version s)"


section \<open>Files of a binary\<close>

definition is_sep :: "upd_env \<Rightarrow> char \<Rightarrow> bool" where
  "is_sep E c = (c = CHR ''/'' \<or> (upd_platform E = Windows \<and> c = CHR 0x5C))"

text \<open>The last name of a path with its extension, if it has one, replaced.\<close>

definition replace_extension :: "(char \<Rightarrow> bool) \<Rightarrow> string \<Rightarrow> string \<Rightarrow> string" where
  "replace_extension sep p ext =
    (let name = rev (takeWhile (\<lambda>c. \<not> sep c) (rev p));
         dir = take (length p - length name) p;
         rest = dropWhile (\<lambda>c. c \<noteq> CHR ''.'') (rev name);
         stem = (if length rest \<le> 1 then name else rev (tl rest)) in
     dir @ stem @ ''.'' @ ext)"

definition with_extension :: "upd_env \<Rightarrow> string \<Rightarrow> string \<Rightarrow> string" where
  "with_extension E = replace_extension (is_sep E)"

definition aside_path :: "string \<Rightarrow> string" where "aside_path p = p @ ''.old''"

definition remove_file :: "string \<Rightarrow> install_state \<Rightarrow> install_state" where
  "remove_file p s = s \<lparr> ns_files := (ns_files s)(p := None) \<rparr>"

definition put_file :: "string \<Rightarrow> string \<Rightarrow> install_state \<Rightarrow> install_state" where
  "put_file p c s = s \<lparr> ns_files := (ns_files s)(p \<mapsto> c) \<rparr>"

text \<open>A locked file is moved aside on Windows before the second attempt to create it.\<close>

definition move_aside :: "upd_env \<Rightarrow> string \<Rightarrow> install_state \<Rightarrow> install_state" where
  "move_aside E p s =
    (let s1 = (if ue_remove_ok E (aside_path p) then remove_file (aside_path p) s else s) in
     case ns_files s1 p of
       None \<Rightarrow> s1
     | Some c \<Rightarrow> if ue_rename_ok E p then remove_file p (put_file (aside_path p) c s1) else s1)"

definition write_executable :: "upd_env \<Rightarrow> string \<Rightarrow> string \<Rightarrow> install_state \<Rightarrow> unit upd" where
  "write_executable E path bytes s =
    map_err UpdWrite
      (write_file (ue_install E) True path bytes
        (if ue_create_fails E path \<and> upd_platform E = Windows then move_aside E path s else s))"

text \<open>A leftover copy is cleared away before the update, at its end, after stopping an orphan and before
  the version is recorded; each attempt may find it locked.\<close>

definition clear_aside_binary :: "upd_env \<Rightarrow> nat \<Rightarrow> string \<Rightarrow> install_state \<Rightarrow> bool \<times> install_state" where
  "clear_aside_binary E n path s =
    (let aside = aside_path path in
     if ns_files s aside = None then (True, s)
     else if ue_clear_ok E n then (True, remove_file aside s)
     else (False, record_ev (AsideKept aside) s))"

definition copy_file :: "upd_env \<Rightarrow> string \<Rightarrow> string \<Rightarrow> install_state \<Rightarrow> bool \<times> install_state" where
  "copy_file E from to s =
    (case ns_files s from of
       None \<Rightarrow> (False, s)
     | Some c \<Rightarrow>
         (case ue_copy E to of
            None \<Rightarrow> (True, put_file to c s)
          | Some n \<Rightarrow> (False, put_file to (take n c) s)))"

definition backup_binary :: "upd_env \<Rightarrow> string \<Rightarrow> install_state \<Rightarrow> string option upd" where
  "backup_binary E source s =
    (if ns_files s source = None then (Ok None, s)
     else let backup = with_extension E source ''backup'' in
       case copy_file E source backup s of
         (True, s1) \<Rightarrow> (Ok (Some backup), s1)
       | (False, s1) \<Rightarrow> (Err BackupFailed, s1))"

definition cleanup_backup :: "upd_env \<Rightarrow> string option \<Rightarrow> install_state \<Rightarrow> install_state" where
  "cleanup_backup E backup s =
    (case backup of
       None \<Rightarrow> s
     | Some b \<Rightarrow> if ns_files s b \<noteq> None \<and> ue_remove_ok E b then remove_file b s else s)"

definition restore_from_backup :: "upd_env \<Rightarrow> string option \<Rightarrow> string \<Rightarrow> install_state \<Rightarrow> unit upd" where
  "restore_from_backup E backup target s =
    (case backup of
       None \<Rightarrow> (Ok (), s)
     | Some b \<Rightarrow>
         if ns_files s b = None then (Ok (), s)
         else case copy_file E b target s of
             (False, s1) \<Rightarrow> (Err RestoreFailed, s1)
           | (True, s1) \<Rightarrow>
               if ue_remove_ok E b then (Ok (), remove_file b s1) else (Err RestoreFailed, s1))"

definition download_and_write_binary ::
  "upd_env \<Rightarrow> download_configuration \<Rightarrow> string \<Rightarrow> install_state \<Rightarrow> unit upd" where
  "download_and_write_binary E config target s =
    and_do (map_err UpdDownload (with_download (download_and_extract (ie_download (ue_install E)) config) s))
      (\<lambda>bytes s1. write_executable E target bytes s1)"

section \<open>The three updaters\<close>

datatype updater = StandardUpdater | GuiAppUpdater | ServiceUpdater

record update_context =
  uc_backup_path :: "string option"
  uc_needs_restart :: bool

definition create_updater :: "upd_env \<Rightarrow> installation \<Rightarrow> updater" where
  "create_updater E inst =
    (case inst of
       Standard _ \<Rightarrow> StandardUpdater
     | GuiApp _ _ \<Rightarrow> if upd_platform E = MacOS then GuiAppUpdater else StandardUpdater
     | Service _ _ \<Rightarrow> ServiceUpdater)"

definition service_executable_path :: "upd_env \<Rightarrow> installed_tool \<Rightarrow> string" where
  "service_executable_path E tool =
    (case it_installation tool of
       Service _ (Some p) \<Rightarrow>
         if take 1 p = ''/'' \<or> CHR '':'' \<in> set p then p
         else join_path (upd_ops E) (get_tool_folder (upd_ops E) (tool_name tool)) p
     | _ \<Rightarrow> upd_agent_path E (tool_name tool))"

definition is_app_bundle_path :: "string \<Rightarrow> bool" where "is_app_bundle_path p = contains p ''.app/''"

definition look_for_survivors :: "upd_env \<Rightarrow> installed_tool \<Rightarrow> install_state \<Rightarrow> install_state" where
  "look_for_survivors E tool s =
    on_ops (\<lambda>o1. o1 \<lparr> os_kill := snd (is_installed_tool_running (upd_kill E) tool (os_kill o1)) \<rparr>) s"

definition start_system_service :: "upd_env \<Rightarrow> nat \<Rightarrow> string \<Rightarrow> install_state \<Rightarrow> unit upd" where
  "start_system_service E n name s =
    (if ue_start_service E n then Ok () else Err UpdStartServiceFailed,
     record_ev (ServiceStartAttempt name (ue_start_service E n)) s)"

fun args_to_pairs :: "string list \<Rightarrow> (string \<times> string) list" where
  "args_to_pairs [] = []"
| "args_to_pairs (a # as) =
     (if take 2 a = ''--'' then
        (case as of
           v # rest \<Rightarrow> if take 2 v = ''--'' then (drop 2 a, ''1'') # args_to_pairs as
                        else (drop 2 a, v) # args_to_pairs rest
         | [] \<Rightarrow> [(drop 2 a, ''1'')])
      else args_to_pairs as)"

definition resolved_run_args :: "upd_env \<Rightarrow> installed_tool \<Rightarrow> string list" where
  "resolved_run_args E tool =
    (case process_params (ie_params (ue_install E)) (tool_name tool) (it_run_command_args tool) of
       Some args \<Rightarrow> args | None \<Rightarrow> it_run_command_args tool)"

definition background_flag :: "string \<Rightarrow> string list" where
  "background_flag i = (if i = ''openframe-chat'' then [''--background''] else [])"

definition set_preferences :: "upd_env \<Rightarrow> installed_tool \<Rightarrow> string option \<Rightarrow> install_state \<Rightarrow> install_state" where
  "set_preferences E tool bundle_id s =
    (case bundle_id of
       None \<Rightarrow> s
     | Some bid \<Rightarrow>
         if ue_preferences_ok E then record_ev (PreferencesSet bid (args_to_pairs (resolved_run_args E tool))) s
         else s)"

definition launch_as_user :: "upd_env \<Rightarrow> installed_tool \<Rightarrow> string \<Rightarrow> string option \<Rightarrow> install_state \<Rightarrow> install_state" where
  "launch_as_user E tool path bundle_id s =
    (let args = (if bundle_id \<noteq> None then background_flag (tool_name tool) else it_run_command_args tool) in
     if ue_launch_ok E then record_ev (AppLaunched path args) s else s)"

definition standard_prepare :: "upd_env \<Rightarrow> installed_tool \<Rightarrow> install_state \<Rightarrow> update_context upd" where
  "standard_prepare E tool s =
    (let i = tool_name tool in
     and_do (upd_stop (stop_tool (upd_kill E) i) s) (\<lambda>_ s1.
       let path = upd_agent_path E i;
           s2 = look_for_survivors E tool (snd (clear_aside_binary E 0 path s1)) in
       and_do (backup_binary E path s2) (\<lambda>b s3.
         (Ok \<lparr> uc_backup_path = b, uc_needs_restart = True \<rparr>, s3))))"

definition service_prepare :: "upd_env \<Rightarrow> installed_tool \<Rightarrow> install_state \<Rightarrow> update_context upd" where
  "service_prepare E tool s =
    (let path = service_executable_path E tool;
         s1 = try_kill (stop_tool (upd_kill E) (tool_name tool))
                (try_kill (stop_installed_tool (upd_kill E) tool False) s);
         s2 = look_for_survivors E tool (snd (clear_aside_binary E 0 path s1)) in
     and_do (if is_app_bundle_path path then (Ok None, s2) else backup_binary E path s2) (\<lambda>b s3.
       (Ok \<lparr> uc_backup_path = b, uc_needs_restart = False \<rparr>, s3)))"

definition gui_app_prepare :: "upd_env \<Rightarrow> installed_tool \<Rightarrow> install_state \<Rightarrow> update_context upd" where
  "gui_app_prepare E tool s =
    and_do (upd_stop (stop_installed_tool (upd_kill E) tool False) s) (\<lambda>_ s1.
      (Ok \<lparr> uc_backup_path = None, uc_needs_restart = True \<rparr>, s1))"

definition update_prepare :: "upd_env \<Rightarrow> updater \<Rightarrow> installed_tool \<Rightarrow> install_state \<Rightarrow> update_context upd" where
  "update_prepare E u =
    (case u of StandardUpdater \<Rightarrow> standard_prepare E | ServiceUpdater \<Rightarrow> service_prepare E
     | GuiAppUpdater \<Rightarrow> gui_app_prepare E)"

lemmas update_prepare_defs = update_prepare_def standard_prepare_def service_prepare_def gui_app_prepare_def

definition remove_app_bundle :: "upd_env \<Rightarrow> string \<Rightarrow> install_state \<Rightarrow> unit upd" where
  "remove_app_bundle E path s =
    (if ue_bundle_removed E then (Ok (), record_ev (ToolDirRemoved path) s) else (Err BundleNotRemoved, s))"

definition extract_all :: "upd_env \<Rightarrow> download_configuration \<Rightarrow> string \<Rightarrow> install_state \<Rightarrow> unit upd" where
  "extract_all E config dir s =
    map_err UpdDownload (with_download (download_and_extract_all (ie_download (ue_install E)) config dir) s)"

definition standard_apply ::
  "upd_env \<Rightarrow> installed_tool \<Rightarrow> download_configuration \<Rightarrow> install_state \<Rightarrow> installation option upd" where
  "standard_apply E tool config s =
    and_do (download_and_write_binary E config (upd_agent_path E (tool_name tool)) s) (\<lambda>_ s1. (Ok None, s1))"

definition service_apply ::
  "upd_env \<Rightarrow> installed_tool \<Rightarrow> download_configuration \<Rightarrow> install_state \<Rightarrow> installation option upd" where
  "service_apply E tool config s =
    (let path = service_executable_path E tool in
     if upd_platform E = MacOS \<and> contains (dc_target_file_name config) ''.app/'' then
       and_do (remove_app_bundle E path s) (\<lambda>_ s1.
       and_do (extract_all E config (get_tool_folder (upd_ops E) (tool_name tool)) s1) (\<lambda>_ s2.
         if ue_exists E path \<and> ie_write (ue_install E) path = PermissionsFailed
         then (Err (UpdWrite (WriteFailed path)), s2) else (Ok None, s2)))
     else and_do (download_and_write_binary E config path s) (\<lambda>_ s1. (Ok None, s1)))"

definition gui_app_apply ::
  "upd_env \<Rightarrow> installed_tool \<Rightarrow> download_configuration \<Rightarrow> install_state \<Rightarrow> installation option upd" where
  "gui_app_apply E tool config s =
    (case it_installation tool of
       GuiApp path bundle_id \<Rightarrow>
         and_do (remove_app_bundle E path s) (\<lambda>_ s1.
         and_do (extract_all E config ''/Applications'' s1) (\<lambda>_ s2.
           let new_path = path_join ''/Applications'' (dc_target_file_name config) in
           if ue_exists E new_path then (Ok (Some (GuiApp new_path bundle_id)), s2)
           else (Err BundleMissing, s2)))
     | _ \<Rightarrow> (Err NotAGuiApp, s))"

definition update_apply ::
  "upd_env \<Rightarrow> updater \<Rightarrow> installed_tool \<Rightarrow> download_configuration \<Rightarrow> install_state \<Rightarrow>
   installation option upd" where
  "update_apply E u =
    (case u of StandardUpdater \<Rightarrow> standard_apply E | ServiceUpdater \<Rightarrow> service_apply E
     | GuiAppUpdater \<Rightarrow> gui_app_apply E)"

lemmas update_apply_defs = update_apply_def standard_apply_def service_apply_def gui_app_apply_def

definition remediate_orphaned_service ::
  "upd_env \<Rightarrow> installed_tool \<Rightarrow> string \<Rightarrow> string \<Rightarrow> install_state \<Rightarrow> install_state" where
  "remediate_orphaned_service E tool name path s =
    (let K = upd_kill E;
         s1 = try_kill (stop_tool K (tool_name tool)) (try_kill (stop_installed_tool K tool False) s) in
     case clear_aside_binary E 2 path s1 of
       (True, s2) \<Rightarrow> snd (start_system_service E 1 name s2)
     | (False, s2) \<Rightarrow>
         (let s3 = look_for_survivors E tool s2 in
          if fst (is_installed_tool_running K tool (os_kill (ns_ops s2))) then s3
          else snd (start_system_service E 1 name s3)))"

definition service_finalize :: "upd_env \<Rightarrow> installed_tool \<Rightarrow> update_context \<Rightarrow> install_state \<Rightarrow> unit upd" where
  "service_finalize E tool ctx s =
    (case it_installation tool of
       Service name _ \<Rightarrow>
         (let path = service_executable_path E tool;
              (free, s1) = (if upd_platform E = Windows then clear_aside_binary E 1 path s else (True, s)) in
          if \<not> free then
            (Ok (), cleanup_backup E (uc_backup_path ctx) (remediate_orphaned_service E tool name path s1))
          else
            and_do (start_system_service E 0 name s1) (\<lambda>_ s2.
              (Ok (), cleanup_backup E (uc_backup_path ctx) s2)))
     | _ \<Rightarrow> (Ok (), cleanup_backup E (uc_backup_path ctx) s))"

definition gui_app_finalize :: "upd_env \<Rightarrow> installed_tool \<Rightarrow> update_context \<Rightarrow> install_state \<Rightarrow> unit upd" where
  "gui_app_finalize E tool ctx s =
    (if \<not> uc_needs_restart ctx then (Ok (), s)
     else (case it_installation tool of
        GuiApp path bundle_id \<Rightarrow>
          if \<not> ue_console_user E then (Err NeverReturned, s)
          else (Ok (), launch_as_user E tool path bundle_id (set_preferences E tool bundle_id s))
      | _ \<Rightarrow> (Err NotAGuiApp, s)))"

definition update_finalize :: "upd_env \<Rightarrow> updater \<Rightarrow> installed_tool \<Rightarrow> update_context \<Rightarrow> install_state \<Rightarrow> unit upd" where
  "update_finalize E u tool ctx s =
    (case u of StandardUpdater \<Rightarrow> (Ok (), cleanup_backup E (uc_backup_path ctx) s)
     | ServiceUpdater \<Rightarrow> service_finalize E tool ctx s | GuiAppUpdater \<Rightarrow> gui_app_finalize E tool ctx s)"

lemmas update_finalize_defs = update_finalize_def service_finalize_def gui_app_finalize_def

definition service_rollback :: "upd_env \<Rightarrow> installed_tool \<Rightarrow> update_context \<Rightarrow> install_state \<Rightarrow> unit upd" where
  "service_rollback E tool ctx s =
    (if uc_backup_path ctx = None then (Ok (), s)
     else and_do (restore_from_backup E (uc_backup_path ctx) (service_executable_path E tool) s) (\<lambda>_ s1.
       (Ok (), case it_installation tool of
          Service name _ \<Rightarrow> snd (start_system_service E 2 name s1) | _ \<Rightarrow> s1)))"

definition update_rollback :: "upd_env \<Rightarrow> updater \<Rightarrow> installed_tool \<Rightarrow> update_context \<Rightarrow> install_state \<Rightarrow> unit upd" where
  "update_rollback E u tool ctx s =
    (case u of
       StandardUpdater \<Rightarrow> restore_from_backup E (uc_backup_path ctx) (upd_agent_path E (tool_name tool)) s
     | ServiceUpdater \<Rightarrow> service_rollback E tool ctx s
     | GuiAppUpdater \<Rightarrow> (Ok (), s))"

definition run_update ::
  "upd_env \<Rightarrow> installed_tool \<Rightarrow> download_configuration \<Rightarrow> install_state \<Rightarrow> installation option upd" where
  "run_update E tool config s =
    (let u = create_updater E (it_installation tool) in
     and_do (update_prepare E u tool s) (\<lambda>ctx s1.
       case update_apply E u tool config s1 of
         (Inl e, s2) \<Rightarrow> (Err e, snd (update_rollback E u tool ctx s2))
       | (Inr inst, s2) \<Rightarrow>
           (let tool1 = (case inst of Some x \<Rightarrow> tool \<lparr> it_installation := x \<rparr> | None \<Rightarrow> tool) in
            and_do (update_finalize E u tool1 ctx s2) (\<lambda>_ s3. (Ok inst, s3)))))"

section \<open>Migration\<close>

definition installation_to_type :: "installation \<Rightarrow> installation_type" where
  "installation_to_type inst =
    (case inst of Standard _ \<Rightarrow> StandardType | GuiApp _ _ \<Rightarrow> GuiAppType | Service _ _ \<Rightarrow> ServiceType)"

definition needs_migration :: "installation \<Rightarrow> installation_type \<Rightarrow> bool" where
  "needs_migration current target = (installation_to_type current \<noteq> target)"

definition has_app_bundle :: "string \<Rightarrow> bool" where
  "has_app_bundle p = (\<exists>c \<in> set (components p). ends_with c ''.app'' \<and> 4 < length c)"

definition migrate_standard_to_gui ::
  "upd_env \<Rightarrow> installed_tool \<Rightarrow> download_configuration \<Rightarrow> install_state \<Rightarrow> installation upd" where
  "migrate_standard_to_gui E tool config s =
    (let i = tool_name tool; old = upd_agent_path E i in
     if upd_platform E = MacOS then
       (let s1 = (if ns_files s old \<noteq> None \<and> ue_remove_ok E old then remove_file old s else s) in
        and_do (extract_all E config ''/Applications'' s1) (\<lambda>_ s2.
          let new_path = path_join ''/Applications'' (dc_target_file_name config);
              path = (if has_app_bundle new_path then new_path
                      else new_path @ ''/Contents/MacOS/'' @ i) in
          (Ok (GuiApp path (dc_bundle_id config)), s2)))
     else
       and_do (download_and_write_binary E config old s) (\<lambda>_ s1.
         (Ok (GuiApp old (dc_bundle_id config)), s1)))"

definition finalize_migration :: "upd_env \<Rightarrow> installed_tool \<Rightarrow> installation \<Rightarrow> install_state \<Rightarrow> install_state" where
  "finalize_migration E tool inst s =
    (case inst of
       GuiApp path bundle_id \<Rightarrow>
         if upd_platform E = MacOS then
           (let s1 = set_preferences E tool bundle_id s in
            if ue_console_user E then launch_as_user E tool path bundle_id s1 else s1)
         else if ue_launch_ok E
         then record_ev (AppLaunched path (resolved_run_args E tool @ background_flag (tool_name tool))) s
         else s
     | _ \<Rightarrow> s)"

definition run_migration ::
  "upd_env \<Rightarrow> installed_tool \<Rightarrow> download_configuration \<Rightarrow> install_state \<Rightarrow> installation upd" where
  "run_migration E tool config s =
    (if \<not> (is_standard (it_installation tool) \<and> dc_installation_type config = GuiAppType
            \<and> upd_platform E \<noteq> Linux)
     then (Err UnsupportedMigration, s)
     else
       and_do (upd_stop (stop_tool (upd_kill E) (tool_name tool)) s) (\<lambda>_ s1.
       and_do (migrate_standard_to_gui E tool config s1) (\<lambda>inst s2.
         (Ok inst, finalize_migration E tool inst s2))))"


section \<open>The update service\<close>

definition detect_actual_installation ::
  "upd_env \<Rightarrow> string \<Rightarrow> download_configuration \<Rightarrow> installation option" where
  "detect_actual_installation E i config =
    (if dc_installation_type config \<noteq> ServiceType then None
     else case dc_service_name config of
         None \<Rightarrow> None
       | Some name \<Rightarrow>
           (let there = (case upd_platform E of
                MacOS \<Rightarrow> ue_exists E (''/Library/LaunchDaemons/'' @ name @ ''.plist'')
              | Windows \<Rightarrow> ue_exists E name
              | Linux \<Rightarrow> False) in
            if there
            then Some (Service name (Some (get_tool_executable_path (upd_ops E) i
                         (Some (dc_target_file_name config)))))
            else None))"

definition register_windows_gui_app_autorun :: "upd_env \<Rightarrow> installed_tool \<Rightarrow> install_state \<Rightarrow> install_state" where
  "register_windows_gui_app_autorun E tool s =
    (if upd_platform E = Windows \<and> is_gui_app (it_installation tool)
     then record_ev (AutorunRegistered (tool_name tool)) s else s)"

definition record_version ::
  "upd_env \<Rightarrow> save_point \<Rightarrow> installed_tool \<Rightarrow> install_state \<Rightarrow> installed_tool upd" where
  "record_version E p tool s =
    and_do (save_tool E p tool s) (\<lambda>_ s1.
      (Ok tool, publish_installed_agent_message E (tool_name tool) (it_version tool)
         (register_windows_gui_app_autorun E tool s1)))"

definition do_legacy_update :: "upd_env \<Rightarrow> string \<Rightarrow> installed_tool \<Rightarrow> install_state \<Rightarrow> installed_tool upd" where
  "do_legacy_update E version tool s =
    (let i = tool_name tool; path = upd_agent_path E i; backup = with_extension E path ''backup'';
         I = ue_install E in
     if \<not> is_standard (it_installation tool) then (Err LegacyNotStandard, s)
     else
       and_do (upd_stop (stop_tool (upd_kill E) i) s) (\<lambda>_ s1.
       and_do (if ns_files s1 path = None then (Ok (), s1)
               else case copy_file E path backup s1 of
                   (True, s2) \<Rightarrow> (Ok (), s2) | (False, s2) \<Rightarrow> (Err BackupFailed, s2)) (\<lambda>_ s2.
         case ie_artifact I i of
           None \<Rightarrow> (Err (UpdDownload ArtifactFailed), s2)
         | Some bytes \<Rightarrow>
             and_do (map_err UpdWrite (write_file I True path bytes s2)) (\<lambda>_ s3.
             and_do (save_tool E SaveLegacy (tool \<lparr> it_version := version \<rparr>) s3) (\<lambda>_ s4.
               (Ok (tool \<lparr> it_version := version \<rparr>),
                publish_installed_agent_message E i version (cleanup_backup E (Some backup) s4)))))))"

definition same_type_update ::
  "upd_env \<Rightarrow> string \<Rightarrow> download_configuration \<Rightarrow> installed_tool \<Rightarrow> install_state \<Rightarrow> installed_tool upd" where
  "same_type_update E version config tool s =
    and_do (run_update E tool config s) (\<lambda>inst s1.
      let tool1 = (case inst of Some x \<Rightarrow> tool \<lparr> it_installation := x \<rparr> | None \<Rightarrow> tool) in
      case clear_aside_binary E 3 (tool_executable (upd_ops E) tool1) s1 of
        (False, s2) \<Rightarrow> (Ok tool1, s2)
      | (True, s2) \<Rightarrow> record_version E SaveUpdated (tool1 \<lparr> it_version := version \<rparr>) s2)"

definition do_tool_update ::
  "upd_env \<Rightarrow> tool_agent_update_message \<Rightarrow> installed_tool \<Rightarrow> install_state \<Rightarrow> installed_tool upd" where
  "do_tool_update E m tool s =
    (let version = um_version m in
     if um_download_configurations m = [] then do_legacy_update E version tool s
     else case find_config_for_current_os (ie_download (ue_install E)) (um_download_configurations m) of
         Inl e \<Rightarrow> (Err UpdNoConfig, s)
       | Inr config \<Rightarrow>
           if \<not> needs_migration (it_installation tool) (dc_installation_type config)
           then same_type_update E version config tool s
           else case detect_actual_installation E (tool_name tool) config of
               Some actual \<Rightarrow>
                 (let tool1 = tool \<lparr> it_installation := actual \<rparr> in
                  and_do (save_tool E SaveDetected tool1 s) (\<lambda>_ s1. same_type_update E version config tool1 s1))
             | None \<Rightarrow>
                 and_do (run_migration E tool config s) (\<lambda>inst s1.
                   record_version E SaveMigrated (tool \<lparr> it_version := version, it_installation := inst \<rparr>) s1))"

definition asset_of :: "installed_tool \<Rightarrow> string \<Rightarrow> installed_asset option" where
  "asset_of tool i = find (\<lambda>a. as_id a = i) (it_assets tool)"

definition set_asset :: "string \<Rightarrow> string \<Rightarrow> bool \<Rightarrow> installed_asset list \<Rightarrow> installed_asset list" where
  "set_asset i version executable as =
    (case modify_first (\<lambda>a. as_id a = i) (\<lambda>a. a \<lparr> as_version := version \<rparr>) as of
       Some bs \<Rightarrow> bs
     | None \<Rightarrow> as @ [\<lparr> as_id = i, as_version = version, as_executable = executable \<rparr>])"

definition do_asset_update ::
  "upd_env \<Rightarrow> asset_update \<Rightarrow> installed_tool \<Rightarrow> install_state \<Rightarrow> installed_tool upd" where
  "do_asset_update E a tool s =
    (case au_version a of
       None \<Rightarrow> (Err NoAssetVersion, s)
     | Some version \<Rightarrow>
         if map_option as_version (asset_of tool (au_asset_id a)) = Some version then (Ok tool, s)
         else
           (let executable = (case asset_of tool (au_asset_id a) of
                Some x \<Rightarrow> as_executable x | None \<Rightarrow> au_executable a) in
            case au_download_configurations a of
              None \<Rightarrow> (Err NoAssetConfig, s)
            | Some configs \<Rightarrow>
                (case find_config_for_current_os (ie_download (ue_install E)) configs of
                   Inl e \<Rightarrow> (Err UpdNoConfig, s)
                 | Inr config \<Rightarrow>
                     (let path = get_asset_path (upd_ops E) (tool_name tool) (dc_target_file_name config) executable;
                          tool1 = tool \<lparr> it_assets := set_asset (au_asset_id a) version executable (it_assets tool) \<rparr> in
                      and_do (map_err UpdDownload (with_download (download_and_extract (ie_download (ue_install E)) config) s))
                        (\<lambda>bytes s1.
                      and_do (if executable then write_executable E path bytes s1
                              else map_err UpdWrite (write_file (ue_install E) False path bytes s1)) (\<lambda>_ s2.
                      and_do (save_tool E (SaveAsset (au_asset_id a)) tool1 s2) (\<lambda>_ s3.
                        (Ok tool1, publish_installed_agent_message E (au_asset_id a) version s3))))))))"

fun do_asset_updates ::
  "upd_env \<Rightarrow> asset_update list \<Rightarrow> installed_tool \<Rightarrow> install_state \<Rightarrow> installed_tool upd" where
  "do_asset_updates E [] tool s = (Ok tool, s)"
| "do_asset_updates E (a # as) tool s = and_do (do_asset_update E a tool s) (\<lambda>tool1. do_asset_updates E as tool1)"

definition do_updates ::
  "upd_env \<Rightarrow> tool_agent_update_message \<Rightarrow> installed_tool \<Rightarrow> bool \<Rightarrow> asset_update list \<Rightarrow> install_state \<Rightarrow>
   installed_tool upd" where
  "do_updates E m tool needs_tool_update assets s =
    and_do
      (if needs_tool_update then do_tool_update E m tool s
       else if assets \<noteq> []
       then and_do (upd_stop (stop_tool (upd_kill E) (um_tool_agent_id m)) s) (\<lambda>_ s1. (Ok tool, s1))
       else (Ok tool, s))
      (\<lambda>tool1. do_asset_updates E assets tool1)"

definition wants_update :: "installed_tool \<Rightarrow> asset_update \<Rightarrow> bool" where
  "wants_update tool a =
    (case au_version a of
       None \<Rightarrow> False
     | Some version \<Rightarrow>
         unwrap_or (au_download_configurations a) [] \<noteq> []
         \<and> map_option as_version (asset_of tool (au_asset_id a)) \<noteq> Some version)"

definition relaunch_windows_gui_app :: "upd_env \<Rightarrow> installed_tool \<Rightarrow> install_state \<Rightarrow> install_state" where
  "relaunch_windows_gui_app E tool s =
    (if upd_platform E = Windows \<and> is_gui_app (it_installation tool) \<and> ue_launch_ok E
     then record_ev (AppLaunched (tool_executable (upd_ops E) tool)
            (resolved_run_args E tool @ background_flag (tool_name tool))) s
     else s)"

definition set_tool_state :: "upd_env \<Rightarrow> string \<Rightarrow> tool_record_state \<Rightarrow> install_state \<Rightarrow> install_state" where
  "set_tool_state E i st s =
    on_ops (on_rm (\<lambda>rm. rm \<lparr> rm_tools := snd (tools_set_state (ie_state_io (ue_install E)) i st (rm_tools rm)) \<rparr>)) s"

text \<open>The work under the updating mark.\<close>

definition update_marked ::
  "upd_env \<Rightarrow> tool_agent_update_message \<Rightarrow> installed_tool \<Rightarrow> bool \<Rightarrow> bool \<Rightarrow> asset_update list \<Rightarrow>
   install_state \<Rightarrow> unit upd" where
  "update_marked E m tool needs_repair needs_tool_update assets s =
    (let i = um_tool_agent_id m in
     case do_updates E m tool needs_tool_update assets (on_ops (on_rm (mark_updating i)) s) of
       (Inl e, s1) \<Rightarrow>
         (Err e, if e = NeverReturned then s1 else on_ops (on_rm (clear_updating i)) s1)
     | (Inr tool1, s1) \<Rightarrow>
         (let s2 = on_ops (on_rm (clear_updating i)) s1;
              s3 = (if needs_repair then set_tool_state E i Installed s2 else s2) in
          (Ok (), if is_gui_app (it_installation tool) then relaunch_windows_gui_app E tool1 s3 else s3)))"

definition process_tool_update ::
  "upd_env \<Rightarrow> tool_agent_update_message \<Rightarrow> install_state \<Rightarrow> unit upd" where
  "process_tool_update E m s =
    (let i = um_tool_agent_id m in
     case tools_get_by_tool_agent_id (oe_read (upd_ops E)) i (rm_tools (ns_rm s)) of
       Inl e \<Rightarrow> (Err (UpdLookupFailed e), s)
     | Inr None \<Rightarrow> (Ok (), s)
     | Inr (Some tool) \<Rightarrow>
         (let was_installing = (it_state tool = Installing);
              missing = \<not> re_binary_present (oe_run (upd_ops E)) (tool_executable (upd_ops E) tool);
              needs_repair = (was_installing \<or> missing);
              tool1 = (if needs_repair then tool \<lparr> it_state := Installing \<rparr> else tool);
              s1 = (if missing \<and> \<not> was_installing then set_tool_state E i Installing s else s);
              needs_tool_update = (needs_repair \<or> it_version tool \<noteq> um_version m);
              assets = filter (wants_update tool1) (unwrap_or (um_assets m) []) in
          if \<not> needs_tool_update \<and> assets = [] then (Ok (), s1)
          else update_marked E m tool1 needs_repair needs_tool_update assets s1))"

definition update_dispatch :: "upd_env \<Rightarrow> tool_agent_update_message \<Rightarrow> install_state \<Rightarrow> install_state" where
  "update_dispatch E m s =
    (case process_tool_update E m s of
       (Inl e, s1) \<Rightarrow> s1
     | (Inr _, s1) \<Rightarrow> record_ev (UpdateAcked (um_tool_agent_id m)) s1)"

section \<open>What an update keeps\<close>

text \<open>An update of tool i touches no other record, keeps the tool's record in existence with what P
  says of it, and leaves the locks and marks alone.\<close>

definition record_is :: "(installed_tool \<Rightarrow> bool) \<Rightarrow> string \<Rightarrow> install_state \<Rightarrow> bool" where
  "record_is P i s \<longleftrightarrow>
     (case registry (rm_tools (ns_rm s)) i of Some x \<Rightarrow> P x | None \<Rightarrow> False)"

definition upd_kept :: "string \<Rightarrow> (installed_tool \<Rightarrow> bool) \<Rightarrow> install_state \<Rightarrow> install_state \<Rightarrow> bool" where
  "upd_kept i P s t \<longleftrightarrow> locks_kept s t \<and>
     (\<forall>j. j \<noteq> i \<longrightarrow> registry (rm_tools (ns_rm t)) j = registry (rm_tools (ns_rm s)) j) \<and>
     (record_is P i s \<longrightarrow> record_is P i t)"

lemma upd_kept_refl [simp]: "upd_kept i P s s" by (simp add: upd_kept_def locks_kept_def)

lemma upd_kept_trans: "upd_kept i P s t \<Longrightarrow> upd_kept i P t u \<Longrightarrow> upd_kept i P s u"
  by (simp add: upd_kept_def locks_kept_def)

lemma upd_kept_books: "same_books s t \<Longrightarrow> upd_kept i P s t"
  by (simp add: upd_kept_def locks_kept_def same_books_def same_rm_def record_is_def)

definition good_update :: "string \<Rightarrow> (installed_tool \<Rightarrow> bool) \<Rightarrow> install_state \<Rightarrow> installed_tool upd \<Rightarrow> bool" where
  "good_update i P s rt \<longleftrightarrow> upd_kept i P s (snd rt) \<and>
     (\<forall>tool. fst rt = Ok tool \<longrightarrow> tool_name tool = i \<and> P tool)"

lemma good_update_then:
  assumes "upd_kept i P s (snd r)" "\<And>x t. r = (Ok x, t) \<Longrightarrow> good_update i P t (f x t)"
  shows "good_update i P s (and_do r f)"
  using assms
  by (cases r; cases "fst r") (auto simp: good_update_def and_do_def intro: upd_kept_trans)

lemma good_update_from: "upd_kept i P s t \<Longrightarrow> good_update i P t r \<Longrightarrow> good_update i P s r"
  by (auto simp: good_update_def intro: upd_kept_trans)

lemma good_update_basic [simp]:
  "good_update i P s (Err e, t) \<longleftrightarrow> upd_kept i P s t"
  "good_update i P s (Ok tool, t) \<longleftrightarrow> upd_kept i P s t \<and> tool_name tool = i \<and> P tool"
  by (auto simp: good_update_def)

lemma books_file_ops:
  "same_books s (remove_file p t) = same_books s t" "same_books s (put_file p c t) = same_books s t"
  "same_books s (record_ev e t) = same_books s t" "same_books s (try_kill f t) = same_books s t"
  using manager.with_kill_keeps[of "ns_ops t" f]
  by (auto simp: same_books_def remove_file_def put_file_def same_rm_def try_kill_def on_ops_def)

lemma books_survivors: "same_books s (look_for_survivors E tool t) = same_books s t"
  by (simp add: look_for_survivors_def same_books_def on_ops_def same_rm_def)

lemma books_refl [simp]: "same_books s s" by (rule books.keeps_refl)

lemma map_err_snd: "snd (map_err f r) = snd r"
  by simp

lemma upd_stop_books: "same_books s (snd (upd_stop f s))"
  using manager.with_kill_keeps[of "ns_ops s" f]
  by (auto simp: upd_stop_def same_books_def split: prod.split)

lemma move_aside_books: "same_books s (move_aside E p t) = same_books s t"
  by (auto simp: move_aside_def Let_def books_file_ops split: option.split)

lemma write_executable_books: "same_books s (snd (write_executable E p b s))"
  using books.write_keeps[of s "ue_install E" True p b]
    books.write_keeps[of "move_aside E p s" "ue_install E" True p b] move_aside_books[of s E p s]
    books.keeps_trans[of s "move_aside E p s"]
  by (auto simp: write_executable_def)

lemma clear_aside_books: "same_books s (snd (clear_aside_binary E n p t)) = same_books s t"
  by (simp add: clear_aside_binary_def Let_def books_file_ops)

lemma copy_file_books: "same_books s (snd (copy_file E p q t)) = same_books s t"
  by (auto simp: copy_file_def books_file_ops split: option.split)

lemma backup_binary_books: "same_books s (snd (backup_binary E p t)) = same_books s t"
  using copy_file_books[of s E p "with_extension E p ''backup''" t]
  by (auto simp: backup_binary_def Let_def split: prod.split bool.split)

lemma cleanup_backup_books: "same_books s (cleanup_backup E b t) = same_books s t"
  by (auto simp: cleanup_backup_def books_file_ops split: option.split)

lemma restore_books: "same_books s (snd (restore_from_backup E b p t)) = same_books s t"
  by (cases b)
    (use copy_file_books[of s E "the b" p t] in
      \<open>auto simp: restore_from_backup_def books_file_ops split: prod.split bool.split\<close>)

lemma download_write_books: "same_books s (snd (download_and_write_binary E c p s))"
  unfolding download_and_write_binary_def
  by (intro books.then_keeps) (auto simp: books.download_keeps write_executable_books)

lemma start_system_service_books: "same_books s (snd (start_system_service E n name t)) = same_books s t"
  by (simp add: start_system_service_def books_file_ops)

lemma publish_books: "same_books s (publish_installed_agent_message E i v s)"
  by (simp add: publish_installed_agent_message_def books.announce_keeps)

lemma extract_all_books: "same_books s (snd (extract_all E c d s))"
  by (simp add: extract_all_def books.download_keeps)

lemma remove_bundle_books: "same_books s (snd (remove_app_bundle E p s))"
  by (simp add: remove_app_bundle_def books_file_ops)

lemma gui_books:
  "same_books s (set_preferences E tool b t) = same_books s t"
  "same_books s (launch_as_user E tool p b t) = same_books s t"
  by (auto simp: set_preferences_def launch_as_user_def Let_def books_file_ops split: option.split)

lemmas upd_books = books_file_ops books_survivors clear_aside_books copy_file_books backup_binary_books
  cleanup_backup_books restore_books start_system_service_books gui_books move_aside_books

lemma update_prepare_books: "same_books s (snd (update_prepare E u tool s))"
proof (cases u)
  case StandardUpdater
  then show ?thesis
    by (auto simp: update_prepare_defs Let_def upd_books intro!: books.then_keeps upd_stop_books)
next
  case GuiAppUpdater
  then show ?thesis by (auto simp: update_prepare_defs Let_def intro!: books.then_keeps upd_stop_books)
next
  case ServiceUpdater
  then show ?thesis
    by (auto simp: update_prepare_defs Let_def upd_books intro!: books.then_keeps)
qed

lemma update_apply_books: "same_books s (snd (update_apply E u tool c s))"
  by (cases u)
    (auto simp: update_apply_defs Let_def
      intro!: books.then_keeps download_write_books remove_bundle_books extract_all_books
      split: installation.split)

lemma remediate_books: "same_books s (remediate_orphaned_service E tool name p t) = same_books s t"
proof -
  let ?t = "try_kill (stop_tool (upd_kill E) (tool_name tool))
      (try_kill (stop_installed_tool (upd_kill E) tool False) t)"
  obtain b t1 where c: "clear_aside_binary E 2 p ?t = (b, t1)" by fastforce
  have "same_books s t1 = same_books s t"
    using clear_aside_books[of s E 2 p ?t] c by (simp add: books_file_ops)
  then show ?thesis
    using c by (cases b) (simp_all add: remediate_orphaned_service_def Let_def upd_books)
qed

lemma update_finalize_books: "same_books s (snd (update_finalize E u tool ctx s))"
proof (cases u)
  case ServiceUpdater
  obtain b t1 where c: "(if upd_platform E = Windows then clear_aside_binary E 1 (service_executable_path E tool) s
      else (True, s)) = (b, t1)" by fastforce
  have t1: "same_books s t1"
    using c clear_aside_books[of s E 1 "service_executable_path E tool" s] by (auto split: if_splits)
  have "same_books s (snd (and_do (start_system_service E 0 name t1) (\<lambda>_ s2.
      (Ok (), cleanup_backup E (uc_backup_path ctx) s2))))" for name
    by (rule books.keeps_trans[OF t1], rule books.then_keeps) (simp_all add: upd_books)
  then show ?thesis using ServiceUpdater c t1
    by (cases b) (auto simp: update_finalize_defs Let_def upd_books remediate_books split: installation.split)
qed (auto simp: update_finalize_defs upd_books split: installation.split)

lemma update_rollback_books: "same_books s (snd (update_rollback E u tool ctx s))"
  by (cases u)
    (auto simp: update_rollback_def service_rollback_def upd_books intro!: books.then_keeps split: installation.split)

lemma run_update_books: "same_books s (snd (run_update E tool c s))"
proof -
  have "same_books t (snd (case update_apply E u tool c t of
         (Inl e, s2) \<Rightarrow> (Err e, snd (update_rollback E u tool ctx s2))
       | (Inr inst, s2) \<Rightarrow>
           and_do (update_finalize E u (f inst) ctx s2) (\<lambda>_ s3. (Ok inst, s3))))" for t u ctx f
  proof -
    obtain r t1 where a: "update_apply E u tool c t = (r, t1)" by fastforce
    have t1: "same_books t t1" using update_apply_books[of t E u tool c] a by simp
    have "same_books t1 (snd (and_do (update_finalize E u x ctx t1) (\<lambda>_ s3. (Ok inst, s3))))" for x inst
      by (intro books.then_keeps) (simp_all add: update_finalize_books)
    note step = this
    show ?thesis
    proof (cases r)
      case (Inl e)
      then show ?thesis
        using a books.keeps_trans[OF t1 update_rollback_books[of t1 E u tool ctx]] by simp
    next
      case (Inr inst)
      then show ?thesis using a books.keeps_trans[OF t1 step] by simp
    qed
  qed
  then show ?thesis
    unfolding run_update_def Let_def by (intro books.then_keeps update_prepare_books) auto
qed

lemma save_tool_kept:
  assumes "tool_name tool = i" "P tool"
  shows "upd_kept i P s (snd (save_tool E p tool s))"
proof -
  obtain r f where f: "tools_save (ue_save E p) tool (rm_tools (ns_rm s)) = (r, f)" by fastforce
  show ?thesis
    using assms f tools_save_map(1)[OF f]
    by (cases r) (auto simp: save_tool_def upd_kept_def locks_kept_def record_is_def on_ops_def on_rm_def)
qed

lemma record_version_good:
  assumes "tool_name tool = i" "P tool"
  shows "good_update i P s (record_version E p tool s)"
  unfolding record_version_def
proof (rule good_update_then)
  fix x t assume "save_tool E p tool s = (Ok x, t)"
  have "same_books t (register_windows_gui_app_autorun E tool t)"
    by (simp add: register_windows_gui_app_autorun_def books_file_ops)
  then have "same_books t (publish_installed_agent_message E (tool_name tool) (it_version tool)
      (register_windows_gui_app_autorun E tool t))"
    using publish_books books.keeps_trans by blast
  then show "good_update i P t (Ok tool, publish_installed_agent_message E (tool_name tool)
      (it_version tool) (register_windows_gui_app_autorun E tool t))"
    using assms upd_kept_books by simp
qed (intro save_tool_kept assms)

lemma run_migration_books: "same_books s (snd (run_migration E tool c s))"
proof -
  have fin: "same_books t (finalize_migration E tool inst t)" for inst t
    by (simp add: finalize_migration_def Let_def upd_books split: installation.split)
  have mac: "same_books t (snd (extract_all E c d (remove_file q t)))" for t q d
    by (rule books.keeps_trans[OF _ extract_all_books]) (simp add: books_file_ops)
  have "same_books t (snd (migrate_standard_to_gui E tool c t))" for t
    by (auto simp: migrate_standard_to_gui_def Let_def
        intro!: books.then_keeps download_write_books extract_all_books mac)
  then show ?thesis
    using fin by (auto simp: run_migration_def intro!: books.then_keeps upd_stop_books)
qed

lemma relaunch_books: "same_books s (relaunch_windows_gui_app E tool s)"
  by (simp add: relaunch_windows_gui_app_def books_file_ops)

lemma registry_lookup:
  "tools_get_by_tool_agent_id io i f = Ok q \<Longrightarrow> registry f i = q"
  "tools_get_by_tool_agent_id io i f = Ok (Some tool) \<Longrightarrow> tool_name tool = i"
  using tools_get_all_ok
  by (auto simp: tools_get_by_tool_agent_id_def registry_def dest: lookup_key split: sum.splits)

text \<open>Marking before and clearing after an operation that keeps the marks.\<close>

lemma mark_and_clear:
  assumes "upd_kept i P (on_ops (on_rm (mark_updating i)) s) t" "rm_updating (ns_rm s) i \<noteq> Some 0"
  shows "upd_kept i P s (on_ops (on_rm (clear_updating i)) t)"
proof -
  have "rm_updating (ns_rm t) = rm_updating (mark_updating i (ns_rm s))"
    using assms(1) by (simp add: upd_kept_def locks_kept_def on_ops_def on_rm_def)
  then have "rm_updating (clear_updating i (ns_rm t)) = rm_updating (ns_rm s)"
    using assms(2)
    by (auto simp: clear_updating_def mark_updating_def Let_def fun_eq_iff split: option.splits)
  moreover have "rm_tools (clear_updating i rm) = rm_tools rm"
    "rm_tool_locks (clear_updating i rm) = rm_tool_locks rm"
    "rm_tools (mark_updating i rm) = rm_tools rm" "rm_tool_locks (mark_updating i rm) = rm_tool_locks rm" for rm
    by (simp_all add: clear_updating_def mark_updating_def Let_def split: option.split)
  ultimately show ?thesis
    using assms(1) by (simp add: upd_kept_def locks_kept_def on_ops_def on_rm_def record_is_def)
qed

text \<open>What holds of a record whatever its installation and its state, and of the new version.\<close>

locale record_claim =
  fixes P :: "installed_tool \<Rightarrow> bool" and v :: string
  assumes P_installation: "P x \<Longrightarrow> P (x \<lparr> it_installation := inst \<rparr>)"
    and P_state: "P x \<Longrightarrow> P (x \<lparr> it_state := st \<rparr>)"
    and P_version: "P x \<Longrightarrow> P (x \<lparr> it_version := v \<rparr>)"
begin

lemmas P_closed = P_installation P_state P_version

lemma do_legacy_update_good:
  assumes "tool_name tool = i" "P tool"
  shows "good_update i P s (do_legacy_update E v tool s)"
proof -
  let ?path = "upd_agent_path E i" and ?b = "with_extension E (upd_agent_path E i) ''backup''"
  have copy: "upd_kept i P t (snd (if ns_files t ?path = None then (Ok (), t)
      else case copy_file E ?path ?b t of (True, s2) \<Rightarrow> (Ok (), s2) | (False, s2) \<Rightarrow> (Err BackupFailed, s2)))" for t
    using copy_file_books[of t E ?path ?b t] by (auto intro: upd_kept_books split: prod.split bool.split)
  have wr: "upd_kept i P t (snd (write_file I x p b t))" for I x p b t
    by (simp add: upd_kept_books books.write_keeps)
  have stop: "upd_kept i P t (snd (upd_stop f t))" for f t
    by (simp add: upd_kept_books upd_stop_books)
  have fin: "upd_kept i P t (publish_installed_agent_message E i v (cleanup_backup E x t))" for x t
    using publish_books[of "cleanup_backup E x t" E i v] cleanup_backup_books[of t E x t]
    by (auto intro: upd_kept_books books.keeps_trans)
  have sv: "upd_kept i P t (snd (save_tool E p (tool \<lparr> it_version := v \<rparr>) t))" for p t
    using assms P_closed by (intro save_tool_kept) auto
  show ?thesis
    using assms
    by (simp add: do_legacy_update_def Let_def good_update_then stop copy wr fin sv P_version split: option.split)
qed

lemma same_type_update_good:
  assumes "tool_name tool = i" "P tool"
  shows "good_update i P s (same_type_update E v c tool s)"
  unfolding same_type_update_def
proof (rule good_update_then)
  show "upd_kept i P s (snd (run_update E tool c s))" by (rule upd_kept_books[OF run_update_books])
  fix inst t
  let ?t1 = "case inst of Some x \<Rightarrow> tool \<lparr> it_installation := x \<rparr> | None \<Rightarrow> tool"
  obtain b t2 where c: "clear_aside_binary E 3 (tool_executable (upd_ops E) ?t1) t = (b, t2)" by fastforce
  have k: "upd_kept i P t t2"
    using clear_aside_books[of t E 3 "tool_executable (upd_ops E) ?t1" t] c by (simp add: upd_kept_books)
  have n: "tool_name ?t1 = i" "P ?t1" using assms P_closed by (simp_all split: option.split)
  have "good_update i P t2 (record_version E SaveUpdated (?t1 \<lparr> it_version := v \<rparr>) t2)"
    using n P_closed by (intro record_version_good) auto
  then show "good_update i P t (let tool1 = ?t1 in
      case clear_aside_binary E 3 (tool_executable (upd_ops E) tool1) t of
        (False, s2) \<Rightarrow> (Ok tool1, s2)
      | (True, s2) \<Rightarrow> record_version E SaveUpdated (tool1 \<lparr> it_version := v \<rparr>) s2)"
    using c k n good_update_from[OF k] by (cases b) (simp_all add: Let_def)
qed

lemma do_tool_update_good:
  assumes "tool_name tool = i" "P tool" "um_version m = v"
  shows "good_update i P s (do_tool_update E m tool s)"
proof -
  have "good_update i P t (record_version E SaveMigrated (tool \<lparr> it_version := um_version m, it_installation := x \<rparr>) t)"
    for x t using assms P_closed by (intro record_version_good) auto
  moreover have "good_update i P t (same_type_update E (um_version m) c (tool \<lparr> it_installation := x \<rparr>) t)"
    for x t c
    using assms P_installation same_type_update_good[of "tool \<lparr> it_installation := x \<rparr>" i t E c] by simp
  moreover have "upd_kept i P t (snd (save_tool E p (tool \<lparr> it_installation := x \<rparr>) t))" for x p t
    using assms P_closed by (intro save_tool_kept) auto
  moreover have "upd_kept i P t (snd (run_migration E tool c t))" for c t
    by (rule upd_kept_books[OF run_migration_books])
  ultimately show ?thesis
    using assms do_legacy_update_good[of tool i s E]
      same_type_update_good[of tool i s E]
    by (simp add: do_tool_update_def Let_def good_update_then split: sum.split option.split)
qed

lemma set_tool_state_kept: "upd_kept i P s (set_tool_state E i st s)"
proof -
  obtain r f where f: "tools_set_state (ie_state_io (ue_install E)) i st (rm_tools (ns_rm s)) = (r, f)"
    by fastforce
  show ?thesis
    using f tools_set_state_map(1)[OF f] P_state
    by (auto simp: set_tool_state_def upd_kept_def locks_kept_def record_is_def on_ops_def on_rm_def
        split: option.splits if_splits)
qed

end

locale asset_claim = record_claim +
  assumes P_assets: "P x \<Longrightarrow> P (x \<lparr> it_assets := as \<rparr>)"
begin

lemma do_asset_update_good:
  assumes "tool_name tool = i" "P tool"
  shows "good_update i P s (do_asset_update E a tool s)"
proof -
  have dl: "upd_kept i P t (snd (with_download f t))"
    for f :: "download_state \<Rightarrow> (download_error, string) result \<times> download_state" and t
    by (simp add: upd_kept_books books.download_keeps)
  have wr: "upd_kept i P t (snd (write_executable E p b t))"
    "upd_kept i P t (snd (write_file (ue_install E) False p b t))" for p b t
    by (simp_all add: upd_kept_books write_executable_books books.write_keeps)
  have pub: "upd_kept i P t (publish_installed_agent_message E j v t)" for j v t
    by (rule upd_kept_books[OF publish_books])
  have set: "upd_kept i P t (snd (save_tool E p (tool \<lparr> it_assets := x \<rparr>) t))" for p x t
    using assms P_assets by (intro save_tool_kept) auto
  show ?thesis
    using assms
    by (simp add: do_asset_update_def Let_def good_update_then dl wr pub set P_assets
        split: option.split sum.split)
qed

lemma do_asset_updates_good:
  "tool_name tool = i \<Longrightarrow> P tool \<Longrightarrow> good_update i P s (do_asset_updates E as tool s)"
proof (induction as arbitrary: tool s)
  case (Cons a as)
  have g: "good_update i P s (do_asset_update E a tool s)" by (rule do_asset_update_good[OF Cons.prems])
  show ?case
    unfolding do_asset_updates.simps
  proof (rule good_update_then)
    show "upd_kept i P s (snd (do_asset_update E a tool s))" using g by (simp add: good_update_def)
    fix x t assume "do_asset_update E a tool s = (Ok x, t)"
    then have "tool_name x = i" "P x" using g by simp_all
    then show "good_update i P t (do_asset_updates E as x t)" by (rule Cons.IH)
  qed
qed simp

lemma do_updates_good:
  assumes "tool_name tool = i" "P tool" "um_version m = v"
  shows "good_update i P s (do_updates E m tool n as s)"
proof -
  have first: "good_update i P s
      (if n then do_tool_update E m tool s
       else if as \<noteq> []
       then and_do (upd_stop (stop_tool (upd_kill E) (um_tool_agent_id m)) s) (\<lambda>_ s1. (Ok tool, s1))
       else (Ok tool, s))" (is "good_update i P s ?r")
    using assms do_tool_update_good[OF assms, of s E]
    by (simp add: good_update_then upd_kept_books upd_stop_books)
  show ?thesis
    unfolding do_updates_def
  proof (rule good_update_then)
    show "upd_kept i P s (snd ?r)" using first unfolding good_update_def by blast
    fix x t assume "?r = (Ok x, t)"
    then have "tool_name x = i" "P x" using first unfolding good_update_def by auto
    then show "good_update i P t (do_asset_updates E as x t)" by (rule do_asset_updates_good)
  qed
qed

lemma update_marked_kept:
  assumes "update_marked E m tool rep n as s = (r, t)" "r \<noteq> Err NeverReturned"
    and "tool_name tool = i" "P tool" "um_version m = v" "i = um_tool_agent_id m"
    and "rm_updating (ns_rm s) i \<noteq> Some 0"
  shows "upd_kept i P s t"
proof -
  obtain w s1 where w: "do_updates E m tool n as (on_ops (on_rm (mark_updating i)) s) = (w, s1)"
    by fastforce
  have "good_update i P (on_ops (on_rm (mark_updating i)) s) (w, s1)"
    unfolding w[symmetric] using assms(3-5) by (rule do_updates_good)
  then have "upd_kept i P (on_ops (on_rm (mark_updating i)) s) s1" by (simp add: good_update_def)
  note restored = mark_and_clear[OF this assms(7)]
  show ?thesis
  proof (cases w)
    case (Inl e)
    then have "r = Err e" "t = (if e = NeverReturned then s1 else on_ops (on_rm (clear_updating i)) s1)"
      using assms(1,6) w by (auto simp: update_marked_def Let_def)
    then show ?thesis using assms(2) restored by simp
  next
    case (Inr tool1)
    let ?s2 = "on_ops (on_rm (clear_updating i)) s1"
    let ?s3 = "if rep then set_tool_state E i Installed ?s2 else ?s2"
    have "t = (if is_gui_app (it_installation tool) then relaunch_windows_gui_app E tool1 ?s3 else ?s3)"
      using assms(1,6) w Inr by (auto simp: update_marked_def Let_def)
    moreover have "upd_kept i P ?s2 ?s3" by (simp add: set_tool_state_kept)
    moreover have "upd_kept i P u (relaunch_windows_gui_app E tool1 u)" for u
      by (rule upd_kept_books[OF relaunch_books])
    ultimately show ?thesis
      using upd_kept_trans[OF restored] upd_kept_trans[of i P s ?s3] by presburger
  qed
qed

end

interpretation versions: asset_claim "\<lambda>x. it_version x \<in> {old, v}" v for old v
  by unfold_locales auto

text \<open>C20. The contract of a tool update that returns: the locks and marks are as before, no other
  tool's record changes, and the tool's record is still there with its old version or the new one and
  nothing else, whatever failed on the way. A tool without a record is left alone, and so is one
  that is installed, present and at the wanted versions: its processes are not stopped and nothing
  at all changes.\<close>

theorem update_contract:
  assumes "process_tool_update E m s = (r, t)" "r \<noteq> Err NeverReturned"
    and "rm_updating (ns_rm s) (um_tool_agent_id m) \<noteq> Some 0"
  defines "i \<equiv> um_tool_agent_id m" and "R \<equiv> registry (rm_tools (ns_rm s))"
    and "R' \<equiv> registry (rm_tools (ns_rm t))"
  shows "os_locked (ns_ops t) = os_locked (ns_ops s) \<and> rm_updating (ns_rm t) = rm_updating (ns_rm s) \<and>
    (\<forall>j. j \<noteq> i \<longrightarrow> R' j = R j) \<and>
    (\<forall>x. R i = Some x \<longrightarrow> (\<exists>y. R' i = Some y \<and> it_version y \<in> {it_version x, um_version m})) \<and>
    (R i = None \<longrightarrow> t = s) \<and>
    (\<forall>x. R i = Some x \<longrightarrow> it_state x = Installed \<longrightarrow> it_version x = um_version m \<longrightarrow>
       re_binary_present (oe_run (upd_ops E)) (tool_executable (upd_ops E) x) \<longrightarrow>
       (\<forall>a \<in> set (unwrap_or (um_assets m) []). \<not> wants_update x a) \<longrightarrow> t = s)"
proof (cases "tools_get_by_tool_agent_id (oe_read (upd_ops E)) i (rm_tools (ns_rm s))")
  case (Inl e)
  then have "t = s" using assms(1) by (simp add: process_tool_update_def i_def Let_def)
  then show ?thesis by (simp add: R_def R'_def)
next
  case (Inr q)
  show ?thesis
  proof (cases q)
    case None
    then have "t = s" "R i = None"
      using assms(1) Inr registry_lookup(1)[OF Inr] by (simp_all add: process_tool_update_def i_def Let_def R_def)
    then show ?thesis by (simp add: R_def R'_def)
  next
    case (Some x)
    have x: "R i = Some x" "tool_name x = i"
      using registry_lookup[OF Inr[unfolded Some]] by (simp_all add: R_def)
    let ?V = "\<lambda>y. it_version y \<in> {it_version x, um_version m}"
    let ?wi = "it_state x = Installing"
    let ?missing = "\<not> re_binary_present (oe_run (upd_ops E)) (tool_executable (upd_ops E) x)"
    let ?x1 = "if ?wi \<or> ?missing then x \<lparr> it_state := Installing \<rparr> else x"
    let ?s1 = "if ?missing \<and> \<not> ?wi then set_tool_state E i Installing s else s"
    let ?n = "(?wi \<or> ?missing) \<or> it_version x \<noteq> um_version m"
    let ?as = "filter (wants_update ?x1) (unwrap_or (um_assets m) [])"
    have s1: "upd_kept i ?V s ?s1" using versions.set_tool_state_kept by (simp only: if_split upd_kept_refl simp_thms)
    have zero: "rm_updating (ns_rm ?s1) i \<noteq> Some 0"
      using s1 assms(3) by (simp add: upd_kept_def locks_kept_def i_def split: if_splits)
    have kept: "upd_kept i ?V s t"
    proof (cases "\<not> ?n \<and> ?as = []")
      case True
      then have "filter (wants_update x) (unwrap_or (um_assets m) []) = []" "\<not> ?missing"
        "it_version x = um_version m" "\<not> ?wi" by auto
      then show ?thesis using assms(1) Inr Some by (simp add: process_tool_update_def i_def Let_def)
    next
      case False
      then have "update_marked E m ?x1 (?wi \<or> ?missing) ?n ?as ?s1 = (r, t)"
        using assms(1) Inr Some by (simp only: process_tool_update_def i_def Let_def sum.case option.case if_False)
      then have "upd_kept i ?V ?s1 t"
        using versions.update_marked_kept[OF _ assms(2) _ _ refl meta_eq_to_obj_eq[OF i_def] zero, of E ?x1 "?wi \<or> ?missing" ?n ?as t "it_version x"] x(2)
        by simp
      then show ?thesis using upd_kept_trans[OF s1] by blast
    qed
    have "record_is ?V i s" using x(1) by (simp add: record_is_def R_def)
    then have "record_is ?V i t" using kept by (simp add: upd_kept_def)
    then have "\<exists>y. R' i = Some y \<and> it_version y \<in> {it_version x, um_version m}"
      by (auto simp: record_is_def R'_def split: option.splits)
    moreover have "t = s" if "it_state x = Installed" "it_version x = um_version m" "\<not> ?missing"
        "\<forall>a \<in> set (unwrap_or (um_assets m) []). \<not> wants_update x a"
      using assms(1) Inr Some that by (simp add: process_tool_update_def i_def Let_def)
    ultimately show ?thesis
      using kept x(1) by (auto simp: upd_kept_def locks_kept_def R_def R'_def)
  qed
qed

section \<open>A failed update puts the old binary back\<close>

lemma last_of_agent_path: "last (agent_path E i) \<in> {CHR ''t'', CHR ''e''}"
  by (simp add: agent_path_def get_tool_executable_path_def join_path_def)

lemma last_of_backup: "last (with_extension E p ''backup'') = CHR ''p''"
  by (simp add: with_extension_def replace_extension_def Let_def)

lemma backup_apart:
  "with_extension E (upd_agent_path E i) ''backup'' \<noteq> upd_agent_path E i"
  "with_extension E p ''backup'' \<noteq> aside_path p" "aside_path p \<noteq> p"
proof -
  show "with_extension E (upd_agent_path E i) ''backup'' \<noteq> upd_agent_path E i"
    using last_of_agent_path[of "ue_install E" i] last_of_backup[of E "upd_agent_path E i"] by auto
  have "last (aside_path p) = CHR ''d''" by (simp add: aside_path_def)
  then show "with_extension E p ''backup'' \<noteq> aside_path p" using last_of_backup[of E p] by auto
  show "aside_path p \<noteq> p" by (simp add: aside_path_def)
qed

lemma files_of_steps [simp]:
  "ns_files (snd (upd_stop f s)) = ns_files s" "ns_files (look_for_survivors E tool s) = ns_files s"
  by (simp_all add: upd_stop_def look_for_survivors_def on_ops_def split: prod.split)

lemma clear_aside_files: "q \<noteq> aside_path p \<Longrightarrow> ns_files (snd (clear_aside_binary E n p s)) q = ns_files s q"
  by (auto simp: clear_aside_binary_def Let_def remove_file_def record_ev_def)

lemma write_executable_files:
  "q \<noteq> p \<Longrightarrow> q \<noteq> aside_path p \<Longrightarrow> ns_files (snd (write_executable E p bytes s)) q = ns_files s q"
  by (auto simp: write_executable_def write_file_def Let_def move_aside_def remove_file_def put_file_def
      split: file_outcome.split option.split)

lemma download_files: "ns_files (snd (with_download f s)) = ns_files s"
  by (simp add: with_download_def split: prod.split)

lemma download_write_files:
  assumes "q \<noteq> p" "q \<noteq> aside_path p"
  shows "ns_files (snd (download_and_write_binary E c p s)) q = ns_files s q"
  unfolding download_and_write_binary_def
  by (rule and_do_keeps[where Q = "\<lambda>t. ns_files t q = ns_files s q"])
    (simp_all add: assms download_files write_executable_files)

lemma backup_binary_spec:
  assumes "backup_binary E p s = (r, t)" "ns_files s p = Some c" "with_extension E p ''backup'' \<noteq> p"
  shows "ns_files t p = Some c"
    "\<And>x. r = Ok x \<Longrightarrow> x = Some (with_extension E p ''backup'') \<and> ns_files t (with_extension E p ''backup'') = Some c"
  using assms by (auto simp: backup_binary_def Let_def copy_file_def put_file_def split: option.splits)

lemma restore_spec:
  assumes "ns_files s b = Some c" "ue_copy E p = None" "b \<noteq> p"
  shows "ns_files (snd (restore_from_backup E (Some b) p s)) p = Some c"
  using assms by (simp add: restore_from_backup_def copy_file_def put_file_def remove_file_def)

lemma standard_prepare_spec:
  assumes "update_prepare E StandardUpdater tool s = (r, t)"
  defines "p \<equiv> upd_agent_path E (tool_name tool)"
  assumes "ns_files s p = Some c"
  shows "ns_files t p = Some c"
    "\<And>ctx. r = Ok ctx \<Longrightarrow> uc_backup_path ctx = Some (with_extension E p ''backup'') \<and>
       ns_files t (with_extension E p ''backup'') = Some c"
proof -
  let ?b = "with_extension E p ''backup''"
  obtain r1 s1 where stop: "upd_stop (stop_tool (upd_kill E) (tool_name tool)) s = (r1, s1)" by fastforce
  have s1: "ns_files s1 = ns_files s" using files_of_steps(1) stop by (metis snd_conv)
  define s2 where "s2 = look_for_survivors E tool (snd (clear_aside_binary E 0 p s1))"
  obtain r3 s3 where b: "backup_binary E p s2 = (r3, s3)" by fastforce
  have "ns_files s2 p = Some c"
    using assms(3) s1 backup_apart(3)[of p] by (simp add: s2_def clear_aside_files)
  then have spec: "ns_files s3 p = Some c" "\<And>x. r3 = Ok x \<Longrightarrow> x = Some ?b \<and> ns_files s3 ?b = Some c"
    using backup_binary_spec[OF b] backup_apart(1)[of E "tool_name tool"] by (auto simp: p_def)
  have up: "(r, t) = and_do (r1, s1) (\<lambda>_ _. and_do (r3, s3) (\<lambda>x s3. (Ok \<lparr> uc_backup_path = x, uc_needs_restart = True \<rparr>, s3)))"
    using assms(1) stop b by (cases r1) (simp_all add: update_prepare_defs Let_def p_def s2_def)
  show "ns_files t p = Some c" using up spec(1) s1 assms(3) by (cases r1; cases r3) auto
  show "uc_backup_path ctx = Some ?b \<and> ns_files t ?b = Some c" if "r = Ok ctx" for ctx
    using up spec(2) that by (cases r1; cases r3) auto
qed

text \<open>C21. When run_update reports a failure for a tool that is updated as a standard one and whose binary
  was there, and the copy back from the backup works, the old binary is in its place, whichever step
  failed: stopping the tool, the backup, the download, the write of the new binary or making it
  executable. The registry file is as before, so the next message tries the same update again. A
  failure after run_update (saving the new version) and the legacy update, which has no rollback, are
  not covered.\<close>

theorem failed_update_restores_binary:
  assumes "run_update E tool config s = (Err e, t)"
    and "create_updater E (it_installation tool) = StandardUpdater"
  defines "p \<equiv> upd_agent_path E (tool_name tool)"
  assumes "ns_files s p = Some c" "ue_copy E p = None"
  shows "ns_files t p = Some c \<and> rm_tools (ns_rm t) = rm_tools (ns_rm s)"
proof -
  let ?b = "with_extension E p ''backup''"
  have b: "?b \<noteq> p" "?b \<noteq> aside_path p" using backup_apart by (simp_all add: p_def)
  obtain r1 s1 where pre: "update_prepare E StandardUpdater tool s = (r1, s1)" by fastforce
  note spec = standard_prepare_spec[OF pre, folded p_def, OF assms(4)]
  have "ns_files t p = Some c"
  proof (cases r1)
    case (Inl e1)
    then show ?thesis using assms(1,2) pre spec(1) by (simp add: run_update_def)
  next
    case (Inr ctx)
    obtain r2 s2 where app: "update_apply E StandardUpdater tool config s1 = (r2, s2)" by fastforce
    have "ns_files (snd (update_apply E StandardUpdater tool config s1)) ?b = Some c"
      unfolding update_apply_def standard_apply_def Let_def updater.case p_def[symmetric]
      by (rule and_do_keeps[where Q = "\<lambda>t. ns_files t ?b = Some c"])
        (use spec(2)[OF Inr] b in \<open>simp_all add: download_write_files\<close>)
    then have s2: "ns_files s2 ?b = Some c" using app by simp
    show ?thesis
    proof (cases r2)
      case (Inl e2)
      then have "t = snd (restore_from_backup E (Some ?b) p s2)"
        using assms(1,2) pre Inr app spec(2)[OF Inr]
        by (simp add: run_update_def update_rollback_def p_def)
      then show ?thesis using restore_spec[OF s2 assms(5) b(1)] by simp
    next
      case (Inr inst)
      then have False using assms(1,2) pre \<open>r1 = Inr ctx\<close> app
        by (simp add: run_update_def update_finalize_defs)
      then show ?thesis ..
    qed
  qed
  moreover have "rm_tools (ns_rm t) = rm_tools (ns_rm s)"
    using run_update_books[of s E tool config] assms(1) by (simp add: same_books_def same_rm_def)
  ultimately show ?thesis ..
qed

section \<open>An update that succeeded is not repeated\<close>

interpretation assets: record_claim "\<lambda>x. it_assets x = A" v for A v
  by unfold_locales auto

definition has_assets_of :: "installed_tool \<Rightarrow> install_state \<Rightarrow> bool" where
  "has_assets_of tool s \<longleftrightarrow> record_is (\<lambda>x. it_assets x = it_assets tool) (tool_name tool) s"

definition asset_version :: "installed_tool \<Rightarrow> string \<Rightarrow> string option" where
  "asset_version tool i = map_option as_version (asset_of tool i)"

lemma asset_of_lookup: "asset_of tool = lookup as_id (it_assets tool)"
  by (simp add: asset_of_def lookup_def fun_eq_iff)

lemma lookup_snoc: "lookup key (xs @ [x]) j =
    (case lookup key xs j of Some y \<Rightarrow> Some y | None \<Rightarrow> if key x = j then Some x else None)"
  by (induction xs) (auto simp: lookup_def)

lemma set_asset_versions:
  "map_option as_version (lookup as_id (set_asset i v x as) j) =
     (if j = i then Some v else map_option as_version (lookup as_id as j))"
proof (cases "modify_first (\<lambda>a. as_id a = i) (\<lambda>a. a \<lparr> as_version := v \<rparr>) as")
  case None
  then have "lookup as_id as i = None" by (simp add: modify_first_None)
  then show ?thesis using None by (auto simp: set_asset_def lookup_snoc split: option.split)
next
  case (Some bs)
  then show ?thesis
    using modify_first_lookup[OF Some] modify_first_None[of as_id i "\<lambda>a. a \<lparr> as_version := v \<rparr>" as]
    by (auto simp: set_asset_def option.map_comp comp_def)
qed

lemma same_books_record: "same_books s t \<Longrightarrow> record_is P i t = record_is P i s"
  by (simp add: record_is_def same_books_def same_rm_def)

lemma save_tool_record:
  "save_tool E p tool s = (Ok u, t) \<Longrightarrow> P tool \<Longrightarrow> record_is P (tool_name tool) t"
  using tools_save_map(1)[of "ue_save E p" tool "rm_tools (ns_rm s)"]
  by (auto simp: save_tool_def record_is_def on_ops_def on_rm_def split: prod.splits sum.splits)

lemma do_asset_update_settles:
  assumes "do_asset_update E a tool s = (Ok tool', t)" "has_assets_of tool s"
  shows "has_assets_of tool' t" "asset_version tool' (au_asset_id a) = au_version a" "au_version a \<noteq> None"
    "j \<noteq> au_asset_id a \<Longrightarrow> asset_version tool' j = asset_version tool j"
    "tool_name tool' = tool_name tool"
proof -
  obtain v where v: "au_version a = Some v"
    using assms(1) by (cases "au_version a") (simp_all add: do_asset_update_def)
  have "has_assets_of tool' t \<and> asset_version tool' (au_asset_id a) = au_version a \<and>
      (j \<noteq> au_asset_id a \<longrightarrow> asset_version tool' j = asset_version tool j) \<and> tool_name tool' = tool_name tool"
  proof (cases "asset_version tool (au_asset_id a) = Some v")
    case True
    then show ?thesis using assms v by (auto simp: do_asset_update_def asset_version_def)
  next
    case False
    let ?x = "case asset_of tool (au_asset_id a) of Some x \<Rightarrow> as_executable x | None \<Rightarrow> au_executable a"
    let ?tool1 = "tool \<lparr> it_assets := set_asset (au_asset_id a) v ?x (it_assets tool) \<rparr>"
    obtain s2 s3 where s3: "save_tool E (SaveAsset (au_asset_id a)) ?tool1 s2 = (Ok (), s3)"
      "tool' = ?tool1" "t = publish_installed_agent_message E (au_asset_id a) v s3"
      using assms(1) v False
      by (auto simp: do_asset_update_def asset_version_def Let_def dest!: and_do_Ok
          split: option.splits sum.splits)
    have "has_assets_of tool' s3"
      using save_tool_record[OF s3(1)] by (simp add: has_assets_of_def s3(2))
    then have "has_assets_of tool' t"
      using same_books_record[OF publish_books] by (simp add: has_assets_of_def s3(3))
    then show ?thesis using v
      by (simp add: s3(2) asset_version_def asset_of_lookup set_asset_versions)
  qed
  then show "has_assets_of tool' t" "asset_version tool' (au_asset_id a) = au_version a" "au_version a \<noteq> None"
    "j \<noteq> au_asset_id a \<Longrightarrow> asset_version tool' j = asset_version tool j"
    "tool_name tool' = tool_name tool" using v by auto
qed

lemma do_asset_updates_settle:
  assumes "do_asset_updates E as tool s = (Ok tool', t)" "has_assets_of tool s" "distinct (map au_asset_id as)"
  shows "has_assets_of tool' t \<and> tool_name tool' = tool_name tool \<and>
    (\<forall>a \<in> set as. asset_version tool' (au_asset_id a) = au_version a) \<and>
    (\<forall>j. j \<notin> au_asset_id ` set as \<longrightarrow> asset_version tool' j = asset_version tool j)"
  using assms
proof (induction as arbitrary: tool s)
  case (Cons a as)
  obtain tool1 s1 where a: "do_asset_update E a tool s = (Ok tool1, s1)"
    and as: "do_asset_updates E as tool1 s1 = (Ok tool', t)"
    using Cons.prems(1) by (auto dest!: and_do_Ok)
  note one = do_asset_update_settles[OF a Cons.prems(2)]
  have rest: "has_assets_of tool' t \<and> tool_name tool' = tool_name tool1 \<and>
    (\<forall>a \<in> set as. asset_version tool' (au_asset_id a) = au_version a) \<and>
    (\<forall>j. j \<notin> au_asset_id ` set as \<longrightarrow> asset_version tool' j = asset_version tool1 j)"
    using Cons.prems(3) by (intro Cons.IH[OF as one(1)]) simp
  moreover have "asset_version tool' (au_asset_id a) = au_version a"
    using rest one(2) Cons.prems(3) by simp
  ultimately show ?case using one(4,5) by auto
qed simp

lemma do_updates_settle:
  assumes "do_updates E m tool n as s = (Ok tool', t)" "has_assets_of tool s" "distinct (map au_asset_id as)"
  shows "has_assets_of tool' t \<and> tool_name tool' = tool_name tool \<and>
    (\<forall>a \<in> set as. asset_version tool' (au_asset_id a) = au_version a) \<and>
    (\<forall>j. j \<notin> au_asset_id ` set as \<longrightarrow> asset_version tool' j = asset_version tool j)"
proof -
  let ?P = "\<lambda>x. it_assets x = it_assets tool"
  obtain tool1 s1 where first: "(if n then do_tool_update E m tool s
       else if as \<noteq> []
       then and_do (upd_stop (stop_tool (upd_kill E) (um_tool_agent_id m)) s) (\<lambda>_ s1. (Ok tool, s1))
       else (Ok tool, s)) = (Ok tool1, s1)" (is "?r = _")
    and as: "do_asset_updates E as tool1 s1 = (Ok tool', t)"
    using assms(1) unfolding do_updates_def by (blast dest: and_do_Ok)
  have "good_update (tool_name tool) ?P s ?r"
    using assets.do_tool_update_good[OF refl refl refl, of tool s E m]
    by (simp add: good_update_then upd_kept_books upd_stop_books)
  then have "upd_kept (tool_name tool) ?P s s1 \<and> tool_name tool1 = tool_name tool \<and> it_assets tool1 = it_assets tool"
    unfolding first by simp
  then have "has_assets_of tool1 s1" "tool_name tool1 = tool_name tool" "asset_version tool1 = asset_version tool"
    using assms(2) by (auto simp: has_assets_of_def upd_kept_def asset_version_def asset_of_def)
  then show ?thesis using do_asset_updates_settle[OF as _ assms(3)] by simp
qed

lemma set_state_assets:
  "record_is (\<lambda>x. it_assets x = A) i (set_tool_state E j st s) = record_is (\<lambda>x. it_assets x = A) i s"
  using tools_set_state_map(1)[of "ie_state_io (ue_install E)" j st "rm_tools (ns_rm s)"]
  by (cases "tools_set_state (ie_state_io (ue_install E)) j st (rm_tools (ns_rm s))")
    (auto simp: set_tool_state_def record_is_def on_ops_def on_rm_def split: option.splits if_splits)

lemma marks_record [simp]:
  "record_is P i (on_ops (on_rm (mark_updating j)) s) = record_is P i s"
  "record_is P i (on_ops (on_rm (clear_updating j)) s) = record_is P i s"
  by (simp_all add: record_is_def on_ops_def on_rm_def mark_updating_def clear_updating_def Let_def
      split: option.split)

lemma update_marked_settles:
  assumes "update_marked E m tool rep n as s = (Ok (), t)" "has_assets_of tool s"
    and "distinct (map au_asset_id as)" "registry (rm_tools (ns_rm t)) (tool_name tool) = Some y"
  shows "(\<forall>a \<in> set as. asset_version y (au_asset_id a) = au_version a) \<and>
    (\<forall>j. j \<notin> au_asset_id ` set as \<longrightarrow> asset_version y j = asset_version tool j)"
proof -
  let ?i = "um_tool_agent_id m"
  obtain w s1 where w: "do_updates E m tool n as (on_ops (on_rm (mark_updating ?i)) s) = (w, s1)" by fastforce
  obtain tool1 where ok: "w = Ok tool1"
    using assms(1) w by (cases w) (auto simp: update_marked_def Let_def)
  have "has_assets_of tool (on_ops (on_rm (mark_updating ?i)) s)" using assms(2) by (simp add: has_assets_of_def)
  note finished = do_updates_settle[OF w[unfolded ok] this assms(3)]
  let ?s2 = "on_ops (on_rm (clear_updating ?i)) s1"
  let ?s3 = "if rep then set_tool_state E ?i Installed ?s2 else ?s2"
  have t: "t = (if is_gui_app (it_installation tool) then relaunch_windows_gui_app E tool1 ?s3 else ?s3)"
    using assms(1) w ok by (auto simp: update_marked_def Let_def)
  have "has_assets_of tool1 s1" using finished by blast
  then have "has_assets_of tool1 ?s3" by (simp add: has_assets_of_def set_state_assets)
  then have "has_assets_of tool1 t"
    using same_books_record[OF relaunch_books] by (simp add: t has_assets_of_def)
  then have "asset_version y = asset_version tool1"
    using assms(4) finished by (auto simp: has_assets_of_def record_is_def asset_version_def asset_of_def)
  then show ?thesis using finished by simp
qed

lemma wants_update_version:
  "wants_update tool a \<longleftrightarrow> (\<exists>v. au_version a = Some v \<and> unwrap_or (au_download_configurations a) [] \<noteq> []
     \<and> asset_version tool (au_asset_id a) \<noteq> Some v)"
  by (simp add: wants_update_def asset_version_def split: option.split)

lemma wants_update_cong:
  "asset_version y (au_asset_id a) = asset_version x (au_asset_id a) \<Longrightarrow> wants_update y a = wants_update x a"
  by (simp add: wants_update_version)

lemma has_assets_of_registry:
  "registry (rm_tools (ns_rm s)) (tool_name x) = Some x \<Longrightarrow> it_assets x' = it_assets x \<Longrightarrow>
   tool_name x' = tool_name x \<Longrightarrow> has_assets_of x' s"
  by (simp add: has_assets_of_def record_is_def)

lemma has_assets_ofD:
  "has_assets_of x s \<Longrightarrow> registry (rm_tools (ns_rm s)) (tool_name x) = Some y \<Longrightarrow> it_assets y = it_assets x"
  by (simp add: has_assets_of_def record_is_def)

lemma key_of_excluded:
  "distinct (map f xs) \<Longrightarrow> a \<in> set xs \<Longrightarrow> \<not> P a \<Longrightarrow> f a \<notin> f ` set (filter P xs)"
  by (auto simp: distinct_map dest: inj_onD)

lemma no_more_updates:
  assumes "process_tool_update E m s = (Ok (), t)" "distinct (map au_asset_id (unwrap_or (um_assets m) []))"
    and "registry (rm_tools (ns_rm t)) (um_tool_agent_id m) = Some y"
  shows "\<forall>a \<in> set (unwrap_or (um_assets m) []). \<not> wants_update y a"
proof (cases "tools_get_by_tool_agent_id (oe_read (upd_ops E)) (um_tool_agent_id m) (rm_tools (ns_rm s))")
  case (Inr q)
  let ?i = "um_tool_agent_id m" and ?all = "unwrap_or (um_assets m) []"
  show ?thesis
  proof (cases q)
    case None
    then have "t = s" "registry (rm_tools (ns_rm s)) ?i = None"
      using assms(1) Inr registry_lookup(1)[OF Inr] by (simp_all add: process_tool_update_def Let_def)
    then show ?thesis using assms(3) by simp
  next
    case (Some x)
    have x: "registry (rm_tools (ns_rm s)) ?i = Some x" "tool_name x = ?i"
      using registry_lookup[OF Inr[unfolded Some]] by simp_all
    let ?wi = "it_state x = Installing"
    let ?missing = "\<not> re_binary_present (oe_run (upd_ops E)) (tool_executable (upd_ops E) x)"
    let ?x1 = "if ?wi \<or> ?missing then x \<lparr> it_state := Installing \<rparr> else x"
    let ?s1 = "if ?missing \<and> \<not> ?wi then set_tool_state E ?i Installing s else s"
    let ?n = "(?wi \<or> ?missing) \<or> it_version x \<noteq> um_version m"
    let ?as = "filter (wants_update ?x1) ?all"
    have h: "has_assets_of ?x1 ?s1" using x has_assets_of_registry[of s x ?x1]
      by (simp add: has_assets_of_def set_state_assets)
    have "(\<forall>a \<in> set ?as. asset_version y (au_asset_id a) = au_version a) \<and>
        (\<forall>j. j \<notin> au_asset_id ` set ?as \<longrightarrow> asset_version y j = asset_version ?x1 j)"
    proof (cases "\<not> ?n \<and> ?as = []")
      case True
      have "t = ?s1"
        using assms(1) Inr Some
        by (simp only: process_tool_update_def Let_def sum.case option.case if_P[OF True] prod.inject)
      then have "has_assets_of ?x1 t" using h by (simp only:)
      moreover have "registry (rm_tools (ns_rm t)) (tool_name ?x1) = Some y" using assms(3) x(2) by simp
      ultimately have "it_assets y = it_assets ?x1" by (rule has_assets_ofD)
      moreover have none: "?as = []" using True by blast
      ultimately show ?thesis unfolding none by (simp add: asset_version_def asset_of_def)
    next
      case False
      then have u: "update_marked E m ?x1 (?wi \<or> ?missing) ?n ?as ?s1 = (Ok (), t)"
        using assms(1) Inr Some
        by (simp only: process_tool_update_def Let_def sum.case option.case if_False)
      have d: "distinct (map au_asset_id ?as)" by (rule distinct_map_filter[OF assms(2)])
      have "registry (rm_tools (ns_rm t)) (tool_name ?x1) = Some y" using assms(3) x(2) by simp
      from update_marked_settles[OF u h d this] show ?thesis .
    qed
    note settled = this
    show ?thesis
    proof
      fix a assume a: "a \<in> set ?all"
      show "\<not> wants_update y a"
      proof (cases "wants_update ?x1 a")
        case True
        then show ?thesis using settled a by (auto simp: wants_update_version)
      next
        case False
        have "au_asset_id a \<notin> au_asset_id ` set ?as"
          by (rule key_of_excluded[OF assms(2) a, where P = "wants_update ?x1", OF False])
        then have "asset_version y (au_asset_id a) = asset_version ?x1 (au_asset_id a)" using settled by blast
        from wants_update_cong[OF this] False show ?thesis by blast
      qed
    qed
  qed
qed (use assms(1) in \<open>simp add: process_tool_update_def Let_def\<close>)

text \<open>Updates converge: after a message has been processed with success, the same message delivered
  again changes nothing and stops nothing, provided the tool is marked installed at the wanted version
  and its binary is there (which a repair whose last step failed, or a binary that could not be
  cleared away, may leave undone), and the message names no asset twice.\<close>

theorem update_settles:
  assumes "process_tool_update E m s = (Ok (), t)" "distinct (map au_asset_id (unwrap_or (um_assets m) []))"
    and "tools_get_by_tool_agent_id (oe_read (upd_ops E')) (um_tool_agent_id m) (rm_tools (ns_rm t)) = Ok (Some y)"
    and "it_state y = Installed" "it_version y = um_version m"
    and "re_binary_present (oe_run (upd_ops E')) (tool_executable (upd_ops E') y)"
  shows "process_tool_update E' m t = (Ok (), t)"
proof -
  have "registry (rm_tools (ns_rm t)) (um_tool_agent_id m) = Some y" by (rule registry_lookup(1)[OF assms(3)])
  from no_more_updates[OF assms(1,2) this] have "filter (wants_update y) (unwrap_or (um_assets m) []) = []"
    by simp
  then show ?thesis using assms(3-6) by (simp add: process_tool_update_def Let_def)
qed

text \<open>An installation writes the assets to disk but not their versions into the record: any update
  message for the tool that names an asset with a version and a download makes the tool stop and the
  asset be downloaded again, even at the very version that was just installed. One update of the
  asset later the version is known.\<close>

theorem fresh_install_updates_assets_again:
  assumes "install_inner E m s = (Ok (), t)" "rm_tools (ns_rm t) \<noteq> rm_tools (ns_rm s)"
    and "au_version a = Some v" "unwrap_or (au_download_configurations a) [] \<noteq> []"
  shows "\<exists>x. registry (rm_tools (ns_rm t)) (tm_tool_agent_id m) = Some x \<and> wants_update x a \<and>
    (\<forall>U u x' u'. do_asset_update U a x u = (Ok x', u') \<longrightarrow> record_is (\<lambda>y. y = x) (tm_tool_agent_id m) u \<longrightarrow>
       \<not> wants_update x' a \<and> record_is (\<lambda>y. it_assets y = it_assets x') (tm_tool_agent_id m) u')"
proof -
  have "t \<noteq> s" using assms(2) by auto
  then obtain inst where inst: "saved_as m inst s t"
    using install_inner_cases[OF assms(1)] by auto
  let ?x = "new_record m inst"
  have n: "tool_name ?x = tm_tool_agent_id m" "it_assets ?x = []" by (simp_all add: new_record_def)
  have "\<not> wants_update x' a \<and> record_is (\<lambda>y. it_assets y = it_assets x') (tm_tool_agent_id m) u'"
    if d: "do_asset_update U a ?x u = (Ok x', u')" and r: "record_is (\<lambda>y. y = ?x) (tm_tool_agent_id m) u" for U u x' u'
  proof -
    have "has_assets_of ?x u" using r n by (auto simp: has_assets_of_def record_is_def split: option.splits)
    note settled = do_asset_update_settles[OF d this]
    show ?thesis
      using settled(1,2,5) n(1) assms(3) by (simp add: wants_update_version has_assets_of_def)
  qed
  moreover have "wants_update ?x a"
    using assms(3,4) n(2) by (simp add: wants_update_version asset_version_def asset_of_def)
  moreover have "registry (rm_tools (ns_rm t)) (tm_tool_agent_id m) = Some ?x" using inst by (simp add: saved_as_def)
  ultimately show ?thesis by blast
qed

text \<open>On macOS the update of an application whose download is in place waits for a user to log in;
  with nobody at the console the handler does not come back: the message is not acknowledged, the new
  version is not recorded although the new application is installed, and the tool stays marked as
  updating, so it is not supervised.\<close>

theorem update_without_login_never_ends:
  assumes "upd_platform E = MacOS" "\<not> ue_console_user E" "it_installation tool = GuiApp path bid"
    and "dc_installation_type config = GuiAppType"
    and "um_download_configurations m \<noteq> []"
    and "find_config_for_current_os (ie_download (ue_install E)) (um_download_configurations m) = Ok config"
    and "update_prepare E GuiAppUpdater tool (on_ops (on_rm (mark_updating (um_tool_agent_id m))) s) = (Ok ctx, s1)"
    and "update_apply E GuiAppUpdater tool config s1 = (Ok (Some (GuiApp path' bid'))  , s2)"
  shows "update_marked E m tool rep True as s = (Err NeverReturned, s2) \<and>
    is_updating (um_tool_agent_id m) (ns_rm s2) \<and> rm_tools (ns_rm s2) = rm_tools (ns_rm s)"
proof -
  let ?i = "um_tool_agent_id m"
  let ?s0 = "on_ops (on_rm (mark_updating ?i)) s"
  have ctx: "uc_needs_restart ctx"
    using assms(7) by (auto simp: update_prepare_defs Let_def dest!: and_do_Ok)
  then have "run_update E tool config ?s0 = (Err NeverReturned, s2)"
    using assms(1-3,7,8) by (simp add: run_update_def create_updater_def update_finalize_defs)
  then have "do_tool_update E m tool ?s0 = (Err NeverReturned, s2)"
    using assms(3-6)
    by (simp add: do_tool_update_def needs_migration_def installation_to_type_def same_type_update_def)
  then have "update_marked E m tool rep True as s = (Err NeverReturned, s2)"
    by (simp add: update_marked_def do_updates_def)
  moreover have "same_books ?s0 s2"
    using update_prepare_books[of ?s0 E GuiAppUpdater tool] update_apply_books[of s1 E GuiAppUpdater tool config]
      assms(7,8) books.keeps_trans[of ?s0 s1 s2] by simp
  ultimately show ?thesis
    by (simp add: same_books_def same_rm_def is_updating_def mark_updating_def on_ops_def on_rm_def Let_def)
qed

section \<open>Concrete updates\<close>

definition sample_update :: "install_env \<Rightarrow> bool \<Rightarrow> upd_env" where
  "sample_update I logged_in =
    \<lparr> ue_install = I, ue_create_fails = (\<lambda>_. False), ue_rename_ok = (\<lambda>_. True), ue_remove_ok = (\<lambda>_. True),
      ue_clear_ok = (\<lambda>_. True), ue_copy = (\<lambda>_. None), ue_save = (\<lambda>_. io_ok), ue_start_service = (\<lambda>_. True), ue_exists = (\<lambda>_. True),
      ue_bundle_removed = True, ue_console_user = logged_in, ue_launch_ok = True, ue_preferences_ok = True,
      ue_running_at_end = False \<rparr>"

definition mesh_message :: "download_configuration list \<Rightarrow> tool_agent_update_message" where
  "mesh_message configs =
    \<lparr> um_tool_agent_id = ''mesh'', um_version = ''2.0'', um_download_configurations = configs, um_assets = None \<rparr>"

definition mesh_config :: "installation_type \<Rightarrow> download_configuration" where
  "mesh_config ty = \<lparr> dc_os = ''macos'', dc_file_name = ''mesh.dmg'', dc_target_file_name = ''Mesh.app'',
     dc_link = ''https://x/mesh.dmg'', dc_installation_type = ty, dc_bundle_id = None, dc_service_name = None \<rparr>"

abbreviation mesh_state :: "installed_tool \<Rightarrow> install_state" where
  "mesh_state tool \<equiv> sample_install_state (Content [tool])"

lemma mesh_registry: "registry (rm_tools (ns_rm (mesh_state mesh_tool))) ''mesh'' = Some mesh_tool"
  "rm_updating (ns_rm (mesh_state tool)) = Map.empty" "tool_name mesh_tool = ''mesh''"
  by (simp_all add: sample_install_state_def empty_manager_def registry_def tools_of_def lookup_def mesh_tool_def)

lemma update_contract_witness:
  "let (r, t) = process_tool_update (sample_update (sample_install True True Written) True)
      (mesh_message []) (mesh_state mesh_tool) in
   r = Ok () \<and> rm_updating (ns_rm t) = Map.empty \<and>
   (\<exists>y. registry (rm_tools (ns_rm t)) ''mesh'' = Some y \<and> it_version y \<in> {[], ''2.0''})"
proof -
  let ?E = "sample_update (sample_install True True Written) True"
  obtain r t where p: "process_tool_update ?E (mesh_message []) (mesh_state mesh_tool) = (r, t)" by fastforce
  have "fst (process_tool_update ?E (mesh_message []) (mesh_state mesh_tool)) = Ok ()" by code_simp
  then have r: "r = Ok ()" using p by simp
  have "r \<noteq> Err NeverReturned" "rm_updating (ns_rm (mesh_state mesh_tool)) (um_tool_agent_id (mesh_message [])) \<noteq> Some 0"
    "it_version mesh_tool = []"
    using r by (simp_all add: mesh_registry mesh_tool_def default_tool_def)
  then show ?thesis
    using update_contract[OF p] p r by (simp add: mesh_registry mesh_message_def)
qed

lemma failed_update_restores_binary_witness:
  "let s = mesh_state mesh_tool \<lparr> ns_files := [''/opt/mesh/agent'' \<mapsto> ''old''] \<rparr>;
       (r, t) = run_update (sample_update (sample_install True True Written) True) mesh_tool
         (mesh_config StandardType) s in
   r = Err (UpdDownload (DownloadFailed SendError)) \<and> ns_files t ''/opt/mesh/agent'' = Some ''old''"
proof -
  let ?E = "sample_update (sample_install True True Written) True"
  let ?s = "mesh_state mesh_tool \<lparr> ns_files := [''/opt/mesh/agent'' \<mapsto> ''old''] \<rparr>"
  obtain r t where p: "run_update ?E mesh_tool (mesh_config StandardType) ?s = (r, t)" by fastforce
  have "fst (run_update ?E mesh_tool (mesh_config StandardType) ?s) = Err (UpdDownload (DownloadFailed SendError))"
    by code_simp
  then have r: "r = Err (UpdDownload (DownloadFailed SendError))" using p by simp
  have path: "upd_agent_path ?E (tool_name mesh_tool) = ''/opt/mesh/agent''" by code_simp
  have "create_updater ?E (it_installation mesh_tool) = StandardUpdater" by code_simp
  from failed_update_restores_binary[OF p[unfolded r] this, of "''old''", unfolded path]
  show ?thesis using p r by (simp add: sample_update_def)
qed

lemma update_settles_witness:
  "let E = sample_update (sample_install True True Written) True;
       t = snd (process_tool_update E (mesh_message []) (mesh_state mesh_tool)) in
   registry (rm_tools (ns_rm t)) ''mesh'' = Some (mesh_tool \<lparr> it_version := ''2.0'' \<rparr>) \<and>
   process_tool_update E (mesh_message []) t = (Ok (), t)"
proof -
  let ?E = "sample_update (sample_install True True Written) True" and ?y = "mesh_tool \<lparr> it_version := ''2.0'' \<rparr>"
  obtain r t where p: "process_tool_update ?E (mesh_message []) (mesh_state mesh_tool) = (r, t)" by fastforce
  have e: "fst (process_tool_update ?E (mesh_message []) (mesh_state mesh_tool)) = Ok ()"
    "rm_tools (ns_rm (snd (process_tool_update ?E (mesh_message []) (mesh_state mesh_tool)))) = Content [?y]"
    by (code_simp, code_simp)
  have r: "r = Ok ()" "rm_tools (ns_rm t) = Content [?y]" using e p by simp_all
  have "tools_get_by_tool_agent_id (oe_read (upd_ops ?E)) (um_tool_agent_id (mesh_message []))
      (rm_tools (ns_rm t)) = Ok (Some ?y)" unfolding r by code_simp
  moreover have "it_state ?y = Installed" "it_version ?y = um_version (mesh_message [])"
    "re_binary_present (oe_run (upd_ops ?E)) (tool_executable (upd_ops ?E) ?y)"
    "distinct (map au_asset_id (unwrap_or (um_assets (mesh_message [])) []))"
    by (simp_all add: mesh_tool_def default_tool_def mesh_message_def sample_update_def sample_install_def
        unwrap_or_def)
  ultimately have "process_tool_update ?E (mesh_message []) t = (Ok (), t)"
    using update_settles[OF p[unfolded r(1)], of ?E ?y] by blast
  moreover have "registry (rm_tools (ns_rm t)) ''mesh'' = Some ?y"
    by (simp add: r registry_def tools_of_def lookup_def mesh_tool_def)
  ultimately show ?thesis using p by (simp add: Let_def)
qed

definition cfg_update :: asset_update where
  "cfg_update = \<lparr> au_asset_id = ''cfg'', au_version = Some ''1'', au_executable = False,
     au_download_configurations = Some [mesh_config StandardType] \<rparr>"

lemma fresh_install_updates_assets_again_witness:
  "\<exists>x. registry (rm_tools (ns_rm (snd (install_inner (sample_install False True Written) sample_message
      (sample_install_state Missing))))) ''mesh'' = Some x \<and> wants_update x cfg_update"
proof -
  let ?I = "sample_install False True Written" and ?s = "sample_install_state Missing"
  obtain r t where p: "install_inner ?I sample_message ?s = (r, t)" by fastforce
  have e: "fst (install_inner ?I sample_message ?s) = Ok ()"
    "rm_tools (ns_rm (snd (install_inner ?I sample_message ?s))) \<noteq> Missing"
    by (code_simp, code_simp)
  have r: "r = Ok ()" "rm_tools (ns_rm t) \<noteq> rm_tools (ns_rm ?s)"
    using e p by (simp_all add: sample_install_state_def empty_manager_def)
  have a: "au_version cfg_update = Some ''1''" "unwrap_or (au_download_configurations cfg_update) [] \<noteq> []"
    "tm_tool_agent_id sample_message = ''mesh''"
    by (simp_all add: cfg_update_def unwrap_or_def sample_message_def)
  show ?thesis
    using fresh_install_updates_assets_again[OF p[unfolded r(1)] r(2) a(1,2)] p a(3) by auto
qed

definition mesh_app :: installed_tool where
  "mesh_app = mesh_tool \<lparr> it_installation := GuiApp ''/Applications/Mesh.app'' None \<rparr>"

definition online_install :: install_env where
  "online_install = sample_install True True Written
     \<lparr> ie_download := offline_download \<lparr> de_get := (\<lambda>_ _. Answered 200 (Some (replicate MIN_BINARY_SIZE_BYTES CHR ''x''))) \<rparr> \<rparr>"

lemma update_without_login_never_ends_witness:
  "fst (update_marked (sample_update online_install False) (mesh_message [mesh_config GuiAppType]) mesh_app
     False True [] (mesh_state mesh_app)) = Err NeverReturned"
proof -
  let ?E = "sample_update online_install False" and ?c = "mesh_config GuiAppType"
  let ?s0 = "on_ops (on_rm (mark_updating ''mesh'')) (mesh_state mesh_app)"
  obtain r s1 where p: "update_prepare ?E GuiAppUpdater mesh_app ?s0 = (r, s1)" by fastforce
  have "update_prepare ?E GuiAppUpdater mesh_app ?s0 =
      update_prepare (sample_update (sample_install True True Written) False) GuiAppUpdater mesh_app ?s0"
    by (simp add: update_prepare_defs sample_update_def online_install_def)
  moreover have "fst (update_prepare (sample_update (sample_install True True Written) False) GuiAppUpdater mesh_app ?s0)
      = Ok \<lparr> uc_backup_path = None, uc_needs_restart = True \<rparr>"
    by code_simp
  ultimately have "fst (update_prepare ?E GuiAppUpdater mesh_app ?s0) =
      Ok \<lparr> uc_backup_path = None, uc_needs_restart = True \<rparr>" by simp
  then have r: "r = Ok \<lparr> uc_backup_path = None, uc_needs_restart = True \<rparr>" using p by simp
  have i: "it_installation mesh_app = GuiApp ''/Applications/Mesh.app'' None" by (simp add: mesh_app_def)
  have "download_with_retry (ie_download online_install) (dc_link ?c) d =
      (Ok (replicate MIN_BINARY_SIZE_BYTES CHR ''x''), d \<lparr> ds_requests := ds_requests d @ [dc_link ?c] \<rparr>)" for d
  proof -
    have "[1..<MAX_DOWNLOAD_RETRIES + 1] = [1, 2, 3]" by (simp add: MAX_DOWNLOAD_RETRIES_def upt_rec)
    then show ?thesis by (simp add: download_with_retry_def download_def Let_def online_install_def)
  qed
  then obtain s2 where a: "update_apply ?E GuiAppUpdater mesh_app ?c s1 =
      (Ok (Some (GuiApp (path_join ''/Applications'' ''Mesh.app'') None)), s2)"
    by (simp add: update_apply_defs i remove_app_bundle_def extract_all_def with_download_def
        download_and_extract_all_def sample_update_def online_install_def offline_download_def mesh_config_def
        ends_with_def Let_def)
  have "upd_platform ?E = MacOS" "\<not> ue_console_user ?E" "dc_installation_type ?c = GuiAppType"
    "find_config_for_current_os (ie_download (ue_install ?E)) [?c] = Ok ?c"
    by (simp_all add: sample_update_def online_install_def sample_install_def sample_op_def mac_env_def mesh_config_def
        find_config_for_current_os_def matches_current_os_def offline_download_def os_name_def eq_ignore_ascii_case_def)
  then show ?thesis
    using update_without_login_never_ends[of ?E mesh_app _ _ ?c "mesh_message [?c]" "mesh_state mesh_app"
        "\<lparr> uc_backup_path = None, uc_needs_restart = True \<rparr>" s1] p r a i
    by (simp add: mesh_message_def)
qed

end
