(* ===== verification/MeshHeal.thy ===== *)
theory MeshHeal
  imports LogStreaming ToolUpdate
begin

text \<open>The watcher that heals the mesh agent (services/mesh\_self\_heal\_service.rs): it follows the
  agent's log, notices a connection that stays down, a log that stays silent or a configuration file
  without a server id, refreshes that file from the backend and restarts the agent by the guarded
  restart of ToolOps. Times are seconds of the monotonic clock. Between two polls everything else
  may change as the environment says: other operations, their pending clean-up tasks, the files.\<close>

section \<open>Constants\<close>

definition MESH_TOOL_ID :: string where "MESH_TOOL_ID = ''meshcentral-agent''"
definition FAILURE_MARKER :: string where "FAILURE_MARKER = ''Connection FAILED''"
definition HEALTHY_MARKER :: string where "HEALTHY_MARKER = ''Received CoreOk from server''"
definition POLL_INTERVAL :: nat where "POLL_INTERVAL = 30"
definition STUCK_DURATION :: nat where "STUCK_DURATION = 10 * 60"
definition SILENCE_DURATION :: nat where "SILENCE_DURATION = 90 * 60"
definition ACTION_COOLDOWN :: nat where "ACTION_COOLDOWN = 60 * 60"
definition TAIL_BYTES :: nat where "TAIL_BYTES = 64 * 1024"

section \<open>The log\<close>

definition text_lines :: "string \<Rightarrow> string list" where "text_lines s = map chomp (raw_lines s)"

text \<open>The marker of a line, if it has one; the healthy one wins.\<close>

definition line_marker :: "string \<Rightarrow> bool option" where
  "line_marker line =
    (if contains line HEALTHY_MARKER then Some True
     else if contains line FAILURE_MARKER then Some False else None)"

definition last_marker_in_tail :: "string option \<Rightarrow> bool option" where
  "last_marker_in_tail log =
    (case log of
       None \<Rightarrow> None
     | Some content \<Rightarrow>
         fold (\<lambda>line last. case line_marker line of Some m \<Rightarrow> Some m | None \<Rightarrow> last)
           (text_lines (drop (length content - TAIL_BYTES) content)) None)"

text \<open>The silence already credited at the start, from the age of the log if that can be told.\<close>

definition seed_last_activity :: "nat \<Rightarrow> nat option \<Rightarrow> nat" where
  "seed_last_activity now age =
    (case age of
       None \<Rightarrow> now
     | Some stale_for \<Rightarrow>
         (let credit = min stale_for (SILENCE_DURATION - STUCK_DURATION) in
          if credit \<le> now then now - credit else now))"

definition rposition :: "char \<Rightarrow> string \<Rightarrow> nat option" where
  "rposition c s = map_option (\<lambda>i. length s - Suc i) (find_char (\<lambda>d. d = c) (rev s))"

text \<open>Only whole lines are taken; what follows the last newline is read again later.\<close>

definition read_new_lines :: "string \<Rightarrow> nat \<Rightarrow> string list \<times> nat" where
  "read_new_lines content offset =
    (let start = (if length content < offset then 0 else offset) in
     if length content = start then ([], start)
     else let buf = drop start content in
       case rposition (CHR 0x0A) buf of
         None \<Rightarrow> ([], start)
       | Some i \<Rightarrow> (text_lines (take (i + 1) buf), start + (i + 1)))"

section \<open>The configuration file\<close>

fun find_field :: "string \<Rightarrow> string list \<Rightarrow> string option" where
  "find_field pre [] = None"
| "find_field pre (l # ls) =
     (if starts_with (trim l) pre then Some (trim (drop (length pre) (trim l))) else find_field pre ls)"

definition parse_msh_field :: "string \<Rightarrow> string \<Rightarrow> string option" where
  "parse_msh_field msh key =
    (case find_field (key @ ''='') (text_lines msh) of
       Some v \<Rightarrow> if v = [] then None else Some v | None \<Rightarrow> None)"

text \<open>A directory is missing, unreadable, or a sequence of entries of which some cannot be read.\<close>

datatype dir_answer = DirMissing | DirUnreadable | DirEntries "string option list"

record mesh_env =
  me_ops :: op_env
  me_dir :: "nat \<Rightarrow> dir_answer"
  me_readable :: "string \<Rightarrow> bool"
  me_server_url :: "string option"
  me_token :: "string option"
  me_response :: http_answer
  me_dirs_ok :: bool
  me_write_ok :: bool
  me_rename_ok :: bool

record mesh_world =
  mw_ops :: op_state
  mw_files :: "string \<rightharpoonup> string"
  mw_requests :: "string list"

datatype mesh_error =
    MeshDirFailed | MeshLookupFailed io_error | MeshNotInstalled | NoServerUrl | NoToken
  | RequestFailed | BadStatus nat | BodyFailed | NeitherField | MshWriteFailed

definition has_msh_extension :: "string \<Rightarrow> bool" where
  "has_msh_extension name \<longleftrightarrow> ends_with name ''.msh'' \<and> 4 < length name"

fun first_msh :: "string option list \<Rightarrow> (mesh_error, string option) result" where
  "first_msh [] = Ok None"
| "first_msh (None # es) = Err MeshDirFailed"
| "first_msh (Some name # es) = (if has_msh_extension name then Ok (Some name) else first_msh es)"

definition find_existing_msh :: "mesh_env \<Rightarrow> nat \<Rightarrow> (mesh_error, string option) result" where
  "find_existing_msh E k =
    (case me_dir E k of
       DirMissing \<Rightarrow> Ok None
     | DirUnreadable \<Rightarrow> Err MeshDirFailed
     | DirEntries es \<Rightarrow>
         (case first_msh es of
            Inl e \<Rightarrow> Err e
          | Inr q \<Rightarrow> Ok (map_option (join_path (me_ops E) (get_tool_folder (me_ops E) MESH_TOOL_ID)) q)))"

definition mesh_record :: "mesh_env \<Rightarrow> mesh_world \<Rightarrow> (io_error, installed_tool option) result" where
  "mesh_record E w = tools_get_by_tool_agent_id (oe_read (me_ops E)) MESH_TOOL_ID (rm_tools (os_rm (mw_ops w)))"

definition mesh_sep :: "mesh_env \<Rightarrow> char \<Rightarrow> bool" where
  "mesh_sep E c = (c = CHR ''/'' \<or> (re_platform (oe_run (me_ops E)) = Windows \<and> c = CHR 0x5C))"

definition mesh_msh_path :: "mesh_env \<Rightarrow> mesh_world \<Rightarrow> (mesh_error, string) result" where
  "mesh_msh_path E w =
    (case find_existing_msh E 1 of
       Inl e \<Rightarrow> Err e
     | Inr (Some p) \<Rightarrow> Ok p
     | Inr None \<Rightarrow>
         (case mesh_record E w of
            Inl e \<Rightarrow> Err (MeshLookupFailed e)
          | Inr None \<Rightarrow> Err MeshNotInstalled
          | Inr (Some tool) \<Rightarrow>
              Ok (replace_extension (mesh_sep E)
                    (get_tool_executable_path (me_ops E) MESH_TOOL_ID (executable_path (it_installation tool)))
                    ''msh'')))"

definition read_text :: "mesh_env \<Rightarrow> string \<Rightarrow> mesh_world \<Rightarrow> string option" where
  "read_text E p w = (if me_readable E p then mw_files w p else None)"

definition current_msh_missing_serverid :: "mesh_env \<Rightarrow> mesh_world \<Rightarrow> bool" where
  "current_msh_missing_serverid E w =
    (case mesh_record E w of
       Inr (Some tool) \<Rightarrow>
         it_state tool = Installed \<and>
         (case find_existing_msh E 0 of
            Inr (Some p) \<Rightarrow>
              (case read_text E p w of Some s \<Rightarrow> parse_msh_field s ''ServerID'' = None | None \<Rightarrow> True)
          | Inr None \<Rightarrow> True
          | Inl e \<Rightarrow> False)
     | _ \<Rightarrow> False)"

text \<open>Rewriting goes through a file beside the target.\<close>

definition rewrite_msh ::
  "mesh_env \<Rightarrow> string \<Rightarrow> string \<Rightarrow> mesh_world \<Rightarrow> (mesh_error, bool) result \<times> mesh_world" where
  "rewrite_msh E path body w =
    (let tmp = replace_extension (mesh_sep E) path ''msh.tmp'' in
     if \<not> me_dirs_ok E \<or> \<not> me_write_ok E then (Err MshWriteFailed, w)
     else if \<not> me_rename_ok E then (Err MshWriteFailed, w \<lparr> mw_files := (mw_files w)(tmp \<mapsto> body) \<rparr>)
     else (Ok True, w \<lparr> mw_files := (mw_files w)(tmp := None, path \<mapsto> body) \<rparr>))"

definition generate_msh_url :: "string \<Rightarrow> string" where
  "generate_msh_url host =
    ''https://'' @ host @ ''/tools/agent/meshcentral-server/generate-msh?host='' @ host"

definition apply_msh ::
  "mesh_env \<Rightarrow> string \<Rightarrow> string \<Rightarrow> mesh_world \<Rightarrow> (mesh_error, bool) result \<times> mesh_world" where
  "apply_msh E path body w =
    (let new_mesh = parse_msh_field body ''MeshID''; new_server = parse_msh_field body ''ServerID'';
         current = read_text E path w;
         cur_mesh = Option.bind current (\<lambda>s. parse_msh_field s ''MeshID'');
         cur_server = Option.bind current (\<lambda>s. parse_msh_field s ''ServerID'') in
     if new_mesh = None \<and> new_server = None then (Err NeitherField, w)
     else if \<not> (new_mesh \<noteq> None \<and> cur_mesh \<noteq> new_mesh) \<and> \<not> (new_server \<noteq> None \<and> cur_server \<noteq> new_server)
     then (Ok False, w)
     else rewrite_msh E path body w)"

definition try_refresh_msh :: "mesh_env \<Rightarrow> mesh_world \<Rightarrow> (mesh_error, bool) result \<times> mesh_world" where
  "try_refresh_msh E w =
    (case mesh_msh_path E w of
       Inl e \<Rightarrow> (Err e, w)
     | Inr path \<Rightarrow>
         (case me_server_url E of
            None \<Rightarrow> (Err NoServerUrl, w)
          | Some host \<Rightarrow>
              (case me_token E of
                 None \<Rightarrow> (Err NoToken, w)
               | Some token \<Rightarrow>
                   (let w1 = w \<lparr> mw_requests := mw_requests w @ [generate_msh_url host] \<rparr> in
                    case me_response E of
                      Answered status body \<Rightarrow>
                        if \<not> (200 \<le> status \<and> status < 300) then (Err (BadStatus status), w1)
                        else (case body of None \<Rightarrow> (Err BodyFailed, w1) | Some b \<Rightarrow> apply_msh E path b w1)
                    | _ \<Rightarrow> (Err RequestFailed, w1)))))"

section \<open>Healing\<close>

definition restart_agent :: "mesh_env \<Rightarrow> mesh_world \<Rightarrow> bool \<times> mesh_world" where
  "restart_agent E w =
    (case restart_guarded (me_ops E) MESH_TOOL_ID (mw_ops w) of
       (Inr NotInstalled, s) \<Rightarrow>
         (False, w \<lparr> mw_ops := snd (with_kill (stop_tool (oe_kill (me_ops E)) MESH_TOOL_ID) s) \<rparr>)
     | (r, s) \<Rightarrow> (r = Err (Cut Panicked), w \<lparr> mw_ops := s \<rparr>))"

text \<open>The answer says whether the restart panicked.\<close>

definition heal :: "mesh_env \<Rightarrow> mesh_world \<Rightarrow> bool \<times> mesh_world" where
  "heal E w = restart_agent E (snd (try_refresh_msh E w))"

section \<open>The watcher\<close>

datatype heal_reason = NoServerId | NotConnected | SilentLog

record mesh_state =
  ms_world :: mesh_world
  ms_offset :: nat
  ms_last_marker_healthy :: bool
  ms_stuck_since :: "nat option"
  ms_last_action :: "nat option"
  ms_last_activity :: nat
  ms_heals :: "(nat \<times> heal_reason) list"

text \<open>What a poll meets: when its sleep began and ended and when a heal was over, the deactivation gate,
  the log, and what happened elsewhere meanwhile.\<close>

record poll_env =
  po_started :: nat
  po_now :: nat
  po_healed :: nat
  po_suspended :: bool
  po_log :: "string option"
  po_others :: "mesh_world \<Rightarrow> mesh_world"
  po_mesh :: mesh_env

definition watch_start :: "nat \<Rightarrow> string option \<Rightarrow> nat option \<Rightarrow> (nat \<times> heal_reason) list \<Rightarrow> mesh_world \<Rightarrow> mesh_state" where
  "watch_start now log age heals w =
    (let healthy = unwrap_or (last_marker_in_tail log) True in
     \<lparr> ms_world = w, ms_offset = (case log of Some c \<Rightarrow> length c | None \<Rightarrow> 0),
       ms_last_marker_healthy = healthy, ms_stuck_since = (if healthy then None else Some now),
       ms_last_action = None, ms_last_activity = seed_last_activity now age, ms_heals = heals \<rparr>)"

definition mark_line :: "nat \<Rightarrow> string \<Rightarrow> mesh_state \<Rightarrow> mesh_state" where
  "mark_line now line s =
    (case line_marker line of
       Some True \<Rightarrow> s \<lparr> ms_stuck_since := None, ms_last_action := None, ms_last_marker_healthy := True \<rparr>
     | Some False \<Rightarrow>
         s \<lparr> ms_stuck_since := (case ms_stuck_since s of None \<Rightarrow> Some now | Some t \<Rightarrow> Some t),
             ms_last_marker_healthy := False \<rparr>
     | None \<Rightarrow> s)"

definition follow_log :: "nat \<Rightarrow> string option \<Rightarrow> mesh_state \<Rightarrow> mesh_state" where
  "follow_log now log s =
    (case log of
       None \<Rightarrow> s
     | Some content \<Rightarrow>
         (case read_new_lines content (ms_offset s) of
            (lines, offset) \<Rightarrow>
              fold (mark_line now) lines
                (s \<lparr> ms_offset := offset,
                     ms_last_activity := (if lines \<noteq> [] then now else ms_last_activity s) \<rparr>)))"

definition cooling_down :: "nat \<Rightarrow> mesh_state \<Rightarrow> bool" where
  "cooling_down now s =
    (case ms_last_action s of Some t \<Rightarrow> now - t < ACTION_COOLDOWN | None \<Rightarrow> False)"

definition heal_reason_of :: "mesh_env \<Rightarrow> nat \<Rightarrow> mesh_state \<Rightarrow> heal_reason option" where
  "heal_reason_of E now s =
    (if current_msh_missing_serverid E (ms_world s) then Some NoServerId
     else if (case ms_stuck_since s of Some t \<Rightarrow> STUCK_DURATION \<le> now - t | None \<Rightarrow> False) then Some NotConnected
     else if SILENCE_DURATION \<le> now - ms_last_activity s then Some SilentLog
     else None)"

text \<open>One turn of the loop; the answer says whether the watcher panicked.\<close>

definition watch_poll :: "poll_env \<Rightarrow> mesh_state \<Rightarrow> bool \<times> mesh_state" where
  "watch_poll P s =
    (let now = po_now P; s0 = s \<lparr> ms_world := po_others P (ms_world s) \<rparr> in
     if po_suspended P then (False, s0)
     else
       (let s1 = (if 5 * POLL_INTERVAL < now - po_started P
                  then s0 \<lparr> ms_stuck_since := None, ms_last_activity := now \<rparr> else s0);
            s2 = follow_log now (po_log P) s1 in
        if is_updating MESH_TOOL_ID (os_rm (mw_ops (ms_world s2)))
        then (False, s2 \<lparr> ms_stuck_since := None, ms_last_activity := now \<rparr>)
        else if cooling_down now s2 then (False, s2)
        else case heal_reason_of (po_mesh P) now s2 of
            None \<Rightarrow> (False, s2)
          | Some reason \<Rightarrow>
              (let s3 = s2 \<lparr> ms_last_action := Some now, ms_heals := ms_heals s2 @ [(now, reason)] \<rparr> in
               case heal (po_mesh P) (ms_world s3) of
                 (True, w) \<Rightarrow> (True, s3 \<lparr> ms_world := w \<rparr>)
               | (False, w) \<Rightarrow>
                   (False, s3 \<lparr> ms_world := w, ms_stuck_since := None, ms_last_activity := po_healed P \<rparr>))))"

fun watch :: "poll_env list \<Rightarrow> mesh_state \<Rightarrow> bool \<times> mesh_state" where
  "watch [] s = (False, s)"
| "watch (P # Ps) s = (case watch_poll P s of (True, s1) \<Rightarrow> (True, s1) | (False, s1) \<Rightarrow> watch Ps s1)"

text \<open>A watcher that panicked is started anew a minute later, with nothing remembered but the world.\<close>

fun watch_respawning ::
  "(poll_env list \<times> nat \<times> string option \<times> nat option) list \<Rightarrow> mesh_state \<Rightarrow> mesh_state" where
  "watch_respawning [] s = s"
| "watch_respawning ((Ps, now, log, age) # rest) s =
     (case watch Ps s of
        (False, s1) \<Rightarrow> s1
      | (True, s1) \<Rightarrow> watch_respawning rest (watch_start now log age (ms_heals s1) (ms_world s1)))"


section \<open>Following the log\<close>

abbreviation newline :: char where "newline \<equiv> CHR 0x0A"

definition complete :: "string \<Rightarrow> string" where
  "complete s = rev (dropWhile (\<lambda>c. c \<noteq> newline) (rev s))"

definition ends_line :: "string \<Rightarrow> bool" where "ends_line u \<longleftrightarrow> u = [] \<or> last u = newline"

lemma complete_unique: "ends_line u \<Longrightarrow> newline \<notin> set v \<Longrightarrow> complete (u @ v) = u"
proof (induction v rule: rev_induct)
  case Nil
  then show ?case by (cases u rule: rev_cases) (auto simp: complete_def ends_line_def)
next
  case (snoc x v)
  then have "complete (u @ v @ [x]) = complete (u @ v)" by (auto simp: complete_def)
  then show ?case using snoc by simp
qed

lemma complete_parts: "\<exists>rest. s = complete s @ rest \<and> newline \<notin> set rest" "ends_line (complete s)"
proof -
  have "\<exists>u v. s = u @ v \<and> ends_line u \<and> newline \<notin> set v"
  proof (induction s rule: rev_induct)
    case (snoc x s)
    then obtain u v where "s = u @ v" "ends_line u" "newline \<notin> set v" by blast
    then show ?case
      by (cases "x = newline")
        (rule exI[of _ "u @ v @ [x]"], simp add: ends_line_def, rule exI[of _ u], rule exI[of _ "v @ [x]"], simp)
  qed (simp add: ends_line_def)
  then show "\<exists>rest. s = complete s @ rest \<and> newline \<notin> set rest" "ends_line (complete s)"
    using complete_unique by auto
qed

lemma complete_take:
  "complete s = (case rposition newline s of None \<Rightarrow> [] | Some i \<Rightarrow> take (i + 1) s)"
  "rposition newline s = Some i \<Longrightarrow> i < length s"
proof -
  obtain v where v: "s = complete s @ v" "newline \<notin> set v" using complete_parts(1) by blast
  have none: "find_char (\<lambda>d. d = newline) (rev v) = None" using v(2) by (auto simp: find_char_def)
  have "(complete s = [] \<and> rposition newline s = None) \<or>
    (complete s \<noteq> [] \<and> rposition newline s = Some (length (complete s) - 1) \<and> take (length (complete s)) s = complete s)"
  proof (cases "complete s" rule: rev_cases)
    case Nil
    then show ?thesis using v none by (simp add: rposition_def)
  next
    case (snoc u x)
    then have x: "x = newline" using complete_parts(2)[of s] by (simp add: ends_line_def)
    have s: "s = u @ newline # v" using v(1) snoc x by simp
    have "find_char (\<lambda>d. d = newline) (rev s) = Some (length v)"
      using none by (simp add: s find_char_append) (simp add: find_char_def)
    then have "rposition newline s = Some (length u)" by (simp add: rposition_def s)
    then show ?thesis using snoc x s by simp
  qed
  then show "complete s = (case rposition newline s of None \<Rightarrow> [] | Some i \<Rightarrow> take (i + 1) s)"
    "rposition newline s = Some i \<Longrightarrow> i < length s"
    using arg_cong[OF v(1), of length] by (auto simp: Suc_leI) (metis Suc_pred add_lessD1 length_greater_0_conv lessI trans_less_add1)
qed

lemma complete_append:
  assumes "ends_line u" shows "complete (u @ v) = u @ complete v"
proof -
  obtain r where r: "v = complete v @ r" "newline \<notin> set r" using complete_parts(1) by blast
  have "ends_line (u @ complete v)" using assms complete_parts(2)[of v] by (auto simp: ends_line_def last_append)
  from complete_unique[OF this r(2)] show ?thesis using r(1) by simp
qed

lemma ends_line_drop: "ends_line u \<Longrightarrow> ends_line (drop n u)"
  by (cases "length u \<le> n") (auto simp: ends_line_def last_drop)

lemma raw_lines_append: "ends_line u \<Longrightarrow> raw_lines (u @ v) = raw_lines u @ raw_lines v"
proof (induction u rule: raw_lines.induct)
  case (1 u)
  show ?case
  proof (cases "u = []")
    case False
    then obtain i where i: "find_char (\<lambda>c. c = newline) u = Some i"
      using 1(2) last_in_set[of u] by (auto simp: ends_line_def find_char_def)
    have "split_line u = (take (i + 1) u, drop (i + 1) u)" using i by (simp add: split_line_def)
    moreover have "ends_line (drop (i + 1) u)" by (rule ends_line_drop[OF 1(2)])
    ultimately show ?thesis
      using 1(1)[OF False] split_line_append(1)[OF i, of v] False
      by (simp add: raw_lines.simps[of u] raw_lines.simps[of "u @ v"])
  qed (simp add: raw_lines.simps[of "[]"])
qed

lemma read_new_lines_complete:
  "offset \<le> length content \<Longrightarrow> read_new_lines content offset =
     (text_lines (complete (drop offset content)), offset + length (complete (drop offset content)))"
proof -
  assume o: "offset \<le> length content"
  have nil: "text_lines [] = []" "complete [] = []"
    by (simp_all add: text_lines_def raw_lines.simps[of "[]"] complete_def)
  have "i < length content - offset" if "rposition newline (drop offset content) = Some i" for i
    using complete_take(2)[OF that] by simp
  then show ?thesis
    using o nil by (auto simp: read_new_lines_def complete_take(1)[of "drop offset content"] Let_def min_def
        split: option.split)
qed

text \<open>Polls over a log that grows.\<close>

fun tail_polls :: "string \<Rightarrow> nat \<Rightarrow> string list \<Rightarrow> string list" where
  "tail_polls content offset [] = []"
| "tail_polls content offset (grown # rest) =
     (let (ls, offset') = read_new_lines (content @ grown) offset in
      ls @ tail_polls (content @ grown) offset' rest)"

text \<open>C24. However the log grows between the polls, in the middle of a line or many lines at once, the
  polls together see every complete line behind the first offset exactly once and in order: what one
  read at the end would have seen.\<close>

theorem polls_read_every_line_once:
  assumes "offset \<le> length content" "chunks \<noteq> []"
  shows "tail_polls content offset chunks = fst (read_new_lines (content @ concat chunks) offset)"
  using assms
proof (induction chunks arbitrary: content offset)
  case (Cons grown rest)
  let ?y = "drop offset (content @ grown)"
  obtain r where r: "?y = complete ?y @ r" using complete_parts(1) by blast
  have read: "read_new_lines (content @ grown) offset = (text_lines (complete ?y), offset + length (complete ?y))"
    using Cons.prems(1) by (simp add: read_new_lines_complete)
  show ?case
  proof (cases "rest = []")
    case True
    then show ?thesis using read by simp
  next
    case False
    let ?all = "(content @ grown) @ concat rest" and ?o = "offset + length (complete ?y)"
    have o: "?o \<le> length (content @ grown)"
      using arg_cong[OF r, of length] Cons.prems(1) by simp
    have d: "drop offset ?all = ?y @ concat rest" using Cons.prems(1) by simp
    have "drop ?o ?all = drop (length (complete ?y)) (?y @ concat rest)"
      unfolding d[symmetric] by (simp only: drop_drop add.commute)
    then have later: "drop ?o ?all = r @ concat rest" using r by (metis append.assoc append_eq_conv_conj)
    have whole: "drop offset ?all = complete ?y @ r @ concat rest" using d r by simp
    have "text_lines (complete (drop offset ?all)) = text_lines (complete ?y) @ text_lines (complete (r @ concat rest))"
      unfolding whole complete_append[OF complete_parts(2)]
      by (simp add: text_lines_def raw_lines_append[OF complete_parts(2)])
    moreover have "?o \<le> length ?all" using o by simp
    note read_new_lines_complete[OF this, unfolded later]
    then have "tail_polls (content @ grown) ?o rest = text_lines (complete (r @ concat rest))"
      using Cons.IH[OF o False] by (simp only: fst_conv)
    ultimately show ?thesis
      using read Cons.prems(1) by (simp add: read_new_lines_complete)
  qed
qed simp

section \<open>Markers in the log\<close>

lemma contains_iff: "contains s p \<longleftrightarrow> (\<exists>a b. s = a @ p @ b)"
proof (induction s)
  case (Cons c s)
  have "take (length p) (c # s) = p \<longleftrightarrow> (\<exists>b. c # s = p @ b)"
    by (metis append_eq_conv_conj append_take_drop_id)
  then show ?case using Cons by (auto simp: Cons_eq_append_conv)
qed auto

lemma contains_infix: "contains l p \<Longrightarrow> s = a @ l @ b \<Longrightarrow> contains s p"
  by (auto simp: contains_iff) (metis append.assoc)

lemma raw_lines_infix: "l \<in> set (raw_lines s) \<Longrightarrow> \<exists>a b. s = a @ l @ b"
proof (induction s rule: raw_lines.induct)
  case (1 s)
  show ?case
  proof (cases "s = [] \<or> l = fst (split_line s)")
    case True
    then show ?thesis
      using 1(2) split_line_parts(1)[of s] by (auto simp: raw_lines.simps[of "[]"]) (metis append_Nil)
  next
    case False
    then have "l \<in> set (raw_lines (snd (split_line s)))" using 1(2) by (simp add: raw_lines.simps[of s])
    then obtain a b where "snd (split_line s) = a @ l @ b" using 1(1) False by blast
    then show ?thesis using split_line_parts(1)[of s] by (metis append.assoc)
  qed
qed

lemma chomp_prefix: "\<exists>b. l = chomp l @ b"
  by (auto simp: chomp_def Let_def) (metis append_butlast_last_id append.assoc)+

lemma text_lines_contain: "l \<in> set (text_lines s) \<Longrightarrow> contains l p \<Longrightarrow> contains s p"
proof -
  assume "l \<in> set (text_lines s)" "contains l p"
  then obtain r where r: "r \<in> set (raw_lines s)" "l = chomp r" by (auto simp: text_lines_def)
  obtain b where "r = l @ b" using chomp_prefix r(2) by blast
  moreover obtain a b' where "s = a @ r @ b'" using raw_lines_infix[OF r(1)] by blast
  ultimately show "contains s p" using contains_infix[OF \<open>contains l p\<close>, of s a "b @ b'"] by simp
qed

lemma new_lines_contain:
  "l \<in> set (fst (read_new_lines content offset)) \<Longrightarrow> contains l p \<Longrightarrow> contains content p"
proof -
  assume l: "l \<in> set (fst (read_new_lines content offset))" "contains l p"
  define buf where "buf = drop (if length content < offset then 0 else offset) content"
  have "fst (read_new_lines content offset) = [] \<or>
    (\<exists>i. fst (read_new_lines content offset) = text_lines (take i buf))"
    by (cases "rposition (CHR 0x0A) buf"; simp add: read_new_lines_def Let_def buf_def) blast
  with l obtain i where "l \<in> set (text_lines (take i buf))" by auto
  then have "contains (take i buf) p" using text_lines_contain l(2) by blast
  then have "contains buf p" by (rule contains_infix[where a = "[]" and b = "drop i buf"]) simp
  then show "contains content p"
    unfolding buf_def
    by (rule contains_infix[where b = "[]"
          and a = "take (if length content < offset then 0 else offset) content"]) simp
qed

text \<open>While no healthy marker is logged.\<close>

definition no_recovery :: "poll_env \<Rightarrow> bool" where
  "no_recovery P \<longleftrightarrow> (\<forall>c. po_log P = Some c \<longrightarrow> \<not> contains c HEALTHY_MARKER)"

lemma mark_lines_frame:
  assumes "\<forall>l \<in> set ls. \<not> contains l HEALTHY_MARKER"
  shows "let t = fold (mark_line now) ls s in
    ms_last_action t = ms_last_action s \<and> ms_heals t = ms_heals s \<and> ms_world t = ms_world s \<and>
    (ms_stuck_since s = Some t0 \<longrightarrow> ms_stuck_since t = Some t0)"
  using assms
proof (induction ls arbitrary: s)
  case (Cons l ls)
  have "ms_last_action (mark_line now l s) = ms_last_action s" "ms_heals (mark_line now l s) = ms_heals s"
    "ms_world (mark_line now l s) = ms_world s"
    "ms_stuck_since s = Some t0 \<longrightarrow> ms_stuck_since (mark_line now l s) = Some t0"
    using Cons.prems by (auto simp: mark_line_def line_marker_def)
  then show ?case using Cons.IH[of "mark_line now l s"] Cons.prems by (simp add: Let_def)
qed (simp add: Let_def)

lemma follow_log_frame:
  assumes "no_recovery P"
  shows "ms_last_action (follow_log now (po_log P) s) = ms_last_action s"
    "ms_heals (follow_log now (po_log P) s) = ms_heals s"
    "ms_world (follow_log now (po_log P) s) = ms_world s"
    "ms_stuck_since s = Some t0 \<Longrightarrow> ms_stuck_since (follow_log now (po_log P) s) = Some t0"
proof -
  have "ms_last_action (follow_log now (po_log P) s) = ms_last_action s \<and>
    ms_heals (follow_log now (po_log P) s) = ms_heals s \<and> ms_world (follow_log now (po_log P) s) = ms_world s \<and>
    (ms_stuck_since s = Some t0 \<longrightarrow> ms_stuck_since (follow_log now (po_log P) s) = Some t0)"
  proof (cases "po_log P")
    case (Some c)
    obtain ls o' where r: "read_new_lines c (ms_offset s) = (ls, o')" by fastforce
    have "\<forall>l \<in> set ls. \<not> contains l HEALTHY_MARKER"
      using new_lines_contain[of _ c "ms_offset s" HEALTHY_MARKER] assms Some r by (auto simp: no_recovery_def)
    from mark_lines_frame[OF this] show ?thesis using Some r by (simp add: follow_log_def Let_def)
  qed (simp add: follow_log_def)
  then show "ms_last_action (follow_log now (po_log P) s) = ms_last_action s"
    "ms_heals (follow_log now (po_log P) s) = ms_heals s" "ms_world (follow_log now (po_log P) s) = ms_world s"
    "ms_stuck_since s = Some t0 \<Longrightarrow> ms_stuck_since (follow_log now (po_log P) s) = Some t0" by auto
qed

section \<open>How often it heals\<close>

text \<open>Heals lie an hour apart, and the last one is remembered.\<close>

definition spaced :: "mesh_state \<Rightarrow> bool" where
  "spaced s \<longleftrightarrow> sorted_wrt (\<lambda>x y. fst x + ACTION_COOLDOWN \<le> fst y) (ms_heals s) \<and>
     (\<forall>h \<in> set (ms_heals s). \<exists>a. ms_last_action s = Some a \<and> fst h \<le> a)"

lemma spaced_poll:
  assumes "watch_poll P s = (b, t)" "no_recovery P" "spaced s"
  shows "spaced t"
proof -
  define s0 where "s0 = s \<lparr> ms_world := po_others P (ms_world s) \<rparr>"
  define s1 where "s1 = (if 5 * POLL_INTERVAL < po_now P - po_started P
      then s0 \<lparr> ms_stuck_since := None, ms_last_activity := po_now P \<rparr> else s0)"
  define s2 where "s2 = follow_log (po_now P) (po_log P) s1"
  have f: "ms_last_action s2 = ms_last_action s" "ms_heals s2 = ms_heals s"
    using follow_log_frame(1,2)[OF assms(2)] by (simp_all add: s2_def s1_def s0_def)
  have keep: "spaced u" if "ms_heals u = ms_heals s" "ms_last_action u = ms_last_action s" for u
    using assms(3) that by (simp add: spaced_def)
  have heal: "spaced u" if "ms_heals u = ms_heals s @ [(po_now P, r)]" "ms_last_action u = Some (po_now P)"
    "\<not> cooling_down (po_now P) s2" for u r
  proof -
    have early: "fst h + ACTION_COOLDOWN \<le> po_now P" if h: "h \<in> set (ms_heals s)" for h
    proof -
      obtain a where a: "ms_last_action s = Some a" "fst h \<le> a" using assms(3) h by (auto simp: spaced_def)
      then have "ACTION_COOLDOWN \<le> po_now P - a" using \<open>\<not> cooling_down (po_now P) s2\<close> f by (simp add: cooling_down_def)
      moreover have "0 < ACTION_COOLDOWN" by (simp add: ACTION_COOLDOWN_def)
      ultimately show ?thesis using a(2) by linarith
    qed
    have "fst h \<le> po_now P" if "h \<in> set (ms_heals s)" for h using early[OF that] by simp
    then show ?thesis using that(1,2) early assms(3) by (auto simp: spaced_def sorted_wrt_append)
  qed
  from assms(1) show ?thesis
    unfolding watch_poll_def Let_def s0_def[symmetric] s1_def[symmetric] s2_def[symmetric]
    using keep heal f
    by (auto simp: s0_def split: if_splits option.splits prod.splits bool.splits)
qed

text \<open>While the agent logs no successful connection, the watcher heals at most once an hour, whatever
  made it act and whatever came of it: a restart that found the tool busy, failed or timed out counts
  as well.\<close>

theorem heals_are_an_hour_apart:
  assumes "watch Ps s = (b, t)" "\<forall>P \<in> set Ps. no_recovery P" "ms_heals s = []"
  shows "sorted_wrt (\<lambda>x y. fst x + 3600 \<le> fst y) (ms_heals t)"
proof -
  have "spaced t" if "watch Ps s = (b, t)" "\<forall>P \<in> set Ps. no_recovery P" "spaced s" for Ps s
    using that
  proof (induction Ps arbitrary: s)
    case (Cons P Ps)
    obtain c s1 where p: "watch_poll P s = (c, s1)" by fastforce
    then have "spaced s1" using spaced_poll Cons.prems by auto
    then show ?case using Cons p by (cases c) auto
  qed simp
  from this[OF assms(1,2)] assms(3) show ?thesis by (simp add: spaced_def ACTION_COOLDOWN_def)
qed

text \<open>A poll that neither rests nor is disturbed.\<close>

definition undisturbed :: "poll_env \<Rightarrow> bool" where
  "undisturbed P \<longleftrightarrow> no_recovery P \<and> \<not> po_suspended P \<and> po_now P - po_started P \<le> 5 * POLL_INTERVAL \<and>
     (\<forall>w. \<not> is_updating MESH_TOOL_ID (os_rm (mw_ops (po_others P w))))"

lemma undisturbed_poll:
  assumes "watch_poll P s = (b, t)" "undisturbed P" "ms_stuck_since s = Some t0" "ms_last_action s = None"
  shows "(\<exists>r. ms_heals t = ms_heals s @ [(po_now P, r)]) \<or>
    b = False \<and> po_now P < t0 + STUCK_DURATION \<and> ms_stuck_since t = Some t0 \<and> ms_last_action t = None \<and>
    ms_heals t = ms_heals s"
proof -
  define s0 where "s0 = s \<lparr> ms_world := po_others P (ms_world s) \<rparr>"
  define s2 where "s2 = follow_log (po_now P) (po_log P) s0"
  have u: "no_recovery P" "\<not> po_suspended P" "\<not> 5 * POLL_INTERVAL < po_now P - po_started P"
    "\<not> is_updating MESH_TOOL_ID (os_rm (mw_ops (po_others P (ms_world s))))"
    using assms(2) by (auto simp: undisturbed_def)
  have f: "ms_last_action s2 = None" "ms_heals s2 = ms_heals s" "ms_stuck_since s2 = Some t0"
    "ms_world s2 = po_others P (ms_world s)"
    using follow_log_frame(1-3)[OF u(1), where now = "po_now P" and s = s0]
      follow_log_frame(4)[OF u(1), where now = "po_now P" and s = s0 and ?t0.0 = t0] assms(3,4)
    by (simp_all add: s2_def s0_def)
  have "watch_poll P s = (case heal_reason_of (po_mesh P) (po_now P) s2 of
      None \<Rightarrow> (False, s2)
    | Some reason \<Rightarrow>
        (let s3 = s2 \<lparr> ms_last_action := Some (po_now P), ms_heals := ms_heals s2 @ [(po_now P, reason)] \<rparr> in
         case heal (po_mesh P) (ms_world s3) of
           (True, w) \<Rightarrow> (True, s3 \<lparr> ms_world := w \<rparr>)
         | (False, w) \<Rightarrow> (False, s3 \<lparr> ms_world := w, ms_stuck_since := None, ms_last_activity := po_healed P \<rparr>)))"
    unfolding watch_poll_def Let_def s0_def[symmetric] if_not_P[OF u(2)] if_not_P[OF u(3)] s2_def[symmetric]
    using u(4) f by (simp add: cooling_down_def)
  moreover have "po_now P < t0 + STUCK_DURATION" if "heal_reason_of (po_mesh P) (po_now P) s2 = None"
  proof -
    have "0 < STUCK_DURATION" by (simp add: STUCK_DURATION_def)
    then show ?thesis using that f(3) by (auto simp: heal_reason_of_def split: if_splits)
  qed
  ultimately show ?thesis
    using assms(1) f by (auto simp: Let_def split: option.splits prod.splits bool.splits)
qed

text \<open>C25. A connection that stays down is acted on: when the watcher holds the agent stuck since some
  time, no heal was made before (so no cooldown is running), and every poll from then to the first one
  ten minutes or more after that time is undisturbed (the agent not being updated, the tenant not
  suspended, the machine not asleep, nothing healthy logged), then it has healed by that poll. A
  sleep or an update in between starts the ten minutes again; after a heal the cooldown holds for an hour.\<close>

theorem stuck_agent_is_healed:
  assumes "watch (Ps @ [P]) s = (b, t)" "\<forall>Q \<in> set (Ps @ [P]). undisturbed Q"
    and "ms_stuck_since s = Some t0" "ms_last_action s = None" "t0 + 600 \<le> po_now P"
  shows "\<exists>h hs. ms_heals t = ms_heals s @ h # hs"
proof -
  have grow: "\<exists>hs. ms_heals v = ms_heals u @ hs" if "watch Qs u = (b', v)" "\<forall>Q \<in> set Qs. no_recovery Q" for Qs u v b'
    using that
  proof (induction Qs arbitrary: u)
    case (Cons Q Qs)
    obtain c u1 where p: "watch_poll Q u = (c, u1)" by fastforce
    have "\<exists>hs. ms_heals u1 = ms_heals u @ hs"
      using p follow_log_frame(2)[of Q] Cons.prems(2)
      by (auto simp: watch_poll_def Let_def split: if_splits option.splits prod.splits bool.splits)
    then show ?case using Cons p by (cases c) (auto, fastforce)
  qed simp
  show ?thesis
    using assms
  proof (induction Ps arbitrary: s)
    case Nil
    obtain c s1 where p: "watch_poll P s = (c, s1)" by fastforce
    have "t = s1" using Nil p by (auto split: bool.splits)
    then show ?case
      using undisturbed_poll[OF p _ Nil(3,4)] Nil(2,5) by (auto simp: STUCK_DURATION_def)
  next
    case (Cons Q Qs)
    obtain c s1 where p: "watch_poll Q s = (c, s1)" by fastforce
    have Q: "undisturbed Q" and rest: "\<forall>R \<in> set (Qs @ [P]). undisturbed R" using Cons.prems(2) by auto
    then have quiet: "\<forall>R \<in> set (Qs @ [P]). no_recovery R" by (auto simp: undisturbed_def)
    show ?case
    proof (cases "\<exists>r. ms_heals s1 = ms_heals s @ [(po_now Q, r)]")
      case True
      have "\<exists>hs. ms_heals t = ms_heals s1 @ hs"
      proof (cases c)
        case True
        then show ?thesis using Cons.prems(1) p by auto
      next
        case False
        then show ?thesis using Cons.prems(1) p grow[OF _ quiet] by auto
      qed
      then show ?thesis using True by auto
    next
      case False
      then have s1: "c = False" "ms_stuck_since s1 = Some t0" "ms_last_action s1 = None" "ms_heals s1 = ms_heals s"
        using undisturbed_poll[OF p Q Cons.prems(3,4)] by auto
      then have "watch (Qs @ [P]) s1 = (b, t)" using Cons.prems(1) p by simp
      from Cons.IH[OF this rest s1(2,3) Cons.prems(5)] show ?thesis using s1(4) by simp
    qed
  qed
qed

section \<open>Patience\<close>

text \<open>What was measured before the watcher started does not count for more than the cap.\<close>

definition patient :: "nat \<Rightarrow> mesh_state \<Rightarrow> bool" where
  "patient t0 s \<longleftrightarrow> (\<forall>t. ms_stuck_since s = Some t \<longrightarrow> t0 \<le> t) \<and>
     t0 + STUCK_DURATION \<le> ms_last_activity s + SILENCE_DURATION \<and>
     (\<forall>h \<in> set (ms_heals s). fst h < t0 + STUCK_DURATION \<longrightarrow> snd h = NoServerId)"

lemma later_is_patient: "t0 \<le> n \<Longrightarrow> t0 + STUCK_DURATION \<le> n + SILENCE_DURATION"
  by (simp add: STUCK_DURATION_def SILENCE_DURATION_def)

lemma patient_start: "patient t0 (watch_start t0 log age [] w)"
  by (auto simp: patient_def watch_start_def seed_last_activity_def Let_def STUCK_DURATION_def
      SILENCE_DURATION_def split: option.splits if_splits)

lemma mark_lines_patient: "t0 \<le> now \<Longrightarrow> patient t0 s \<Longrightarrow> patient t0 (fold (mark_line now) ls s)"
proof (induction ls arbitrary: s)
  case (Cons l ls)
  have "patient t0 (mark_line now l s)"
    using Cons.prems by (auto simp: patient_def mark_line_def line_marker_def split: option.splits)
  then show ?case using Cons by simp
qed simp

lemma follow_log_patient: "t0 \<le> now \<Longrightarrow> patient t0 s \<Longrightarrow> patient t0 (follow_log now log s)"
  unfolding follow_log_def
  by (auto intro!: mark_lines_patient simp: later_is_patient split: option.splits prod.splits)
    (auto simp: patient_def later_is_patient)

lemma watch_poll_patient:
  assumes "watch_poll P s = (b, t)" "patient t0 s" "t0 \<le> po_now P" "t0 \<le> po_healed P"
  shows "patient t0 t"
proof -
  define s0 where "s0 = s \<lparr> ms_world := po_others P (ms_world s) \<rparr>"
  define s1 where "s1 = (if 5 * POLL_INTERVAL < po_now P - po_started P
      then s0 \<lparr> ms_stuck_since := None, ms_last_activity := po_now P \<rparr> else s0)"
  define s2 where "s2 = follow_log (po_now P) (po_log P) s1"
  have s0: "patient t0 s0" using assms(2) by (simp add: s0_def patient_def)
  then have "patient t0 s1" using assms(3) by (auto simp: s1_def patient_def later_is_patient)
  then have s2: "patient t0 s2" using follow_log_patient assms(3) by (simp add: s2_def)
  have "0 < STUCK_DURATION" "0 < SILENCE_DURATION" by (simp_all add: STUCK_DURATION_def SILENCE_DURATION_def)
  have early: "r = NoServerId" if "heal_reason_of (po_mesh P) (po_now P) s2 = Some r" "po_now P < t0 + STUCK_DURATION" for r
    using that s2 \<open>0 < STUCK_DURATION\<close> \<open>0 < SILENCE_DURATION\<close>
    by (auto simp: heal_reason_of_def patient_def split: if_splits option.splits)
  have heal: "patient t0 (s2 \<lparr> ms_last_action := a, ms_heals := ms_heals s2 @ [(po_now P, r)], ms_world := w \<rparr>)"
    "patient t0 (s2 \<lparr> ms_last_action := a, ms_heals := ms_heals s2 @ [(po_now P, r)], ms_world := w,
       ms_stuck_since := None, ms_last_activity := po_healed P \<rparr>)"
    if "heal_reason_of (po_mesh P) (po_now P) s2 = Some r" for r w a
    using early[OF that] s2 assms(4) by (auto simp: patient_def later_is_patient)
  have rest: "patient t0 (s2 \<lparr> ms_stuck_since := None, ms_last_activity := po_now P \<rparr>)"
    using s2 assms(3) by (auto simp: patient_def later_is_patient)
  from assms(1) show ?thesis
    unfolding watch_poll_def Let_def s0_def[symmetric] s1_def[symmetric] s2_def[symmetric]
    using s0 s2 heal rest
    by (auto split: if_splits option.splits prod.splits bool.splits)
qed

text \<open>A watcher that just started, whatever the age and the tail of the log say, lets ten minutes pass
  before it takes the agent for stuck or silent; only a missing server id is acted on earlier.\<close>

theorem no_hasty_heal:
  assumes "watch Ps (watch_start start log age [] w) = (b, t)"
    and "\<forall>P \<in> set Ps. start \<le> po_now P \<and> start \<le> po_healed P"
    and "h \<in> set (ms_heals t)" "fst h < start + 600"
  shows "snd h = NoServerId"
proof -
  have "patient start v" if "watch Qs u = (b', v)" "patient start u"
    "\<forall>P \<in> set Qs. start \<le> po_now P \<and> start \<le> po_healed P" for Qs u v b'
    using that
  proof (induction Qs arbitrary: u)
    case (Cons Q Qs)
    obtain c u1 where p: "watch_poll Q u = (c, u1)" by fastforce
    then have "patient start u1" using watch_poll_patient Cons.prems by auto
    then show ?case using Cons p by (cases c) auto
  qed simp
  from this[OF assms(1) patient_start assms(2)] show ?thesis
    using assms(3,4) by (simp add: patient_def STUCK_DURATION_def)
qed

section \<open>Refreshing the configuration\<close>

lemma try_refresh_answered:
  assumes "mesh_msh_path E w = Ok p" "me_server_url E = Some host" "me_token E = Some token"
    and "me_response E = Answered status (Some body)" "200 \<le> status" "status < 300"
  shows "try_refresh_msh E w = apply_msh E p body (w \<lparr> mw_requests := mw_requests w @ [generate_msh_url host] \<rparr>)"
  using assms by (simp add: try_refresh_msh_def)

lemma try_refresh_written:
  assumes "try_refresh_msh E w = (Ok True, w1)"
  obtains p body where "mesh_msh_path E w = Ok p" "mw_files w1 p = Some body" "mw_ops w1 = mw_ops w"
    "\<exists>status. me_response E = Answered status (Some body) \<and> 200 \<le> status \<and> status < 300"
    "parse_msh_field body ''MeshID'' \<noteq> None \<or> parse_msh_field body ''ServerID'' \<noteq> None"
  using assms
  by (auto simp: try_refresh_msh_def apply_msh_def rewrite_msh_def Let_def
      split: sum.splits option.splits http_answer.splits if_splits)

text \<open>A refresh settles: after it reported a rewritten file the file holds the backend's answer, and
  while the backend answers the same the next refresh reports the file as current and leaves it alone.\<close>

theorem refresh_settles:
  assumes "try_refresh_msh E w = (Ok True, w1)" "mesh_msh_path E w = Ok p"
    and "mesh_msh_path E' w1 = Ok p" "me_readable E' p" "me_response E' = me_response E"
    and "me_server_url E' = Some host" "me_token E' = Some token"
  shows "fst (try_refresh_msh E' w1) = Ok False \<and> mw_files (snd (try_refresh_msh E' w1)) = mw_files w1 \<and>
    (\<exists>status body. me_response E = Answered status (Some body) \<and> mw_files w1 p = Some body)"
proof -
  obtain body status where w1: "mw_files w1 p = Some body" "me_response E = Answered status (Some body)"
    "200 \<le> status" "status < 300"
    "parse_msh_field body ''MeshID'' \<noteq> None \<or> parse_msh_field body ''ServerID'' \<noteq> None"
    using assms(2) by (auto intro: try_refresh_written[OF assms(1)])
  have "try_refresh_msh E' w1 = apply_msh E' p body (w1 \<lparr> mw_requests := mw_requests w1 @ [generate_msh_url host] \<rparr>)"
    using try_refresh_answered[OF assms(3,6,7)] assms(5) w1 by simp
  then show ?thesis using w1 assms(4) by (auto simp: apply_msh_def Let_def read_text_def)
qed

text \<open>A refresh can take the server id away: an answer with a new mesh id but no server id replaces
  the whole file, so that an agent that could authenticate its server no longer can, and the next poll
  finds it unhealthy.\<close>

theorem refresh_can_drop_serverid:
  assumes "mesh_msh_path E w = Ok p" "me_server_url E = Some host" "me_token E = Some token"
    and "me_response E = Answered 200 (Some body)" "me_dirs_ok E" "me_write_ok E" "me_rename_ok E"
    and "parse_msh_field body ''MeshID'' = Some mesh" "parse_msh_field body ''ServerID'' = None"
    and "read_text E p w = Some old" "parse_msh_field old ''ServerID'' = Some server"
    and "parse_msh_field old ''MeshID'' \<noteq> Some mesh"
    and "mesh_record E w = Ok (Some tool)" "it_state tool = Installed" "find_existing_msh E 0 = Ok (Some p)"
  shows "\<not> current_msh_missing_serverid E w \<and> fst (try_refresh_msh E w) = Ok True \<and>
    current_msh_missing_serverid E (snd (try_refresh_msh E w))"
proof -
  have ok: "\<not> current_msh_missing_serverid E w" using assms by (simp add: current_msh_missing_serverid_def)
  let ?w = "w \<lparr> mw_requests := mw_requests w @ [generate_msh_url host] \<rparr>"
  have readable: "me_readable E p" "mw_files w p = Some old" using assms(10) by (auto simp: read_text_def split: if_splits)
  have "try_refresh_msh E w = apply_msh E p body ?w" using try_refresh_answered[OF assms(1-4)] by simp
  also have "\<dots> = rewrite_msh E p body ?w"
    using assms(8,9,12) readable by (simp add: apply_msh_def read_text_def)
  finally have r: "try_refresh_msh E w = rewrite_msh E p body ?w" .
  have "mesh_record E (snd (rewrite_msh E p body ?w)) = Ok (Some tool)"
    using assms(13) by (simp add: rewrite_msh_def Let_def mesh_record_def)
  then have "current_msh_missing_serverid E (snd (rewrite_msh E p body ?w))"
    using assms(5-7,9,14,15) readable(1)
    by (simp add: current_msh_missing_serverid_def rewrite_msh_def Let_def read_text_def)
  then show ?thesis using ok r assms(5-7) by (simp add: rewrite_msh_def Let_def)
qed

section \<open>Concrete watchers\<close>

definition msh_text :: "string \<Rightarrow> string \<Rightarrow> string" where
  "msh_text mesh server = ''MeshID='' @ mesh @ [newline] @ (if server = [] then [] else ''ServerID='' @ server @ [newline])"

definition sample_mesh :: "string \<Rightarrow> mesh_env" where
  "sample_mesh body = \<lparr> me_ops = sample_op, me_dir = (\<lambda>_. DirEntries [Some ''agent.log'', Some ''agent.msh'']),
     me_readable = (\<lambda>_. True), me_server_url = Some ''srv'', me_token = Some ''t'',
     me_response = Answered 200 (Some body), me_dirs_ok = True, me_write_ok = True, me_rename_ok = True \<rparr>"

definition sample_msh_path :: string where "sample_msh_path = ''/opt/meshcentral-agent/agent.msh''"

definition mesh_agent :: installed_tool where
  "mesh_agent = default_tool \<lparr> it_tool_agent_id := MESH_TOOL_ID \<rparr>"

definition sample_mesh_world :: "string \<Rightarrow> mesh_world" where
  "sample_mesh_world msh = \<lparr> mw_ops = sample_state \<lparr> os_rm := empty_manager (Content [mesh_agent]) \<rparr>,
     mw_files = [sample_msh_path \<mapsto> msh], mw_requests = [] \<rparr>"

definition calm_world :: mesh_world where "calm_world = sample_mesh_world (msh_text ''m'' ''s'')"

definition sample_poll :: "nat \<Rightarrow> string \<Rightarrow> poll_env" where
  "sample_poll now log = \<lparr> po_started = now - 30, po_now = now, po_healed = now, po_suspended = False,
     po_log = Some log, po_others = (\<lambda>_. calm_world), po_mesh = sample_mesh (msh_text ''m'' ''s'') \<rparr>"

definition failed_line :: string where "failed_line = ''Connection FAILED: x'' @ [newline]"

lemma polls_read_every_line_once_witness:
  "tail_polls [] 0 [''ab'', ''c'' @ [newline] @ ''d'', [newline]] = [''abc'', ''d'']"
proof -
  have "fst (read_new_lines ([] @ concat [''ab'', ''c'' @ [newline] @ ''d'', [newline]]) 0) = [''abc'', ''d'']"
    by code_simp
  then show ?thesis using polls_read_every_line_once[of 0 "[]" "[''ab'', ''c'' @ [newline] @ ''d'', [newline]]"] by simp
qed

lemma sample_polls_undisturbed: "undisturbed (sample_poll now failed_line)" "undisturbed (sample_poll now [])"
proof -
  have "\<not> is_updating MESH_TOOL_ID (os_rm (mw_ops calm_world))" "\<not> contains failed_line HEALTHY_MARKER"
    "\<not> contains [] HEALTHY_MARKER"
    by code_simp+
  moreover have "now - (now - 30) \<le> 5 * POLL_INTERVAL" by (simp add: POLL_INTERVAL_def)
  ultimately show "undisturbed (sample_poll now failed_line)" "undisturbed (sample_poll now [])"
    by (simp_all add: undisturbed_def no_recovery_def sample_poll_def)
qed

lemma undisturbed_no_recovery: "undisturbed P \<Longrightarrow> no_recovery P"
  by (simp add: undisturbed_def)

definition failing_polls :: "poll_env list" where
  "failing_polls = [sample_poll 30 failed_line, sample_poll 630 failed_line, sample_poll 1230 failed_line]"

lemma failing_polls_undisturbed: "\<forall>P \<in> set failing_polls. undisturbed P"
  by (simp add: failing_polls_def sample_polls_undisturbed)

definition stuck_watcher :: mesh_state where
  "stuck_watcher = watch_start 0 (Some failed_line) None [] calm_world"

lemma heals_are_an_hour_apart_witness:
  "sorted_wrt (\<lambda>x y. fst x + 3600 \<le> fst y) (ms_heals (snd (watch failing_polls stuck_watcher)))"
proof -
  obtain b t where w: "watch failing_polls stuck_watcher = (b, t)" by fastforce
  have "ms_heals stuck_watcher = []" by (simp add: stuck_watcher_def watch_start_def Let_def)
  from heals_are_an_hour_apart[OF w _ this] show ?thesis
    using w failing_polls_undisturbed undisturbed_no_recovery by auto
qed

lemma stuck_agent_is_healed_witness:
  "\<exists>h hs. ms_heals (snd (watch failing_polls stuck_watcher)) = h # hs"
proof -
  obtain b t where w: "watch ([sample_poll 30 failed_line, sample_poll 630 failed_line] @ [sample_poll 1230 failed_line])
      stuck_watcher = (b, t)" by fastforce
  have "\<forall>Q \<in> set ([sample_poll 30 failed_line, sample_poll 630 failed_line] @ [sample_poll 1230 failed_line]). undisturbed Q"
    using failing_polls_undisturbed by (simp add: failing_polls_def)
  moreover have "ms_stuck_since stuck_watcher = Some 0" by code_simp
  moreover have "ms_last_action stuck_watcher = None" "ms_heals stuck_watcher = []" "0 + 600 \<le> po_now (sample_poll 1230 failed_line)"
    by (simp_all add: stuck_watcher_def watch_start_def sample_poll_def Let_def)
  ultimately show ?thesis using stuck_agent_is_healed[OF w] w by (simp add: failing_polls_def)
qed

lemma no_hasty_heal_witness:
  "filter (\<lambda>h. fst h < 600 \<and> snd h \<noteq> NoServerId) (ms_heals (snd (watch failing_polls stuck_watcher))) = []"
proof -
  obtain b t where w: "watch failing_polls (watch_start 0 (Some failed_line) None [] calm_world) = (b, t)" by fastforce
  show ?thesis using no_hasty_heal[OF w] w by (auto simp: stuck_watcher_def filter_empty_conv)
qed

lemma refresh_settles_witness:
  "let E = sample_mesh (msh_text ''n'' ''s''); (r, w1) = try_refresh_msh E calm_world in
   r = Ok True \<and> fst (try_refresh_msh E w1) = Ok False"
proof -
  define E where "E = sample_mesh (msh_text ''n'' ''s'')"
  obtain w1 where r: "try_refresh_msh E calm_world = (Ok True, w1)"
  proof -
    have "fst (try_refresh_msh E calm_world) = Ok True" unfolding E_def by code_simp
    then show ?thesis using that by (cases "try_refresh_msh E calm_world") auto
  qed
  have p: "mesh_msh_path E w = Ok sample_msh_path" for w
  proof -
    have "find_existing_msh E 1 = Ok (Some sample_msh_path)" unfolding E_def by code_simp
    then show ?thesis by (simp add: mesh_msh_path_def)
  qed
  have "me_readable E sample_msh_path" "me_server_url E = Some ''srv''" "me_token E = Some ''t''"
    by (simp_all add: E_def sample_mesh_def)
  from refresh_settles[OF r p p this(1) refl this(2,3)] show ?thesis using r by (simp add: E_def[symmetric])
qed

lemma refresh_can_drop_serverid_witness:
  "let E = sample_mesh (msh_text ''n'' []) in
   \<not> current_msh_missing_serverid E calm_world \<and>
   current_msh_missing_serverid E (snd (try_refresh_msh E calm_world))"
proof -
  define E where "E = sample_mesh (msh_text ''n'' [])"
  have f: "mesh_msh_path E calm_world = Ok sample_msh_path" "find_existing_msh E 0 = Ok (Some sample_msh_path)"
    "mesh_record E calm_world = Ok (Some mesh_agent)" "read_text E sample_msh_path calm_world = Some (msh_text ''m'' ''s'')"
    "it_state mesh_agent = Installed"
    unfolding E_def by code_simp+
  have m: "parse_msh_field (msh_text ''n'' []) ''MeshID'' = Some ''n''" "parse_msh_field (msh_text ''n'' []) ''ServerID'' = None"
    "parse_msh_field (msh_text ''m'' ''s'') ''ServerID'' = Some ''s''" "parse_msh_field (msh_text ''m'' ''s'') ''MeshID'' \<noteq> Some ''n''"
    by code_simp+
  have "me_server_url E = Some ''srv''" "me_token E = Some ''t''" "me_response E = Answered 200 (Some (msh_text ''n'' []))"
    "me_dirs_ok E" "me_write_ok E" "me_rename_ok E"
    by (simp_all add: E_def sample_mesh_def)
  from refresh_can_drop_serverid[OF f(1) this m(1,2) f(4) m(3,4) f(3,5,2)] show ?thesis
    by (simp add: E_def[symmetric])
qed
end
