(* ===== verification/Retry.thy ===== *)
theory Retry
  imports Prelude
begin

text \<open>Loops that repeat an attempt until it succeeds and may not end: what they return and when, once
  for all of them.\<close>

text \<open>The state after the n-th failed attempt, or the outcome of an earlier successful one.\<close>

primrec tries :: "('s \<Rightarrow> 's + 't) \<Rightarrow> 's \<Rightarrow> nat \<Rightarrow> 's + 't" where
  "tries a s 0 = a s"
| "tries a s (Suc n) = (case tries a s n of Inl s' \<Rightarrow> a s' | Inr t \<Rightarrow> Inr t)"

lemma tries_shift: "tries a s (Suc n) = (case a s of Inl s' \<Rightarrow> tries a s' n | Inr t \<Rightarrow> Inr t)"
  by (induction n arbitrary: s) (auto split: sum.splits)

text \<open>A loop that may not end: the least solution of its equation.\<close>

locale retry_loop =
  fixes attempt :: "'s \<Rightarrow> 's + 't"
    and loop :: "'s \<Rightarrow> 't option"
  assumes unfold: "loop s = (case attempt s of Inl s' \<Rightarrow> loop s' | Inr t \<Rightarrow> Some t)"
    and least: "loop s = Some t \<Longrightarrow>
      (\<And>s t. (case attempt s of Inl s' \<Rightarrow> P s' t | Inr t' \<Rightarrow> t' = t) \<Longrightarrow> P s t) \<Longrightarrow> P s t"
begin

lemma loop_iff: "loop s = Some t \<longleftrightarrow> (\<exists>n. tries attempt s n = Inr t)"
proof
  assume "loop s = Some t"
  then show "\<exists>n. tries attempt s n = Inr t"
  proof (rule least)
    fix s t
    assume step: "case attempt s of Inl s' \<Rightarrow> \<exists>n. tries attempt s' n = Inr t | Inr t' \<Rightarrow> t' = t"
    show "\<exists>n. tries attempt s n = Inr t"
    proof (cases "attempt s")
      case (Inl s')
      then obtain n where "tries attempt s' n = Inr t" using step by auto
      then have "tries attempt s (Suc n) = Inr t" using Inl by (simp add: tries_shift del: tries.simps)
      then show ?thesis by blast
    next
      case (Inr t')
      then have "tries attempt s 0 = Inr t" using step by simp
      then show ?thesis by blast
    qed
  qed
next
  assume "\<exists>n. tries attempt s n = Inr t"
  then obtain n where "tries attempt s n = Inr t" by blast
  then show "loop s = Some t"
  proof (induction n arbitrary: s)
    case 0
    then show ?case using unfold[of s] by simp
  next
    case (Suc n)
    then show ?case using unfold[of s] by (cases "attempt s") (simp_all add: tries_shift del: tries.simps)
  qed
qed

lemma ends_iff: "loop s \<noteq> None \<longleftrightarrow> (\<exists>n t. tries attempt s n = Inr t)"
  using loop_iff by auto

lemma never_ends:
  assumes "I s" "\<And>s. I s \<Longrightarrow> \<exists>s'. attempt s = Inl s' \<and> I s'"
  shows "loop s = None"
proof -
  have "\<exists>s'. tries attempt s n = Inl s' \<and> I s'" for n
    using assms by (induction n) fastforce+
  then have "tries attempt s n \<noteq> Inr t" for n t by (metis sum.distinct(1))
  then show ?thesis using ends_iff[of s] by blast
qed

lemma ends_from_invariant:
  assumes "loop s = Some t" "I s" "\<And>s s'. I s \<Longrightarrow> attempt s = Inl s' \<Longrightarrow> I s'"
  shows "\<exists>s'. I s' \<and> attempt s' = Inr t"
proof -
  obtain n where n: "tries attempt s n = Inr t" using assms(1) loop_iff by blast
  have keep: "I s'" if "tries attempt s m = Inl s'" for m s'
    using that assms(2,3) by (induction m arbitrary: s') (auto split: sum.splits)
  show ?thesis
    using n
  proof (induction n)
    case 0
    then show ?case using assms(2) by auto
  next
    case (Suc n)
    then show ?case using keep[of n] by (cases "tries attempt s n") auto
  qed
qed

end

end
