(* ===== verification/Identity.thy ===== *)
theory Identity
  imports Registry GithubDownload Supervision Deactivation Retry
begin

text \<open>Who the machine is: the installer's configuration (installation\_initial\_config\_service.rs,
  services/initial\_configuration\_service.rs, models/device\_tag.rs), the identity that survives
  reinstallation (platform/machine\_info\_persistence.rs), the registration with the backend
  (clients/registration\_client.rs, services/agent\_registration\_service.rs,
  services/registration\_processor.rs) and the late fetch of the initial key
  (services/initial\_key\_service.rs). Answers of the network, of the operating system and of single
  file operations are the environment's, indexed by a counter of the state; JSON and the grammar of
  HTTP headers and IP addresses are parameters.\<close>

section \<open>Device tags\<close>

record device_tag =
  dt_key :: string
  dt_values :: "string list"

definition tag_pair :: "string \<Rightarrow> (string \<times> string) option" where
  "tag_pair tag =
    (case split_once (CHR ''='') tag of
       None \<Rightarrow> None
     | Some (k, v) \<Rightarrow>
         (let key = trim k; v' = trim v in if key = [] \<or> v' = [] then None else Some (key, v')))"

fun collect_tags :: "string list \<Rightarrow> (string \<rightharpoonup> string list) \<Rightarrow> (string \<rightharpoonup> string list)" where
  "collect_tags [] m = m"
| "collect_tags (tag # tags) m =
     (case tag_pair tag of
        None \<Rightarrow> collect_tags tags m
      | Some (k, v) \<Rightarrow> collect_tags tags (m(k \<mapsto> unwrap_or (m k) [] @ [v])))"

text \<open>The order in which a hash map lists its keys is not specified: it is an argument.\<close>

definition parse_from_cli :: "((string \<rightharpoonup> string list) \<Rightarrow> string list) \<Rightarrow> string list \<Rightarrow> device_tag list" where
  "parse_from_cli listing raw =
    (let m = collect_tags raw Map.empty in
     map (\<lambda>k. \<lparr> dt_key = k, dt_values = unwrap_or (m k) [] \<rparr>) (listing m))"

section \<open>The initial configuration\<close>

record initial_configuration =
  ic_server_host :: string
  ic_initial_key :: string
  ic_local_mode :: bool
  ic_org_id :: string
  ic_local_ca_cert_path :: string
  ic_tags :: "device_tag list"

definition default_initial :: initial_configuration where
  "default_initial = \<lparr> ic_server_host = [], ic_initial_key = [], ic_local_mode = False, ic_org_id = [],
     ic_local_ca_cert_path = [], ic_tags = [] \<rparr>"

type_synonym initial_file = "initial_configuration disk_file"

datatype initial_error = InitialMissing | InitialIo io_error

definition initial_get :: "io_env \<Rightarrow> initial_file \<Rightarrow> (initial_error, initial_configuration) result" where
  "initial_get io f =
    (case f of
       Missing \<Rightarrow> Err InitialMissing
     | Content c \<Rightarrow> if read_fails io then Err (InitialIo ReadError) else Ok c
     | Corrupt \<Rightarrow> if read_fails io then Err (InitialIo ReadError) else Err (InitialIo ParseError))"

definition initial_save ::
  "io_env \<Rightarrow> initial_configuration \<Rightarrow> initial_file \<Rightarrow> (io_error, unit) result \<times> initial_file" where
  "initial_save io c f = write_in_place io c f"

definition get_initial_key :: "io_env \<Rightarrow> initial_file \<Rightarrow> (initial_error, string) result" where
  "get_initial_key io f = map_sum id ic_initial_key (initial_get io f)"
definition get_server_url :: "io_env \<Rightarrow> initial_file \<Rightarrow> (initial_error, string) result" where
  "get_server_url io f = map_sum id ic_server_host (initial_get io f)"
definition is_local_mode :: "io_env \<Rightarrow> initial_file \<Rightarrow> (initial_error, bool) result" where
  "is_local_mode io f = map_sum id ic_local_mode (initial_get io f)"
definition get_org_id :: "io_env \<Rightarrow> initial_file \<Rightarrow> (initial_error, string) result" where
  "get_org_id io f = map_sum id ic_org_id (initial_get io f)"
definition get_local_ca_cert_path :: "io_env \<Rightarrow> initial_file \<Rightarrow> (initial_error, string) result" where
  "get_local_ca_cert_path io f = map_sum id ic_local_ca_cert_path (initial_get io f)"
definition get_tags :: "io_env \<Rightarrow> initial_file \<Rightarrow> (initial_error, device_tag list) result" where
  "get_tags io f = map_sum id ic_tags (initial_get io f)"
definition is_initial_key_missing :: "io_env \<Rightarrow> initial_file \<Rightarrow> (initial_error, bool) result" where
  "is_initial_key_missing io f = map_sum id (\<lambda>c. ic_initial_key c = []) (initial_get io f)"

definition update_initial_key ::
  "io_env \<Rightarrow> string \<Rightarrow> initial_file \<Rightarrow> (initial_error, unit) result \<times> initial_file" where
  "update_initial_key io key f =
    (case initial_get io f of
       Inl e \<Rightarrow> (Err e, f)
     | Inr c \<Rightarrow> map_err InitialIo (initial_save io (c \<lparr> ic_initial_key := key \<rparr>) f))"

definition clear_initial_key :: "io_env \<Rightarrow> initial_file \<Rightarrow> (initial_error, unit) result \<times> initial_file" where
  "clear_initial_key io f =
    (case initial_get io f of
       Inl e \<Rightarrow> (Err e, f)
     | Inr c \<Rightarrow> map_err InitialIo (initial_save io (c \<lparr> ic_initial_key := [] \<rparr>) f))"

section \<open>What the installer is told\<close>

record install_params =
  ip_server_url :: "string option"
  ip_initial_key :: "string option"
  ip_org_id :: "string option"
  ip_local_mode :: bool
  ip_tags :: "string list"

datatype mkcert_outcome = MkcertNotRun | MkcertFailed | MkcertOutput string

record installer_env =
  in_mkcert :: mkcert_outcome
  in_exists :: "string \<Rightarrow> bool"
  in_sep :: char
  in_listing :: "(string \<rightharpoonup> string list) \<Rightarrow> string list"
  in_io :: io_env

datatype installer_error =
    ServerUrlRequired | InitialKeyRequired | OrgIdRequired
  | MkcertUnusable | NoRootCa | InstallerSaveFailed io_error

definition present :: "string option \<Rightarrow> string option" where
  "present x = (case x of Some s \<Rightarrow> if trim s = [] then None else Some s | None \<Rightarrow> None)"

definition join_dir :: "char \<Rightarrow> string \<Rightarrow> string \<Rightarrow> string" where
  "join_dir sep root name = root @ (if root \<noteq> [] \<and> last root = sep then [] else [sep]) @ name"

definition resolve_ca :: "installer_env \<Rightarrow> (installer_error, string) result" where
  "resolve_ca E =
    (case in_mkcert E of
       MkcertOutput out \<Rightarrow>
         (let root = trim out; ca = join_dir (in_sep E) root ''rootCA.pem'' in
          if root = [] then Err MkcertUnusable else if \<not> in_exists E ca then Err NoRootCa else Ok ca)
     | _ \<Rightarrow> Err MkcertUnusable)"

definition build_and_save ::
  "installer_env \<Rightarrow> install_params \<Rightarrow> initial_file \<Rightarrow> (installer_error, unit) result \<times> initial_file" where
  "build_and_save E p f =
    (case present (ip_server_url p) of
       None \<Rightarrow> (Err ServerUrlRequired, f)
     | Some server_url \<Rightarrow>
         (case present (ip_initial_key p) of
            None \<Rightarrow> (Err InitialKeyRequired, f)
          | Some initial_key \<Rightarrow>
              (case present (ip_org_id p) of
                 None \<Rightarrow> (Err OrgIdRequired, f)
               | Some org_id \<Rightarrow>
                   (let cfg = default_initial \<lparr> ic_server_host := server_url, ic_initial_key := initial_key,
                          ic_org_id := org_id, ic_local_mode := ip_local_mode p,
                          ic_tags := parse_from_cli (in_listing E) (ip_tags p) \<rparr> in
                    case (if ip_local_mode p then resolve_ca E else Ok []) of
                      Inl e \<Rightarrow> (Err e, f)
                    | Inr ca \<Rightarrow>
                        map_err InstallerSaveFailed (initial_save (in_io E) (cfg \<lparr> ic_local_ca_cert_path := ca \<rparr>) f)))))"

section \<open>The identity that survives reinstallation\<close>

record machine_info =
  mi_machine_id :: string
  mi_client_secret :: string

text \<open>The store is a registry key, a property list or a directory; its one record may be missing, not
  parse, or parse.\<close>

datatype info_store = NoStore | NoRecord | Garbage | Record machine_info

datatype access = Granted | Denied | Refused

datatype info_error = PermissionDenied | InfoUnreadable | InfoAbsent | InfoCorrupt | InfoIncomplete

definition granted :: "access \<Rightarrow> (info_error, 'a) result \<Rightarrow> (info_error, 'a) result" where
  "granted a r = (case a of Granted \<Rightarrow> r | Denied \<Rightarrow> Err PermissionDenied | Refused \<Rightarrow> Err InfoUnreadable)"

definition info_complete :: "machine_info \<Rightarrow> bool" where
  "info_complete i \<longleftrightarrow> trim (mi_machine_id i) \<noteq> [] \<and> trim (mi_client_secret i) \<noteq> []"

definition decode_record :: "info_store \<Rightarrow> (info_error, machine_info option) result" where
  "decode_record s =
    (case s of
       Record i \<Rightarrow> if info_complete i then Ok (Some i) else Err InfoIncomplete
     | Garbage \<Rightarrow> Err InfoCorrupt
     | _ \<Rightarrow> Err InfoAbsent)"

text \<open>The access of each call on the way to the record.\<close>

definition read_once_windows :: "(nat \<Rightarrow> access) \<Rightarrow> info_store \<Rightarrow> (info_error, machine_info option) result" where
  "read_once_windows A s =
    granted (A 0) (if s = NoStore then Ok None else granted (A 1) (decode_record s))"

definition read_once_macos :: "(nat \<Rightarrow> access) \<Rightarrow> info_store \<Rightarrow> (info_error, machine_info option) result" where
  "read_once_macos A s =
    granted (A 0)
      (if s = NoStore then Ok None
       else if A 1 = Denied then Err PermissionDenied
       else granted (A 2) (decode_record s))"

definition read_once_linux :: "(nat \<Rightarrow> access) \<Rightarrow> info_store \<Rightarrow> (info_error, machine_info option) result" where
  "read_once_linux A s =
    granted (A 0)
      (if s = NoStore then Ok None
       else granted (A 1) (if s = NoRecord then Err InfoAbsent else granted (A 2) (decode_record s)))"

definition read_once :: "platform \<Rightarrow> (nat \<Rightarrow> access) \<Rightarrow> info_store \<Rightarrow> (info_error, machine_info option) result" where
  "read_once P = (case P of Windows \<Rightarrow> read_once_windows | MacOS \<Rightarrow> read_once_macos | Linux \<Rightarrow> read_once_linux)"

text \<open>A denied read repairs the permissions and is tried once more.\<close>

definition machine_info_read ::
  "platform \<Rightarrow> (bool \<Rightarrow> nat \<Rightarrow> access) \<Rightarrow> bool \<Rightarrow> info_store \<Rightarrow> (info_error, machine_info option) result" where
  "machine_info_read P A repair_ok s =
    (case read_once P (A False) s of
       Inl PermissionDenied \<Rightarrow> if repair_ok then read_once P (A True) s else Err InfoUnreadable
     | r \<Rightarrow> r)"

text \<open>Writing: each step on the way may fail.\<close>

definition created :: "info_store \<Rightarrow> info_store" where
  "created s = (if s = NoStore then NoRecord else s)"

definition write_windows :: "(nat \<Rightarrow> bool) \<Rightarrow> machine_info \<Rightarrow> info_store \<Rightarrow> bool \<times> info_store" where
  "write_windows W i s =
    (if \<not> W 0 then (False, s) else if \<not> W 1 \<or> \<not> W 2 then (False, created s) else (True, Record i))"

definition write_macos :: "(nat \<Rightarrow> bool) \<Rightarrow> machine_info \<Rightarrow> info_store \<Rightarrow> bool \<times> info_store" where
  "write_macos W i s =
    (if \<not> W 0 then (False, s)
     else if \<not> W 1 then (False, if W 2 then NoStore else Record i)
     else (True, Record i))"

definition write_linux :: "(nat \<Rightarrow> bool) \<Rightarrow> machine_info \<Rightarrow> info_store \<Rightarrow> bool \<times> info_store" where
  "write_linux W i s =
    (if \<not> W 0 then (False, s)
     else if \<not> W 1 \<or> \<not> W 2 \<or> \<not> W 3 then (False, created s)
     else (True, Record i))"

definition machine_info_write ::
  "platform \<Rightarrow> (nat \<Rightarrow> bool) \<Rightarrow> machine_info \<Rightarrow> info_store \<Rightarrow> bool \<times> info_store" where
  "machine_info_write P W i s =
    (if \<not> info_complete i then (False, s)
     else case P of Windows \<Rightarrow> write_windows W i s | MacOS \<Rightarrow> write_macos W i s | Linux \<Rightarrow> write_linux W i s)"

section \<open>Registration\<close>

record registration_response =
  gs_machine_id :: string
  gs_client_id :: string
  gs_client_secret :: string

record agent_request =
  gq_hostname :: string
  gq_agent_version :: string
  gq_organization_id :: string
  gq_os_type :: string
  gq_tags :: "device_tag list"

text \<open>A request as it was sent: the initial key, the saved credentials for a reinstallation, the body.\<close>

record sent_registration =
  sg_initial_key :: string
  sg_machine_info :: "machine_info option"
  sg_body :: agent_request

record id_env =
  rg_platform :: platform
  rg_access :: "nat \<Rightarrow> bool \<Rightarrow> nat \<Rightarrow> access"
  rg_repair_ok :: "nat \<Rightarrow> bool"
  rg_write_ok :: "nat \<Rightarrow> nat \<Rightarrow> bool"
  rg_config_io :: "nat \<Rightarrow> io_env"
  rg_initial_io :: "nat \<Rightarrow> io_env"
  rg_answer :: "nat \<Rightarrow> http_answer"
  rg_header_ok :: "string \<Rightarrow> bool"
  rg_api_code :: "string \<Rightarrow> string option"
  rg_response :: "string \<Rightarrow> registration_response option"
  rg_key :: "string \<Rightarrow> string option"
  rg_suspended :: "nat \<Rightarrow> bool"
  rg_kernel_name :: "string option"
  rg_scutil :: "string \<Rightarrow> string option"
  rg_is_ip :: "string \<Rightarrow> bool"
  rg_lower :: "string \<Rightarrow> string"
  rg_version :: string

record id_world =
  iw_config :: config_file
  iw_initial :: initial_file
  iw_store :: info_store
  iw_sent :: "sent_registration list"
  iw_key_fetches :: "string list"
  iw_clock :: nat
  iw_slept :: nat

definition is_valid_hostname :: "id_env \<Rightarrow> string \<Rightarrow> bool" where
  "is_valid_hostname E name =
    (if name = [] then False else if rg_is_ip E name then False
     else rg_lower E name \<noteq> ''localhost'' \<and> rg_lower E name \<noteq> ''localhost.localdomain'')"

definition scutil_get :: "id_env \<Rightarrow> string \<Rightarrow> string option" where
  "scutil_get E key =
    (case rg_scutil E key of
       None \<Rightarrow> None | Some out \<Rightarrow> if trim out = [] then None else Some (trim out))"

definition valid_name :: "id_env \<Rightarrow> string option \<Rightarrow> string option" where
  "valid_name E x = (case x of Some n \<Rightarrow> if is_valid_hostname E n then Some n else None | None \<Rightarrow> None)"

definition get_hostname :: "id_env \<Rightarrow> string option" where
  "get_hostname E =
    (case valid_name E (map_option trim (rg_kernel_name E)) of
       Some n \<Rightarrow> Some n
     | None \<Rightarrow>
         if rg_platform E \<noteq> MacOS then None
         else (case valid_name E (map_option (\<lambda>n. n @ ''.local'') (scutil_get E ''LocalHostName'')) of
             Some n \<Rightarrow> Some n
           | None \<Rightarrow> valid_name E (scutil_get E ''ComputerName'')))"

definition get_os_type :: "platform \<Rightarrow> string" where
  "get_os_type P = (if P = Windows then ''WINDOWS'' else ''MAC_OS'')"

definition or_default :: "('e, 'a) result \<Rightarrow> 'a \<Rightarrow> 'a" where
  "or_default r d = (case r of Inr x \<Rightarrow> x | Inl e \<Rightarrow> d)"

definition build_registration_request :: "id_env \<Rightarrow> id_world \<Rightarrow> agent_request" where
  "build_registration_request E w =
    (let io = rg_initial_io E (iw_clock w) in
     \<lparr> gq_hostname = unwrap_or (get_hostname E) [], gq_agent_version = rg_version E,
       gq_organization_id = or_default (get_org_id io (iw_initial w)) [],
       gq_os_type = get_os_type (rg_platform E),
       gq_tags = or_default (get_tags io (iw_initial w)) [] \<rparr>)"

datatype registration_error = ClientSecretInvalid | OtherError

definition is_client_secret_error :: "id_env \<Rightarrow> nat \<Rightarrow> string \<Rightarrow> bool" where
  "is_client_secret_error E status body =
    (status = 401 \<and> (case rg_api_code E body of Some code \<Rightarrow> starts_with code ''CLIENT_SECRET_'' | None \<Rightarrow> False))"

definition headers_ok :: "id_env \<Rightarrow> string \<Rightarrow> machine_info option \<Rightarrow> bool" where
  "headers_ok E key info =
    (rg_header_ok E key \<and>
     (case info of None \<Rightarrow> True | Some i \<Rightarrow> rg_header_ok E (mi_client_secret i) \<and> rg_header_ok E (mi_machine_id i)))"

definition register_answer :: "id_env \<Rightarrow> http_answer \<Rightarrow> (registration_error, registration_response) result" where
  "register_answer E a =
    (case a of
       Answered status body \<Rightarrow>
         if \<not> is_success status then
           (if is_client_secret_error E status (unwrap_or body []) then Err ClientSecretInvalid else Err OtherError)
         else (case Option.bind body (rg_response E) of None \<Rightarrow> Err OtherError | Some r \<Rightarrow> Ok r)
     | _ \<Rightarrow> Err OtherError)"

definition register ::
  "id_env \<Rightarrow> string \<Rightarrow> machine_info option \<Rightarrow> agent_request \<Rightarrow> id_world \<Rightarrow>
   (registration_error, registration_response) result \<times> id_world" where
  "register E key info request w =
    (if \<not> headers_ok E key info then (Err OtherError, w)
     else (register_answer E (rg_answer E (iw_clock w)),
       w \<lparr> iw_sent := iw_sent w @ [\<lparr> sg_initial_key = key, sg_machine_info = info, sg_body = request \<rparr>],
           iw_clock := Suc (iw_clock w) \<rparr>))"

definition fresh_install ::
  "id_env \<Rightarrow> string \<Rightarrow> id_world \<Rightarrow> (registration_error, registration_response) result \<times> id_world" where
  "fresh_install E key w = register E key None (build_registration_request E w) w"

definition reinstall ::
  "id_env \<Rightarrow> string \<Rightarrow> machine_info \<Rightarrow> id_world \<Rightarrow> (registration_error, registration_response) result \<times> id_world" where
  "reinstall E key info w =
    (case register E key (Some info) (build_registration_request E w) w of
       (Inl ClientSecretInvalid, w1) \<Rightarrow> fresh_install E key w1
     | r \<Rightarrow> r)"

definition READ_RETRY_DELAYS :: "nat list" where "READ_RETRY_DELAYS = [1, 3, 5]"

text \<open>Each failed read waits for the next delay; when there is none left the machine counts as new.\<close>

fun read_credentials :: "id_env \<Rightarrow> nat list \<Rightarrow> id_world \<Rightarrow> machine_info option \<times> id_world" where
  "read_credentials E delays w =
    (case machine_info_read (rg_platform E) (rg_access E (iw_clock w)) (rg_repair_ok E (iw_clock w)) (iw_store w) of
       Inr credentials \<Rightarrow> (credentials, w \<lparr> iw_clock := Suc (iw_clock w) \<rparr>)
     | Inl e \<Rightarrow>
         (case delays of
            [] \<Rightarrow> (None, w \<lparr> iw_clock := Suc (iw_clock w) \<rparr>)
          | d # ds \<Rightarrow>
              read_credentials E ds (w \<lparr> iw_clock := Suc (iw_clock w), iw_slept := iw_slept w + d \<rparr>)))"

declare read_credentials.simps [simp del]

definition read_persisted_credentials :: "id_env \<Rightarrow> id_world \<Rightarrow> machine_info option \<times> id_world" where
  "read_persisted_credentials E w = read_credentials E READ_RETRY_DELAYS w"

definition persist :: "id_env \<Rightarrow> registration_response \<Rightarrow> id_world \<Rightarrow> id_world" where
  "persist E r w =
    w \<lparr> iw_store := snd (machine_info_write (rg_platform E) (rg_write_ok E (iw_clock w))
          \<lparr> mi_machine_id = gs_machine_id r, mi_client_secret = gs_client_secret r \<rparr> (iw_store w)),
        iw_clock := Suc (iw_clock w) \<rparr>"

datatype attempt_error = KeyUnavailable initial_error | NotRegistered registration_error | NotSaved io_error

definition register_agent ::
  "id_env \<Rightarrow> id_world \<Rightarrow> (attempt_error, registration_response) result \<times> id_world" where
  "register_agent E w =
    (case get_initial_key (rg_initial_io E (iw_clock w)) (iw_initial w) of
       Inl e \<Rightarrow> (Err (KeyUnavailable e), w)
     | Inr key \<Rightarrow>
         (case read_persisted_credentials E w of
            (credentials, w1) \<Rightarrow>
              (case (case credentials of Some i \<Rightarrow> reinstall E key i w1 | None \<Rightarrow> fresh_install E key w1) of
                 (Inl e, w2) \<Rightarrow> (Err (NotRegistered e), w2)
               | (Inr r, w2) \<Rightarrow>
                   (let w3 = persist E r w2 in
                    case save_registration_data (rg_config_io E (iw_clock w3)) (gs_machine_id r) (gs_client_id r)
                           (gs_client_secret r) (iw_config w3) of
                      (Inl e, c) \<Rightarrow> (Err (NotSaved e), w3 \<lparr> iw_config := c, iw_clock := Suc (iw_clock w3) \<rparr>)
                    | (Inr _, c) \<Rightarrow> (Ok r, w3 \<lparr> iw_config := c, iw_clock := Suc (iw_clock w3) \<rparr>)))))"

partial_function (option) registration_loop :: "id_env \<Rightarrow> id_world \<Rightarrow> id_world option" where
  "registration_loop E w =
    (case register_agent E w of
       (Inr r, w1) \<Rightarrow> Some w1
     | (Inl e, w1) \<Rightarrow>
         registration_loop E (w1 \<lparr> iw_slept := iw_slept w1 + 60, iw_clock := Suc (iw_clock w1) \<rparr>))"

definition process_registration :: "id_env \<Rightarrow> id_world \<Rightarrow> ((io_error, unit) result \<times> id_world) option" where
  "process_registration E w =
    (case get_machine_id (rg_config_io E (iw_clock w)) (iw_config w) of
       Inl e \<Rightarrow> Some (Err e, w)
     | Inr machine_id \<Rightarrow>
         if machine_id \<noteq> [] then Some (Ok (), w) else map_option (\<lambda>w1. (Ok (), w1)) (registration_loop E w))"

section \<open>The initial key of an older installation\<close>

definition fetch_registration_secret :: "id_env \<Rightarrow> id_world \<Rightarrow> string option \<times> id_world" where
  "fetch_registration_secret E w =
    (case get_access_token (rg_config_io E (iw_clock w)) (iw_config w) of
       Inl e \<Rightarrow> (None, w)
     | Inr token \<Rightarrow>
         (case rg_answer E (iw_clock w) of
            Answered status body \<Rightarrow>
              if is_success status then Option.bind body (rg_key E) else None
          | _ \<Rightarrow> None,
          w \<lparr> iw_key_fetches := iw_key_fetches w @ [token], iw_clock := Suc (iw_clock w) \<rparr>))"

partial_function (option) key_loop :: "id_env \<Rightarrow> id_world \<Rightarrow> id_world option" where
  "key_loop E w =
    (if rg_suspended E (iw_clock w)
     then key_loop E (w \<lparr> iw_slept := iw_slept w + 60, iw_clock := Suc (iw_clock w) \<rparr>)
     else case fetch_registration_secret E w of
         (Some secret, w1) \<Rightarrow>
           Some (w1 \<lparr> iw_initial := snd (update_initial_key (rg_initial_io E (iw_clock w1)) secret (iw_initial w1)) \<rparr>)
       | (None, w1) \<Rightarrow>
           key_loop E (w1 \<lparr> iw_slept := iw_slept w1 + 60, iw_clock := Suc (iw_clock w1) \<rparr>))"

definition ensure_initial_key :: "id_env \<Rightarrow> id_world \<Rightarrow> id_world option" where
  "ensure_initial_key E w =
    (if or_default (is_initial_key_missing (rg_initial_io E (iw_clock w)) (iw_initial w)) False
     then key_loop E w else Some w)"


section \<open>What is stored is found again\<close>

lemma granted_simps [simp]: "granted Granted r = r" by (simp add: granted_def)

lemma read_once_granted:
  assumes "\<And>k. A k = Granted"
  shows "read_once P A s = (if s = NoStore then Ok None else decode_record s)"
  using assms by (cases P; cases s) (simp_all add: read_once_def read_once_windows_def read_once_macos_def
      read_once_linux_def decode_record_def)

lemma read_once_sound:
  "read_once P A s = Ok (Some i) \<Longrightarrow> s = Record i \<and> info_complete i"
  "read_once P A s = Ok None \<Longrightarrow> s = NoStore"
  by (cases P; cases s; auto simp: read_once_def read_once_windows_def read_once_macos_def read_once_linux_def
      decode_record_def granted_def split: access.splits if_splits)+

lemma machine_info_read_sound:
  "machine_info_read P A ok s = Ok (Some i) \<Longrightarrow> s = Record i \<and> info_complete i"
  "machine_info_read P A ok s = Ok None \<Longrightarrow> s = NoStore"
  by (auto simp: machine_info_read_def dest: read_once_sound split: sum.splits info_error.splits if_splits)

lemma machine_info_read_granted:
  assumes "\<And>b k. A b k = Granted"
  shows "machine_info_read P A ok s = (if s = NoStore then Ok None else decode_record s)"
proof -
  have "read_once P (A False) s = (if s = NoStore then Ok None else decode_record s)"
    using assms by (intro read_once_granted) simp
  then show ?thesis by (cases s) (simp_all add: machine_info_read_def decode_record_def)
qed

text \<open>On every platform an identity that was stored is read back, an identity is only ever read
  where exactly that was stored and nothing is read as missing but a missing store; a write that
  failed left the store as it was, created it empty, or, on macOS, removed or kept the new record.\<close>

theorem identity_survives:
  "machine_info_write P W i s = (ok, s') \<Longrightarrow>
     (ok \<longrightarrow> (\<forall>A rep. (\<forall>b k. A b k = Granted) \<longrightarrow> machine_info_read P A rep s' = Ok (Some i))) \<and>
     (\<not> ok \<longrightarrow> s' = s \<or> s' = created s \<or> P = MacOS \<and> (s' = NoStore \<or> s' = Record i)) \<and>
     (\<forall>A rep j. machine_info_read P A rep s' = Ok (Some j) \<longrightarrow> s' = Record j) \<and>
     (\<forall>A rep. machine_info_read P A rep s' = Ok None \<longrightarrow> s' = NoStore)"
proof -
  assume w: "machine_info_write P W i s = (ok, s')"
  have "ok \<Longrightarrow> s' = Record i \<and> info_complete i"
    using w by (auto simp: machine_info_write_def write_windows_def write_macos_def write_linux_def
        split: if_splits platform.splits)
  then have "ok \<longrightarrow> (\<forall>A rep. (\<forall>b k. A b k = Granted) \<longrightarrow> machine_info_read P A rep s' = Ok (Some i))"
    by (simp add: machine_info_read_granted decode_record_def)
  moreover have "\<not> ok \<Longrightarrow> s' = s \<or> s' = created s \<or> P = MacOS \<and> (s' = NoStore \<or> s' = Record i)"
    using w by (auto simp: machine_info_write_def write_windows_def write_macos_def write_linux_def
        split: if_splits platform.splits)
  ultimately show ?thesis using machine_info_read_sound by blast
qed

section \<open>Tags\<close>

definition values_of :: "string \<Rightarrow> string list \<Rightarrow> string list" where
  "values_of k raw = map snd (filter (\<lambda>p. fst p = k) (List.map_filter tag_pair raw))"

lemma collect_tags_values:
  "collect_tags raw m k = (let vs = values_of k raw in
     if vs = [] then m k else Some (unwrap_or (m k) [] @ vs))"
proof (induction raw m rule: collect_tags.induct)
  case (2 tag tags m)
  show ?case
  proof (cases "tag_pair tag")
    case None
    then show ?thesis using 2(1) by (simp add: values_of_def List.map_filter_simps)
  next
    case (Some p)
    obtain k' v where p: "p = (k', v)" by fastforce
    show ?thesis using 2(2)[OF Some p[symmetric]] Some p
      by (cases "k' = k") (simp_all add: values_of_def List.map_filter_simps Let_def fun_upd_same fun_upd_other del: fun_upd_apply)
  qed
qed (simp add: values_of_def List.map_filter_simps)

text \<open>The tags of the command line are grouped: whatever order the hash map has, there is one tag
  for each key given with a value, with all its values in the order given, both trimmed; what has no
  equals sign, no key or no value is left out.\<close>

theorem device_tags_grouped:
  assumes "\<And>m. finite (dom m) \<Longrightarrow> distinct (listing m) \<and> set (listing m) = dom m"
  shows "distinct (map dt_key (parse_from_cli listing raw)) \<and>
    set (parse_from_cli listing raw) =
      {\<lparr> dt_key = k, dt_values = values_of k raw \<rparr> | k. k \<in> fst ` set (List.map_filter tag_pair raw)}"
proof -
  let ?m = "collect_tags raw Map.empty"
  have m: "?m k = (if values_of k raw = [] then None else Some (values_of k raw))" for k
    by (simp add: collect_tags_values Let_def)
  have keys: "values_of k raw \<noteq> [] \<longleftrightarrow> k \<in> fst ` set (List.map_filter tag_pair raw)" for k
    by (force simp: values_of_def filter_empty_conv)
  have "k \<in> dom ?m \<longleftrightarrow> k \<in> fst ` set (List.map_filter tag_pair raw)" for k
    unfolding keys[symmetric] by (simp add: domIff m)
  then have dom: "dom ?m = fst ` set (List.map_filter tag_pair raw)" by blast
  then have l: "distinct (listing ?m)" "set (listing ?m) = fst ` set (List.map_filter tag_pair raw)"
    using assms[of ?m] by simp_all
  have "map dt_key (parse_from_cli listing raw) = listing ?m"
    by (simp add: parse_from_cli_def Let_def comp_def)
  moreover have "unwrap_or (?m k) [] = values_of k raw" for k by (simp add: m)
  ultimately show ?thesis using l by (auto simp: parse_from_cli_def Let_def)
qed

section \<open>The configuration file in place\<close>

lemma initial_save_fails: "initial_save io c f = (Err e, f') \<Longrightarrow> f' = Corrupt"
  by (auto simp: initial_save_def write_in_place_def split: if_splits)

text \<open>The initial configuration is written in place: an update that failed to write leaves a file
  from which nothing can be read any more, neither the server's address nor the organisation, and
  which no later update repairs.\<close>

theorem initial_write_failure_is_permanent:
  assumes "update_initial_key io key f = (Err (InitialIo WriteError), f')"
  shows "\<not> is_ok (get_server_url io' f') \<and> \<not> is_ok (get_initial_key io' f') \<and>
    \<not> is_ok (fst (update_initial_key io' key' f')) \<and> snd (update_initial_key io' key' f') = f'"
proof -
  have "f' = Corrupt"
    using assms by (auto simp: update_initial_key_def map_err_def initial_get_def initial_save_def write_in_place_def
        split: sum.splits disk_file.splits if_splits prod.splits)
  then show ?thesis by (simp add: get_server_url_def get_initial_key_def update_initial_key_def initial_get_def)
qed

section \<open>One attempt to register\<close>

text \<open>What a step leaves alone.\<close>

definition same_files :: "id_world \<Rightarrow> id_world \<Rightarrow> bool" where
  "same_files w w' \<longleftrightarrow> iw_config w' = iw_config w \<and> iw_initial w' = iw_initial w \<and> iw_store w' = iw_store w"

lemma read_credentials_frame:
  "read_credentials E ds w = (c, w') \<Longrightarrow>
     same_files w w' \<and> iw_sent w' = iw_sent w \<and> (\<forall>i. c = Some i \<longrightarrow> iw_store w = Record i)"
proof (induction ds arbitrary: w)
  case Nil
  then show ?case
    by (subst (asm) read_credentials.simps)
      (auto simp: same_files_def dest: machine_info_read_sound split: sum.splits)
next
  case (Cons d ds)
  show ?case
  proof (cases "machine_info_read (rg_platform E) (rg_access E (iw_clock w)) (rg_repair_ok E (iw_clock w)) (iw_store w)")
    case (Inl e)
    then have "read_credentials E ds (w \<lparr> iw_clock := Suc (iw_clock w), iw_slept := iw_slept w + d \<rparr>) = (c, w')"
      using Cons.prems by (subst (asm) read_credentials.simps) simp
    from Cons.IH[OF this] show ?thesis by (simp add: same_files_def)
  next
    case (Inr x)
    then show ?thesis
      using Cons.prems by (subst (asm) read_credentials.simps) (auto simp: same_files_def dest: machine_info_read_sound)
  qed
qed

lemma read_credentials_granted:
  assumes "\<forall>n b k. rg_access E n b k = Granted" "iw_store w = Record i" "info_complete i"
  shows "read_credentials E ds w = (Some i, w \<lparr> iw_clock := Suc (iw_clock w) \<rparr>)"
  using assms by (subst read_credentials.simps) (simp add: machine_info_read_granted decode_record_def)

lemma register_frame:
  assumes "register E key info request w = (r, w')"
  shows "same_files w w'" "iw_sent w' = iw_sent w @
      (if headers_ok E key info then [\<lparr> sg_initial_key = key, sg_machine_info = info, sg_body = request \<rparr>] else [])"
    "\<And>x. r = Ok x \<Longrightarrow> register_answer E (rg_answer E (iw_clock w)) = Ok x"
    "r = Err ClientSecretInvalid \<Longrightarrow>
       headers_ok E key info \<and> register_answer E (rg_answer E (iw_clock w)) = Err ClientSecretInvalid"
  using assms by (auto simp: register_def same_files_def split: if_splits)

text \<open>The requests an attempt may send.\<close>

definition proper_requests :: "id_env \<Rightarrow> string \<Rightarrow> machine_info option \<Rightarrow> sent_registration list \<Rightarrow> bool" where
  "proper_requests E key credentials sent \<longleftrightarrow>
     (\<forall>q \<in> set sent. sg_initial_key q = key) \<and>
     (case credentials of
        None \<Rightarrow> map sg_machine_info sent \<in> {[], [None]}
      | Some i \<Rightarrow>
          map sg_machine_info sent \<in> {[], [Some i]} \<or>
          map sg_machine_info sent \<in> {[Some i], [Some i, None]} \<and>
          (\<exists>n. register_answer E (rg_answer E n) = Err ClientSecretInvalid))"

lemma fresh_install_frame:
  assumes "fresh_install E key w = (r, w')"
  shows "same_files w w'" "\<exists>sent. iw_sent w' = iw_sent w @ sent \<and> map sg_machine_info sent \<in> {[], [None]} \<and>
      (\<forall>q \<in> set sent. sg_initial_key q = key)"
    "\<And>x. r = Ok x \<Longrightarrow> \<exists>n. register_answer E (rg_answer E n) = Ok x"
  using register_frame[OF assms[unfolded fresh_install_def]] by auto

lemma reinstall_frame:
  assumes "reinstall E key i w = (r, w')"
  shows "same_files w w' \<and> (\<exists>sent. iw_sent w' = iw_sent w @ sent \<and> proper_requests E key (Some i) sent) \<and>
    (\<forall>x. r = Ok x \<longrightarrow> (\<exists>n. register_answer E (rg_answer E n) = Ok x)) \<and>
    (headers_ok E key (Some i) \<longrightarrow> (\<exists>q rest. iw_sent w' = iw_sent w @ q # rest \<and> sg_machine_info q = Some i))"
proof -
  obtain r1 w1 where reg: "register E key (Some i) (build_registration_request E w) w = (r1, w1)" by fastforce
  note f = register_frame[OF reg]
  show ?thesis
  proof (cases "r1 = Err ClientSecretInvalid")
    case True
    then have fresh: "fresh_install E key w1 = (r, w')" using assms reg by (simp add: reinstall_def)
    obtain sent where sent: "iw_sent w' = iw_sent w1 @ sent" "map sg_machine_info sent \<in> {[], [None]}"
      "\<forall>q \<in> set sent. sg_initial_key q = key"
      using fresh_install_frame(2)[OF fresh] by (elim exE conjE) (rule that)
    have "same_files w w'" using f(1) fresh_install_frame(1)[OF fresh] by (simp add: same_files_def)
    moreover have "proper_requests E key (Some i)
        (\<lparr> sg_initial_key = key, sg_machine_info = Some i, sg_body = build_registration_request E w \<rparr> # sent)"
      using sent(2,3) f(4)[OF True] by (auto simp: proper_requests_def)
    ultimately show ?thesis
      using sent(1) f(2) f(4)[OF True] fresh_install_frame(3)[OF fresh] by auto
  next
    case False
    then have "r = r1" "w' = w1" using assms reg by (auto simp: reinstall_def split: sum.splits registration_error.splits)
    then show ?thesis using f(1-3) by (auto simp: proper_requests_def)
  qed
qed

lemma register_agent_cases:
  assumes "register_agent E w = (r, w')"
  obtains e where "r = Err (KeyUnavailable e)" "w' = w"
      "get_initial_key (rg_initial_io E (iw_clock w)) (iw_initial w) = Err e"
  | key credentials x w1 w2 where "get_initial_key (rg_initial_io E (iw_clock w)) (iw_initial w) = Ok key"
      "read_persisted_credentials E w = (credentials, w1)"
      "(case credentials of Some i \<Rightarrow> reinstall E key i w1 | None \<Rightarrow> fresh_install E key w1) = (x, w2)"
      "(\<exists>e. x = Err e \<and> r = Err (NotRegistered e) \<and> w' = w2) \<or>
       (\<exists>resp c sr. x = Ok resp \<and>
          save_registration_data (rg_config_io E (iw_clock (persist E resp w2))) (gs_machine_id resp) (gs_client_id resp)
             (gs_client_secret resp) (iw_config w2) = (sr, c) \<and>
          w' = (persist E resp w2) \<lparr> iw_config := c, iw_clock := Suc (iw_clock (persist E resp w2)) \<rparr> \<and>
          ((\<exists>e. sr = Err e \<and> r = Err (NotSaved e)) \<or> sr = Ok () \<and> r = Ok resp))"
proof (cases "get_initial_key (rg_initial_io E (iw_clock w)) (iw_initial w)")
  case (Inl e)
  show thesis by (rule that(1)[of e]) (use assms Inl in \<open>simp_all add: register_agent_def\<close>)
next
  case (Inr key)
  obtain credentials w1 where c: "read_persisted_credentials E w = (credentials, w1)" by fastforce
  obtain x w2 where x: "(case credentials of Some i \<Rightarrow> reinstall E key i w1 | None \<Rightarrow> fresh_install E key w1) = (x, w2)"
    by fastforce
  have config: "iw_config (persist E resp w2) = iw_config w2" for resp by (simp add: persist_def)
  show thesis
    by (rule that(2)[OF Inr c x])
      (use assms Inr c x config in \<open>auto simp: register_agent_def Let_def split: sum.splits prod.splits\<close>)
qed

lemma save_registration_result:
  "save_registration_data io m c s f = (r, f') \<Longrightarrow>
     (case r of Inl e \<Rightarrow> f' = f
      | Inr _ \<Rightarrow> \<exists>a. config_get io f = Ok a \<and>
          f' = Content (a \<lparr> ac_machine_id := m, ac_client_id := c, ac_client_secret := s \<rparr>))"
  by (auto simp: save_registration_data_def write_atomically_def split: sum.splits if_splits)

lemma credentials_request:
  assumes "(case credentials of Some i \<Rightarrow> reinstall E key i w1 | None \<Rightarrow> fresh_install E key w1) = (x, w2)"
  shows "same_files w1 w2" "\<exists>sent. iw_sent w2 = iw_sent w1 @ sent \<and> proper_requests E key credentials sent"
    "\<And>resp. x = Ok resp \<Longrightarrow> \<exists>n. register_answer E (rg_answer E n) = Ok resp"
  using assms reinstall_frame[of E key _ w1 x w2] fresh_install_frame[of E key w1 x w2]
  by (auto simp: proper_requests_def split: option.splits)

text \<open>C26. An attempt to register sends at most two requests, all with the initial key: one with the saved
  credentials, if some are stored, or one without; the second, without credentials, only after the
  backend rejected the saved ones. It succeeds exactly when the answer's identity was written into the
  agent's configuration, whose tokens it leaves alone; if it fails the configuration is as before.\<close>

theorem register_agent_contract:
  assumes "register_agent E w = (r, w')"
  shows "iw_initial w' = iw_initial w \<and>
    (\<exists>sent. iw_sent w' = iw_sent w @ sent \<and>
       (sent = [] \<or> (\<exists>key credentials. get_initial_key (rg_initial_io E (iw_clock w)) (iw_initial w) = Ok key \<and>
          proper_requests E key credentials sent \<and> (\<forall>i. credentials = Some i \<longrightarrow> iw_store w = Record i)))) \<and>
    (case r of
       Inl e \<Rightarrow> iw_config w' = iw_config w
     | Inr resp \<Rightarrow> (\<exists>n. register_answer E (rg_answer E n) = Ok resp) \<and>
         (\<exists>io a. config_get io (iw_config w) = Ok a \<and>
            iw_config w' = Content (a \<lparr> ac_machine_id := gs_machine_id resp, ac_client_id := gs_client_id resp,
              ac_client_secret := gs_client_secret resp \<rparr>)))"
  using assms
proof (cases rule: register_agent_cases)
  case (1 e)
  then show ?thesis by auto
next
  case (2 key credentials x w1 w2)
  have read: "same_files w w1" "iw_sent w1 = iw_sent w" "\<forall>i. credentials = Some i \<longrightarrow> iw_store w = Record i"
    using read_credentials_frame 2(2) unfolding read_persisted_credentials_def by blast+
  note req = credentials_request[OF 2(3)]
  have same: "same_files w w2" using read(1) req(1) by (simp add: same_files_def)
  obtain sent where sent: "iw_sent w2 = iw_sent w @ sent" "proper_requests E key credentials sent"
    using req(2) read(2) by auto
  consider (refused) e where "r = Err (NotRegistered e)" "w' = w2"
    | (granted) resp c sr where "x = Ok resp"
      "save_registration_data (rg_config_io E (iw_clock (persist E resp w2))) (gs_machine_id resp) (gs_client_id resp)
         (gs_client_secret resp) (iw_config w2) = (sr, c)"
      "w' = (persist E resp w2) \<lparr> iw_config := c, iw_clock := Suc (iw_clock (persist E resp w2)) \<rparr>"
      "(\<exists>e. sr = Err e \<and> r = Err (NotSaved e)) \<or> sr = Ok () \<and> r = Ok resp"
    using 2(4) by blast
  then show ?thesis
  proof cases
    case (refused e)
    then show ?thesis using same sent 2(1) read(3) by (auto simp: same_files_def)
  next
    case (granted resp c sr)
    note x = granted(1) and save = granted(2) and w' = granted(3) and r = granted(4)
    have "iw_initial w' = iw_initial w" "iw_sent w' = iw_sent w @ sent" "iw_config w' = c"
      using w' same sent(1) by (simp_all add: persist_def same_files_def)
    then show ?thesis
      using save_registration_result[OF save] same sent(2) 2(1) read(3) r req(3)[OF x]
      by (elim disjE exE conjE) (auto simp: same_files_def)
  qed
qed

text \<open>A request with the saved identity is the only one unless its answer rejects the secret.\<close>

lemma reinstall_first:
  assumes "reinstall E key i w = (r, w')" "headers_ok E key (Some i)"
  shows "\<exists>q rest. iw_sent w' = iw_sent w @ q # rest \<and> sg_machine_info q = Some i \<and>
    (register_answer E (rg_answer E (iw_clock w)) \<noteq> Err ClientSecretInvalid \<longrightarrow> rest = [])"
proof (cases "register_answer E (rg_answer E (iw_clock w)) = Err ClientSecretInvalid")
  case True
  then show ?thesis using reinstall_frame[OF assms(1)] assms(2) by auto
next
  case False
  obtain r1 w1 where reg: "register E key (Some i) (build_registration_request E w) w = (r1, w1)" by fastforce
  have "r1 \<noteq> Err ClientSecretInvalid" using register_frame(4)[OF reg] False by auto
  then have "w' = w1"
    using assms(1) reg by (auto simp: reinstall_def split: sum.splits registration_error.splits)
  then show ?thesis using register_frame(2)[OF reg] assms(2) by simp
qed

text \<open>C27. A registration that the backend granted but whose configuration could not be saved is resumed,
  not repeated, provided the writes of the machine store succeed and its reads are granted: when the
  granted identity is complete and fits the request headers, the next attempt, whenever it comes, first
  asks to reinstall with exactly this identity, and that is its only request unless the backend answers
  that the secret is invalid, the one case in which it registers as a new machine.\<close>

theorem interrupted_registration_resumes:
  assumes "register_agent E w = (Err (NotSaved e), w1)"
    and "\<forall>n k. rg_write_ok E n k" "\<forall>n b k. rg_access E n b k = Granted"
    and "iw_store v = iw_store w1" "get_initial_key (rg_initial_io E (iw_clock v)) (iw_initial v) = Ok key"
  shows "\<exists>n resp i. register_answer E (rg_answer E n) = Ok resp \<and>
    i = \<lparr> mi_machine_id = gs_machine_id resp, mi_client_secret = gs_client_secret resp \<rparr> \<and>
    (info_complete i \<and> headers_ok E key (Some i) \<longrightarrow>
       (\<exists>q rest. iw_sent (snd (register_agent E v)) = iw_sent v @ q # rest \<and> sg_machine_info q = Some i \<and>
          (register_answer E (rg_answer E (Suc (iw_clock v))) \<noteq> Err ClientSecretInvalid \<longrightarrow> rest = [])))"
  using assms(1)
proof (cases rule: register_agent_cases)
  case (2 key' credentials x w1' w2)
  from 2(4) obtain resp c where x: "x = Ok resp"
    and w1: "w1 = (persist E resp w2) \<lparr> iw_config := c, iw_clock := Suc (iw_clock (persist E resp w2)) \<rparr>"
    by auto
  obtain n where n: "register_answer E (rg_answer E n) = Ok resp" using credentials_request(3)[OF 2(3) x] by blast
  define i where "i = \<lparr> mi_machine_id = gs_machine_id resp, mi_client_secret = gs_client_secret resp \<rparr>"
  have "\<exists>q rest. iw_sent (snd (register_agent E v)) = iw_sent v @ q # rest \<and> sg_machine_info q = Some i \<and>
      (register_answer E (rg_answer E (Suc (iw_clock v))) \<noteq> Err ClientSecretInvalid \<longrightarrow> rest = [])"
    if c: "info_complete i" "headers_ok E key (Some i)"
  proof -
    have "iw_store v = Record i"
      using w1 c(1) assms(2,4)
      by (simp add: persist_def i_def machine_info_write_def write_windows_def write_macos_def write_linux_def
          split: platform.split)
    then have read: "read_persisted_credentials E v = (Some i, v \<lparr> iw_clock := Suc (iw_clock v) \<rparr>)"
      using read_credentials_granted[OF assms(3) _ c(1)] by (simp add: read_persisted_credentials_def)
    obtain r' v' where reg: "register_agent E v = (r', v')" by fastforce
    from this show ?thesis
    proof (cases rule: register_agent_cases)
      case (2 key'' credentials x w1 w2)
      then have "reinstall E key i (v \<lparr> iw_clock := Suc (iw_clock v) \<rparr>) = (x, w2)" using read assms(5) by auto
      then obtain q rest where "iw_sent w2 = iw_sent v @ q # rest" "sg_machine_info q = Some i"
        "register_answer E (rg_answer E (Suc (iw_clock v))) \<noteq> Err ClientSecretInvalid \<longrightarrow> rest = []"
        using reinstall_first[OF _ c(2)] by fastforce
      moreover have "iw_sent v' = iw_sent w2" using 2(4) by (auto simp: persist_def)
      ultimately show ?thesis using reg by auto
    qed (use assms(5) in simp)
  qed
  then show ?thesis using n i_def by blast
qed simp

section \<open>Registering until it succeeds\<close>

text \<open>An attempt of the loop, with the pause after a failure.\<close>

definition register_attempt :: "id_env \<Rightarrow> id_world \<Rightarrow> id_world + id_world" where
  "register_attempt E w =
    (case register_agent E w of
       (Inr r, w1) \<Rightarrow> Inr w1
     | (Inl e, w1) \<Rightarrow> Inl (w1 \<lparr> iw_slept := iw_slept w1 + 60, iw_clock := Suc (iw_clock w1) \<rparr>))"

lemma registration_loop_least:
  assumes "registration_loop E w = Some t"
    "\<And>w t. (case register_attempt E w of Inl w' \<Rightarrow> P w' t | Inr t' \<Rightarrow> t' = t) \<Longrightarrow> P w t"
  shows "P w t"
proof -
  have "E' = E \<longrightarrow> P w t" if "registration_loop E' w = Some t" for E' w t
  proof (rule registration_loop.raw_induct[where P = "\<lambda>E' w t. E' = E \<longrightarrow> P w t", OF _ that], rule impI)
    fix loop E' w t
    assume "\<And>E' w t. loop E' w = Some t \<Longrightarrow> E' = E \<longrightarrow> P w t" "E' = E"
    moreover assume "(case register_agent E' w of
        (Inl e, w1) \<Rightarrow> loop E' (w1 \<lparr> iw_slept := iw_slept w1 + 60, iw_clock := Suc (iw_clock w1) \<rparr>)
      | (Inr r, w1) \<Rightarrow> Some w1) = Some t"
    ultimately have "case register_attempt E w of Inl w' \<Rightarrow> P w' t | Inr t' \<Rightarrow> t' = t"
      by (auto simp: register_attempt_def split: sum.splits prod.splits)
    then show "P w t" by (rule assms(2))
  qed
  then show ?thesis using assms(1) by blast
qed

interpretation registering: retry_loop "register_attempt E" "registration_loop E" for E
proof
  show "registration_loop E w = (case register_attempt E w of Inl w' \<Rightarrow> registration_loop E w' | Inr t \<Rightarrow> Some t)" for w
    by (subst registration_loop.simps) (auto simp: register_attempt_def split: sum.splits prod.splits)
qed (rule registration_loop_least)

definition key_attempt :: "id_env \<Rightarrow> id_world \<Rightarrow> id_world + id_world" where
  "key_attempt E w =
    (if rg_suspended E (iw_clock w) then Inl (w \<lparr> iw_slept := iw_slept w + 60, iw_clock := Suc (iw_clock w) \<rparr>)
     else case fetch_registration_secret E w of
         (Some secret, w1) \<Rightarrow>
           Inr (w1 \<lparr> iw_initial := snd (update_initial_key (rg_initial_io E (iw_clock w1)) secret (iw_initial w1)) \<rparr>)
       | (None, w1) \<Rightarrow> Inl (w1 \<lparr> iw_slept := iw_slept w1 + 60, iw_clock := Suc (iw_clock w1) \<rparr>))"

lemma key_loop_least:
  assumes "key_loop E w = Some t"
    "\<And>w t. (case key_attempt E w of Inl w' \<Rightarrow> P w' t | Inr t' \<Rightarrow> t' = t) \<Longrightarrow> P w t"
  shows "P w t"
proof -
  have "E' = E \<longrightarrow> P w t" if "key_loop E' w = Some t" for E' w t
  proof (rule key_loop.raw_induct[where P = "\<lambda>E' w t. E' = E \<longrightarrow> P w t", OF _ that], rule impI)
    fix loop E' w t
    assume "\<And>E' w t. loop E' w = Some t \<Longrightarrow> E' = E \<longrightarrow> P w t" "E' = E"
    moreover assume "(if rg_suspended E' (iw_clock w)
        then loop E' (w \<lparr> iw_slept := iw_slept w + 60, iw_clock := Suc (iw_clock w) \<rparr>)
        else case fetch_registration_secret E' w of
            (None, w1) \<Rightarrow> loop E' (w1 \<lparr> iw_slept := iw_slept w1 + 60, iw_clock := Suc (iw_clock w1) \<rparr>)
          | (Some secret, w1) \<Rightarrow>
              Some (w1 \<lparr> iw_initial := snd (update_initial_key (rg_initial_io E' (iw_clock w1)) secret (iw_initial w1)) \<rparr>)) = Some t"
    ultimately have "case key_attempt E w of Inl w' \<Rightarrow> P w' t | Inr t' \<Rightarrow> t' = t"
      by (auto simp: key_attempt_def split: option.splits prod.splits if_splits)
    then show "P w t" by (rule assms(2))
  qed
  then show ?thesis using assms(1) by blast
qed

interpretation fetching: retry_loop "key_attempt E" "key_loop E" for E
proof
  show "key_loop E w = (case key_attempt E w of Inl w' \<Rightarrow> key_loop E w' | Inr t \<Rightarrow> Some t)" for w
    by (subst key_loop.simps) (auto simp: key_attempt_def split: option.splits prod.splits)
qed (rule key_loop_least)

lemma failed_attempt_keeps_config:
  "register_attempt E w = Inl w' \<Longrightarrow> iw_config w' = iw_config w"
proof -
  assume a: "register_attempt E w = Inl w'"
  obtain r w1 where r: "register_agent E w = (r, w1)" by fastforce
  then obtain e where e: "r = Err e" "iw_config w' = iw_config w1"
    using a by (auto simp: register_attempt_def split: sum.splits)
  from r show ?thesis
  proof (cases rule: register_agent_cases)
    case (2 key credentials x wa wb)
    have "same_files w wa" using read_credentials_frame 2(2) unfolding read_persisted_credentials_def by blast
    then have "iw_config wb = iw_config w" using credentials_request(1)[OF 2(3)] by (simp add: same_files_def)
    then show ?thesis
      using 2(4) e by (auto simp: persist_def dest: save_registration_result split: sum.splits)
  qed (use e in simp)
qed

text \<open>C28. Registration returns exactly when some attempt succeeds, with that attempt's result; it returns
  without an attempt when the machine has an id; and when it returns after attempts, the configuration
  holds the identity the backend granted in the last one.\<close>

theorem registration_returns:
  "process_registration E w = Some (r, w') \<longleftrightarrow>
     (case get_machine_id (rg_config_io E (iw_clock w)) (iw_config w) of
        Inl e \<Rightarrow> r = Err e \<and> w' = w
      | Inr machine_id \<Rightarrow>
          r = Ok () \<and>
          (if machine_id \<noteq> [] then w' = w
           else (\<exists>n. tries (register_attempt E) w n = Inr w') \<and>
             (\<exists>n resp io a. register_answer E (rg_answer E n) = Ok resp \<and> config_get io (iw_config w) = Ok a \<and>
                iw_config w' = Content (a \<lparr> ac_machine_id := gs_machine_id resp, ac_client_id := gs_client_id resp,
                  ac_client_secret := gs_client_secret resp \<rparr>))))"
proof -
  have "\<exists>n resp io a. register_answer E (rg_answer E n) = Ok resp \<and> config_get io (iw_config w) = Ok a \<and>
      iw_config w' = Content (a \<lparr> ac_machine_id := gs_machine_id resp, ac_client_id := gs_client_id resp,
        ac_client_secret := gs_client_secret resp \<rparr>)"
    if t: "tries (register_attempt E) w n = Inr w'" for n
  proof -
    have "registration_loop E w = Some w'" using registering.loop_iff t by blast
    then obtain s where s: "iw_config s = iw_config w" "register_attempt E s = Inr w'"
      using registering.ends_from_invariant[of E w w' "\<lambda>s. iw_config s = iw_config w"] failed_attempt_keeps_config
      by metis
    then obtain resp where "register_agent E s = (Ok resp, w')"
      by (auto simp: register_attempt_def split: sum.splits prod.splits)
    then show ?thesis
    proof (cases rule: register_agent_cases)
      case (2 key credentials x wa wb)
      have "same_files s wa" using read_credentials_frame 2(2) unfolding read_persisted_credentials_def by blast
      then have c: "iw_config wb = iw_config w" using credentials_request(1)[OF 2(3)] s(1) by (simp add: same_files_def)
      from 2(4) obtain f sr where x: "x = Ok resp" and
        save: "save_registration_data (rg_config_io E (iw_clock (persist E resp wb))) (gs_machine_id resp)
           (gs_client_id resp) (gs_client_secret resp) (iw_config wb) = (Ok sr, f)" and w': "iw_config w' = f"
        by auto
      show ?thesis using save_registration_result[OF save] credentials_request(3)[OF 2(3) x] c w' by auto
    qed simp
  qed
  then show ?thesis
    using registering.loop_iff[of E w w']
    by (auto simp: process_registration_def split: sum.splits)
qed

text \<open>A stored secret that cannot be sent in a header is never given up: every attempt fails before a
  request leaves, without the fall-back to a fresh registration, and registration never returns.\<close>

theorem unusable_secret_blocks_registration:
  assumes "iw_store w = Record i" "info_complete i" "\<not> rg_header_ok E (mi_client_secret i)"
    and "\<forall>n b k. rg_access E n b k = Granted"
    and "get_machine_id (rg_config_io E (iw_clock w)) (iw_config w) = Ok []"
  shows "process_registration E w = None"
proof -
  have "\<exists>s'. register_attempt E s = Inl s' \<and> iw_store s' = Record i" if s: "iw_store s = Record i" for s
  proof -
    have read: "read_persisted_credentials E s = (Some i, s \<lparr> iw_clock := Suc (iw_clock s) \<rparr>)"
      using read_credentials_granted[OF assms(4) s assms(2)] by (simp add: read_persisted_credentials_def)
    show ?thesis
      using s assms(3) by (auto simp: register_attempt_def register_agent_def read reinstall_def register_def
          headers_ok_def split: sum.splits)
  qed
  then have "registration_loop E w = None"
    using registering.never_ends[of "\<lambda>s. iw_store s = Record i"] assms(1) by blast
  then show ?thesis using assms(5) by (simp add: process_registration_def)
qed

section \<open>A concrete machine\<close>

definition sample_info :: machine_info where
  "sample_info = \<lparr> mi_machine_id = ''m1'', mi_client_secret = ''s1'' \<rparr>"

definition sample_registered :: registration_response where
  "sample_registered = \<lparr> gs_machine_id = ''m1'', gs_client_id = ''c1'', gs_client_secret = ''s1'' \<rparr>"

definition sample_id :: "bool \<Rightarrow> id_env" where
  "sample_id saves = \<lparr> rg_platform = Linux, rg_access = (\<lambda>_ _ _. Granted), rg_repair_ok = (\<lambda>_. True),
     rg_write_ok = (\<lambda>_ _. True), rg_config_io = (\<lambda>_. if saves then io_ok else io_bad_write), rg_initial_io = (\<lambda>_. io_ok),
     rg_answer = (\<lambda>_. Answered 200 (Some ''r'')), rg_header_ok = (\<lambda>h. h \<noteq> ''bad''), rg_api_code = (\<lambda>_. None),
     rg_response = (\<lambda>_. Some sample_registered), rg_key = Some, rg_suspended = (\<lambda>_. False),
     rg_kernel_name = Some ''host'', rg_scutil = (\<lambda>_. None), rg_is_ip = (\<lambda>_. False), rg_lower = id, rg_version = ''1'' \<rparr>"

definition sample_id_world :: "info_store \<Rightarrow> id_world" where
  "sample_id_world s = \<lparr> iw_config = Missing, iw_initial = Content (default_initial \<lparr> ic_initial_key := ''k'' \<rparr>),
     iw_store = s, iw_sent = [], iw_key_fetches = [], iw_clock = 0, iw_slept = 0 \<rparr>"

lemma sample_id_fields [simp]:
  "rg_access (sample_id saves) n b k = Granted" "rg_write_ok (sample_id saves) n k"
  "rg_initial_io (sample_id saves) n = io_ok" "rg_answer (sample_id saves) n = Answered 200 (Some ''r'')"
  "rg_header_ok (sample_id saves) h \<longleftrightarrow> h \<noteq> ''bad''"
  by (simp_all add: sample_id_def)

lemma identity_survives_witness:
  "machine_info_read Windows (\<lambda>_ _. Granted) True (snd (machine_info_write Windows (\<lambda>_. True) sample_info NoStore))
     = Ok (Some sample_info)"
proof -
  have "machine_info_write Windows (\<lambda>_. True) sample_info NoStore = (True, Record sample_info)" by code_simp
  from identity_survives[OF this] show ?thesis
    by (simp add: \<open>machine_info_write Windows (\<lambda>_. True) sample_info NoStore = (True, Record sample_info)\<close>)
qed

definition sorted_listing :: "(string \<rightharpoonup> string list) \<Rightarrow> string list" where
  "sorted_listing m = (if finite (dom m) then sorted_list_of_set (dom m) else [])"

lemma device_tags_grouped_witness:
  "set (parse_from_cli sorted_listing [''site=LA'', ''x'', '' site = NY'', ''a='']) =
     {\<lparr> dt_key = ''site'', dt_values = [''LA'', ''NY''] \<rparr>}"
proof -
  have l: "distinct (sorted_listing m) \<and> set (sorted_listing m) = dom m" if "finite (dom m)" for m
    using that by (simp add: sorted_listing_def)
  have p: "List.map_filter tag_pair [''site=LA'', ''x'', '' site = NY'', ''a=''] = [(''site'', ''LA''), (''site'', ''NY'')]"
    by code_simp
  have "values_of ''site'' [''site=LA'', ''x'', '' site = NY'', ''a=''] = [''LA'', ''NY'']" by code_simp
  moreover have "fst ` set [(''site'', ''LA''), (''site'', ''NY'')] = {''site''}" by simp
  ultimately show ?thesis
    using conjunct2[OF device_tags_grouped[OF l, where raw = "[''site=LA'', ''x'', '' site = NY'', ''a='']"], unfolded p]
    by simp
qed

lemma initial_write_failure_is_permanent_witness:
  "\<not> is_ok (get_server_url io_ok (snd (update_initial_key io_bad_write ''k'' (Content default_initial))))"
proof -
  have "update_initial_key io_bad_write ''k'' (Content default_initial) = (Err (InitialIo WriteError), Corrupt)"
    by code_simp
  from initial_write_failure_is_permanent[OF this] show ?thesis
    by (simp add: \<open>update_initial_key io_bad_write ''k'' (Content default_initial) = (Err (InitialIo WriteError), Corrupt)\<close>)
qed

lemma register_agent_contract_witness:
  "iw_config (snd (register_agent (sample_id True) (sample_id_world NoStore))) =
     Content (default_configuration \<lparr> ac_machine_id := ''m1'', ac_client_id := ''c1'', ac_client_secret := ''s1'' \<rparr>)"
proof -
  have "fst (register_agent (sample_id True) (sample_id_world NoStore)) = Ok sample_registered" by code_simp
  then obtain w' where r: "register_agent (sample_id True) (sample_id_world NoStore) = (Ok sample_registered, w')"
    by (cases "register_agent (sample_id True) (sample_id_world NoStore)") auto
  obtain io a where "config_get io (iw_config (sample_id_world NoStore)) = Ok a"
    "iw_config w' = Content (a \<lparr> ac_machine_id := gs_machine_id sample_registered,
       ac_client_id := gs_client_id sample_registered, ac_client_secret := gs_client_secret sample_registered \<rparr>)"
    using register_agent_contract[OF r] by auto
  then show ?thesis using r by (simp add: sample_id_world_def config_get_def read_file_def sample_registered_def)
qed

lemma interrupted_registration_resumes_witness:
  "\<exists>q rest. iw_sent (snd (register_agent (sample_id True) (sample_id_world (Record sample_info)))) = q # rest \<and>
     sg_machine_info q = Some sample_info"
proof -
  have "fst (register_agent (sample_id False) (sample_id_world NoStore)) = Err (NotSaved WriteError)"
    "iw_store (snd (register_agent (sample_id False) (sample_id_world NoStore))) = Record sample_info"
    by code_simp+
  then obtain w1 where r: "register_agent (sample_id False) (sample_id_world NoStore) = (Err (NotSaved WriteError), w1)"
    and s: "iw_store (sample_id_world (Record sample_info)) = iw_store w1"
    by (cases "register_agent (sample_id False) (sample_id_world NoStore)") (auto simp: sample_id_world_def)
  have k: "get_initial_key (rg_initial_io (sample_id False) (iw_clock (sample_id_world (Record sample_info))))
      (iw_initial (sample_id_world (Record sample_info))) = Ok ''k''" by code_simp
  have "register_answer (sample_id False) (rg_answer (sample_id False) n) = Ok resp \<Longrightarrow> resp = sample_registered" for n resp
    by (auto simp: register_answer_def is_success_def) (simp add: sample_id_def)
  moreover have "\<lparr> mi_machine_id = gs_machine_id sample_registered, mi_client_secret = gs_client_secret sample_registered \<rparr> = sample_info"
    "info_complete sample_info" "headers_ok (sample_id False) ''k'' (Some sample_info)"
    by code_simp+
  moreover have "iw_sent (snd (register_agent (sample_id True) (sample_id_world (Record sample_info)))) =
      iw_sent (snd (register_agent (sample_id False) (sample_id_world (Record sample_info))))" by code_simp
  ultimately show ?thesis
    using interrupted_registration_resumes[OF r _ _ s k] by (force simp: sample_id_world_def)
qed

lemma unusable_secret_blocks_registration_witness:
  "process_registration (sample_id True) (sample_id_world (Record (sample_info \<lparr> mi_client_secret := ''bad'' \<rparr>))) = None"
proof -
  let ?i = "sample_info \<lparr> mi_client_secret := ''bad'' \<rparr>"
  have "info_complete ?i" by code_simp
  then show ?thesis
    by (intro unusable_secret_blocks_registration[where i = ?i])
      (simp_all add: sample_id_world_def sample_id_def get_machine_id_def config_get_def read_file_def
        default_configuration_def)
qed

lemma registration_returns_witness:
  "\<exists>w'. process_registration (sample_id True) (sample_id_world NoStore) = Some (Ok (), w')"
proof -
  have "isl (register_attempt (sample_id True) (sample_id_world NoStore)) = False" by code_simp
  then obtain w' where "register_attempt (sample_id True) (sample_id_world NoStore) = Inr w'"
    by (cases "register_attempt (sample_id True) (sample_id_world NoStore)") auto
  then have t: "tries (register_attempt (sample_id True)) (sample_id_world NoStore) 0 = Inr w'" by simp
  then have "registration_loop (sample_id True) (sample_id_world NoStore) = Some w'" using registering.loop_iff by blast
  moreover have "get_machine_id (rg_config_io (sample_id True) (iw_clock (sample_id_world NoStore)))
      (iw_config (sample_id_world NoStore)) = Ok []" by code_simp
  ultimately have "process_registration (sample_id True) (sample_id_world NoStore) = Some (Ok (), w')"
    by (simp add: process_registration_def)
  from this[unfolded registration_returns] show ?thesis
    using \<open>process_registration (sample_id True) (sample_id_world NoStore) = Some (Ok (), w')\<close> by blast
qed

end
