(* ===== verification/Tokens.thy ===== *)
theory Tokens
  imports Registry GithubDownload Deactivation Retry
begin

text \<open>The agent's tokens: requesting them (clients/auth\_client.rs), saving them in the configuration and in
  the encrypted file the tools read (services/agent\_auth\_service.rs, services/shared\_token\_service.rs),
  the first authentication (services/initial\_authentication\_processor.rs), the proactive refresh
  (services/token\_refresh\_run\_manager.rs, utils/jwt.rs), the connection to NATS
  (services/nats\_connection\_manager.rs) and the heartbeat on it
  (services/machine\_heartbeat\_publisher.rs). Network answers, clocks, file operations and time-outs are
  the environment's, indexed by a counter of the state; a time-out may strike at each await. JSON,
  base64 and the cipher are parameters; the shared file is the token it decrypts to.\<close>

section \<open>The expiry of a token\<close>

definition trim_end_char :: "char \<Rightarrow> string \<Rightarrow> string" where
  "trim_end_char c s = rev (dropWhile (\<lambda>d. d = c) (rev s))"

text \<open>The claim of a payload is the decoder's.\<close>

definition token_exp_unix :: "(string \<Rightarrow> int option) \<Rightarrow> string \<Rightarrow> int option" where
  "token_exp_unix claim token =
    (case split_on (CHR ''.'') token of
       [header, payload, signature] \<Rightarrow> claim (trim_end_char (CHR ''='') payload)
     | _ \<Rightarrow> None)"

section \<open>State and environment\<close>

datatype token_request = RefreshRequest string | SecretRequest string string

record token_env =
  te_enabled :: bool
  te_answer :: "nat \<Rightarrow> http_answer"
  te_reading :: "nat \<Rightarrow> reading"
  te_cut :: "nat \<Rightarrow> bool"
  te_io :: "nat \<Rightarrow> io_env"
  te_tokens :: "string \<Rightarrow> (string \<times> string) option"
  te_encrypt_ok :: "nat \<Rightarrow> bool"
  te_shared_ok :: "nat \<Rightarrow> bool"
  te_now :: "nat \<Rightarrow> int"
  te_claim :: "string \<Rightarrow> int option"

record token_world =
  tk_config :: config_file
  tk_shared :: "string option"
  tk_deact :: deactivation
  tk_requests :: "token_request list"
  tk_sleeps :: "nat list"
  tk_clock :: nat

definition tk_tick :: "token_world \<Rightarrow> token_world" where
  "tk_tick w = w \<lparr> tk_clock := Suc (tk_clock w) \<rparr>"

definition tk_suspended :: "token_world \<Rightarrow> bool" where "tk_suspended w = is_suspended (tk_deact w)"

datatype auth_error =
    AuthTimedOut | AuthSendFailed | AuthStatus nat | ParseFailed | ConfigError io_error | SharedError

text \<open>An await: the caller's time-out may strike here.\<close>

definition await_point :: "token_env \<Rightarrow> token_world \<Rightarrow> (auth_error, unit) result \<times> token_world" where
  "await_point E w = (if te_cut E (tk_clock w) then Err AuthTimedOut else Ok (), tk_tick w)"

section \<open>Requesting\<close>

text \<open>Both requests differ in their form, and in that only the second reads the body of a refusal for its
  message. The gateway's status is recorded before it is looked at.\<close>

definition reads_error_body :: "token_request \<Rightarrow> bool" where
  "reads_error_body request = (case request of RefreshRequest _ \<Rightarrow> False | SecretRequest _ _ \<Rightarrow> True)"

definition record_status :: "token_env \<Rightarrow> nat \<Rightarrow> token_world \<Rightarrow> token_world" where
  "record_status E status w =
    w \<lparr> tk_deact := on_gateway_status (te_enabled E) status (te_reading E (tk_clock w)) (tk_deact w) \<rparr>"

definition authenticate_with ::
  "token_env \<Rightarrow> token_request \<Rightarrow> token_world \<Rightarrow> (auth_error, string \<times> string) result \<times> token_world" where
  "authenticate_with E request w =
    and_do (await_point E (w \<lparr> tk_requests := tk_requests w @ [request] \<rparr>)) (\<lambda>_ w1.
      case te_answer E (tk_clock w1) of
        Answered status body \<Rightarrow>
          and_do (await_point E w1) (\<lambda>_ w2.
            let w3 = record_status E status w2 in
            if \<not> is_success status then
              and_do (if reads_error_body request then await_point E w3 else (Ok (), w3))
                (\<lambda>_ w4. (Err (AuthStatus status), w4))
            else and_do (await_point E w3) (\<lambda>_ w4.
              case Option.bind body (te_tokens E) of
                None \<Rightarrow> (Err ParseFailed, w4)
              | Some tokens \<Rightarrow> (Ok tokens, w4)))
      | _ \<Rightarrow> (Err AuthSendFailed, w1))"

definition authenticate_with_refresh_token ::
  "token_env \<Rightarrow> string \<Rightarrow> token_world \<Rightarrow> (auth_error, string \<times> string) result \<times> token_world" where
  "authenticate_with_refresh_token E token = authenticate_with E (RefreshRequest token)"

definition authenticate_with_secret ::
  "token_env \<Rightarrow> string \<Rightarrow> string \<Rightarrow> token_world \<Rightarrow> (auth_error, string \<times> string) result \<times> token_world" where
  "authenticate_with_secret E client_id client_secret = authenticate_with E (SecretRequest client_id client_secret)"

section \<open>Saving\<close>

definition shared_update :: "token_env \<Rightarrow> string \<Rightarrow> token_world \<Rightarrow> (auth_error, unit) result \<times> token_world" where
  "shared_update E token w =
    (if te_encrypt_ok E (tk_clock w) \<and> te_shared_ok E (tk_clock w)
     then (Ok (), tk_tick (w \<lparr> tk_shared := Some token \<rparr>)) else (Err SharedError, tk_tick w))"

definition save_config_tokens ::
  "token_env \<Rightarrow> string \<times> string \<Rightarrow> token_world \<Rightarrow> (auth_error, unit) result \<times> token_world" where
  "save_config_tokens E tokens w =
    and_do (await_point E w) (\<lambda>_ w1.
      case update_tokens (te_io E (tk_clock w1)) (fst tokens) (snd tokens) (tk_config w1) of
        (Inl e, c) \<Rightarrow> (Err (ConfigError e), tk_tick (w1 \<lparr> tk_config := c \<rparr>))
      | (Inr _, c) \<Rightarrow> (Ok (), tk_tick (w1 \<lparr> tk_config := c \<rparr>)))"

text \<open>Between the two writes there is no await.\<close>

definition save_tokens_to_config ::
  "token_env \<Rightarrow> string \<times> string \<Rightarrow> token_world \<Rightarrow> (auth_error, unit) result \<times> token_world" where
  "save_tokens_to_config E tokens w =
    and_do (save_config_tokens E tokens w) (\<lambda>_ w1. shared_update E (fst tokens) w1)"

definition config_read ::
  "(io_env \<Rightarrow> config_file \<Rightarrow> (io_error, 'a) result) \<Rightarrow> token_env \<Rightarrow> token_world \<Rightarrow> (auth_error, 'a) result \<times> token_world" where
  "config_read get E w = (map_sum ConfigError id (get (te_io E (tk_clock w)) (tk_config w)), tk_tick w)"

definition authenticate_with_client_credentials ::
  "token_env \<Rightarrow> token_world \<Rightarrow> (auth_error, string \<times> string) result \<times> token_world" where
  "authenticate_with_client_credentials E w =
    and_do (config_read get_client_credentials E w) (\<lambda>(client_id, client_secret) w1.
      and_do (authenticate_with_secret E client_id client_secret w1) (\<lambda>tokens w2.
        and_do (save_tokens_to_config E tokens w2) (\<lambda>_ w3. (Ok tokens, w3))))"

definition authenticate_initial ::
  "token_env \<Rightarrow> token_world \<Rightarrow> (auth_error, string \<times> string) result \<times> token_world" where
  "authenticate_initial E w =
    and_do (config_read get_client_credentials E w) (\<lambda>(client_id, client_secret) w1.
      and_do (authenticate_with_secret E client_id client_secret w1) (\<lambda>tokens w2.
        and_do (save_tokens_to_config E tokens w2) (\<lambda>_ w3. (Ok tokens, w3))))"

definition try_refresh_token_authentication ::
  "token_env \<Rightarrow> token_world \<Rightarrow> (auth_error, string \<times> string) result \<times> token_world" where
  "try_refresh_token_authentication E w =
    and_do (config_read get_refresh_token E w) (\<lambda>refresh_token w1.
      and_do (authenticate_with_refresh_token E refresh_token w1) (\<lambda>tokens w2.
        and_do (save_tokens_to_config E tokens w2) (\<lambda>_ w3. (Ok tokens, w3))))"

text \<open>Any failure of the refresh falls back to the credentials, but a time-out ends both.\<close>

definition reauthenticate ::
  "token_env \<Rightarrow> token_world \<Rightarrow> (auth_error, string \<times> string) result \<times> token_world" where
  "reauthenticate E w =
    (case try_refresh_token_authentication E w of
       (Inr tokens, w1) \<Rightarrow> (Ok tokens, w1)
     | (Inl AuthTimedOut, w1) \<Rightarrow> (Err AuthTimedOut, w1)
     | (Inl _, w1) \<Rightarrow> authenticate_with_client_credentials E w1)"

section \<open>The first authentication\<close>

definition SECOND :: nat where "SECOND = 1000000000"

definition tk_sleep :: "nat \<Rightarrow> token_world \<Rightarrow> token_world" where
  "tk_sleep d w = tk_tick (w \<lparr> tk_sleeps := tk_sleeps w @ [d] \<rparr>)"

partial_function (option) auth_loop :: "token_env \<Rightarrow> token_world \<Rightarrow> token_world option" where
  "auth_loop E w =
    (case authenticate_initial E w of
       (Inr _, w1) \<Rightarrow> Some w1
     | (Inl _, w1) \<Rightarrow> auth_loop E (tk_sleep (60 * SECOND) w1))"

definition process_authentication ::
  "token_env \<Rightarrow> token_world \<Rightarrow> ((auth_error, unit) result \<times> token_world) option" where
  "process_authentication E w =
    (case config_read get_access_token E w of
       (Inl e, w1) \<Rightarrow> Some (Err e, w1)
     | (Inr token, w1) \<Rightarrow>
         if token \<noteq> [] then Some (Ok (), w1) else map_option (\<lambda>w2. (Ok (), w2)) (auth_loop E w1))"

section \<open>The proactive refresh\<close>

definition REFRESH_MARGIN :: int where "REFRESH_MARGIN = 5 * 60"
definition MIN_LEAD :: int where "MIN_LEAD = 15"
definition FALLBACK_INTERVAL :: int where "FALLBACK_INTERVAL = 30 * 60"
definition RETRY_INTERVAL :: nat where "RETRY_INTERVAL = 60 * SECOND"

text \<open>Differences of 64-bit numbers saturate.\<close>

definition sat_sub :: "int \<Rightarrow> int \<Rightarrow> int" where
  "sat_sub a b = max (- (2 ^ 63)) (min (2 ^ 63 - 1) (a - b))"

definition secs_until_refresh :: "int \<Rightarrow> int \<Rightarrow> int" where
  "secs_until_refresh exp now =
    (let secs_to_exp = sat_sub exp now;
         lead = (if REFRESH_MARGIN < secs_to_exp then REFRESH_MARGIN else MIN_LEAD);
         secs = sat_sub secs_to_exp lead in
     if secs \<le> 0 then 0 else secs)"

definition next_refresh_delay :: "token_env \<Rightarrow> token_world \<Rightarrow> int" where
  "next_refresh_delay E w =
    (case get_access_token (te_io E (tk_clock w)) (tk_config w) of
       Inl e \<Rightarrow> FALLBACK_INTERVAL
     | Inr token \<Rightarrow>
         if token = [] then 0
         else (case token_exp_unix (te_claim E) token of
             None \<Rightarrow> FALLBACK_INTERVAL
           | Some exp \<Rightarrow> secs_until_refresh exp (te_now E (tk_clock w))))"

text \<open>The loop is in one of two places: at its top, or between two attempts of a refresh.\<close>

datatype refresh_phase = AtTop | Retrying

definition try_refresh :: "token_env \<Rightarrow> token_world \<Rightarrow> refresh_phase \<times> token_world" where
  "try_refresh E w =
    (case reauthenticate E w of
       (Inr _, w1) \<Rightarrow> (AtTop, w1)
     | (Inl _, w1) \<Rightarrow> if tk_suspended w1 then (AtTop, w1) else (Retrying, tk_sleep RETRY_INTERVAL w1))"

definition probe_turn :: "token_env \<Rightarrow> (token_world \<Rightarrow> token_world) \<Rightarrow> token_world \<Rightarrow> token_world" where
  "probe_turn E others w =
    (case next_probe_delay (tk_deact w) of
       (delay, d) \<Rightarrow> snd (reauthenticate E (others (tk_sleep delay (w \<lparr> tk_deact := d \<rparr>)))))"

text \<open>One turn; during its sleep others run.\<close>

definition refresh_turn ::
  "token_env \<Rightarrow> (token_world \<Rightarrow> token_world) \<Rightarrow> refresh_phase \<times> token_world \<Rightarrow> refresh_phase \<times> token_world" where
  "refresh_turn E others s =
    (case s of
       (Retrying, w) \<Rightarrow> try_refresh E (others w)
     | (AtTop, w) \<Rightarrow>
         if tk_suspended w then (AtTop, probe_turn E others w)
         else try_refresh E (others (tk_sleep (nat (next_refresh_delay E w) * SECOND) w)))"

section \<open>The connection to NATS\<close>

definition nats_url :: "string \<Rightarrow> string \<Rightarrow> string" where
  "nats_url server token = server @ ''/ws/nats?authorization='' @ token"

definition build_nats_connection_url ::
  "token_env \<Rightarrow> string \<Rightarrow> token_world \<Rightarrow> (auth_error, string) result \<times> token_world" where
  "build_nats_connection_url E server w =
    and_do (config_read get_access_token E w) (\<lambda>token w1. (Ok (nats_url server token), w1))"

text \<open>The callback of each connection attempt; others may run before the token is read back.\<close>

definition reauthenticate_and_build_url ::
  "token_env \<Rightarrow> string \<Rightarrow> (token_world \<Rightarrow> token_world) \<Rightarrow> token_world \<Rightarrow> string option \<times> token_world" where
  "reauthenticate_and_build_url E server others w =
    (if tk_suspended w then (None, w)
     else case reauthenticate E w of
         (Inl _, w1) \<Rightarrow> (None, w1)
       | (Inr _, w1) \<Rightarrow>
           (case build_nats_connection_url E server (others w1) of
              (Inl _, w2) \<Rightarrow> (None, w2) | (Inr url, w2) \<Rightarrow> (Some url, w2)))"

definition SUSPENDED_RECONNECT_DELAY :: nat where "SUSPENDED_RECONNECT_DELAY = 5 * 60"

definition reconnect_delay :: "token_world \<Rightarrow> nat" where
  "reconnect_delay w = (if tk_suspended w then SUSPENDED_RECONNECT_DELAY else 5)"

datatype nats_event = Connected | OtherEvent

text \<open>The first connection is remembered, each later one is announced.\<close>

definition on_nats_event :: "nats_event \<Rightarrow> bool \<times> nat \<Rightarrow> bool \<times> nat" where
  "on_nats_event event s =
    (case s of (connected_once, announced) \<Rightarrow>
       if event = Connected then (True, if connected_once then announced + 1 else announced)
       else (connected_once, announced))"

section \<open>The heartbeat\<close>

definition HEARTBEAT_LOG_INTERVAL :: "64 word" where "HEARTBEAT_LOG_INTERVAL = 60"

text \<open>The counter, and whether this one is logged as a summary.\<close>

definition log_heartbeat :: "64 word \<Rightarrow> 64 word \<times> bool" where
  "log_heartbeat sent = (if HEARTBEAT_LOG_INTERVAL \<le> sent + 1 then (0, True) else (sent + 1, False))"

datatype heartbeat_outcome = HeartbeatSent | HeartbeatFailed | HeartbeatTimedOut

definition heartbeat_topic :: "string \<Rightarrow> string" where
  "heartbeat_topic machine_id = ''machine.'' @ machine_id @ ''.heartbeat''"

record heartbeat_state =
  hb_count :: "64 word"
  hb_topics :: "string list"
  hb_summaries :: nat

definition publish_heartbeat ::
  "io_env \<Rightarrow> config_file \<Rightarrow> heartbeat_outcome \<Rightarrow> heartbeat_state \<Rightarrow> bool \<times> heartbeat_state" where
  "publish_heartbeat io config outcome s =
    (case get_machine_id io config of
       Inl e \<Rightarrow> (False, s)
     | Inr machine_id \<Rightarrow>
         if outcome \<noteq> HeartbeatSent then (False, s)
         else (case log_heartbeat (hb_count s) of
             (n, summary) \<Rightarrow>
               (True, s \<lparr> hb_count := n, hb_topics := hb_topics s @ [heartbeat_topic machine_id],
                  hb_summaries := hb_summaries s + (if summary then 1 else 0) \<rparr>)))"

section \<open>What a request and a save change\<close>

definition identity_of :: "config_file \<Rightarrow> (io_error, string \<times> string \<times> string) result" where
  "identity_of f = map_sum id (\<lambda>c. (ac_machine_id c, ac_client_id c, ac_client_secret c)) (config_get io_ok f)"

definition tokens_of :: "config_file \<Rightarrow> (io_error, string \<times> string) result" where
  "tokens_of f = map_sum id (\<lambda>c. (ac_access_token c, ac_refresh_token c)) (config_get io_ok f)"

lemma and_do_result:
  "and_do r f = (Ok y, s') \<longleftrightarrow> (\<exists>x s. r = (Ok x, s) \<and> f x s = (Ok y, s'))"
  "and_do r f = (Err e, s') \<longleftrightarrow> r = (Err e, s') \<or> (\<exists>x s. r = (Ok x, s) \<and> f x s = (Err e, s'))"
  by (cases r; cases "fst r"; auto simp: and_do_def)+

lemma tk_tick_fields [simp]:
  "tk_config (tk_tick w) = tk_config w" "tk_shared (tk_tick w) = tk_shared w" "tk_deact (tk_tick w) = tk_deact w"
  "tk_requests (tk_tick w) = tk_requests w" "tk_sleeps (tk_tick w) = tk_sleeps w" "tk_clock (tk_tick w) = Suc (tk_clock w)"
  by (simp_all add: tk_tick_def)

lemma await_point_frame:
  "await_point E w = (r, w') \<Longrightarrow> w' = tk_tick w"
  by (auto simp: await_point_def)

lemma authenticate_with_frame:
  "authenticate_with E q w = (r, w') \<Longrightarrow>
     tk_config w' = tk_config w \<and> tk_shared w' = tk_shared w \<and> tk_requests w' = tk_requests w @ [q] \<and>
     tk_sleeps w' = tk_sleeps w"
  by (auto simp: authenticate_with_def and_do_def await_point_def record_status_def Let_def
      split: http_answer.splits option.splits if_splits)

lemma config_read_frame:
  "config_read g E w = (r, w') \<Longrightarrow> w' = tk_tick w"
  by (auto simp: config_read_def)

lemma update_tokens_result:
  "update_tokens io a t f = (r, f') \<Longrightarrow>
     identity_of f' = identity_of f \<and>
     (case r of Inl e \<Rightarrow> f' = f | Inr _ \<Rightarrow> tokens_of f' = Ok (a, t))"
  by (cases f) (auto simp: update_tokens_def identity_of_def tokens_of_def config_get_def read_file_def
      write_atomically_def split: if_splits)

lemma save_tokens_result:
  assumes "save_tokens_to_config E (a, t) w = (r, w')"
  shows "identity_of (tk_config w') = identity_of (tk_config w) \<and> tk_requests w' = tk_requests w \<and>
    tk_deact w' = tk_deact w \<and>
    (case r of Inl e \<Rightarrow> tk_shared w' = tk_shared w | Inr _ \<Rightarrow> tokens_of (tk_config w') = Ok (a, t) \<and> tk_shared w' = Some a)"
  using assms
  by (auto simp: save_tokens_to_config_def save_config_tokens_def shared_update_def and_do_def await_point_def
      split: sum.splits prod.splits if_splits dest: update_tokens_result)

text \<open>Asking with one request and saving what came.\<close>

definition saved_or_failed :: "token_world \<Rightarrow> (auth_error, string \<times> string) result \<Rightarrow> token_world \<Rightarrow> bool" where
  "saved_or_failed w r w' \<longleftrightarrow>
     identity_of (tk_config w') = identity_of (tk_config w) \<and>
     (case r of
        Inl e \<Rightarrow> tk_shared w' = tk_shared w
      | Inr (a, t) \<Rightarrow> tokens_of (tk_config w') = Ok (a, t) \<and> tk_shared w' = Some a)"

lemma saved_or_failed_tick [simp]: "saved_or_failed (tk_tick w) = saved_or_failed w"
  by (intro ext) (simp add: saved_or_failed_def split: sum.split)

lemma ask_and_save:
  assumes "and_do (authenticate_with E q w1) (\<lambda>tokens w2.
      and_do (save_tokens_to_config E tokens w2) (\<lambda>_ w3. (Ok tokens, w3))) = (r, w')"
  shows "saved_or_failed w1 r w' \<and> tk_requests w' = tk_requests w1 @ [q]"
proof -
  obtain x w2 where q: "authenticate_with E q w1 = (x, w2)" by fastforce
  note f = authenticate_with_frame[OF q]
  show ?thesis
  proof (cases x)
    case (Inl e)
    then have "r = Err e" "w' = w2" using assms q by (auto simp: and_do_def)
    then show ?thesis using f by (simp add: saved_or_failed_def)
  next
    case (Inr p)
    obtain a t where p: "p = (a, t)" by fastforce
    obtain y w3 where s: "save_tokens_to_config E (a, t) w2 = (y, w3)" by fastforce
    show ?thesis
      using assms q f Inr p s save_tokens_result[OF s] by (cases y) (auto simp: and_do_def saved_or_failed_def)
  qed
qed

lemma credentials_path:
  assumes "authenticate_with_client_credentials E w = (r, w')"
  shows "saved_or_failed w r w' \<and> (\<exists>qs. tk_requests w' = tk_requests w @ qs \<and> length qs \<le> 1 \<and>
    (\<forall>q \<in> set qs. reads_error_body q))"
proof -
  obtain x w1 where c: "config_read get_client_credentials E w = (x, w1)" by fastforce
  then have w1: "w1 = tk_tick w" by (rule config_read_frame)
  show ?thesis
  proof (cases x)
    case (Inl e)
    then have "r = Err e" "w' = w1" using assms c by (auto simp: authenticate_with_client_credentials_def and_do_def)
    then show ?thesis using w1 by (simp add: saved_or_failed_def)
  next
    case (Inr p)
    obtain i s where "p = (i, s)" by fastforce
    then have "and_do (authenticate_with E (SecretRequest i s) w1) (\<lambda>tokens w2.
        and_do (save_tokens_to_config E tokens w2) (\<lambda>_ w3. (Ok tokens, w3))) = (r, w')"
      using assms c Inr by (simp add: authenticate_with_client_credentials_def authenticate_with_secret_def and_do_def)
    from ask_and_save[OF this] show ?thesis using w1 by (simp add: reads_error_body_def)
  qed
qed

lemma refresh_path:
  assumes "try_refresh_token_authentication E w = (r, w')"
  shows "saved_or_failed w r w' \<and> (\<exists>qs. tk_requests w' = tk_requests w @ qs \<and> length qs \<le> 1 \<and>
    (\<forall>q \<in> set qs. \<not> reads_error_body q))"
proof -
  obtain x w1 where c: "config_read get_refresh_token E w = (x, w1)" by fastforce
  then have w1: "w1 = tk_tick w" by (rule config_read_frame)
  show ?thesis
  proof (cases x)
    case (Inl e)
    then have "r = Err e" "w' = w1" using assms c by (auto simp: try_refresh_token_authentication_def and_do_def)
    then show ?thesis using w1 by (simp add: saved_or_failed_def)
  next
    case (Inr token)
    then have "and_do (authenticate_with E (RefreshRequest token) w1) (\<lambda>tokens w2.
        and_do (save_tokens_to_config E tokens w2) (\<lambda>_ w3. (Ok tokens, w3))) = (r, w')"
      using assms c by (simp add: try_refresh_token_authentication_def authenticate_with_refresh_token_def and_do_def)
    from ask_and_save[OF this] show ?thesis using w1 by (simp add: reads_error_body_def)
  qed
qed

text \<open>C29. Reauthentication sends at most one refresh request and then at most one request with the
  credentials. Success means that the tokens returned are in the configuration and that the file the
  tools read holds the same access token; failure, time-outs included, leaves that file alone. The
  machine's identity in the configuration never changes.\<close>

theorem reauthenticate_contract:
  assumes "reauthenticate E w = (r, w')"
  shows "(\<exists>qs qs'. tk_requests w' = tk_requests w @ qs @ qs' \<and> length qs \<le> 1 \<and> length qs' \<le> 1 \<and>
      (\<forall>q \<in> set qs. \<not> reads_error_body q) \<and> (\<forall>q \<in> set qs'. reads_error_body q)) \<and>
    identity_of (tk_config w') = identity_of (tk_config w) \<and>
    (case r of
       Inl e \<Rightarrow> tk_shared w' = tk_shared w
     | Inr (a, t) \<Rightarrow> tokens_of (tk_config w') = Ok (a, t) \<and> tk_shared w' = Some a)"
proof -
  obtain x w1 where t: "try_refresh_token_authentication E w = (x, w1)" by fastforce
  obtain qs where qs: "tk_requests w1 = tk_requests w @ qs" "length qs \<le> 1" "\<forall>q \<in> set qs. \<not> reads_error_body q"
    and s: "saved_or_failed w x w1"
    using refresh_path[OF t] by blast
  have "r = x \<and> w' = w1 \<or> (\<exists>e. x = Err e \<and> authenticate_with_client_credentials E w1 = (r, w'))"
  proof (cases x)
    case (Inl e)
    then show ?thesis using assms t by (cases e) (auto simp: reauthenticate_def)
  next
    case (Inr p)
    then show ?thesis using assms t by (auto simp: reauthenticate_def)
  qed
  then consider (done_now) "r = x" "w' = w1"
    | (fallback) e where "x = Err e" "authenticate_with_client_credentials E w1 = (r, w')"
    by blast
  then show ?thesis
  proof cases
    case done_now
    have "\<exists>qs qs'. tk_requests w' = tk_requests w @ qs @ qs' \<and> length qs \<le> 1 \<and> length qs' \<le> 1 \<and>
        (\<forall>q \<in> set qs. \<not> reads_error_body q) \<and> (\<forall>q \<in> set qs'. reads_error_body q)"
      using qs done_now by (intro exI[of _ qs] exI[of _ "[]"]) simp
    moreover have "saved_or_failed w r w'" using s done_now by simp
    ultimately show ?thesis unfolding saved_or_failed_def by blast
  next
    case (fallback e)
    obtain qs' where qs': "tk_requests w' = tk_requests w1 @ qs'" "length qs' \<le> 1" "\<forall>q \<in> set qs'. reads_error_body q"
      and s': "saved_or_failed w1 r w'"
      using credentials_path[OF fallback(2)] by blast
    have "\<exists>qs qs'. tk_requests w' = tk_requests w @ qs @ qs' \<and> length qs \<le> 1 \<and> length qs' \<le> 1 \<and>
        (\<forall>q \<in> set qs. \<not> reads_error_body q) \<and> (\<forall>q \<in> set qs'. reads_error_body q)"
      using qs qs' by (intro exI[of _ qs] exI[of _ qs']) simp
    moreover have "saved_or_failed w r w'" using s s' fallback(1) by (cases r) (auto simp: saved_or_failed_def)
    ultimately show ?thesis unfolding saved_or_failed_def by blast
  qed
qed

text \<open>Two reauthentications at the same time, the refresh loop's and the one of a reconnect, can leave
  the tools with the wrong token: the configuration is written under a lock, the shared file is not,
  so both succeed and the file holds the token of the one that lost the race for the configuration.\<close>

theorem shared_token_can_lag:
  assumes "save_config_tokens E first w = (Ok (), w1)" "save_config_tokens E second w1 = (Ok (), w2)"
    and "shared_update E (fst second) w2 = (Ok (), w3)" "shared_update E (fst first) w3 = (Ok (), w4)"
    and "fst first \<noteq> fst second"
  shows "tokens_of (tk_config w4) = Ok second \<and> tk_shared w4 = Some (fst first) \<and>
    tk_shared w4 \<noteq> Some (fst second)"
proof -
  have saved: "tokens_of (tk_config v') = Ok p" if s: "save_config_tokens E p v = (Ok (), v')" for p v v'
  proof -
    obtain c where c: "update_tokens (te_io E (Suc (tk_clock v))) (fst p) (snd p) (tk_config v) = (Ok (), c)"
      and v: "tk_config v' = c"
      using s by (auto simp: save_config_tokens_def and_do_def await_point_def split: sum.splits prod.splits if_splits)
    show ?thesis using update_tokens_result[OF c] v by simp
  qed
  have "tk_config w4 = tk_config w2" "tk_shared w4 = Some (fst first)"
    using assms(3,4) by (auto simp: shared_update_def split: if_splits)
  then show ?thesis using saved[OF assms(2)] assms(5) by simp
qed

section \<open>When the token is refreshed\<close>

definition fits_i64 :: "int \<Rightarrow> bool" where "fits_i64 x \<longleftrightarrow> - (2 ^ 63) \<le> x \<and> x < 2 ^ 63"

text \<open>The refresh of a token is due five minutes before its expiry, or, when no more than five minutes
  are left already, fifteen seconds before it, and at once when even those have passed; no clock and
  no claim makes the delay wrap or exceed what a duration holds.\<close>

theorem refresh_is_in_time:
  assumes "fits_i64 exp" "fits_i64 now"
  shows "let delay = secs_until_refresh exp now in
    0 \<le> delay \<and> delay < 2 ^ 63 \<and>
    (exp - now \<le> 15 \<longrightarrow> delay = 0) \<and>
    (15 < exp - now \<and> exp - now \<le> 300 \<longrightarrow> now + delay = exp - 15) \<and>
    (300 < exp - now \<and> exp - now < 2 ^ 63 \<longrightarrow> now + delay = exp - 300) \<and>
    (0 < delay \<longrightarrow> now + delay \<le> exp - 15)"
proof -
  define delay where "delay = secs_until_refresh exp now"
  define s where "s = sat_sub exp now"
  have s: "- (2 ^ 63) \<le> s" "s \<le> 2 ^ 63 - 1" "exp - now < 2 ^ 63 \<Longrightarrow> - (2 ^ 63) \<le> exp - now \<Longrightarrow> s = exp - now"
    "2 ^ 63 \<le> exp - now \<Longrightarrow> s = 2 ^ 63 - 1" "exp - now < - (2 ^ 63) \<Longrightarrow> s = - (2 ^ 63)"
    unfolding s_def sat_sub_def by (auto simp: max_def min_def)
  have sub: "sat_sub s lead \<le> 0 \<longleftrightarrow> s \<le> lead" "lead < s \<Longrightarrow> sat_sub s lead = s - lead" if "0 \<le> lead" for lead
    using s(1,2) that unfolding sat_sub_def by (auto simp: max_def min_def)
  have delay: "delay = (if 300 < s then s - 300 else if 15 < s then s - 15 else 0)"
    unfolding delay_def secs_until_refresh_def s_def[symmetric] REFRESH_MARGIN_def MIN_LEAD_def Let_def
    using sub(1)[of 300] sub(2)[of 300] sub(1)[of 15] sub(2)[of 15] by (cases "300 < s"; cases "15 < s") simp_all
  have "0 \<le> delay" "delay < 2 ^ 63" using delay s(2) by auto
  moreover have "delay = 0" if "exp - now \<le> 15"
  proof -
    have "s \<le> 15" using s(3,5) that by (cases "exp - now < - (2 ^ 63)") auto
    then show ?thesis using delay by simp
  qed
  moreover have "now + delay = exp - 15" if "15 < exp - now" "exp - now \<le> 300"
    using s(3) that delay by auto
  moreover have "now + delay = exp - 300" if "300 < exp - now" "exp - now < 2 ^ 63"
    using s(3) that delay by auto
  moreover have "now + delay \<le> exp - 15" if "0 < delay"
  proof -
    have "15 < s" using delay that by (simp split: if_splits)
    moreover from this have "s \<le> exp - now"
      using s by (cases "exp - now < - (2 ^ 63)"; cases "exp - now < 2 ^ 63") auto
    ultimately show ?thesis using delay by auto
  qed
  ultimately show ?thesis by (simp add: delay_def Let_def)
qed

text \<open>A token that cannot be decoded is not refreshed at once but after half an hour, however close its
  expiry is; only a missing one is.\<close>

theorem undecodable_token_waits:
  assumes "get_access_token (te_io E (tk_clock w)) (tk_config w) = Ok token" "token_exp_unix (te_claim E) token = None"
  shows "next_refresh_delay E w = (if token = [] then 0 else 1800)"
  using assms by (simp add: next_refresh_delay_def FALLBACK_INTERVAL_def)

section \<open>A deleted tenant\<close>

text \<open>An environment that works, with a gateway that answers.\<close>

definition answering :: "token_env \<Rightarrow> (nat \<Rightarrow> bool) \<Rightarrow> bool" where
  "answering E P \<longleftrightarrow> te_enabled E \<and> (\<forall>n. \<not> te_cut E n \<and> te_io E n = io_ok \<and>
     (\<exists>status body. te_answer E n = Answered status body \<and> P status))"

lemma answering_asks:
  assumes "answering E P" "authenticate_with E q w = (r, w')"
  shows "\<exists>status rd. P status \<and> tk_deact w' = on_gateway_status True status rd (tk_deact w) \<and>
    (\<not> is_success status \<longrightarrow> r = Err (AuthStatus status))"
proof -
  obtain status body where a: "te_answer E (Suc (tk_clock w)) = Answered status body" "P status"
    using assms(1) unfolding answering_def by blast
  have "\<not> te_cut E n" "te_enabled E" for n using assms(1) by (auto simp: answering_def)
  then show ?thesis
    using assms(2) a
    by (intro exI[of _ status] exI[of _ "te_reading E (Suc (Suc (tk_clock w)))"])
      (auto simp: authenticate_with_def and_do_def await_point_def record_status_def Let_def split: if_splits option.splits)
qed

lemma configured_reads:
  assumes "tk_config w \<noteq> Corrupt" "answering E P"
  shows "\<exists>t. config_read get_refresh_token E w = (Ok t, tk_tick w)"
    "\<exists>i s. config_read get_client_credentials E w = (Ok (i, s), tk_tick w)"
  using assms
  by (cases "tk_config w"; auto simp: config_read_def answering_def get_refresh_token_def get_client_credentials_def
      config_get_def read_file_def)+

text \<open>While every answer is a refusal.\<close>

lemma refused_reauthentication:
  assumes "answering E (\<lambda>status. is_gone status)" "tk_config w \<noteq> Corrupt" "reauthenticate E w = (r, w')"
  shows "(\<exists>e. r = Err e) \<and> tk_config w' = tk_config w \<and>
    (\<exists>status rd rd'. is_gone status \<and> tk_deact w' = record_gone rd' (record_gone rd (tk_deact w))) \<and>
    length (tk_requests w') = length (tk_requests w) + 2 \<and> tk_sleeps w' = tk_sleeps w"
proof -
  have gone: "\<not> is_success status" if "is_gone status" for status using that by (simp add: is_gone_def is_success_def)
  obtain t where t: "config_read get_refresh_token E w = (Ok t, tk_tick w)" using configured_reads(1)[OF assms(2,1)] by blast
  obtain x w1 where a: "authenticate_with E (RefreshRequest t) (tk_tick w) = (x, w1)" by fastforce
  obtain s1 rd where s1: "is_gone s1" "tk_deact w1 = on_gateway_status True s1 rd (tk_deact w)" "x = Err (AuthStatus s1)"
    using answering_asks[OF assms(1) a] gone by auto
  note f = authenticate_with_frame[OF a]
  have first: "try_refresh_token_authentication E w = (Err (AuthStatus s1), w1)"
    using t a s1(3) by (simp add: try_refresh_token_authentication_def authenticate_with_refresh_token_def and_do_def)
  have c1: "tk_config w1 \<noteq> Corrupt" using f assms(2) by simp
  obtain i s where i: "config_read get_client_credentials E w1 = (Ok (i, s), tk_tick w1)"
    using configured_reads(2)[OF c1 assms(1)] by blast
  obtain y w2 where b: "authenticate_with E (SecretRequest i s) (tk_tick w1) = (y, w2)" by fastforce
  obtain s2 rd' where s2: "is_gone s2" "tk_deact w2 = on_gateway_status True s2 rd' (tk_deact w1)" "y = Err (AuthStatus s2)"
    using answering_asks[OF assms(1) b] gone by auto
  note g = authenticate_with_frame[OF b]
  have "reauthenticate E w = (Err (AuthStatus s2), w2)"
    using first i b s2(3)
    by (simp add: reauthenticate_def authenticate_with_client_credentials_def authenticate_with_secret_def and_do_def)
  then show ?thesis using assms(3) f g s1 s2 by (auto simp: on_gateway_status_def)
qed

definition counting :: "deactivation \<Rightarrow> 32 word \<Rightarrow> bool" where
  "counting d n \<longleftrightarrow> \<not> da_uninstall_triggered d \<and> \<not> da_suspended d \<and> da_phase d = Healthy \<and> da_consecutive_gone d = n"

lemma record_gone_counts:
  "counting d 0 \<Longrightarrow> counting (record_gone rd d) 1" "counting d 1 \<Longrightarrow> counting (record_gone rd d) 2"
  "counting d 2 \<Longrightarrow> counting (record_gone rd d) 3" "counting d 3 \<Longrightarrow> counting (record_gone rd d) 4"
  "counting d 4 \<Longrightarrow> da_suspended (record_gone rd d)"
  by (auto simp: counting_def record_gone_def record_gone_locked_def Let_def save_marker_def send_command_def
      uninstall_due_def request_uninstall_def saturating_add_one_def STOP_TOOLS_AFTER_CONSECUTIVE_GONE_def
      word_le_nat_alt)

lemma suspended_stays:
  "da_suspended d \<Longrightarrow> da_suspended (record_gone rd d)"
  by (auto simp: record_gone_def record_gone_locked_def Let_def save_marker_def send_command_def request_uninstall_def)

lemma tk_sleep_fields [simp]:
  "tk_config (tk_sleep d w) = tk_config w" "tk_deact (tk_sleep d w) = tk_deact w"
  "tk_requests (tk_sleep d w) = tk_requests w" "tk_sleeps (tk_sleep d w) = tk_sleeps w @ [d]"
  "tk_suspended (tk_sleep d w) = tk_suspended w" "tk_shared (tk_sleep d w) = tk_shared w"
  by (simp_all add: tk_sleep_def tk_suspended_def)

lemma refused_try:
  assumes "answering E is_gone" "tk_config w \<noteq> Corrupt" "try_refresh E w = (phase, w')"
  shows "\<exists>v rd rd'. tk_deact v = record_gone rd' (record_gone rd (tk_deact w)) \<and>
    tk_config v = tk_config w \<and> length (tk_requests v) = length (tk_requests w) + 2 \<and> tk_sleeps v = tk_sleeps w \<and>
    (phase, w') = (if tk_suspended v then (AtTop, v) else (Retrying, tk_sleep RETRY_INTERVAL v))"
proof -
  obtain r v where r: "reauthenticate E w = (r, v)" by fastforce
  from refused_reauthentication[OF assms(1,2) r] show ?thesis
    using assms(3) r by (auto simp: try_refresh_def split: if_splits)
qed

text \<open>A refused reauthentication counts twice, once for the refresh token and once for the
  credentials: a gateway that answers every request with 410 suspends the agent in the third attempt,
  two minutes after the first, not in the fifth.\<close>

theorem three_refusals_suspend:
  assumes "answering E is_gone" "tk_config w \<noteq> Corrupt" "counting (tk_deact w) 0"
  shows "\<exists>w1 w2 w3 d. refresh_turn E id (AtTop, w) = (Retrying, w1) \<and>
    refresh_turn E id (Retrying, w1) = (Retrying, w2) \<and> refresh_turn E id (Retrying, w2) = (AtTop, w3) \<and>
    tk_suspended w3 \<and> length (tk_requests w3) = length (tk_requests w) + 6 \<and>
    tk_sleeps w3 = tk_sleeps w @ [d, RETRY_INTERVAL, RETRY_INTERVAL]"
proof -
  let ?d = "nat (next_refresh_delay E w) * SECOND"
  have top: "refresh_turn E id (AtTop, w) = try_refresh E (tk_sleep ?d w)"
    using assms(3) by (simp add: refresh_turn_def tk_suspended_def is_suspended_def counting_def)
  have again: "refresh_turn E id (Retrying, v) = try_refresh E v" for v by (simp add: refresh_turn_def)
  have not_suspended: "\<not> tk_suspended v" if "counting (tk_deact v) n" for v n
    using that by (simp add: counting_def tk_suspended_def is_suspended_def)
  obtain p1 w1 where t1: "try_refresh E (tk_sleep ?d w) = (p1, w1)" by fastforce
  obtain v1 rd1 rd1' where v1: "tk_deact v1 = record_gone rd1' (record_gone rd1 (tk_deact w))" "tk_config v1 = tk_config w"
    "length (tk_requests v1) = length (tk_requests w) + 2" "tk_sleeps v1 = tk_sleeps w @ [?d]"
    "(p1, w1) = (if tk_suspended v1 then (AtTop, v1) else (Retrying, tk_sleep RETRY_INTERVAL v1))"
    using refused_try[OF assms(1) _ t1] assms(2) by auto
  have c1: "counting (tk_deact v1) 2" using v1(1) assms(3) record_gone_counts(1,2) by simp
  then have w1: "p1 = Retrying" "w1 = tk_sleep RETRY_INTERVAL v1" using v1(5) not_suspended by simp_all
  obtain p2 w2 where t2: "try_refresh E w1 = (p2, w2)" by fastforce
  obtain v2 rd2 rd2' where v2: "tk_deact v2 = record_gone rd2' (record_gone rd2 (tk_deact v1))" "tk_config v2 = tk_config w"
    "length (tk_requests v2) = length (tk_requests w) + 4" "tk_sleeps v2 = tk_sleeps w @ [?d, RETRY_INTERVAL]"
    "(p2, w2) = (if tk_suspended v2 then (AtTop, v2) else (Retrying, tk_sleep RETRY_INTERVAL v2))"
    using refused_try[OF assms(1) _ t2] assms(2) v1(2-4) w1(2) by auto
  have c2: "counting (tk_deact v2) 4" using v2(1) c1 record_gone_counts(3,4) by simp
  then have w2: "p2 = Retrying" "w2 = tk_sleep RETRY_INTERVAL v2" using v2(5) not_suspended by simp_all
  obtain p3 w3 where t3: "try_refresh E w2 = (p3, w3)" by fastforce
  obtain v3 rd3 rd3' where v3: "tk_deact v3 = record_gone rd3' (record_gone rd3 (tk_deact v2))"
    "length (tk_requests v3) = length (tk_requests w) + 6" "tk_sleeps v3 = tk_sleeps w @ [?d, RETRY_INTERVAL, RETRY_INTERVAL]"
    "(p3, w3) = (if tk_suspended v3 then (AtTop, v3) else (Retrying, tk_sleep RETRY_INTERVAL v3))"
    using refused_try[OF assms(1) _ t3] assms(2) v2(2-4) w2(2) by auto
  have "tk_suspended v3" using v3(1) c2 record_gone_counts(5) suspended_stays by (simp add: tk_suspended_def is_suspended_def)
  then show ?thesis using top again t1 t2 t3 w1 w2 v3 by auto
qed

lemma healthy_not_suspended:
  "da_phase d = Suspended \<or> \<not> da_suspended d \<Longrightarrow> \<not> da_uninstall_triggered d \<or> \<not> da_suspended d \<Longrightarrow>
     \<not> da_suspended (record_healthy rd d)"
  by (auto simp: record_healthy_def Let_def remove_marker_def send_command_def)

lemma success_answer_recovers:
  assumes "answering E is_success" "authenticate_with E q w = (r, w')"
    and "da_phase (tk_deact w) = Suspended \<or> \<not> tk_suspended w" "\<not> da_uninstall_triggered (tk_deact w) \<or> \<not> tk_suspended w"
  shows "\<not> tk_suspended w'"
proof -
  have "\<not> is_gone status" if "is_success status" for status using that by (simp add: is_gone_def is_success_def)
  moreover obtain status rd where "is_success status" "tk_deact w' = on_gateway_status True status rd (tk_deact w)"
    using answering_asks[OF assms(1,2)] by blast
  ultimately have "tk_deact w' = record_healthy rd (tk_deact w)" by (simp add: on_gateway_status_def)
  then show ?thesis using healthy_not_suspended assms(3,4) by (simp add: tk_suspended_def is_suspended_def)
qed

lemma save_keeps_deact: "save_tokens_to_config E tokens w = (r, w') \<Longrightarrow> tk_deact w' = tk_deact w"
  using save_tokens_result[of E "fst tokens" "snd tokens" w r w'] by simp

lemma ask_recovers:
  assumes "answering E is_success" "and_do (authenticate_with E q w1) (\<lambda>tokens w2.
      and_do (save_tokens_to_config E tokens w2) (\<lambda>_ w3. (Ok tokens, w3))) = (r, w')"
    and "da_phase (tk_deact w1) = Suspended \<or> \<not> tk_suspended w1" "\<not> da_uninstall_triggered (tk_deact w1) \<or> \<not> tk_suspended w1"
  shows "\<not> tk_suspended w'"
proof -
  obtain y w2 where a: "authenticate_with E q w1 = (y, w2)" by fastforce
  have w2: "\<not> tk_suspended w2" by (rule success_answer_recovers[OF assms(1) a assms(3,4)])
  show ?thesis
  proof (cases y)
    case (Inl e)
    then show ?thesis using assms(2) a w2 by (simp add: and_do_def)
  next
    case (Inr tokens)
    obtain z w3 where s: "save_tokens_to_config E tokens w2 = (z, w3)" by fastforce
    have "w' = w3" using assms(2) a Inr s by (cases z) (simp_all add: and_do_def)
    then show ?thesis using save_keeps_deact[OF s] w2 by (simp add: tk_suspended_def)
  qed
qed

lemma credentials_keep_recovered:
  assumes "answering E is_success" "authenticate_with_client_credentials E w = (r, w')" "\<not> tk_suspended w"
  shows "\<not> tk_suspended w'"
proof -
  obtain c u where c: "config_read get_client_credentials E w = (c, u)" by fastforce
  then have u: "\<not> tk_suspended u" using config_read_frame[OF c] assms(3) by (simp add: tk_suspended_def)
  show ?thesis
  proof (cases c)
    case (Inl e)
    then show ?thesis using assms(2) c u by (simp add: authenticate_with_client_credentials_def and_do_def)
  next
    case (Inr p)
    obtain i s where "p = (i, s)" by fastforce
    then have "and_do (authenticate_with E (SecretRequest i s) u) (\<lambda>tokens w2.
        and_do (save_tokens_to_config E tokens w2) (\<lambda>_ w3. (Ok tokens, w3))) = (r, w')"
      using assms(2) c Inr by (simp add: authenticate_with_client_credentials_def authenticate_with_secret_def and_do_def)
    then show ?thesis using ask_recovers[OF assms(1)] u by blast
  qed
qed

text \<open>The probe of a suspended agent lets it recover: as soon as the gateway answers with a success,
  whatever the body says, the turn of the refresh loop ends with the suspension lifted, unless the
  uninstallation has been triggered.\<close>

theorem probe_recovers:
  assumes "answering E is_success" "tk_config w \<noteq> Corrupt" "tk_suspended w"
    and "da_phase (tk_deact w) = Suspended" "\<not> da_uninstall_triggered (tk_deact w)"
  shows "\<not> tk_suspended (snd (refresh_turn E id (AtTop, w)))"
proof -
  obtain delay d where d: "next_probe_delay (tk_deact w) = (delay, d)" by fastforce
  define v where "v = tk_sleep delay (w \<lparr> tk_deact := d \<rparr>)"
  have v: "tk_config v \<noteq> Corrupt" "da_phase (tk_deact v) = Suspended" "\<not> da_uninstall_triggered (tk_deact v)"
    using assms d by (auto simp: v_def next_probe_delay_def)
  obtain r w' where r: "reauthenticate E v = (r, w')" by fastforce
  obtain x w1 where t: "try_refresh_token_authentication E v = (x, w1)" by fastforce
  obtain token where "config_read get_refresh_token E v = (Ok token, tk_tick v)"
    using configured_reads(1)[OF v(1) assms(1)] by blast
  then have "and_do (authenticate_with E (RefreshRequest token) (tk_tick v)) (\<lambda>tokens w2.
      and_do (save_tokens_to_config E tokens w2) (\<lambda>_ w3. (Ok tokens, w3))) = (x, w1)"
    using t by (simp add: try_refresh_token_authentication_def authenticate_with_refresh_token_def and_do_def)
  then have w1: "\<not> tk_suspended w1" using ask_recovers[OF assms(1)] v(2,3) by simp
  have "\<not> tk_suspended w'"
  proof (cases x)
    case (Inl e)
    then show ?thesis using r t w1 credentials_keep_recovered[OF assms(1)]
      by (cases e) (auto simp: reauthenticate_def)
  next
    case (Inr p)
    then show ?thesis using r t w1 by (simp add: reauthenticate_def)
  qed
  then show ?thesis using assms(3) d r by (simp add: refresh_turn_def probe_turn_def v_def)
qed

section \<open>The first authentication returns\<close>

definition auth_attempt :: "token_env \<Rightarrow> token_world \<Rightarrow> token_world + token_world" where
  "auth_attempt E w =
    (case authenticate_initial E w of (Inr _, w1) \<Rightarrow> Inr w1 | (Inl _, w1) \<Rightarrow> Inl (tk_sleep (60 * SECOND) w1))"

lemma auth_loop_least:
  assumes "auth_loop E w = Some t"
    "\<And>w t. (case auth_attempt E w of Inl w' \<Rightarrow> P w' t | Inr t' \<Rightarrow> t' = t) \<Longrightarrow> P w t"
  shows "P w t"
proof -
  have "E' = E \<longrightarrow> P w t" if "auth_loop E' w = Some t" for E' w t
  proof (rule auth_loop.raw_induct[where P = "\<lambda>E' w t. E' = E \<longrightarrow> P w t", OF _ that], rule impI)
    fix loop E' w t
    assume "\<And>E' w t. loop E' w = Some t \<Longrightarrow> E' = E \<longrightarrow> P w t" "E' = E"
    moreover assume "(case authenticate_initial E' w of
        (Inl e, w1) \<Rightarrow> loop E' (tk_sleep (60 * SECOND) w1) | (Inr x, w1) \<Rightarrow> Some w1) = Some t"
    ultimately have "case auth_attempt E w of Inl w' \<Rightarrow> P w' t | Inr t' \<Rightarrow> t' = t"
      by (auto simp: auth_attempt_def split: sum.splits prod.splits)
    then show "P w t" by (rule assms(2))
  qed
  then show ?thesis using assms(1) by blast
qed

interpretation authenticating: retry_loop "auth_attempt E" "auth_loop E" for E
proof
  show "auth_loop E w = (case auth_attempt E w of Inl w' \<Rightarrow> auth_loop E w' | Inr t \<Rightarrow> Some t)" for w
    by (subst auth_loop.simps) (auto simp: auth_attempt_def split: sum.splits prod.splits)
qed (rule auth_loop_least)

lemma authenticate_initial_credentials:
  "authenticate_initial E w = authenticate_with_client_credentials E w"
  by (simp add: authenticate_initial_def authenticate_with_client_credentials_def)

text \<open>The first authentication returns exactly when a token was there already, the configuration could
  not be read, or some attempt succeeded; then the tokens that came are in the configuration and in
  the tools' file, and the machine's identity is unchanged.\<close>

theorem initial_authentication_returns:
  assumes "config_read get_access_token E w = (r, w1)"
  shows "(process_authentication E w = None \<longleftrightarrow>
      r = Ok [] \<and> (\<forall>n t. tries (auth_attempt E) w1 n \<noteq> Inr t)) \<and>
    (\<forall>w'. r = Ok [] \<and> process_authentication E w = Some (Ok (), w') \<longrightarrow>
      (\<exists>a t. tokens_of (tk_config w') = Ok (a, t) \<and> tk_shared w' = Some a) \<and>
      identity_of (tk_config w') = identity_of (tk_config w))"
proof -
  have "identity_of (tk_config w') = identity_of (tk_config w1) \<and>
      (\<exists>a t. tokens_of (tk_config w') = Ok (a, t) \<and> tk_shared w' = Some a)" if ends: "auth_loop E w1 = Some w'" for w'
  proof -
    have "identity_of (tk_config s') = identity_of (tk_config s)" if "auth_attempt E s = Inl s'" for s s'
    proof -
      obtain x v where x: "authenticate_with_client_credentials E s = (x, v)" by fastforce
      then show ?thesis using that credentials_path[OF x]
        by (cases x) (auto simp: auth_attempt_def authenticate_initial_credentials saved_or_failed_def)
    qed
    then obtain s where s: "identity_of (tk_config s) = identity_of (tk_config w1)" "auth_attempt E s = Inr w'"
      using authenticating.ends_from_invariant[OF ends, of "\<lambda>s. identity_of (tk_config s) = identity_of (tk_config w1)"]
      by metis
    obtain x v where x: "authenticate_with_client_credentials E s = (x, v)" by fastforce
    then show ?thesis using s credentials_path[OF x]
      by (cases x) (auto simp: auth_attempt_def authenticate_initial_credentials saved_or_failed_def)
  qed
  moreover have "tk_config w1 = tk_config w" using config_read_frame[OF assms] by simp
  moreover have "auth_loop E w1 = None \<longleftrightarrow> (\<forall>n t. tries (auth_attempt E) w1 n \<noteq> Inr t)"
    using authenticating.ends_iff[of E w1] by blast
  ultimately show ?thesis
    using assms by (auto simp: process_authentication_def split: sum.splits if_splits)
qed

section \<open>Events and heartbeats\<close>

text \<open>Every connection but the first is announced to the listeners as a reconnect.\<close>

theorem reconnects_announced:
  "fold on_nats_event events (False, 0) =
     (Connected \<in> set events, length (filter (\<lambda>e. e = Connected) events) - 1)"
proof (induction events rule: rev_induct)
  case (snoc x events)
  have "filter (\<lambda>e. e = Connected) events = [] \<longleftrightarrow> Connected \<notin> set events" by (auto simp: filter_empty_conv)
  then show ?case
    using snoc by (cases "filter (\<lambda>e. e = Connected) events") (auto simp: on_nats_event_def)
qed simp

definition heartbeats :: "io_env \<Rightarrow> config_file \<Rightarrow> heartbeat_outcome list \<Rightarrow> heartbeat_state \<Rightarrow> heartbeat_state" where
  "heartbeats io config outcomes s = fold (\<lambda>o' s. snd (publish_heartbeat io config o' s)) outcomes s"

lemma heartbeat_count_step:
  assumes "m < 60" shows "log_heartbeat (word_of_nat m) = (word_of_nat ((m + 1) mod 60), m = 59)"
proof -
  have u: "unat (word_of_nat m + 1 :: 64 word) = m + 1"
    using assms by (simp add: unat_word_ariths unat_of_nat take_bit_nat_eq_self)
  then have "(60 :: 64 word) \<le> word_of_nat m + 1 \<longleftrightarrow> m = 59" using assms by (simp add: word_le_nat_alt) linarith
  then show ?thesis using assms by (auto simp: log_heartbeat_def HEARTBEAT_LOG_INTERVAL_def)
qed

text \<open>However many heartbeats fail in between, every sixtieth one sent is logged as a summary: the
  counter is the number sent modulo sixty, and the summaries are that number divided by sixty.\<close>

theorem heartbeat_summaries:
  assumes "get_machine_id io config = Ok machine_id" "hb_count s = 0" "hb_summaries s = 0"
  shows "let n = length (filter (\<lambda>o'. o' = HeartbeatSent) outcomes); t = heartbeats io config outcomes s in
    hb_count t = word_of_nat (n mod 60) \<and> hb_summaries t = n div 60 \<and>
    hb_topics t = hb_topics s @ replicate n (heartbeat_topic machine_id)"
proof (induction outcomes rule: rev_induct)
  case Nil
  then show ?case using assms by (simp add: heartbeats_def)
next
  case (snoc x outcomes)
  define n where "n = length (filter (\<lambda>o'. o' = HeartbeatSent) outcomes)"
  have step: "heartbeats io config (outcomes @ [x]) s = snd (publish_heartbeat io config x (heartbeats io config outcomes s))"
    by (simp add: heartbeats_def)
  have "log_heartbeat (word_of_nat (n mod 60)) = (word_of_nat ((n mod 60 + 1) mod 60), n mod 60 = 59)"
    by (rule heartbeat_count_step) simp
  then have log: "log_heartbeat (word_of_nat (n mod 60)) = (word_of_nat (Suc n mod 60), n mod 60 = 59)"
    by (simp add: mod_Suc_eq)
  have "Suc n div 60 = n div 60 + (if n mod 60 = 59 then 1 else 0)" by (simp add: div_Suc mod_Suc)
  then show ?case
    using snoc step assms(1) log
    by (auto simp: n_def[symmetric] publish_heartbeat_def Let_def replicate_append_same)
qed

section \<open>Concrete agents\<close>

definition sample_reading :: reading where
  "sample_reading = \<lparr> rd_now = 0, rd_mono = 0, rd_write_ok = True \<rparr>"

definition sample_tokens :: "nat \<Rightarrow> token_env" where
  "sample_tokens status = \<lparr> te_enabled = True, te_answer = (\<lambda>_. Answered status (Some ''b'')), te_reading = (\<lambda>_. sample_reading),
     te_cut = (\<lambda>_. False), te_io = (\<lambda>_. io_ok), te_tokens = (\<lambda>_. Some (''a1'', ''r1'')), te_encrypt_ok = (\<lambda>_. True),
     te_shared_ok = (\<lambda>_. True), te_now = (\<lambda>_. 0), te_claim = (\<lambda>_. None) \<rparr>"

definition sample_token_world :: "string \<Rightarrow> deactivation \<Rightarrow> token_world" where
  "sample_token_world access d = \<lparr> tk_config = Content (default_configuration \<lparr> ac_machine_id := ''m1'', ac_access_token := access \<rparr>),
     tk_shared = None, tk_deact = d, tk_requests = [], tk_sleeps = [], tk_clock = 0 \<rparr>"

definition healthy_agent :: deactivation where "healthy_agent = new_deactivation True None 0"

definition suspended_agent :: deactivation where
  "suspended_agent = healthy_agent \<lparr> da_suspended := True, da_phase := Suspended, da_consecutive_gone := 5 \<rparr>"

lemma sample_answering: "P status \<Longrightarrow> answering (sample_tokens status) P"
  by (simp add: answering_def sample_tokens_def)

lemma reauthenticate_contract_witness:
  "tk_shared (snd (reauthenticate (sample_tokens 200) (sample_token_world [] healthy_agent))) = Some ''a1''"
proof -
  have "fst (reauthenticate (sample_tokens 200) (sample_token_world [] healthy_agent)) = Ok (''a1'', ''r1'')" by code_simp
  then obtain w' where r: "reauthenticate (sample_tokens 200) (sample_token_world [] healthy_agent) = (Ok (''a1'', ''r1''), w')"
    by (cases "reauthenticate (sample_tokens 200) (sample_token_world [] healthy_agent)") auto
  then show ?thesis using reauthenticate_contract[OF r] by simp
qed

lemma shared_token_can_lag_witness:
  "let E = sample_tokens 200; w2 = snd (save_config_tokens E (''b'', ''s'')
       (snd (save_config_tokens E (''a'', ''r'') (sample_token_world [] healthy_agent))));
     w4 = snd (shared_update E ''a'' (snd (shared_update E ''b'' w2))) in
   tokens_of (tk_config w4) = Ok (''b'', ''s'') \<and> tk_shared w4 = Some ''a''"
proof -
  let ?E = "sample_tokens 200"
  have save: "\<exists>v'. save_config_tokens ?E p v = (Ok (), v') \<and> tk_config v' \<noteq> Corrupt" if "tk_config v \<noteq> Corrupt" for p v
    using that by (cases "tk_config v") (auto simp: save_config_tokens_def and_do_def await_point_def sample_tokens_def
        update_tokens_def config_get_def read_file_def write_atomically_def)
  have share: "\<exists>v'. shared_update ?E t v = (Ok (), v')" for t v by (simp add: shared_update_def sample_tokens_def)
  obtain w1 where w1: "save_config_tokens ?E (''a'', ''r'') (sample_token_world [] healthy_agent) = (Ok (), w1)" "tk_config w1 \<noteq> Corrupt"
    using save[of "sample_token_world [] healthy_agent"] by (auto simp: sample_token_world_def)
  obtain w2 where w2: "save_config_tokens ?E (''b'', ''s'') w1 = (Ok (), w2)" using save[OF w1(2)] by blast
  obtain w3 where w3: "shared_update ?E (fst (''b'', ''s'')) w2 = (Ok (), w3)" using share by blast
  obtain w4 where w4: "shared_update ?E (fst (''a'', ''r'')) w3 = (Ok (), w4)" using share by blast
  from shared_token_can_lag[OF w1(1) w2 w3 w4] show ?thesis using w1 w2 w3 w4 by simp
qed

lemma refresh_is_in_time_witness: "secs_until_refresh 1000 100 = 600 \<and> secs_until_refresh 300 100 = 185"
  using refresh_is_in_time[of 1000 100] refresh_is_in_time[of 300 100] by (simp add: fits_i64_def Let_def)

lemma undecodable_token_waits_witness:
  "next_refresh_delay (sample_tokens 200) (sample_token_world ''x.y.z'' healthy_agent) = 1800"
proof -
  have "get_access_token (te_io (sample_tokens 200) (tk_clock (sample_token_world ''x.y.z'' healthy_agent)))
      (tk_config (sample_token_world ''x.y.z'' healthy_agent)) = Ok ''x.y.z''"
    "token_exp_unix (te_claim (sample_tokens 200)) ''x.y.z'' = None"
    by code_simp+
  from undecodable_token_waits[OF this] show ?thesis by simp
qed

lemma three_refusals_suspend_witness:
  "\<exists>w3. refresh_turn (sample_tokens 410) id (refresh_turn (sample_tokens 410) id
     (refresh_turn (sample_tokens 410) id (AtTop, sample_token_world [] healthy_agent))) = (AtTop, w3) \<and> tk_suspended w3"
proof -
  have "answering (sample_tokens 410) is_gone" by (rule sample_answering) (simp add: is_gone_def)
  moreover have "tk_config (sample_token_world [] healthy_agent) \<noteq> Corrupt"
    "counting (tk_deact (sample_token_world [] healthy_agent)) 0"
    by (simp_all add: sample_token_world_def counting_def healthy_agent_def new_deactivation_def)
  ultimately show ?thesis using three_refusals_suspend by fastforce
qed

lemma probe_recovers_witness:
  "\<not> tk_suspended (snd (refresh_turn (sample_tokens 204) id (AtTop, sample_token_world [] suspended_agent)))"
proof -
  have "answering (sample_tokens 204) is_success" by (rule sample_answering) (simp add: is_success_def)
  then show ?thesis
    by (rule probe_recovers) (simp_all add: sample_token_world_def suspended_agent_def healthy_agent_def
        new_deactivation_def tk_suspended_def is_suspended_def)
qed

lemma initial_authentication_returns_witness:
  "process_authentication (sample_tokens 200) (sample_token_world [] healthy_agent) \<noteq> None"
proof -
  let ?w = "sample_token_world [] healthy_agent"
  have c: "config_read get_access_token (sample_tokens 200) ?w = (Ok [], tk_tick ?w)" by code_simp
  have "isl (auth_attempt (sample_tokens 200) (tk_tick ?w)) = False" by code_simp
  then obtain t where "tries (auth_attempt (sample_tokens 200)) (tk_tick ?w) 0 = Inr t"
    by (cases "auth_attempt (sample_tokens 200) (tk_tick ?w)") auto
  then show ?thesis using conjunct1[OF initial_authentication_returns[OF c]] by blast
qed

lemma heartbeat_summaries_witness:
  "hb_count (heartbeats io_ok (Content (default_configuration \<lparr> ac_machine_id := ''m'' \<rparr>))
     [HeartbeatSent, HeartbeatTimedOut, HeartbeatSent] \<lparr> hb_count = 0, hb_topics = [], hb_summaries = 0 \<rparr>) = 2"
proof -
  have m: "get_machine_id io_ok (Content (default_configuration \<lparr> ac_machine_id := ''m'' \<rparr>)) = Ok ''m''" by code_simp
  show ?thesis
    using heartbeat_summaries[OF m, where s = "\<lparr> hb_count = 0, hb_topics = [], hb_summaries = 0 \<rparr>" and
        outcomes = "[HeartbeatSent, HeartbeatTimedOut, HeartbeatSent]"] by (simp add: Let_def)
qed

end
