(* ===== verification/ScriptOutput.thy ===== *)
theory ScriptOutput
  imports MeshHeal "HOL-Library.Sublist"
begin

text \<open>The text a script prints (executor/output.rs): the bytes read up to a cap, and clean\_string, which
  makes a Rust string of them. The validation of UTF-8 is the one of the standard library
  (str::from\_utf8: how far the bytes are valid, and how many make up the first error); the section
  after it relates the validation to the encoding of code points.\<close>

section \<open>Validation of UTF-8\<close>

text \<open>One step: a scalar of so many bytes, so many bytes that are none, or an end in the middle of one.\<close>

datatype utf8_step = Scalar nat | InvalidBytes nat | Incomplete

definition byte_in :: "char \<Rightarrow> nat \<Rightarrow> nat \<Rightarrow> bool" where
  "byte_in c lo hi \<longleftrightarrow> lo \<le> (of_char c :: nat) \<and> (of_char c :: nat) \<le> hi"

abbreviation continuation :: "char \<Rightarrow> bool" where "continuation c \<equiv> byte_in c 0x80 0xBF"

definition second_ok :: "char \<Rightarrow> char \<Rightarrow> bool" where
  "second_ok a b \<longleftrightarrow>
    (if byte_in a 0xE0 0xE0 then byte_in b 0xA0 0xBF
     else if byte_in a 0xED 0xED then byte_in b 0x80 0x9F
     else if byte_in a 0xF0 0xF0 then byte_in b 0x90 0xBF
     else if byte_in a 0xF4 0xF4 then byte_in b 0x80 0x8F
     else continuation b)"

definition utf8_width :: "char \<Rightarrow> nat" where
  "utf8_width a =
    (if byte_in a 0x00 0x7F then 1 else if byte_in a 0xC2 0xDF then 2
     else if byte_in a 0xE0 0xEF then 3 else if byte_in a 0xF0 0xF4 then 4 else 0)"

lemma utf8_width_cases: "utf8_width a \<in> {0, 1, 2, 3, 4}"
  by (simp add: utf8_width_def)

fun utf8_head :: "string \<Rightarrow> utf8_step" where
  "utf8_head [] = Incomplete"
| "utf8_head (a # s) =
    (if utf8_width a = 0 then InvalidBytes 1
     else if utf8_width a = 1 then Scalar 1
     else case s of
         [] \<Rightarrow> Incomplete
       | b # t \<Rightarrow>
           if \<not> second_ok a b then InvalidBytes 1
           else if utf8_width a = 2 then Scalar 2
           else (case t of
               [] \<Rightarrow> Incomplete
             | c # u \<Rightarrow>
                 if \<not> continuation c then InvalidBytes 2
                 else if utf8_width a = 3 then Scalar 3
                 else (case u of
                     [] \<Rightarrow> Incomplete
                   | d # _ \<Rightarrow> if continuation d then Scalar 4 else InvalidBytes 3)))"

lemma utf8_head_bounds:
  "utf8_head s = Scalar n \<Longrightarrow> 0 < n \<and> n \<le> length s"
  "utf8_head s = InvalidBytes n \<Longrightarrow> 0 < n \<and> n \<le> length s"
  by (cases s; auto split: if_splits list.splits)+

text \<open>How far the bytes are valid, and, if that is not to the end, the length of the first error, or
  nothing when the bytes end too early.\<close>

function from_utf8 :: "string \<Rightarrow> nat \<times> nat option option" where
  "from_utf8 s =
    (if s = [] then (0, None)
     else case utf8_head s of
         Scalar n \<Rightarrow> (case from_utf8 (drop n s) of (v, e) \<Rightarrow> (n + v, e))
       | InvalidBytes n \<Rightarrow> (0, Some (Some n))
       | Incomplete \<Rightarrow> (0, Some None))"
  by pat_completeness auto
termination by (relation "measure length") (use utf8_head_bounds in fastforce)+

declare from_utf8.simps [simp del]

lemma from_utf8_empty [simp]: "from_utf8 [] = (0, None)"
  by (simp add: from_utf8.simps)

lemma from_utf8_scalar:
  "utf8_head s = Scalar n \<Longrightarrow> from_utf8 s = (n + fst (from_utf8 (drop n s)), snd (from_utf8 (drop n s)))"
  by (subst from_utf8.simps) (auto split: prod.splits)

lemma from_utf8_stops:
  "s \<noteq> [] \<Longrightarrow> utf8_head s = InvalidBytes n \<Longrightarrow> from_utf8 s = (0, Some (Some n))"
  "s \<noteq> [] \<Longrightarrow> utf8_head s = Incomplete \<Longrightarrow> from_utf8 s = (0, Some None)"
  by (subst from_utf8.simps; simp)+

lemma from_utf8_bounds:
  "fst (from_utf8 s) \<le> length s"
  "snd (from_utf8 s) = Some (Some n) \<Longrightarrow> 0 < n \<and> fst (from_utf8 s) + n \<le> length s"
proof (induction s rule: from_utf8.induct)
  case (1 s)
  {
    case 1
    show ?case
      by (cases "utf8_head s"; cases "s = []")
        (use "1.IH"(1) utf8_head_bounds(1)[of s] in \<open>fastforce simp: from_utf8_scalar from_utf8_stops\<close>)+
  next
    case 2
    then show ?case
      by (cases "utf8_head s"; cases "s = []")
        (use "1.IH"(2) utf8_head_bounds[of s] in \<open>fastforce simp: from_utf8_scalar from_utf8_stops\<close>)+
  }
qed

definition is_utf8 :: "string \<Rightarrow> bool" where
  "is_utf8 s \<longleftrightarrow> snd (from_utf8 s) = None"

lemma is_utf8_empty [simp]: "is_utf8 []"
  by (simp add: is_utf8_def)

lemma is_utf8_scalar: "utf8_head s = Scalar n \<Longrightarrow> is_utf8 s = is_utf8 (drop n s)"
  by (simp add: is_utf8_def from_utf8_scalar)

lemma valid_up_to_end: "is_utf8 s \<Longrightarrow> fst (from_utf8 s) = length s"
proof (induction s rule: from_utf8.induct)
  case (1 s)
  then show ?case
    by (cases "utf8_head s"; cases "s = []")
      (use utf8_head_bounds(1)[of s] in \<open>auto simp: from_utf8_scalar from_utf8_stops is_utf8_def\<close>)
qed

section \<open>UTF-8 as the encoding of code points\<close>

definition is_scalar :: "nat \<Rightarrow> bool" where
  "is_scalar c \<longleftrightarrow> c < 0x110000 \<and> \<not> (0xD800 \<le> c \<and> c < 0xE000)"

definition encode_scalar :: "nat \<Rightarrow> string" where
  "encode_scalar c =
    (if c < 0x80 then [char_of c]
     else if c < 0x800 then [char_of (0xC0 + c div 64), char_of (0x80 + c mod 64)]
     else if c < 0x10000 then
       [char_of (0xE0 + c div 4096), char_of (0x80 + c div 64 mod 64), char_of (0x80 + c mod 64)]
     else [char_of (0xF0 + c div 262144), char_of (0x80 + c div 4096 mod 64),
       char_of (0x80 + c div 64 mod 64), char_of (0x80 + c mod 64)])"

lemma byte_in_char_of [simp]: "n < 256 \<Longrightarrow> byte_in (char_of n) lo hi \<longleftrightarrow> lo \<le> n \<and> n \<le> hi"
  by (simp add: byte_in_def)

lemma utf8_head_encode:
  assumes "is_scalar c"
  shows "utf8_head (encode_scalar c @ t) = Scalar (length (encode_scalar c))"
proof -
  consider "c < 0x80" | "0x80 \<le> c" "c < 0x800" | "0x800 \<le> c" "c < 0x10000" | "0x10000 \<le> c" "c < 0x110000"
    using assms unfolding is_scalar_def by linarith
  then show ?thesis
  proof cases
    case 1
    then show ?thesis by (simp add: encode_scalar_def utf8_width_def)
  next
    case 2
    then have "0xC2 \<le> 0xC0 + c div 64" "0xC0 + c div 64 \<le> 0xDF" "c mod 64 < 64" by auto
    then show ?thesis using 2 by (simp add: encode_scalar_def utf8_width_def second_ok_def)
  next
    case 3
    define y where "y = c div 64"
    have "64 * y \<le> c" "c < 64 * y + 64" unfolding y_def by linarith+
    moreover have "c < 0xD800 \<or> 0xE000 \<le> c" using assms unfolding is_scalar_def by auto
    ultimately have y: "32 \<le> y" "y < 1024" "y < 0x360 \<or> 0x380 \<le> y"
      using 3 by (linarith, linarith, elim disjE, linarith, linarith)
    have y4: "c div 4096 = y div 64" by (simp add: y_def div_mult2_eq[symmetric])
    have q: "y = 64 * (y div 64) + y mod 64" "y mod 64 < 64" by simp_all
    have "y div 64 \<le> 15" using y(2) by simp
    moreover have "y div 64 = 0 \<Longrightarrow> 32 \<le> y mod 64" using y(1) q by simp
    moreover have "y div 64 = 13 \<Longrightarrow> y mod 64 \<le> 31" using y(3) q by auto
    moreover have "c mod 64 < 64" "y mod 64 < 64" by simp_all
    ultimately show ?thesis
      using 3 by (auto simp: encode_scalar_def utf8_width_def second_ok_def y4 y_def[symmetric])
  next
    case 4
    define x where "x = c div 4096"
    have "4096 * x \<le> c" "c < 4096 * x + 4096" unfolding x_def by linarith+
    then have x: "16 \<le> x" "x < 272" "c div 262144 = x div 64"
      using 4 by (linarith, linarith, simp add: x_def div_mult2_eq[symmetric])
    have q: "x = 64 * (x div 64) + x mod 64" by simp
    have "x div 64 \<le> 4" using x(2) by simp
    moreover have "x div 64 = 0 \<Longrightarrow> 16 \<le> x mod 64" using x(1) q by simp
    moreover have "x div 64 = 4 \<Longrightarrow> x mod 64 \<le> 15" using x(2) q by linarith
    moreover have "c mod 64 < 64" "c div 64 mod 64 < 64" "x mod 64 < 64" by simp_all
    ultimately show ?thesis
      using 4 by (auto simp: encode_scalar_def utf8_width_def second_ok_def x(3) x_def[symmetric])
  qed
qed

lemma digit: "d < 64 \<Longrightarrow> (n * 64 + d) div 64 = n" "d < 64 \<Longrightarrow> (n * 64 + d) mod 64 = (d :: nat)"
  by simp_all

lemma utf8_head_decode:
  assumes "utf8_head s = Scalar n"
  shows "\<exists>c. is_scalar c \<and> take n s = encode_scalar c"
proof -
  obtain a r where s: "s = a # r" using assms by (cases s) auto
  let ?a = "of_char a :: nat"
  have w: "utf8_width a = n" "0 < n"
    using assms s utf8_width_cases[of a] by (auto split: if_splits list.splits)
  then consider "n = 1" "?a < 0x80" | "n = 2" "0xC2 \<le> ?a" "?a \<le> 0xDF" | "n = 3" "0xE0 \<le> ?a" "?a \<le> 0xEF"
    | "n = 4" "0xF0 \<le> ?a" "?a \<le> 0xF4"
    by (auto simp: utf8_width_def byte_in_def split: if_splits)
  then show ?thesis
  proof cases
    case 1
    then show ?thesis using s by (intro exI[of _ ?a]) (simp add: is_scalar_def encode_scalar_def)
  next
    case 2
    then obtain b t where r: "r = b # t" "continuation b"
      using assms s w by (auto simp: second_ok_def byte_in_def split: if_splits list.splits)
    define x y where d: "x = ?a - 0xC0" "y = (of_char b - 0x80 :: nat)"
    have bounds: "2 \<le> x" "x < 32" "y < 64" and chars: "a = char_of (0xC0 + x)" "b = char_of (0x80 + y)"
      using r(2) 2 by (auto simp: d byte_in_def)
    have "(x * 64 + y) div 64 = x" "(x * 64 + y) mod 64 = y" using bounds by simp_all
    then show ?thesis using s r(1) 2(1) bounds
      by (intro exI[of _ "x * 64 + y"]) (simp add: is_scalar_def encode_scalar_def chars)
  next
    case 3
    then obtain b c t where r: "r = b # c # t" "second_ok a b" "continuation c"
      using assms s w by (auto split: if_splits list.splits)
    have b: "continuation b" "?a = 0xE0 \<longrightarrow> 0xA0 \<le> (of_char b :: nat)" "?a = 0xED \<longrightarrow> (of_char b :: nat) \<le> 0x9F"
      using r(2) by (auto simp: second_ok_def byte_in_def split: if_splits)
    define x y z where d: "x = ?a - 0xE0" "y = (of_char b - 0x80 :: nat)" "z = (of_char c - 0x80 :: nat)"
    have bounds: "x < 16" "y < 64" "z < 64" "x = 0 \<Longrightarrow> 32 \<le> y" "x = 13 \<Longrightarrow> y < 32"
      and chars: "a = char_of (0xE0 + x)" "b = char_of (0x80 + y)" "c = char_of (0x80 + z)"
      using r(3) b 3 by (auto simp: d byte_in_def)
    let ?c = "(x * 64 + y) * 64 + z"
    have "?c div 64 = x * 64 + y" "?c mod 64 = z" "(x * 64 + y) div 64 = x" "(x * 64 + y) mod 64 = y"
      using bounds by (simp_all only: digit)
    moreover have "?c div 4096 = ?c div 64 div 64" by (simp add: div_mult2_eq[symmetric])
    moreover have "0x800 \<le> ?c" "?c < 0x10000" "\<not> (0xD800 \<le> ?c \<and> ?c < 0xE000)"
      using bounds by (cases "x = 0"; cases "x < 13"; cases "x = 13"; auto)+
    ultimately show ?thesis using s r(1) 3(1)
      by (intro exI[of _ ?c]) (simp add: is_scalar_def encode_scalar_def chars)
  next
    case 4
    then obtain b c d t where r: "r = b # c # d # t" "second_ok a b" "continuation c" "continuation d"
      using assms s w by (auto split: if_splits list.splits)
    have b: "continuation b" "?a = 0xF0 \<longrightarrow> 0x90 \<le> (of_char b :: nat)" "?a = 0xF4 \<longrightarrow> (of_char b :: nat) \<le> 0x8F"
      using r(2) by (auto simp: second_ok_def byte_in_def split: if_splits)
    define w x y z where d: "w = ?a - 0xF0" "x = (of_char b - 0x80 :: nat)" "y = (of_char c - 0x80 :: nat)"
      "z = (of_char d - 0x80 :: nat)"
    have bounds: "w \<le> 4" "x < 64" "y < 64" "z < 64" "w = 0 \<Longrightarrow> 16 \<le> x" "w = 4 \<Longrightarrow> x < 16"
      and chars: "a = char_of (0xF0 + w)" "b = char_of (0x80 + x)" "c = char_of (0x80 + y)" "d = char_of (0x80 + z)"
      using r(3,4) b 4 by (auto simp: d byte_in_def)
    let ?c = "((w * 64 + x) * 64 + y) * 64 + z"
    have "?c div 64 = (w * 64 + x) * 64 + y" "?c mod 64 = z" "((w * 64 + x) * 64 + y) div 64 = w * 64 + x"
        "((w * 64 + x) * 64 + y) mod 64 = y" "(w * 64 + x) div 64 = w" "(w * 64 + x) mod 64 = x"
      using bounds by (simp_all only: digit)
    moreover have "?c div 4096 = ?c div 64 div 64" "?c div 262144 = ?c div 64 div 64 div 64"
      by (simp_all add: div_mult2_eq[symmetric])
    moreover have "0x10000 \<le> ?c" "?c < 0x110000" using bounds by (cases "w = 0"; cases "w = 4"; auto)+
    ultimately show ?thesis using s r(1) 4(1)
      by (intro exI[of _ ?c]) (simp add: is_scalar_def encode_scalar_def chars)
  qed
qed

lemma utf8_head_prefix:
  assumes "utf8_head s = Scalar n"
  shows "utf8_head (take n s @ t) = Scalar n"
proof -
  obtain c where "is_scalar c" "take n s = encode_scalar c" using utf8_head_decode[OF assms] by blast
  then show ?thesis
    using utf8_head_encode[of c t] utf8_head_bounds(1)[OF assms] by (metis length_take min.absorb2)
qed

lemma is_utf8_append: "is_utf8 a \<Longrightarrow> is_utf8 (a @ b) = is_utf8 b"
proof (induction a rule: from_utf8.induct)
  case (1 a)
  show ?case
  proof (cases "utf8_head a")
    case (Scalar n)
    note n = utf8_head_bounds(1)[OF Scalar]
    have "utf8_head (a @ b) = Scalar n" using utf8_head_prefix[OF Scalar, of "drop n a @ b"]
      by (simp only: append_assoc[symmetric] append_take_drop_id)
    then have "is_utf8 (a @ b) = is_utf8 (drop n a @ b)" using is_utf8_scalar n by simp
    moreover have "a \<noteq> []" using n by auto
    ultimately show ?thesis using "1.IH"[OF _ Scalar] "1.prems" is_utf8_scalar[OF Scalar] by simp
  qed (use "1.prems" in \<open>cases "a = []"; simp add: is_utf8_def from_utf8_stops\<close>)+
qed

lemma encode_scalar_utf8: "is_scalar c \<Longrightarrow> is_utf8 (encode_scalar c)"
  using is_utf8_scalar[OF utf8_head_encode[of c "[]"]] by simp

text \<open>The validation accepts exactly the encodings of sequences of code points.\<close>

lemma is_utf8_iff:
  "is_utf8 s \<longleftrightarrow> (\<exists>cs. (\<forall>c \<in> set cs. is_scalar c) \<and> s = concat (map encode_scalar cs))"
proof
  show "is_utf8 s \<Longrightarrow> \<exists>cs. (\<forall>c \<in> set cs. is_scalar c) \<and> s = concat (map encode_scalar cs)"
  proof (induction s rule: from_utf8.induct)
    case (1 s)
    show ?case
    proof (cases "utf8_head s")
      case (Scalar n)
      then have "s \<noteq> []" by auto
      then obtain cs where cs: "\<forall>c \<in> set cs. is_scalar c" "drop n s = concat (map encode_scalar cs)"
        using "1.IH"[OF _ Scalar] "1.prems" is_utf8_scalar[OF Scalar] by blast
      obtain c where c: "is_scalar c" "take n s = encode_scalar c" using utf8_head_decode[OF Scalar] by blast
      have "s = concat (map encode_scalar (c # cs))" using cs(2) c(2) append_take_drop_id[of n s] by simp
      then show ?thesis using cs(1) c(1) by (intro exI[of _ "c # cs"]) auto
    next
      case (InvalidBytes n)
      then show ?thesis using "1.prems" utf8_head_bounds(2)[OF InvalidBytes]
        by (cases "s = []") (simp_all add: is_utf8_def from_utf8_stops)
    next
      case Incomplete
      then have "s = []" using "1.prems" by (cases "s = []") (simp_all add: is_utf8_def from_utf8_stops)
      then show ?thesis by (intro exI[of _ "[]"]) simp
    qed
  qed
next
  have "is_utf8 (concat (map encode_scalar cs))" if "\<forall>c \<in> set cs. is_scalar c" for cs
    using that by (induction cs) (simp_all add: is_utf8_append encode_scalar_utf8)
  then show "\<exists>cs. (\<forall>c \<in> set cs. is_scalar c) \<and> s = concat (map encode_scalar cs) \<Longrightarrow> is_utf8 s" by blast
qed

text \<open>The code points of a text, and a number in decimal.\<close>

definition decode_scalar :: "string \<Rightarrow> nat" where
  "decode_scalar s =
    (case map of_char s of
       [a] \<Rightarrow> a
     | [a, b] \<Rightarrow> (a - 0xC0) * 64 + (b - 0x80)
     | [a, b, c] \<Rightarrow> ((a - 0xE0) * 64 + (b - 0x80)) * 64 + (c - 0x80)
     | [a, b, c, d] \<Rightarrow> (((a - 0xF0) * 64 + (b - 0x80)) * 64 + (c - 0x80)) * 64 + (d - 0x80)
     | _ \<Rightarrow> 0)"

function code_points :: "string \<Rightarrow> nat list" where
  "code_points s =
    (if s = [] then []
     else case utf8_head s of
         Scalar n \<Rightarrow> decode_scalar (take n s) # code_points (drop n s)
       | _ \<Rightarrow> [])"
  by pat_completeness auto
termination by (relation "measure length") (use utf8_head_bounds in fastforce)+

declare code_points.simps [simp del]

lemma decode_bytes:
  "w < 5 \<Longrightarrow> x < 64 \<Longrightarrow> y < 64 \<Longrightarrow> z < 64 \<Longrightarrow>
     decode_scalar [char_of (0xF0 + w), char_of (0x80 + x), char_of (0x80 + y), char_of (0x80 + z)]
       = ((w * 64 + x) * 64 + y) * 64 + z"
  "v < 16 \<Longrightarrow> y < 64 \<Longrightarrow> z < 64 \<Longrightarrow>
     decode_scalar [char_of (0xE0 + v), char_of (0x80 + y), char_of (0x80 + z)] = (v * 64 + y) * 64 + z"
  "u < 32 \<Longrightarrow> z < 64 \<Longrightarrow> decode_scalar [char_of (0xC0 + u), char_of (0x80 + z)] = u * 64 + z"
  "t < 128 \<Longrightarrow> decode_scalar [char_of t] = t"
  by (simp_all add: decode_scalar_def)

lemma decode_encode_scalar: "is_scalar c \<Longrightarrow> decode_scalar (encode_scalar c) = c"
proof -
  assume "is_scalar c"
  then have c: "c < 0x110000" by (simp add: is_scalar_def)
  let ?b = "c div 64" and ?a = "c div 64 div 64"
  have div: "c div 4096 = ?a" "c div 262144 = ?a div 64" by (simp_all add: div_mult2_eq[symmetric])
  have mods: "c mod 64 < 64" "?b mod 64 < 64" "?a mod 64 < 64" by simp_all
  have one: "?b * 64 + c mod 64 = c" and two: "?a * 64 + ?b mod 64 = ?b" and three: "?a div 64 * 64 + ?a mod 64 = ?a"
    by (rule div_mult_mod_eq)+
  consider "c < 0x80" | "0x80 \<le> c" "c < 0x800" | "0x800 \<le> c" "c < 0x10000" | "0x10000 \<le> c"
    by linarith
  then show ?thesis
  proof cases
    case 1
    then show ?thesis by (simp only: encode_scalar_def if_True decode_bytes(4))
  next
    case 2
    then have "encode_scalar c = [char_of (0xC0 + ?b), char_of (0x80 + c mod 64)]" by (simp add: encode_scalar_def)
    moreover have "?b < 32" using 2 by linarith
    ultimately show ?thesis using decode_bytes(3)[OF _ mods(1)] one by metis
  next
    case 3
    then have "encode_scalar c = [char_of (0xE0 + ?a), char_of (0x80 + ?b mod 64), char_of (0x80 + c mod 64)]"
      using div by (simp add: encode_scalar_def)
    moreover have "?a < 16" using 3 by linarith
    ultimately show ?thesis using decode_bytes(2)[OF _ mods(2,1)] one two by metis
  next
    case 4
    then have "encode_scalar c = [char_of (0xF0 + ?a div 64), char_of (0x80 + ?a mod 64),
        char_of (0x80 + ?b mod 64), char_of (0x80 + c mod 64)]"
      unfolding encode_scalar_def div by simp
    moreover have "?a div 64 < 5" using c by linarith
    ultimately show ?thesis using decode_bytes(1)[OF _ mods(3,2,1)] one two three by metis
  qed
qed

lemma code_points_encode:
  "\<forall>c \<in> set cs. is_scalar c \<Longrightarrow> code_points (concat (map encode_scalar cs)) = cs"
proof (induction cs)
  case Nil
  then show ?case by (simp add: code_points.simps)
next
  case (Cons c cs)
  let ?s = "encode_scalar c @ concat (map encode_scalar cs)"
  have h: "utf8_head ?s = Scalar (length (encode_scalar c))" using Cons.prems by (intro utf8_head_encode) simp
  then have "?s \<noteq> []" using utf8_head_bounds(1)[OF h] by (metis le_zero_eq length_0_conv not_gr_zero)
  then have "code_points ?s = decode_scalar (encode_scalar c) # code_points (concat (map encode_scalar cs))"
    using h by (subst code_points.simps) simp
  then show ?case using Cons decode_encode_scalar by simp
qed

lemma utf8_code_points:
  assumes "is_utf8 s"
  shows "\<forall>c \<in> set (code_points s). is_scalar c" "concat (map encode_scalar (code_points s)) = s"
proof -
  obtain cs where cs: "\<forall>c \<in> set cs. is_scalar c" "s = concat (map encode_scalar cs)"
    using assms unfolding is_utf8_iff by blast
  then have "code_points s = cs" using code_points_encode by blast
  then show "\<forall>c \<in> set (code_points s). is_scalar c" "concat (map encode_scalar (code_points s)) = s"
    using cs by simp_all
qed

fun decimal :: "nat \<Rightarrow> string" where
  "decimal n = (if n < 10 then [char_of (48 + n)] else decimal (n div 10) @ [char_of (48 + n mod 10)])"

declare decimal.simps [simp del]

lemma valid_prefix_utf8: "is_utf8 (take (fst (from_utf8 s)) s)"
proof (induction s rule: from_utf8.induct)
  case (1 s)
  show ?case
  proof (cases "utf8_head s")
    case (Scalar n)
    note n = utf8_head_bounds(1)[OF Scalar]
    have "take (fst (from_utf8 s)) s = take n s @ take (fst (from_utf8 (drop n s))) (drop n s)"
      by (simp add: from_utf8_scalar[OF Scalar] take_add)
    moreover have "is_utf8 (take n s @ [])"
      using is_utf8_scalar[OF utf8_head_prefix[OF Scalar, of "[]"]] by simp
    moreover have "s \<noteq> []" using n by auto
    ultimately show ?thesis using "1.IH"[OF _ Scalar] by (simp add: is_utf8_append)
  qed (cases "s = []"; simp add: from_utf8_stops)+
qed

section \<open>Reading and cleaning\<close>

definition MAX_OUTPUT_SIZE :: nat where "MAX_OUTPUT_SIZE = 10 * 1024 * 1024"

text \<open>What is read of a stream that is there; the rest is drained.\<close>

definition read_capped :: "string option \<Rightarrow> string" where
  "read_capped reader = (case reader of None \<Rightarrow> [] | Some bytes \<Rightarrow> take MAX_OUTPUT_SIZE bytes)"

text \<open>The cut goes back over continuation bytes.\<close>

fun back_to_boundary :: "string \<Rightarrow> nat \<Rightarrow> nat" where
  "back_to_boundary bytes 0 = 0"
| "back_to_boundary bytes (Suc e) =
     (if continuation (bytes ! Suc e) then back_to_boundary bytes e else Suc e)"

text \<open>What is valid is kept, what is not is skipped, an unfinished end is dropped.\<close>

function clean_loop :: "string \<Rightarrow> string" where
  "clean_loop rest =
    (case from_utf8 rest of
       (v, None) \<Rightarrow> take v rest
     | (v, Some (Some len)) \<Rightarrow> take v rest @ clean_loop (drop (v + len) rest)
     | (v, Some None) \<Rightarrow> take v rest)"
  by pat_completeness auto
termination
proof (relation "measure length", simp)
  fix rest v e and oo :: "nat option" and len
  assume "(v, e) = from_utf8 rest" "e = Some oo" "oo = Some len"
  then have "0 < len" "v + len \<le> length rest" using from_utf8_bounds(2)[of rest len] by (metis fst_conv snd_conv)+
  then show "(drop (v + len) rest, rest) \<in> measure length" by simp
qed

declare clean_loop.simps [simp del]

definition clean_string :: "string \<Rightarrow> string" where
  "clean_string bytes =
    (let capped = (if MAX_OUTPUT_SIZE < length bytes
                   then take (back_to_boundary bytes MAX_OUTPUT_SIZE) bytes else bytes) in
     clean_loop (filter (\<lambda>b. b \<noteq> CHR 0x00) capped))"

text \<open>String::from\_utf8\_lossy: what is not valid is a replacement character.\<close>

definition REPLACEMENT :: string where "REPLACEMENT = [CHR 0xEF, CHR 0xBF, CHR 0xBD]"

function from_utf8_lossy :: "string \<Rightarrow> string" where
  "from_utf8_lossy rest =
    (case from_utf8 rest of
       (v, None) \<Rightarrow> take v rest
     | (v, Some (Some len)) \<Rightarrow> take v rest @ REPLACEMENT @ from_utf8_lossy (drop (v + len) rest)
     | (v, Some None) \<Rightarrow> take v rest @ REPLACEMENT)"
  by pat_completeness auto
termination
proof (relation "measure length", simp)
  fix rest v e and oo :: "nat option" and len
  assume "(v, e) = from_utf8 rest" "e = Some oo" "oo = Some len"
  then have "0 < len" "v + len \<le> length rest" using from_utf8_bounds(2)[of rest len] by (metis fst_conv snd_conv)+
  then show "(drop (v + len) rest, rest) \<in> measure length" by simp
qed

declare from_utf8_lossy.simps [simp del]

lemma clean_loop_utf8: "is_utf8 (clean_loop rest) \<and> subseq (clean_loop rest) rest"
proof (induction rest rule: clean_loop.induct)
  case (1 rest)
  obtain v e where f: "from_utf8 rest = (v, e)" by fastforce
  then have v: "is_utf8 (take v rest)" using valid_prefix_utf8[of rest] by simp
  show ?case
  proof (cases "\<exists>len. e = Some (Some len)")
    case True
    then obtain len where e: "e = Some (Some len)" by blast
    have IH: "is_utf8 (clean_loop (drop (v + len) rest))"
        "subseq (clean_loop (drop (v + len) rest)) (drop (v + len) rest)"
      using 1[OF f[symmetric] e refl] by auto
    have "subseq (drop (v + len) rest) (drop v rest)"
      by (metis add.commute drop_drop suffix_drop suffix_imp_subseq)
    then have "subseq (take v rest @ clean_loop (drop (v + len) rest)) (take v rest @ drop v rest)"
      using IH(2) by (intro list_emb_append_mono) (auto intro: subseq_order.order_trans)
    then show ?thesis using v IH(1) f e by (simp add: clean_loop.simps[of rest] is_utf8_append)
  next
    case False
    then have "clean_loop rest = take v rest"
      using f by (auto simp: clean_loop.simps[of rest] split: option.split)
    then show ?thesis using v by (simp add: prefix_imp_subseq take_is_prefix)
  qed
qed

lemma clean_loop_id: "is_utf8 s \<Longrightarrow> clean_loop s = s"
  using valid_up_to_end[of s] by (cases "from_utf8 s") (simp add: is_utf8_def clean_loop.simps[of s])

lemma back_to_boundary_le: "back_to_boundary s n \<le> n"
  by (induction n) auto

lemma clean_string_shape:
  "is_utf8 (clean_string bytes) \<and> CHR 0x00 \<notin> set (clean_string bytes) \<and>
     length (clean_string bytes) \<le> MAX_OUTPUT_SIZE \<and> subseq (clean_string bytes) bytes"
proof -
  define capped where "capped = (if MAX_OUTPUT_SIZE < length bytes
    then take (back_to_boundary bytes MAX_OUTPUT_SIZE) bytes else bytes)"
  let ?kept = "filter (\<lambda>b. b \<noteq> CHR 0x00) capped"
  have c: "clean_string bytes = clean_loop ?kept" by (simp add: clean_string_def capped_def)
  have sub: "subseq (clean_loop ?kept) ?kept" "is_utf8 (clean_loop ?kept)" using clean_loop_utf8 by auto
  have capped: "subseq capped bytes" "length capped \<le> MAX_OUTPUT_SIZE"
    using back_to_boundary_le[of bytes MAX_OUTPUT_SIZE]
    by (auto simp: capped_def intro: prefix_imp_subseq take_is_prefix)
  have kept: "subseq ?kept capped" by (rule subseq_filter_left)
  have "CHR 0x00 \<notin> set (clean_loop ?kept)" using list_emb_set[OF sub(1)] by force
  moreover have "length (clean_loop ?kept) \<le> MAX_OUTPUT_SIZE"
    using list_emb_length[OF sub(1)] list_emb_length[OF kept] capped(2) by linarith
  moreover have "subseq (clean_loop ?kept) bytes"
    using sub(1) kept capped(1) subseq_order.order_trans by blast
  ultimately show ?thesis using sub(2) c by simp
qed

lemma clean_string_id:
  "is_utf8 s \<Longrightarrow> CHR 0x00 \<notin> set s \<Longrightarrow> length s \<le> MAX_OUTPUT_SIZE \<Longrightarrow> clean_string s = s"
proof -
  assume s: "is_utf8 s" "CHR 0x00 \<notin> set s" "length s \<le> MAX_OUTPUT_SIZE"
  then have "filter (\<lambda>b. b \<noteq> CHR 0x00) s = s" by (intro filter_True) auto
  then show "clean_string s = s" using s(3) clean_loop_id[OF s(1)] by (simp add: clean_string_def)
qed

text \<open>C32. Whatever bytes a script prints, the text made of them is UTF-8, has no NUL and at most
  MAX_OUTPUT_SIZE bytes, all of them printed, in their order; and a text is unchanged exactly when it
  is so already.\<close>

theorem clean_string_wellformed:
  "is_utf8 (clean_string bytes) \<and> CHR 0x00 \<notin> set (clean_string bytes) \<and>
   length (clean_string bytes) \<le> MAX_OUTPUT_SIZE \<and> subseq (clean_string bytes) bytes \<and>
   (clean_string s = s) = (is_utf8 s \<and> CHR 0x00 \<notin> set s \<and> length s \<le> MAX_OUTPUT_SIZE)"
  using clean_string_shape[of bytes] clean_string_shape[of s] clean_string_id[of s] by fastforce

end
