(* ===== verification/UnixExecutor.thy ===== *)
theory UnixExecutor
  imports ScriptOutput Params Execution
begin

text \<open>Running a script on the machine (executor/), the part both systems share and the Unix part: the
  environment variables (env.rs), the process and its two output streams with the kill that ends them
  (output.rs join\_reads), the user it runs as (unix/run\_as\_user.rs), the temporary file and its guard
  (tempfile.rs, unix/mod.rs) and the time-out (unix/process.rs). What the operating system answers is the
  environment's: commands run for their output, the user database, the file operations, and a started
  process as when and how it ends by itself and how long after a kill, with its streams likewise. Times
  are milliseconds since the process was started.\<close>

section \<open>Environment variables\<close>

definition split_env :: "string \<Rightarrow> (string \<times> string) option" where
  "split_env var = map_option (\<lambda>i. (take i var, drop (i + 1) var)) (find_char (\<lambda>c. c = CHR ''='') var)"

type_synonym variables = "string \<rightharpoonup> string"

definition apply_env_var :: "string \<Rightarrow> variables \<Rightarrow> variables" where
  "apply_env_var var env =
    (case split_env var of
       Some (key, val) \<Rightarrow> if key \<noteq> [] then env(key \<mapsto> val) else env
     | None \<Rightarrow> env)"

definition apply_env_vars :: "string list \<Rightarrow> variables \<Rightarrow> variables" where
  "apply_env_vars vars env = fold apply_env_var vars env"

section \<open>A process and its output\<close>

datatype child_end = ChildExited int | Signalled nat | EndedOtherwise | WaitBroke string

record child_process =
  cp_end :: child_end
  cp_ends_at :: "nat option"
  cp_killed_in :: "nat option"

text \<open>A stream is what has been written to it by a time, and when its last writer closes it.\<close>

record output_stream =
  os_written :: "nat \<Rightarrow> string"
  os_closes_at :: "nat option"
  os_killed_in :: "nat option"

record child_run =
  cr_pid :: "32 word option"
  cr_process :: child_process
  cr_out :: output_stream
  cr_err :: output_stream

definition earliest :: "nat option \<Rightarrow> nat option \<Rightarrow> nat option" where
  "earliest a b = (case a of None \<Rightarrow> b | Some x \<Rightarrow> (case b of None \<Rightarrow> a | Some y \<Rightarrow> Some (min x y)))"

definition latest :: "nat option \<Rightarrow> nat option \<Rightarrow> nat option" where
  "latest a b = (case a of None \<Rightarrow> None | Some x \<Rightarrow> (case b of None \<Rightarrow> None | Some y \<Rightarrow> Some (max x y)))"

definition ends_with_kills :: "nat option \<Rightarrow> nat option \<Rightarrow> nat list \<Rightarrow> nat option" where
  "ends_with_kills alone killed kills =
    fold (\<lambda>k a. earliest a (map_option (\<lambda>d. k + d) killed)) kills alone"

definition stream_closes :: "nat list \<Rightarrow> output_stream \<Rightarrow> nat option" where
  "stream_closes kills s = ends_with_kills (os_closes_at s) (os_killed_in s) kills"

definition child_ends :: "nat list \<Rightarrow> child_process \<Rightarrow> nat option" where
  "child_ends kills c = ends_with_kills (cp_ends_at c) (cp_killed_in c) kills"

definition by_time :: "nat option \<Rightarrow> nat \<Rightarrow> bool" where
  "by_time t deadline \<longleftrightarrow> (case t of Some x \<Rightarrow> x \<le> deadline | None \<Rightarrow> False)"

definition READ_GRACE :: nat where "READ_GRACE = 5 * 1000"

definition both_closed :: "nat list \<Rightarrow> child_run \<Rightarrow> nat option" where
  "both_closed kills c = latest (stream_closes kills (cr_out c)) (stream_closes kills (cr_err c))"

text \<open>What a reader has of a stream that is closed.\<close>

definition drained_text :: "nat list \<Rightarrow> output_stream \<Rightarrow> string" where
  "drained_text kills s =
    (case stream_closes kills s of Some t \<Rightarrow> read_capped (Some (os_written s t)) | None \<Rightarrow> [])"

text \<open>Waiting for both readers, with a kill when that takes too long. The answer has the outputs, the
  time and the kills so far.\<close>

definition join_reads ::
  "(nat \<Rightarrow> nat list \<Rightarrow> nat list) \<Rightarrow> child_run \<Rightarrow> nat \<Rightarrow> nat list \<Rightarrow> (string \<times> string) \<times> nat \<times> nat list" where
  "join_reads kill c now kills =
    (if by_time (both_closed kills c) (now + READ_GRACE)
     then ((drained_text kills (cr_out c), drained_text kills (cr_err c)), max now (the (both_closed kills c)), kills)
     else
       (let later = now + READ_GRACE; kills' = kill later kills in
        if by_time (both_closed kills' c) (later + READ_GRACE)
        then ((drained_text kills' (cr_out c), drained_text kills' (cr_err c)), max later (the (both_closed kills' c)), kills')
        else (([], []), later + READ_GRACE, kills')))"

definition timeout_note :: "32 word \<Rightarrow> string" where
  "timeout_note timeout_secs = CHR 0x0A # ''Script timed out after '' @ decimal (unat timeout_secs) @ '' seconds''"

definition spawn_error_result :: "string \<Rightarrow> exec_result" where
  "spawn_error_result e = \<lparr> er_stdout = [], er_stderr = e, er_retcode = 85, er_timed_out = False \<rparr>"

section \<open>The time-out of a process\<close>

record spawn_failure =
  sf_raw_os_error :: "int option"
  sf_message :: string

definition ETXTBSY :: int where "ETXTBSY = 26"

text \<open>With the attempts left and the attempt; the answer has the time slept.\<close>

fun spawn_from :: "(nat \<Rightarrow> (spawn_failure, child_run) result) \<Rightarrow> nat \<Rightarrow> nat \<Rightarrow> (spawn_failure, child_run) result \<times> nat" where
  "spawn_from spawn 0 attempt = (spawn attempt, 0)"
| "spawn_from spawn (Suc left) attempt =
     (case spawn attempt of
        Inr c \<Rightarrow> (Ok c, 0)
      | Inl e \<Rightarrow>
          if sf_raw_os_error e = Some ETXTBSY
          then (case spawn_from spawn left (Suc attempt) of (r, slept) \<Rightarrow> (r, 500 + slept))
          else (Err e, 0))"

definition spawn_with_retry ::
  "(nat \<Rightarrow> (spawn_failure, child_run) result) \<Rightarrow> nat \<Rightarrow> (spawn_failure, child_run) result \<times> nat" where
  "spawn_with_retry spawn max_retries = spawn_from spawn max_retries 0"

text \<open>The kill of the process group, refused for the group of the agent itself.\<close>

definition kill_process_tree :: "32 word \<Rightarrow> nat \<Rightarrow> nat list \<Rightarrow> nat list" where
  "kill_process_tree pid now kills = (if pid = 0 then kills else kills @ [now])"

definition status_code :: "child_end \<Rightarrow> int" where
  "status_code e = (case e of ChildExited c \<Rightarrow> c | Signalled s \<Rightarrow> 128 + int s | _ \<Rightarrow> 1)"

definition finished :: "child_end \<Rightarrow> string \<times> string \<Rightarrow> int \<Rightarrow> exec_result" where
  "finished e outputs code =
    (case e of
       WaitBroke m \<Rightarrow>
         \<lparr> er_stdout = clean_string (fst outputs), er_stderr = clean_string (snd outputs) @ CHR 0x0A # m,
           er_retcode = 1, er_timed_out = False \<rparr>
     | _ \<Rightarrow>
         \<lparr> er_stdout = clean_string (fst outputs), er_stderr = clean_string (snd outputs),
           er_retcode = code, er_timed_out = False \<rparr>)"

definition stopped :: "string \<times> string \<Rightarrow> 32 word \<Rightarrow> exec_result" where
  "stopped outputs timeout_secs =
    \<lparr> er_stdout = clean_string (fst outputs), er_stderr = clean_string (snd outputs) @ timeout_note timeout_secs,
      er_retcode = 98, er_timed_out = True \<rparr>"

definition execute_with_timeout ::
  "(nat \<Rightarrow> (spawn_failure, child_run) result) \<Rightarrow> 32 word \<Rightarrow> exec_result \<times> nat" where
  "execute_with_timeout spawn timeout_secs =
    (case spawn_with_retry spawn 5 of
       (Inl e, slept) \<Rightarrow> (spawn_error_result (sf_message e), slept)
     | (Inr c, slept) \<Rightarrow>
         let kill = kill_process_tree (unwrap_or (cr_pid c) 0);
             deadline = 1000 * unat timeout_secs;
             p = cr_process c in
         if by_time (child_ends [] p) deadline then
           (case join_reads kill c (the (child_ends [] p)) [] of (outputs, now, _) \<Rightarrow>
              (finished (cp_end p) outputs (status_code (cp_end p)), slept + now))
         else
           (case join_reads kill c deadline (kill deadline []) of (outputs, now, kills) \<Rightarrow>
              (stopped outputs timeout_secs,
               slept + (if by_time (child_ends kills p) (now + READ_GRACE)
                        then max now (the (child_ends kills p)) else now + READ_GRACE))))"

section \<open>The user a script runs as\<close>

record unix_user =
  uu_username :: string
  uu_uid :: "32 word"
  uu_gid :: "32 word"
  uu_home_dir :: string

datatype run_as = CurrentUser | AsUser unix_user

text \<open>The file of a script, with its mode once set and its owner once changed.\<close>

record script_file =
  sf_code :: string
  sf_mode :: "nat option"
  sf_owner :: "(32 word \<times> 32 word) option"

record script_command =
  sc_program :: string
  sc_args :: "string list"
  sc_env :: variables
  sc_dir :: "string option"
  sc_own_group :: bool
  sc_switch :: "(32 word \<times> 32 word \<times> string) option"

text \<open>ux\_output is what a command prints and ux\_answers\_in how long that takes, or None if it never ends:
  these commands are awaited without a time-out. ux\_user is an entry of the user database, ux\_write a write: the
  error and what it left. The other file operations answer with their error.\<close>

record unix_env =
  ux_macos :: bool
  ux_output :: "string \<Rightarrow> string list \<Rightarrow> (string, string) result"
  ux_answers_in :: "string \<Rightarrow> nat option"
  ux_user :: "string \<Rightarrow> (string, unix_user option) result"
  ux_euid :: "32 word"
  ux_is_dir :: "string \<Rightarrow> bool"
  ux_exe_dir :: "(string, string option) result"
  ux_uuid :: string
  ux_write :: "string \<Rightarrow> (string \<times> string option, unit) result"
  ux_chmod :: "string \<Rightarrow> string option"
  ux_chown :: "string \<Rightarrow> 32 word \<Rightarrow> 32 word \<Rightarrow> string option"
  ux_remove :: "string \<Rightarrow> string option"
  ux_spawn :: "script_command \<Rightarrow> nat \<Rightarrow> (spawn_failure, child_run) result"

definition quoted :: "string \<Rightarrow> string" where "quoted s = CHR 0x27 # s @ [CHR 0x27]"

definition lookup_user :: "unix_env \<Rightarrow> string \<Rightarrow> (string, unix_user) result" where
  "lookup_user U username =
    (case ux_user U username of
       Inl e \<Rightarrow> Err (''failed to look up user '' @ quoted username @ '': '' @ e)
     | Inr None \<Rightarrow> Err (''user '' @ quoted username @ '' not found'')
     | Inr (Some u) \<Rightarrow> Ok (u \<lparr> uu_username := username \<rparr>))"

definition NO_ACTIVE_USER :: string where "NO_ACTIVE_USER = ''no active interactive user (USER privilege)''"

function split_whitespace :: "string \<Rightarrow> string list" where
  "split_whitespace s =
    (let rest = trim_start s in
     if rest = [] then []
     else takeWhile (\<lambda>c. \<not> is_whitespace c) rest
          # split_whitespace (dropWhile (\<lambda>c. \<not> is_whitespace c) rest))"
  by pat_completeness auto
termination
proof (relation "measure length", simp)
  fix s rest
  assume r: "rest = trim_start s" "rest \<noteq> []"
  then obtain c t where c: "rest = c # t" "\<not> is_whitespace c"
    unfolding trim_start_def by (metis dropWhile_eq_Nil_conv hd_dropWhile list.collapse)
  have "length (dropWhile (\<lambda>c. \<not> is_whitespace c) rest) \<le> length t"
    using c length_dropWhile_le[of "\<lambda>c. \<not> is_whitespace c" t] by simp
  moreover have "length rest \<le> length s" using r(1) length_dropWhile_le[of is_whitespace s] by (simp add: trim_start_def)
  ultimately show "(dropWhile (\<lambda>c. \<not> is_whitespace c) rest, s) \<in> measure length" using c(1) by simp
qed

declare split_whitespace.simps [simp del]

definition usable_user :: "string \<Rightarrow> bool" where "usable_user user \<longleftrightarrow> user \<noteq> [] \<and> user \<noteq> ''root''"

definition resolve_console_user :: "unix_env \<Rightarrow> (string, string) result" where
  "resolve_console_user U =
    (case ux_output U ''stat'' [''-f'', ''%Su'', ''/dev/console''] of
       Inl e \<Rightarrow> Err (''failed to query console user: '' @ e)
     | Inr out \<Rightarrow>
         let user = trim (from_utf8_lossy out) in
         if usable_user user then Ok user else Err NO_ACTIVE_USER)"

text \<open>The user of a line of loginctl that is a session on a seat.\<close>

definition seat_user :: "string \<Rightarrow> string option" where
  "seat_user line =
    (let fields = split_whitespace line in
     if 4 \<le> length fields \<and> starts_with (fields ! 3) ''seat'' \<and> usable_user (fields ! 2)
     then Some (fields ! 2) else None)"

definition first_word :: "string \<Rightarrow> string option" where
  "first_word line = (case split_whitespace line of [] \<Rightarrow> None | w # _ \<Rightarrow> Some w)"

definition seat_users :: "unix_env \<Rightarrow> string list" where
  "seat_users U =
    (case ux_output U ''loginctl'' [''list-sessions'', ''--no-legend''] of
       Inr out \<Rightarrow> List.map_filter seat_user (text_lines (from_utf8_lossy out))
     | Inl _ \<Rightarrow> [])"

definition resolve_session_user :: "unix_env \<Rightarrow> (string, string) result" where
  "resolve_session_user U =
    (case seat_users U of
       user # _ \<Rightarrow> Ok user
     | [] \<Rightarrow>
         (case ux_output U ''who'' [] of
            Inl e \<Rightarrow> Err (''failed to query active user: '' @ e)
          | Inr out \<Rightarrow>
              (case List.find usable_user (List.map_filter first_word (text_lines (from_utf8_lossy out))) of
                 Some user \<Rightarrow> Ok user | None \<Rightarrow> Err NO_ACTIVE_USER)))"

definition resolve_active_user :: "unix_env \<Rightarrow> (string, string) result" where
  "resolve_active_user U = (if ux_macos U then resolve_console_user U else resolve_session_user U)"

definition resolve_run_as :: "unix_env \<Rightarrow> privilege \<Rightarrow> (string, run_as) result" where
  "resolve_run_as U p =
    (case p of
       Agent \<Rightarrow> Ok CurrentUser
     | UserSession \<Rightarrow>
         (case resolve_active_user U of
            Inl e \<Rightarrow> Err e
          | Inr username \<Rightarrow>
              (case lookup_user U username of Inl e \<Rightarrow> Err e | Inr u \<Rightarrow> Ok (AsUser u))))"

text \<open>The time until the user is known: the commands that are awaited one after the other.\<close>

definition resolve_time :: "unix_env \<Rightarrow> privilege \<Rightarrow> nat option" where
  "resolve_time U p =
    (case p of
       Agent \<Rightarrow> Some 0
     | UserSession \<Rightarrow>
         if ux_macos U then ux_answers_in U ''stat''
         else (case ux_answers_in U ''loginctl'' of
             None \<Rightarrow> None
           | Some a \<Rightarrow>
               if seat_users U \<noteq> [] then Some a
               else map_option (\<lambda>b. a + b) (ux_answers_in U ''who'')))"

text \<open>The command runs in a process group of its own, and as the other user only if the agent is root.\<close>

definition configure_preexec :: "unix_env \<Rightarrow> script_command \<Rightarrow> run_as \<Rightarrow> (string, script_command) result" where
  "configure_preexec U cmd r =
    (let grouped = cmd \<lparr> sc_own_group := True \<rparr> in
     case r of
       CurrentUser \<Rightarrow> Ok grouped
     | AsUser u \<Rightarrow>
         if uu_uid u = ux_euid U then Ok grouped
         else if ux_euid U \<noteq> 0 then
           Err (''run_as_user '' @ quoted (uu_username u) @ '' requires the agent to run as root'')
         else if CHR 0x00 \<in> set (uu_username u) then Err ''nul byte found in provided data''
         else Ok (grouped \<lparr>
           sc_env := (sc_env cmd)(''HOME'' \<mapsto> uu_home_dir u, ''USER'' \<mapsto> uu_username u, ''LOGNAME'' \<mapsto> uu_username u),
           sc_dir := (if ux_is_dir U (uu_home_dir u) then Some (uu_home_dir u) else sc_dir cmd),
           sc_switch := Some (uu_uid u, uu_gid u, uu_username u) \<rparr>))"

section \<open>The temporary file and the whole run\<close>

type_synonym script_files = "string \<rightharpoonup> script_file"

definition normalize_line_endings :: "string \<Rightarrow> string" where
  "normalize_line_endings code = replace_all [CHR 0x0D, CHR 0x0A] [CHR 0x0A] code"

definition temp_script_name :: "string \<Rightarrow> string \<Rightarrow> string" where
  "temp_script_name uuid ext = ''ofcmd_'' @ uuid @ ''.'' @ ext"

definition create_temp_script :: "unix_env \<Rightarrow> string \<Rightarrow> run_as \<Rightarrow> script_files \<Rightarrow> (string, string) result \<times> script_files" where
  "create_temp_script U code r files =
    (case ux_exe_dir U of
       Inl e \<Rightarrow> (Err (''failed to resolve executable: '' @ e), files)
     | Inr None \<Rightarrow> (Err ''executable has no parent directory'', files)
     | Inr (Some dir) \<Rightarrow>
         let path = dir @ ''/'' @ temp_script_name (ux_uuid U) ''sh'';
             fresh = \<lparr> sf_code = code, sf_mode = None, sf_owner = None \<rparr> in
         (case ux_write U path of
            Inl (e, left) \<Rightarrow>
              (Err (''failed to write temp script: '' @ e),
               (case left of None \<Rightarrow> files | Some part \<Rightarrow> files(path \<mapsto> fresh \<lparr> sf_code := part \<rparr>)))
          | Inr _ \<Rightarrow>
              (case ux_chmod U path of
                 Some e \<Rightarrow> (Err (''failed to set temp script permissions: '' @ e), files(path \<mapsto> fresh))
               | None \<Rightarrow>
                   let private = fresh \<lparr> sf_mode := Some 448 \<rparr> in
                   (case r of
                      CurrentUser \<Rightarrow> (Ok path, files(path \<mapsto> private))
                    | AsUser u \<Rightarrow>
                        (case ux_chown U path (uu_uid u) (uu_gid u) of
                           Some e \<Rightarrow> (Err (''failed to chown temp script to '' @ uu_username u @ '': '' @ e),
                                       files(path \<mapsto> private))
                         | None \<Rightarrow> (Ok path, files(path \<mapsto> private \<lparr> sf_owner := Some (uu_uid u, uu_gid u) \<rparr>)))))))"

text \<open>The guard removes the file when the run is over, or warns that it could not.\<close>

definition drop_file_guard :: "(string \<Rightarrow> string option) \<Rightarrow> string \<Rightarrow> script_files \<Rightarrow> script_files" where
  "drop_file_guard remove path files = (case remove path of None \<Rightarrow> files(path := None) | Some _ \<Rightarrow> files)"

definition build_script_command :: "string \<Rightarrow> string list \<Rightarrow> script_command" where
  "build_script_command path args =
    \<lparr> sc_program = path, sc_args = args, sc_env = Map.empty, sc_dir = None, sc_own_group = False, sc_switch = None \<rparr>"

definition script_command_of :: "unix_env \<Rightarrow> script_params \<Rightarrow> string \<Rightarrow> run_as \<Rightarrow> (string, script_command) result" where
  "script_command_of U p path r =
    (let cmd = build_script_command path (pa_args p) in
     configure_preexec U (cmd \<lparr> sc_env := apply_env_vars (pa_env_vars p) (sc_env cmd) \<rparr>) r)"

text \<open>The run once the user is known, and the whole run: None if it never ends. The time is counted from
  the request; file operations, the user database and starting a process count as immediate.\<close>

definition run_resolved :: "unix_env \<Rightarrow> script_params \<Rightarrow> script_files \<Rightarrow> (exec_result \<times> nat) \<times> script_files" where
  "run_resolved U p files =
    (case resolve_run_as U (pa_privilege p) of
       Inl e \<Rightarrow> ((spawn_error_result e, 0), files)
     | Inr r \<Rightarrow>
         (case create_temp_script U (normalize_line_endings (pa_code p)) r files of
            (Inl e, files1) \<Rightarrow> ((spawn_error_result e, 0), files1)
          | (Inr path, files1) \<Rightarrow>
              ((case script_command_of U p path r of
                  Inl e \<Rightarrow> (spawn_error_result e, 0)
                | Inr cmd \<Rightarrow> execute_with_timeout (ux_spawn U cmd) (pa_timeout_secs p)),
               drop_file_guard (ux_remove U) path files1)))"

definition unix_execute_script ::
  "unix_env \<Rightarrow> script_params \<Rightarrow> script_files \<Rightarrow> ((exec_result \<times> nat) \<times> script_files) option" where
  "unix_execute_script U p files =
    (case resolve_time U (pa_privilege p) of
       None \<Rightarrow> None
     | Some asked \<Rightarrow>
         (case run_resolved U p files of ((res, t), files') \<Rightarrow> Some ((res, asked + t), files')))"

section \<open>A run ends\<close>

lemma spawn_from_time: "snd (spawn_from spawn left attempt) \<le> 500 * left"
proof (induction left arbitrary: attempt)
  case (Suc left)
  obtain r slept where "spawn_from spawn left (Suc attempt) = (r, slept)" by fastforce
  then show ?case using Suc[of "Suc attempt"] by (simp split: sum.split)
qed simp

lemma join_reads_time:
  assumes "join_reads kill c now kills = (outputs, t, kills')"
  shows "t \<le> now + 2 * READ_GRACE"
  using assms by (auto simp: join_reads_def by_time_def Let_def split: if_splits option.splits)

lemma finished_simps [simp]:
  "er_stdout (finished e outputs code) = clean_string (fst outputs)" "\<not> er_timed_out (finished e outputs code)"
  by (simp_all add: finished_def split: child_end.split)

lemma stopped_simps [simp]:
  "er_stdout (stopped outputs s) = clean_string (fst outputs)" "er_timed_out (stopped outputs s)"
  "er_retcode (stopped outputs s) = 98"
  by (simp_all add: stopped_def)

lemma spawn_error_simps [simp]:
  "er_stdout (spawn_error_result e) = []" "\<not> er_timed_out (spawn_error_result e)" "er_retcode (spawn_error_result e) = 85"
  "er_stderr (spawn_error_result e) = e"
  by (simp_all add: spawn_error_result_def)

definition clean_output :: "string \<Rightarrow> bool" where
  "clean_output s \<longleftrightarrow> is_utf8 s \<and> CHR 0x00 \<notin> set s \<and> length s \<le> MAX_OUTPUT_SIZE"

lemma clean_output_simps [simp]: "clean_output []" "clean_output (clean_string bytes)"
  using clean_string_shape[of bytes] by (simp_all add: clean_output_def)

text \<open>What a result may hold: an error of the agent in place of any output, or two clean outputs, the second
  followed by the note of the time-out or by the reason why the wait broke.\<close>

definition proper_result :: "32 word \<Rightarrow> exec_result \<Rightarrow> bool" where
  "proper_result timeout_secs res \<longleftrightarrow>
     (\<exists>e. res = spawn_error_result e) \<or>
     clean_output (er_stdout res) \<and>
     (\<exists>shown remark. er_stderr res = shown @ remark \<and> clean_output shown \<and>
        (if er_timed_out res then remark = timeout_note timeout_secs \<and> er_retcode res = 98
         else remark = [] \<or> er_retcode res = 1 \<and> (\<exists>m. remark = CHR 0x0A # m)))"

lemma proper_resultI:
  assumes "clean_output (er_stdout res)" "er_stderr res = shown @ remark" "clean_output shown"
    and "if er_timed_out res then remark = timeout_note timeout_secs \<and> er_retcode res = 98
      else remark = [] \<or> er_retcode res = 1 \<and> (\<exists>m. remark = CHR 0x0A # m)"
  shows "proper_result timeout_secs res"
  unfolding proper_result_def using assms by blast

lemma proper_results [simp]:
  "proper_result s (spawn_error_result e)" "proper_result s (stopped outputs s)"
  "proper_result s (finished how outputs code)"
proof -
  show "proper_result s (spawn_error_result e)" unfolding proper_result_def by blast
  show "proper_result s (stopped outputs s)"
    by (rule proper_resultI[where shown = "clean_string (snd outputs)" and remark = "timeout_note s"])
      (simp_all add: stopped_def)
  show "proper_result s (finished how outputs code)"
    by (rule proper_resultI[where shown = "clean_string (snd outputs)"
          and remark = "case how of WaitBroke m \<Rightarrow> CHR 0x0A # m | _ \<Rightarrow> []"])
      (simp_all add: finished_def split: child_end.split)
qed

lemma execute_with_timeout_ends:
  assumes "execute_with_timeout spawn timeout_secs = (res, t)"
  shows "t \<le> 1000 * unat timeout_secs + 17500 \<and> proper_result timeout_secs res"
proof -
  obtain r slept where s: "spawn_with_retry spawn 5 = (r, slept)" by fastforce
  have slept: "slept \<le> 2500" using spawn_from_time[of spawn 5 0] s by (simp add: spawn_with_retry_def)
  show ?thesis
  proof (cases r)
    case (Inl e)
    then show ?thesis using assms s slept by (auto simp: execute_with_timeout_def)
  next
    case (Inr c)
    let ?kill = "kill_process_tree (unwrap_or (cr_pid c) 0)"
    let ?deadline = "1000 * unat timeout_secs"
    let ?p = "cr_process c"
    show ?thesis
    proof (cases "by_time (child_ends [] ?p) ?deadline")
      case True
      obtain out now ks where j: "join_reads ?kill c (the (child_ends [] ?p)) [] = (out, now, ks)" by (rule prod_cases3)
      have "the (child_ends [] ?p) \<le> ?deadline" using True by (auto simp: by_time_def split: option.splits)
      then show ?thesis
        using assms s slept Inr True j join_reads_time[OF j]
        by (auto simp: execute_with_timeout_def Let_def READ_GRACE_def)
    next
      case False
      obtain out now ks where j: "join_reads ?kill c ?deadline (?kill ?deadline []) = (out, now, ks)" by (rule prod_cases3)
      have "(if by_time (child_ends ks ?p) (now + READ_GRACE) then max now (the (child_ends ks ?p)) else now + READ_GRACE)
          \<le> now + READ_GRACE"
        by (auto simp: by_time_def split: option.splits)
      then show ?thesis
        using assms s slept Inr False j join_reads_time[OF j]
        by (auto simp: execute_with_timeout_def Let_def READ_GRACE_def)
    qed
  qed
qed

text \<open>C30. Whatever the script and its processes do, a run on Unix is over at most 17.5 seconds after the
  script's time-out, counted from the moment the user to run as is known; that moment is the start for
  scripts of the agent, and the whole run never ends exactly when a command asked for the user never
  answers. The result is an error of the agent without any output, or its outputs are clean text within
  the cap, the second followed by nothing but the note of the time-out or the reason a wait broke, and a
  run reported as timed out has the exit code 98.\<close>

theorem unix_execution_ends:
  "case resolve_time U (pa_privilege p) of
     None \<Rightarrow> pa_privilege p = UserSession \<and> unix_execute_script U p files = None
   | Some asked \<Rightarrow> (pa_privilege p = Agent \<longrightarrow> asked = 0) \<and>
       (\<exists>res t files'. unix_execute_script U p files = Some ((res, t), files') \<and>
          t \<le> asked + 1000 * unat (pa_timeout_secs p) + 17500 \<and> proper_result (pa_timeout_secs p) res)"
proof (cases "resolve_time U (pa_privilege p)")
  case None
  then show ?thesis by (cases "pa_privilege p") (simp_all add: unix_execute_script_def resolve_time_def)
next
  case (Some asked)
  obtain res t files' where r: "run_resolved U p files = ((res, t), files')" by (metis prod.collapse)
  then have "t \<le> 1000 * unat (pa_timeout_secs p) + 17500 \<and> proper_result (pa_timeout_secs p) res"
    using execute_with_timeout_ends[of _ "pa_timeout_secs p" res t]
    by (auto simp: run_resolved_def split: sum.splits prod.splits)
  moreover have "pa_privilege p = Agent \<longrightarrow> asked = 0" using Some by (auto simp: resolve_time_def)
  ultimately show ?thesis using Some r by (simp add: unix_execute_script_def)
qed

section \<open>Processes a script leaves behind\<close>

text \<open>When a script has exited but a process it started still holds its output, the group is killed
  after five seconds. If that closes the output in five more, the result has the script's exit code and
  everything printed until then; if a process of another group holds one of the two streams open, the
  result has the exit code and nothing of either stream, whatever was printed.\<close>

theorem background_children:
  assumes "spawn_with_retry spawn 5 = (Ok c, slept)" "cr_pid c = Some pid" "pid \<noteq> 0"
    "cp_end (cr_process c) = ChildExited code" "cp_ends_at (cr_process c) = Some x" "x \<le> 1000 * unat timeout_secs"
    "\<not> by_time (both_closed [] c) (x + READ_GRACE)"
  shows "fst (execute_with_timeout spawn timeout_secs) =
    (let kills = [x + READ_GRACE];
         kept = by_time (both_closed kills c) (x + 2 * READ_GRACE) in
     \<lparr> er_stdout = (if kept then clean_string (drained_text kills (cr_out c)) else []),
       er_stderr = (if kept then clean_string (drained_text kills (cr_err c)) else []),
       er_retcode = code, er_timed_out = False \<rparr>)"
proof -
  have "child_ends [] (cr_process c) = Some x" using assms(5) by (simp add: child_ends_def ends_with_kills_def)
  moreover have "clean_string [] = []" by (rule clean_string_id) simp_all
  ultimately show ?thesis
    using assms
    by (simp add: execute_with_timeout_def by_time_def join_reads_def finished_def status_code_def Let_def
        kill_process_tree_def add.assoc split: option.splits)
qed

definition demo_child :: "nat option \<Rightarrow> child_run" where
  "demo_child killed_in =
    \<lparr> cr_pid = Some 7, cr_process = \<lparr> cp_end = ChildExited 0, cp_ends_at = Some 10, cp_killed_in = Some 0 \<rparr>,
      cr_out = \<lparr> os_written = (\<lambda>t. ''hi''), os_closes_at = Some 30000, os_killed_in = killed_in \<rparr>,
      cr_err = \<lparr> os_written = (\<lambda>t. []), os_closes_at = Some 10, os_killed_in = Some 0 \<rparr> \<rparr>"

lemmas time_defs = both_closed_def stream_closes_def child_ends_def ends_with_kills_def earliest_def latest_def
  by_time_def READ_GRACE_def

lemma spawn_at_once: "spawn 0 = Ok c \<Longrightarrow> spawn_with_retry spawn 5 = (Ok c, 0)"
  by (simp add: spawn_with_retry_def numeral_eq_Suc)

lemma clean_hi: "clean_string ''hi'' = ''hi''"
proof -
  have "is_utf8 ''hi''" by code_simp
  then show ?thesis by (intro clean_string_id) (simp_all add: MAX_OUTPUT_SIZE_def)
qed

lemma background_children_witness:
  "er_stdout (fst (execute_with_timeout (\<lambda>n. Ok (demo_child (Some 0))) 900)) = ''hi'' \<and>
   er_stdout (fst (execute_with_timeout (\<lambda>n. Ok (demo_child None)) 900)) = []"
proof -
  have run: "fst (execute_with_timeout (\<lambda>n. Ok (demo_child k)) 900) =
    (let kills = [10 + READ_GRACE];
         kept = by_time (both_closed kills (demo_child k)) (10 + 2 * READ_GRACE) in
     \<lparr> er_stdout = (if kept then clean_string (drained_text kills (cr_out (demo_child k))) else []),
       er_stderr = (if kept then clean_string (drained_text kills (cr_err (demo_child k))) else []),
       er_retcode = 0, er_timed_out = False \<rparr>)" if "k \<in> {Some 0, None}" for k
    by (rule background_children[where pid = 7 and slept = 0])
      (use that in \<open>auto simp: spawn_at_once demo_child_def time_defs\<close>)
  have "drained_text [10 + READ_GRACE] (cr_out (demo_child (Some 0))) = ''hi''"
    by (simp add: drained_text_def demo_child_def time_defs read_capped_def MAX_OUTPUT_SIZE_def)
  then show ?thesis
    using run[of "Some 0"] run[of None]
    by (simp add: Let_def clean_hi) (simp add: demo_child_def time_defs)
qed

definition demo_user :: unix_user where
  "demo_user = \<lparr> uu_username = ''ada'', uu_uid = 1000, uu_gid = 100, uu_home_dir = ''/home/ada'' \<rparr>"

definition demo_unix :: "string option \<Rightarrow> unix_env" where
  "demo_unix refused =
    \<lparr> ux_macos = False,
      ux_output = (\<lambda>prog args. if prog = ''who'' then Ok ''ada tty2'' else Err ''not found''),
      ux_answers_in = (\<lambda>prog. Some 20),
      ux_user = (\<lambda>name. Ok (Some demo_user)),
      ux_euid = 0, ux_is_dir = (\<lambda>_. True), ux_exe_dir = Ok (Some ''/opt''), ux_uuid = ''0'',
      ux_write = (\<lambda>_. Ok ()), ux_chmod = (\<lambda>_. None), ux_chown = (\<lambda>_ _ _. refused),
      ux_remove = (\<lambda>_. None), ux_spawn = (\<lambda>_ n. Ok (demo_child None)) \<rparr>"

definition demo_params :: "privilege \<Rightarrow> script_params" where
  "demo_params who =
    \<lparr> pa_code = ''echo hi'', pa_shell = ''bash'', pa_args = [], pa_timeout_secs = 900, pa_privilege = who,
      pa_env_vars = [''USER=root'', ''A=1''] \<rparr>"

lemma unix_execution_ends_witness:
  "\<exists>res t files. unix_execute_script (demo_unix None) (demo_params Agent) Map.empty = Some ((res, t), files) \<and> t \<le> 917500"
proof -
  have "unat (pa_timeout_secs (demo_params Agent)) = 900" "resolve_time (demo_unix None) (pa_privilege (demo_params Agent)) = Some 0"
    by (simp_all add: demo_params_def resolve_time_def)
  then show ?thesis using unix_execution_ends[of "demo_params Agent" "demo_unix None" Map.empty]
    by (auto intro: order_trans)
qed

section \<open>The temporary file\<close>

text \<open>When the guard can remove the file and a write leaves nothing if it fails, a run leaves the
  files as it found them, unless the new file could not be made executable or given to the user: then
  the run is an error and the file stays with the whole script in it.\<close>

theorem temp_script_left_behind:
  assumes "unix_execute_script U p files = Some ((res, t), files')" "\<And>path. ux_remove U path = None"
    "\<And>path e left. ux_write U path = Err (e, left) \<Longrightarrow> left = None"
    "\<And>dir. ux_exe_dir U = Ok (Some dir) \<Longrightarrow> files (dir @ ''/'' @ temp_script_name (ux_uuid U) ''sh'') = None"
  shows "files' = files \<or>
    (\<exists>dir. ux_exe_dir U = Ok (Some dir) \<and> er_retcode res = 85 \<and>
      (let path = dir @ ''/'' @ temp_script_name (ux_uuid U) ''sh'' in
       map_option sf_code (files' path) = Some (normalize_line_endings (pa_code p)) \<and> files'(path := None) = files \<and>
       (ux_chmod U path \<noteq> None \<or> (\<exists>u. resolve_run_as U (pa_privilege p) = Ok (AsUser u) \<and>
          ux_chown U path (uu_uid u) (uu_gid u) \<noteq> None))))"
proof -
  obtain t1 where run: "run_resolved U p files = ((res, t1), files')"
    using assms(1) by (auto simp: unix_execute_script_def split: option.splits prod.splits)
  show ?thesis
  proof (cases "resolve_run_as U (pa_privilege p)")
    case (Inl e)
    then show ?thesis using run by (simp add: run_resolved_def)
  next
    case (Inr r)
    let ?code = "normalize_line_endings (pa_code p)"
    obtain made files1 where c: "create_temp_script U ?code r files = (made, files1)" by fastforce
    show ?thesis
    proof (cases made)
      case (Inl e)
      then have f: "res = spawn_error_result e" "files' = files1"
        using run Inr c by (auto simp: run_resolved_def)
      show ?thesis
        using c Inl assms(3,4) f Inr
        by (auto simp: create_temp_script_def Let_def fun_upd_idem_iff split: sum.splits option.splits run_as.splits)
    next
      case (Inr path)
      then have "files' = files1(path := None)"
        using run assms(2) \<open>resolve_run_as U (pa_privilege p) = Ok r\<close> c
        by (auto simp: run_resolved_def drop_file_guard_def)
      moreover have "files1(path := None) = files"
        using c Inr assms(4)
        by (auto simp: create_temp_script_def Let_def fun_upd_idem_iff split: sum.splits option.splits run_as.splits)
      ultimately show ?thesis by simp
    qed
  qed
qed

section \<open>The user of a script\<close>

lemma map_filter_SomeD: "x \<in> set (List.map_filter f xs) \<Longrightarrow> \<exists>y \<in> set xs. f y = Some x"
  by (induction xs) (auto simp: List.map_filter_simps split: option.splits)

lemma active_user_usable:
  assumes "resolve_active_user U = Ok user"
  shows "usable_user user"
proof (cases "ux_macos U")
  case True
  then show ?thesis using assms
    by (auto simp: resolve_active_user_def resolve_console_user_def Let_def split: sum.splits if_splits)
next
  case False
  have "usable_user u" if "u \<in> set (seat_users U)" for u
    using that by (auto simp: seat_users_def seat_user_def Let_def split: sum.splits if_splits dest!: map_filter_SomeD)
  then show ?thesis using assms False
    by (auto simp: resolve_active_user_def resolve_session_user_def find_Some_iff
        split: list.splits sum.splits option.splits)
qed

lemma run_as_active_user:
  assumes "resolve_run_as U UserSession = Ok r"
  obtains u where "r = AsUser u" "usable_user (uu_username u)"
proof -
  obtain user u where u: "resolve_active_user U = Ok user" "lookup_user U user = Ok u" "r = AsUser u"
    using assms by (auto simp: resolve_run_as_def split: sum.splits)
  then have "uu_username u = user" by (auto simp: lookup_user_def split: sum.splits option.splits)
  then show thesis using that u active_user_usable by blast
qed

text \<open>C31. A script that is to run as the user in session runs as a user that is not named root: its file
  belongs to that user, and its process switches to that user and group with the user's HOME, USER and
  LOGNAME, whatever variables the script asks for, or is started by an agent that runs as that user.\<close>

theorem user_script_runs_as_user:
  assumes "resolve_run_as U UserSession = Ok r" "create_temp_script U code r files = (Ok path, files')"
    "script_command_of U p path r = Ok cmd"
  shows "\<exists>u. r = AsUser u \<and> usable_user (uu_username u) \<and>
    map_option sf_owner (files' path) = Some (Some (uu_uid u, uu_gid u)) \<and> sc_own_group cmd \<and>
    (if uu_uid u = ux_euid U then sc_switch cmd = None
     else ux_euid U = 0 \<and> sc_switch cmd = Some (uu_uid u, uu_gid u, uu_username u) \<and>
       sc_env cmd ''HOME'' = Some (uu_home_dir u) \<and> sc_env cmd ''USER'' = Some (uu_username u) \<and>
       sc_env cmd ''LOGNAME'' = Some (uu_username u))"
proof -
  obtain u where u: "r = AsUser u" "usable_user (uu_username u)" by (rule run_as_active_user[OF assms(1)])
  have "map_option sf_owner (files' path) = Some (Some (uu_uid u, uu_gid u))"
    using assms(2) u(1) by (auto simp: create_temp_script_def Let_def split: sum.splits option.splits)
  moreover have "sc_own_group cmd \<and>
    (if uu_uid u = ux_euid U then sc_switch cmd = None
     else ux_euid U = 0 \<and> sc_switch cmd = Some (uu_uid u, uu_gid u, uu_username u) \<and>
       sc_env cmd ''HOME'' = Some (uu_home_dir u) \<and> sc_env cmd ''USER'' = Some (uu_username u) \<and>
       sc_env cmd ''LOGNAME'' = Some (uu_username u))"
    using assms(3) u(1)
    by (auto simp: script_command_of_def configure_preexec_def build_script_command_def Let_def split: if_splits)
  ultimately show ?thesis using u by blast
qed

lemma demo_run_as: "resolve_run_as (demo_unix refused) UserSession = Ok (AsUser demo_user)"
proof -
  have "resolve_active_user (demo_unix refused) = Ok ''ada''"
    unfolding resolve_active_user_def resolve_session_user_def seat_users_def demo_unix_def by simp code_simp
  then show ?thesis by (simp add: resolve_run_as_def lookup_user_def) (simp add: demo_unix_def demo_user_def)
qed

lemma temp_script_left_behind_witness:
  "map_option (\<lambda>(_, files). map_option sf_code (files ''/opt/ofcmd_0.sh''))
     (unix_execute_script (demo_unix (Some ''denied'')) (demo_params UserSession) Map.empty) = Some (Some ''echo hi'')"
proof -
  let ?U = "demo_unix (Some ''denied'')" and ?p = "demo_params UserSession"
  have "resolve_time ?U (pa_privilege ?p) = Some 40"
    by (simp add: demo_unix_def demo_params_def resolve_time_def seat_users_def)
  then obtain res t f where r: "unix_execute_script ?U ?p Map.empty = Some ((res, t), f)"
    by (cases "run_resolved ?U ?p Map.empty") (auto simp: unix_execute_script_def)
  have "f \<noteq> Map.empty"
    using r demo_run_as[of "Some ''denied''"]
    by (auto simp: unix_execute_script_def run_resolved_def create_temp_script_def demo_params_def demo_unix_def
        split: option.splits)
  moreover have "normalize_line_endings ''echo hi'' = ''echo hi''" by code_simp
  ultimately show ?thesis
    using temp_script_left_behind[OF r] r
    by (auto simp: demo_unix_def demo_params_def temp_script_name_def)
qed

lemma user_script_runs_as_user_witness:
  "\<exists>cmd. script_command_of (demo_unix None) (demo_params UserSession) ''/opt/ofcmd_0.sh'' (AsUser demo_user) = Ok cmd \<and>
     sc_switch cmd = Some (1000, 100, ''ada'') \<and> sc_env cmd ''USER'' = Some ''ada''"
proof -
  obtain cmd where c: "script_command_of (demo_unix None) (demo_params UserSession) ''/opt/ofcmd_0.sh'' (AsUser demo_user) = Ok cmd"
    by (auto simp: script_command_of_def configure_preexec_def demo_unix_def demo_user_def Let_def)
  have "create_temp_script (demo_unix None) ''echo hi'' (AsUser demo_user) Map.empty =
      (Ok ''/opt/ofcmd_0.sh'', [''/opt/ofcmd_0.sh'' \<mapsto>
         \<lparr> sf_code = ''echo hi'', sf_mode = Some 448, sf_owner = Some (1000, 100) \<rparr>])"
    by (simp add: create_temp_script_def demo_unix_def demo_user_def temp_script_name_def Let_def)
  from user_script_runs_as_user[OF demo_run_as this c] show ?thesis
    using c by (auto simp: demo_unix_def demo_user_def split: if_splits)
qed

end
