(* ===== verification/WindowsExecutor.thy ===== *)
theory WindowsExecutor
  imports UnixExecutor
begin

text \<open>Running a script on Windows (executor/windows/): the interpreter and the temporary file (mod.rs), the
  process with its job object (process.rs, job.rs), and the run in the session of the user
  (run\_as\_user.rs) with its command line, its environment block and its output files. A job is whether
  the kernel made it and took the process into it; only then does ending the job end the processes.\<close>

section \<open>The interpreter and the file\<close>

record interpreter =
  it_exe :: string
  it_flags :: "string list"
  it_ext :: string

text \<open>What the first runs of a process answer: wr\_assigned whether the job has it.\<close>

record win_child = child_run +
  wc_job :: bool
  wc_assigned :: bool

record session_run =
  sr_process :: child_process
  sr_job :: bool
  sr_assigned :: bool
  sr_exit_code :: "32 word option"
  sr_out :: "nat \<Rightarrow> string option"
  sr_err :: "nat \<Rightarrow> string option"

record win_env =
  wx_var :: "string \<Rightarrow> string option"
  wx_join :: "string \<Rightarrow> string \<Rightarrow> string"
  wx_is_file :: "string \<Rightarrow> bool"
  wx_temp_dir :: string
  wx_create_dir :: "string \<Rightarrow> string option"
  wx_uuid :: "string \<Rightarrow> string"
  wx_write :: "string \<Rightarrow> (string \<times> string option, unit) result"
  wx_open :: "string \<Rightarrow> nat \<Rightarrow> (int option, unit) result"
  wx_remove :: "string \<Rightarrow> string option"
  wx_parent :: "string \<Rightarrow> string option"
  wx_spawn :: "script_command \<Rightarrow> (string, win_child) result"
  wx_console :: "32 word"
  wx_session_token :: "32 word \<Rightarrow> bool"
  wx_sessions :: "(32 word \<times> bool) list option"
  wx_duplicate :: "32 word \<Rightarrow> string option"
  wx_open_nul :: "string option"
  wx_create :: "string \<Rightarrow> string option"
  wx_inherit :: "nat \<Rightarrow> string option"
  wx_uppercase :: "string \<Rightarrow> string"
  wx_user_block :: "32 word \<Rightarrow> nat list option"
  wx_agent_env :: "(string \<times> string) list"
  wx_create_process :: "32 word \<Rightarrow> string \<Rightarrow> nat list \<Rightarrow> (string, session_run) result"
  wx_task_fails :: "string option"

definition BACKSLASH :: char where "BACKSLASH = CHR 0x5C"
definition DQUOTE :: char where "DQUOTE = CHR 0x22"

definition resolve_exe :: "win_env \<Rightarrow> string \<Rightarrow> string \<Rightarrow> string" where
  "resolve_exe W system32_rel bare =
    (case (case wx_var W ''WINDIR'' of None \<Rightarrow> wx_var W ''SystemRoot'' | v \<Rightarrow> v) of
       Some windir \<Rightarrow>
         if wx_is_file W (wx_join W windir system32_rel) then wx_join W windir system32_rel else bare
     | None \<Rightarrow> bare)"

definition resolve_interpreter :: "win_env \<Rightarrow> string \<Rightarrow> interpreter option" where
  "resolve_interpreter W shell =
    (if shell = ''powershell'' then Some
       \<lparr> it_exe = resolve_exe W
           (''System32'' @ BACKSLASH # ''WindowsPowerShell'' @ BACKSLASH # ''v1.0'' @ BACKSLASH # ''powershell.exe'')
           ''powershell.exe'',
         it_flags = [''-NonInteractive'', ''-NoProfile'', ''-ExecutionPolicy'', ''Bypass'', ''-File''],
         it_ext = ''ps1'' \<rparr>
     else if shell = ''cmd'' then Some
       \<lparr> it_exe = resolve_exe W (''System32'' @ BACKSLASH # ''cmd.exe'') ''cmd.exe'', it_flags = [''/C''], it_ext = ''bat'' \<rparr>
     else None)"

definition win_tmp_dir :: "win_env \<Rightarrow> (string, string) result" where
  "win_tmp_dir W =
    (let dir = wx_join W (unwrap_or (wx_var W ''PROGRAMDATA'') (wx_temp_dir W)) ''OpenFrame'' in
     case wx_create_dir W dir of Some e \<Rightarrow> Err (''failed to create temp dir: '' @ e) | None \<Rightarrow> Ok dir)"

definition win_create_temp_script :: "win_env \<Rightarrow> string \<Rightarrow> string \<Rightarrow> script_files \<Rightarrow> (string, string) result \<times> script_files" where
  "win_create_temp_script W code ext files =
    (case win_tmp_dir W of
       Inl e \<Rightarrow> (Err e, files)
     | Inr dir \<Rightarrow>
         let path = wx_join W dir (temp_script_name (wx_uuid W ext) ext);
             fresh = \<lparr> sf_code = code, sf_mode = None, sf_owner = None \<rparr> in
         (case wx_write W path of
            Inl (e, left) \<Rightarrow>
              (Err (''failed to write temp script: '' @ e),
               (case left of None \<Rightarrow> files | Some part \<Rightarrow> files(path \<mapsto> fresh \<lparr> sf_code := part \<rparr>)))
          | Inr _ \<Rightarrow> (Ok path, files(path \<mapsto> fresh))))"

definition SCRIPT_READY_RETRIES :: nat where "SCRIPT_READY_RETRIES = 3"
definition SCRIPT_READY_DELAY_MS :: nat where "SCRIPT_READY_DELAY_MS = 200"

definition sharing_violation :: "int option \<Rightarrow> bool" where
  "sharing_violation e \<longleftrightarrow> e = Some 32 \<or> e = Some 33"

text \<open>Whether the script is locked, with the time slept; the first argument counts the attempts left.\<close>

fun readable_from :: "(nat \<Rightarrow> (int option, unit) result) \<Rightarrow> nat \<Rightarrow> nat \<Rightarrow> bool \<times> nat" where
  "readable_from open_file 0 attempt = (False, 0)"
| "readable_from open_file (Suc left) attempt =
     (case open_file attempt of
        Inr _ \<Rightarrow> (False, 0)
      | Inl e \<Rightarrow>
          if (sharing_violation e \<or> e = Some 5) \<and> 0 < left
          then (case readable_from open_file left (Suc attempt) of (locked, slept) \<Rightarrow>
                  (locked, SCRIPT_READY_DELAY_MS + slept))
          else (sharing_violation e, 0))"

definition wait_until_readable :: "win_env \<Rightarrow> string \<Rightarrow> bool \<times> nat" where
  "wait_until_readable W path = readable_from (wx_open W path) SCRIPT_READY_RETRIES 0"

section \<open>The process of the agent's own user\<close>

text \<open>Ending the job ends the processes in it; start\_kill ends the process alone.\<close>

definition terminate_job :: "bool \<Rightarrow> bool \<Rightarrow> nat \<Rightarrow> nat list \<Rightarrow> nat list" where
  "terminate_job job assigned now kills = (if job \<and> assigned then kills @ [now] else kills)"

definition normal_command :: "interpreter \<Rightarrow> string \<Rightarrow> script_params \<Rightarrow> script_command" where
  "normal_command it tmp_file p =
    (let cmd = build_script_command (it_exe it) (it_flags it @ tmp_file # pa_args p) in
     cmd \<lparr> sc_env := apply_env_vars (pa_env_vars p) (sc_env cmd) \<rparr>)"

text \<open>The last wait after a time-out has no bound: nothing is the run that does not end.\<close>

definition run_normal :: "win_env \<Rightarrow> interpreter \<Rightarrow> string \<Rightarrow> script_params \<Rightarrow> (exec_result \<times> nat) option" where
  "run_normal W it tmp_file p =
    (case wx_spawn W (normal_command it tmp_file p) of
       Inl e \<Rightarrow> Some (spawn_error_result e, 0)
     | Inr wc \<Rightarrow>
         let c = child_run.truncate wc;
             kill = terminate_job (unwrap_or (cr_pid c) 0 \<noteq> 0 \<and> wc_job wc) (wc_assigned wc);
             deadline = 1000 * unat (pa_timeout_secs p);
             q = cr_process c in
         if by_time (child_ends [] q) deadline then
           (case join_reads kill c (the (child_ends [] q)) [] of (outputs, now, _) \<Rightarrow>
              Some (finished (cp_end q) outputs (case cp_end q of ChildExited code \<Rightarrow> code | _ \<Rightarrow> 1), now))
         else
           (case join_reads kill c deadline (kill deadline []) of (outputs, now, kills) \<Rightarrow>
              map_option (\<lambda>ended. (stopped outputs (pa_timeout_secs p), max now ended))
                (child_ends (deadline # kills) q)))"

section \<open>The command line of the user's process\<close>

fun quote_loop :: "string \<Rightarrow> nat \<Rightarrow> string" where
  "quote_loop [] backslashes = replicate (backslashes * 2) BACKSLASH"
| "quote_loop (c # s) backslashes =
     (if c = BACKSLASH then quote_loop s (backslashes + 1)
      else if c = DQUOTE then replicate (backslashes * 2 + 1) BACKSLASH @ c # quote_loop s 0
      else replicate backslashes BACKSLASH @ c # quote_loop s 0)"

definition quote :: "string \<Rightarrow> string" where
  "quote arg =
    (if arg \<noteq> [] \<and> filter (\<lambda>b. b = CHR '' '' \<or> b = CHR 0x09 \<or> b = DQUOTE \<or> b = BACKSLASH) arg = [] then arg
     else DQUOTE # quote_loop arg 0 @ [DQUOTE])"

fun join_words :: "string list \<Rightarrow> string" where
  "join_words [] = []"
| "join_words [w] = w"
| "join_words (w # v # ws) = w @ CHR '' '' # join_words (v # ws)"

definition build_command_line :: "interpreter \<Rightarrow> string \<Rightarrow> string list \<Rightarrow> string" where
  "build_command_line it tmp_file args = join_words (quote (it_exe it) # it_flags it @ quote tmp_file # map quote args)"

section \<open>The environment block\<close>

text \<open>A string in UTF-16 (str::encode\_utf16), and back, with a replacement character for a lone surrogate
  (String::from\_utf16\_lossy).\<close>

definition utf16_units :: "nat \<Rightarrow> nat list" where
  "utf16_units c =
    (if c < 0x10000 then [c]
     else [0xD800 + (c - 0x10000) div 0x400, 0xDC00 + (c - 0x10000) mod 0x400])"

definition encode_utf16 :: "string \<Rightarrow> nat list" where
  "encode_utf16 s = concat (map utf16_units (code_points s))"

fun decode_utf16 :: "nat list \<Rightarrow> nat list" where
  "decode_utf16 [] = []"
| "decode_utf16 [u] = (if 0xD800 \<le> u \<and> u < 0xE000 then [0xFFFD] else [u])"
| "decode_utf16 (u # v # us) =
     (if \<not> (0xD800 \<le> u \<and> u < 0xE000) then u # decode_utf16 (v # us)
      else if u < 0xDC00 \<and> 0xDC00 \<le> v \<and> v < 0xE000
      then (0x10000 + (u - 0xD800) * 0x400 + (v - 0xDC00)) # decode_utf16 us
      else 0xFFFD # decode_utf16 (v # us))"

definition from_utf16_lossy :: "nat list \<Rightarrow> string" where
  "from_utf16_lossy us = concat (map encode_scalar (decode_utf16 us))"

function collect_block :: "nat list \<Rightarrow> string list" where
  "collect_block us =
    (let len = length (takeWhile (\<lambda>u. u \<noteq> 0) us) in
     if len = 0 then [] else from_utf16_lossy (take len us) # collect_block (drop (len + 1) us))"
  by pat_completeness auto
termination
proof (relation "measure length", simp)
  fix us :: "nat list" and len
  assume "len = length (takeWhile (\<lambda>u. u \<noteq> 0) us)" "len \<noteq> 0"
  then have "us \<noteq> []" by auto
  then show "(drop (len + 1) us, us) \<in> measure length" by simp
qed

declare collect_block.simps [simp del]

definition user_environment :: "win_env \<Rightarrow> 32 word \<Rightarrow> string list option" where
  "user_environment W token = map_option collect_block (wx_user_block W token)"

definition block_of :: "string list \<Rightarrow> nat list" where
  "block_of entries = concat (map (\<lambda>e. encode_utf16 e @ [0]) entries) @ [0]"

definition block_entries :: "win_env \<Rightarrow> 32 word \<Rightarrow> string list \<Rightarrow> string list" where
  "block_entries W token extra =
    (let base = unwrap_or (user_environment W token) (map (\<lambda>(k, v). k @ CHR ''='' # v) (wx_agent_env W));
         extra_keys = map (\<lambda>p. wx_uppercase W (fst p)) (List.map_filter split_env extra) in
     filter (\<lambda>entry. case split_env entry of
         Some (key, _) \<Rightarrow> wx_uppercase W key \<notin> set extra_keys | None \<Rightarrow> True) base
     @ filter (\<lambda>var. split_env var \<noteq> None) extra)"

definition build_env_block :: "win_env \<Rightarrow> 32 word \<Rightarrow> string list \<Rightarrow> nat list" where
  "build_env_block W token extra = block_of (block_entries W token extra)"

section \<open>The run in the user's session\<close>

definition first_active_session_token :: "win_env \<Rightarrow> 32 word option" where
  "first_active_session_token W =
    (case wx_sessions W of
       None \<Rightarrow> None
     | Some infos \<Rightarrow>
         map_option fst (List.find (\<lambda>(session, active). active \<and> wx_session_token W session) infos))"

definition token_for_active_session :: "win_env \<Rightarrow> 32 word option" where
  "token_for_active_session W =
    (if wx_console W \<noteq> 0xFFFFFFFF \<and> wx_session_token W (wx_console W) then Some (wx_console W)
     else first_active_session_token W)"

definition acquire_token :: "win_env \<Rightarrow> (string, 32 word) result" where
  "acquire_token W =
    (case token_for_active_session W of
       None \<Rightarrow> Err ''run_as_user requested but no active interactive session''
     | Some session \<Rightarrow>
         (case wx_duplicate W session of Some e \<Rightarrow> Err (''DuplicateTokenEx failed: '' @ e) | None \<Rightarrow> Ok session))"

definition wait_ms_of :: "32 word \<Rightarrow> nat" where
  "wait_ms_of timeout_secs = min (unat timeout_secs * 1000) (2 ^ 32 - 2)"

definition read_capped_file :: "string option \<Rightarrow> string" where
  "read_capped_file f = (case f of None \<Rightarrow> [] | Some bytes \<Rightarrow> clean_string (take MAX_OUTPUT_SIZE bytes))"

text \<open>The process once it is started: the result, the time, and the kills that were issued.\<close>

definition session_outcome :: "session_run \<Rightarrow> 32 word \<Rightarrow> exec_result \<times> nat \<times> nat list" where
  "session_outcome s timeout_secs =
    (let ended = child_ends [] (sr_process s);
         timed_out = \<not> by_time ended (wait_ms_of timeout_secs);
         now = (if timed_out then wait_ms_of timeout_secs else the ended);
         kills = (if timed_out then terminate_job (sr_job s) (sr_assigned s) now [] else []) in
     (\<lparr> er_stdout = read_capped_file (sr_out s now),
        er_stderr = read_capped_file (sr_err s now) @ (if timed_out then timeout_note timeout_secs else []),
        er_retcode = (if timed_out then 98 else sint (unwrap_or (sr_exit_code s) 1)),
        er_timed_out = timed_out \<rparr>, now, kills))"

definition made_empty :: "string \<Rightarrow> script_files \<Rightarrow> script_files" where
  "made_empty path files = files(path \<mapsto> \<lparr> sf_code = [], sf_mode = None, sf_owner = None \<rparr>)"

fun first_error :: "string option list \<Rightarrow> string option" where
  "first_error [] = None"
| "first_error (Some e # _) = Some e"
| "first_error (None # es) = first_error es"

definition run_as_blocking ::
  "win_env \<Rightarrow> string \<Rightarrow> string list \<Rightarrow> string \<Rightarrow> string \<Rightarrow> 32 word \<Rightarrow> script_files \<Rightarrow>
     (string, exec_result \<times> nat \<times> nat list) result \<times> script_files" where
  "run_as_blocking W command_line env_vars out_path err_path timeout_secs files =
    (case acquire_token W of
       Inl e \<Rightarrow> (Err e, files)
     | Inr token \<Rightarrow>
         (case wx_open_nul W of
            Some e \<Rightarrow> (Err (''failed to open NUL: '' @ e), files)
          | None \<Rightarrow>
              (case wx_create W out_path of
                 Some e \<Rightarrow> (Err (''failed to create stdout file: '' @ e), files)
               | None \<Rightarrow>
                   (case wx_create W err_path of
                      Some e \<Rightarrow> (Err (''failed to create stderr file: '' @ e), made_empty out_path files)
                    | None \<Rightarrow>
                        let result =
                              (case first_error [wx_inherit W 0, wx_inherit W 1, wx_inherit W 2] of
                                 Some e \<Rightarrow> Err (''SetHandleInformation failed: '' @ e)
                               | None \<Rightarrow>
                                   (case wx_create_process W token command_line (build_env_block W token env_vars) of
                                      Inl e \<Rightarrow> Err (''CreateProcessAsUserW failed: '' @ e)
                                    | Inr s \<Rightarrow> Ok (session_outcome s timeout_secs))) in
                        (result,
                         drop_file_guard (wx_remove W) out_path (drop_file_guard (wx_remove W) err_path
                           (made_empty err_path (made_empty out_path files))))))))"

definition run_as_interactive ::
  "win_env \<Rightarrow> interpreter \<Rightarrow> string \<Rightarrow> script_params \<Rightarrow> script_files \<Rightarrow> (exec_result \<times> nat \<times> nat list) \<times> script_files" where
  "run_as_interactive W it tmp_file p files =
    (case wx_parent W tmp_file of
       None \<Rightarrow> ((spawn_error_result ''temp script has no parent directory'', 0, []), files)
     | Some dir \<Rightarrow>
         (case wx_task_fails W of
            Some e \<Rightarrow> ((spawn_error_result (''run-as task failed: '' @ e), 0, []), files)
          | None \<Rightarrow>
              (case run_as_blocking W (build_command_line it tmp_file (pa_args p)) (pa_env_vars p)
                  (wx_join W dir (temp_script_name (wx_uuid W ''out'') ''out''))
                  (wx_join W dir (temp_script_name (wx_uuid W ''err'') ''err''))
                  (pa_timeout_secs p) files of
                 (Inl e, files1) \<Rightarrow> ((spawn_error_result e, 0, []), files1)
               | (Inr x, files1) \<Rightarrow> (x, files1))))"

text \<open>The whole run; nothing is the run that does not end.\<close>

definition windows_execute_script :: "win_env \<Rightarrow> script_params \<Rightarrow> script_files \<Rightarrow> ((exec_result \<times> nat) \<times> script_files) option" where
  "windows_execute_script W p files =
    (case resolve_interpreter W (pa_shell p) of
       None \<Rightarrow> Some ((spawn_error_result
           (''unsupported shell '' @ quoted (pa_shell p) @ '' (expected powershell or cmd)''), 0), files)
     | Some it \<Rightarrow>
         (case win_create_temp_script W (pa_code p) (it_ext it) files of
            (Inl e, files1) \<Rightarrow> Some ((spawn_error_result e, 0), files1)
          | (Inr path, files1) \<Rightarrow>
              (case wait_until_readable W path of (locked, slept) \<Rightarrow>
                 if locked then
                   Some ((spawn_error_result ''Script file locked by another process'', slept), drop_file_guard (wx_remove W) path files1)
                 else if pa_privilege p = UserSession then
                   (case run_as_interactive W it path p files1 of ((res, t, _), files2) \<Rightarrow>
                      Some ((res, slept + t), drop_file_guard (wx_remove W) path files2))
                 else
                   map_option (\<lambda>(res, t). ((res, slept + t), drop_file_guard (wx_remove W) path files1))
                     (run_normal W it path p))))"

section \<open>The environment block read back\<close>

lemma decode_utf16_units: "is_scalar c \<Longrightarrow> decode_utf16 (utf16_units c @ us) = c # decode_utf16 us"
proof (cases "c < 0x10000")
  case True
  moreover assume "is_scalar c"
  ultimately show ?thesis by (cases us) (auto simp: utf16_units_def is_scalar_def)
next
  case False
  moreover assume "is_scalar c"
  moreover define d where "d = c - 0x10000"
  ultimately have d: "d < 0x100000" "c = 0x10000 + d" by (auto simp: is_scalar_def)
  then have "d div 0x400 < 0x400" "d mod 0x400 < 0x400" by auto
  then show ?thesis using d False by (simp add: utf16_units_def)
qed

lemma decode_utf16_concat:
  "\<forall>c \<in> set cs. is_scalar c \<Longrightarrow> decode_utf16 (concat (map utf16_units cs)) = cs"
  by (induction cs) (simp_all add: decode_utf16_units)

lemma utf16_lossless: "is_utf8 s \<Longrightarrow> from_utf16_lossy (encode_utf16 s) = s"
  using utf8_code_points[of s] by (simp add: from_utf16_lossy_def encode_utf16_def decode_utf16_concat)

lemma utf16_no_zero:
  assumes "is_utf8 s" "CHR 0x00 \<notin> set s"
  shows "0 \<notin> set (encode_utf16 s)"
proof -
  have "0 \<notin> set (code_points s)"
  proof
    assume "0 \<in> set (code_points s)"
    then have "set (encode_scalar 0) \<subseteq> set (concat (map encode_scalar (code_points s)))" by auto
    moreover have "CHR 0x00 \<in> set (encode_scalar 0)" by code_simp
    ultimately show False using utf8_code_points(2)[OF assms(1)] assms(2) by auto
  qed
  moreover have "0 \<notin> set (utf16_units c)" if "c \<noteq> 0" for c using that by (simp add: utf16_units_def)
  ultimately show ?thesis by (auto simp: encode_utf16_def) (metis gr0I)
qed

lemma utf16_empty: "is_utf8 s \<Longrightarrow> encode_utf16 s = [] \<longleftrightarrow> s = []"
proof -
  assume "is_utf8 s"
  then have "encode_utf16 s = [] \<Longrightarrow> s = []" using utf16_lossless[of s] by (simp add: from_utf16_lossy_def)
  moreover have "encode_utf16 [] = []" by (simp add: encode_utf16_def code_points.simps[of "[]"])
  ultimately show ?thesis by blast
qed

definition block_entry :: "string \<Rightarrow> bool" where
  "block_entry e \<longleftrightarrow> is_utf8 e \<and> e \<noteq> [] \<and> CHR 0x00 \<notin> set e"

lemma collect_block_of: "list_all block_entry entries \<Longrightarrow> collect_block (block_of entries) = entries"
proof (induction entries)
  case Nil
  then show ?case by (simp add: block_of_def collect_block.simps)
next
  case (Cons e es)
  then have e: "is_utf8 e" "e \<noteq> []" "CHR 0x00 \<notin> set e" by (simp_all add: block_entry_def)
  let ?u = "encode_utf16 e"
  have b: "block_of (e # es) = ?u @ 0 # block_of es" by (simp add: block_of_def)
  have "takeWhile (\<lambda>u. u \<noteq> 0) (?u @ 0 # block_of es) = ?u"
    using utf16_no_zero[OF e(1,3)] by (subst takeWhile_append2) (auto intro: gr0I)
  moreover have "?u \<noteq> []" using utf16_empty[OF e(1)] e(2) by simp
  ultimately have "collect_block (block_of (e # es)) = from_utf16_lossy ?u # collect_block (block_of es)"
    unfolding b by (subst collect_block.simps) simp
  then show ?case using Cons utf16_lossless[OF e(1)] by simp
qed

text \<open>C33. A process started in the user's session reads from its environment block exactly the entries of
  the session that the script does not override, whatever the case of their names, and then the script's
  own variables, provided these entries are text without NUL.\<close>

theorem environment_block_read_back:
  assumes "user_environment W token = Some base" "list_all block_entry base" "list_all block_entry extra"
  shows "collect_block (build_env_block W token extra) =
    filter (\<lambda>entry. \<not> list_ex (\<lambda>var. split_env var \<noteq> None \<and> split_env entry \<noteq> None \<and>
        wx_uppercase W (fst (the (split_env var))) = wx_uppercase W (fst (the (split_env entry)))) extra) base
    @ filter (\<lambda>var. split_env var \<noteq> None) extra"
proof -
  have keep: "(case split_env entry of
        Some (key, _) \<Rightarrow> wx_uppercase W key \<notin> set (map (\<lambda>p. wx_uppercase W (fst p)) (List.map_filter split_env extra))
      | None \<Rightarrow> True) =
    (\<not> list_ex (\<lambda>var. split_env var \<noteq> None \<and> split_env entry \<noteq> None \<and>
        wx_uppercase W (fst (the (split_env var))) = wx_uppercase W (fst (the (split_env entry)))) extra)" for entry
    by (induction extra) (auto simp: List.map_filter_simps split: option.splits)
  have "list_all block_entry (block_entries W token extra)"
    using assms by (auto simp: block_entries_def list_all_iff Let_def)
  then show ?thesis
    using assms(1) keep by (simp add: build_env_block_def collect_block_of block_entries_def Let_def cong: filter_cong)
qed

text \<open>When a run in the user's session times out and its process is not in a job, nothing ends the
  process: the run is reported as timed out with 98, no kill is issued, and the process goes on to its
  own end; when it is in a job, that is ended once, at the time-out.\<close>

theorem session_timeout_may_leave_script:
  assumes "session_outcome s timeout_secs = (res, t, kills)" "er_timed_out res"
  shows "er_retcode res = 98 \<and> t = wait_ms_of timeout_secs \<and>
    kills = (if sr_job s \<and> sr_assigned s then [t] else []) \<and>
    (sr_job s \<and> sr_assigned s \<or> child_ends kills (sr_process s) = cp_ends_at (sr_process s))"
  using assms
  by (auto simp: session_outcome_def Let_def terminate_job_def child_ends_def ends_with_kills_def)

text \<open>A run of the agent's own user does not return when its process outlives the time-out and nothing ends it.\<close>

lemma normal_run_may_hang:
  assumes "wx_spawn W (normal_command it path p) = Ok wc" "cp_ends_at (cr_process wc) = None" "cp_killed_in (cr_process wc) = None"
  shows "run_normal W it path p = None"
proof -
  have "ends_with_kills None None kills = None" for kills
    by (induction kills rule: rev_induct) (simp_all add: ends_with_kills_def earliest_def)
  then show ?thesis
    using assms by (auto simp: run_normal_def child_run.truncate_def by_time_def child_ends_def Let_def split: prod.split)
qed

definition demo_session :: session_run where
  "demo_session =
    \<lparr> sr_process = \<lparr> cp_end = ChildExited 0, cp_ends_at = None, cp_killed_in = Some 0 \<rparr>, sr_job = True, sr_assigned = False,
      sr_exit_code = Some 259, sr_out = (\<lambda>_. Some []), sr_err = (\<lambda>_. Some []) \<rparr>"

lemma session_timeout_may_leave_script_witness:
  "er_retcode (fst (session_outcome demo_session 900)) = 98 \<and>
   child_ends (snd (snd (session_outcome demo_session 900))) (sr_process demo_session) = None"
proof -
  obtain res t kills where r: "session_outcome demo_session 900 = (res, t, kills)" by (rule prod_cases3)
  then have "er_timed_out res"
    by (auto simp: session_outcome_def demo_session_def Let_def time_defs)
  from session_timeout_may_leave_script[OF r this] show ?thesis
    using r by (auto simp: demo_session_def)
qed

text \<open>A session with two entries.\<close>

definition demo_win :: win_env where
  "demo_win =
    \<lparr> wx_var = (\<lambda>_. None), wx_join = (\<lambda>a b. a @ BACKSLASH # b), wx_is_file = (\<lambda>_. False), wx_temp_dir = ''tmp'',
      wx_create_dir = (\<lambda>_. None), wx_uuid = (\<lambda>_. ''0''), wx_write = (\<lambda>_. Ok ()), wx_open = (\<lambda>_ _. Ok ()),
      wx_remove = (\<lambda>_. None), wx_parent = (\<lambda>_. Some ''tmp''), wx_spawn = (\<lambda>_. Err ''none''), wx_console = 1,
      wx_session_token = (\<lambda>_. True), wx_sessions = None, wx_duplicate = (\<lambda>_. None), wx_open_nul = None,
      wx_create = (\<lambda>_. None), wx_inherit = (\<lambda>_. None), wx_uppercase = id,
      wx_user_block = (\<lambda>_. Some (block_of [''Path=a'', ''User=ada''])), wx_agent_env = [],
      wx_create_process = (\<lambda>_ _ _. Ok demo_session), wx_task_fails = None \<rparr>"

lemma environment_block_read_back_witness:
  "collect_block (build_env_block demo_win 1 [''User=eve'']) = [''Path=a'', ''User=eve'']"
proof -
  have entries: "list_all block_entry [''Path=a'', ''User=ada'']" "list_all block_entry [''User=eve'']"
    by code_simp+
  have "user_environment demo_win 1 = Some [''Path=a'', ''User=ada'']"
    using collect_block_of[OF entries(1)] by (simp add: user_environment_def demo_win_def)
  from environment_block_read_back[OF this entries] show ?thesis
    by (simp add: demo_win_def split_env_def find_char_def)
qed

end
