(* ===== verification/ChatDialogs.thy ===== *)
theory ChatDialogs
  imports Prelude
begin

text \<open>The chat application's consumers of a dialog's chunks (openframe-chat, nats\_bridge/dialogs.rs). A dialog
  that is open has a state; its chunks come through a router, a task that reads an ordered consumer
  and hands each chunk to the web view. Tasks run concurrently: the locked sections of the code are the
  operations here, and a step relation interleaves them. A chunk is its sequence number in the stream.

  The stream of a dialog is a parameter: chunks, the numbers of its readable chunks.
  An ordered consumer started at a number yields the dialog's chunks from it on, in order and without
  a gap, and may break at any time. An aborted task may still run for a while. Calls of the same
  function by several tasks are kept as lists of pending calls, in no particular order.\<close>

section \<open>State\<close>

text \<open>The last three fields are not in the code: the highest number the web view needs no chunk up to (from
  the history it fetched, or older than the first consumer of a dialog opened for new chunks only), the
  chunks that passed to the web view since the dialog was opened, and those of them that were dropped
  because no event channel was registered.\<close>

record dialog_state =
  ds_initial :: "nat option"
  ds_last :: "nat option"
  ds_task :: "nat option"
  ds_generation :: nat
  ds_have :: nat
  ds_sent :: "nat list"
  ds_dropped :: "nat list"

record router =
  rt_dialog :: string
  rt_next :: nat
  rt_generation :: nat
  rt_aborted :: bool
  rt_leaving :: bool

text \<open>A consumer being created: what the caller saw, and the attempt of the retry loop, 0 outside of it.\<close>

record creation =
  cn_dialog :: string
  cn_initial :: "nat option"
  cn_last :: "nat option"
  cn_attempt :: nat

record chat_state =
  ch_dialogs :: "string \<rightharpoonup> dialog_state"
  ch_routers :: "nat \<rightharpoonup> router"
  ch_next_task :: nat
  ch_recreates :: "(string \<times> nat) list"
  ch_creations :: "creation list"
  ch_retries :: "(string \<times> nat) list"
  ch_resubs :: "string list"
  ch_client :: bool
  ch_channel :: bool
  ch_events :: "(string \<times> nat) list"
  ch_confirmed :: "string list"

section \<open>Operations\<close>

definition compute_start_seq :: "nat option \<Rightarrow> nat option \<Rightarrow> nat option" where
  "compute_start_seq opt_start_seq last_delivered =
    (case (opt_start_seq, last_delivered) of
       (Some a, Some b) \<Rightarrow> Some (max a b + 1)
     | (Some a, None) \<Rightarrow> Some (a + 1)
     | (None, Some b) \<Rightarrow> Some (b + 1)
     | (None, None) \<Rightarrow> None)"

definition emit_subscribed :: "string \<Rightarrow> chat_state \<Rightarrow> chat_state" where
  "emit_subscribed d w = w \<lparr> ch_confirmed := ch_confirmed w @ [d] \<rparr>"

definition abort_task :: "nat option \<Rightarrow> chat_state \<Rightarrow> chat_state" where
  "abort_task t w =
    (case t of
       None \<Rightarrow> w
     | Some i \<Rightarrow> w \<lparr> ch_routers := (ch_routers w)(i := map_option (\<lambda>r. r \<lparr> rt_aborted := True \<rparr>) (ch_routers w i)) \<rparr>)"

definition put_dialog :: "string \<Rightarrow> dialog_state \<Rightarrow> chat_state \<Rightarrow> chat_state" where
  "put_dialog d s w = w \<lparr> ch_dialogs := (ch_dialogs w)(d \<mapsto> s) \<rparr>"

text \<open>The call of recreate\_dialog\_consumer that follows is pending; attempt 0 schedules a retry loop when it fails.\<close>

definition subscribe_dialog :: "string \<Rightarrow> nat option \<Rightarrow> chat_state \<Rightarrow> chat_state" where
  "subscribe_dialog d opt_start_seq w =
    (if d = [] then w
     else case ch_dialogs w d of
       Some s \<Rightarrow>
         let w1 = put_dialog d (s \<lparr> ds_initial := opt_start_seq, ds_have := max (ds_have s) (unwrap_or opt_start_seq 0) \<rparr>) w in
         if ds_task s \<noteq> None then emit_subscribed d w1
         else w1 \<lparr> ch_recreates := ch_recreates w1 @ [(d, 0)] \<rparr>
     | None \<Rightarrow>
         let w1 = put_dialog d \<lparr> ds_initial = opt_start_seq, ds_last = None, ds_task = None, ds_generation = 0,
                                  ds_have = unwrap_or opt_start_seq 0, ds_sent = [],
                                  ds_dropped = [] \<rparr> w in
         w1 \<lparr> ch_recreates := ch_recreates w1 @ [(d, 0)] \<rparr>)"

definition unsubscribe_dialog :: "string \<Rightarrow> chat_state \<Rightarrow> chat_state" where
  "unsubscribe_dialog d w =
    (case ch_dialogs w d of
       None \<Rightarrow> w
     | Some s \<Rightarrow> abort_task (ds_task s) (w \<lparr> ch_dialogs := (ch_dialogs w)(d := None) \<rparr>))"

text \<open>The snapshot; whether a retry may help is known when the creation ends.\<close>

definition recreate_dialog_consumer :: "string \<Rightarrow> nat \<Rightarrow> chat_state \<Rightarrow> chat_state" where
  "recreate_dialog_consumer d attempt w =
    (case ch_dialogs w d of
       None \<Rightarrow> w
     | Some s \<Rightarrow>
         if ds_task s \<noteq> None \<or> \<not> ch_client w then w
         else w \<lparr> ch_creations := ch_creations w @
           [\<lparr> cn_dialog = d, cn_initial = ds_initial s, cn_last = ds_last s, cn_attempt = attempt \<rparr>] \<rparr>)"

definition MAX_ATTEMPTS :: nat where "MAX_ATTEMPTS = 5"

definition schedule_consumer_recreate :: "string \<Rightarrow> chat_state \<Rightarrow> chat_state" where
  "schedule_consumer_recreate d w = w \<lparr> ch_retries := ch_retries w @ [(d, 1)] \<rparr>"

text \<open>After a failed attempt: the first schedules the loop, the loop goes on or gives up.\<close>

definition creation_failed :: "string \<Rightarrow> nat \<Rightarrow> chat_state \<Rightarrow> chat_state" where
  "creation_failed d attempt w =
    (if attempt = 0 then schedule_consumer_recreate d w
     else if attempt < MAX_ATTEMPTS then w \<lparr> ch_retries := ch_retries w @ [(d, attempt + 1)] \<rparr>
     else w)"

text \<open>A dialog without a place to start from gets the end of the stream as its last number.\<close>

definition floored :: "creation \<Rightarrow> nat \<Rightarrow> dialog_state \<Rightarrow> dialog_state" where
  "floored c tail s =
    (if compute_start_seq (cn_initial c) (cn_last c) = None \<and> ds_last s = None
     then s \<lparr> ds_last := Some tail \<rparr> else s)"

text \<open>Not in the code: what the web view needs no chunk of when it asked for new chunks only, fixed by the
  first consumer of the dialog, whatever the code keeps for resuming.\<close>

definition base_known :: "creation \<Rightarrow> nat \<Rightarrow> dialog_state \<Rightarrow> dialog_state" where
  "base_known c tail s =
    (if ds_generation s = 0 \<and> cn_initial c = None then s \<lparr> ds_have := max (ds_have s) tail \<rparr> else s)"

text \<open>The consumer is there, with the last number of the stream when it was asked for: unless the dialog was
  closed, its router replaces the one before it.\<close>

definition store_consumer :: "creation \<Rightarrow> nat \<Rightarrow> chat_state \<Rightarrow> chat_state" where
  "store_consumer c tail w =
    (let start_seq = unwrap_or (compute_start_seq (cn_initial c) (cn_last c)) (tail + 1);
         d = cn_dialog c in
     case ch_dialogs w d of
       None \<Rightarrow> w
     | Some s \<Rightarrow>
         let generation = ds_generation s + 1;
             i = ch_next_task w;
             w1 = abort_task (ds_task s) w in
         emit_subscribed d
           (put_dialog d ((base_known c tail (floored c tail s)) \<lparr> ds_generation := generation, ds_task := Some i \<rparr>)
             (w1 \<lparr> ch_next_task := i + 1,
                    ch_routers := (ch_routers w1)(i \<mapsto>
                      \<lparr> rt_dialog = d, rt_next = start_seq, rt_generation = generation, rt_aborted = False,
                        rt_leaving = False \<rparr>) \<rparr>)))"

definition create_and_store_consumer :: "creation \<Rightarrow> nat option \<Rightarrow> chat_state \<Rightarrow> chat_state" where
  "create_and_store_consumer c made w =
    (case made of
       None \<Rightarrow> creation_failed (cn_dialog c) (cn_attempt c) w
     | Some tail \<Rightarrow> store_consumer c tail w)"

text \<open>One item of a router: the end of the stream, something unreadable, or a chunk.\<close>

datatype stream_item = StreamEnds | Unreadable nat | ChunkAt nat

definition put_router :: "nat \<Rightarrow> router \<Rightarrow> chat_state \<Rightarrow> chat_state" where
  "put_router i r w = w \<lparr> ch_routers := (ch_routers w)(i \<mapsto> r) \<rparr>"

definition dialog_router :: "nat \<Rightarrow> router \<Rightarrow> stream_item \<Rightarrow> chat_state \<Rightarrow> chat_state" where
  "dialog_router i r item w =
    (case item of
       StreamEnds \<Rightarrow> put_router i (r \<lparr> rt_leaving := True \<rparr>) w
     | Unreadable n \<Rightarrow> put_router i (r \<lparr> rt_next := n + 1 \<rparr>) w
     | ChunkAt n \<Rightarrow>
         (case ch_dialogs w (rt_dialog r) of
            None \<Rightarrow> put_router i (r \<lparr> rt_leaving := True \<rparr>) w
          | Some s \<Rightarrow>
              let w1 = put_router i (r \<lparr> rt_next := n + 1 \<rparr>) w in
              if (case ds_last s of Some prev \<Rightarrow> n \<le> prev | None \<Rightarrow> False) then w1
              else
                let w2 = put_dialog (rt_dialog r) (s \<lparr> ds_last := Some n, ds_sent := ds_sent s @ [n],
                      ds_dropped := (if ch_channel w1 then ds_dropped s else ds_dropped s @ [n]) \<rparr>) w1 in
                if ch_channel w2 then w2 \<lparr> ch_events := ch_events w2 @ [(rt_dialog r, n)] \<rparr> else w2))"

text \<open>The end of a router: it takes itself out, and only the current one asks for another.\<close>

definition router_exit :: "nat \<Rightarrow> router \<Rightarrow> chat_state \<Rightarrow> chat_state" where
  "router_exit i r w =
    (let w1 = w \<lparr> ch_routers := (ch_routers w)(i := None) \<rparr>; d = rt_dialog r in
     case ch_dialogs w1 d of
       Some s \<Rightarrow>
         if ds_generation s = rt_generation r
         then schedule_consumer_recreate d (put_dialog d (s \<lparr> ds_task := None \<rparr>) w1)
         else w1
     | None \<Rightarrow> w1)"

text \<open>One dialog after a reconnect: its task is dead and is taken out, and another consumer asked for.\<close>

definition resubscribe_dialog :: "string \<Rightarrow> chat_state \<Rightarrow> chat_state" where
  "resubscribe_dialog d w =
    (let w1 = (case ch_dialogs w d of
         Some s \<Rightarrow> abort_task (ds_task s) (put_dialog d (s \<lparr> ds_task := None \<rparr>) w) | None \<Rightarrow> w) in
     w1 \<lparr> ch_recreates := ch_recreates w1 @ [(d, 0)] \<rparr>)"

definition resubscribe_all_dialogs :: "string list \<Rightarrow> chat_state \<Rightarrow> chat_state" where
  "resubscribe_all_dialogs ids w = w \<lparr> ch_resubs := ch_resubs w @ ids \<rparr>"

definition register_event_channel :: "chat_state \<Rightarrow> chat_state" where
  "register_event_channel w = w \<lparr> ch_channel := True \<rparr>"

definition chat_start :: chat_state where
  "chat_start =
    \<lparr> ch_dialogs = Map.empty, ch_routers = Map.empty, ch_next_task = 0, ch_recreates = [], ch_creations = [],
      ch_retries = [], ch_resubs = [], ch_client = False, ch_channel = False, ch_events = [], ch_confirmed = [] \<rparr>"

section \<open>Steps\<close>

text \<open>What a consumer yields next for a dialog with these chunks: its end, the next of them, or a message
  that is none before it.\<close>

definition next_item :: "nat set \<Rightarrow> nat \<Rightarrow> stream_item \<Rightarrow> bool" where
  "next_item published from item \<longleftrightarrow>
     (case item of
        StreamEnds \<Rightarrow> True
      | ChunkAt n \<Rightarrow> n \<in> published \<and> from \<le> n \<and> (\<forall>m \<in> published. from \<le> m \<longrightarrow> n \<le> m)
      | Unreadable n \<Rightarrow> from \<le> n \<and> (\<forall>m \<in> published. from \<le> m \<longrightarrow> n < m))"

text \<open>No other creation and no router of the dialog is under way.\<close>

definition settled_dialog :: "string \<Rightarrow> chat_state \<Rightarrow> bool" where
  "settled_dialog d w \<longleftrightarrow>
     (\<forall>c \<in> set (ch_creations w). cn_dialog c \<noteq> d) \<and> (\<forall>i r. ch_routers w i = Some r \<longrightarrow> rt_dialog r \<noteq> d)"

text \<open>The steps of all tasks. With turns, a consumer is created, and a dialog opened, only when nothing of
  the dialog before it is under way, and a dialog that was given a place to start from is not subscribed
  again without one; without, as the code has it, whenever it happens.\<close>

inductive chat_step :: "bool \<Rightarrow> (string \<Rightarrow> nat set) \<Rightarrow> chat_state \<Rightarrow> chat_state \<Rightarrow> bool" for turns chunks where
  subscribes: "(turns \<and> ch_dialogs w d = None \<Longrightarrow> settled_dialog d w) \<Longrightarrow>
     (turns \<and> opt_start_seq = None \<Longrightarrow> \<forall>s. ch_dialogs w d = Some s \<longrightarrow> ds_initial s = None) \<Longrightarrow>
     chat_step turns chunks w (subscribe_dialog d opt_start_seq w)"
| unsubscribes: "chat_step turns chunks w (unsubscribe_dialog d w)"
| recreates: "(d, attempt) \<in> set (ch_recreates w) \<Longrightarrow> (turns \<Longrightarrow> settled_dialog d w) \<Longrightarrow>
     chat_step turns chunks w
       (recreate_dialog_consumer d attempt (w \<lparr> ch_recreates := remove1 (d, attempt) (ch_recreates w) \<rparr>))"
| creates: "c \<in> set (ch_creations w) \<Longrightarrow>
     chat_step turns chunks w (create_and_store_consumer c made (w \<lparr> ch_creations := remove1 c (ch_creations w) \<rparr>))"
| yields: "ch_routers w i = Some r \<Longrightarrow> \<not> rt_leaving r \<Longrightarrow> next_item (chunks (rt_dialog r)) (rt_next r) item \<Longrightarrow>
     chat_step turns chunks w (dialog_router i r item w)"
| leaves: "ch_routers w i = Some r \<Longrightarrow> rt_leaving r \<Longrightarrow> chat_step turns chunks w (router_exit i r w)"
| stops: "ch_routers w i = Some r \<Longrightarrow> rt_aborted r \<Longrightarrow>
     chat_step turns chunks w (w \<lparr> ch_routers := (ch_routers w)(i := None) \<rparr>)"
| wakes: "(d, attempt) \<in> set (ch_retries w) \<Longrightarrow>
     chat_step turns chunks w (w \<lparr> ch_retries := remove1 (d, attempt) (ch_retries w),
                                    ch_recreates := ch_recreates w @ [(d, attempt)] \<rparr>)"
| connects: "set ids = dom (ch_dialogs w) \<Longrightarrow>
     chat_step turns chunks w (resubscribe_all_dialogs ids (w \<lparr> ch_client := True \<rparr>))"
| resubscribes: "d \<in> set (ch_resubs w) \<Longrightarrow>
     chat_step turns chunks w (resubscribe_dialog d (w \<lparr> ch_resubs := remove1 d (ch_resubs w) \<rparr>))"
| registers: "chat_step turns chunks w (register_event_channel w)"

abbreviation chat_reachable :: "bool \<Rightarrow> (string \<Rightarrow> nat set) \<Rightarrow> chat_state \<Rightarrow> bool" where
  "chat_reachable turns chunks \<equiv> (chat_step turns chunks)\<^sup>*\<^sup>* chat_start"

section \<open>What every interleaving keeps\<close>

definition dialog_ok :: "dialog_state \<Rightarrow> bool" where
  "dialog_ok s \<longleftrightarrow> sorted_wrt (<) (ds_sent s) \<and> (\<forall>n \<in> set (ds_sent s). \<exists>b. ds_last s = Some b \<and> n \<le> b)"

definition task_ok :: "chat_state \<Rightarrow> string \<Rightarrow> dialog_state \<Rightarrow> bool" where
  "task_ok w d s \<longleftrightarrow> (\<forall>i. ds_task s = Some i \<longrightarrow> (\<exists>r. ch_routers w i = Some r \<and> rt_dialog r = d \<and>
     rt_generation r = ds_generation s \<and> \<not> rt_aborted r))"

definition chat_ok :: "chat_state \<Rightarrow> bool" where
  "chat_ok w \<longleftrightarrow> (\<forall>d s. ch_dialogs w d = Some s \<longrightarrow> dialog_ok s \<and> task_ok w d s) \<and>
     (\<forall>i r. ch_routers w i = Some r \<longrightarrow> i < ch_next_task w)"

lemma chat_okD:
  "chat_ok w \<Longrightarrow> ch_dialogs w d = Some s \<Longrightarrow> dialog_ok s \<and> task_ok w d s"
  "chat_ok w \<Longrightarrow> ch_routers w i = Some r \<Longrightarrow> i < ch_next_task w"
  by (auto simp: chat_ok_def)

lemma emit_subscribed_fields [simp]:
  "ch_dialogs (emit_subscribed d w) = ch_dialogs w" "ch_routers (emit_subscribed d w) = ch_routers w"
  "ch_next_task (emit_subscribed d w) = ch_next_task w" "ch_creations (emit_subscribed d w) = ch_creations w"
  by (simp_all add: emit_subscribed_def)

lemma put_dialog_fields [simp]:
  "ch_dialogs (put_dialog d s w) = (ch_dialogs w)(d \<mapsto> s)" "ch_routers (put_dialog d s w) = ch_routers w"
  "ch_next_task (put_dialog d s w) = ch_next_task w" "ch_creations (put_dialog d s w) = ch_creations w"
  "ch_channel (put_dialog d s w) = ch_channel w"
  by (simp_all add: put_dialog_def)

lemma put_router_fields [simp]:
  "ch_dialogs (put_router i r w) = ch_dialogs w" "ch_routers (put_router i r w) = (ch_routers w)(i \<mapsto> r)"
  "ch_next_task (put_router i r w) = ch_next_task w" "ch_creations (put_router i r w) = ch_creations w"
  "ch_channel (put_router i r w) = ch_channel w"
  by (simp_all add: put_router_def)

lemma schedule_fields [simp]:
  "ch_dialogs (schedule_consumer_recreate d w) = ch_dialogs w" "ch_routers (schedule_consumer_recreate d w) = ch_routers w"
  "ch_next_task (schedule_consumer_recreate d w) = ch_next_task w"
  "ch_creations (schedule_consumer_recreate d w) = ch_creations w"
  by (simp_all add: schedule_consumer_recreate_def)

lemma failed_fields [simp]:
  "ch_dialogs (creation_failed d a w) = ch_dialogs w" "ch_routers (creation_failed d a w) = ch_routers w"
  "ch_next_task (creation_failed d a w) = ch_next_task w" "ch_creations (creation_failed d a w) = ch_creations w"
  by (simp_all add: creation_failed_def)

lemma abort_fields [simp]:
  "ch_dialogs (abort_task t w) = ch_dialogs w" "ch_next_task (abort_task t w) = ch_next_task w"
  "ch_creations (abort_task t w) = ch_creations w"
  by (simp_all add: abort_task_def split: option.split)

lemma abort_routers:
  "ch_routers (abort_task t w) j =
     (if t = Some j then map_option (\<lambda>r. r \<lparr> rt_aborted := True \<rparr>) (ch_routers w j) else ch_routers w j)"
  by (simp add: abort_task_def split: option.split)

lemma abort_routerD:
  "ch_routers (abort_task t w) j = Some r \<Longrightarrow>
     \<exists>r0. ch_routers w j = Some r0 \<and> rt_dialog r = rt_dialog r0 \<and> rt_next r = rt_next r0 \<and>
       rt_generation r = rt_generation r0 \<and> rt_leaving r = rt_leaving r0"
  by (auto simp: abort_routers split: if_splits)

text \<open>Only the tasks of a dialog are aborted with it.\<close>

lemma task_ok_abort:
  assumes "chat_ok w" "ch_dialogs w d = Some s" "ch_dialogs w e = Some t" "e \<noteq> d"
  shows "task_ok (abort_task (ds_task s) w) e t"
  using chat_okD(1)[OF assms(1,2)] chat_okD(1)[OF assms(1,3)] assms(4)
  by (fastforce simp: task_ok_def abort_routers)

lemma chat_ok_cong:
  "ch_dialogs v = ch_dialogs w \<Longrightarrow> ch_routers v = ch_routers w \<Longrightarrow> ch_next_task v = ch_next_task w \<Longrightarrow> chat_ok v = chat_ok w"
  by (simp add: chat_ok_def task_ok_def)

lemma chat_ok_drop_router:
  assumes "chat_ok w" "ch_routers w i = Some r"
    "\<And>s. ch_dialogs w (rt_dialog r) = Some s \<Longrightarrow> ds_task s = Some i \<Longrightarrow> False"
  shows "chat_ok (w \<lparr> ch_routers := (ch_routers w)(i := None) \<rparr>)"
  using assms unfolding chat_ok_def task_ok_def by simp (metis option.inject)

lemma subscribe_ok: "chat_ok w \<Longrightarrow> chat_ok (subscribe_dialog d a w)"
  by (auto simp: subscribe_dialog_def chat_ok_def Let_def dialog_ok_def task_ok_def split: option.split)

text \<open>A dialog closed or left without a task, its task aborted.\<close>

lemma chat_ok_aborted:
  assumes "chat_ok w" "ch_dialogs w d = Some s" "ch_dialogs v = (ch_dialogs w)(d := x)"
    "ch_routers v = ch_routers (abort_task (ds_task s) w)" "ch_next_task v = ch_next_task w"
    "\<And>s'. x = Some s' \<Longrightarrow> dialog_ok s' \<and> ds_task s' = None"
  shows "chat_ok v"
proof -
  have "dialog_ok t \<and> task_ok v e t" if "ch_dialogs v e = Some t" for e t
  proof (cases "e = d")
    case True
    then show ?thesis using that assms(3,6) by (simp add: task_ok_def)
  next
    case False
    then have t: "ch_dialogs w e = Some t" using that assms(3) by simp
    then show ?thesis
      using chat_okD(1)[OF assms(1) t] task_ok_abort[OF assms(1,2) t False] assms(4) by (simp add: task_ok_def)
  qed
  moreover have "i < ch_next_task v" if "ch_routers v i = Some r" for i r
    using that assms(4,5) abort_routerD[of "ds_task s" w i r] chat_okD(2)[OF assms(1)] by auto
  ultimately show ?thesis by (auto simp: chat_ok_def)
qed

text \<open>A router is started and becomes the dialog's task.\<close>

lemma chat_ok_started:
  assumes "chat_ok v" "ch_dialogs u = (ch_dialogs v)(d \<mapsto> t)" "dialog_ok t" "ds_task t = Some (ch_next_task v)"
    "ch_routers u = (ch_routers v)(ch_next_task v \<mapsto> r)" "ch_next_task u = ch_next_task v + 1"
    "rt_dialog r = d" "rt_generation r = ds_generation t" "\<not> rt_aborted r"
  shows "chat_ok u"
proof -
  have "dialog_ok x \<and> task_ok u e x" if "ch_dialogs u e = Some x" for e x
  proof (cases "e = d")
    case True
    then show ?thesis using that assms by (simp add: task_ok_def)
  next
    case False
    then have x: "ch_dialogs v e = Some x" using that assms(2) by simp
    then have "i < ch_next_task v" if "ds_task x = Some i" for i
      using that chat_okD[OF assms(1)] by (fastforce simp: task_ok_def)
    then show ?thesis using chat_okD(1)[OF assms(1) x] assms(5) by (fastforce simp: task_ok_def)
  qed
  moreover have "i < ch_next_task u" if "ch_routers u i = Some q" for i q
    using that assms(5,6) chat_okD(2)[OF assms(1), of i q] by (auto split: if_splits)
  ultimately show ?thesis by (auto simp: chat_ok_def)
qed

lemma unsubscribe_ok: "chat_ok w \<Longrightarrow> chat_ok (unsubscribe_dialog d w)"
proof (cases "ch_dialogs w d")
  case (Some s)
  assume "chat_ok w"
  from chat_ok_aborted[OF this Some, of _ None] Some show ?thesis
    by (simp add: unsubscribe_dialog_def) (simp add: abort_task_def split: option.split)
qed (simp add: unsubscribe_dialog_def)

lemma resubscribe_ok: "chat_ok w \<Longrightarrow> chat_ok (resubscribe_dialog d w)"
proof (cases "ch_dialogs w d")
  case (Some s)
  assume ok: "chat_ok w"
  have "dialog_ok (s \<lparr> ds_task := None \<rparr>)" using chat_okD(1)[OF ok Some] by (simp add: dialog_ok_def)
  with chat_ok_aborted[OF ok Some, of _ "Some (s \<lparr> ds_task := None \<rparr>)"] Some show ?thesis
    by (simp add: resubscribe_dialog_def Let_def) (simp add: abort_task_def put_dialog_def split: option.split)
qed (simp add: resubscribe_dialog_def chat_ok_def task_ok_def)

text \<open>What a consumer that is stored leaves.\<close>

lemma store_consumer_fields:
  fixes c :: creation
  defines "start \<equiv> unwrap_or (compute_start_seq (cn_initial c) (cn_last c))"
  assumes "ch_dialogs w (cn_dialog c) = Some s"
  shows "ch_dialogs (store_consumer c tail w) = (ch_dialogs w)(cn_dialog c \<mapsto>
      (base_known c tail (floored c tail s)) \<lparr> ds_generation := ds_generation s + 1, ds_task := Some (ch_next_task w) \<rparr>)"
    "ch_routers (store_consumer c tail w) = (ch_routers (abort_task (ds_task s) w))(ch_next_task w \<mapsto>
      \<lparr> rt_dialog = cn_dialog c, rt_next = start (tail + 1), rt_generation = ds_generation s + 1,
        rt_aborted = False, rt_leaving = False \<rparr>)"
    "ch_next_task (store_consumer c tail w) = ch_next_task w + 1"
    "ch_creations (store_consumer c tail w) = ch_creations w"
  using assms(2) unfolding start_def by (simp_all add: store_consumer_def Let_def)

lemma store_ok:
  assumes "chat_ok w"
  shows "chat_ok (store_consumer c tail w)"
proof (cases "ch_dialogs w (cn_dialog c)")
  case (Some s)
  have s: "dialog_ok s" using chat_okD(1)[OF assms Some] by blast
  have v: "chat_ok (put_dialog (cn_dialog c) (s \<lparr> ds_task := None \<rparr>) (abort_task (ds_task s) w))"
    by (rule chat_ok_aborted[OF assms Some]) (use s in \<open>auto simp: dialog_ok_def\<close>)
  have "dialog_ok ((base_known c tail (floored c tail s)) \<lparr> ds_generation := g, ds_task := t \<rparr>)" for g t
    using s by (fastforce simp: floored_def base_known_def dialog_ok_def)
  then show ?thesis
    by (intro chat_ok_started[OF v, where d = "cn_dialog c" and t = "(base_known c tail (floored c tail s))
          \<lparr> ds_generation := ds_generation s + 1, ds_task := Some (ch_next_task w) \<rparr>"])
      (simp add: store_consumer_fields[OF Some])+
qed (simp add: assms store_consumer_def Let_def)

lemma router_ok:
  assumes "chat_ok w" "ch_routers w i = Some r"
  shows "chat_ok (dialog_router i r item w)"
proof -
  have put: "chat_ok (put_router i r' w)"
    if "rt_dialog r' = rt_dialog r" "rt_generation r' = rt_generation r" "rt_aborted r' = rt_aborted r" for r'
    using assms that unfolding chat_ok_def task_ok_def by simp (metis option.inject)
  show ?thesis
  proof (cases "\<exists>n s. item = ChunkAt n \<and> ch_dialogs w (rt_dialog r) = Some s \<and>
      \<not> (case ds_last s of Some prev \<Rightarrow> n \<le> prev | None \<Rightarrow> False)")
    case False
    then show ?thesis
      by (auto simp: dialog_router_def Let_def split: stream_item.split option.split intro!: put)
  next
    case True
    then obtain n s where n: "item = ChunkAt n" "ch_dialogs w (rt_dialog r) = Some s"
      "\<not> (case ds_last s of Some prev \<Rightarrow> n \<le> prev | None \<Rightarrow> False)" by blast
    define t where "t = s \<lparr> ds_last := Some n, ds_sent := ds_sent s @ [n],
      ds_dropped := (if ch_channel w then ds_dropped s else ds_dropped s @ [n]) \<rparr>"
    have tf: "ds_task t = ds_task s" "ds_generation t = ds_generation s" by (simp_all add: t_def)
    let ?v = "put_dialog (rt_dialog r) t (put_router i (r \<lparr> rt_next := n + 1 \<rparr>) w)"
    have "chat_ok (dialog_router i r item w) = chat_ok ?v"
      using n by (intro chat_ok_cong) (simp_all add: dialog_router_def Let_def t_def)
    moreover have "chat_ok (put_router i (r \<lparr> rt_next := n + 1 \<rparr>) w)" by (rule put) simp_all
    moreover have "dialog_ok t"
      using chat_okD(1)[OF assms(1) n(2)] n(3)
      by (fastforce simp: t_def dialog_ok_def sorted_wrt_append split: option.splits)
    ultimately show ?thesis using n(2) tf by (simp add: chat_ok_def task_ok_def)
  qed
qed

lemma exit_ok:
  assumes "chat_ok w" "ch_routers w i = Some r"
  shows "chat_ok (router_exit i r w)"
proof (cases "\<exists>s. ch_dialogs w (rt_dialog r) = Some s \<and> ds_generation s = rt_generation r")
  case True
  then obtain s where s: "ch_dialogs w (rt_dialog r) = Some s" "ds_generation s = rt_generation r" by blast
  then show ?thesis
    using assms unfolding chat_ok_def task_ok_def
    by (simp add: router_exit_def Let_def dialog_ok_def) (metis option.inject)
next
  case False
  then have "router_exit i r w = w \<lparr> ch_routers := (ch_routers w)(i := None) \<rparr>"
    by (auto simp: router_exit_def Let_def split: option.split)
  moreover have "chat_ok (w \<lparr> ch_routers := (ch_routers w)(i := None) \<rparr>)"
    using False chat_okD(1)[OF assms(1)] assms(2)
    by (intro chat_ok_drop_router[OF assms]) (fastforce simp: task_ok_def)
  ultimately show ?thesis by simp
qed

lemma chat_ok_step: "chat_step turns chunks w w' \<Longrightarrow> chat_ok w \<Longrightarrow> chat_ok w'"
proof (induction rule: chat_step.induct)
  case (subscribes w d a)
  from subscribes.prems show ?case by (rule subscribe_ok)
next
  case (creates c w made)
  let ?v = "w \<lparr> ch_creations := remove1 c (ch_creations w) \<rparr>"
  have v: "chat_ok ?v" using creates.prems by (simp add: chat_ok_def task_ok_def)
  have "chat_ok (creation_failed (cn_dialog c) (cn_attempt c) ?v) = chat_ok ?v" by (rule chat_ok_cong) simp_all
  then show ?case using v store_ok[OF v] by (simp add: create_and_store_consumer_def split: option.split)
next
  case (stops w i r)
  then show ?case
    using chat_okD(1)[OF stops.prems]
    by (intro chat_ok_drop_router[OF stops.prems stops(1)]) (fastforce simp: task_ok_def)
next
  case (resubscribes d w)
  then have "chat_ok (w \<lparr> ch_resubs := remove1 d (ch_resubs w) \<rparr>)" by (simp add: chat_ok_def task_ok_def)
  then show ?case by (rule resubscribe_ok)
next
  case (recreates d attempt w)
  then show ?case
    by (simp add: recreate_dialog_consumer_def chat_ok_def task_ok_def split: option.split)
qed (simp_all add: unsubscribe_ok router_ok exit_ok,
  simp_all add: chat_ok_def task_ok_def resubscribe_all_dialogs_def register_event_channel_def)

section \<open>No chunk is missed when a dialog's consumers take turns\<close>

text \<open>Everything below a number that the web view does not have from elsewhere was handed over.\<close>

definition covered :: "nat set \<Rightarrow> dialog_state \<Rightarrow> nat \<Rightarrow> bool" where
  "covered published s bound \<longleftrightarrow> (\<forall>n \<in> published. ds_have s < n \<and> n < bound \<longrightarrow> n \<in> set (ds_sent s))"

definition at_most :: "nat option \<Rightarrow> nat \<Rightarrow> bool" where
  "at_most a n \<longleftrightarrow> unwrap_or a 0 \<le> n"

definition taking_turns :: "chat_state \<Rightarrow> bool" where
  "taking_turns w \<longleftrightarrow> distinct (map cn_dialog (ch_creations w)) \<and>
     (\<forall>c \<in> set (ch_creations w). \<forall>i r. ch_routers w i = Some r \<longrightarrow> rt_dialog r \<noteq> cn_dialog c)"

definition followed :: "nat set \<Rightarrow> chat_state \<Rightarrow> string \<Rightarrow> dialog_state \<Rightarrow> bool" where
  "followed published w d s \<longleftrightarrow> at_most (ds_initial s) (ds_have s) \<and>
     (\<forall>b. ds_last s = Some b \<longrightarrow> covered published s (b + 1)) \<and>
     (\<forall>c \<in> set (ch_creations w). cn_dialog c = d \<longrightarrow> cn_last c = ds_last s \<and> at_most (cn_initial c) (ds_have s) \<and>
        (cn_initial c \<noteq> None \<longrightarrow> ds_initial s \<noteq> None) \<and>
        (cn_initial c = None \<and> ds_last s = None \<longrightarrow> ds_generation s = 0)) \<and>
     (ds_last s = None \<and> ds_initial s = None \<longrightarrow> ds_generation s = 0) \<and>
     (\<forall>i r. ch_routers w i = Some r \<longrightarrow> rt_dialog r = d \<longrightarrow> covered published s (rt_next r))"

definition gapless :: "(string \<Rightarrow> nat set) \<Rightarrow> chat_state \<Rightarrow> bool" where
  "gapless chunks w \<longleftrightarrow> taking_turns w \<and> (\<forall>d s. ch_dialogs w d = Some s \<longrightarrow> followed (chunks d) w d s)"

lemma covered_mono: "covered p s n \<Longrightarrow> ds_have s \<le> ds_have t \<Longrightarrow> set (ds_sent s) \<subseteq> set (ds_sent t) \<Longrightarrow> covered p t n"
  by (fastforce simp: covered_def)

lemma at_most_mono: "at_most a n \<Longrightarrow> n \<le> m \<Longrightarrow> at_most a m"
  by (simp add: at_most_def)

text \<open>Routers as before, or fewer.\<close>

definition no_new_routers :: "chat_state \<Rightarrow> chat_state \<Rightarrow> bool" where
  "no_new_routers w v \<longleftrightarrow> (\<forall>i r. ch_routers v i = Some r \<longrightarrow>
     (\<exists>q. ch_routers w i = Some q \<and> rt_dialog q = rt_dialog r \<and> rt_next q = rt_next r))"

lemma no_new_routers_simps:
  "ch_routers v = ch_routers w \<Longrightarrow> no_new_routers w v"
  "ch_routers v = ch_routers (abort_task t w) \<Longrightarrow> no_new_routers w v"
  "ch_routers v = (ch_routers w)(i := None) \<Longrightarrow> no_new_routers w v"
  using abort_routerD by (fastforce simp: no_new_routers_def split: if_splits)+

lemma taking_turns_fewer:
  assumes "taking_turns w" "no_new_routers w v" "ch_creations v = ch_creations w \<or> ch_creations v = remove1 c (ch_creations w)"
  shows "taking_turns v"
proof -
  have sub: "set (ch_creations v) \<subseteq> set (ch_creations w)" using assms(3) set_remove1_subset by fastforce
  have "distinct (map f (remove1 c xs))" if "distinct (map f xs)" for f :: "creation \<Rightarrow> string" and xs
    using that set_remove1_subset by (induction xs) fastforce+
  then have "distinct (map cn_dialog (ch_creations v))" using assms(1,3) by (auto simp: taking_turns_def)
  then show ?thesis
    using assms(1,2) sub by (fastforce simp: taking_turns_def no_new_routers_def dest: subsetD)
qed

lemma followed_parts:
  assumes "followed p w d s"
  shows "at_most (ds_initial s) (ds_have s)" "ds_last s = Some b \<Longrightarrow> covered p s (b + 1)"
    "ds_last s = None \<Longrightarrow> ds_initial s = None \<Longrightarrow> ds_generation s = 0"
    "c \<in> set (ch_creations w) \<Longrightarrow> cn_dialog c = d \<Longrightarrow> cn_last c = ds_last s \<and> at_most (cn_initial c) (ds_have s) \<and>
        (cn_initial c \<noteq> None \<longrightarrow> ds_initial s \<noteq> None) \<and>
        (cn_initial c = None \<and> ds_last s = None \<longrightarrow> ds_generation s = 0)"
    "ch_routers w i = Some r \<Longrightarrow> rt_dialog r = d \<Longrightarrow> covered p s (rt_next r)"
  using assms by (auto simp: followed_def)

lemma followed_fewer:
  assumes "followed p w d s" "no_new_routers w v" "set (ch_creations v) \<subseteq> set (ch_creations w)"
    "ds_have s \<le> ds_have t" "ds_sent t = ds_sent s" "ds_last t = ds_last s" "at_most (ds_initial t) (ds_have t)"
    "ds_generation t = ds_generation s" "ds_initial t = None \<longrightarrow> ds_initial s = None"
  shows "followed p v d t"
  unfolding followed_def
proof (intro conjI allI ballI impI)
  note fs = followed_parts[OF assms(1)]
  have c: "covered p t n" if "covered p s n" for n using covered_mono[OF that assms(4)] assms(5) by simp
  show "at_most (ds_initial t) (ds_have t)" by (rule assms(7))
  show "covered p t (b + 1)" if "ds_last t = Some b" for b using that assms(6) fs(2) c by simp
  show "ds_generation t = 0" if "ds_last t = None \<and> ds_initial t = None" using that assms(6,8,9) fs(3) by simp
  show "covered p t (rt_next r)" if "ch_routers v i = Some r" "rt_dialog r = d" for i r
  proof -
    obtain q where "ch_routers w i = Some q" "rt_dialog q = rt_dialog r" "rt_next q = rt_next r"
      using assms(2) \<open>ch_routers v i = Some r\<close> by (auto simp: no_new_routers_def)
    then show ?thesis using fs(5) that(2) c by metis
  qed
  fix k assume k: "k \<in> set (ch_creations v)" "cn_dialog k = d"
  then have "k \<in> set (ch_creations w)" using assms(3) by blast
  note fk = fs(4)[OF this k(2)]
  show "cn_last k = ds_last t" using fk assms(6) by simp
  show "at_most (cn_initial k) (ds_have t)" using fk at_most_mono[OF _ assms(4)] by blast
  show "ds_initial t \<noteq> None" if "cn_initial k \<noteq> None"
    using that fk assms(9) by (cases "ds_initial t") simp_all
  show "ds_generation t = 0" if "cn_initial k = None \<and> ds_last t = None" using that fk assms(6,8) by simp
qed

lemma gapless_fewer:
  assumes "gapless chunks w" "no_new_routers w v"
    "ch_creations v = ch_creations w \<or> ch_creations v = remove1 c (ch_creations w)"
    "\<And>d t. ch_dialogs v d = Some t \<Longrightarrow> \<exists>s. ch_dialogs w d = Some s \<and> ds_have s \<le> ds_have t \<and> ds_sent t = ds_sent s \<and>
       ds_last t = ds_last s \<and> (ds_initial t = ds_initial s \<or> at_most (ds_initial t) (ds_have t)) \<and>
       ds_generation t = ds_generation s \<and> (ds_initial t = None \<longrightarrow> ds_initial s = None)"
  shows "gapless chunks v"
proof -
  have sub: "set (ch_creations v) \<subseteq> set (ch_creations w)" using assms(3) set_remove1_subset by fastforce
  have "followed (chunks d) v d t" if t: "ch_dialogs v d = Some t" for d t
  proof -
    from assms(4)[OF t] obtain s where s: "ch_dialogs w d = Some s" "ds_have s \<le> ds_have t" "ds_sent t = ds_sent s"
        "ds_last t = ds_last s" "ds_initial t = ds_initial s \<or> at_most (ds_initial t) (ds_have t)"
        "ds_generation t = ds_generation s" "ds_initial t = None \<longrightarrow> ds_initial s = None"
      by (elim exE conjE)
    then have f: "followed (chunks d) w d s" using assms(1) by (simp add: gapless_def)
    from s(5) have "at_most (ds_initial t) (ds_have t)"
    proof
      assume "ds_initial t = ds_initial s"
      then show ?thesis using at_most_mono[OF followed_parts(1)[OF f] s(2)] by simp
    qed
    then show ?thesis using followed_fewer[OF f assms(2) sub s(2-4)] s(6,7) by blast
  qed
  then show ?thesis using taking_turns_fewer[OF _ assms(2,3)] assms(1) by (auto simp: gapless_def)
qed

lemma settled_followed:
  assumes "settled_dialog d w" "ds_initial s = a" "ds_have s = unwrap_or a 0" "ds_last s = None" "ds_generation s = 0"
    "ch_routers v = ch_routers w" "ch_creations v = ch_creations w"
  shows "followed p v d s"
  using assms by (auto simp: followed_def settled_dialog_def at_most_def)

lemma subscribe_gapless:
  assumes "gapless chunks w" "ch_dialogs w d = None \<Longrightarrow> settled_dialog d w"
    "a = None \<Longrightarrow> \<forall>s. ch_dialogs w d = Some s \<longrightarrow> ds_initial s = None"
  shows "gapless chunks (subscribe_dialog d a w)"
proof -
  let ?v = "subscribe_dialog d a w"
  have f: "ch_routers ?v = ch_routers w" "ch_creations ?v = ch_creations w"
    by (simp_all add: subscribe_dialog_def Let_def split: option.split)
  show ?thesis
  proof (cases "ch_dialogs w d = None \<and> d \<noteq> []")
    case False
    then show ?thesis
      using f assms(3) by (intro gapless_fewer[OF assms(1)])
        (auto simp: no_new_routers_simps(1) subscribe_dialog_def Let_def at_most_def split: option.splits if_splits)
  next
    case True
    then have st: "settled_dialog d w" using assms(2) by blast
    have "followed (chunks e) ?v e t" if "ch_dialogs ?v e = Some t" for e t
    proof (cases "e = d")
      case True
      show ?thesis unfolding True
        by (rule settled_followed[OF st, where a = a])
          (use that True \<open>ch_dialogs w d = None \<and> d \<noteq> []\<close> f in \<open>auto simp: subscribe_dialog_def Let_def\<close>)
    next
      case False
      then have "ch_dialogs w e = Some t" using that True by (simp add: subscribe_dialog_def Let_def)
      then have "followed (chunks e) w e t" using assms(1) by (simp add: gapless_def)
      then show ?thesis using f by (simp add: followed_def)
    qed
    moreover have "taking_turns ?v" using assms(1) f by (simp add: gapless_def taking_turns_def)
    ultimately show ?thesis by (simp add: gapless_def)
  qed
qed

lemma recreate_gapless:
  assumes "gapless chunks w" "settled_dialog d w"
  shows "gapless chunks (recreate_dialog_consumer d attempt w)"
proof (cases "ch_dialogs w d")
  case (Some s)
  let ?v = "recreate_dialog_consumer d attempt w"
  show ?thesis
  proof (cases "ds_task s \<noteq> None \<or> \<not> ch_client w")
    case True
    then show ?thesis using Some assms(1) by (simp add: recreate_dialog_consumer_def)
  next
    case False
    let ?c = "\<lparr> cn_dialog = d, cn_initial = ds_initial s, cn_last = ds_last s, cn_attempt = attempt \<rparr>"
    have f: "ch_creations ?v = ch_creations w @ [?c]" "ch_routers ?v = ch_routers w" "ch_dialogs ?v = ch_dialogs w"
      using Some False by (simp_all add: recreate_dialog_consumer_def)
    have "taking_turns ?v"
      using assms f by (auto simp: gapless_def taking_turns_def settled_dialog_def)
    moreover have "followed (chunks e) ?v e t" if "ch_dialogs ?v e = Some t" for e t
    proof -
      have "ch_dialogs w e = Some t" using that f by simp
      then have "followed (chunks e) w e t" "e = d \<Longrightarrow> t = s" using assms(1) Some by (simp_all add: gapless_def)
      then show ?thesis using f by (auto simp: followed_def)
    qed
    ultimately show ?thesis by (simp add: gapless_def)
  qed
qed (use assms(1) in \<open>simp add: recreate_dialog_consumer_def\<close>)

lemma base_known_fields [simp]:
  "ds_initial (base_known c tail s) = ds_initial s" "ds_last (base_known c tail s) = ds_last s"
  "ds_sent (base_known c tail s) = ds_sent s" "ds_generation (base_known c tail s) = ds_generation s"
  "ds_dropped (base_known c tail s) = ds_dropped s" "ds_have s \<le> ds_have (base_known c tail s)"
  by (simp_all add: base_known_def)

lemma floored_fields [simp]:
  "ds_initial (floored c tail s) = ds_initial s" "ds_have (floored c tail s) = ds_have s"
  "ds_sent (floored c tail s) = ds_sent s" "ds_generation (floored c tail s) = ds_generation s"
  "ds_dropped (floored c tail s) = ds_dropped s"
  by (simp_all add: floored_def)

text \<open>Only the first consumer of a dialog starts without a number to resume from.\<close>

lemma started_from:
  fixes tail :: nat
  assumes "followed p w d s" "c \<in> set (ch_creations w)" "cn_dialog c = d"
  defines "t \<equiv> base_known c tail (floored c tail s)"
  shows "covered p t (unwrap_or (compute_start_seq (cn_initial c) (cn_last c)) (tail + 1))"
    "at_most (ds_initial t) (ds_have t)" "\<forall>b. ds_last t = Some b \<longrightarrow> covered p t (b + 1)"
    "\<not> (ds_last t = None \<and> ds_initial t = None)"
proof -
  have grown: "covered p t n" if "covered p s n" for n
    by (rule covered_mono[OF that]) (simp_all add: t_def order_trans[OF _ base_known_fields(6)])
  have c: "cn_last c = ds_last s" "at_most (cn_initial c) (ds_have s)"
    "cn_initial c \<noteq> None \<longrightarrow> ds_initial s \<noteq> None" "cn_initial c = None \<and> ds_last s = None \<longrightarrow> ds_generation s = 0"
    using assms(1-3) by (auto simp: followed_def)
  have last: "ds_last s = Some b \<Longrightarrow> covered p s (b + 1)" for b using assms(1) by (simp add: followed_def)
  have have_t: "ds_have s \<le> ds_have t" using base_known_fields(6)[of "floored c tail s" c tail] by (simp add: t_def)
  have first: "tail \<le> ds_have t" if "cn_initial c = None" "ds_last s = None"
    using that c(4) by (simp add: t_def base_known_def)
  have below: "covered p t n" if "n \<le> ds_have t + 1" for n using that by (auto simp: covered_def)
  show "covered p t (unwrap_or (compute_start_seq (cn_initial c) (cn_last c)) (tail + 1))"
  proof (cases "cn_initial c")
    case None
    then show ?thesis
      using c(1) last grown below first by (cases "ds_last s") (auto simp: compute_start_seq_def)
  next
    case (Some a)
    have a: "a \<le> ds_have t" using c(2) have_t Some by (simp add: at_most_def)
    show ?thesis
    proof (cases "ds_last s")
      case None
      then show ?thesis using Some c(1) a below[of "a + 1"] by (simp add: compute_start_seq_def)
    next
      case (Some b)
      have "covered p t (b + 1)" using last[OF Some] by (rule grown)
      then have "covered p t (max a b + 1)" using a by (auto simp: covered_def max_def)
      then show ?thesis using Some \<open>cn_initial c = Some a\<close> c(1) by (simp add: compute_start_seq_def)
    qed
  qed
  show "at_most (ds_initial t) (ds_have t)"
    using assms(1) at_most_mono[OF _ have_t] by (simp add: t_def followed_def)
  show "\<forall>b. ds_last t = Some b \<longrightarrow> covered p t (b + 1)"
  proof (cases "ds_last s")
    case None
    then show ?thesis
      using c(1) below first by (auto simp: t_def floored_def compute_start_seq_def split: option.splits)
  next
    case (Some b)
    then show ?thesis using grown last by (simp add: t_def floored_def)
  qed
  show "\<not> (ds_last t = None \<and> ds_initial t = None)"
    using c(1,3) by (auto simp: t_def floored_def compute_start_seq_def split: option.splits if_splits)
qed

lemma store_gapless:
  assumes "gapless chunks w" "c \<in> set (ch_creations w)"
  shows "gapless chunks (store_consumer c tail (w \<lparr> ch_creations := remove1 c (ch_creations w) \<rparr>))"
proof -
  let ?w = "w \<lparr> ch_creations := remove1 c (ch_creations w) \<rparr>" and ?d = "cn_dialog c"
  have w: "gapless chunks ?w" by (rule gapless_fewer[OF assms(1)]) (auto simp: no_new_routers_def)
  have free: "\<And>i r. ch_routers w i = Some r \<Longrightarrow> rt_dialog r \<noteq> ?d"
    using assms by (auto simp: gapless_def taking_turns_def)
  have others: "cn_dialog k \<noteq> ?d" if "k \<in> set (remove1 c (ch_creations w))" for k
    using that assms unfolding gapless_def taking_turns_def
    by (metis distinct_map distinct_remove1 inj_onD notin_set_remove1 set_remove1_eq DiffE singletonI)
  show ?thesis
  proof (cases "ch_dialogs w ?d")
    case None
    then show ?thesis using w by (simp add: store_consumer_def Let_def)
  next
    case (Some s)
    let ?v = "store_consumer c tail ?w"
    have fs: "followed (chunks ?d) w ?d s" using assms(1) Some by (simp add: gapless_def)
    note f = store_consumer_fields[of ?w c s tail, simplified, OF Some]
    have r: "(\<exists>q. ch_routers w i = Some q \<and> rt_dialog q = rt_dialog r \<and> rt_next q = rt_next r) \<or>
        rt_dialog r = ?d \<and> rt_next r = unwrap_or (compute_start_seq (cn_initial c) (cn_last c)) (tail + 1)"
      if "ch_routers ?v i = Some r" for i r
      using that abort_routerD[of "ds_task s" ?w i] by (auto simp: f(2) split: if_splits)
    have "taking_turns ?v"
      using w r others by (fastforce simp: f(4) gapless_def taking_turns_def)
    moreover have "followed (chunks e) ?v e t" if t: "ch_dialogs ?v e = Some t" for e t
    proof (cases "e = ?d")
      case True
      let ?t = "base_known c tail (floored c tail s)"
      note sf = started_from[OF fs assms(2) refl, of tail]
      have t: "t = ?t \<lparr> ds_generation := ds_generation s + 1, ds_task := Some (ch_next_task w) \<rparr>"
        using t True by (simp add: f(1))
      have cov: "covered p t n = covered p ?t n" for p n by (simp add: t covered_def)
      have "covered (chunks ?d) t (rt_next q)" if "ch_routers ?v i = Some q" "rt_dialog q = ?d" for i q
        using r[OF that(1)] free that(2) sf(1) unfolding cov by auto
      moreover have "cn_dialog k \<noteq> ?d" if "k \<in> set (ch_creations ?v)" for k using that others by (simp add: f(4))
      moreover have "at_most (ds_initial t) (ds_have t)" "\<forall>b. ds_last t = Some b \<longrightarrow> covered (chunks ?d) t (b + 1)"
        "\<not> (ds_last t = None \<and> ds_initial t = None)"
        using sf(2-4) unfolding cov by (simp_all add: t)
      ultimately show ?thesis unfolding True followed_def by blast
    next
      case False
      then have "ch_dialogs w e = Some t" using t f(1) by simp
      then have "followed (chunks e) ?w e t" using w by (simp add: gapless_def)
      then show ?thesis using r False by (fastforce simp: followed_def f(4))
    qed
    ultimately show ?thesis by (simp add: gapless_def)
  qed
qed

lemma covered_next:
  assumes "covered p s from" "next_item p from item" "item = ChunkAt n \<or> item = Unreadable n"
    "item = ChunkAt n \<Longrightarrow> n \<in> set (ds_sent s) \<or> n \<le> ds_have s"
  shows "covered p s (n + 1)"
  unfolding covered_def
proof (intro ballI impI)
  fix m
  assume m: "m \<in> p" "ds_have s < m \<and> m < n + 1"
  show "m \<in> set (ds_sent s)"
  proof (cases "m < from")
    case True
    then show ?thesis using assms(1) m by (simp add: covered_def)
  next
    case False
    from assms(3) show ?thesis
    proof
      assume c: "item = ChunkAt n"
      then have "n \<le> m" using assms(2) m False by (auto simp: next_item_def)
      then have "m = n" using m by simp
      then show ?thesis using assms(4)[OF c] m by auto
    next
      assume "item = Unreadable n"
      then have "n < m" using assms(2) m False by (auto simp: next_item_def)
      then show ?thesis using m by simp
    qed
  qed
qed

lemma router_gapless:
  assumes "gapless chunks w" "chat_ok w" "ch_routers w i = Some r" "next_item (chunks (rt_dialog r)) (rt_next r) item"
  shows "gapless chunks (dialog_router i r item w)"
proof (cases "ch_dialogs w (rt_dialog r)")
  case None
  let ?v = "dialog_router i r item w"
  obtain q where q: "ch_routers ?v = (ch_routers w)(i \<mapsto> q)" "rt_dialog q = rt_dialog r"
    by (rule that[of "case item of Unreadable n \<Rightarrow> r \<lparr> rt_next := n + 1 \<rparr> | _ \<Rightarrow> r \<lparr> rt_leaving := True \<rparr>"])
      (simp_all add: dialog_router_def None split: stream_item.split)
  have "ch_dialogs ?v = ch_dialogs w" "ch_creations ?v = ch_creations w"
    by (simp_all add: dialog_router_def None split: stream_item.split)
  moreover have "followed p ?v e t" if "followed p w e t" "e \<noteq> rt_dialog r" for p e t
    using that q calculation by (auto simp: followed_def)
  moreover have "taking_turns ?v" using assms(1,3) q calculation by (auto simp: gapless_def taking_turns_def)
  ultimately show ?thesis using assms(1) None by (simp add: gapless_def) (metis option.distinct(1))
next
  case (Some s)
  let ?v = "dialog_router i r item w" and ?d = "rt_dialog r"
  have fs: "followed (chunks ?d) w ?d s" using assms(1) Some by (simp add: gapless_def)
  have cov: "covered (chunks ?d) s (rt_next r)" using fs assms(3) unfolding followed_def by blast
  have none: "cn_dialog k \<noteq> ?d" if "k \<in> set (ch_creations w)" for k
    using that assms(1,3) unfolding gapless_def taking_turns_def by metis
  obtain q t where q: "ch_routers ?v = (ch_routers w)(i \<mapsto> q)" "rt_dialog q = ?d"
    and v: "ch_creations ?v = ch_creations w" "ch_dialogs ?v = (ch_dialogs w)(?d \<mapsto> t)"
    and tl: "ds_generation t = ds_generation s" "ds_last t = None \<longrightarrow> ds_last s = None"
    and t: "ds_initial t = ds_initial s" "ds_have t = ds_have s" "set (ds_sent s) \<subseteq> set (ds_sent t)"
      "\<forall>b. ds_last t = Some b \<longrightarrow> covered (chunks ?d) t (b + 1)" "covered (chunks ?d) t (rt_next q)"
  proof (cases item)
    case StreamEnds
    show thesis
      by (rule that[of "r \<lparr> rt_leaving := True \<rparr>" s])
        (use StreamEnds fs cov Some in \<open>auto simp: dialog_router_def followed_def fun_upd_idem\<close>)
  next
    case (Unreadable n)
    then have "covered (chunks ?d) s (n + 1)" using covered_next[OF cov assms(4)] by simp
    then show thesis
      by (intro that[of "r \<lparr> rt_next := n + 1 \<rparr>" s])
        (use Unreadable fs Some in \<open>auto simp: dialog_router_def followed_def fun_upd_idem\<close>)
  next
    case (ChunkAt n)
    show thesis
    proof (cases "case ds_last s of Some prev \<Rightarrow> n \<le> prev | None \<Rightarrow> False")
      case True
      then obtain b where b: "ds_last s = Some b" "n \<le> b" by (auto split: option.splits)
      then have "covered (chunks ?d) s (b + 1)" using fs by (simp add: followed_def)
      then have "covered (chunks ?d) s (n + 1)" using b(2) by (simp add: covered_def)
      then show thesis
        by (intro that[of "r \<lparr> rt_next := n + 1 \<rparr>" s])
          (use ChunkAt True fs Some in \<open>auto simp: dialog_router_def followed_def fun_upd_idem Let_def\<close>)
    next
      case False
      let ?t = "s \<lparr> ds_last := Some n, ds_sent := ds_sent s @ [n],
        ds_dropped := (if ch_channel w then ds_dropped s else ds_dropped s @ [n]) \<rparr>"
      have "covered (chunks ?d) ?t (rt_next r)" using cov by (auto simp: covered_def)
      then have "covered (chunks ?d) ?t (n + 1)" using covered_next[OF _ assms(4)] ChunkAt by auto
      then show thesis
        by (intro that[of "r \<lparr> rt_next := n + 1 \<rparr>" ?t])
          (use ChunkAt False Some in \<open>auto simp: dialog_router_def Let_def\<close>)
    qed
  qed
  have keep: "covered (chunks ?d) t n" if "covered (chunks ?d) s n" for n using covered_mono[OF that] t(2,3) by simp
  have "taking_turns ?v"
    using assms(1,3) q v(1) by (auto simp: gapless_def taking_turns_def)
  moreover have "followed (chunks e) ?v e u" if u: "ch_dialogs ?v e = Some u" for e u
  proof (cases "e = ?d")
    case True
    then show ?thesis using u v none t tl fs keep q by (auto simp: followed_def)
  next
    case False
    then have "followed (chunks e) w e u" using u v assms(1) by (simp add: gapless_def)
    then show ?thesis using False q v by (auto simp: followed_def)
  qed
  ultimately show ?thesis by (simp add: gapless_def)
qed

lemma gapless_step:
  assumes "chat_step True chunks w w'" "chat_ok w" "gapless chunks w"
  shows "gapless chunks w'"
  using assms
proof (induction rule: chat_step.induct)
  case (subscribes w d a)
  then show ?case using subscribe_gapless by simp
next
  case (unsubscribes w d)
  have "no_new_routers w (unsubscribe_dialog d w)"
    by (auto simp: unsubscribe_dialog_def no_new_routers_def split: option.split dest: abort_routerD)
  then show ?case
    by (rule gapless_fewer[OF unsubscribes(2)]) (auto simp: unsubscribe_dialog_def split: option.splits if_splits)
next
  case (recreates d attempt w)
  have "gapless chunks (w \<lparr> ch_recreates := remove1 (d, attempt) (ch_recreates w) \<rparr>)"
    by (rule gapless_fewer[OF recreates(4)]) (auto simp: no_new_routers_def)
  then show ?case using recreates(2) recreate_gapless by (auto simp: settled_dialog_def)
next
  case (creates c w made)
  then show ?case
  proof (cases made)
    case None
    have "gapless chunks (creation_failed (cn_dialog c) (cn_attempt c) (w \<lparr> ch_creations := remove1 c (ch_creations w) \<rparr>))"
      by (rule gapless_fewer[OF creates(3)]) (auto simp: no_new_routers_def)
    then show ?thesis using None by (simp add: create_and_store_consumer_def)
  qed (simp add: create_and_store_consumer_def store_gapless)
next
  case (yields w i r item)
  then show ?case by (simp add: router_gapless)
next
  case (leaves w i r)
  show ?case
    by (rule gapless_fewer[OF leaves(4)])
      (auto simp: router_exit_def Let_def no_new_routers_def split: option.splits if_splits)
next
  case (resubscribes d w)
  show ?case
    by (rule gapless_fewer[OF resubscribes(3)])
      (auto simp: resubscribe_dialog_def Let_def no_new_routers_def split: option.splits if_splits dest: abort_routerD)
qed (simp_all add: gapless_def taking_turns_def followed_def resubscribe_all_dialogs_def register_event_channel_def)

interpretation chat: inv_system "\<lambda>w. w = chat_start" "chat_step turns chunks" chat_ok for turns chunks
proof
  show "chat_ok w" if "w = chat_start" for w using that by (simp add: chat_ok_def chat_start_def)
qed (rule chat_ok_step)

interpretation chat_turns: inv_system "\<lambda>w. w = chat_start" "chat_step True chunks" "\<lambda>w. chat_ok w \<and> gapless chunks w" for chunks
proof
  show "chat_ok w \<and> gapless chunks w" if "w = chat_start" for w
    using that by (simp add: chat_ok_def gapless_def taking_turns_def chat_start_def)
qed (use chat_ok_step gapless_step in blast)

text \<open>C34. However the tasks of the chat bridge interleave (subscribing, closing, reconnects, failing and slow
  creations, retry loops, aborted routers that still run), the chunks of a dialog passed on since it was
  opened (those dropped for lack of an event channel included) have strictly growing numbers, none above the number kept for resuming, and a dialog that
  counts as live has a running router of its own and of its current generation.\<close>

theorem chunks_handed_over_in_order:
  assumes "chat_reachable turns chunks w" "ch_dialogs w d = Some s"
  shows "sorted_wrt (<) (ds_sent s) \<and> (\<forall>n \<in> set (ds_sent s). n \<le> the (ds_last s)) \<and>
    (\<forall>i. ds_task s = Some i \<longrightarrow> (\<exists>r. ch_routers w i = Some r \<and> rt_dialog r = d \<and>
       rt_generation r = ds_generation s \<and> \<not> rt_aborted r))"
  using chat_okD(1)[OF chat.inv_reachable[OF refl assms(1)] assms(2)]
  by (auto simp: dialog_ok_def task_ok_def)

text \<open>A chunk that passed went to the event channel, or none was registered.\<close>

definition heard :: "chat_state \<Rightarrow> bool" where
  "heard w \<longleftrightarrow> (\<forall>d s. ch_dialogs w d = Some s \<longrightarrow>
     (\<forall>n \<in> set (ds_sent s). (d, n) \<in> set (ch_events w) \<or> n \<in> set (ds_dropped s)))"

lemma heard_same:
  assumes "heard w" "set (ch_events w) \<subseteq> set (ch_events v)"
    "\<And>d t. ch_dialogs v d = Some t \<Longrightarrow> ds_sent t = [] \<or>
       (\<exists>s. ch_dialogs w d = Some s \<and> ds_sent t = ds_sent s \<and> ds_dropped t = ds_dropped s)"
  shows "heard v"
  unfolding heard_def
proof (intro allI impI ballI)
  fix d t n assume t: "ch_dialogs v d = Some t" "n \<in> set (ds_sent t)"
  then obtain s where "ch_dialogs w d = Some s" "ds_sent t = ds_sent s" "ds_dropped t = ds_dropped s"
    using assms(3)[OF t(1)] by force
  then show "(d, n) \<in> set (ch_events v) \<or> n \<in> set (ds_dropped t)"
    using assms(1,2) t(2) unfolding heard_def by fastforce
qed

lemma kept_events [simp]:
  "ch_events (abort_task t w) = ch_events w" "ch_events (put_dialog d s w) = ch_events w"
  "ch_events (put_router i r w) = ch_events w" "ch_events (emit_subscribed d w) = ch_events w"
  "ch_events (creation_failed d a w) = ch_events w" "ch_events (schedule_consumer_recreate d w) = ch_events w"
  by (simp_all add: abort_task_def put_dialog_def put_router_def emit_subscribed_def creation_failed_def
      schedule_consumer_recreate_def split: option.split)

lemma router_heard:
  assumes "heard w"
  shows "heard (dialog_router i r item w)"
proof (cases "\<exists>n s. item = ChunkAt n \<and> ch_dialogs w (rt_dialog r) = Some s \<and>
    \<not> (case ds_last s of Some prev \<Rightarrow> n \<le> prev | None \<Rightarrow> False)")
  case False
  then have "ch_dialogs (dialog_router i r item w) = ch_dialogs w \<and> ch_events (dialog_router i r item w) = ch_events w"
    by (auto simp: dialog_router_def Let_def split: stream_item.split option.split)
  then show ?thesis using assms by (simp add: heard_def)
next
  case True
  then obtain n s where n: "item = ChunkAt n" "ch_dialogs w (rt_dialog r) = Some s"
    "\<not> (case ds_last s of Some prev \<Rightarrow> n \<le> prev | None \<Rightarrow> False)" by blast
  have "ch_dialogs (dialog_router i r item w) = (ch_dialogs w)(rt_dialog r \<mapsto>
      s \<lparr> ds_last := Some n, ds_sent := ds_sent s @ [n],
        ds_dropped := (if ch_channel w then ds_dropped s else ds_dropped s @ [n]) \<rparr>)"
    "ch_events (dialog_router i r item w) = ch_events w @ (if ch_channel w then [(rt_dialog r, n)] else [])"
    using n by (simp_all add: dialog_router_def Let_def)
  then show ?thesis using assms n(2) by (auto simp: heard_def)
qed

lemma heard_step: "chat_step turns chunks w w' \<Longrightarrow> heard w \<Longrightarrow> heard w'"
proof (induction rule: chat_step.induct)
  case (subscribes w d a)
  show ?case
    by (rule heard_same[OF subscribes.prems]) (auto simp: subscribe_dialog_def Let_def split: option.splits if_splits)
next
  case (unsubscribes w d)
  show ?case
    by (rule heard_same[OF unsubscribes.prems]) (auto simp: unsubscribe_dialog_def split: option.splits if_splits)
next
  case (recreates d attempt w)
  show ?case
    by (rule heard_same[OF recreates.prems]) (auto simp: recreate_dialog_consumer_def split: option.splits if_splits)
next
  case (creates c w made)
  show ?case
    by (rule heard_same[OF creates.prems])
      (auto simp: create_and_store_consumer_def store_consumer_def Let_def split: option.splits if_splits)
next
  case (yields w i r item)
  then show ?case by (simp add: router_heard)
next
  case (leaves w i r)
  show ?case
    by (rule heard_same[OF leaves.prems]) (auto simp: router_exit_def Let_def split: option.splits if_splits)
next
  case (resubscribes d w)
  show ?case
    by (rule heard_same[OF resubscribes.prems]) (auto simp: resubscribe_dialog_def Let_def split: option.splits if_splits)
qed (simp_all add: heard_def resubscribe_all_dialogs_def register_event_channel_def)

interpretation chat_heard: inv_system "\<lambda>w. w = chat_start" "chat_step turns chunks" heard for turns chunks
proof
  show "heard w" if "w = chat_start" for w using that by (simp add: heard_def chat_start_def)
qed (rule heard_step)

text \<open>C35. As long as a dialog's consumers take turns (each is created, and the dialog opened, only when no
  creation and no router of it is under way, and a dialog given a place to start from is not subscribed
  again without one), no chunk is missed, whatever breaks in between: each readable chunk up to the number
  kept for resuming was sent to the event channel, or dropped because none was registered, or is one the
  web view has from its history, or is older than the first consumer of a dialog opened for new chunks
  only. A send that fails is only logged and counts as sent.\<close>

theorem no_chunk_is_missed:
  assumes "chat_reachable True chunks w" "ch_dialogs w d = Some s" "ds_last s = Some b"
    "n \<in> chunks d" "ds_have s < n" "n \<le> b"
  shows "n \<in> set (ds_sent s) \<and> ((d, n) \<in> set (ch_events w) \<or> n \<in> set (ds_dropped s))"
proof -
  have "gapless chunks w" using chat_turns.inv_reachable[OF refl assms(1)] by simp
  then have "covered (chunks d) s (b + 1)" using assms(2,3) by (simp add: gapless_def followed_def)
  then have "n \<in> set (ds_sent s)" using assms(4-6) by (simp add: covered_def)
  then show ?thesis using chat_heard.inv_reachable[OF refl assms(1)] assms(2) by (auto simp: heard_def)
qed

section \<open>Without turns\<close>

lemmas chat_ops = subscribe_dialog_def unsubscribe_dialog_def recreate_dialog_consumer_def create_and_store_consumer_def
  store_consumer_def compute_start_seq_def floored_def base_known_def dialog_router_def resubscribe_dialog_def resubscribe_all_dialogs_def
  put_dialog_def put_router_def abort_task_def emit_subscribed_def Let_def chat_start_def

definition twice_created :: chat_state where
  "twice_created =
    (let c = \<lparr> cn_dialog = ''d'', cn_initial = None, cn_last = None, cn_attempt = 0 \<rparr>;
         w1 = resubscribe_all_dialogs [] (chat_start \<lparr> ch_client := True \<rparr>);
         w2 = subscribe_dialog ''d'' None w1;
         w3 = resubscribe_all_dialogs [''d''] (w2 \<lparr> ch_client := True \<rparr>);
         w4 = resubscribe_dialog ''d'' (w3 \<lparr> ch_resubs := remove1 ''d'' (ch_resubs w3) \<rparr>);
         w5 = recreate_dialog_consumer ''d'' 0 (w4 \<lparr> ch_recreates := remove1 (''d'', 0) (ch_recreates w4) \<rparr>);
         w6 = recreate_dialog_consumer ''d'' 0 (w5 \<lparr> ch_recreates := remove1 (''d'', 0) (ch_recreates w5) \<rparr>);
         w7 = create_and_store_consumer c (Some 10) (w6 \<lparr> ch_creations := remove1 c (ch_creations w6) \<rparr>) in
     create_and_store_consumer c (Some 20) (w7 \<lparr> ch_creations := remove1 c (ch_creations w7) \<rparr>))"

lemma chat_reach_step: "chat_reachable turns chunks w \<Longrightarrow> chat_step turns chunks w w' \<Longrightarrow> chat_reachable turns chunks w'"
  by (rule rtranclp.rtrancl_into_rtrancl)

lemma twice_created_reachable: "chat_reachable False chunks twice_created"
  unfolding twice_created_def Let_def
  by (intro chat_reach_step[OF _ chat_step.creates] chat_reach_step[OF _ chat_step.recreates]
      chat_reach_step[OF _ chat_step.resubscribes] chat_reach_step[OF _ chat_step.connects]
      chat_reach_step[OF _ chat_step.subscribes] rtranclp.rtrancl_refl)
    (simp_all add: chat_ops)

lemma twice_created_fields:
  "ch_dialogs twice_created ''d'' = Some \<lparr> ds_initial = None, ds_last = Some 10, ds_task = Some 1, ds_generation = 2,
     ds_have = 10, ds_sent = [], ds_dropped = [] \<rparr>"
  "ch_routers twice_created 1 = Some
     \<lparr> rt_dialog = ''d'', rt_next = 21, rt_generation = 2, rt_aborted = False, rt_leaving = False \<rparr>"
  by code_simp+

definition stale_created :: chat_state where
  "stale_created =
    (let c = \<lparr> cn_dialog = ''d'', cn_initial = Some 100, cn_last = None, cn_attempt = 0 \<rparr>;
         c' = \<lparr> cn_dialog = ''d'', cn_initial = Some 50, cn_last = None, cn_attempt = 0 \<rparr>;
         w1 = resubscribe_all_dialogs [] (chat_start \<lparr> ch_client := True \<rparr>);
         w2 = subscribe_dialog ''d'' (Some 100) w1;
         w3 = recreate_dialog_consumer ''d'' 0 (w2 \<lparr> ch_recreates := remove1 (''d'', 0) (ch_recreates w2) \<rparr>);
         w4 = unsubscribe_dialog ''d'' w3;
         w5 = subscribe_dialog ''d'' (Some 50) w4;
         w6 = recreate_dialog_consumer ''d'' 0 (w5 \<lparr> ch_recreates := remove1 (''d'', 0) (ch_recreates w5) \<rparr>);
         w7 = create_and_store_consumer c' (Some 110) (w6 \<lparr> ch_creations := remove1 c' (ch_creations w6) \<rparr>) in
     create_and_store_consumer c (Some 110) (w7 \<lparr> ch_creations := remove1 c (ch_creations w7) \<rparr>))"

lemma stale_created_reachable: "chat_reachable False chunks stale_created"
  unfolding stale_created_def Let_def
  by (intro chat_reach_step[OF _ chat_step.creates] chat_reach_step[OF _ chat_step.recreates]
      chat_reach_step[OF _ chat_step.unsubscribes] chat_reach_step[OF _ chat_step.connects]
      chat_reach_step[OF _ chat_step.subscribes] rtranclp.rtrancl_refl)
    (simp_all add: chat_ops)

lemma stale_created_fields:
  "ch_dialogs stale_created ''d'' = Some \<lparr> ds_initial = Some 50, ds_last = None, ds_task = Some 1, ds_generation = 2,
     ds_have = 50, ds_sent = [], ds_dropped = [] \<rparr>"
  "ch_routers stale_created 1 = Some
     \<lparr> rt_dialog = ''d'', rt_next = 101, rt_generation = 2, rt_aborted = False, rt_leaving = False \<rparr>"
  by code_simp+

text \<open>A chunk is lost: it is neither handed over nor ever will be, nor known to the web view otherwise.\<close>

definition loses :: "(string \<Rightarrow> nat set) \<Rightarrow> chat_state \<Rightarrow> string \<Rightarrow> nat \<Rightarrow> bool" where
  "loses chunks w d n \<longleftrightarrow>
     (case ch_dialogs w d of
        None \<Rightarrow> False
      | Some s \<Rightarrow> n \<in> chunks d \<and> ds_have s < n \<and> n \<le> unwrap_or (ds_last s) 0 \<and> n \<notin> set (ds_sent s))"

lemma loses_after:
  assumes "chat_reachable False chunks w" "ch_routers w i = Some r" "\<not> rt_leaving r" "rt_dialog r = d"
    "next_item (chunks d) (rt_next r) (ChunkAt m)" "loses chunks (dialog_router i r (ChunkAt m) w) d n"
  shows "\<exists>v. chat_reachable False chunks v \<and> loses chunks v d n"
  using chat_reach_step[OF assms(1) chat_step.yields[OF assms(2,3)]] assms(4-6) by blast

text \<open>Two creations of one dialog that overlap can lose a chunk for good: when a dialog that asked for new
  chunks only is created twice at the same time (chunk 15, published after the first was confirmed), and
  when a creation for a dialog since closed and opened again comes last (chunk 60, after the 50 the web
  view has).\<close>

theorem overlapping_creations_lose_chunks:
  "(\<exists>w. chat_reachable False (\<lambda>_. {15, 25}) w \<and> loses (\<lambda>_. {15, 25}) w ''d'' 15) \<and>
   (\<exists>w. chat_reachable False (\<lambda>_. {60, 120}) w \<and> loses (\<lambda>_. {60, 120}) w ''d'' 60)"
proof
  show "\<exists>w. chat_reachable False (\<lambda>_. {15, 25}) w \<and> loses (\<lambda>_. {15, 25}) w ''d'' 15"
    by (rule loses_after[OF twice_created_reachable twice_created_fields(2), where m = 25])
      (simp_all add: twice_created_fields(1) loses_def next_item_def dialog_router_def put_router_def put_dialog_def Let_def)
  show "\<exists>w. chat_reachable False (\<lambda>_. {60, 120}) w \<and> loses (\<lambda>_. {60, 120}) w ''d'' 60"
    by (rule loses_after[OF stale_created_reachable stale_created_fields(2), where m = 120])
      (simp_all add: stale_created_fields(1) loses_def next_item_def dialog_router_def put_router_def put_dialog_def Let_def)
qed

text \<open>A dialog opened behind chunk 50 and, before its first chunk, subscribed again for new chunks only: when
  its consumer breaks, the next one starts at the end of the stream, and chunk 65 is lost although all
  consumers took turns.\<close>

definition reopened_live :: chat_state where
  "reopened_live =
    (let c = \<lparr> cn_dialog = ''d'', cn_initial = Some 50, cn_last = None, cn_attempt = 0 \<rparr>;
         w1 = resubscribe_all_dialogs [] (chat_start \<lparr> ch_client := True \<rparr>);
         w2 = subscribe_dialog ''d'' (Some 50) w1;
         w3 = recreate_dialog_consumer ''d'' 0 (w2 \<lparr> ch_recreates := remove1 (''d'', 0) (ch_recreates w2) \<rparr>);
         w4 = create_and_store_consumer c (Some 60) (w3 \<lparr> ch_creations := remove1 c (ch_creations w3) \<rparr>) in
     subscribe_dialog ''d'' None w4)"

definition reopened_router :: router where
  "reopened_router = \<lparr> rt_dialog = ''d'', rt_next = 51, rt_generation = 1, rt_aborted = False, rt_leaving = False \<rparr>"

definition reopened_again :: chat_state where
  "reopened_again =
    (let c = \<lparr> cn_dialog = ''d'', cn_initial = None, cn_last = None, cn_attempt = 1 \<rparr>;
         w6 = dialog_router 0 reopened_router StreamEnds reopened_live;
         w7 = router_exit 0 (reopened_router \<lparr> rt_leaving := True \<rparr>) w6;
         w8 = w7 \<lparr> ch_retries := remove1 (''d'', 1) (ch_retries w7), ch_recreates := ch_recreates w7 @ [(''d'', 1)] \<rparr>;
         w9 = recreate_dialog_consumer ''d'' 1 (w8 \<lparr> ch_recreates := remove1 (''d'', 1) (ch_recreates w8) \<rparr>) in
     create_and_store_consumer c (Some 70) (w9 \<lparr> ch_creations := remove1 c (ch_creations w9) \<rparr>))"

lemma reopened_live_reachable: "chat_reachable False chunks reopened_live"
  unfolding reopened_live_def Let_def
  by (intro chat_reach_step[OF _ chat_step.subscribes] chat_reach_step[OF _ chat_step.creates]
      chat_reach_step[OF _ chat_step.recreates] chat_reach_step[OF _ chat_step.connects] rtranclp.rtrancl_refl)
    (simp_all add: chat_ops)

lemma reopened_live_router: "ch_routers reopened_live 0 = Some reopened_router"
  by code_simp

lemma reopened_again_reachable: "chat_reachable False chunks reopened_again"
  unfolding reopened_again_def Let_def
  by (rule chat_reach_step[OF _ chat_step.creates], rule chat_reach_step[OF _ chat_step.recreates],
      rule chat_reach_step[OF _ chat_step.wakes], rule chat_reach_step[OF _ chat_step.leaves],
      rule chat_reach_step[OF reopened_live_reachable chat_step.yields[OF reopened_live_router]])
    (simp_all add: next_item_def reopened_router_def, code_simp+)

lemma reopening_loses_a_chunk: "loses (\<lambda>_. {65, 80}) reopened_again ''d'' 65"
proof -
  have "ch_dialogs reopened_again ''d'' = Some \<lparr> ds_initial = None, ds_last = Some 70, ds_task = Some 1,
      ds_generation = 2, ds_have = 50, ds_sent = [], ds_dropped = [] \<rparr>" by code_simp
  then show ?thesis by (simp add: loses_def)
qed

text \<open>A chunk that comes while no web view listens counts as handed over: nothing brings it again.\<close>

lemma unheard_chunk_is_gone:
  assumes "ch_dialogs w (rt_dialog r) = Some s" "ds_last s = Some b" "n \<le> b"
  shows "ch_events (dialog_router i r (ChunkAt n) w) = ch_events w"
    "\<not> ch_channel w \<Longrightarrow> ch_events (dialog_router i r (ChunkAt m) w) = ch_events w"
    "\<not> ch_channel w \<Longrightarrow> b < m \<Longrightarrow>
       map_option ds_last (ch_dialogs (dialog_router i r (ChunkAt m) w) (rt_dialog r)) = Some (Some m)"
  using assms by (simp_all add: dialog_router_def Let_def put_router_def put_dialog_def)

section \<open>A run\<close>

definition one_consumer :: chat_state where
  "one_consumer =
    (let c = \<lparr> cn_dialog = ''d'', cn_initial = Some 50, cn_last = None, cn_attempt = 0 \<rparr>;
         w0 = register_event_channel chat_start;
         w1 = resubscribe_all_dialogs [] (w0 \<lparr> ch_client := True \<rparr>);
         w2 = subscribe_dialog ''d'' (Some 50) w1;
         w3 = recreate_dialog_consumer ''d'' 0 (w2 \<lparr> ch_recreates := remove1 (''d'', 0) (ch_recreates w2) \<rparr>) in
     create_and_store_consumer c (Some 60) (w3 \<lparr> ch_creations := remove1 c (ch_creations w3) \<rparr>))"

definition one_chunk :: chat_state where
  "one_chunk = dialog_router 0
     \<lparr> rt_dialog = ''d'', rt_next = 51, rt_generation = 1, rt_aborted = False, rt_leaving = False \<rparr> (ChunkAt 60) one_consumer"

lemma one_consumer_reachable: "chat_reachable turns chunks one_consumer"
  unfolding one_consumer_def Let_def
  by (intro chat_reach_step[OF _ chat_step.creates] chat_reach_step[OF _ chat_step.recreates]
      chat_reach_step[OF _ chat_step.connects] chat_reach_step[OF _ chat_step.registers]
      chat_reach_step[OF _ chat_step.subscribes] rtranclp.rtrancl_refl)
    (simp_all add: chat_ops settled_dialog_def register_event_channel_def)

lemma one_chunk_reachable: "chat_reachable turns (\<lambda>_. {60}) one_chunk"
  unfolding one_chunk_def
  by (rule chat_reach_step[OF one_consumer_reachable chat_step.yields])
    (simp_all add: next_item_def, code_simp)

lemma one_chunk_dialog:
  "ch_dialogs one_chunk ''d'' = Some \<lparr> ds_initial = Some 50, ds_last = Some 60, ds_task = Some 0, ds_generation = 1,
     ds_have = 50, ds_sent = [60], ds_dropped = [] \<rparr>"
  by code_simp

lemma chunks_handed_over_in_order_witness:
  "\<exists>r. ch_routers one_chunk 0 = Some r \<and> rt_dialog r = ''d'' \<and> \<not> rt_aborted r"
  using chunks_handed_over_in_order[OF one_chunk_reachable[of False] one_chunk_dialog] by auto

lemma no_chunk_is_missed_witness: "(''d'', 60) \<in> set (ch_events one_chunk)"
  using no_chunk_is_missed[OF one_chunk_reachable one_chunk_dialog, of 60 60] by simp

end
