(* ===== verification/ChatBridge.thy ===== *)
theory ChatBridge
  imports ScriptOutput ToolUpdate
begin

text \<open>The rest of the chat application's native side (openframe-chat/src-tauri): its configuration
  (config\_reader.rs, and preferences\_writer.rs of the client, which writes it on macOS), the token file
  and its watcher (token\_watcher.rs, token\_decryption\_service.rs), the connection
  (nats\_bridge/connection.rs) and the notifications with their clicks (nats\_bridge/notifications.rs).
  Decryption, base64 and percent encoding are parameters; JSON is a value.\<close>

section \<open>Configuration\<close>

record app_config =
  cf_token_path :: "string option"
  cf_secret :: "string option"
  cf_server_url :: "string option"
  cf_machine_id :: "string option"
  cf_debug_mode :: bool

definition no_config :: app_config where
  "no_config = \<lparr> cf_token_path = None, cf_secret = None, cf_server_url = None, cf_machine_id = None, cf_debug_mode = False \<rparr>"

definition KNOWN_FLAGS :: "string list" where
  "KNOWN_FLAGS = [''--openframe-token-path'', ''--openframe-secret'', ''--serverUrl'', ''--machineId'', ''--devMode'']"

text \<open>A flag and what follows it, if that is a value.\<close>

definition value_after :: "string list \<Rightarrow> string option" where
  "value_after rest =
    (case rest of [] \<Rightarrow> None | v # _ \<Rightarrow> if v = [] \<or> v \<in> set KNOWN_FLAGS then None else Some v)"

definition keep_or :: "'a option \<Rightarrow> 'a option \<Rightarrow> 'a option" where
  "keep_or new old = (case new of None \<Rightarrow> old | Some _ \<Rightarrow> new)"

definition apply_flag :: "string \<Rightarrow> string list \<Rightarrow> app_config \<Rightarrow> app_config" where
  "apply_flag arg rest c =
    (if arg = ''--openframe-token-path'' then c \<lparr> cf_token_path := keep_or (value_after rest) (cf_token_path c) \<rparr>
     else if arg = ''--openframe-secret'' then c \<lparr> cf_secret := keep_or (value_after rest) (cf_secret c) \<rparr>
     else if arg = ''--serverUrl'' then c \<lparr> cf_server_url := keep_or (value_after rest) (cf_server_url c) \<rparr>
     else if arg = ''--machineId'' then c \<lparr> cf_machine_id := keep_or (value_after rest) (cf_machine_id c) \<rparr>
     else if arg = ''--devMode'' then c \<lparr> cf_debug_mode := True \<rparr>
     else c)"

fun from_args_loop :: "string list \<Rightarrow> app_config \<Rightarrow> app_config" where
  "from_args_loop [] c = c"
| "from_args_loop (a # rest) c = from_args_loop rest (apply_flag a rest c)"

definition from_args :: "string list \<Rightarrow> app_config" where
  "from_args args = from_args_loop args no_config"

definition is_valid :: "app_config \<Rightarrow> bool" where
  "is_valid c \<longleftrightarrow> cf_token_path c \<noteq> None \<and> cf_secret c \<noteq> None \<and> cf_server_url c \<noteq> None"

text \<open>A value of the preferences or the registry, trimmed; an empty one is none.\<close>

definition read_setting :: "(string \<Rightarrow> string option) \<Rightarrow> string \<Rightarrow> string option" where
  "read_setting stored key =
    (case stored key of None \<Rightarrow> None | Some v \<Rightarrow> if trim v = [] then None else Some (trim v))"

definition read_bool_setting :: "(string \<Rightarrow> string option) \<Rightarrow> string \<Rightarrow> bool" where
  "read_bool_setting stored key =
    (case read_setting stored key of None \<Rightarrow> False | Some v \<Rightarrow> v = ''1'' \<or> eq_ignore_ascii_case v ''true'')"

definition fill_missing_from_registry :: "(string \<Rightarrow> string option) \<Rightarrow> app_config \<Rightarrow> app_config" where
  "fill_missing_from_registry stored c =
     c \<lparr> cf_token_path := keep_or (cf_token_path c) (read_setting stored ''openframe-token-path''),
         cf_secret := keep_or (cf_secret c) (read_setting stored ''openframe-secret''),
         cf_server_url := keep_or (cf_server_url c) (read_setting stored ''serverUrl''),
         cf_debug_mode := (cf_debug_mode c \<or> read_bool_setting stored ''devMode'') \<rparr>"

datatype chat_platform = ChatMacOS | ChatWindows | ChatOther

definition from_preferences :: "chat_platform \<Rightarrow> (string \<Rightarrow> string option) \<Rightarrow> string list \<Rightarrow> app_config" where
  "from_preferences p stored args =
    (case p of
       ChatMacOS \<Rightarrow>
         \<lparr> cf_token_path = read_setting stored ''openframe-token-path'', cf_secret = read_setting stored ''openframe-secret'',
           cf_server_url = read_setting stored ''serverUrl'', cf_machine_id = read_setting stored ''machineId'',
           cf_debug_mode = read_bool_setting stored ''devMode'' \<rparr>
     | ChatWindows \<Rightarrow>
         (let c = from_args args in if is_valid c then c else fill_missing_from_registry stored c)
     | ChatOther \<Rightarrow> from_args args)"

text \<open>What the client writes into the preferences on macOS: key by key, the first failure ending it; a key
  that is not among those written keeps the value it had. The parameters: whether somebody is logged in
  at the console, and the error of writing a key, if any.\<close>

type_synonym preferences = "string \<rightharpoonup> string"

fun write_keys :: "(string \<Rightarrow> string option) \<Rightarrow> (string \<times> string) list \<Rightarrow> preferences \<Rightarrow> (string, unit) result \<times> preferences" where
  "write_keys failure [] old = (Ok (), old)"
| "write_keys failure ((key, val) # prefs) old =
     (case failure key of
        Some e \<Rightarrow> (Err e, old)
      | None \<Rightarrow> write_keys failure prefs (old(key \<mapsto> val)))"

definition preferences_write ::
  "bool \<Rightarrow> (string \<Rightarrow> string option) \<Rightarrow> (string \<times> string) list \<Rightarrow> preferences \<Rightarrow> (string, unit) result \<times> preferences" where
  "preferences_write console failure prefs old =
    (if \<not> console then (Err ''No console user found'', old) else write_keys failure prefs old)"

section \<open>The token\<close>

text \<open>The parameters: decoding base64, and opening what AES-GCM sealed, with its nonce.\<close>

record cipher =
  ci_base64 :: "string \<Rightarrow> (string, string) result"
  ci_open :: "string \<Rightarrow> string \<Rightarrow> string \<Rightarrow> (string, string) result"

definition new_decryptor :: "string \<Rightarrow> (string, string) result" where
  "new_decryptor secret =
    (if length secret \<noteq> 32 then Err (''Secret must be exactly 32 bytes, got '' @ decimal (length secret)) else Ok secret)"

definition decrypt_token :: "cipher \<Rightarrow> string \<Rightarrow> string \<Rightarrow> (string, string) result" where
  "decrypt_token C key encrypted =
    (case ci_base64 C encrypted of
       Inl e \<Rightarrow> Err (''Failed to decode base64: '' @ e)
     | Inr combined \<Rightarrow>
         if length combined < 12 then Err ''Encrypted data too short''
         else (case ci_open C key (take 12 combined) (drop 12 combined) of
             Inl e \<Rightarrow> Err (''Failed to decrypt: '' @ e)
           | Inr plain \<Rightarrow> if is_utf8 plain then Ok plain else Err ''Failed to convert to UTF-8''))"

type_synonym token_source = "(string \<times> string) option"

text \<open>The first path and key stay; the answer tells whether these were the first.\<close>

definition enable_source :: "string \<Rightarrow> string \<Rightarrow> token_source \<Rightarrow> bool \<times> token_source" where
  "enable_source path key source = (case source of Some _ \<Rightarrow> (False, source) | None \<Rightarrow> (True, Some (path, key)))"

definition read_and_decrypt :: "cipher \<Rightarrow> (string \<Rightarrow> string option) \<Rightarrow> string \<Rightarrow> string \<Rightarrow> string option" where
  "read_and_decrypt C files path key =
    (case files path of
       None \<Rightarrow> None
     | Some content \<Rightarrow>
         if trim content = [] then None
         else (case decrypt_token C key (trim content) of Inl _ \<Rightarrow> None | Inr token \<Rightarrow> Some token))"

definition read_fresh :: "cipher \<Rightarrow> (string \<Rightarrow> string option) \<Rightarrow> token_source \<Rightarrow> string option" where
  "read_fresh C files source = (case source of None \<Rightarrow> None | Some (path, key) \<Rightarrow> read_and_decrypt C files path key)"

text \<open>The watcher: what it remembers, and the token events so far.\<close>

record watcher =
  wa_mtime :: "nat option"
  wa_emitted :: "string option"
  wa_missing :: nat
  wa_events :: "string option list"

definition CLEAR_AFTER_MISSING_POLLS :: nat where "CLEAR_AFTER_MISSING_POLLS = 3"

definition watcher_start :: watcher where
  "watcher_start = \<lparr> wa_mtime = None, wa_emitted = None, wa_missing = 0, wa_events = [] \<rparr>"

definition emit_token :: "string option \<Rightarrow> watcher \<Rightarrow> watcher" where
  "emit_token token w = w \<lparr> wa_events := wa_events w @ [token], wa_emitted := token \<rparr>"

text \<open>A poll sees the time of the last change and, if it reads, the token.\<close>

definition poll_token_file :: "nat option \<times> string option \<Rightarrow> watcher \<Rightarrow> watcher" where
  "poll_token_file seen w =
    (let mtime = fst seen in
     if mtime = None \<or> mtime \<noteq> wa_mtime w \<or> 0 < wa_missing w then
       (let w1 = w \<lparr> wa_mtime := mtime \<rparr> in
        case snd seen of
          Some token \<Rightarrow>
            (let w2 = w1 \<lparr> wa_missing := 0 \<rparr> in
             if wa_emitted w2 \<noteq> Some token then emit_token (Some token) w2 else w2)
        | None \<Rightarrow>
            if wa_emitted w1 \<noteq> None then
              (let w2 = w1 \<lparr> wa_missing := wa_missing w1 + 1 \<rparr> in
               if CLEAR_AFTER_MISSING_POLLS \<le> wa_missing w2 then (emit_token None w2) \<lparr> wa_missing := 0 \<rparr> else w2)
            else w1)
     else w)"

section \<open>Starting up\<close>

record chat_app =
  ap_server_url :: "string option"
  ap_debug :: bool
  ap_source :: token_source
  ap_watchers :: nat

definition apply_config :: "app_config \<Rightarrow> chat_app \<Rightarrow> chat_app" where
  "apply_config c a =
    (let a1 = (case cf_server_url c of Some url \<Rightarrow> a \<lparr> ap_server_url := Some url \<rparr> | None \<Rightarrow> a);
         a2 = a1 \<lparr> ap_debug := cf_debug_mode c \<rparr> in
     case (cf_token_path c, cf_secret c) of
       (Some path, Some secret) \<Rightarrow>
         (case new_decryptor secret of
            Inl _ \<Rightarrow> a2
          | Inr key \<Rightarrow>
              (case enable_source path key (ap_source a2) of (first, source) \<Rightarrow>
                 a2 \<lparr> ap_source := source, ap_watchers := ap_watchers a2 + (if first then 1 else 0) \<rparr>))
     | _ \<Rightarrow> a2)"

text \<open>The recovery: the configuration is read every five seconds until it is valid.\<close>

fun recover_config :: "app_config list \<Rightarrow> chat_app \<Rightarrow> chat_app" where
  "recover_config [] a = a"
| "recover_config (c # cs) a = (if is_valid c then apply_config c a else recover_config cs a)"

text \<open>A second launch of the application hands over its command line.\<close>

definition second_launch :: "chat_platform \<Rightarrow> (string \<Rightarrow> string option) \<Rightarrow> string list \<Rightarrow> string list \<Rightarrow> chat_app \<Rightarrow> chat_app" where
  "second_launch p stored own_args argv a =
    (let c = from_args argv;
         c' = (if is_valid c then c else from_preferences p stored own_args) in
     if is_valid c' then apply_config c' a else a)"

definition bridge_machine_id :: "app_config \<Rightarrow> string option" where
  "bridge_machine_id c =
    (case cf_machine_id c of None \<Rightarrow> None | Some m \<Rightarrow> if trim m = [] then None else Some (trim m))"

section \<open>The connection\<close>

datatype link_state = LinkConnecting | LinkConnected | LinkDisconnected

record bridge =
  br_state :: link_state
  br_reconnects :: "32 word"
  br_had_connection :: bool
  br_auth_failures :: "32 word"
  br_status :: "(link_state \<times> 32 word) list"

definition bridge_start :: bridge where
  "bridge_start = \<lparr> br_state = LinkDisconnected, br_reconnects = 0, br_had_connection = False, br_auth_failures = 0, br_status = [] \<rparr>"

definition set_link_state :: "link_state \<Rightarrow> bridge \<Rightarrow> bridge" where
  "set_link_state new b =
    (if br_state b = new then b
     else b \<lparr> br_state := new, br_status := br_status b @ [(new, br_reconnects b)] \<rparr>)"

datatype link_event = EvConnected | EvDisconnected | EvOther

definition handle_link_event :: "link_event \<Rightarrow> bridge \<Rightarrow> bridge" where
  "handle_link_event e b =
    (case e of
       EvConnected \<Rightarrow>
         set_link_state LinkConnected
           (b \<lparr> br_auth_failures := 0, br_had_connection := True,
                br_reconnects := (if br_had_connection b then br_reconnects b + 1 else br_reconnects b) \<rparr>)
     | EvDisconnected \<Rightarrow> set_link_state LinkDisconnected b
     | EvOther \<Rightarrow> b)"

definition BASE_DELAY_MS :: nat where "BASE_DELAY_MS = 1000"
definition MAX_DELAY_MS :: nat where "MAX_DELAY_MS = 30000"
definition FAST_RETRIES :: nat where "FAST_RETRIES = 3"
definition FAST_DELAY_MS :: nat where "FAST_DELAY_MS = 200"

definition backoff_ms :: "nat \<Rightarrow> nat" where
  "backoff_ms e = min (BASE_DELAY_MS * 2 ^ min e 20) MAX_DELAY_MS"

text \<open>The jitter is a fraction num / den of at least one half and less than one.\<close>

definition chat_reconnect_delay :: "nat \<Rightarrow> nat \<Rightarrow> nat \<Rightarrow> nat" where
  "chat_reconnect_delay attempt num den =
    (let base_ms = (if attempt \<le> FAST_RETRIES then FAST_DELAY_MS else backoff_ms (attempt - FAST_RETRIES - 1)) in
     base_ms * num div den)"

definition strip_prefix :: "string \<Rightarrow> string \<Rightarrow> string option" where
  "strip_prefix s pre = (if starts_with s pre then Some (drop (length pre) s) else None)"

definition NATS_WS_PATH :: string where "NATS_WS_PATH = ''/ws/nats-api''"

definition build_connect_url :: "(string \<Rightarrow> string) \<Rightarrow> string \<Rightarrow> string \<Rightarrow> string" where
  "build_connect_url encode server_url token =
    (case (case strip_prefix server_url ''http://'' of
             Some h \<Rightarrow> (''ws'', h)
           | None \<Rightarrow> (''wss'', unwrap_or (strip_prefix server_url ''https://'') server_url)) of
       (scheme, host) \<Rightarrow>
         scheme @ ''://'' @ rev (dropWhile (\<lambda>c. c = CHR ''/'') (rev host)) @ NATS_WS_PATH
           @ ''?authorization='' @ encode token)"

text \<open>The answer to a rejected token: the time waited, and the address to dial with the newest token.\<close>

definition auth_url_callback ::
  "(string \<Rightarrow> string) \<Rightarrow> string option \<Rightarrow> string option \<Rightarrow> bridge \<Rightarrow> nat \<times> (string, string) result \<times> bridge" where
  "auth_url_callback encode token url b =
    (let failures = br_auth_failures b in
     (if 0 < failures then backoff_ms (unat failures) else 0,
      (case (token, url) of
         (Some t, Some u) \<Rightarrow> Ok (build_connect_url encode u t) | _ \<Rightarrow> Err ''no token available for NATS reconnect''),
      b \<lparr> br_auth_failures := failures + 1 \<rparr>))"

text \<open>One turn of the connect loop sees: whether there are an address and a token, what they are when it dials, and
  whether the client accepts the address. The answer is the addresses dialled and whether one was accepted.\<close>

record connect_view =
  cv_have_url :: bool
  cv_have_token :: bool
  cv_url :: "string option"
  cv_token :: "string option"
  cv_accepted :: bool

fun run_bridge :: "(string \<Rightarrow> string) \<Rightarrow> connect_view list \<Rightarrow> bridge \<Rightarrow> string list \<times> bool \<times> bridge" where
  "run_bridge encode [] b = ([], False, b)"
| "run_bridge encode (v # vs) b =
     (let b1 = set_link_state LinkConnecting b in
      if \<not> (cv_have_url v \<and> cv_have_token v) then run_bridge encode vs b1
      else (case cv_url v of
          None \<Rightarrow> run_bridge encode vs b1
        | Some server_url \<Rightarrow>
            (let connect_url = build_connect_url encode server_url (unwrap_or (cv_token v) []) in
             if cv_accepted v then ([connect_url], True, b1)
             else (case run_bridge encode vs (set_link_state LinkDisconnected b1) of
                 (dialled, accepted, b2) \<Rightarrow> (connect_url # dialled, accepted, b2)))))"

definition mask_token :: "string \<Rightarrow> string" where
  "mask_token token =
    (let cs = code_points token; n = length cs in
     if n \<le> 8 then ''****''
     else concat (map encode_scalar (take 4 cs)) @ ''...'' @ concat (map encode_scalar (drop (n - 4) cs))
            @ '' (len '' @ decimal n @ '')'')"

section \<open>Notifications\<close>

datatype json = JString string | JObject "(string \<times> json) list" | JOther

definition json_get :: "json \<Rightarrow> string \<Rightarrow> json option" where
  "json_get v key = (case v of JObject kvs \<Rightarrow> map_of kvs key | _ \<Rightarrow> None)"

definition string_field :: "json \<Rightarrow> string \<Rightarrow> string option" where
  "string_field v key = (case json_get v key of Some (JString s) \<Rightarrow> if s = [] then None else Some s | _ \<Rightarrow> None)"

datatype notification_target = TicketTarget string | DialogTarget string

definition parse_target :: "json \<Rightarrow> notification_target option" where
  "parse_target context =
    (let ticket = map_option TicketTarget (string_field context ''ticketId'');
         dialog = map_option DialogTarget (string_field context ''dialogId'');
         or_else = (\<lambda>a b. case a of None \<Rightarrow> b | Some _ \<Rightarrow> a) in
     case string_field context ''type'' of
       Some t \<Rightarrow>
         if t = ''CLIENT_AI_MESSAGE'' then dialog
         else if t = ''ADMIN_MESSAGE_PUBLISHED'' \<or> t = ''TICKET_STATUS_CHANGED'' then ticket
         else if t = ''TICKET_ESCALATED_BY_USER'' then or_else dialog ticket
         else or_else ticket dialog
     | None \<Rightarrow> or_else ticket dialog)"

definition ELLIPSIS :: nat where "ELLIPSIS = 0x2026"

definition truncate_for_notification :: "string \<Rightarrow> nat \<Rightarrow> string" where
  "truncate_for_notification s max_chars =
    (if length (code_points s) \<le> max_chars then s
     else concat (map encode_scalar (take (max_chars - 1) (code_points s) @ [ELLIPSIS])))"

record parsed_notification =
  pn_title :: string
  pn_body :: string
  pn_target :: "notification_target option"

definition parse_notification :: "json \<Rightarrow> parsed_notification option" where
  "parse_notification payload =
    (case string_field payload ''title'' of
       None \<Rightarrow> None
     | Some title \<Rightarrow> Some
         \<lparr> pn_title = title,
           pn_body = unwrap_or (map_option (\<lambda>t. truncate_for_notification t 140) (string_field payload ''description'')) [],
           pn_target = (case json_get payload ''context'' of None \<Rightarrow> None | Some c \<Rightarrow> parse_target c) \<rparr>)"

text \<open>The window, if there is one, with what it answers about being visible and focused.\<close>

type_synonym window_view = "(bool option \<times> bool option) option"

definition should_notify :: "window_view \<Rightarrow> bool" where
  "should_notify win =
    (case win of None \<Rightarrow> True | Some (visible, focused) \<Rightarrow> \<not> (unwrap_or visible False \<and> unwrap_or focused False))"

record notifier =
  no_enabled :: bool
  no_unread :: "32 word"
  no_badge :: "32 word option"
  no_fired :: "parsed_notification list"

definition set_badge :: "window_view \<Rightarrow> 32 word \<Rightarrow> notifier \<Rightarrow> notifier" where
  "set_badge win n w = (if win = None then w else w \<lparr> no_badge := if n = 0 then None else Some n \<rparr>)"

definition maybe_notify :: "window_view \<Rightarrow> json \<Rightarrow> notifier \<Rightarrow> notifier" where
  "maybe_notify win payload w =
    (if \<not> no_enabled w then w
     else case parse_notification payload of
       None \<Rightarrow> w
     | Some parsed \<Rightarrow>
         if \<not> should_notify win then w
         else (let n = no_unread w + 1; w1 = set_badge win n (w \<lparr> no_unread := n \<rparr>) in
               w1 \<lparr> no_fired := no_fired w1 @ [parsed] \<rparr>))"

text \<open>The messages of a subscription, None where one is not JSON.\<close>

definition notification_router :: "(window_view \<times> json option) list \<Rightarrow> notifier \<Rightarrow> notifier" where
  "notification_router messages w =
    fold (\<lambda>(win, payload) w. case payload of None \<Rightarrow> w | Some p \<Rightarrow> maybe_notify win p w) messages w"

definition on_main_window_focused :: "window_view \<Rightarrow> notifier \<Rightarrow> notifier" where
  "on_main_window_focused win w =
    (if 0 < no_unread w then set_badge win 0 (w \<lparr> no_unread := 0 \<rparr>) else w)"

definition set_notifications_enabled :: "bool \<Rightarrow> notifier \<Rightarrow> notifier" where
  "set_notifications_enabled on w = w \<lparr> no_enabled := on \<rparr>"

text \<open>The task of the subscription: there, or not, because it failed or its stream closed.\<close>

definition ensure_notification_subscription :: "string option \<Rightarrow> bool \<Rightarrow> bool \<Rightarrow> bool \<Rightarrow> bool" where
  "ensure_notification_subscription machine_id client subscribe_ok has_task =
    (if machine_id = None \<or> \<not> client then has_task else has_task \<or> subscribe_ok)"

section \<open>Clicks\<close>

definition CLICK_URI_PREFIX :: string where "CLICK_URI_PREFIX = ''openframe-chat://notify''"

definition click_payload :: "notification_target \<Rightarrow> string \<times> string" where
  "click_payload t = (case t of TicketTarget i \<Rightarrow> (''ticket'', i) | DialogTarget i \<Rightarrow> (''dialog'', i))"

definition click_uri :: "(string \<Rightarrow> string) \<Rightarrow> notification_target option \<Rightarrow> string" where
  "click_uri encode target =
    (case target of
       Some (TicketTarget i) \<Rightarrow> CLICK_URI_PREFIX @ ''?kind=ticket&id='' @ encode i
     | Some (DialogTarget i) \<Rightarrow> CLICK_URI_PREFIX @ ''?kind=dialog&id='' @ encode i
     | None \<Rightarrow> CLICK_URI_PREFIX)"

text \<open>decode is the percent decoding to text, which fails when that is not UTF-8.\<close>

definition read_pair :: "(string \<Rightarrow> string option) \<Rightarrow> string \<Rightarrow> string option \<times> string option \<Rightarrow> string option \<times> string option" where
  "read_pair decode pair found =
    (case split_once (CHR ''='') pair of
       None \<Rightarrow> found
     | Some (k, v) \<Rightarrow>
         if k = ''kind'' then (Some v, snd found) else if k = ''id'' then (fst found, decode v) else found)"

definition parse_click_payload :: "(string \<Rightarrow> string option) \<Rightarrow> string \<Rightarrow> (string \<times> string) option" where
  "parse_click_payload decode uri =
    (case strip_prefix uri CLICK_URI_PREFIX of
       None \<Rightarrow> None
     | Some rest \<Rightarrow>
         (case strip_prefix (unwrap_or (strip_prefix rest ''/'') rest) ''?'' of
            None \<Rightarrow> None
          | Some query \<Rightarrow>
              (case fold (read_pair decode) (split_on (CHR ''&'') query) (None, None) of
                 (Some kind, Some i) \<Rightarrow> if i = [] then None else Some (kind, i)
               | _ \<Rightarrow> None)))"

record clicks =
  ck_ready :: bool
  ck_stash :: "(string \<times> string) option"
  ck_emitted :: "(string \<times> string) list"
  ck_activated :: nat

definition emit_or_stash :: "string \<times> string \<Rightarrow> clicks \<Rightarrow> clicks" where
  "emit_or_stash payload w =
    (if ck_ready w then w \<lparr> ck_emitted := ck_emitted w @ [payload] \<rparr> else w \<lparr> ck_stash := Some payload \<rparr>)"

definition deliver_click_payload :: "(string \<times> string) option \<Rightarrow> clicks \<Rightarrow> clicks" where
  "deliver_click_payload payload w =
    (let w1 = (case payload of Some p \<Rightarrow> emit_or_stash p w | None \<Rightarrow> w) in w1 \<lparr> ck_activated := ck_activated w1 + 1 \<rparr>)"

definition handle_notification_uri :: "(string \<Rightarrow> string option) \<Rightarrow> string \<Rightarrow> clicks \<Rightarrow> bool \<times> clicks" where
  "handle_notification_uri decode uri w =
    (if starts_with uri CLICK_URI_PREFIX then (True, deliver_click_payload (parse_click_payload decode uri) w) else (False, w))"

definition take_startup_click :: "clicks \<Rightarrow> (string \<times> string) option \<times> clicks" where
  "take_startup_click w = (ck_stash w, w \<lparr> ck_ready := True, ck_stash := None \<rparr>)"

section \<open>One configuration on every platform\<close>

text \<open>The command line of a configuration.\<close>

definition flag_args :: "string \<Rightarrow> string option \<Rightarrow> string list" where
  "flag_args flag v = (case v of None \<Rightarrow> [] | Some x \<Rightarrow> [flag, x])"

definition chat_args :: "app_config \<Rightarrow> string list" where
  "chat_args c =
    flag_args ''--openframe-token-path'' (cf_token_path c) @ flag_args ''--openframe-secret'' (cf_secret c)
    @ flag_args ''--serverUrl'' (cf_server_url c) @ flag_args ''--machineId'' (cf_machine_id c)
    @ (if cf_debug_mode c then [''--devMode''] else [])"

definition plain_value :: "string option \<Rightarrow> bool" where
  "plain_value v = (case v of None \<Rightarrow> True | Some x \<Rightarrow> x \<noteq> [] \<and> trim x = x \<and> take 2 x \<noteq> ''--'')"

definition plain_config :: "app_config \<Rightarrow> bool" where
  "plain_config c \<longleftrightarrow> plain_value (cf_token_path c) \<and> plain_value (cf_secret c) \<and> plain_value (cf_server_url c) \<and>
     plain_value (cf_machine_id c)"

lemma plain_not_flag: "take 2 x \<noteq> ''--'' \<Longrightarrow> x \<notin> set KNOWN_FLAGS"
  by (auto simp: KNOWN_FLAGS_def)

lemma plain_apply_flag: "take 2 x \<noteq> ''--'' \<Longrightarrow> apply_flag x rest c = c"
  using plain_not_flag[of x] by (simp add: KNOWN_FLAGS_def apply_flag_def)

lemma from_args_flag:
  assumes "plain_value v"
  shows "from_args_loop (flag_args flag v @ rest) c =
    from_args_loop rest (case v of None \<Rightarrow> c | Some x \<Rightarrow> apply_flag flag [x] c)"
proof (cases v)
  case (Some x)
  then have x: "x \<noteq> []" "take 2 x \<noteq> ''--''" using assms by (simp_all add: plain_value_def)
  have "apply_flag flag (x # rest) c = apply_flag flag [x] c" by (simp add: apply_flag_def value_after_def)
  then show ?thesis using Some x plain_apply_flag[OF x(2)] by (simp add: flag_args_def)
qed (simp add: flag_args_def)

lemma args_to_pairs_flag:
  assumes "plain_value v" "take 2 flag = ''--''"
  shows "args_to_pairs (flag_args flag v @ rest) = (case v of None \<Rightarrow> [] | Some x \<Rightarrow> [(drop 2 flag, x)]) @ args_to_pairs rest"
  using assms by (cases v) (simp_all add: flag_args_def plain_value_def)

lemma write_keys_all:
  "write_keys (\<lambda>_. None) prefs old = (Ok (), \<lambda>key. keep_or (map_of (rev prefs) key) (old key))"
proof (induction prefs arbitrary: old)
  case (Cons p prefs)
  then show ?case
    by (cases p) (auto simp: fun_eq_iff keep_or_def map_add_def split: option.split)
qed (simp add: keep_or_def)

definition flag_pair :: "string \<Rightarrow> string option \<Rightarrow> (string \<times> string) list" where
  "flag_pair key v = (case v of None \<Rightarrow> [] | Some x \<Rightarrow> [(key, x)])"

lemma args_to_pairs_key:
  assumes "plain_value v" "flag = ''--'' @ key"
  shows "args_to_pairs (flag_args flag v @ rest) = flag_pair key v @ args_to_pairs rest"
proof -
  have "take 2 flag = ''--''" "drop 2 flag = key" using assms(2) by simp_all
  then show ?thesis using args_to_pairs_flag[OF assms(1), of flag rest] by (cases v) (simp_all add: flag_pair_def)
qed

lemma chat_pairs:
  assumes "plain_config c"
  shows "args_to_pairs (chat_args c) = flag_pair ''openframe-token-path'' (cf_token_path c)
    @ flag_pair ''openframe-secret'' (cf_secret c) @ flag_pair ''serverUrl'' (cf_server_url c)
    @ flag_pair ''machineId'' (cf_machine_id c) @ (if cf_debug_mode c then [(''devMode'', ''1'')] else [])"
proof -
  have p: "plain_value (cf_token_path c)" "plain_value (cf_secret c)" "plain_value (cf_server_url c)"
    "plain_value (cf_machine_id c)"
    using assms by (simp_all add: plain_config_def)
  have "args_to_pairs (if b then [''--devMode''] else []) = (if b then [(''devMode'', ''1'')] else [])" for b
    by simp
  then show ?thesis
    using args_to_pairs_key[OF p(1), of "''--openframe-token-path''" "''openframe-token-path''"]
      args_to_pairs_key[OF p(2), of "''--openframe-secret''" "''openframe-secret''"]
      args_to_pairs_key[OF p(3), of "''--serverUrl''" "''serverUrl''"]
      args_to_pairs_key[OF p(4), of "''--machineId''" "''machineId''"]
    by (simp add: chat_args_def)
qed

lemma read_kept:
  assumes "plain_value v" "stored key = keep_or v (old key)"
  shows "read_setting stored key = keep_or v (read_setting old key)"
  using assms by (cases v) (simp_all add: read_setting_def keep_or_def plain_value_def)

text \<open>C36. The configuration the client starts the chat application with arrives, if its values are
  trimmed, not empty and do not begin with two dashes: the application reads exactly it from the command
  line; and on macOS, where the client writes the same command line into the preferences (here with a user
  at the console and every write succeeding), the application reads it from there if nothing was stored
  before, and otherwise with each setting the command line lacks as it was stored before, since writing
  never deletes a key.\<close>

theorem configuration_arrives:
  assumes "plain_config c"
  shows "from_args (chat_args c) = c \<and>
    (let (r, new) = preferences_write True (\<lambda>_. None) (args_to_pairs (chat_args c)) old in
     r = Ok () \<and>
     from_preferences ChatMacOS new own_args =
       \<lparr> cf_token_path = keep_or (cf_token_path c) (read_setting old ''openframe-token-path''),
         cf_secret = keep_or (cf_secret c) (read_setting old ''openframe-secret''),
         cf_server_url = keep_or (cf_server_url c) (read_setting old ''serverUrl''),
         cf_machine_id = keep_or (cf_machine_id c) (read_setting old ''machineId''),
         cf_debug_mode = (cf_debug_mode c \<or> read_bool_setting old ''devMode'') \<rparr> \<and>
     (old = Map.empty \<longrightarrow> from_preferences ChatMacOS new own_args = c))"
proof
  note p = assms[unfolded plain_config_def]
  have v: "value_after [x] = Some x" if "plain_value (Some x)" for x
    using that plain_not_flag by (simp add: value_after_def plain_value_def)
  show "from_args (chat_args c) = c"
    using p v unfolding from_args_def chat_args_def
    by (cases c) (auto simp: from_args_flag no_config_def apply_flag_def keep_or_def split: option.split)
  define new where "new = (\<lambda>key. keep_or (map_of (rev (args_to_pairs (chat_args c))) key) (old key))"
  have one: "trim ''1'' = ''1''" by code_simp
  have reads: "from_preferences ChatMacOS new own_args =
       \<lparr> cf_token_path = keep_or (cf_token_path c) (read_setting old ''openframe-token-path''),
         cf_secret = keep_or (cf_secret c) (read_setting old ''openframe-secret''),
         cf_server_url = keep_or (cf_server_url c) (read_setting old ''serverUrl''),
         cf_machine_id = keep_or (cf_machine_id c) (read_setting old ''machineId''),
         cf_debug_mode = (cf_debug_mode c \<or> read_bool_setting old ''devMode'') \<rparr>"
  proof -
    have keys: "new ''openframe-token-path'' = keep_or (cf_token_path c) (old ''openframe-token-path'')"
      "new ''openframe-secret'' = keep_or (cf_secret c) (old ''openframe-secret'')"
      "new ''serverUrl'' = keep_or (cf_server_url c) (old ''serverUrl'')"
      "new ''machineId'' = keep_or (cf_machine_id c) (old ''machineId'')"
      "new ''devMode'' = (if cf_debug_mode c then Some ''1'' else old ''devMode'')"
      unfolding new_def chat_pairs[OF assms]
      by (simp_all add: flag_pair_def map_add_def keep_or_def split: option.split)
    have debug: "read_bool_setting new ''devMode'' = (cf_debug_mode c \<or> read_bool_setting old ''devMode'')"
      using one keys(5) by (simp add: read_bool_setting_def read_setting_def)
    show ?thesis
      unfolding from_preferences_def chat_platform.case debug
      using p keys(1-4) by (simp add: read_kept[where stored = new and old = old])
  qed
  have "old = Map.empty \<longrightarrow> from_preferences ChatMacOS new own_args = c"
    unfolding reads by (cases c) (auto simp: keep_or_def read_setting_def read_bool_setting_def split: option.split)
  then show "let (r, new) = preferences_write True (\<lambda>_. None) (args_to_pairs (chat_args c)) old in
     r = Ok () \<and>
     from_preferences ChatMacOS new own_args =
       \<lparr> cf_token_path = keep_or (cf_token_path c) (read_setting old ''openframe-token-path''),
         cf_secret = keep_or (cf_secret c) (read_setting old ''openframe-secret''),
         cf_server_url = keep_or (cf_server_url c) (read_setting old ''serverUrl''),
         cf_machine_id = keep_or (cf_machine_id c) (read_setting old ''machineId''),
         cf_debug_mode = (cf_debug_mode c \<or> read_bool_setting old ''devMode'') \<rparr> \<and>
     (old = Map.empty \<longrightarrow> from_preferences ChatMacOS new own_args = c)"
    using reads by (simp only: preferences_write_def write_keys_all new_def Let_def prod.case not_True_eq_False if_False)
qed

text \<open>A development mode written once stays in force when the next command line leaves it out.\<close>

lemma configuration_arrives_witness:
  "let c = no_config \<lparr> cf_secret := Some ''s'' \<rparr>;
     (r, new) = preferences_write True (\<lambda>_. None) (args_to_pairs (chat_args c)) [''devMode'' \<mapsto> ''1''] in
   from_preferences ChatMacOS new [] = c \<lparr> cf_debug_mode := True \<rparr>"
proof -
  have c: "plain_config (no_config \<lparr> cf_secret := Some ''s'' \<rparr>)" by code_simp
  have d: "read_bool_setting [''devMode'' \<mapsto> ''1''] ''devMode''" by code_simp
  show ?thesis
    using configuration_arrives[OF c, of "[''devMode'' \<mapsto> ''1'']" "[]"] d
    by (simp add: Let_def keep_or_def no_config_def read_setting_def split: prod.splits)
qed

text \<open>The registry never supplies the id of the machine, without which there are no notifications.\<close>

lemma registry_without_machine_id:
  "cf_machine_id (from_preferences ChatWindows stored args) = cf_machine_id (from_args args)"
  by (simp add: from_preferences_def fill_missing_from_registry_def Let_def)

lemma recovered_config_same_bridge:
  "\<not> is_valid c0 \<Longrightarrow> is_valid c \<Longrightarrow> recover_config [c0, c] a = apply_config c a"
  by simp

section \<open>The watcher of the token\<close>

lemma poll_token_file_cases:
  obtains "wa_events (poll_token_file seen w) = wa_events w" "wa_emitted (poll_token_file seen w) = wa_emitted w"
  | t where "wa_events (poll_token_file seen w) = wa_events w @ [t]" "wa_emitted (poll_token_file seen w) = t" "wa_emitted w \<noteq> t"
proof -
  have "wa_events (poll_token_file seen w) = wa_events w \<and> wa_emitted (poll_token_file seen w) = wa_emitted w \<or>
    (\<exists>t. wa_events (poll_token_file seen w) = wa_events w @ [t] \<and> wa_emitted (poll_token_file seen w) = t \<and> wa_emitted w \<noteq> t)"
    by (cases "snd seen") (simp_all add: poll_token_file_def emit_token_def Let_def)
  then show thesis using that by blast
qed

text \<open>Whatever the polls see, the web view is told of changes only, and what it was told last is what the
  watcher compares with: no event repeats the one before it.\<close>

theorem token_events_are_changes:
  "successively (\<noteq>) (None # wa_events (fold poll_token_file seen watcher_start)) \<and>
   last (None # wa_events (fold poll_token_file seen watcher_start)) = wa_emitted (fold poll_token_file seen watcher_start)"
proof (induction seen rule: rev_induct)
  case Nil
  then show ?case by (simp add: watcher_start_def)
next
  case (snoc s seen)
  let ?w = "fold poll_token_file seen watcher_start"
  show ?case
  proof (cases rule: poll_token_file_cases[of s ?w])
    case 1
    then show ?thesis using snoc by simp
  next
    case (2 t)
    have "successively (\<noteq>) ((None # wa_events ?w) @ [t])"
      using snoc 2(3) by (subst successively_append_iff) auto
    then show ?thesis using 2 by simp
  qed
qed

text \<open>A token that was shown and cannot be read any more is taken back at the third poll that cannot read
  it, whether the file is gone or unchanged, and not before.\<close>

theorem unreadable_token_is_cleared:
  assumes "wa_emitted w = Some t" "wa_missing w = 0" "m1 \<noteq> wa_mtime w \<or> m1 = None"
  shows "wa_events (poll_token_file (m2, None) (poll_token_file (m1, None) w)) = wa_events w \<and>
    wa_events (poll_token_file (m3, None) (poll_token_file (m2, None) (poll_token_file (m1, None) w))) = wa_events w @ [None]"
  using assms by (auto simp: poll_token_file_def emit_token_def Let_def CLEAR_AFTER_MISSING_POLLS_def)

lemma unreadable_token_is_cleared_witness:
  "wa_events (poll_token_file (None, None) (poll_token_file (None, None) (poll_token_file (None, None) (poll_token_file (Some 5, Some ''t'') watcher_start))))
     = [Some ''t'', None]"
  using unreadable_token_is_cleared[of "poll_token_file (Some 5, Some ''t'') watcher_start" "''t''" None None None]
  by (simp add: poll_token_file_def emit_token_def watcher_start_def Let_def)

text \<open>If the very first read fails, later polls do not read again until the file changes.\<close>

lemma unread_first_token_is_not_tried_again:
  "wa_events (fold poll_token_file ((Some m, None) # map (Pair (Some m)) later) watcher_start) = []"
proof -
  have "fold poll_token_file (map (Pair (Some m)) later) w = w" if "wa_mtime w = Some m" "wa_missing w = 0" for w
    using that by (induction later) (simp_all add: poll_token_file_def)
  then show ?thesis by (simp add: poll_token_file_def watcher_start_def)
qed

section \<open>The state of the connection\<close>

definition told :: "bridge \<Rightarrow> bool" where
  "told b \<longleftrightarrow> successively (\<noteq>) (LinkDisconnected # map fst (br_status b)) \<and>
     last (LinkDisconnected # map fst (br_status b)) = br_state b"

lemma told_set_link_state: "told b \<Longrightarrow> told (set_link_state s b)"
proof (cases "br_state b = s")
  case False
  assume "told b"
  then have "successively (\<noteq>) ((LinkDisconnected # map fst (br_status b)) @ [s])"
    using False unfolding told_def by (subst successively_append_iff) auto
  then show ?thesis using False by (simp add: told_def set_link_state_def)
qed (simp add: set_link_state_def)

lemma told_cong: "br_status b' = br_status b \<Longrightarrow> br_state b' = br_state b \<Longrightarrow> told b' = told b"
  by (simp only: told_def)

definition connects :: "link_event list \<Rightarrow> nat" where
  "connects es = length (filter ((=) EvConnected) es)"

lemma told_handle_link_event: "told b \<Longrightarrow> told (handle_link_event e b)"
  by (cases e) (auto simp: handle_link_event_def intro!: told_set_link_state intro: told_cong[THEN iffD2])

lemma told_fold: "told b \<Longrightarrow> told (fold handle_link_event es b)"
  by (induction es arbitrary: b) (simp_all add: told_handle_link_event)

lemma reconnects_counted:
  "br_reconnects (fold handle_link_event es bridge_start) = of_nat (connects es - 1) \<and>
   br_had_connection (fold handle_link_event es bridge_start) = (connects es > 0)"
proof (induction es rule: rev_induct)
  case Nil
  then show ?case by (simp add: bridge_start_def connects_def)
next
  case (snoc e es)
  have f: "br_reconnects (set_link_state s b) = br_reconnects b" "br_had_connection (set_link_state s b) = br_had_connection b"
    for s b by (simp_all add: set_link_state_def)
  show ?case
  proof (cases e)
    case EvConnected
    then have n: "connects (es @ [e]) = Suc (connects es)" by (simp add: connects_def)
    show ?thesis using snoc EvConnected unfolding n
      by (cases "connects es") (simp_all add: handle_link_event_def f)
  qed (use snoc in \<open>simp_all add: handle_link_event_def f connects_def\<close>)
qed

text \<open>The web view hears of every change of the connection and of nothing else, the last state it heard of is
  the current one, and the count of reconnects is that of the connections after the first.\<close>

theorem link_status_is_reported:
  fixes es defines "b \<equiv> fold handle_link_event es bridge_start"
  shows "successively (\<noteq>) (LinkDisconnected # map fst (br_status b)) \<and>
    last (LinkDisconnected # map fst (br_status b)) = br_state b \<and>
    br_reconnects b = of_nat (length (filter ((=) EvConnected) es) - 1)"
proof -
  have "told bridge_start" by (simp add: told_def bridge_start_def)
  then have "told b" unfolding b_def by (rule told_fold)
  moreover have "br_reconnects b = of_nat (connects es - 1)"
    using reconnects_counted[of es] by (simp add: b_def)
  ultimately show ?thesis unfolding told_def connects_def by blast
qed

text \<open>The waits after rejected tokens, without a connection in between, and of the retries.\<close>

lemma backoff_doubles: "backoff_ms (Suc e) = min (2 * backoff_ms e) MAX_DELAY_MS"
proof (cases "e < 20")
  case True
  then show ?thesis by (simp add: backoff_ms_def min_def BASE_DELAY_MS_def MAX_DELAY_MS_def)
next
  case False
  then have "min e 20 = 20" "min (Suc e) 20 = 20" by simp_all
  then show ?thesis by (simp add: backoff_ms_def BASE_DELAY_MS_def MAX_DELAY_MS_def)
qed

lemma reconnect_delay_bounds:
  assumes "den \<le> 2 * num" "num < den"
  shows "chat_reconnect_delay attempt num den \<le> MAX_DELAY_MS" "FAST_DELAY_MS div 2 \<le> chat_reconnect_delay attempt num den"
proof -
  define base where "base = (if attempt \<le> FAST_RETRIES then FAST_DELAY_MS else backoff_ms (attempt - FAST_RETRIES - 1))"
  have pow: "(1 :: nat) \<le> 2 ^ min e 20" for e :: nat by simp
  have "1000 \<le> backoff_ms e" "backoff_ms e \<le> MAX_DELAY_MS" for e
    using pow[of e] by (auto simp: backoff_ms_def BASE_DELAY_MS_def MAX_DELAY_MS_def min_le_iff_disj)
  then have base: "FAST_DELAY_MS \<le> base" "base \<le> MAX_DELAY_MS"
    by (auto simp: base_def FAST_DELAY_MS_def MAX_DELAY_MS_def intro: order.trans[of _ 1000])
  have delay: "chat_reconnect_delay attempt num den = base * num div den" by (simp add: chat_reconnect_delay_def base_def)
  have "base * num div den \<le> base"
    using assms(2) by (metis div_le_mono div_mult_self1_is_m less_imp_le mult.commute mult_le_mono1 bot_nat_0.extremum_strict gr0I)
  then show "chat_reconnect_delay attempt num den \<le> MAX_DELAY_MS" using base delay by simp
  have "FAST_DELAY_MS div 2 * den \<le> base * num"
  proof -
    have "FAST_DELAY_MS div 2 * den \<le> FAST_DELAY_MS div 2 * (2 * num)" using assms(1) by (rule mult_le_mono2)
    also have "\<dots> = FAST_DELAY_MS * num" by (simp add: FAST_DELAY_MS_def)
    also have "\<dots> \<le> base * num" using base(1) by (rule mult_le_mono1)
    finally show ?thesis .
  qed
  then show "FAST_DELAY_MS div 2 \<le> chat_reconnect_delay attempt num den"
    unfolding delay using assms(2) by (subst less_eq_div_iff_mult_less_eq) auto
qed

section \<open>Clicks reach the web view\<close>

lemma take_own_length [simp]: "take (length xs) (xs @ ys) = xs"
  by simp

lemma parse_click_uri:
  assumes "decode (encode i) = Some i" "CHR ''&'' \<notin> set (encode i)" "i \<noteq> []"
  shows "parse_click_payload decode (click_uri encode (Some (TicketTarget i))) = Some (''ticket'', i)"
    "parse_click_payload decode (click_uri encode (Some (DialogTarget i))) = Some (''dialog'', i)"
proof -
  have pairs: "fold (read_pair decode) [''kind='' @ k, ''id='' @ encode i] (None, None) = (Some k, Some i)" for k
    using assms(1) by (simp add: read_pair_def split_once_def find_char_def)
  have query: "parse_click_payload decode (CLICK_URI_PREFIX @ ''?kind='' @ k @ ''&id='' @ encode i) = Some (k, i)"
    if k: "CHR ''&'' \<notin> set k" for k
  proof -
    have fields: "split_on (CHR ''&'') (''kind='' @ k @ ''&id='' @ encode i) = [''kind='' @ k, ''id='' @ encode i]"
      using split_on_field[of "CHR ''&''" "''kind='' @ k" "''id='' @ encode i"] k assms(2)
      by (simp add: split_on_none)
    have "strip_prefix (CLICK_URI_PREFIX @ s) CLICK_URI_PREFIX = Some s" for s
      by (simp add: strip_prefix_def starts_with_def)
    moreover have "strip_prefix (''?'' @ s) ''/'' = None" "strip_prefix (''?'' @ s) ''?'' = Some s" for s
      by (simp_all add: strip_prefix_def starts_with_def)
    ultimately show ?thesis using fields pairs[of k] assms(3)
      by (simp add: parse_click_payload_def unwrap_or_def del: split_on.simps fold_simps)
  qed
  show "parse_click_payload decode (click_uri encode (Some (TicketTarget i))) = Some (''ticket'', i)"
    using query[of "''ticket''"] by (simp add: click_uri_def)
  show "parse_click_payload decode (click_uri encode (Some (DialogTarget i))) = Some (''dialog'', i)"
    using query[of "''dialog''"] by (simp add: click_uri_def)
qed

definition clicked :: "(string \<Rightarrow> string) \<Rightarrow> (string \<Rightarrow> string option) \<Rightarrow> notification_target list \<Rightarrow> clicks \<Rightarrow> clicks" where
  "clicked encode decode ts w = fold (\<lambda>t w. snd (handle_notification_uri decode (click_uri encode (Some t)) w)) ts w"

definition no_clicks :: clicks where
  "no_clicks = \<lparr> ck_ready = False, ck_stash = None, ck_emitted = [], ck_activated = 0 \<rparr>"

definition click_safe :: "(string \<Rightarrow> string) \<Rightarrow> (string \<Rightarrow> string option) \<Rightarrow> notification_target \<Rightarrow> bool" where
  "click_safe encode decode t \<longleftrightarrow> (let i = snd (click_payload t) in
     i \<noteq> [] \<and> decode (encode i) = Some i \<and> CHR ''&'' \<notin> set (encode i))"

lemma handle_click:
  "click_safe encode decode t \<Longrightarrow>
   handle_notification_uri decode (click_uri encode (Some t)) w = (True, deliver_click_payload (Some (click_payload t)) w)"
  by (cases t)
    (simp_all add: click_safe_def click_payload_def handle_notification_uri_def parse_click_uri Let_def,
     simp_all add: click_uri_def starts_with_def)

lemma clicked_ready:
  "\<forall>t \<in> set ts. click_safe encode decode t \<Longrightarrow> ck_ready w \<Longrightarrow>
   ck_emitted (clicked encode decode ts w) = ck_emitted w @ map click_payload ts \<and>
   ck_activated (clicked encode decode ts w) = ck_activated w + length ts"
  by (induction ts arbitrary: w)
    (simp_all add: clicked_def handle_click deliver_click_payload_def emit_or_stash_def Let_def)

lemma clicked_unready:
  "\<forall>t \<in> set ts. click_safe encode decode t \<Longrightarrow> \<not> ck_ready w \<Longrightarrow>
   clicked encode decode ts w =
     w \<lparr> ck_stash := (if ts = [] then ck_stash w else Some (click_payload (last ts))), ck_activated := ck_activated w + length ts \<rparr>"
  by (induction ts arbitrary: w)
    (simp_all add: clicked_def handle_click deliver_click_payload_def emit_or_stash_def Let_def)

text \<open>A click on a notification reaches the web view as the target the notification was made for: the last of the clicks before
  the view listens when it asks, every click after that in order; each brings the window up.\<close>

theorem clicks_reach_web_view:
  fixes encode decode before later defines "w \<equiv> clicked encode decode before no_clicks"
  assumes "\<forall>t \<in> set (before @ later). click_safe encode decode t"
  shows "fst (take_startup_click w) = (if before = [] then None else Some (click_payload (last before))) \<and>
    (let w' = clicked encode decode later (snd (take_startup_click w)) in
       ck_emitted w' = map click_payload later \<and> ck_activated w' = length before + length later)"
proof -
  have w: "w = no_clicks \<lparr> ck_stash := (if before = [] then None else Some (click_payload (last before))),
      ck_activated := length before \<rparr>"
    using assms(2) unfolding w_def by (subst clicked_unready) (simp_all add: no_clicks_def)
  have "ck_ready (snd (take_startup_click w))" by (simp add: take_startup_click_def)
  then show ?thesis using assms(2) clicked_ready[of later encode decode "snd (take_startup_click w)"]
    by (simp add: w take_startup_click_def no_clicks_def Let_def)
qed

text \<open>Percent encoding of one character, enough for the example.\<close>

lemma clicks_reach_web_view_witness:
  "let encode = concat \<circ> map (\<lambda>c. if c = CHR ''&'' then ''%26'' else [c]);
       decode = (\<lambda>s. if s = ''a%26b'' then Some ''a&b'' else Some s);
       w = clicked encode decode [DialogTarget ''7'', TicketTarget ''a&b''] no_clicks
   in fst (take_startup_click w) = Some (''ticket'', ''a&b'') \<and>
      ck_emitted (clicked encode decode [DialogTarget ''9''] (snd (take_startup_click w))) = [(''dialog'', ''9'')]"
  using clicks_reach_web_view[where before = "[DialogTarget ''7'', TicketTarget ''a&b'']" and later = "[DialogTarget ''9'']"
      and encode = "concat \<circ> map (\<lambda>c. if c = CHR ''&'' then ''%26'' else [c])"
      and decode = "\<lambda>s. if s = ''a%26b'' then Some ''a&b'' else Some s"]
  by (simp add: click_safe_def click_payload_def Let_def)

section \<open>The text of a notification\<close>

lemma truncate_for_notification_utf8:
  assumes "is_utf8 s" "0 < n"
  shows "is_utf8 (truncate_for_notification s n) \<and> length (code_points (truncate_for_notification s n)) \<le> n"
proof (cases "length (code_points s) \<le> n")
  case False
  define cs where "cs = take (n - 1) (code_points s) @ [ELLIPSIS]"
  have scalars: "\<forall>c \<in> set cs. is_scalar c"
    using utf8_code_points[OF assms(1)] by (auto simp: cs_def ELLIPSIS_def is_scalar_def dest: in_set_takeD)
  have t: "truncate_for_notification s n = concat (map encode_scalar cs)"
    using False by (simp add: truncate_for_notification_def cs_def)
  then have "code_points (truncate_for_notification s n) = cs" "is_utf8 (truncate_for_notification s n)"
    using code_points_encode[OF scalars] scalars by (simp, unfold is_utf8_iff, blast)
  then show ?thesis using assms(2) by (simp add: cs_def)
qed (use assms in \<open>simp add: truncate_for_notification_def\<close>)

text \<open>While there is a window, the badge is the number of unread notifications.\<close>

definition badge_right :: "notifier \<Rightarrow> bool" where
  "badge_right w \<longleftrightarrow> no_badge w = (if no_unread w = 0 then None else Some (no_unread w))"

lemma badge_right_notify: "badge_right w \<Longrightarrow> win \<noteq> None \<Longrightarrow> badge_right (maybe_notify win payload w)"
  by (auto simp: badge_right_def maybe_notify_def set_badge_def Let_def split: option.splits)

lemma badge_right_router:
  "badge_right w \<Longrightarrow> \<forall>(win, p) \<in> set messages. win \<noteq> None \<Longrightarrow> badge_right (notification_router messages w)"
  by (induction messages arbitrary: w) (auto simp: notification_router_def badge_right_notify split: option.splits)

lemma badge_cleared: "win \<noteq> None \<Longrightarrow> badge_right w \<Longrightarrow> no_badge (on_main_window_focused win w) = None"
  by (auto simp: on_main_window_focused_def set_badge_def badge_right_def word_neq_0_conv)

text \<open>The loop ends with the first address accepted, and every address it dials is made of the server and the token seen then.\<close>

lemma run_bridge_dials:
  "run_bridge encode vs b = (dialled, accepted, b') \<Longrightarrow>
   set dialled \<subseteq> {build_connect_url encode u (unwrap_or (cv_token v) []) |u v. v \<in> set vs \<and> cv_url v = Some u} \<and>
   (accepted \<longrightarrow> dialled \<noteq> [] \<and> br_state b' = LinkConnecting)"
  by (induction vs arbitrary: b dialled)
    (fastforce simp: Let_def set_link_state_def split: if_splits option.splits prod.splits)+

end
