(* ===== verification/Setup.thy ===== *)
theory Setup
  imports Identity Tokens WindowsExecutor ToolOps
begin

text \<open>Installing and removing the agent itself: service.rs (Service::install, Service::uninstall and the
  system path of Windows), platform/uninstall.rs, the removal of the service in service\_adapter.rs, the diagnostics
  before an installation (doctor/mod.rs, doctor/checks.rs) and the command that joins them (main.rs).
  Service managers, file operations, probes and other processes answer as the environment says. The uninstaller of
  the version installed before is a parameter: it is another program. What is only printed is left out.\<close>

section \<open>The system path of Windows\<close>

text \<open>A registry value: bytes and a type.\<close>

type_synonym reg_value = "nat list \<times> nat"

definition le_bytes :: "nat \<Rightarrow> nat list" where
  "le_bytes u = [u mod 256, u div 256]"

fun le_units :: "nat list \<Rightarrow> nat list" where
  "le_units (a # b # bytes) = (a + 256 * b) # le_units bytes"
| "le_units _ = []"

definition reg_value_to_string :: "reg_value \<Rightarrow> string" where
  "reg_value_to_string raw = trim_end_char (CHR 0x00) (from_utf16_lossy (le_units (fst raw)))"

definition string_to_reg_value :: "string \<Rightarrow> nat \<Rightarrow> reg_value" where
  "string_to_reg_value s vtype = (concat (map le_bytes (encode_utf16 s)) @ [0, 0], vtype)"

record path_env =
  pv_open_ok :: bool
  pv_set_ok :: bool

datatype path_error = KeyNotOpened | PathNotRead | PathNotWritten

definition same_dir :: "string \<Rightarrow> string \<Rightarrow> bool" where
  "same_dir dir p = eq_ignore_ascii_case (trim p) (trim dir)"

definition set_path :: "path_env \<Rightarrow> string \<Rightarrow> reg_value \<Rightarrow> (path_error, unit) result \<times> reg_value option" where
  "set_path E new raw =
    (if pv_set_ok E then (Ok (), Some (string_to_reg_value new (snd raw))) else (Err PathNotWritten, Some raw))"

definition add_to_windows_path ::
  "path_env \<Rightarrow> string \<Rightarrow> reg_value option \<Rightarrow> (path_error, unit) result \<times> reg_value option" where
  "add_to_windows_path E dir v =
    (if \<not> pv_open_ok E then (Err KeyNotOpened, v)
     else case v of
       None \<Rightarrow> (Err PathNotRead, v)
     | Some raw \<Rightarrow>
         (let current = reg_value_to_string raw in
          if list_ex (same_dir dir) (split_on (CHR '';'') current) then (Ok (), v)
          else if ends_with current '';'' then set_path E (current @ dir) raw
          else set_path E (current @ '';'' @ dir) raw))"

definition remove_from_windows_path ::
  "path_env \<Rightarrow> string \<Rightarrow> reg_value option \<Rightarrow> (path_error, unit) result \<times> reg_value option" where
  "remove_from_windows_path E dir v =
    (if \<not> pv_open_ok E then (Err KeyNotOpened, v)
     else case v of
       None \<Rightarrow> (Err PathNotRead, v)
     | Some raw \<Rightarrow>
         set_path E (join_with (CHR '';'') (filter (\<lambda>p. \<not> same_dir dir p)
           (split_on (CHR '';'') (reg_value_to_string raw)))) raw)"

section \<open>The machine\<close>

record setup_world =
  sw_id :: id_world
  sw_binary :: "string option"
  sw_aside :: "string option"
  sw_service :: bool
  sw_path :: "reg_value option"
  sw_ops :: op_state
  sw_logs :: bool
  sw_support :: bool
  sw_orbit :: bool
  sw_killed :: "nat list"
  sw_slept :: nat

datatype copy_outcome = CopyDone | CopyRefused | CopyCut string

record setup_env =
  se_id :: id_env
  se_installer :: installer_env
  se_config_service_ok :: bool
  se_launch_ok :: bool
  se_old_uninstall :: "setup_world \<Rightarrow> bool \<times> setup_world"
  se_healthy :: bool
  se_initial_service_ok :: bool
  se_exe_path :: "string option"
  se_install_path :: string
  se_exe :: string
  se_parent_exists :: bool
  se_create_parent_ok :: bool
  se_copy :: "nat \<Rightarrow> copy_outcome"
  se_rename_ok :: "nat \<Rightarrow> bool"
  se_aside_removable :: "nat \<Rightarrow> bool"
  se_processes :: "(nat \<times> string option \<times> bool) list"
  se_own_pid :: nat
  se_lower :: "string \<Rightarrow> string"
  se_chmod_ok :: bool
  se_path :: path_env
  se_bin_dir :: string
  se_service_install_ok :: bool

datatype setup_error =
    UninstallNotLaunched | HealthCheckFailed | InitialServiceNotReady | ConfigNotSaved installer_error | NoCurrentExe | DirectoryNotCreated
  | NotMovedAside | BinaryNotCopied | NotExecutable | PathNotUpdated path_error | ServiceNotInstalled

section \<open>The old installation\<close>

text \<open>The identity of an old client that never stored it comes from its configuration.\<close>

definition backfill_identity :: "setup_env \<Rightarrow> setup_world \<Rightarrow> setup_world" where
  "backfill_identity E w =
    (case read_persisted_credentials (se_id E) (sw_id w) of
       (Some _, i) \<Rightarrow> w \<lparr> sw_id := i \<rparr>
     | (None, i) \<Rightarrow>
         if \<not> se_config_service_ok E then w \<lparr> sw_id := i \<rparr>
         else (case get_registration_credentials (rg_config_io (se_id E) (iw_clock i)) (iw_config i) of
             Inl _ \<Rightarrow> w \<lparr> sw_id := i \<rparr>
           | Inr (machine_id, client_secret) \<Rightarrow>
               if trim machine_id = [] \<or> trim client_secret = [] then w \<lparr> sw_id := i \<rparr>
               else w \<lparr> sw_id := i \<lparr> iw_store :=
                    snd (machine_info_write (rg_platform (se_id E)) (rg_write_ok (se_id E) (iw_clock i))
                      \<lparr> mi_machine_id = machine_id, mi_client_secret = client_secret \<rparr> (iw_store i)),
                  iw_clock := Suc (iw_clock i) \<rparr> \<rparr>))"

definition remove_old_installation :: "setup_env \<Rightarrow> setup_world \<Rightarrow> (setup_error, unit) result \<times> setup_world" where
  "remove_old_installation E w =
    (if \<not> sw_service w then (Ok (), w)
     else
       (let w1 = backfill_identity E w in
        if sw_binary w1 = None then (Ok (), w1)
        else if \<not> se_launch_ok E then (Err UninstallNotLaunched, w1)
        else (let w2 = snd (se_old_uninstall E w1) in (Ok (), w2 \<lparr> sw_slept := sw_slept w2 + 3000 \<rparr>))))"

section \<open>The binary\<close>

definition copy_over :: "setup_env \<Rightarrow> nat \<Rightarrow> setup_world \<Rightarrow> bool \<times> setup_world" where
  "copy_over E k w =
    (case se_copy E k of
       CopyDone \<Rightarrow> (True, w \<lparr> sw_binary := Some (se_exe E) \<rparr>)
     | CopyRefused \<Rightarrow> (False, w)
     | CopyCut part \<Rightarrow> (False, w \<lparr> sw_binary := Some part \<rparr>))"

definition remove_aside :: "setup_env \<Rightarrow> nat \<Rightarrow> setup_world \<Rightarrow> setup_world" where
  "remove_aside E k w = (if se_aside_removable E k then w \<lparr> sw_aside := None \<rparr> else w)"

definition kill_processes_running_from :: "setup_env \<Rightarrow> setup_world \<Rightarrow> setup_world" where
  "kill_processes_running_from E w =
    (let target = se_lower E (se_install_path E);
         found = filter (\<lambda>(pid, exe, _). pid \<noteq> se_own_pid E \<and> unwrap_or (map_option (se_lower E) exe) [] = target)
           (se_processes E);
         killed = filter (\<lambda>(_, _, ok). ok) found in
     w \<lparr> sw_killed := sw_killed w @ map fst killed,
         sw_slept := sw_slept w + (if killed = [] then 0 else 2000) \<rparr>)"

text \<open>The copy; after killing what still runs from the target, again; after moving the target aside, a last time.\<close>

definition copy_binary :: "setup_env \<Rightarrow> setup_world \<Rightarrow> (setup_error, unit) result \<times> setup_world" where
  "copy_binary E w =
    (case copy_over E 0 w of
       (True, w1) \<Rightarrow> (Ok (), w1)
     | (False, w1) \<Rightarrow>
         (case copy_over E 1 (kill_processes_running_from E w1) of
            (True, w2) \<Rightarrow> (Ok (), w2)
          | (False, w2) \<Rightarrow>
              (let w3 = remove_aside E 0 w2 in
               if sw_binary w3 = None \<or> \<not> se_rename_ok E 0 then (Err NotMovedAside, w3)
               else
                 (case copy_over E 2 (w3 \<lparr> sw_aside := sw_binary w3, sw_binary := None \<rparr>) of
                    (True, w4) \<Rightarrow> (Ok (), remove_aside E 1 w4)
                  | (False, w4) \<Rightarrow>
                      (Err BinaryNotCopied,
                       if se_rename_ok E 1 then w4 \<lparr> sw_binary := sw_aside w4, sw_aside := None \<rparr> else w4)))))"

definition place_binary :: "setup_env \<Rightarrow> setup_world \<Rightarrow> (setup_error, unit) result \<times> setup_world" where
  "place_binary E w =
    (case se_exe_path E of
       None \<Rightarrow> (Err NoCurrentExe, w)
     | Some exe \<Rightarrow>
         if exe = se_install_path E then (Ok (), w)
         else if \<not> se_parent_exists E \<and> \<not> se_create_parent_ok E then (Err DirectoryNotCreated, w)
         else and_do (copy_binary E w) (\<lambda>_ w1.
           if rg_platform (se_id E) = Windows
           then (case add_to_windows_path (se_path E) (se_bin_dir E) (sw_path w1) of
               (r, v) \<Rightarrow> map_err PathNotUpdated (r, w1 \<lparr> sw_path := v \<rparr>))
           else if se_chmod_ok E then (Ok (), w1) else (Err NotExecutable, w1)))"

section \<open>Installing\<close>

definition save_initial_config :: "setup_env \<Rightarrow> install_params \<Rightarrow> setup_world \<Rightarrow> (setup_error, unit) result \<times> setup_world" where
  "save_initial_config E p w =
    (if \<not> se_initial_service_ok E then (Err InitialServiceNotReady, w)
     else case build_and_save (se_installer E) p (iw_initial (sw_id w)) of
       (r, f) \<Rightarrow> map_err ConfigNotSaved (r, w \<lparr> sw_id := (sw_id w) \<lparr> iw_initial := f \<rparr> \<rparr>))"

definition install_service :: "setup_env \<Rightarrow> setup_world \<Rightarrow> (setup_error, unit) result \<times> setup_world" where
  "install_service E w =
    (if se_service_install_ok E then (Ok (), w \<lparr> sw_service := True \<rparr>) else (Err ServiceNotInstalled, w))"

definition service_install :: "setup_env \<Rightarrow> install_params \<Rightarrow> setup_world \<Rightarrow> (setup_error, unit) result \<times> setup_world" where
  "service_install E p w =
    and_do (remove_old_installation E w) (\<lambda>_ w1.
      if \<not> se_healthy E then (Err HealthCheckFailed, w1)
      else and_do (save_initial_config E p w1) (\<lambda>_ w2.
        and_do (place_binary E w2) (\<lambda>_ w3. install_service E w3)))"

section \<open>Removing a directory\<close>

text \<open>The attempts, of which each may fail; between two looks the directory may go away by itself.\<close>

record dir_env =
  de_removes :: "nat \<Rightarrow> bool"
  de_vanishes :: "nat \<Rightarrow> bool"
  de_force_runs :: bool
  de_force_removes :: bool
  de_force_status :: bool

record dir_world =
  dw_exists :: bool
  dw_looks :: nat
  dw_slept :: nat
  dw_unlocked :: nat

definition look :: "dir_env \<Rightarrow> dir_world \<Rightarrow> dir_world" where
  "look E w = w \<lparr> dw_exists := (dw_exists w \<and> \<not> de_vanishes E (dw_looks w)), dw_looks := dw_looks w + 1 \<rparr>"

definition dir_sleep :: "nat \<Rightarrow> dir_world \<Rightarrow> dir_world" where
  "dir_sleep ms w = w \<lparr> dw_slept := dw_slept w + ms \<rparr>"

datatype remove_error = ForceNotRun | StillThere | ForceFailed

definition force_remove_directory :: "platform \<Rightarrow> dir_env \<Rightarrow> dir_world \<Rightarrow> (remove_error, unit) result \<times> dir_world" where
  "force_remove_directory P E w =
    (let w1 = (if P = Windows then dir_sleep 500 w else w) in
     if \<not> de_force_runs E then (Err ForceNotRun, w1)
     else
       (let w2 = look E (dir_sleep 500 (w1 \<lparr> dw_exists := (dw_exists w1 \<and> \<not> de_force_removes E) \<rparr>)) in
        if \<not> dw_exists w2 then (Ok (), w2)
        else if de_force_status E
        then (let w3 = look E (dir_sleep 2000 w2) in if \<not> dw_exists w3 then (Ok (), w3) else (Err StillThere, w3))
        else (Err ForceFailed, w2)))"

fun remove_attempts ::
  "platform \<Rightarrow> dir_env \<Rightarrow> nat \<Rightarrow> nat list \<Rightarrow> dir_world \<Rightarrow> (remove_error, unit) result \<times> dir_world" where
  "remove_attempts P E max_retries [] w = (Ok (), w)"
| "remove_attempts P E max_retries (attempt # later) w =
     (let w1 = look E w in
      if \<not> dw_exists w1 then (Ok (), w1)
      else
        (let w2 = (if attempt = max_retries - 1 then w1 \<lparr> dw_unlocked := dw_unlocked w1 + 1 \<rparr> else w1) in
         if de_removes E attempt then (Ok (), w2 \<lparr> dw_exists := False \<rparr>)
         else if attempt < max_retries
         then remove_attempts P E max_retries later (dir_sleep (min (2 ^ (attempt - 1)) 8 * 1000) w2)
         else force_remove_directory P E w2))"

definition remove_directory_with_retry ::
  "platform \<Rightarrow> dir_env \<Rightarrow> nat \<Rightarrow> dir_world \<Rightarrow> (remove_error, unit) result \<times> dir_world" where
  "remove_directory_with_retry P E max_retries w =
    (let w1 = look E w in
     if \<not> dw_exists w1 then (Ok (), w1) else remove_attempts P E max_retries [1..<Suc max_retries] w1)"

section \<open>Uninstalling\<close>

record uninstall_env =
  un_platform :: platform
  un_admin :: bool
  un_exe_known :: bool
  un_manager_known :: bool
  un_service :: "string option"
  un_tools_ok :: bool
  un_ops :: op_env
  un_tool_ops :: "installed_tool \<Rightarrow> op_env"
  un_logs_is_support :: bool
  un_dir :: "nat \<Rightarrow> dir_env"
  un_left :: "setup_world \<Rightarrow> setup_world"
  un_binary_removes :: "nat \<Rightarrow> bool"
  un_script_removes :: bool

datatype uninstall_error = AdminRequired | ExeUnknown | ServiceNotRemoved | Aborted

text \<open>The service manager's answer is its error, if any.\<close>

definition adapter_uninstall :: "uninstall_env \<Rightarrow> setup_world \<Rightarrow> (uninstall_error, unit) result \<times> setup_world" where
  "adapter_uninstall E w =
    (if \<not> un_manager_known E then (Err ServiceNotRemoved, w)
     else case un_service E of
       None \<Rightarrow> (Ok (), w \<lparr> sw_service := False \<rparr>)
     | Some e \<Rightarrow>
         if un_platform E = Windows \<and> (contains e ''1072'' \<or> contains e ''1060'') then (Ok (), w)
         else (Err ServiceNotRemoved, w))"

text \<open>Errors are logged; a panic ends the process.\<close>

definition uninstall_integrated_tools :: "uninstall_env \<Rightarrow> setup_world \<Rightarrow> (uninstall_error, unit) result \<times> setup_world" where
  "uninstall_integrated_tools E w =
    (if \<not> un_tools_ok E then (Ok (), w)
     else case uninstall_all (un_ops E) (un_tool_ops E) (sw_ops w) of
       (Inl (Cut _), s) \<Rightarrow> (Err Aborted, w \<lparr> sw_ops := s \<rparr>)
     | (_, s) \<Rightarrow> (Ok (), w \<lparr> sw_ops := s \<rparr>))"

definition remove_tree :: "uninstall_env \<Rightarrow> nat \<Rightarrow> bool \<Rightarrow> setup_world \<Rightarrow> bool \<times> setup_world" where
  "remove_tree E k exists w =
    (if \<not> exists then (False, w)
     else case remove_directory_with_retry (un_platform E) (un_dir E k) 5
         \<lparr> dw_exists = True, dw_looks = 0, dw_slept = 0, dw_unlocked = 0 \<rparr> of
       (_, d) \<Rightarrow> (dw_exists d, w \<lparr> sw_slept := sw_slept w + dw_slept d \<rparr>))"

text \<open>The directory of the support files holds the secured one, so with it go the configurations and the tools' file;
  of a directory that could not be removed anything may be left.\<close>

definition forget_support :: "setup_world \<Rightarrow> setup_world" where
  "forget_support w =
     w \<lparr> sw_id := (sw_id w) \<lparr> iw_config := Missing, iw_initial := Missing \<rparr>,
         sw_ops := on_rm (\<lambda>rm. rm \<lparr> rm_tools := Missing \<rparr>) (sw_ops w) \<rparr>"

definition remove_logs :: "uninstall_env \<Rightarrow> setup_world \<Rightarrow> setup_world" where
  "remove_logs E w =
    (if un_logs_is_support E then w
     else case remove_tree E 0 (sw_logs w) w of (left, w1) \<Rightarrow> w1 \<lparr> sw_logs := left \<rparr>)"

definition remove_support :: "uninstall_env \<Rightarrow> setup_world \<Rightarrow> setup_world" where
  "remove_support E w =
    (if \<not> sw_support w then w
     else case remove_tree E 1 True w of
       (left, w1) \<Rightarrow> (if left then un_left E w1 else forget_support w1) \<lparr> sw_support := left \<rparr>)"

definition remove_orbit :: "uninstall_env \<Rightarrow> setup_world \<Rightarrow> setup_world" where
  "remove_orbit E w = (case remove_tree E 2 (sw_orbit w) w of (left, w1) \<Rightarrow> w1 \<lparr> sw_orbit := left \<rparr>)"

fun remove_binary :: "uninstall_env \<Rightarrow> nat list \<Rightarrow> setup_world \<Rightarrow> setup_world" where
  "remove_binary E [] w = w"
| "remove_binary E (attempt # later) w =
     (if un_binary_removes E attempt then w \<lparr> sw_binary := None \<rparr>
      else remove_binary E later (if attempt < 3 then w \<lparr> sw_slept := sw_slept w + 1000 \<rparr> else w))"

text \<open>On Windows a script is left behind which removes the binary once this process is gone.\<close>

definition uninstall_windows :: "uninstall_env \<Rightarrow> setup_world \<Rightarrow> (uninstall_error, unit) result \<times> setup_world" where
  "uninstall_windows E w =
    (if \<not> un_exe_known E then (Err ExeUnknown, w)
     else and_do (uninstall_integrated_tools E (snd (adapter_uninstall E w))) (\<lambda>_ w1.
       (let w2 = remove_orbit E (remove_support E (remove_logs E w1)) in
        (Ok (), if un_script_removes E then w2 \<lparr> sw_binary := None \<rparr> else w2))))"

definition uninstall_macos :: "uninstall_env \<Rightarrow> setup_world \<Rightarrow> (uninstall_error, unit) result \<times> setup_world" where
  "uninstall_macos E w =
    (if \<not> un_exe_known E then (Err ExeUnknown, w)
     else and_do (uninstall_integrated_tools E (snd (adapter_uninstall E w))) (\<lambda>_ w1.
       (let w2 = remove_support E (remove_logs E w1) in
        (Ok (), if sw_binary w2 = None then w2 else remove_binary E [1, 2, 3] w2))))"

text \<open>There is no uninstallation on Linux.\<close>

definition service_uninstall :: "uninstall_env \<Rightarrow> setup_world \<Rightarrow> (uninstall_error, unit) result \<times> setup_world" where
  "service_uninstall E w =
    (if \<not> un_admin E then (Err AdminRequired, w)
     else if un_platform E = Windows then uninstall_windows E w else uninstall_macos E w)"

section \<open>The diagnostics\<close>

datatype check_status = Passes | Fails | Warns | Informs

datatype check_category = OfCommand | OfAdmin | OfRuntime | OfDisk | OfNetwork

type_synonym check_result = "check_category \<times> check_status"

text \<open>The answer to an HTTP request that is only probed: a status, no connection, another error, no client.\<close>

datatype probe = ProbeStatus nat | ProbeNoConnection | ProbeOther | ProbeNoClient

record doctor_env =
  do_admin :: bool
  do_webview :: "string option list"
  do_windows :: bool
  do_ancestor :: "string \<Rightarrow> bool"
  do_writable :: "string \<Rightarrow> bool"
  do_bin_dir :: string
  do_support_dir :: string
  do_secured_dir :: string
  do_logs_dir :: string
  do_service_dir :: string
  do_disks :: "(string \<times> nat) list"
  do_resolve :: "string \<Rightarrow> string list option"
  do_reachable :: "string \<Rightarrow> bool"
  do_get :: "string \<Rightarrow> probe"
  do_upgrade :: "string \<Rightarrow> probe"
  do_proxy :: "string \<Rightarrow> bool"

definition blank :: "string option \<Rightarrow> bool" where
  "blank x = (case x of None \<Rightarrow> True | Some s \<Rightarrow> trim s = [])"

definition missing_args :: "install_params \<Rightarrow> string list" where
  "missing_args p =
    (if blank (ip_server_url p) then [''--serverUrl''] else []) @
    (if blank (ip_initial_key p) then [''--initialKey''] else []) @
    (if blank (ip_org_id p) then [''--orgId''] else [])"

definition check_required_args :: "install_params \<Rightarrow> check_result" where
  "check_required_args p = (OfCommand, if missing_args p = [] then Passes else Fails)"

definition check_admin_privileges :: "doctor_env \<Rightarrow> check_result" where
  "check_admin_privileges D = (OfAdmin, if do_admin D then Passes else Fails)"

text \<open>The versions found in the four places of the registry.\<close>

definition check_webview2_runtime :: "doctor_env \<Rightarrow> check_result list" where
  "check_webview2_runtime D =
    (if \<not> do_windows D then []
     else [(OfRuntime,
       if list_ex (\<lambda>v. case v of None \<Rightarrow> False | Some s \<Rightarrow> trim s \<noteq> [] \<and> trim s \<noteq> ''0.0.0.0'') (do_webview D)
       then Passes else Warns)])"

definition check_dir_writable :: "doctor_env \<Rightarrow> string \<Rightarrow> check_result" where
  "check_dir_writable D path = (OfDisk, if do_ancestor D path \<and> do_writable D path then Passes else Fails)"

text \<open>The disk with the longest mount point that is a prefix of the path; the last of several.\<close>

definition longest_mount :: "(string \<times> nat) list \<Rightarrow> (string \<times> nat) option" where
  "longest_mount disks =
    fold (\<lambda>d best. case best of None \<Rightarrow> Some d
        | Some b \<Rightarrow> if length (fst b) \<le> length (fst d) then Some d else Some b) disks None"

definition check_disk_space :: "doctor_env \<Rightarrow> string \<Rightarrow> nat \<Rightarrow> check_result" where
  "check_disk_space D path min_mb =
    (OfDisk,
     case longest_mount (filter (\<lambda>d. starts_with path (fst d)) (do_disks D)) of
       Some (_, bytes) \<Rightarrow> if min_mb \<le> bytes div (1024 * 1024) then Passes else Fails
     | None \<Rightarrow> Fails)"

definition strip_scheme :: "string \<Rightarrow> string" where
  "strip_scheme url =
    (if starts_with url ''https://'' then drop 8 url
     else if starts_with url ''http://'' then drop 7 url else url)"

definition ensure_https :: "string \<Rightarrow> string" where
  "ensure_https url =
    (if starts_with url ''http://'' \<or> starts_with url ''https://'' then url else ''https://'' @ url)"

definition address_of :: "string \<Rightarrow> string" where
  "address_of url = (let host = strip_scheme url in if CHR '':'' \<in> set host then host else host @ '':443'')"

definition check_dns_resolve :: "doctor_env \<Rightarrow> string \<Rightarrow> check_result" where
  "check_dns_resolve D url =
    (OfNetwork, case do_resolve D (address_of url) of Some (_ # _) \<Rightarrow> Passes | _ \<Rightarrow> Fails)"

definition check_tcp_connect :: "doctor_env \<Rightarrow> string \<Rightarrow> check_result" where
  "check_tcp_connect D url =
    (OfNetwork, case do_resolve D (address_of url) of
       Some addrs \<Rightarrow> if list_ex (do_reachable D) addrs then Passes else Warns | None \<Rightarrow> Warns)"

definition check_tls_handshake :: "doctor_env \<Rightarrow> string \<Rightarrow> check_result" where
  "check_tls_handshake D url =
    (OfNetwork, case do_get D (ensure_https url) of ProbeStatus _ \<Rightarrow> Passes | _ \<Rightarrow> Warns)"

definition check_websocket_upgrade :: "doctor_env \<Rightarrow> string \<Rightarrow> check_result" where
  "check_websocket_upgrade D url =
    (OfNetwork, case do_upgrade D (trim_end_char (CHR ''/'') (ensure_https url) @ ''/ws/nats'') of
       ProbeStatus status \<Rightarrow> if status \<in> {101, 400, 401, 403, 426} then Passes else Warns
     | ProbeNoClient \<Rightarrow> Warns
     | _ \<Rightarrow> Fails)"

definition check_proxy_env :: "doctor_env \<Rightarrow> check_result list" where
  "check_proxy_env D =
    (if list_ex (do_proxy D) [''HTTP_PROXY'', ''HTTPS_PROXY'', ''http_proxy'', ''https_proxy'']
     then [(OfNetwork, Informs)] else [])"

definition run_network_checks :: "doctor_env \<Rightarrow> string \<Rightarrow> check_result list" where
  "run_network_checks D url =
    (if snd (check_dns_resolve D url) = Fails then [check_dns_resolve D url]
     else [check_dns_resolve D url, check_tcp_connect D url, check_tls_handshake D url, check_websocket_upgrade D url]
       @ check_proxy_env D)"

definition run_preinstall :: "doctor_env \<Rightarrow> install_params \<Rightarrow> check_result list" where
  "run_preinstall D p =
    (let args = check_required_args p; admin = check_admin_privileges D in
     if snd args = Fails then [args]
     else if snd admin = Fails then [args, admin]
     else [args, admin] @ check_webview2_runtime D
       @ [check_dir_writable D (do_bin_dir D), check_disk_space D (do_support_dir D) 200]
       @ map (check_dir_writable D) [do_support_dir D, do_secured_dir D, do_logs_dir D]
       @ [check_dir_writable D (do_service_dir D)]
       @ run_network_checks D (unwrap_or (ip_server_url p) []))"

text \<open>The configuration as the health check reads it: a file that is not there or does not parse, or a server's name.\<close>

datatype health_config = HealthNoFile | HealthCorrupt | HealthHost "string option"

definition run_healthcheck :: "doctor_env \<Rightarrow> health_config \<Rightarrow> check_result list" where
  "run_healthcheck D config =
    (let admin = check_admin_privileges D in
     if snd admin = Fails then [admin]
     else [admin] @ check_webview2_runtime D @
       (case config of
          HealthHost host \<Rightarrow>
            (OfCommand, Passes) #
            (case host of
               Some h \<Rightarrow> if trim h = [] then [(OfCommand, Fails)] else run_network_checks D h
             | None \<Rightarrow> [(OfCommand, Fails)])
        | _ \<Rightarrow> [(OfCommand, Fails)]))"

definition has_failures :: "check_result list \<Rightarrow> bool" where
  "has_failures results = list_ex (\<lambda>r. snd r = Fails) results"

definition warn_count :: "check_result list \<Rightarrow> nat" where
  "warn_count results = length (filter (\<lambda>r. snd r = Warns) results)"

text \<open>The commands, with the exit code. Installing may end before the installation itself begins.\<close>

definition install_command ::
  "setup_env \<Rightarrow> doctor_env \<Rightarrow> bool \<Rightarrow> install_params \<Rightarrow> setup_world \<Rightarrow>
   nat \<times> (setup_error, unit) result option \<times> setup_world" where
  "install_command E D logging_ok p w =
    (if has_failures (run_preinstall D p) then (1, None, w)
     else if \<not> logging_ok then (1, None, w)
     else case service_install E p w of (r, w1) \<Rightarrow> (if is_ok r then 0 else 1, Some r, w1))"

definition doctor_command :: "doctor_env \<Rightarrow> health_config \<Rightarrow> nat" where
  "doctor_command D config =
    (if has_failures (run_healthcheck D config) \<or> 0 < warn_count (run_healthcheck D config) then 1 else 0)"

section \<open>The path is read as it was written\<close>

lemma le_units_bytes: "\<forall>u \<in> set us. u < 65536 \<Longrightarrow> le_units (concat (map le_bytes us) @ [0, 0]) = us @ [0]"
  by (induction us) (simp_all add: le_bytes_def)

lemma utf16_units_bound: "is_scalar c \<Longrightarrow> \<forall>u \<in> set (utf16_units c). u < 65536"
  by (auto simp: utf16_units_def is_scalar_def)

lemma encode_utf16_bound: "is_utf8 s \<Longrightarrow> \<forall>u \<in> set (encode_utf16 s). u < 65536"
  using utf8_code_points(1)[of s] utf16_units_bound by (auto simp: encode_utf16_def)

lemma from_utf16_terminated:
  assumes "is_utf8 s"
  shows "from_utf16_lossy (encode_utf16 s @ [0]) = s @ [CHR 0x00]"
proof -
  have "encode_utf16 s @ [0] = concat (map utf16_units (code_points s @ [0]))"
    by (simp add: encode_utf16_def utf16_units_def)
  moreover have "\<forall>c \<in> set (code_points s @ [0]). is_scalar c"
    using utf8_code_points(1)[OF assms] by (auto simp: is_scalar_def)
  ultimately have "decode_utf16 (encode_utf16 s @ [0]) = code_points s @ [0]" by (simp only: decode_utf16_concat)
  then show ?thesis using utf8_code_points(2)[OF assms] by (simp add: from_utf16_lossy_def encode_scalar_def) code_simp
qed

definition plain_text :: "string \<Rightarrow> bool" where
  "plain_text s \<longleftrightarrow> is_utf8 s \<and> (s = [] \<or> last s \<noteq> CHR 0x00)"

lemma reg_value_type [simp]: "snd (string_to_reg_value s t) = t"
  by (simp add: string_to_reg_value_def)

lemma reg_value_round_trip:
  "plain_text s \<Longrightarrow> reg_value_to_string (string_to_reg_value s t) = s"
proof -
  assume s: "plain_text s"
  then have "reg_value_to_string (string_to_reg_value s t) = trim_end_char (CHR 0x00) (s @ [CHR 0x00])"
    using le_units_bytes[OF encode_utf16_bound[of s]]
    by (simp add: plain_text_def reg_value_to_string_def string_to_reg_value_def from_utf16_terminated)
  also have "\<dots> = s" using s by (cases s rule: rev_cases) (simp_all add: plain_text_def trim_end_char_def)
  finally show ?thesis .
qed

lemma plain_text_behind: "plain_text cur \<Longrightarrow> plain_text dir \<Longrightarrow> dir \<noteq> [] \<Longrightarrow> plain_text (cur @ dir)"
  by (simp add: plain_text_def is_utf8_append)

lemma plain_text_entry: "plain_text cur \<Longrightarrow> plain_text dir \<Longrightarrow> dir \<noteq> [] \<Longrightarrow> plain_text (cur @ '';'' @ dir)"
proof -
  have "encode_scalar 59 = '';''" by code_simp
  then have "is_utf8 '';''" using encode_scalar_utf8[of 59] by (simp add: is_scalar_def)
  then show "plain_text cur \<Longrightarrow> plain_text dir \<Longrightarrow> dir \<noteq> [] \<Longrightarrow> plain_text (cur @ '';'' @ dir)"
    unfolding plain_text_def by (simp add: is_utf8_append is_utf8_append[of "'';''", simplified])
qed

text \<open>A path whose last entry was added.\<close>

lemma path_with_entry:
  fixes t :: nat
  assumes "plain_text (base @ '';'' @ dir)" "CHR '';'' \<notin> set dir"
    "\<not> list_ex (same_dir dir) (split_on (CHR '';'') base)" "pv_open_ok E" "pv_set_ok E"
  defines "later \<equiv> Some (string_to_reg_value (base @ '';'' @ dir) t)"
  shows "map_option (split_on (CHR '';'') \<circ> reg_value_to_string) later = Some (split_on (CHR '';'') base @ [dir])"
    "add_to_windows_path E dir later = (Ok (), later)"
    "remove_from_windows_path E dir later = (Ok (), Some (string_to_reg_value base t))"
proof -
  have rd: "reg_value_to_string (string_to_reg_value (base @ '';'' @ dir) t) = base @ '';'' @ dir"
    using assms(1) by (rule reg_value_round_trip)
  have parts: "split_on (CHR '';'') (base @ '';'' @ dir) = split_on (CHR '';'') base @ [dir]"
    using split_on_append[of "CHR '';''" base dir] split_on_none[OF assms(2)] by simp
  have self: "same_dir dir dir" by (simp add: same_dir_def eq_ignore_ascii_case_def)
  show "map_option (split_on (CHR '';'') \<circ> reg_value_to_string) later = Some (split_on (CHR '';'') base @ [dir])"
    unfolding later_def option.map(2) o_apply rd parts ..
  show "add_to_windows_path E dir later = (Ok (), later)"
    using assms(4) by (simp add: later_def add_to_windows_path_def rd[simplified] parts[simplified] self Let_def)
  have "filter (\<lambda>p. \<not> same_dir dir p) (split_on (CHR '';'') base) = split_on (CHR '';'') base"
    using assms(3) by (simp add: filter_id_conv list_ex_iff)
  then show "remove_from_windows_path E dir later = (Ok (), Some (string_to_reg_value base t))"
    using assms(4,5) self
    by (simp add: later_def remove_from_windows_path_def rd[simplified] parts[simplified] join_split set_path_def)
qed

text \<open>C39. A directory added to the system path of Windows, a text whose value is canonical (UTF-16 with
  one terminator) of any registry type. When the path holds the directory already, adding changes
  nothing. Otherwise the directory becomes the last entry, behind the entries that were there, of
  which only the empty one after a closing semicolon is taken up; removing it then gives back the value
  as it was, byte by byte, less that semicolon. In both cases the type is kept and adding the directory
  again changes nothing.\<close>

theorem path_entry_round_trip:
  assumes "plain_text cur" "plain_text dir" "dir \<noteq> []" "CHR '';'' \<notin> set dir" "pv_open_ok E" "pv_set_ok E"
  shows "let before = Some (string_to_reg_value cur t);
      base = (if ends_with cur '';'' then butlast cur else cur);
      (r, later) = add_to_windows_path E dir before in
    r = Ok () \<and> map_option snd later = Some t \<and>
    add_to_windows_path E dir later = (Ok (), later) \<and>
    (if list_ex (same_dir dir) (split_on (CHR '';'') cur) then later = before
     else map_option (split_on (CHR '';'') \<circ> reg_value_to_string) later = Some (split_on (CHR '';'') base @ [dir]) \<and>
       remove_from_windows_path E dir later = (Ok (), Some (string_to_reg_value base t)))"
proof (cases "list_ex (same_dir dir) (split_on (CHR '';'') cur)")
  case True
  then show ?thesis
    using assms by (simp add: add_to_windows_path_def reg_value_round_trip Let_def)
      (metis prod.collapse reg_value_type)
next
  case False
  define base where "base = (if ends_with cur '';'' then butlast cur else cur)"
  have closed: "cur = base @ '';''" if "ends_with cur '';''"
    using that by (cases cur rule: rev_cases) (auto simp: base_def ends_with_def)
  have same: "(if ends_with cur '';'' then cur @ dir else cur @ '';'' @ dir) = base @ '';'' @ dir"
    using closed by (auto simp: base_def)
  have added: "add_to_windows_path E dir (Some (string_to_reg_value cur t)) =
      (Ok (), Some (string_to_reg_value (base @ '';'' @ dir) t))"
    using assms False same[symmetric] by (simp add: add_to_windows_path_def reg_value_round_trip set_path_def Let_def)
  have "plain_text (base @ '';'' @ dir)"
    using plain_text_entry[OF assms(1-3)] plain_text_behind[OF assms(1-3)] same by (auto split: if_splits)
  moreover have "\<not> list_ex (same_dir dir) (split_on (CHR '';'') base)"
    using False closed split_on_append[of "CHR '';''" base "[]"] by (auto simp: base_def split: if_splits)
  ultimately show ?thesis
    unfolding Let_def added prod.case base_def[symmetric]
    using path_with_entry[of base dir E t] assms(4-6) False by simp
qed

lemma path_entry_round_trip_witness:
  "let before = Some (string_to_reg_value ''C:/a;C:/b;'' 2); E = \<lparr> pv_open_ok = True, pv_set_ok = True \<rparr>;
     (r, later) = add_to_windows_path E ''C:/OpenFrame/bin'' before in
   map_option (split_on (CHR '';'') \<circ> reg_value_to_string) later = Some [''C:/a'', ''C:/b'', ''C:/OpenFrame/bin''] \<and>
   remove_from_windows_path E ''C:/OpenFrame/bin'' later = (Ok (), Some (string_to_reg_value ''C:/a;C:/b'' 2))"
proof -
  have "plain_text ''C:/a;C:/b;''" "plain_text ''C:/OpenFrame/bin''" by code_simp+
  moreover have "\<not> list_ex (same_dir ''C:/OpenFrame/bin'') (split_on (CHR '';'') ''C:/a;C:/b;'')" by code_simp
  ultimately show ?thesis
    using path_entry_round_trip[of "''C:/a;C:/b;''" "''C:/OpenFrame/bin''" "\<lparr> pv_open_ok = True, pv_set_ok = True \<rparr>" 2]
    by (simp add: ends_with_def Let_def split: prod.splits)
qed

section \<open>The binary is replaced or kept\<close>

text \<open>C38. Whatever the copies, the processes and the renames do: a successful copy leaves the new binary in place; after a
  failure, unless one of the first two copies was cut short, the old one is in place, or next to it when it could not be moved back.\<close>

theorem old_binary_is_kept:
  assumes "copy_binary E w = (r, w')"
  shows "(r = Ok () \<longrightarrow> sw_binary w' = Some (se_exe E)) \<and>
    (r \<noteq> Ok () \<and> se_copy E 0 = CopyRefused \<and> se_copy E 1 = CopyRefused \<longrightarrow>
       sw_binary w' = sw_binary w \<or> \<not> se_rename_ok E 1 \<and> sw_aside w' = sw_binary w)"
proof -
  have kill: "sw_binary (kill_processes_running_from E w) = sw_binary w" for w
    by (simp add: kill_processes_running_from_def Let_def)
  have aside: "sw_binary (remove_aside E k w) = sw_binary w" for k w by (simp add: remove_aside_def)
  note d = copy_binary_def copy_over_def Let_def aside
  have "(r = Ok () \<longrightarrow> sw_binary w' = Some (se_exe E))"
    using assms by (auto simp: d aside split: copy_outcome.splits if_splits prod.splits)
  moreover have "sw_binary w' = sw_binary w \<or> \<not> se_rename_ok E 1 \<and> sw_aside w' = sw_binary w"
    if "r \<noteq> Ok ()" "se_copy E 0 = CopyRefused" "se_copy E 1 = CopyRefused"
    using assms that by (cases "se_copy E 2") (auto simp: d kill split: if_splits)
  ultimately show ?thesis by blast
qed

section \<open>A directory is removed or reported\<close>

lemma look_fields [simp]: "dw_slept (look E w) = dw_slept w" "dw_slept (dir_sleep n w) = dw_slept w + n"
  "dw_exists (dir_sleep n w) = dw_exists w"
  by (simp_all add: look_def dir_sleep_def)

definition removal_right :: "nat \<Rightarrow> (remove_error, unit) result \<times> dir_world \<Rightarrow> bool" where
  "removal_right ms out \<longleftrightarrow> is_ok (fst out) = (\<not> dw_exists (snd out)) \<and> dw_slept (snd out) \<le> ms"

lemma force_remove_right: "dw_exists w \<Longrightarrow> removal_right (dw_slept w + 3000) (force_remove_directory P E w)"
  by (auto simp: force_remove_directory_def removal_right_def Let_def)

lemma removal_right_mono: "removal_right a out \<Longrightarrow> a \<le> b \<Longrightarrow> removal_right b out"
  by (simp add: removal_right_def)

lemma remove_attempts_right:
  "attempt \<le> n \<Longrightarrow> removal_right (dw_slept w + 8000 * (n - attempt) + 3000) (remove_attempts P E n [attempt..<Suc n] w)"
proof (induction "n - attempt" arbitrary: attempt w)
  case 0
  then have n: "[attempt..<Suc n] = [n]" "attempt = n" by simp_all
  define u where "u = (if n = n - 1 then (look E w) \<lparr> dw_unlocked := dw_unlocked (look E w) + 1 \<rparr> else look E w)"
  have u: "dw_slept u = dw_slept w" "dw_exists u = dw_exists (look E w)" by (simp_all add: u_def)
  have "remove_attempts P E n [n] w =
      (if \<not> dw_exists (look E w) then (Ok (), look E w)
       else if de_removes E n then (Ok (), u \<lparr> dw_exists := False \<rparr>) else force_remove_directory P E u)"
    by (simp add: Let_def u_def)
  moreover have "removal_right (dw_slept w + 3000) (force_remove_directory P E u)" if "dw_exists (look E w)"
    using force_remove_right[of u] u that by simp
  ultimately show ?case unfolding n by (auto simp: removal_right_def u)
next
  case (Suc k)
  then have n: "[attempt..<Suc n] = attempt # [Suc attempt..<Suc n]" "attempt < n" by (simp_all add: upt_conv_Cons)
  define u where "u = (if attempt = n - 1 then (look E w) \<lparr> dw_unlocked := dw_unlocked (look E w) + 1 \<rparr> else look E w)"
  define v where "v = dir_sleep (min (2 ^ (attempt - 1)) 8 * 1000) u"
  have v: "dw_slept v \<le> dw_slept w + 8000" "dw_slept u = dw_slept w" by (simp_all add: v_def u_def)
  have "remove_attempts P E n (attempt # [Suc attempt..<Suc n]) w =
      (if \<not> dw_exists (look E w) then (Ok (), look E w)
       else if de_removes E attempt then (Ok (), u \<lparr> dw_exists := False \<rparr>) else remove_attempts P E n [Suc attempt..<Suc n] v)"
    using n(2) by (simp add: Let_def u_def v_def del: upt.simps)
  moreover have "removal_right (dw_slept w + 8000 * (n - attempt) + 3000) (remove_attempts P E n [Suc attempt..<Suc n] v)"
  proof (rule removal_right_mono)
    show "removal_right (dw_slept v + 8000 * (n - Suc attempt) + 3000) (remove_attempts P E n [Suc attempt..<Suc n] v)"
      using Suc(1)[of "Suc attempt" v] Suc(2) n(2) by simp
    show "dw_slept v + 8000 * (n - Suc attempt) + 3000 \<le> dw_slept w + 8000 * (n - attempt) + 3000"
      using v(1) n(2) by simp
  qed
  ultimately show ?case unfolding n(1) using v by (auto simp: removal_right_def)
qed

text \<open>Removing a directory with retries reports success exactly when the directory is gone at the end, and takes at most eight
  seconds for each retry and three more for the last resort.\<close>

theorem remove_directory_right:
  fixes n assumes "0 < n"
  shows "let (r, w') = remove_directory_with_retry P E n w in
    is_ok r = (\<not> dw_exists w') \<and> dw_slept w' \<le> dw_slept w + 8000 * (n - 1) + 3000"
proof -
  have "removal_right (dw_slept w + 8000 * (n - 1) + 3000) (remove_directory_with_retry P E n w)"
    using remove_attempts_right[of 1 n "look E w" P E] assms
    by (auto simp: remove_directory_with_retry_def Let_def removal_right_def simp del: upt.simps remove_attempts.simps)
  then show ?thesis by (simp add: removal_right_def split_def)
qed

definition stubborn :: dir_env where
  "stubborn = \<lparr> de_removes = (\<lambda>_. False), de_vanishes = (\<lambda>_. False), de_force_runs = True, de_force_removes = True,
     de_force_status = True \<rparr>"

lemma remove_directory_right_witness:
  "let (r, w') = remove_directory_with_retry Windows stubborn 5 \<lparr> dw_exists = True, dw_looks = 0, dw_slept = 0, dw_unlocked = 0 \<rparr> in
   is_ok r = (\<not> dw_exists w') \<and> dw_slept w' \<le> 35000"
  using remove_directory_right[of 5 Windows stubborn "\<lparr> dw_exists = True, dw_looks = 0, dw_slept = 0, dw_unlocked = 0 \<rparr>"]
  by (simp add: split_def Let_def)

section \<open>The identity survives\<close>

lemma remove_tree_id: "sw_id (snd (remove_tree E k b w)) = sw_id w"
  by (simp add: remove_tree_def split_def)

definition store_of :: "setup_world \<Rightarrow> info_store" where
  "store_of w = iw_store (sw_id w)"

lemma store_of_fields [simp]:
  "store_of (w \<lparr> sw_binary := b \<rparr>) = store_of w" "store_of (w \<lparr> sw_aside := b \<rparr>) = store_of w"
  "store_of (w \<lparr> sw_service := c \<rparr>) = store_of w" "store_of (w \<lparr> sw_path := v \<rparr>) = store_of w"
  "store_of (w \<lparr> sw_killed := ks \<rparr>) = store_of w" "store_of (w \<lparr> sw_slept := n \<rparr>) = store_of w"
  "store_of (w \<lparr> sw_id := i \<rparr>) = iw_store i"
  by (simp_all add: store_of_def)

lemma and_do_store:
  "store_of (snd r) = s0 \<Longrightarrow> (\<And>x w. store_of (snd (f x w)) = store_of w) \<Longrightarrow> store_of (snd (and_do r f)) = s0"
  by (cases r; cases "fst r") auto

text \<open>What is left of a directory that could not be removed is a matter of files; the identity is not kept in one of them.\<close>

lemma uninstall_keeps_store:
  assumes "\<And>w. store_of (un_left U w) = store_of w"
  shows "store_of (snd (service_uninstall U w)) = store_of w"
proof -
  have service: "store_of (snd (adapter_uninstall U w)) = store_of w" for w
    by (simp add: adapter_uninstall_def store_of_def split: option.split)
  have tools: "store_of (snd (uninstall_integrated_tools U w)) = store_of w" for w
    by (simp add: uninstall_integrated_tools_def store_of_def split: prod.split sum.split op_error.split)
  have logs: "store_of (remove_logs U w) = store_of w" for w
    using remove_tree_id[of U 0 "sw_logs w" w] by (simp add: remove_logs_def store_of_def split_def)
  have orbit: "store_of (remove_orbit U w) = store_of w" for w
    using remove_tree_id[of U 2 "sw_orbit w" w] by (simp add: remove_orbit_def store_of_def split_def)
  have support: "store_of (remove_support U w) = store_of w" for w
    using remove_tree_id[of U 1 True w] assms[unfolded store_of_def, of "snd (remove_tree U 1 True w)"]
    by (simp add: remove_support_def store_of_def forget_support_def split_def)
  have binary: "store_of (remove_binary U as w) = store_of w" for as w
    by (induction as arbitrary: w) (simp_all add: store_of_def)
  have first: "store_of (snd (uninstall_integrated_tools U (snd (adapter_uninstall U w)))) = store_of w"
    using tools service by simp
  have "store_of (snd (uninstall_windows U w)) = store_of w"
    unfolding uninstall_windows_def
    using and_do_store[OF first, of "\<lambda>_ w1. let w2 = remove_orbit U (remove_support U (remove_logs U w1)) in
        (Ok (), if un_script_removes U then w2 \<lparr> sw_binary := None \<rparr> else w2)"]
    by (simp add: Let_def logs orbit support)
  moreover have "store_of (snd (uninstall_macos U w)) = store_of w"
    unfolding uninstall_macos_def
    using and_do_store[OF first, of "\<lambda>_ w1. let w2 = remove_support U (remove_logs U w1) in
        (Ok (), if sw_binary w2 = None then w2 else remove_binary U [1, 2, 3] w2)"]
    by (simp add: Let_def logs support binary del: remove_binary.simps)
  ultimately show ?thesis by (simp add: service_uninstall_def)
qed

lemma backfill_store:
  assumes "read_persisted_credentials (se_id E) (sw_id w) = (c, i)"
  shows "iw_store i = store_of w" "iw_config i = iw_config (sw_id w)"
    "c = Some j \<Longrightarrow> store_of w = Record j \<and> store_of (backfill_identity E w) = Record j"
    "c = None \<Longrightarrow> se_config_service_ok E \<Longrightarrow>
     get_registration_credentials (rg_config_io (se_id E) (iw_clock i)) (iw_config i) = Ok (m, s) \<Longrightarrow>
     info_complete \<lparr> mi_machine_id = m, mi_client_secret = s \<rparr> \<Longrightarrow>
     store_of (backfill_identity E w) =
       snd (machine_info_write (rg_platform (se_id E)) (rg_write_ok (se_id E) (iw_clock i))
         \<lparr> mi_machine_id = m, mi_client_secret = s \<rparr> (store_of w))"
proof -
  note f = read_credentials_frame[OF assms[unfolded read_persisted_credentials_def]]
  show same: "iw_store i = store_of w" "iw_config i = iw_config (sw_id w)"
    using f by (simp_all add: same_files_def store_of_def)
  show "c = Some j \<Longrightarrow> store_of w = Record j \<and> store_of (backfill_identity E w) = Record j"
    using f assms same by (simp add: backfill_identity_def same_files_def)
  show "store_of (backfill_identity E w) =
       snd (machine_info_write (rg_platform (se_id E)) (rg_write_ok (se_id E) (iw_clock i))
         \<lparr> mi_machine_id = m, mi_client_secret = s \<rparr> (store_of w))"
    if "c = None" "se_config_service_ok E"
      "get_registration_credentials (rg_config_io (se_id E) (iw_clock i)) (iw_config i) = Ok (m, s)"
      "info_complete \<lparr> mi_machine_id = m, mi_client_secret = s \<rparr>"
    using that assms same(1) by (simp add: backfill_identity_def info_complete_def)
qed

lemma copy_over_store: "copy_over E k w = (b, w') \<Longrightarrow> store_of w' = store_of w"
  by (auto simp: copy_over_def split: copy_outcome.splits)

lemma aside_kill_store [simp]:
  "store_of (remove_aside E k w) = store_of w" "store_of (kill_processes_running_from E w) = store_of w"
  by (simp_all add: remove_aside_def kill_processes_running_from_def Let_def)

lemma copy_binary_store: "store_of (snd (copy_binary E w)) = store_of w"
proof -
  obtain b0 w1 where c0: "copy_over E 0 w = (b0, w1)" by fastforce
  obtain b1 w2 where c1: "copy_over E 1 (kill_processes_running_from E w1) = (b1, w2)" by fastforce
  let ?w3 = "remove_aside E 0 w2"
  obtain b2 w4 where c2: "copy_over E 2 (?w3 \<lparr> sw_aside := sw_binary ?w3, sw_binary := None \<rparr>) = (b2, w4)" by fastforce
  note store = c0[THEN copy_over_store] c1[THEN copy_over_store] c2[THEN copy_over_store]
  show ?thesis unfolding copy_binary_def Let_def c0 c1 c2 prod.case using store by (auto split: bool.split)
qed

lemma install_store: "store_of (snd (service_install E p w)) = store_of (snd (remove_old_installation E w))"
proof -
  have save: "store_of (snd (save_initial_config E p w)) = store_of w" for w
    by (simp add: save_initial_config_def split_def) (simp add: store_of_def)
  have place: "store_of (snd (place_binary E w)) = store_of w" for w
  proof -
    have "store_of (snd (and_do (copy_binary E w) (\<lambda>_ w1.
           if rg_platform (se_id E) = Windows
           then (case add_to_windows_path (se_path E) (se_bin_dir E) (sw_path w1) of
               (r, v) \<Rightarrow> map_err PathNotUpdated (r, w1 \<lparr> sw_path := v \<rparr>))
           else if se_chmod_ok E then (Ok (), w1) else (Err NotExecutable, w1)))) = store_of w"
      by (rule and_do_store[OF copy_binary_store]) (simp add: split_def)
    then show ?thesis by (simp add: place_binary_def split: option.split)
  qed
  have service: "store_of (snd (install_service E w)) = store_of w" for w by (simp add: install_service_def)
  have last: "store_of (snd (and_do (place_binary E w) (\<lambda>_. install_service E))) = store_of w" for w
    by (rule and_do_store[OF place service])
  have middle: "store_of (snd (and_do (save_initial_config E p w) (\<lambda>_ w2. and_do (place_binary E w2) (\<lambda>_. install_service E)))) = store_of w"
    for w by (rule and_do_store[OF save last])
  show ?thesis unfolding service_install_def by (rule and_do_store[OF refl]) (simp add: middle)
qed

text \<open>C37. Reinstalling over an existing service keeps the machine's identity, the one that is stored or
  else the one in the configuration of an older client, stored before that client is uninstalled, and it
  is read back afterwards however the rest of the installation goes. This holds when the configuration
  can be read, the identity is complete, the writes of the machine store succeed and its reads are
  granted, and the uninstallation of the old client leaves the store alone. A failed write is only
  logged and the uninstallation goes on: see the next lemma.\<close>

theorem reinstallation_keeps_identity:
  fixes E w defines "stored \<equiv> fst (read_persisted_credentials (se_id E) (sw_id w))"
  assumes "sw_service w" "se_config_service_ok E"
    and "iw_config (sw_id w) = Content config" "\<forall>n. \<not> read_fails (rg_config_io (se_id E) n)"
    and "i = unwrap_or stored \<lparr> mi_machine_id = ac_machine_id config, mi_client_secret = ac_client_secret config \<rparr>"
    and "info_complete i" "\<forall>n k. rg_write_ok (se_id E) n k" "\<forall>b k. A b k = Granted"
    and "\<forall>w. store_of (snd (se_old_uninstall E w)) = store_of w"
  shows "machine_info_read P A repair (store_of (snd (service_install E p w))) = Ok (Some i)"
proof -
  obtain j where r: "read_persisted_credentials (se_id E) (sw_id w) = (stored, j)" by (metis assms(1) prod.collapse)
  have creds: "get_registration_credentials (rg_config_io (se_id E) n) (iw_config j) = Ok (ac_machine_id config, ac_client_secret config)" for n
    using assms(4,5) backfill_store(2)[OF r] by (simp add: get_registration_credentials_def config_get_def read_file_def)
  have written: "snd (machine_info_write Q (rg_write_ok (se_id E) n) i s) = Record i" for Q n s
    using assms(7,8) by (simp add: machine_info_write_def write_windows_def write_macos_def write_linux_def split: platform.split)
  have "store_of (backfill_identity E w) = Record i"
  proof (cases stored)
    case None
    then show ?thesis using backfill_store(4)[OF r None assms(3) creds] written assms(6,7) by simp
  next
    case (Some k)
    then show ?thesis using backfill_store(3)[OF r, of k] assms(6) by simp
  qed
  then have "store_of (snd (remove_old_installation E w)) = Record i"
    using assms(2,10) by (simp add: remove_old_installation_def Let_def)
  then show ?thesis using assms(7,9) by (simp add: install_store machine_info_read_granted decode_record_def)
qed

text \<open>Without an identity to write the old client is uninstalled just the same: with nothing stored and
  every write failing, the store is still empty when the old client, which has the only copy of the
  identity in its configuration, is removed.\<close>

lemma failed_backfill_is_ignored:
  assumes "sw_service w" "sw_binary w \<noteq> None" "se_launch_ok E" "iw_store (sw_id w) = NoStore"
    and "\<forall>n k. \<not> rg_write_ok (se_id E) n k"
  shows "\<exists>w1. remove_old_installation E w =
      (Ok (), (snd (se_old_uninstall E w1)) \<lparr> sw_slept := sw_slept (snd (se_old_uninstall E w1)) + 3000 \<rparr>) \<and>
    iw_store (sw_id w1) = NoStore"
proof -
  obtain c i where r: "read_persisted_credentials (se_id E) (sw_id w) = (c, i)" by fastforce
  have store: "iw_store i = NoStore"
    using read_credentials_frame r assms(4) unfolding read_persisted_credentials_def
    by (fastforce simp: same_files_def)
  have "sw_binary (backfill_identity E w) = sw_binary w" "iw_store (sw_id (backfill_identity E w)) = NoStore"
    using r store assms(5)
    by (auto simp: backfill_identity_def machine_info_write_def write_windows_def write_macos_def
        write_linux_def split: option.split sum.split platform.split)
  then show ?thesis using assms(1-3) by (auto simp: remove_old_installation_def Let_def)
qed

definition mac_uninstall :: uninstall_env where
  "mac_uninstall = \<lparr> un_platform = MacOS, un_admin = True, un_exe_known = True, un_manager_known = True, un_service = None,
     un_tools_ok = False, un_ops = sample_op, un_tool_ops = (\<lambda>_. sample_op), un_logs_is_support = False, un_dir = (\<lambda>_. stubborn),
     un_left = id, un_binary_removes = (\<lambda>_. True), un_script_removes = False \<rparr>"

definition mac_setup :: setup_env where
  "mac_setup = \<lparr> se_id = (sample_id True) \<lparr> rg_platform := MacOS \<rparr>,
     se_installer = \<lparr> in_mkcert = MkcertNotRun, in_exists = (\<lambda>_. False), in_sep = CHR ''/'', in_listing = (\<lambda>_. []), in_io = io_ok \<rparr>,
     se_config_service_ok = True, se_launch_ok = True,
     se_old_uninstall = (\<lambda>w. case service_uninstall mac_uninstall w of (r, w') \<Rightarrow> (is_ok r, w')),
     se_healthy = True, se_initial_service_ok = True, se_exe_path = Some ''/tmp/setup'', se_install_path = ''/usr/local/bin/openframe-client'', se_exe = ''new'',
     se_parent_exists = True, se_create_parent_ok = True, se_copy = (\<lambda>_. CopyDone), se_rename_ok = (\<lambda>_. True),
     se_aside_removable = (\<lambda>_. True), se_processes = [], se_own_pid = 1, se_lower = id, se_chmod_ok = True,
     se_path = \<lparr> pv_open_ok = True, pv_set_ok = True \<rparr>, se_bin_dir = ''/usr/local/bin'', se_service_install_ok = True \<rparr>"

definition old_machine :: setup_world where
  "old_machine = \<lparr> sw_id = (sample_id_world NoStore) \<lparr> iw_config := Content (default_configuration
       \<lparr> ac_machine_id := ''m1'', ac_client_secret := ''s1'' \<rparr>) \<rparr>,
     sw_binary = Some ''old'', sw_aside = None, sw_service = True, sw_path = None, sw_ops = sample_state, sw_logs = True,
     sw_support = True, sw_orbit = False, sw_killed = [], sw_slept = 0 \<rparr>"

definition good_params :: install_params where
  "good_params = \<lparr> ip_server_url = Some ''https://of.example'', ip_initial_key = Some ''k'', ip_org_id = Some ''o'',
     ip_local_mode = False, ip_tags = [] \<rparr>"

lemma old_machine_has_none: "fst (read_persisted_credentials (se_id mac_setup) (sw_id old_machine)) = None"
  by code_simp

lemma reinstallation_keeps_identity_witness:
  "machine_info_read MacOS (\<lambda>_ _. Granted) True (store_of (snd (service_install mac_setup good_params old_machine)))
     = Ok (Some sample_info)"
proof (rule reinstallation_keeps_identity)
  show "sw_service old_machine" "se_config_service_ok mac_setup" by (simp_all add: old_machine_def mac_setup_def)
  show "iw_config (sw_id old_machine) = Content (default_configuration \<lparr> ac_machine_id := ''m1'', ac_client_secret := ''s1'' \<rparr>)"
    by (simp add: old_machine_def)
  show "\<forall>n. \<not> read_fails (rg_config_io (se_id mac_setup) n)" "\<forall>n k. rg_write_ok (se_id mac_setup) n k"
    by (simp_all add: mac_setup_def sample_id_def)
  show "sample_info = unwrap_or (fst (read_persisted_credentials (se_id mac_setup) (sw_id old_machine)))
      \<lparr> mi_machine_id = ac_machine_id (default_configuration \<lparr> ac_machine_id := ''m1'', ac_client_secret := ''s1'' \<rparr>),
        mi_client_secret = ac_client_secret (default_configuration \<lparr> ac_machine_id := ''m1'', ac_client_secret := ''s1'' \<rparr>) \<rparr>"
    unfolding old_machine_has_none by (simp add: sample_info_def)
  show "info_complete sample_info" by code_simp
  show "\<forall>w. store_of (snd (se_old_uninstall mac_setup w)) = store_of w"
    using uninstall_keeps_store[of mac_uninstall] by (simp add: mac_setup_def mac_uninstall_def split_def)
qed simp

section \<open>Diagnostics before an installation\<close>

lemma present_blank: "present x = None \<longleftrightarrow> blank x"
  by (simp add: present_def blank_def split: option.split)

lemma preinstall_passed:
  assumes "\<not> has_failures (run_preinstall D p)"
  shows "missing_args p = [] \<and> do_admin D"
proof (rule ccontr)
  assume "\<not> (missing_args p = [] \<and> do_admin D)"
  then have "snd (check_required_args p) = Fails \<or> snd (check_admin_privileges D) = Fails"
    by (auto simp: check_required_args_def check_admin_privileges_def)
  moreover have "has_failures (a # rs) = (snd a = Fails \<or> has_failures rs)" for a rs by (simp add: has_failures_def)
  ultimately show False using assms unfolding run_preinstall_def Let_def append.simps by (simp only: if_split) blast
qed

definition argument_errors :: "installer_error set" where
  "argument_errors = {ServerUrlRequired, InitialKeyRequired, OrgIdRequired}"

lemma build_with_args:
  assumes "missing_args p = []" "build_and_save E p f = (Err e, f')"
  shows "e \<notin> argument_errors"
proof -
  obtain a b c where given: "present (ip_server_url p) = Some a" "present (ip_initial_key p) = Some b" "present (ip_org_id p) = Some c"
    using assms(1) present_blank[of "ip_server_url p"] present_blank[of "ip_initial_key p"] present_blank[of "ip_org_id p"]
    by (cases "present (ip_server_url p)"; cases "present (ip_initial_key p)"; cases "present (ip_org_id p)")
      (simp_all add: missing_args_def)
  have ca: "resolve_ca E = Err e' \<Longrightarrow> e' \<notin> argument_errors" for e'
    by (auto simp: resolve_ca_def argument_errors_def Let_def split: mkcert_outcome.splits if_splits)
  show ?thesis
  proof (cases "if ip_local_mode p then resolve_ca E else Ok []")
    case (Inl e')
    then have "e = e'" using assms(2) given by (simp add: build_and_save_def Let_def)
    then show ?thesis using Inl ca by (simp split: if_splits)
  next
    case (Inr path)
    then obtain e' where "e = InstallerSaveFailed e'"
      using assms(2) given by (auto simp: build_and_save_def Let_def map_err_def split: sum.splits prod.splits)
    then show ?thesis by (simp add: argument_errors_def)
  qed
qed

lemma and_do_Err: "and_do r f = (Err e, s') \<Longrightarrow> r = (Err e, s') \<or> (\<exists>x s. r = (Ok x, s) \<and> f x s = (Err e, s'))"
  by (cases r; cases "fst r") auto

lemma copy_binary_error:
  assumes "copy_binary E w = (Err e, w')"
  shows "e \<in> {NotMovedAside, BinaryNotCopied}"
proof -
  obtain b0 w1 where c0: "copy_over E 0 w = (b0, w1)" by fastforce
  obtain b1 w2 where c1: "copy_over E 1 (kill_processes_running_from E w1) = (b1, w2)" by fastforce
  define w3 where "w3 = remove_aside E 0 w2"
  obtain b2 w4 where c2: "copy_over E 2 (w3 \<lparr> sw_aside := sw_binary w3, sw_binary := None \<rparr>) = (b2, w4)" by fastforce
  have eq: "copy_binary E w = (if b0 then (Ok (), w1) else if b1 then (Ok (), w2)
      else if sw_binary w3 = None \<or> \<not> se_rename_ok E 0 then (Err NotMovedAside, w3)
      else if b2 then (Ok (), remove_aside E 1 w4)
      else (Err BinaryNotCopied, if se_rename_ok E 1 then w4 \<lparr> sw_binary := sw_aside w4, sw_aside := None \<rparr> else w4))"
    unfolding copy_binary_def Let_def c0 c1 prod.case w3_def[symmetric] c2 by (simp split: bool.split)
  show ?thesis using assms unfolding eq
    by (cases b0; cases b1; cases b2; cases "sw_binary w3 = None \<or> \<not> se_rename_ok E 0") simp_all
qed

lemma place_binary_error: "place_binary E w \<noteq> (Err (ConfigNotSaved e), w')"
  by (auto simp: place_binary_def map_err_def split: option.splits if_splits prod.splits sum.splits
      dest!: and_do_Err copy_binary_error)

lemma install_error:
  assumes "service_install E p w = (Err (ConfigNotSaved e), w')"
  shows "\<exists>f f'. build_and_save (se_installer E) p f = (Err e, f')"
proof -
  have "remove_old_installation E w \<noteq> (Err (ConfigNotSaved e), w')"
    by (simp add: remove_old_installation_def Let_def)
  then obtain w1 where eq: "and_do (save_initial_config E p w1) (\<lambda>_ w2. and_do (place_binary E w2) (\<lambda>_ w3. install_service E w3))
      = (Err (ConfigNotSaved e), w')"
    using and_do_Err[OF assms[unfolded service_install_def]] by (auto split: if_splits)
  have no: "and_do (place_binary E w2) (\<lambda>_ w3. install_service E w3) \<noteq> (Err (ConfigNotSaved e), w')" for w2
    using place_binary_error by (auto simp: install_service_def dest!: and_do_Err split: if_splits)
  from and_do_Err[OF eq] no have "save_initial_config E p w1 = (Err (ConfigNotSaved e), w')" by auto
  then show ?thesis
    by (auto simp: save_initial_config_def map_err_def split: prod.splits sum.splits if_splits)
qed

text \<open>C40. The command to install leaves the machine as it is when the diagnostics find a failure; when it does go on, the
  arguments are those the installation needs, so it does not remove an old installation to find one missing.\<close>

theorem install_command_guarded:
  "case install_command E D logging_ok p w of (code, r, w') \<Rightarrow>
     (has_failures (run_preinstall D p) \<longrightarrow> code = 1 \<and> r = None \<and> w' = w) \<and>
     (w' \<noteq> w \<longrightarrow> do_admin D \<and> missing_args p = []) \<and>
     (\<forall>e. r = Some (Err (ConfigNotSaved e)) \<longrightarrow> e \<notin> argument_errors) \<and>
     (code = 0 \<longleftrightarrow> r = Some (Ok ()))"
proof (cases "has_failures (run_preinstall D p) \<or> \<not> logging_ok")
  case False
  obtain r w' where r: "service_install E p w = (r, w')" by fastforce
  note passed = preinstall_passed[of D p]
  have "e \<notin> argument_errors" if "r = Err (ConfigNotSaved e)" for e
    using r that install_error[of E p w e w'] build_with_args passed False by blast
  moreover have "is_ok r = (r = Ok ())" by (cases r) simp_all
  ultimately show ?thesis using False passed by (simp add: install_command_def r)
qed (auto simp: install_command_def)

text \<open>What the diagnostics do not look at: the certificate of a local installation. Without one the old installation is
  removed and the new one fails.\<close>

lemma local_install_fails_after_removal:
  "let p = good_params \<lparr> ip_local_mode := True \<rparr>; (r, w') = service_install mac_setup p old_machine in
   r = Err (ConfigNotSaved MkcertUnusable) \<and> \<not> sw_service w' \<and> sw_binary w' = None"
  by code_simp

definition good_doctor :: "bool \<Rightarrow> doctor_env" where
  "good_doctor admin = \<lparr> do_admin = admin, do_webview = [], do_windows = False, do_ancestor = (\<lambda>_. True), do_writable = (\<lambda>_. True),
     do_bin_dir = ''/usr/local/bin'', do_support_dir = ''/Library/Application Support/OpenFrame'',
     do_secured_dir = ''/Library/Application Support/OpenFrame/secured'', do_logs_dir = ''/Library/Logs/OpenFrame'',
     do_service_dir = ''/Library/LaunchDaemons'', do_disks = [(''/'', 2 ^ 40)], do_resolve = (\<lambda>_. Some [''10.0.0.1:443'']),
     do_reachable = (\<lambda>_. True), do_get = (\<lambda>_. ProbeStatus 200), do_upgrade = (\<lambda>_. ProbeStatus 401), do_proxy = (\<lambda>_. False) \<rparr>"

lemma good_doctor_passes: "\<not> has_failures (run_preinstall (good_doctor True) good_params)" "has_failures (run_preinstall (good_doctor False) good_params)"
  by code_simp+

lemma install_command_guarded_witness:
  "install_command mac_setup (good_doctor False) True good_params old_machine = (1, None, old_machine)"
  using install_command_guarded[where E = mac_setup and D = "good_doctor False" and logging_ok = True and p = good_params and w = old_machine] good_doctor_passes(2)
  by (simp add: split_def prod_eq_iff)

lemma old_binary_is_kept_witness:
  "sw_binary (snd (copy_binary (mac_setup \<lparr> se_copy := (\<lambda>_. CopyRefused) \<rparr>) old_machine)) = Some ''old''"
proof -
  let ?E = "mac_setup \<lparr> se_copy := (\<lambda>_. CopyRefused) \<rparr>"
  have failed: "fst (copy_binary ?E old_machine) \<noteq> Ok ()" by code_simp
  have e: "se_copy ?E 0 = CopyRefused" "se_copy ?E 1 = CopyRefused" "se_rename_ok ?E 1" "sw_binary old_machine = Some ''old''"
    by (simp_all add: mac_setup_def old_machine_def)
  show ?thesis using old_binary_is_kept[of ?E old_machine "fst (copy_binary ?E old_machine)" "snd (copy_binary ?E old_machine)"] failed e
    by simp
qed

end
