(* ===== verification/Spec2Isabelle.thy ===== *)
theory Spec2Isabelle
  imports Delivery Deactivation Listeners MeshHeal Identity Tokens WindowsExecutor ChatDialogs ChatBridge Setup
begin

text \<open>A verification development of the OpenFrame client agent, the Rust program under
  src/clients/openframe-client/src/ (paths below are relative to it), and of the native side of its chat
  application, src/clients/openframe-chat/src-tauri/src/.

  The agent runs on a customer's machine. It executes scripts for the backend and returns their
  results, installs, supervises, restarts, updates and removes a set of tools, updates itself, and
  stops or removes itself when its tenant is gone. It talks to the backend by NATS messages and HTTP.

  Theories and the code they model, in the order of their imports:

  Prelude: results of fallible functions, sequencing, ordered key/value tables, and three interfaces
  as locales (a key/value table, a transition system with an invariant, a doubling delay).

  ExecModels (models/execution.rs): messages, requests and results of script execution.

  ResultStore (services/result\_store.rs): the journal of accepted scripts and the outbox of results.
  Each operation is one database transaction on a record of three tables. Lemmas: the encoding is
  bounded and terminates, completion is atomic, pruning drops the oldest entries, recovery turns each
  journal entry into a result.

  Outbox (services/result\_outbox\_run\_manager.rs, services/nats\_message\_publisher.rs): one pass
  of the flusher, and that no pass loses an entry.

  Execution (services/execution\_service.rs, listener/execution\_listener.rs): one script, one batch,
  the durable and the best-effort way.

  Delivery: the batches, the flusher, the recovery and crashes as a step relation; no accepted script
  is lost in any interleaving, except a result that was one of the oldest over the outbox's cap, judged
  by the outbox before the completion; the steps of one task are the operations of Execution.

  Deactivation (services/deactivation\_service.rs): gating of outbound calls after five 410 answers,
  the probe, and the uninstallation of the agent when it is due.

  Registry (services/installed\_tools\_service.rs, services/tool\_connection\_service.rs,
  services/agent\_configuration\_service.rs and their models): JSON files as missing, parsed or
  corrupt; the tools file refines a map.

  Supervision (services/tool\_run\_manager.rs): marks, locks and the supervisor loop as a state
  machine; one supervisor per tool, the updating mark counts the operations in flight.

  ToolKill (services/tool\_kill\_service.rs): finding and stopping processes, with verification.

  ToolOps (services/tool\_restart\_service.rs, services/tool\_uninstall\_service.rs): restart and
  uninstallation under the lock and the mark of a tool, with time-outs and panics; the clean-up of a
  restart is the list of the states it goes through, so the order of its releases is stated.

  GithubDownload (services/github\_download\_service.rs, models/download\_configuration.rs): download
  with retries and a mirror, unpacking of archives.

  ClientUpdate (services/openframe\_client\_update\_service.rs, services/update\_handler\_service.rs,
  services/update\_state\_service.rs, services/openframe\_client\_info\_service.rs,
  services/last\_known\_good\_service.rs, services/update\_cleanup\_service.rs, the first steps of
  Client::start in lib.rs): update messages, the files they keep, the boot-time handling of an update
  in flight, and the anchor below which no version is accepted.

  Listeners (listener/*.rs): consumers with retries, the gate that parks tool messages during a client
  update, and the handlers of uninstall, restart and client update messages.

  Params (services/tool\_command\_params\_resolver.rs, services/tool\_url\_params\_resolver.rs):
  placeholders in command lines and URLs; they resolve to the text with every placeholder replaced.

  ToolConnections (services/tool\_connection\_processing\_manager.rs and what it calls): the loop of
  each tool that finds and publishes its id, turn by turn, and the marks that keep it to one loop.

  ToolInstall (services/tool\_installation\_service.rs, services/tool\_agent\_file\_client.rs as a
  parameter): an installation from the existing record to the start of the tool. A panic in it, which
  nothing catches, is only stated to leave the mark set.

  ToolUpdate (services/tool\_agent\_update\_service.rs, platform/tool\_updater/): the three updaters
  with backup, rollback and migration.

  LogStreaming (logging/log\_source.rs, log\_parser.rs, log\_rotation.rs, nats\_streaming.rs): reading a log from an offset through a buffer,
  merging repeated lines, sharing and committing a batch.

  MeshHeal (services/mesh\_self\_heal\_service.rs): the watcher of the agent's log and the refresh of
  its configuration file.

  Retry: a loop that tries until it succeeds, as a locale; registering, fetching the initial key and
  the first authentication are its instances.

  Identity (services/agent\_registration\_service.rs, the stored identity and the installer's
  configuration), Tokens (services/agent\_auth\_service.rs, token refresh, shared token, reconnects,
  heartbeats): how the agent becomes and stays known to the backend.

  ScriptOutput (executor/output.rs): what a script prints, read up to a cap and cleaned. The
  validation of UTF-8 is written out and proved to accept exactly the encodings of code points. (Trimming and splitting know the ASCII white
  space; the code's is that of Unicode.)

  UnixExecutor (executor/env.rs, output.rs, tempfile.rs, executor/unix/): the user, the temporary
  file, the process with its time-out and its streams. Lemmas: a run ends within a bound once its user is
  known (the commands that find the user have no time-out and may keep it forever), what becomes
  of the output of processes left behind, whose file and process it is.

  WindowsExecutor (executor/windows/): the interpreter, the job, the run of the agent's own user and
  the run in the session of the user, with its command line and its environment block, which is
  proved to read back as it was put together.

  ChatDialogs (nats\_bridge/dialogs.rs of ../../openframe-chat/src-tauri/src/, the native side of the chat
  application): the consumers of open dialogs in every interleaving of the bridge's tasks. Chunks are
  handed over in order and none is missed as long as creations do not overlap and a dialog keeps a start
  it was given; otherwise chunks are lost. What the web view needs no chunk of is fixed by the first
  consumer, independently of what the code keeps for resuming.

  ChatBridge (config\_reader.rs, token\_watcher.rs, token\_decryption\_service.rs, lib.rs and
  nats\_bridge/connection.rs, notifications.rs, mod.rs of the same directory): configuration, token, connection,
  notifications and their clicks. Lemmas: the configuration the client writes is the one the chat reads
  (with what was stored before where the client wrote nothing), events of the token and of the connection are exactly the changes, a click arrives as what was notified.

  Setup (service.rs, platform/uninstall.rs, main.rs, doctor/): installing over an old installation and removing it.
  The identity survives when it can be stored, the binary is replaced or kept, a directory is removed or reported, the
  system path reads back as it was (less a closing semicolon), the diagnostics guard the installation.

  How they interact: listeners call the services; the services share the run manager's state (its
  locks, its updating marks, the installed tools file) and the kill service; the execution listener
  and the flusher share the result store. Each theory's state record extends or contains the state of
  the parts it calls, and its operations are composed of theirs.

  The environment. Whatever is outside the code is a field of an environment record or an argument:
  answers of the operating system, of the network, of file operations and clocks. A field is indexed
  by a counter of the state where successive calls may answer differently. Nothing is assumed of it
  except where a property says so. Assumptions built into the model: a redb transaction is atomic and
  its tables are ordered by key; serde reads back what it wrote; a rename replaces a file atomically;
  the blocking process scan does not panic; an ordering of semantic versions is a linear order.

  Bounds. Loops over lists are structural recursions. The loop that shrinks a result has a measure.
  The loops that may run forever (waiting for a consumer, parking a message, registering,
  authenticating, fetching the initial key) are partial functions
  with the value None when they do; the properties state when they return. Retry loops carry the
  code's own bound. Machine integers are words where they can wrap (counters of failures, timeouts)
  and naturals where the code saturates or compares only.

  Not modelled: parsing and printing of JSON (serde), the NATS and HTTP clients, redb, archive
  formats, the service managers and file permissions of the three platforms, the tracing layer, what
  the diagnostics print, the chat's windows, tray and user interface, the notification centres
  of macOS and Windows, and the server side, of which this repository holds only build
  and deployment files. The manifest gives each part's reason.\<close>

end
